(* ===== verification/Nn_Prelude.thy ===== *)
theory Nn_Prelude
  imports Main "HOL-Library.Word" "HOL-Library.Monad_Syntax"
begin

text \<open>
  Shared vocabulary of the development: machine integers at the widths of
  \<^verbatim>\<open>stdint.h\<close>, the error numbers the library returns, the outcome of code that may
  abort, and the generic lemmas on options, lists and words used by several components.

  Every C function that may hit a failing \<^verbatim>\<open>nn_assert\<close> / \<^verbatim>\<open>errnum_assert\<close>
  (\<^verbatim>\<open>utils/err.h\<close>) or touch memory it must not touch returns an \<^typ>\<open>'a option\<close>:
  \<open>None\<close> is the aborted process.  A return code that is negative on error is a value of
  \<open>'a rc\<close>: \<open>Inl e\<close> stands for \<open>-e\<close>.
\<close>

unbundle bit_operations_syntax

section \<open>Types\<close>

type_synonym u8 = "8 word"
type_synonym u16 = "16 word"
type_synonym u32 = "32 word"
type_synonym u64 = "64 word"
type_synonym bytes = "u8 list"

datatype errno =
    EAGAIN | EINVAL | ENOMEM | ENOBUFS | EISCONN | ENOPROTOOPT | EFSM | ETIMEDOUT
  | ECONNRESET | EADDRINUSE | ENAMETOOLONG

type_synonym 'a rc = "errno + 'a"

text \<open>\<^verbatim>\<open>nn_assert\<close> of \<^verbatim>\<open>utils/err.h\<close>: the process is aborted when the condition fails.\<close>

definition nn_assert :: "bool \<Rightarrow> unit option" where
  "nn_assert b = (if b then Some () else None)"

section \<open>Collections of facts\<close>

named_theorems wire_simps \<open>evaluation of the byte-order primitives\<close>
named_theorems keep_inv \<open>operations that keep an invariant\<close>

section \<open>Options\<close>

lemma nn_assert_simps [simp]:
  "nn_assert True = Some ()" "nn_assert False = None"
  by (simp_all add: nn_assert_def)

lemma nn_assert_eq_Some [simp]: "nn_assert b = Some u \<longleftrightarrow> b"
  by (simp add: nn_assert_def)

lemma nn_assert_eq_None [simp]: "nn_assert b = None \<longleftrightarrow> \<not> b"
  by (simp add: nn_assert_def)

lemma bind_nn_assert_Some [simp]:
  "(nn_assert b \<bind> f) = Some y \<longleftrightarrow> b \<and> f () = Some y"
  by (simp add: nn_assert_def)

lemma bind_nn_assert_True: "b \<Longrightarrow> (nn_assert b \<bind> f) = f ()"
  by simp

section \<open>Lists\<close>

text \<open>The element that follows \<open>x\<close> in a list, if there is one.\<close>

fun succ_of :: "'a list \<Rightarrow> 'a \<Rightarrow> 'a option" where
  "succ_of [] x = None"
| "succ_of [y] x = None"
| "succ_of (y # z # ys) x = (if x = y then Some z else succ_of (z # ys) x)"

lemma succ_of_in_set: "succ_of xs x = Some y \<Longrightarrow> y \<in> set xs"
  by (induction xs x rule: succ_of.induct) (auto split: if_splits)

lemma succ_of_notin [simp]: "x \<notin> set xs \<Longrightarrow> succ_of xs x = None"
  by (induction xs x rule: succ_of.induct) auto

lemma succ_of_split:
  "x \<notin> set as \<Longrightarrow> succ_of (as @ x # bs) x = (case bs of [] \<Rightarrow> None | b # _ \<Rightarrow> Some b)"
proof (induction as)
  case Nil
  then show ?case by (cases bs) auto
next
  case (Cons a as)
  then show ?case by (cases as) auto
qed

lemma remove1_split:
  "x \<notin> set as \<Longrightarrow> remove1 x (as @ x # bs) = as @ bs"
  by (induction as) auto

lemma hd_opt_simps [simp]:
  "(case xs @ [x] of [] \<Rightarrow> None | y # _ \<Rightarrow> Some y) = Some (case xs of [] \<Rightarrow> x | y # _ \<Rightarrow> y)"
  by (cases xs) auto

lemma length_4_conv: "length xs = 4 \<Longrightarrow> \<exists>a b c d. xs = [a, b, c, d]"
  by (auto simp: numeral_eq_Suc length_Suc_conv)

end
