(* ===== verification/Nn_Wire.thy ===== *)
theory Nn_Wire
  imports Nn_Prelude
begin

text \<open>
  \<^verbatim>\<open>utils/wire.c\<close>: big-endian reads and writes of 16, 32 and 64 bit integers.  A buffer
  is the list of the bytes from the pointer on; a buffer that is too short is an access
  outside the object (\<open>None\<close>).
\<close>

definition nn_gets :: "bytes \<Rightarrow> u16 option" where
  "nn_gets buf = (if length buf < 2 then None else Some
     (push_bit 8 (ucast (buf ! 0)) OR ucast (buf ! 1)))"

definition nn_puts :: "bytes \<Rightarrow> u16 \<Rightarrow> bytes option" where
  "nn_puts buf val = (if length buf < 2 then None else Some (buf
     [0 := ucast (drop_bit 8 val AND 0xff), 1 := ucast (val AND 0xff)]))"

definition nn_getl :: "bytes \<Rightarrow> u32 option" where
  "nn_getl buf = (if length buf < 4 then None else Some
     (push_bit 24 (ucast (buf ! 0)) OR push_bit 16 (ucast (buf ! 1)) OR
      push_bit 8 (ucast (buf ! 2)) OR ucast (buf ! 3)))"

definition nn_putl :: "bytes \<Rightarrow> u32 \<Rightarrow> bytes option" where
  "nn_putl buf val = (if length buf < 4 then None else Some (buf
     [0 := ucast (drop_bit 24 val AND 0xff), 1 := ucast (drop_bit 16 val AND 0xff),
      2 := ucast (drop_bit 8 val AND 0xff), 3 := ucast (val AND 0xff)]))"

definition nn_getll :: "bytes \<Rightarrow> u64 option" where
  "nn_getll buf = (if length buf < 8 then None else Some
     (push_bit 56 (ucast (buf ! 0)) OR push_bit 48 (ucast (buf ! 1)) OR
      push_bit 40 (ucast (buf ! 2)) OR push_bit 32 (ucast (buf ! 3)) OR
      push_bit 24 (ucast (buf ! 4)) OR push_bit 16 (ucast (buf ! 5)) OR
      push_bit 8 (ucast (buf ! 6)) OR push_bit 0 (ucast (buf ! 7))))"

definition nn_putll :: "bytes \<Rightarrow> u64 \<Rightarrow> bytes option" where
  "nn_putll buf val = (if length buf < 8 then None else Some (buf
     [0 := ucast (drop_bit 56 val AND 0xff), 1 := ucast (drop_bit 48 val AND 0xff),
      2 := ucast (drop_bit 40 val AND 0xff), 3 := ucast (drop_bit 32 val AND 0xff),
      4 := ucast (drop_bit 24 val AND 0xff), 5 := ucast (drop_bit 16 val AND 0xff),
      6 := ucast (drop_bit 8 val AND 0xff), 7 := ucast (val AND 0xff)]))"

section \<open>Byte extraction\<close>

lemma bit_byte [bit_simps]:
  fixes v :: "'a::len word"
  assumes "8 \<le> LENGTH('a)" and "k + 8 \<le> LENGTH('a)"
  shows "bit (push_bit k (ucast (ucast (drop_bit k v AND 0xff) :: u8)) :: 'a word) n \<longleftrightarrow>
         k \<le> n \<and> n < k + 8 \<and> bit v n"
proof -
  have m: "(0xff :: 'a word) = mask 8"
    by (simp add: mask_numeral)
  show ?thesis
    unfolding m using assms by (auto simp: bit_simps dest: bit_imp_le_length)
qed

lemma bit_byte0:
  fixes v :: "'a::len word"
  assumes "8 \<le> LENGTH('a)"
  shows "bit (ucast (ucast (v AND 0xff) :: u8) :: 'a word) n \<longleftrightarrow> n < 8 \<and> bit v n"
  using bit_byte [of 0 v n] assms by simp

lemma join16:
  fixes v :: u16
  shows "push_bit 8 (ucast (ucast (drop_bit 8 v AND 0xff) :: u8)) OR
         ucast (ucast (v AND 0xff) :: u8) = v"
  by (rule bit_word_eqI) (auto simp: bit_or_iff bit_byte bit_byte0)

lemma join32:
  fixes v :: u32
  shows "push_bit 24 (ucast (ucast (drop_bit 24 v AND 0xff) :: u8)) OR
         push_bit 16 (ucast (ucast (drop_bit 16 v AND 0xff) :: u8)) OR
         push_bit 8 (ucast (ucast (drop_bit 8 v AND 0xff) :: u8)) OR
         ucast (ucast (v AND 0xff) :: u8) = v"
  by (rule bit_word_eqI) (auto simp: bit_or_iff bit_byte bit_byte0)

lemma join64:
  fixes v :: u64
  shows "push_bit 56 (ucast (ucast (drop_bit 56 v AND 0xff) :: u8)) OR
         push_bit 48 (ucast (ucast (drop_bit 48 v AND 0xff) :: u8)) OR
         push_bit 40 (ucast (ucast (drop_bit 40 v AND 0xff) :: u8)) OR
         push_bit 32 (ucast (ucast (drop_bit 32 v AND 0xff) :: u8)) OR
         push_bit 24 (ucast (ucast (drop_bit 24 v AND 0xff) :: u8)) OR
         push_bit 16 (ucast (ucast (drop_bit 16 v AND 0xff) :: u8)) OR
         push_bit 8 (ucast (ucast (drop_bit 8 v AND 0xff) :: u8)) OR
         ucast (ucast (v AND 0xff) :: u8) = v"
  by (rule bit_word_eqI) (auto simp: bit_or_iff bit_byte bit_byte0)

section \<open>Lengths and frames\<close>

lemma nn_putl_length: "nn_putl buf v = Some buf' \<Longrightarrow> length buf' = length buf"
  by (auto simp: nn_putl_def split: if_splits)

lemma nn_putl_frame: "nn_putl buf v = Some buf' \<Longrightarrow> drop 4 buf' = drop 4 buf"
  by (auto simp: nn_putl_def split: if_splits)

lemma nn_putl_Some: "4 \<le> length buf \<Longrightarrow> \<exists>buf'. nn_putl buf v = Some buf'"
  by (simp add: nn_putl_def)

lemma nn_getl_take: "nn_getl (take 4 buf) = nn_getl buf"
  by (auto simp: nn_getl_def)

lemma nn_getl_append: "length h = 4 \<Longrightarrow> nn_getl (h @ t) = nn_getl h"
  by (auto simp: nn_getl_def nth_append)

text \<open>The four bytes \<^verbatim>\<open>nn_putl\<close> stores.\<close>

definition be32 :: "u32 \<Rightarrow> bytes" where
  "be32 v = [ucast (drop_bit 24 v AND 0xff), ucast (drop_bit 16 v AND 0xff),
             ucast (drop_bit 8 v AND 0xff), ucast (v AND 0xff)]"

lemma length_be32 [simp]: "length (be32 v) = 4"
  by (simp add: be32_def)

lemma nn_putl_be32: "length buf = 4 \<Longrightarrow> nn_putl buf v = Some (be32 v)"
  by (auto simp: nn_putl_def be32_def dest!: length_4_conv)

lemma nn_putl_be32_gen: "4 \<le> length buf \<Longrightarrow> nn_putl buf v = Some (be32 v @ drop 4 buf)"
proof -
  assume "4 \<le> length buf"
  then obtain a b c d rest where "buf = a # b # c # d # rest"
    by (auto simp: numeral_eq_Suc Suc_le_length_iff)
  then show ?thesis by (simp add: nn_putl_def be32_def)
qed

lemma nn_getl_be32 [wire_simps]: "nn_getl (be32 v @ t) = Some v"
  by (simp add: nn_getl_def be32_def join32)

lemma nn_getl_be32' [wire_simps]: "nn_getl (be32 v) = Some v"
  using nn_getl_be32 [of v "[]"] by simp

section \<open>Round trips\<close>

text \<open>
  Writing a 16, 32 or 64 bit value with \<^verbatim>\<open>nn_puts\<close>, \<^verbatim>\<open>nn_putl\<close> or
  \<^verbatim>\<open>nn_putll\<close> and reading it back gives the value, for every value and every buffer
  that is long enough; the write never fails there and leaves the bytes behind the field
  untouched.
\<close>

lemma wire_put_get:
  "(2 \<le> length b \<longrightarrow> (\<exists>b'. nn_puts b s = Some b' \<and> nn_gets b' = Some s \<and>
      length b' = length b \<and> drop 2 b' = drop 2 b)) \<and>
   (4 \<le> length b \<longrightarrow> (\<exists>b'. nn_putl b l = Some b' \<and> nn_getl b' = Some l \<and>
      length b' = length b \<and> drop 4 b' = drop 4 b)) \<and>
   (8 \<le> length b \<longrightarrow> (\<exists>b'. nn_putll b ll = Some b' \<and> nn_getll b' = Some ll \<and>
      length b' = length b \<and> drop 8 b' = drop 8 b))"
  by (cases b) (auto simp: nn_puts_def nn_gets_def nn_putl_def nn_getl_def nn_putll_def
      nn_getll_def join16 join32 join64)

lemma putll_some: "length b = 8 \<Longrightarrow> \<exists>h. nn_putll b v = Some h \<and> length h = 8 \<and> nn_getll h = Some v"
  by (auto simp: nn_putll_def nn_getll_def join64)

text \<open>The eight bytes \<^verbatim>\<open>nn_putll\<close> stores.\<close>

definition be64 :: "u64 \<Rightarrow> bytes" where
  "be64 v = the (nn_putll (replicate 8 0) v)"

lemma nn_putll_be64: "length b = 8 \<Longrightarrow> nn_putll b v = Some (be64 v)"
  unfolding be64_def nn_putll_def by (auto simp: numeral_eq_Suc length_Suc_conv)

lemma be64_facts: "length (be64 v) = 8" "nn_getll (be64 v) = Some v"
  using putll_some [of "replicate 8 0" v] nn_putll_be64 [of "replicate 8 0" v] by auto

lemma nn_getll_append: "length h = 8 \<Longrightarrow> nn_getll (h @ t) = nn_getll h"
  by (auto simp: nn_getll_def nth_append)

end
