(* ===== verification/Nn_List.thy ===== *)
theory Nn_List
  imports Nn_Prelude
begin

text \<open>
  \<^verbatim>\<open>utils/list.c\<close>: the intrusive doubly linked list.  The items live in a store \<open>h\<close>
  that maps an item's address to its two links; a list object holds the ends.  The second
  half relates the pointer code to plain sequences: \<open>dll h l xs\<close> says that the list
  object \<open>l\<close> chains exactly the items \<open>xs\<close>, in this order.  The components above
  (priority lists, distributors, hash slots, timers) are modelled over these sequences.
\<close>

section \<open>Model\<close>

text \<open>A \<^verbatim>\<open>struct nn_list_item*\<close>: \<^verbatim>\<open>NULL\<close>, the value \<^verbatim>\<open>NN_LIST_NOTINLIST\<close> or an item.\<close>

datatype 'a ptr = Null | NotInList | Ptr 'a

record 'a nn_list_item =
  li_next :: "'a ptr"
  li_prev :: "'a ptr"

record 'a nn_list =
  l_first :: "'a ptr"
  l_last :: "'a ptr"

type_synonym 'a items = "'a \<Rightarrow> 'a nn_list_item"

text \<open>Writes through a pointer; anything but an item is not a valid address.\<close>

definition set_next :: "'a items \<Rightarrow> 'a ptr \<Rightarrow> 'a ptr \<Rightarrow> 'a items option" where
  "set_next h p v = (case p of Ptr a \<Rightarrow> Some (h(a := (h a)\<lparr>li_next := v\<rparr>)) | _ \<Rightarrow> None)"

definition set_prev :: "'a items \<Rightarrow> 'a ptr \<Rightarrow> 'a ptr \<Rightarrow> 'a items option" where
  "set_prev h p v = (case p of Ptr a \<Rightarrow> Some (h(a := (h a)\<lparr>li_prev := v\<rparr>)) | _ \<Rightarrow> None)"

definition nn_list_init :: "'a nn_list" where
  "nn_list_init = \<lparr>l_first = Null, l_last = Null\<rparr>"

definition nn_list_term :: "'a nn_list \<Rightarrow> unit option" where
  "nn_list_term self = do { nn_assert (l_first self = Null); nn_assert (l_last self = Null) }"

definition nn_list_empty :: "'a nn_list \<Rightarrow> bool" where
  "nn_list_empty self = (if l_first self \<noteq> Null then False else True)"

definition nn_list_begin :: "'a nn_list \<Rightarrow> 'a ptr" where
  "nn_list_begin self = l_first self"

definition nn_list_end :: "'a nn_list \<Rightarrow> 'a ptr" where
  "nn_list_end self = Null"

definition nn_list_prev :: "'a items \<Rightarrow> 'a nn_list \<Rightarrow> 'a ptr \<Rightarrow> 'a ptr option" where
  "nn_list_prev h self it = (case it of
       Null \<Rightarrow> Some (l_last self)
     | NotInList \<Rightarrow> None
     | Ptr a \<Rightarrow> do { nn_assert (li_prev (h a) \<noteq> NotInList); Some (li_prev (h a)) })"

definition nn_list_next :: "'a items \<Rightarrow> 'a nn_list \<Rightarrow> 'a ptr \<Rightarrow> 'a ptr option" where
  "nn_list_next h self it = (case it of
       Ptr a \<Rightarrow> do { nn_assert (li_next (h a) \<noteq> NotInList); Some (li_next (h a)) }
     | _ \<Rightarrow> None)"

definition nn_list_item_init :: "'a items \<Rightarrow> 'a \<Rightarrow> 'a items" where
  "nn_list_item_init h item = h(item := \<lparr>li_next = NotInList, li_prev = NotInList\<rparr>)"

definition nn_list_item_isinlist :: "'a items \<Rightarrow> 'a \<Rightarrow> bool" where
  "nn_list_item_isinlist h item = (if li_prev (h item) = NotInList then False else True)"

definition nn_list_item_term :: "'a items \<Rightarrow> 'a \<Rightarrow> unit option" where
  "nn_list_item_term h item = nn_assert (\<not> nn_list_item_isinlist h item)"

definition nn_list_insert ::
  "'a items \<Rightarrow> 'a nn_list \<Rightarrow> 'a \<Rightarrow> 'a ptr \<Rightarrow> ('a items \<times> 'a nn_list) option" where
  "nn_list_insert h self item it = do {
     nn_assert (\<not> nn_list_item_isinlist h item);
     p \<leftarrow> (case it of Null \<Rightarrow> Some (l_last self) | NotInList \<Rightarrow> None
          | Ptr a \<Rightarrow> Some (li_prev (h a)));
     let h = h(item := \<lparr>li_next = it, li_prev = p\<rparr>);
     h \<leftarrow> (if p \<noteq> Null then set_next h p (Ptr item) else Some h);
     h \<leftarrow> (if it \<noteq> Null then set_prev h it (Ptr item) else Some h);
     let self = (if l_first self = Null \<or> l_first self = it
                 then self\<lparr>l_first := Ptr item\<rparr> else self);
     let self = (if it = Null then self\<lparr>l_last := Ptr item\<rparr> else self);
     Some (h, self) }"

definition nn_list_erase ::
  "'a items \<Rightarrow> 'a nn_list \<Rightarrow> 'a \<Rightarrow> ('a ptr \<times> 'a items \<times> 'a nn_list) option" where
  "nn_list_erase h self item = do {
     nn_assert (nn_list_item_isinlist h item);
     (h, self) \<leftarrow> (if li_prev (h item) \<noteq> Null
        then map_option (\<lambda>h. (h, self)) (set_next h (li_prev (h item)) (li_next (h item)))
        else Some (h, self\<lparr>l_first := li_next (h item)\<rparr>));
     (h, self) \<leftarrow> (if li_next (h item) \<noteq> Null
        then map_option (\<lambda>h. (h, self)) (set_prev h (li_next (h item)) (li_prev (h item)))
        else Some (h, self\<lparr>l_last := li_prev (h item)\<rparr>));
     let nxt = li_next (h item);
     let h = h(item := \<lparr>li_next = NotInList, li_prev = NotInList\<rparr>);
     Some (nxt, h, self) }"

section \<open>Chains and the sequence a list represents\<close>

fun head_ptr :: "'a list \<Rightarrow> 'a ptr \<Rightarrow> 'a ptr" where
  "head_ptr [] n = n"
| "head_ptr (x # xs) n = Ptr x"

definition last_ptr :: "'a ptr \<Rightarrow> 'a list \<Rightarrow> 'a ptr" where
  "last_ptr p xs = (if xs = [] then p else Ptr (last xs))"

fun dseg :: "'a items \<Rightarrow> 'a ptr \<Rightarrow> 'a list \<Rightarrow> 'a ptr \<Rightarrow> bool" where
  "dseg h p [] n \<longleftrightarrow> True"
| "dseg h p (x # xs) n \<longleftrightarrow>
     li_prev (h x) = p \<and> li_next (h x) = head_ptr xs n \<and> dseg h (Ptr x) xs n"

definition dll :: "'a items \<Rightarrow> 'a nn_list \<Rightarrow> 'a list \<Rightarrow> bool" where
  "dll h l xs \<longleftrightarrow> distinct xs \<and> dseg h Null xs Null \<and>
     l_first l = head_ptr xs Null \<and> l_last l = last_ptr Null xs"

lemma last_ptr_simps [simp]:
  "last_ptr p [] = p" "last_ptr p (xs @ [x]) = Ptr x" "last_ptr p (x # xs) = last_ptr (Ptr x) xs"
  by (auto simp: last_ptr_def)

lemma head_ptr_append [simp]: "head_ptr (xs @ ys) n = head_ptr xs (head_ptr ys n)"
  by (cases xs) auto

lemma last_ptr_append [simp]: "last_ptr p (xs @ ys) = last_ptr (last_ptr p xs) ys"
  by (induction xs arbitrary: p) auto

lemma head_ptr_Null [simp]: "head_ptr xs n = Null \<longleftrightarrow> xs = [] \<and> n = Null"
  by (cases xs) auto

lemma head_ptr_NotInList [simp]: "head_ptr xs n = NotInList \<longleftrightarrow> xs = [] \<and> n = NotInList"
  by (cases xs) auto

lemma head_ptr_fresh [simp]:
  "a \<notin> set xs \<Longrightarrow> head_ptr xs n = Ptr a \<longleftrightarrow> xs = [] \<and> n = Ptr a"
  by (cases xs) auto

lemma isinlist_iff: "nn_list_item_isinlist h x \<longleftrightarrow> li_prev (h x) \<noteq> NotInList"
  by (simp add: nn_list_item_isinlist_def)

lemma last_ptr_Null [simp]: "last_ptr n xs = Null \<longleftrightarrow> xs = [] \<and> n = Null"
  by (auto simp: last_ptr_def)

lemma last_ptr_NotInList [simp]: "last_ptr n xs = NotInList \<longleftrightarrow> xs = [] \<and> n = NotInList"
  by (auto simp: last_ptr_def)

lemma dseg_append [simp]:
  "dseg h p (xs @ ys) n \<longleftrightarrow> dseg h p xs (head_ptr ys n) \<and> dseg h (last_ptr p xs) ys n"
  by (induction xs arbitrary: p) auto

lemma dseg_cong: "(\<And>x. x \<in> set xs \<Longrightarrow> h' x = h x) \<Longrightarrow> dseg h' p xs n = dseg h p xs n"
  by (induction xs arbitrary: p) auto

lemma dseg_upd [simp]: "y \<notin> set xs \<Longrightarrow> dseg (h(y := v)) p xs n = dseg h p xs n"
  by (rule dseg_cong) auto

text \<open>Redirecting the ends of a segment by writing its first or its last item.\<close>

lemma dseg_set_last:
  "distinct (xs @ [x]) \<Longrightarrow> dseg h p (xs @ [x]) n \<Longrightarrow>
   dseg (h(x := (h x)\<lparr>li_next := m\<rparr>)) p (xs @ [x]) m"
  by auto

lemma dseg_set_first:
  "distinct (x # xs) \<Longrightarrow> dseg h p (x # xs) n \<Longrightarrow>
   dseg (h(x := (h x)\<lparr>li_prev := q\<rparr>)) q (x # xs) n"
  by auto

lemma dseg_inlist: "dseg h p xs n \<Longrightarrow> p \<noteq> NotInList \<Longrightarrow> x \<in> set xs \<Longrightarrow> nn_list_item_isinlist h x"
  by (induction xs arbitrary: p) (fastforce simp: isinlist_iff)+

lemma dll_inlist: "dll h l xs \<Longrightarrow> x \<in> set xs \<Longrightarrow> nn_list_item_isinlist h x"
  unfolding dll_def by (blast intro: dseg_inlist)

lemma dll_init: "dll h nn_list_init []"
  by (simp add: dll_def nn_list_init_def)

lemma dll_frame: "dll h l xs \<Longrightarrow> (\<And>x. x \<in> set xs \<Longrightarrow> h' x = h x) \<Longrightarrow> dll h' l xs"
  unfolding dll_def using dseg_cong [of xs h' h] by blast

lemma dll_empty: "dll h l xs \<Longrightarrow> nn_list_empty l \<longleftrightarrow> xs = []"
  by (simp add: dll_def nn_list_empty_def)

lemma dll_begin: "dll h l xs \<Longrightarrow> nn_list_begin l = head_ptr xs Null"
  by (simp add: dll_def nn_list_begin_def)

lemma dll_term: "dll h l xs \<Longrightarrow> nn_list_term l = Some () \<longleftrightarrow> xs = []"
  by (auto simp: dll_def nn_list_term_def)

lemma dll_next: "dll h l (as @ x # bs) \<Longrightarrow> nn_list_next h l (Ptr x) = Some (head_ptr bs Null)"
  by (auto simp: dll_def nn_list_next_def)

lemma dll_prev: "dll h l (as @ bs) \<Longrightarrow> nn_list_prev h l (head_ptr bs Null) = Some (last_ptr Null as)"
  by (cases bs) (auto simp: dll_def nn_list_prev_def)

section \<open>Insertion and removal\<close>

text \<open>
  \<^verbatim>\<open>nn_list_insert\<close> of an item that is in no list, before the iterator \<open>it\<close> (an
  item of the list or its end), never aborts and turns the sequence \<open>as @ bs\<close> into
  \<open>as @ item # bs\<close>, where \<open>bs\<close> starts at \<open>it\<close>.  Only the links of the list's own
  items and of the new item are written, and the new item is in a list afterwards.
\<close>

lemma nn_list_insert_refines:
  assumes rep: "dll h l (as @ bs)" and fresh: "\<not> nn_list_item_isinlist h item"
  shows "\<exists>h' l'. nn_list_insert h l item (head_ptr bs Null) = Some (h', l') \<and>
    dll h' l' (as @ item # bs) \<and> nn_list_item_isinlist h' item \<and>
    (\<forall>x. x \<notin> set (as @ bs) \<and> x \<noteq> item \<longrightarrow> h' x = h x)"
proof -
  have new: "item \<notin> set (as @ bs)"
    using dll_inlist [OF rep] fresh by blast
  show ?thesis
    using rep fresh new
    by (cases as rule: rev_cases; cases bs)
      (auto simp: dll_def nn_list_insert_def isinlist_iff set_next_def set_prev_def)
qed

text \<open>
  \<^verbatim>\<open>nn_list_erase\<close> of an item of the list never aborts, takes exactly this item out of
  the sequence, returns the item that followed it (\<^verbatim>\<open>NULL\<close> at the end), marks the item as
  being in no list, and writes no link of an item outside the list.
\<close>

lemma nn_list_erase_refines:
  assumes rep: "dll h l (as @ item # bs)"
  shows "\<exists>h' l'. nn_list_erase h l item = Some (head_ptr bs Null, h', l') \<and>
    dll h' l' (as @ bs) \<and> \<not> nn_list_item_isinlist h' item \<and>
    (\<forall>x. x \<notin> set (as @ item # bs) \<longrightarrow> h' x = h x)"
  using rep
  by (cases as rule: rev_cases; cases bs)
    (auto simp: dll_def nn_list_erase_def isinlist_iff set_next_def set_prev_def)

end
