(* ===== verification/Nn_Fifo.thy ===== *)
theory Nn_Fifo
  imports Nn_Prelude
begin

text \<open>
  The contract of a first-in first-out queue, as the event loop (\<^verbatim>\<open>aio/ctx.c\<close>, over
  \<^verbatim>\<open>utils/queue.c\<close>) and the inproc transport (over \<^verbatim>\<open>inproc/msgqueue.c\<close>) rely on it.
  \<open>rep s xs\<close> is the representation invariant: the state \<open>s\<close> holds the elements \<open>xs\<close>,
  oldest first.  \<open>push\<close> may be called where \<open>can_push\<close> holds.
\<close>

datatype 'a fifo_op = Push 'a | Pop

text \<open>
  A client's run over a queue: an element is pushed where \<open>can_push\<close> allows it and dropped
  otherwise.  The result is the final state, the accepted elements and the popped ones.
\<close>

fun fifo_run :: "('s \<Rightarrow> 'a \<Rightarrow> bool) \<Rightarrow> ('s \<Rightarrow> 'a \<Rightarrow> 's option) \<Rightarrow> ('s \<Rightarrow> ('a option \<times> 's) option) \<Rightarrow>
    's \<Rightarrow> 'a fifo_op list \<Rightarrow> ('s \<times> 'a list \<times> 'a list) option" where
  "fifo_run can_push push pop s [] = Some (s, [], [])"
| "fifo_run can_push push pop s (Push x # ops) =
     (if can_push s x then do {
        s \<leftarrow> push s x;
        (s, acc, del) \<leftarrow> fifo_run can_push push pop s ops;
        Some (s, x # acc, del) }
      else fifo_run can_push push pop s ops)"
| "fifo_run can_push push pop s (Pop # ops) = do {
     (r, s) \<leftarrow> pop s;
     (s, acc, del) \<leftarrow> fifo_run can_push push pop s ops;
     Some (s, acc, (case r of None \<Rightarrow> del | Some x \<Rightarrow> x # del)) }"

locale fifo =
  fixes rep :: "'s \<Rightarrow> 'a list \<Rightarrow> bool"
    and can_push :: "'s \<Rightarrow> 'a \<Rightarrow> bool"
    and push :: "'s \<Rightarrow> 'a \<Rightarrow> 's option"
    and pop :: "'s \<Rightarrow> ('a option \<times> 's) option"
  assumes push_rep: "rep s xs \<Longrightarrow> can_push s x \<Longrightarrow> \<exists>s'. push s x = Some s' \<and> rep s' (xs @ [x])"
    and pop_empty: "rep s [] \<Longrightarrow> \<exists>s'. pop s = Some (None, s') \<and> rep s' []"
    and pop_rep: "rep s (x # xs) \<Longrightarrow> \<exists>s'. pop s = Some (Some x, s') \<and> rep s' xs"
begin

text \<open>No run aborts, and what was there and was accepted comes out in the same order.\<close>

lemma run_fifo:
  "rep s xs \<Longrightarrow> \<exists>s' acc del ys. fifo_run can_push push pop s ops = Some (s', acc, del) \<and>
     rep s' ys \<and> xs @ acc = del @ ys"
proof (induction ops arbitrary: s xs)
  case Nil
  then show ?case by auto
next
  case (Cons p ops)
  show ?case
  proof (cases p)
    case (Push x)
    show ?thesis
    proof (cases "can_push s x")
      case True
      then obtain s1 where s1: "push s x = Some s1" "rep s1 (xs @ [x])"
        using push_rep Cons.prems by blast
      then obtain s' acc del ys where "fifo_run can_push push pop s1 ops = Some (s', acc, del)"
        "rep s' ys" "(xs @ [x]) @ acc = del @ ys"
        using Cons.IH by metis
      with s1 True Push show ?thesis by auto
    next
      case False
      with Push Cons show ?thesis by auto
    qed
  next
    case Pop
    show ?thesis
    proof (cases xs)
      case Nil
      then obtain s1 where s1: "pop s = Some (None, s1)" "rep s1 []"
        using pop_empty Cons.prems by blast
      then obtain s' acc del ys where "fifo_run can_push push pop s1 ops = Some (s', acc, del)"
        "rep s' ys" "[] @ acc = del @ ys"
        using Cons.IH by metis
      with s1 Nil Pop show ?thesis by auto
    next
      case (Cons x xs')
      then obtain s1 where s1: "pop s = Some (Some x, s1)" "rep s1 xs'"
        using pop_rep Cons.prems by blast
      then obtain s' acc del ys where "fifo_run can_push push pop s1 ops = Some (s', acc, del)"
        "rep s' ys" "xs' @ acc = del @ ys"
        using Cons.IH by metis
      with s1 Cons Pop show ?thesis by auto
    qed
  qed
qed

end

end
