(* ===== verification/Nn_Queue.thy ===== *)
theory Nn_Queue
  imports Nn_List Nn_Fifo
begin

text \<open>
  \<^verbatim>\<open>utils/queue.c\<close>: the intrusive singly linked queue of the event loop.  The store maps
  an item to its \<^verbatim>\<open>next\<close> link; \<^const>\<open>NotInList\<close> plays \<^verbatim>\<open>NN_QUEUE_NOTINQUEUE\<close>, which is
  the same pointer value.
\<close>

section \<open>Model\<close>

record 'a nn_queue =
  q_head :: "'a ptr"
  q_tail :: "'a ptr"

type_synonym 'a qitems = "'a \<Rightarrow> 'a ptr"

definition nn_queue_init :: "'a nn_queue" where
  "nn_queue_init = \<lparr>q_head = Null, q_tail = Null\<rparr>"

definition nn_queue_term :: "'a nn_queue \<Rightarrow> 'a nn_queue" where
  "nn_queue_term self = self\<lparr>q_head := Null, q_tail := Null\<rparr>"

definition nn_queue_empty :: "'a nn_queue \<Rightarrow> bool" where
  "nn_queue_empty self = (if q_head self \<noteq> Null then False else True)"

definition set_qnext :: "'a qitems \<Rightarrow> 'a ptr \<Rightarrow> 'a ptr \<Rightarrow> 'a qitems option" where
  "set_qnext h p v = (case p of Ptr a \<Rightarrow> Some (h(a := v)) | _ \<Rightarrow> None)"

definition nn_queue_push ::
  "'a qitems \<Rightarrow> 'a nn_queue \<Rightarrow> 'a \<Rightarrow> ('a qitems \<times> 'a nn_queue) option" where
  "nn_queue_push h self item = do {
     nn_assert (h item = NotInList);
     let h = h(item := Null);
     let self = (if q_head self = Null then self\<lparr>q_head := Ptr item\<rparr> else self);
     h \<leftarrow> (if q_tail self \<noteq> Null then set_qnext h (q_tail self) (Ptr item) else Some h);
     Some (h, self\<lparr>q_tail := Ptr item\<rparr>) }"

text \<open>The \<^verbatim>\<open>for\<close> loop of \<^verbatim>\<open>nn_queue_remove\<close>; on a cyclic chain it would not return.\<close>

partial_function (option) queue_remove_loop ::
  "'a qitems \<Rightarrow> 'a nn_queue \<Rightarrow> 'a \<Rightarrow> 'a ptr \<Rightarrow> 'a ptr \<Rightarrow> ('a qitems \<times> 'a nn_queue) option"
  where
  "queue_remove_loop h self item prev it = (case it of
       Null \<Rightarrow> Some (h, self)
     | NotInList \<Rightarrow> None
     | Ptr a \<Rightarrow>
         (if a = item then
            (let self = (if q_head self = it then self\<lparr>q_head := h a\<rparr> else self);
                 self = (if q_tail self = it then self\<lparr>q_tail := prev\<rparr> else self)
             in do {
               h \<leftarrow> (if prev \<noteq> Null then set_qnext h prev (h a) else Some h);
               Some (h(item := NotInList), self) })
          else queue_remove_loop h self item it (h a)))"

definition nn_queue_remove ::
  "'a qitems \<Rightarrow> 'a nn_queue \<Rightarrow> 'a \<Rightarrow> ('a qitems \<times> 'a nn_queue) option" where
  "nn_queue_remove h self item =
     (if h item = NotInList then Some (h, self)
      else queue_remove_loop h self item Null (q_head self))"

definition nn_queue_pop ::
  "'a qitems \<Rightarrow> 'a nn_queue \<Rightarrow> ('a ptr \<times> 'a qitems \<times> 'a nn_queue) option" where
  "nn_queue_pop h self = (case q_head self of
       Null \<Rightarrow> Some (Null, h, self)
     | NotInList \<Rightarrow> None
     | Ptr r \<Rightarrow>
         (let self = self\<lparr>q_head := h r\<rparr>;
              self = (if q_head self = Null then self\<lparr>q_tail := Null\<rparr> else self)
          in Some (Ptr r, h(r := NotInList), self)))"

definition nn_queue_item_init :: "'a qitems \<Rightarrow> 'a \<Rightarrow> 'a qitems" where
  "nn_queue_item_init h item = h(item := NotInList)"

definition nn_queue_item_term :: "'a qitems \<Rightarrow> 'a \<Rightarrow> unit option" where
  "nn_queue_item_term h item = nn_assert (h item = NotInList)"

definition nn_queue_item_isinqueue :: "'a qitems \<Rightarrow> 'a \<Rightarrow> bool" where
  "nn_queue_item_isinqueue h item = (if h item = NotInList then False else True)"

section \<open>Representation\<close>

fun sseg :: "'a qitems \<Rightarrow> 'a list \<Rightarrow> 'a ptr \<Rightarrow> bool" where
  "sseg h [] n \<longleftrightarrow> True"
| "sseg h (x # xs) n \<longleftrightarrow> h x = head_ptr xs n \<and> sseg h xs n"

definition slq :: "'a qitems \<Rightarrow> 'a nn_queue \<Rightarrow> 'a list \<Rightarrow> bool" where
  "slq h q xs \<longleftrightarrow> distinct xs \<and> sseg h xs Null \<and> q_head q = head_ptr xs Null \<and>
     q_tail q = last_ptr Null xs \<and> (\<forall>x. x \<in> set xs \<longleftrightarrow> h x \<noteq> NotInList)"

lemma sseg_append [simp]: "sseg h (xs @ ys) n \<longleftrightarrow> sseg h xs (head_ptr ys n) \<and> sseg h ys n"
  by (induction xs) auto

lemma sseg_upd [simp]: "y \<notin> set xs \<Longrightarrow> sseg (h(y := v)) xs n = sseg h xs n"
  by (induction xs) auto

lemma slq_init: "slq (\<lambda>_. NotInList) nn_queue_init []"
  by (simp add: slq_def nn_queue_init_def)

lemma slq_empty: "slq h q xs \<Longrightarrow> nn_queue_empty q \<longleftrightarrow> xs = []"
  by (simp add: slq_def nn_queue_empty_def)

lemma slq_isinqueue: "slq h q xs \<Longrightarrow> nn_queue_item_isinqueue h x \<longleftrightarrow> x \<in> set xs"
  by (simp add: slq_def nn_queue_item_isinqueue_def)

lemma nn_queue_push_refines:
  assumes "slq h q xs" and "\<not> nn_queue_item_isinqueue h item"
  shows "\<exists>h' q'. nn_queue_push h q item = Some (h', q') \<and> slq h' q' (xs @ [item])"
proof -
  have "item \<notin> set xs"
    using assms by (simp add: slq_isinqueue)
  then show ?thesis
    using assms
    by (cases xs rule: rev_cases)
      (auto simp: slq_def nn_queue_push_def nn_queue_item_isinqueue_def set_qnext_def)
qed

lemma nn_queue_pop_refines:
  "slq h q [] \<Longrightarrow> nn_queue_pop h q = Some (Null, h, q)"
  "slq h q (x # xs) \<Longrightarrow> \<exists>h' q'. nn_queue_pop h q = Some (Ptr x, h', q') \<and> slq h' q' xs"
  by (auto simp: slq_def nn_queue_pop_def Let_def last_ptr_def)

text \<open>The loop scans past the items before the one to remove.\<close>

lemma queue_remove_loop_scan:
  "item \<notin> set as \<Longrightarrow> sseg h as (head_ptr bs Null) \<Longrightarrow>
   queue_remove_loop h q item p (head_ptr as (head_ptr bs Null)) =
   queue_remove_loop h q item (last_ptr p as) (head_ptr bs Null)"
proof (induction as arbitrary: p)
  case Nil
  then show ?case by simp
next
  case (Cons a as)
  then show ?case
    by (subst queue_remove_loop.simps) auto
qed

text \<open>Unlinking the item the scan has found, with its predecessor at hand.\<close>

lemma queue_unlink_first:
  assumes "slq h q (item # bs)"
  shows "\<exists>h' q'. queue_remove_loop h q item Null (Ptr item) = Some (h', q') \<and> slq h' q' bs"
  using assms
  by (subst queue_remove_loop.simps, cases bs rule: rev_cases)
    (auto simp: slq_def Let_def last_ptr_def)

lemma queue_unlink_inner:
  assumes "slq h q (as @ y # item # bs)"
  shows "\<exists>h' q'. queue_remove_loop h q item (Ptr y) (Ptr item) = Some (h', q') \<and>
    slq h' q' (as @ y # bs)"
proof -
  have loop: "queue_remove_loop h q item (Ptr y) (Ptr item) =
      Some (h(y := head_ptr bs Null, item := NotInList),
            if bs = [] then q\<lparr>q_tail := Ptr y\<rparr> else q)"
    using assms
    by (subst queue_remove_loop.simps, cases bs rule: rev_cases)
      (auto simp: slq_def set_qnext_def Let_def last_ptr_def)
  moreover have "slq (h(y := head_ptr bs Null, item := NotInList))
      (if bs = [] then q\<lparr>q_tail := Ptr y\<rparr> else q) (as @ y # bs)"
    using assms by (auto simp: slq_def last_ptr_def)
  ultimately show ?thesis by blast
qed

text \<open>
  \<^verbatim>\<open>nn_queue_remove\<close> terminates on every well-formed queue.  It takes exactly the given
  item out, wherever it stands (head, middle, tail), keeps the order of the others and the
  tail pointer right, and does nothing when the item is in no queue.
\<close>

lemma nn_queue_remove_refines:
  assumes "slq h q xs"
  shows "\<exists>h' q'. nn_queue_remove h q item = Some (h', q') \<and> slq h' q' (remove1 item xs)"
proof (cases "item \<in> set xs")
  case False
  then have "h item = NotInList"
    using assms by (auto simp: slq_def)
  then show ?thesis
    using False assms by (simp add: nn_queue_remove_def remove1_idem)
next
  case True
  then obtain as bs where xs: "xs = as @ item # bs" and as: "item \<notin> set as"
    by (meson split_list_first)
  have inq: "h item \<noteq> NotInList"
    using True assms by (auto simp: slq_def)
  have scan: "queue_remove_loop h q item Null (q_head q) =
      queue_remove_loop h q item (last_ptr Null as) (Ptr item)"
    using queue_remove_loop_scan [of item as h "item # bs" q Null] as assms xs
    by (simp add: slq_def)
  have "\<exists>h' q'. queue_remove_loop h q item (last_ptr Null as) (Ptr item) = Some (h', q') \<and>
      slq h' q' (as @ bs)"
    using assms queue_unlink_first [of h q item bs] queue_unlink_inner [of h q _ _ item bs]
    unfolding xs by (cases as rule: rev_cases) auto
  then show ?thesis
    using scan inq as by (simp add: nn_queue_remove_def xs remove1_split)
qed

section \<open>The queue as a FIFO\<close>

definition queue_can_push :: "'a qitems \<times> 'a nn_queue \<Rightarrow> 'a \<Rightarrow> bool" where
  "queue_can_push s x \<longleftrightarrow> \<not> nn_queue_item_isinqueue (fst s) x"

definition queue_push :: "'a qitems \<times> 'a nn_queue \<Rightarrow> 'a \<Rightarrow> ('a qitems \<times> 'a nn_queue) option" where
  "queue_push s x = nn_queue_push (fst s) (snd s) x"

definition queue_pop ::
  "'a qitems \<times> 'a nn_queue \<Rightarrow> ('a option \<times> 'a qitems \<times> 'a nn_queue) option" where
  "queue_pop s = do {
     (r, h, q) \<leftarrow> nn_queue_pop (fst s) (snd s);
     Some ((case r of Ptr x \<Rightarrow> Some x | _ \<Rightarrow> None), h, q) }"

interpretation nq: fifo "\<lambda>(h, q). slq h q" queue_can_push queue_push queue_pop
proof
  show "\<exists>s'. queue_push s x = Some s' \<and> (case s' of (h, q) \<Rightarrow> slq h q) (xs @ [x])"
    if "(case s of (h, q) \<Rightarrow> slq h q) xs" "queue_can_push s x"
    for s :: "'a qitems \<times> 'a nn_queue" and xs x
    using that nn_queue_push_refines [of "fst s" "snd s" xs x]
    by (auto simp: queue_push_def queue_can_push_def split: prod.splits)
  show "\<exists>s'. queue_pop s = Some (None, s') \<and> (case s' of (h, q) \<Rightarrow> slq h q) []"
    if "(case s of (h, q) \<Rightarrow> slq h q) []" for s :: "'a qitems \<times> 'a nn_queue"
    using that by (auto simp: queue_pop_def nn_queue_pop_refines split: prod.splits)
  show "\<exists>s'. queue_pop s = Some (Some x, s') \<and> (case s' of (h, q) \<Rightarrow> slq h q) xs"
    if "(case s of (h, q) \<Rightarrow> slq h q) (x # xs)" for s :: "'a qitems \<times> 'a nn_queue" and x xs
    using that nn_queue_pop_refines(2) [of "fst s" "snd s" x xs]
    by (auto simp: queue_pop_def split: prod.splits)
qed

text \<open>
  From the initial queue, in any sequence of pushes (of items that are in no queue) and
  pops, \<^verbatim>\<open>nn_queue_push\<close> and \<^verbatim>\<open>nn_queue_pop\<close> never abort, and the items popped, followed
  by those still queued, are exactly the items pushed, in order: events are processed first
  in first out, none is lost and none is delivered twice.
\<close>

lemma nn_queue_fifo:
  "\<exists>h q acc del ys. fifo_run queue_can_push queue_push queue_pop
     ((\<lambda>_. NotInList), nn_queue_init) ops = Some ((h, q), acc, del) \<and>
     slq h q ys \<and> acc = del @ ys"
  using nq.run_fifo [of "((\<lambda>_. NotInList), nn_queue_init)" "[]" ops] slq_init by fastforce

end
