(* ===== verification/Nn_Hash.thy ===== *)
theory Nn_Hash
  imports Nn_List "HOL-Library.Multiset"
begin

text \<open>
  \<^verbatim>\<open>utils/hash.c\<close>: the hash table that maps 32 bit peer keys to items, with separate
  chaining and doubling of the slot array.  A slot is the sequence of its chained items
  (theory \<open>Nn_List\<close>); \<open>hkey\<close> is the \<^verbatim>\<open>key\<close> field of the items.
\<close>

section \<open>Model\<close>

definition NN_HASH_INITIAL_SLOTS :: u32 where
  "NN_HASH_INITIAL_SLOTS = 32"

record 'a nn_hash =
  slots :: u32
  items :: u32
  array :: "'a list list"
  hkey :: "'a \<Rightarrow> u32"

definition nn_hash_key :: "u32 \<Rightarrow> u32" where
  "nn_hash_key key =
     (let key = (key XOR 61) XOR drop_bit 16 key;
          key = key + push_bit 3 key;
          key = key XOR drop_bit 4 key;
          key = key * 0x27d4eb2d;
          key = key XOR drop_bit 15 key
      in key)"

text \<open>The slot index \<^verbatim>\<open>nn_hash_key (key) % self->slots\<close>.\<close>

definition hash_slot :: "u32 \<Rightarrow> u32 \<Rightarrow> nat" where
  "hash_slot n key = unat (nn_hash_key key mod n)"

definition nn_hash_init :: "('a \<Rightarrow> u32) \<Rightarrow> 'a nn_hash" where
  "nn_hash_init keys = \<lparr>slots = NN_HASH_INITIAL_SLOTS, items = 0,
     array = replicate (unat NN_HASH_INITIAL_SLOTS) [], hkey = keys\<rparr>"

definition nn_hash_term :: "'a nn_hash \<Rightarrow> unit option" where
  "nn_hash_term self = nn_assert (list_all (\<lambda>s. s = []) (array self))"

text \<open>The inner \<^verbatim>\<open>while\<close> loop of the rehash: the items of one old slot are moved, from the
  front, to the ends of their new slots.\<close>

fun rehash_slot :: "('a \<Rightarrow> u32) \<Rightarrow> u32 \<Rightarrow> 'a list \<Rightarrow> 'a list list \<Rightarrow> 'a list list" where
  "rehash_slot keys n [] arr = arr"
| "rehash_slot keys n (hitm # old) arr =
     (let newslot = hash_slot n (keys hitm)
      in rehash_slot keys n old (arr[newslot := arr ! newslot @ [hitm]]))"

fun rehash_slots :: "('a \<Rightarrow> u32) \<Rightarrow> u32 \<Rightarrow> 'a list list \<Rightarrow> 'a list list \<Rightarrow> 'a list list" where
  "rehash_slots keys n [] arr = arr"
| "rehash_slots keys n (s # oldarray) arr = rehash_slots keys n oldarray (rehash_slot keys n s arr)"

definition nn_hash_rehash :: "'a nn_hash \<Rightarrow> 'a nn_hash" where
  "nn_hash_rehash self =
     (let oldarray = array self;
          newslots = slots self * 2
      in self\<lparr>slots := newslots,
              array := rehash_slots (hkey self) newslots oldarray (replicate (unat newslots) [])\<rparr>)"

definition nn_hash_insert :: "'a nn_hash \<Rightarrow> u32 \<Rightarrow> 'a \<Rightarrow> 'a nn_hash option" where
  "nn_hash_insert self key item = do {
     let i = hash_slot (slots self) key;
     nn_assert (list_all (\<lambda>it. hkey self it \<noteq> key) (array self ! i));
     let self = self\<lparr>hkey := (hkey self)(item := key)\<rparr>;
     nn_assert (\<not> list_ex (\<lambda>s. item \<in> set s) (array self));
     let self = self\<lparr>array := (array self)[i := array self ! i @ [item]]\<rparr>;
     let self = self\<lparr>items := items self + 1\<rparr>;
     Some (if items self * 2 > slots self \<and> slots self < 0x80000000
           then nn_hash_rehash self else self) }"

definition nn_hash_erase :: "'a nn_hash \<Rightarrow> 'a \<Rightarrow> 'a nn_hash option" where
  "nn_hash_erase self item = do {
     let slot = hash_slot (slots self) (hkey self item);
     nn_assert (item \<in> set (array self ! slot));
     let self = self\<lparr>array := (array self)[slot := remove1 item (array self ! slot)]\<rparr>;
     Some (self\<lparr>items := items self - 1\<rparr>) }"

definition nn_hash_get :: "'a nn_hash \<Rightarrow> u32 \<Rightarrow> 'a option" where
  "nn_hash_get self key = find (\<lambda>item. hkey self item = key)
     (array self ! hash_slot (slots self) key)"

section \<open>The contract of a peer table\<close>

text \<open>
  What the request/reply and survey protocols rely on: a finite map from peer keys to items,
  where a key may be inserted when it is not in use.
\<close>

datatype 'a peer_op = Register u32 'a | Forget 'a

text \<open>The legal histories of a peer table and the map each of them leaves behind.\<close>

inductive peer_history :: "(u32 \<rightharpoonup> 'a) \<Rightarrow> 'a peer_op list \<Rightarrow> (u32 \<rightharpoonup> 'a) \<Rightarrow> bool" where
  history_nil: "peer_history m [] m"
| history_register: "m k = None \<Longrightarrow> x \<notin> ran m \<Longrightarrow> peer_history (m(k \<mapsto> x)) ops m' \<Longrightarrow>
    peer_history m (Register k x # ops) m'"
| history_forget: "m k = Some x \<Longrightarrow> peer_history (m(k := None)) ops m' \<Longrightarrow>
    peer_history m (Forget x # ops) m'"

fun table_run :: "('h \<Rightarrow> u32 \<Rightarrow> 'a \<Rightarrow> 'h option) \<Rightarrow> ('h \<Rightarrow> 'a \<Rightarrow> 'h option) \<Rightarrow> 'h \<Rightarrow>
    'a peer_op list \<Rightarrow> 'h option" where
  "table_run ins era h [] = Some h"
| "table_run ins era h (Register k x # ops) = ins h k x \<bind> (\<lambda>h. table_run ins era h ops)"
| "table_run ins era h (Forget x # ops) = era h x \<bind> (\<lambda>h. table_run ins era h ops)"

locale peer_table =
  fixes inv :: "'h \<Rightarrow> bool"
    and get :: "'h \<Rightarrow> u32 \<Rightarrow> 'a option"
    and insert :: "'h \<Rightarrow> u32 \<Rightarrow> 'a \<Rightarrow> 'h option"
    and erase :: "'h \<Rightarrow> 'a \<Rightarrow> 'h option"
  assumes insert_get: "inv h \<Longrightarrow> get h k = None \<Longrightarrow> x \<notin> ran (get h) \<Longrightarrow>
      \<exists>h'. insert h k x = Some h' \<and> inv h' \<and> get h' = (get h)(k \<mapsto> x)"
    and erase_get: "inv h \<Longrightarrow> get h k = Some x \<Longrightarrow>
      \<exists>h'. erase h x = Some h' \<and> inv h' \<and> get h' = (get h)(k := None)"
    and keys_unique: "inv h \<Longrightarrow> get h k = Some x \<Longrightarrow> get h k' = Some x \<Longrightarrow> k = k'"
begin

text \<open>Registering a peer and removing it again leaves every other route as it was.\<close>

lemma insert_erase_get:
  assumes "inv h" "get h k = None" "x \<notin> ran (get h)"
  shows "\<exists>h1 h2. insert h k x = Some h1 \<and> erase h1 x = Some h2 \<and> inv h2 \<and> get h2 = get h"
proof -
  obtain h1 where h1: "insert h k x = Some h1" "inv h1" "get h1 = (get h)(k \<mapsto> x)"
    using insert_get assms by blast
  then obtain h2 where "erase h1 x = Some h2" "inv h2" "get h2 = (get h1)(k := None)"
    using erase_get [of h1 k x] by auto
  then show ?thesis
    using h1 assms(2) by (auto simp: fun_upd_idem)
qed

lemma erase_other:
  assumes "inv h" "get h k = Some x" "get h k' = Some y" "x \<noteq> y"
  shows "\<exists>h'. erase h x = Some h' \<and> inv h' \<and> get h' k' = Some y \<and> get h' k = None"
proof -
  have "k \<noteq> k'" using assms by auto
  then show ?thesis
    using erase_get [OF assms(1,2)] assms(3) by auto
qed

text \<open>A legal history never aborts, and the lookup function afterwards is the map it leaves.\<close>

lemma run_history:
  "peer_history m ops m' \<Longrightarrow> inv h \<Longrightarrow> get h = m \<Longrightarrow>
   \<exists>h'. table_run insert erase h ops = Some h' \<and> inv h' \<and> get h' = m'"
proof (induction arbitrary: h rule: peer_history.induct)
  case (history_nil m)
  then show ?case by simp
next
  case (history_register m k x ops m')
  then obtain h1 where "insert h k x = Some h1" "inv h1" "get h1 = m(k \<mapsto> x)"
    using insert_get [of h k x] by auto
  with history_register.IH show ?case by auto
next
  case (history_forget m k x ops m')
  then obtain h1 where "erase h x = Some h1" "inv h1" "get h1 = m(k := None)"
    using erase_get [of h k x] by auto
  with history_forget.IH show ?case by auto
qed

end

section \<open>Well-formed tables\<close>

text \<open>All items of the table, slot by slot.\<close>

definition hash_items :: "'a nn_hash \<Rightarrow> 'a list" where
  "hash_items h = concat (array h)"

definition hash_inv :: "'a nn_hash \<Rightarrow> bool" where
  "hash_inv h \<longleftrightarrow> 0 < slots h \<and> length (array h) = unat (slots h) \<and>
     distinct (hash_items h) \<and> inj_on (hkey h) (set (hash_items h)) \<and>
     (\<forall>i < length (array h). \<forall>x \<in> set (array h ! i). hash_slot (slots h) (hkey h x) = i) \<and>
     items h = of_nat (length (hash_items h))"

lemma hash_slot_less: "0 < n \<Longrightarrow> hash_slot n k < unat n"
  by (simp add: hash_slot_def unat_mod word_less_nat_alt)

lemma length_rehash_slot [simp]: "length (rehash_slot keys n s arr) = length arr"
  by (induction keys n s arr rule: rehash_slot.induct) (auto simp: Let_def)

lemma length_rehash_slots [simp]: "length (rehash_slots keys n old arr) = length arr"
  by (induction keys n old arr rule: rehash_slots.induct) auto

lemma rehash_slot_nth:
  "0 < n \<Longrightarrow> length arr = unat n \<Longrightarrow> j < length arr \<Longrightarrow>
   rehash_slot keys n s arr ! j = arr ! j @ filter (\<lambda>x. hash_slot n (keys x) = j) s"
  by (induction keys n s arr rule: rehash_slot.induct)
    (auto simp: Let_def nth_list_update hash_slot_less)

lemma rehash_slots_nth:
  "0 < n \<Longrightarrow> length arr = unat n \<Longrightarrow> j < length arr \<Longrightarrow>
   rehash_slots keys n old arr ! j = arr ! j @ filter (\<lambda>x. hash_slot n (keys x) = j) (concat old)"
  by (induction keys n old arr rule: rehash_slots.induct) (auto simp: rehash_slot_nth)

lemma mset_concat_buckets:
  assumes "length arr = n" "\<And>j. j < n \<Longrightarrow> arr ! j = filter (\<lambda>x. f x = j) xs"
    "\<And>x. x \<in> set xs \<Longrightarrow> f x < n"
  shows "mset (concat arr) = mset xs"
proof -
  have split: "(\<Sum>j<n. mset (filter (\<lambda>x. f x = j) ys)) = mset ys"
    if "\<And>x. x \<in> set ys \<Longrightarrow> f x < n" for ys
    using that
  proof (induction ys)
    case Nil
    then show ?case by simp
  next
    case (Cons y ys)
    have "(\<Sum>j<n. mset (filter (\<lambda>x. f x = j) (y # ys))) =
        (\<Sum>j<n. (if f y = j then {#y#} else {#}) + mset (filter (\<lambda>x. f x = j) ys))"
      by (rule sum.cong) auto
    also have "\<dots> = {#y#} + mset ys"
      using Cons by (simp add: sum.distrib)
    finally show ?case by simp
  qed
  have "arr = map (\<lambda>j. filter (\<lambda>x. f x = j) xs) [0..<n]"
    using assms(1,2) by (auto intro: nth_equalityI)
  then have "mset (concat arr) = (\<Sum>j\<leftarrow>[0..<n]. mset (filter (\<lambda>x. f x = j) xs))"
    by (simp add: mset_concat o_def)
  also have "\<dots> = (\<Sum>j<n. mset (filter (\<lambda>x. f x = j) xs))"
    by (simp add: interv_sum_list_conv_sum_set_nat atLeast0LessThan)
  finally show ?thesis using split assms(3) by simp
qed

lemma hash_inv_init: "hash_inv (nn_hash_init keys)"
  by (simp add: hash_inv_def hash_items_def nn_hash_init_def NN_HASH_INITIAL_SLOTS_def)

lemma hash_items_slot:
  assumes "hash_inv h"
  shows "x \<in> set (hash_items h) \<longleftrightarrow> x \<in> set (array h ! hash_slot (slots h) (hkey h x))"
proof
  assume "x \<in> set (hash_items h)"
  then obtain i where "i < length (array h)" "x \<in> set (array h ! i)"
    by (auto simp: hash_items_def in_set_conv_nth [of _ "array h"])
  then show "x \<in> set (array h ! hash_slot (slots h) (hkey h x))"
    using assms by (auto simp: hash_inv_def)
next
  assume "x \<in> set (array h ! hash_slot (slots h) (hkey h x))"
  moreover have "hash_slot (slots h) (hkey h x) < length (array h)"
    using assms hash_slot_less by (auto simp: hash_inv_def)
  ultimately show "x \<in> set (hash_items h)"
    by (auto simp: hash_items_def intro: nth_mem)
qed

lemma hash_get_iff:
  assumes "hash_inv h"
  shows "nn_hash_get h k = Some x \<longleftrightarrow> x \<in> set (hash_items h) \<and> hkey h x = k"
proof
  assume "nn_hash_get h k = Some x"
  then have "hkey h x = k" "x \<in> set (array h ! hash_slot (slots h) k)"
    by (auto simp: nn_hash_get_def find_Some_iff)
  then show "x \<in> set (hash_items h) \<and> hkey h x = k"
    using hash_items_slot [OF assms] by blast
next
  assume x: "x \<in> set (hash_items h) \<and> hkey h x = k"
  then have "x \<in> set (array h ! hash_slot (slots h) k)"
    using hash_items_slot [OF assms] by blast
  then obtain y where y: "nn_hash_get h k = Some y"
    using x by (cases "nn_hash_get h k") (auto simp: nn_hash_get_def find_None_iff)
  then have "hkey h y = k" "y \<in> set (array h ! hash_slot (slots h) k)"
    by (auto simp: nn_hash_get_def find_Some_iff)
  then have "y \<in> set (hash_items h)" "hkey h y = hkey h x"
    using hash_items_slot [OF assms] x by auto
  then have "y = x"
    using assms x by (auto simp: hash_inv_def hash_items_def dest: inj_onD)
  with y show "nn_hash_get h k = Some x" by simp
qed

lemma hash_get_None: "hash_inv h \<Longrightarrow> nn_hash_get h k = None \<longleftrightarrow> (\<forall>x \<in> set (hash_items h). hkey h x \<noteq> k)"
  using hash_get_iff [of h k] by (metis not_Some_eq)

lemma hash_ran_get: "hash_inv h \<Longrightarrow> ran (nn_hash_get h) = set (hash_items h)"
  by (auto simp: ran_def hash_get_iff)

text \<open>The table is determined, as a map, by its items and their keys.\<close>

lemma hash_get_eqI:
  assumes "hash_inv h" "\<And>k x. m k = Some x \<longleftrightarrow> x \<in> set (hash_items h) \<and> hkey h x = k"
  shows "nn_hash_get h = m"
proof
  fix k
  show "nn_hash_get h k = m k"
    using hash_get_iff [OF assms(1), of k] assms(2) [of k] by (metis option.exhaust)
qed

section \<open>Rehashing\<close>

lemma nn_hash_rehash_inv:
  assumes inv: "hash_inv h" and small: "slots h < 0x80000000"
  shows "hash_inv (nn_hash_rehash h)" "set (hash_items (nn_hash_rehash h)) = set (hash_items h)"
    "hkey (nn_hash_rehash h) = hkey h" "unat (slots (nn_hash_rehash h)) = 2 * unat (slots h)"
proof -
  let ?n = "slots h * 2" and ?h = "nn_hash_rehash h"
  let ?arr = "array ?h"
  have s: "slots ?h = ?n" "hkey ?h = hkey h" "items ?h = items h"
    and arr: "?arr = rehash_slots (hkey h) ?n (array h) (replicate (unat ?n) [])"
    by (simp_all add: nn_hash_rehash_def Let_def)
  have n2: "unat ?n = 2 * unat (slots h)"
    using small by (simp add: unat_word_ariths word_less_nat_alt)
  with inv have n: "0 < ?n"
    by (simp add: hash_inv_def word_less_nat_alt)
  have bucket: "?arr ! j = filter (\<lambda>x. hash_slot ?n (hkey h x) = j) (concat (array h))"
    if "j < unat ?n" for j
    using that n by (simp add: arr rehash_slots_nth)
  have len: "length ?arr = unat ?n"
    by (simp add: arr)
  have perm: "mset (concat ?arr) = mset (concat (array h))"
    by (rule mset_concat_buckets [where f = "\<lambda>x. hash_slot ?n (hkey h x)", OF len bucket])
      (simp_all add: hash_slot_less n)
  then have "set (concat ?arr) = set (concat (array h))" "length (concat ?arr) = length (concat (array h))"
    "distinct (concat ?arr) \<longleftrightarrow> distinct (concat (array h))"
    by (metis set_mset_mset, metis size_mset, metis mset_eq_imp_distinct_iff)
  then show "hash_inv ?h" "set (hash_items ?h) = set (hash_items h)"
    using inv n len bucket by (auto simp: hash_inv_def hash_items_def s)
  show "hkey ?h = hkey h" "unat (slots ?h) = 2 * unat (slots h)"
    using s n2 by simp_all
qed

section \<open>Insertion and removal\<close>

lemma concat_update_append:
  "i < length xss \<Longrightarrow> mset (concat (xss[i := xss ! i @ [x]])) = add_mset x (mset (concat xss))"
  by (induction xss arbitrary: i) (auto simp: nth_Cons split: nat.splits)

lemma concat_update_remove1:
  "i < length xss \<Longrightarrow> x \<in> set (xss ! i) \<Longrightarrow>
   add_mset x (mset (concat (xss[i := remove1 x (xss ! i)]))) = mset (concat xss)"
  by (induction xss arbitrary: i) (auto simp: nth_Cons split: nat.splits)

text \<open>The table between the insertion of the item and the growth check.\<close>

definition hash_add :: "'a nn_hash \<Rightarrow> u32 \<Rightarrow> 'a \<Rightarrow> 'a nn_hash" where
  "hash_add h key item = (let i = hash_slot (slots h) key in
     h\<lparr>hkey := (hkey h)(item := key), array := (array h)[i := array h ! i @ [item]],
       items := items h + 1\<rparr>)"

lemma hash_add_inv:
  assumes inv: "hash_inv h" and k: "nn_hash_get h k = None" and x: "x \<notin> set (hash_items h)"
  shows "hash_inv (hash_add h k x)" "set (hash_items (hash_add h k x)) = insert x (set (hash_items h))"
proof -
  let ?h = "hash_add h k x" and ?i = "hash_slot (slots h) k"
  have f: "slots ?h = slots h" "hkey ?h = (hkey h)(x := k)" "items ?h = items h + 1"
    "array ?h = (array h)[?i := array h ! ?i @ [x]]"
    by (simp_all add: hash_add_def Let_def)
  have i: "?i < length (array h)"
    using inv hash_slot_less by (auto simp: hash_inv_def)
  have m: "mset (hash_items ?h) = add_mset x (mset (hash_items h))"
    using concat_update_append [OF i] by (simp add: f hash_items_def)
  then show s: "set (hash_items ?h) = insert x (set (hash_items h))"
    by (metis set_mset_add_mset_insert set_mset_mset)
  have l: "length (hash_items ?h) = Suc (length (hash_items h))"
    using m by (metis size_add_mset size_mset)
  have d: "distinct (hash_items ?h)"
    using m x inv by (metis distinct.simps(2) hash_inv_def mset.simps(2) mset_eq_imp_distinct_iff)
  have inj: "inj_on (hkey ?h) (set (hash_items ?h))"
    using inv x k unfolding s f by (auto simp: hash_inv_def inj_on_def hash_get_None)
  have slot: "hash_slot (slots h) (((hkey h)(x := k)) y) = j"
    if "j < length (array h)" "y \<in> set ((array h)[?i := array h ! ?i @ [x]] ! j)" for j y
  proof (cases "y = x")
    case True
    have "x \<notin> set (array h ! j)"
      using x that(1) by (auto simp: hash_items_def dest: nth_mem)
    then show ?thesis
      using True that i by (cases "j = ?i") auto
  next
    case False
    then have "y \<in> set (array h ! j)"
      using that i by (cases "j = ?i") auto
    then show ?thesis
      using False that(1) inv by (simp add: hash_inv_def)
  qed
  show "hash_inv ?h"
    unfolding hash_inv_def using inv d inj l slot by (simp add: hash_inv_def f)
qed

lemma nn_hash_insert_eq:
  assumes inv: "hash_inv h" and k: "nn_hash_get h k = None" and x: "x \<notin> set (hash_items h)"
  shows "nn_hash_insert h k x = Some (let h' = hash_add h k x in
    if items h' * 2 > slots h' \<and> slots h' < 0x80000000 then nn_hash_rehash h' else h')"
proof -
  have "list_all (\<lambda>it. hkey h it \<noteq> k) (array h ! hash_slot (slots h) k)"
    using k by (auto simp: nn_hash_get_def find_None_iff list_all_iff)
  moreover have "\<not> list_ex (\<lambda>s. x \<in> set s) (array h)"
    using x by (auto simp: list_ex_iff hash_items_def)
  ultimately show ?thesis
    by (simp add: nn_hash_insert_def hash_add_def Let_def)
qed

lemma nn_hash_insert_get:
  assumes inv: "hash_inv h" and k: "nn_hash_get h k = None" and x: "x \<notin> ran (nn_hash_get h)"
  shows "\<exists>h'. nn_hash_insert h k x = Some h' \<and> hash_inv h' \<and>
    nn_hash_get h' = (nn_hash_get h)(k \<mapsto> x) \<and> hkey h' = (hkey h)(x := k)"
proof -
  have x': "x \<notin> set (hash_items h)"
    using x inv by (simp add: hash_ran_get)
  let ?h = "hash_add h k x"
  define h' where "h' = (if items ?h * 2 > slots ?h \<and> slots ?h < 0x80000000
    then nn_hash_rehash ?h else ?h)"
  note add = hash_add_inv [OF inv k x']
  have kh: "hkey ?h = (hkey h)(x := k)"
    by (simp add: hash_add_def Let_def)
  have h': "hash_inv h'" "set (hash_items h') = insert x (set (hash_items h))"
    "hkey h' = (hkey h)(x := k)"
    using add kh nn_hash_rehash_inv [OF add(1)] by (auto simp: h'_def)
  have "nn_hash_get h' = (nn_hash_get h)(k \<mapsto> x)"
    by (rule hash_get_eqI [OF h'(1)])
      (use h' x' k inv in \<open>auto simp: hash_get_iff hash_get_None\<close>)
  then show ?thesis
    using nn_hash_insert_eq [OF inv k x'] h' by (simp add: h'_def Let_def)
qed

lemma nn_hash_erase_get:
  assumes inv: "hash_inv h" and k: "nn_hash_get h k = Some x"
  shows "\<exists>h'. nn_hash_erase h x = Some h' \<and> hash_inv h' \<and>
    nn_hash_get h' = (nn_hash_get h)(k := None) \<and> hkey h' = hkey h"
proof -
  let ?i = "hash_slot (slots h) (hkey h x)"
  define h' where "h' = h\<lparr>array := (array h)[?i := remove1 x (array h ! ?i)], items := items h - 1\<rparr>"
  have x: "x \<in> set (hash_items h)" "hkey h x = k" "x \<in> set (array h ! ?i)"
    using k hash_get_iff [OF inv] hash_items_slot [OF inv] by blast+
  have i: "?i < length (array h)"
    using inv hash_slot_less by (auto simp: hash_inv_def)
  have m: "add_mset x (mset (hash_items h')) = mset (hash_items h)"
    using concat_update_remove1 [OF i x(3)] by (simp add: h'_def hash_items_def)
  have d: "distinct (x # hash_items h')"
    using m inv by (metis hash_inv_def mset.simps(2) mset_eq_imp_distinct_iff)
  have s: "insert x (set (hash_items h')) = set (hash_items h)"
    using m by (metis set_mset_add_mset_insert set_mset_mset)
  have l: "Suc (length (hash_items h')) = length (hash_items h)"
    using m by (metis size_add_mset size_mset)
  have f: "hkey h' = hkey h" "slots h' = slots h" "length (array h') = length (array h)"
    "items h' = items h - 1"
    by (simp_all add: h'_def)
  have slot: "hash_slot (slots h) (hkey h y) = j"
    if "j < length (array h)" "y \<in> set (array h' ! j)" for j y
  proof -
    have "y \<in> set (array h ! j)"
      using that i set_remove1_subset [of x "array h ! ?i"]
      by (cases "j = ?i") (auto simp: h'_def)
    then show ?thesis
      using that(1) inv by (simp add: hash_inv_def)
  qed
  have it: "items h' = of_nat (length (hash_items h'))"
  proof -
    have "items h = of_nat (Suc (length (hash_items h')))"
      using inv unfolding l by (simp add: hash_inv_def)
    then show ?thesis by (simp add: f)
  qed
  have sub: "set (hash_items h') \<subseteq> set (hash_items h)" and rest: "set (hash_items h') = set (hash_items h) - {x}"
    using s d by auto
  have inj: "inj_on (hkey h) (set (hash_items h))"
    using inv by (simp add: hash_inv_def)
  have inv': "hash_inv h'"
    unfolding hash_inv_def using inv d slot it inj_on_subset [OF inj sub]
    by (simp add: hash_inv_def f)
  have "((nn_hash_get h)(k := None)) k' = Some y \<longleftrightarrow> y \<in> set (hash_items h') \<and> hkey h' y = k'" for k' y
    using inj_onD [OF inj _ x(1), of y] x(2) by (auto simp: hash_get_iff [OF inv] f rest)
  then have "nn_hash_get h' = (nn_hash_get h)(k := None)"
    by (rule hash_get_eqI [OF inv'])
  moreover have "nn_hash_erase h x = Some h'"
    using x(3) by (simp add: nn_hash_erase_def h'_def Let_def)
  ultimately show ?thesis using inv' f by blast
qed

interpretation ht: peer_table hash_inv nn_hash_get nn_hash_insert nn_hash_erase
proof
  show "\<exists>h'. nn_hash_insert h k x = Some h' \<and> hash_inv h' \<and> nn_hash_get h' = (nn_hash_get h)(k \<mapsto> x)"
    if "hash_inv h" "nn_hash_get h k = None" "x \<notin> ran (nn_hash_get h)" for h :: "'a nn_hash" and k x
    using nn_hash_insert_get [OF that] by blast
  show "\<exists>h'. nn_hash_erase h x = Some h' \<and> hash_inv h' \<and> nn_hash_get h' = (nn_hash_get h)(k := None)"
    if "hash_inv h" "nn_hash_get h k = Some x" for h :: "'a nn_hash" and k x
    using nn_hash_erase_get [OF that] by blast
  show "k = k'" if "hash_inv h" "nn_hash_get h k = Some x" "nn_hash_get h k' = Some x"
    for h :: "'a nn_hash" and k k' x
    using that by (simp add: hash_get_iff)
qed

lemma nn_hash_get_init [simp]: "nn_hash_get (nn_hash_init keys) = Map.empty"
proof
  fix k
  have "hash_slot NN_HASH_INITIAL_SLOTS k < unat NN_HASH_INITIAL_SLOTS"
    by (rule hash_slot_less) (simp add: NN_HASH_INITIAL_SLOTS_def)
  then show "nn_hash_get (nn_hash_init keys) k = None"
    by (simp add: nn_hash_get_def nn_hash_init_def)
qed

lemma slots_init [simp]: "slots (nn_hash_init keys) = 32"
  by (simp add: nn_hash_init_def NN_HASH_INITIAL_SLOTS_def)

section \<open>Properties\<close>

text \<open>
  C40: the hash table of \<^verbatim>\<open>utils/hash.c\<close> implements a finite map.  Starting from
  \<^verbatim>\<open>nn_hash_init\<close>, any sequence of insertions under unused keys and of erasures of
  present items runs without a failing assertion, through every growth of the slot array on
  the way, and \<^verbatim>\<open>nn_hash_get\<close> then answers exactly like the map built by the same updates.
\<close>

theorem nn_hash_implements_map:
  assumes "peer_history Map.empty ops m"
  shows "\<exists>h. table_run nn_hash_insert nn_hash_erase (nn_hash_init keys) ops = Some h \<and>
    nn_hash_get h = m"
  using ht.run_history [OF assms hash_inv_init nn_hash_get_init] by blast

theorem nn_hash_implements_map_witness:
  "\<exists>h. table_run nn_hash_insert nn_hash_erase (nn_hash_init (\<lambda>_. 0))
      [Register 7 CHR ''a'', Register 9 CHR ''b'', Forget CHR ''a'', Register 7 CHR ''c''] = Some h \<and>
    nn_hash_get h = [9 \<mapsto> CHR ''b'', 7 \<mapsto> CHR ''c'']"
  by (rule nn_hash_implements_map)
    (auto intro!: history_nil history_register history_forget [where k = 7] simp: fun_eq_iff)

text \<open>
  Growing the table (\<^verbatim>\<open>nn_hash_rehash\<close>) doubles the number of slots, redistributes
  every item to the slot its key selects among them, and changes no lookup.
\<close>

lemma nn_hash_rehash_transparent:
  assumes "hash_inv h" "slots h < 0x80000000"
  shows "hash_inv (nn_hash_rehash h) \<and> nn_hash_get (nn_hash_rehash h) = nn_hash_get h \<and>
    unat (slots (nn_hash_rehash h)) = 2 * unat (slots h)"
proof (intro conjI)
  note re = nn_hash_rehash_inv [OF assms]
  show "hash_inv (nn_hash_rehash h)" "unat (slots (nn_hash_rehash h)) = 2 * unat (slots h)"
    by (rule re)+
  show "nn_hash_get (nn_hash_rehash h) = nn_hash_get h"
    by (rule hash_get_eqI [OF re(1)]) (simp only: hash_get_iff [OF assms(1)] re(2,3))
qed

end
