(* ===== verification/Nn_Chunk.thy ===== *)
theory Nn_Chunk
  imports Nn_Wire
begin

text \<open>
  \<^verbatim>\<open>utils/chunk.c\<close>: reference-counted memory chunks.  The heap maps block numbers to
  chunks; a chunk is the fields of \<^verbatim>\<open>struct nn_chunk\<close> and the bytes that follow the
  structure in its memory block.  A chunk pointer is a block and the offset of the message
  data among these bytes, so the 32 bit size of the empty space and the 32 bit tag in front
  of the data are bytes of the block, read and written with \<^verbatim>\<open>nn_getl\<close> and
  \<^verbatim>\<open>nn_putl\<close> as in the code.  An access outside a block, to a block that is gone, or
  through a pointer whose header does not lead back to the start of its block is \<open>None\<close>.

  The allocator is a parameter \<open>mal\<close>: the bytes of a new block of the given size, or
  \<open>None\<close> when there is no memory; new blocks get a number never used before, so a pointer
  that survived the release of its block is recognised.
\<close>

section \<open>Heap and pointers\<close>

record nn_chunk =
  refcount :: u32
  csize :: u64
  cmem :: bytes

record chunk_heap =
  blocks :: "nat \<Rightarrow> nn_chunk option"
  fresh :: nat

type_synonym cptr = "nat \<times> nat"
type_synonym malloc = "u64 \<Rightarrow> bytes option"

definition NN_CHUNK_TAG :: u32 where
  "NN_CHUNK_TAG = 0xdeadcafe"

definition NN_CHUNK_TAG_DEALLOCATED :: u32 where
  "NN_CHUNK_TAG_DEALLOCATED = 0xbeadfeed"

text \<open>\<^verbatim>\<open>sizeof (struct nn_chunk)\<close> where pointers and \<^verbatim>\<open>size_t\<close> have 64 bits.\<close>

definition sizeof_nn_chunk :: nat where
  "sizeof_nn_chunk = 24"

definition nn_chunk_hdrsize :: u64 where
  "nn_chunk_hdrsize = of_nat sizeof_nn_chunk + 2 * 4"

definition peekl :: "bytes \<Rightarrow> nat \<Rightarrow> u32 option" where
  "peekl mem i = nn_getl (drop i mem)"

definition pokel :: "bytes \<Rightarrow> nat \<Rightarrow> u32 \<Rightarrow> bytes option" where
  "pokel mem i v = map_option (\<lambda>b. take i mem @ b) (nn_putl (drop i mem) v)"

section \<open>Operations\<close>

definition nn_chunk_getptr :: "chunk_heap \<Rightarrow> cptr \<Rightarrow> nat option" where
  "nn_chunk_getptr h p = (case p of (b, i) \<Rightarrow> do {
     self \<leftarrow> blocks h b;
     nn_assert (8 \<le> i);
     tag \<leftarrow> peekl (cmem self) (i - 4);
     nn_assert (tag = NN_CHUNK_TAG);
     off \<leftarrow> peekl (cmem self) (i - 8);
     nn_assert (i - 8 = unat off);
     Some b })"

definition nn_chunk_getdata :: "nat \<Rightarrow> cptr" where
  "nn_chunk_getdata self = (self, 8)"

definition set_block :: "chunk_heap \<Rightarrow> nat \<Rightarrow> nn_chunk option \<Rightarrow> chunk_heap" where
  "set_block h b c = h\<lparr>blocks := (blocks h)(b := c)\<rparr>"

text \<open>\<^verbatim>\<open>nn_alloc\<close>: a new block, its first bytes taken by the structure.\<close>

definition new_block :: "chunk_heap \<Rightarrow> nn_chunk \<Rightarrow> nat \<times> chunk_heap" where
  "new_block h c = (fresh h, h\<lparr>blocks := (blocks h)(fresh h := Some c), fresh := fresh h + 1\<rparr>)"

definition nn_chunk_alloc ::
  "malloc \<Rightarrow> chunk_heap \<Rightarrow> u64 \<Rightarrow> int \<Rightarrow> (cptr rc \<times> chunk_heap) option" where
  "nn_chunk_alloc mal h msize type =
     (let hdrsz = nn_chunk_hdrsize; sz = hdrsz + msize
      in if sz < hdrsz then Some (Inl ENOMEM, h)
         else if type \<noteq> 0 then Some (Inl EINVAL, h)
         else case mal sz of None \<Rightarrow> Some (Inl ENOMEM, h)
           | Some raw \<Rightarrow> do {
               mem \<leftarrow> pokel (drop sizeof_nn_chunk raw) 0 0;
               mem \<leftarrow> pokel mem 4 NN_CHUNK_TAG;
               let (self, h) = new_block h \<lparr>refcount = 1, csize = msize, cmem = mem\<rparr>;
               Some (Inr (nn_chunk_getdata self), h) })"

text \<open>\<^verbatim>\<open>realloc\<close>: the old bytes up to the smaller of the two sizes, then what the
  allocator left behind them.\<close>

definition resize :: "bytes \<Rightarrow> bytes \<Rightarrow> bytes" where
  "resize old raw = take (length raw) old @ drop (length old) raw"

definition nn_chunk_realloc ::
  "malloc \<Rightarrow> chunk_heap \<Rightarrow> u64 \<Rightarrow> cptr \<Rightarrow> (cptr rc \<times> chunk_heap) option" where
  "nn_chunk_realloc mal h msize chunk = do {
     b \<leftarrow> nn_chunk_getptr h chunk;
     self \<leftarrow> blocks h b;
     if refcount self = 1 then
       (let hdr_size = nn_chunk_hdrsize; new_size = hdr_size + msize
        in if new_size < hdr_size then Some (Inl ENOMEM, h)
           else case mal new_size of None \<Rightarrow> Some (Inl ENOMEM, h)
             | Some raw \<Rightarrow>
                 (let (new_chunk, h) = new_block (set_block h b None)
                    (self\<lparr>csize := msize, cmem := resize (cmem self) (drop sizeof_nn_chunk raw)\<rparr>)
                  in Some (Inr (nn_chunk_getdata new_chunk), h)))
     else do {
       (rc, h) \<leftarrow> nn_chunk_alloc mal h msize 0;
       case rc of Inl e \<Rightarrow> Some (Inl e, h)
       | Inr new_ptr \<Rightarrow> do {
           dst \<leftarrow> blocks h (fst new_ptr);
           nn_assert (8 + unat (csize self) \<le> length (cmem self));
           nn_assert (8 + unat (csize self) \<le> length (cmem dst));
           let dst = dst\<lparr>cmem := take 8 (cmem dst) @ take (unat (csize self)) (drop 8 (cmem self)) @
             drop (8 + unat (csize self)) (cmem dst)\<rparr>;
           let self = self\<lparr>refcount := refcount self - 1\<rparr>;
           Some (Inr new_ptr, set_block (set_block h (fst new_ptr) (Some dst)) b (Some self)) } } }"

definition nn_chunk_free :: "chunk_heap \<Rightarrow> cptr \<Rightarrow> chunk_heap option" where
  "nn_chunk_free h p = do {
     b \<leftarrow> nn_chunk_getptr h p;
     self \<leftarrow> blocks h b;
     let old = refcount self;
     let self = self\<lparr>refcount := old - 1\<rparr>;
     if old \<le> 1 then do {
       mem \<leftarrow> pokel (cmem self) (snd p - 4) NN_CHUNK_TAG_DEALLOCATED;
       Some (set_block h b None) }
     else Some (set_block h b (Some self)) }"

definition nn_chunk_addref :: "chunk_heap \<Rightarrow> cptr \<Rightarrow> u32 \<Rightarrow> chunk_heap option" where
  "nn_chunk_addref h p n = do {
     b \<leftarrow> nn_chunk_getptr h p;
     self \<leftarrow> blocks h b;
     Some (set_block h b (Some (self\<lparr>refcount := refcount self + n\<rparr>))) }"

definition nn_chunk_size :: "chunk_heap \<Rightarrow> cptr \<Rightarrow> u64 option" where
  "nn_chunk_size h p = do {
     b \<leftarrow> nn_chunk_getptr h p;
     self \<leftarrow> blocks h b;
     Some (csize self) }"

definition nn_chunk_trim :: "chunk_heap \<Rightarrow> cptr \<Rightarrow> u64 \<Rightarrow> (cptr \<times> chunk_heap) option" where
  "nn_chunk_trim h p n = do {
     b \<leftarrow> nn_chunk_getptr h p;
     self \<leftarrow> blocks h b;
     nn_assert (n \<le> csize self);
     let i = snd p + unat n;
     mem \<leftarrow> pokel (cmem self) (i - 4) NN_CHUNK_TAG;
     let empty_space = i - 8;
     nn_assert (empty_space < 0xffffffff);
     mem \<leftarrow> pokel mem (i - 8) (of_nat empty_space);
     let self = self\<lparr>cmem := mem, csize := csize self - n\<rparr>;
     Some ((b, i), set_block h b (Some self)) }"

section \<open>Reading and writing inside a block\<close>

lemma blocks_set_block [simp]: "blocks (set_block h b c) = (blocks h)(b := c)"
  by (simp add: set_block_def)

lemma set_block_twice [simp]: "set_block (set_block h b c) b c' = set_block h b c'"
  by (simp add: set_block_def)

lemma set_block_same: "blocks h b = c \<Longrightarrow> set_block h b c = h"
  by (auto simp: set_block_def fun_upd_idem)

lemma pokel_eq: "i + 4 \<le> length mem \<Longrightarrow> pokel mem i v = Some (take i mem @ be32 v @ drop (i + 4) mem)"
  by (simp add: pokel_def nn_putl_be32_gen add.commute)

lemma peekl_be32: "length a = i \<Longrightarrow> peekl (a @ be32 v @ t) i = Some v"
  by (simp add: peekl_def wire_simps)

lemma peekl_append: "i + 4 \<le> length a \<Longrightarrow> peekl (a @ t) i = peekl a i"
  by (auto simp: peekl_def nn_getl_def nth_append)

text \<open>A block whose data starts at offset \<open>i\<close>: the header words, then the data.\<close>

definition chunk_at :: "nn_chunk \<Rightarrow> nat \<Rightarrow> bytes \<Rightarrow> bool" where
  "chunk_at c i xs \<longleftrightarrow> (\<exists>gap. length gap + 8 = i \<and> length gap < 0xffffffff \<and>
     cmem c = gap @ be32 (of_nat (length gap)) @ be32 NN_CHUNK_TAG @ xs \<and>
     length xs = unat (csize c))"

definition chunk_ok :: "chunk_heap \<Rightarrow> cptr \<Rightarrow> nn_chunk \<Rightarrow> bytes \<Rightarrow> bool" where
  "chunk_ok h p c xs \<longleftrightarrow> blocks h (fst p) = Some c \<and> chunk_at c (snd p) xs"

lemma unat_of_nat_u32: "k < 0x100000000 \<Longrightarrow> unat (of_nat k :: u32) = k"
  by (simp add: unat_of_nat take_bit_nat_def)

lemma unat_less_u64: "unat (w :: u64) < 18446744073709551616"
proof -
  have "unat w < 2 ^ LENGTH(64)" by (rule unsigned_less)
  then show ?thesis by simp
qed

lemma getptr_ok [simp]: "chunk_ok h p c xs \<Longrightarrow> nn_chunk_getptr h p = Some (fst p)"
proof -
  assume "chunk_ok h p c xs"
  then obtain gap where g: "length gap + 8 = snd p" "length gap < 0xffffffff"
    "cmem c = gap @ be32 (of_nat (length gap)) @ be32 NN_CHUNK_TAG @ xs" "blocks h (fst p) = Some c"
    by (auto simp: chunk_ok_def chunk_at_def)
  have "peekl (cmem c) (snd p - 4) = Some NN_CHUNK_TAG"
    using peekl_be32 [of "gap @ be32 (of_nat (length gap))" "snd p - 4" NN_CHUNK_TAG xs] g by simp
  moreover have "peekl (cmem c) (snd p - 8) = Some (of_nat (length gap))"
    using peekl_be32 [of gap "snd p - 8"] g by simp
  ultimately show ?thesis
    using g by (auto simp: nn_chunk_getptr_def unat_of_nat_u32 split: prod.splits)
qed

lemma chunk_ok_length: "chunk_ok h p c xs \<Longrightarrow> length xs = unat (csize c)"
  by (auto simp: chunk_ok_def chunk_at_def)

lemma chunk_ok_block: "chunk_ok h p c xs \<Longrightarrow> blocks h (fst p) = Some c"
  by (simp add: chunk_ok_def)

section \<open>Allocation\<close>

text \<open>The documented behaviour of the allocator: a block has the size asked for.\<close>

definition malloc_ok :: "malloc \<Rightarrow> bool" where
  "malloc_ok mal \<longleftrightarrow> (\<forall>n raw. mal n = Some raw \<longrightarrow> length raw = unat n)"

lemma hdrsize_value: "nn_chunk_hdrsize = 32"
  by (simp add: nn_chunk_hdrsize_def sizeof_nn_chunk_def)

lemma hdrsize_overflow_iff: "nn_chunk_hdrsize + n < nn_chunk_hdrsize \<longleftrightarrow> 2 ^ 64 \<le> 32 + unat n"
  using no_plus_overflow_unat_size [of nn_chunk_hdrsize n]
  by (simp add: hdrsize_value word_size not_less [symmetric]) blast

lemma hdrsize_no_overflow:
  "\<not> nn_chunk_hdrsize + n < nn_chunk_hdrsize \<Longrightarrow> unat (nn_chunk_hdrsize + n) = 32 + unat n"
  by (simp only: hdrsize_overflow_iff) (simp add: hdrsize_value unat_plus_if')

lemma block_8: "8 \<le> length m \<Longrightarrow> pokel m 0 v \<bind> (\<lambda>m. pokel m 4 w) = Some (be32 v @ be32 w @ drop 8 m)"
  by (simp add: pokel_eq)

lemma nn_chunk_alloc_success:
  assumes m: "malloc_ok mal" and n: "32 + unat n < 2 ^ 64" and raw: "mal (nn_chunk_hdrsize + n) = Some raw"
  shows "nn_chunk_alloc mal h n 0 = Some (Inr (fresh h, 8), h\<lparr>blocks := (blocks h)(fresh h \<mapsto>
      \<lparr>refcount = 1, csize = n, cmem = be32 0 @ be32 NN_CHUNK_TAG @ drop 32 raw\<rparr>), fresh := fresh h + 1\<rparr>)"
    "length (drop 32 raw) = unat n"
proof -
  have no: "\<not> nn_chunk_hdrsize + n < nn_chunk_hdrsize"
    using n by (simp add: hdrsize_overflow_iff)
  have len: "length raw = 32 + unat n"
    using m raw hdrsize_no_overflow [OF no] by (simp add: malloc_ok_def)
  then show "length (drop 32 raw) = unat n" by simp
  have "8 \<le> length (drop sizeof_nn_chunk raw)"
    using len by (simp add: sizeof_nn_chunk_def)
  then show "nn_chunk_alloc mal h n 0 = Some (Inr (fresh h, 8), h\<lparr>blocks := (blocks h)(fresh h \<mapsto>
      \<lparr>refcount = 1, csize = n, cmem = be32 0 @ be32 NN_CHUNK_TAG @ drop 32 raw\<rparr>), fresh := fresh h + 1\<rparr>)"
    using raw no unfolding nn_chunk_alloc_def
    by (simp add: Let_def pokel_eq new_block_def nn_chunk_getdata_def sizeof_nn_chunk_def)
qed

lemma chunk_ok_alloc:
  "length xs = unat n \<Longrightarrow>
   chunk_ok (h\<lparr>blocks := (blocks h)(b \<mapsto> \<lparr>refcount = r, csize = n, cmem = be32 0 @ be32 NN_CHUNK_TAG @ xs\<rparr>),
      fresh := f\<rparr>)
     (b, 8) \<lparr>refcount = r, csize = n, cmem = be32 0 @ be32 NN_CHUNK_TAG @ xs\<rparr> xs"
  by (auto simp: chunk_ok_def chunk_at_def intro!: exI [of _ "[]"])

text \<open>
  \<^verbatim>\<open>nn_chunk_alloc\<close> answers \<^verbatim>\<open>ENOMEM\<close> when the size of the block would overflow
  \<^verbatim>\<open>size_t\<close>, \<^verbatim>\<open>EINVAL\<close> for an unknown mechanism and \<^verbatim>\<open>ENOMEM\<close> when the
  allocator is out of memory, each time leaving the heap as it is.  Otherwise it returns a
  well-formed chunk with one reference and exactly the size asked for, and no other chunk
  changes.
\<close>

lemma nn_chunk_alloc_spec:
  assumes m: "malloc_ok mal"
  shows "(2 ^ 64 \<le> 32 + unat n \<longrightarrow> nn_chunk_alloc mal h n t = Some (Inl ENOMEM, h)) \<and>
    (32 + unat n < 2 ^ 64 \<longrightarrow> t \<noteq> 0 \<longrightarrow> nn_chunk_alloc mal h n t = Some (Inl EINVAL, h)) \<and>
    (32 + unat n < 2 ^ 64 \<longrightarrow> mal (32 + n) = None \<longrightarrow> nn_chunk_alloc mal h n 0 = Some (Inl ENOMEM, h)) \<and>
    (32 + unat n < 2 ^ 64 \<longrightarrow> mal (32 + n) \<noteq> None \<longrightarrow>
      (\<exists>p h' c xs. nn_chunk_alloc mal h n 0 = Some (Inr p, h') \<and> fst p = fresh h \<and>
        chunk_ok h' p c xs \<and> refcount c = 1 \<and> length xs = unat n \<and>
        (\<forall>b. b \<noteq> fresh h \<longrightarrow> blocks h' b = blocks h b)))"
    (is "?A \<and> ?B \<and> ?C \<and> ?D")
proof (intro conjI)
  show ?A ?B ?C
    using hdrsize_overflow_iff [of n] by (auto simp: nn_chunk_alloc_def Let_def hdrsize_value)
  show ?D
  proof (intro impI)
    assume n: "32 + unat n < 2 ^ 64" and "mal (32 + n) \<noteq> None"
    then obtain raw where raw: "mal (nn_chunk_hdrsize + n) = Some raw"
      by (auto simp: hdrsize_value)
    note ok = nn_chunk_alloc_success [OF m n raw]
    let ?c = "\<lparr>refcount = 1, csize = n, cmem = be32 0 @ be32 NN_CHUNK_TAG @ drop 32 raw\<rparr>"
    let ?h = "h\<lparr>blocks := (blocks h)(fresh h \<mapsto> ?c), fresh := fresh h + 1\<rparr>"
    show "\<exists>p h' c xs. nn_chunk_alloc mal h n 0 = Some (Inr p, h') \<and> fst p = fresh h \<and>
        chunk_ok h' p c xs \<and> refcount c = 1 \<and> length xs = unat n \<and>
        (\<forall>b. b \<noteq> fresh h \<longrightarrow> blocks h' b = blocks h b)"
      by (rule exI [of _ "(fresh h, 8)"], rule exI [of _ ?h], rule exI [of _ ?c],
          rule exI [of _ "drop 32 raw"]) (simp only: ok chunk_ok_alloc [OF ok(2)], simp)
  qed
qed

section \<open>Trimming\<close>

lemma chunk_at_poke:
  assumes c: "chunk_at c i xs" and n: "n \<le> length xs" "i + n - 8 < 0xffffffff"
  shows "\<exists>m. pokel (cmem c) (i + n - 4) NN_CHUNK_TAG \<bind> (\<lambda>m. pokel m (i + n - 8) (of_nat (i + n - 8))) = Some m \<and>
    chunk_at (c\<lparr>cmem := m, csize := of_nat (length xs - n)\<rparr>) (i + n) (drop n xs)"
proof -
  let ?M = "cmem c" and ?j = "i + n"
  from c obtain gap where g: "length gap + 8 = i"
    "?M = gap @ be32 (of_nat (length gap)) @ be32 NN_CHUNK_TAG @ xs" "length xs = unat (csize c)"
    by (auto simp: chunk_at_def)
  then have len: "length ?M = i + length xs" and j: "8 \<le> ?j" "?j \<le> length ?M"
    using n by auto
  have d: "drop ?j ?M = drop n xs"
    using g(2) by (simp flip: g(1))
  let ?m = "take (?j - 8) ?M @ be32 (of_nat (?j - 8)) @ be32 NN_CHUNK_TAG @ drop ?j ?M"
  have "pokel ?M (?j - 4) NN_CHUNK_TAG = Some (take (?j - 4) ?M @ be32 NN_CHUNK_TAG @ drop ?j ?M)"
    using j by (subst pokel_eq) auto
  moreover have "pokel (take (?j - 4) ?M @ be32 NN_CHUNK_TAG @ drop ?j ?M) (?j - 8) (of_nat (?j - 8)) = Some ?m"
    using j by (subst pokel_eq) (auto simp: min_def)
  moreover have "chunk_at (c\<lparr>cmem := ?m, csize := of_nat (length xs - n)\<rparr>) ?j (drop n xs)"
  proof -
    have "unat (of_nat (length xs - n) :: u64) = length xs - n"
      using g(3) unat_less_u64 [of "csize c"] by (simp add: unat_of_nat take_bit_nat_def)
    moreover have "length (take (?j - 8) ?M) = ?j - 8"
      using j by simp
    ultimately show ?thesis
      using j n by (auto simp: chunk_at_def d intro!: exI [of _ "take (?j - 8) ?M"])
  qed
  ultimately show ?thesis by auto
qed

lemma nn_chunk_trim_ok:
  assumes ok: "chunk_ok h p c xs" and lim: "snd p + unat n - 8 < 0xffffffff"
  shows "(unat n \<le> length xs \<longrightarrow> (\<exists>h' c'. nn_chunk_trim h p n = Some ((fst p, snd p + unat n), h') \<and>
      chunk_ok h' (fst p, snd p + unat n) c' (drop (unat n) xs) \<and> refcount c' = refcount c \<and>
      (\<forall>b. b \<noteq> fst p \<longrightarrow> blocks h' b = blocks h b))) \<and>
    (length xs < unat n \<longrightarrow> nn_chunk_trim h p n = None)"
proof -
  have c: "blocks h (fst p) = Some c" "chunk_at c (snd p) xs" "length xs = unat (csize c)"
    using ok chunk_ok_length by (auto simp: chunk_ok_def)
  have "nn_chunk_trim h p n = None" if "length xs < unat n"
    using that ok c by (simp add: nn_chunk_trim_def word_le_nat_alt)
  moreover have "\<exists>h' c'. nn_chunk_trim h p n = Some ((fst p, snd p + unat n), h') \<and>
      chunk_ok h' (fst p, snd p + unat n) c' (drop (unat n) xs) \<and> refcount c' = refcount c \<and>
      (\<forall>b. b \<noteq> fst p \<longrightarrow> blocks h' b = blocks h b)" if n: "unat n \<le> length xs"
  proof -
    let ?i = "snd p + unat n"
    obtain m where m: "pokel (cmem c) (?i - 4) NN_CHUNK_TAG \<bind> (\<lambda>m. pokel m (?i - 8) (of_nat (?i - 8))) = Some m"
      "chunk_at (c\<lparr>cmem := m, csize := of_nat (length xs - unat n)\<rparr>) ?i (drop (unat n) xs)"
      using chunk_at_poke [OF c(2) n lim] by auto
    have sz: "of_nat (length xs - unat n) = csize c - n"
      using n c(3) by (simp add: of_nat_diff)
    have "nn_chunk_trim h p n = Some ((fst p, ?i),
        set_block h (fst p) (Some (c\<lparr>cmem := m, csize := csize c - n\<rparr>)))"
      using ok c n m(1) lim by (auto simp: nn_chunk_trim_def word_le_nat_alt Let_def bind_eq_Some_conv)
    then show ?thesis
      using m(2) by (auto simp: sz chunk_ok_def)
  qed
  ultimately show ?thesis by blast
qed

text \<open>
  \<^verbatim>\<open>nn_chunk_trim\<close> of at most the size of a chunk drops exactly that many bytes from
  the front of its data: the pointer it returns denotes a well-formed chunk of the same
  block whose data is the rest, whatever the lengths, also where the rewritten header
  overlaps the previous one.  The reference count and all other chunks stay.  Trimming more
  than the size aborts.
\<close>

lemma nn_chunk_trim_spec:
  assumes ok: "chunk_ok h p c xs" and lim: "snd p + unat n - 8 < 0xffffffff"
  shows "(unat n \<le> length xs \<longrightarrow> (\<exists>h' c'. nn_chunk_trim h p n = Some ((fst p, snd p + unat n), h') \<and>
      chunk_ok h' (fst p, snd p + unat n) c' (drop (unat n) xs) \<and> refcount c' = refcount c \<and>
      (\<forall>b. b \<noteq> fst p \<longrightarrow> blocks h' b = blocks h b))) \<and>
    (length xs < unat n \<longrightarrow> nn_chunk_trim h p n = None)"
  by (rule nn_chunk_trim_ok [OF assms])

text \<open>A heap with a single chunk, as \<^verbatim>\<open>nn_chunk_alloc\<close> creates it, filled with \<open>xs\<close>.\<close>

definition one_chunk :: "u32 \<Rightarrow> bytes \<Rightarrow> nn_chunk" where
  "one_chunk r xs = \<lparr>refcount = r, csize = of_nat (length xs), cmem = be32 0 @ be32 NN_CHUNK_TAG @ xs\<rparr>"

definition one_heap :: "u32 \<Rightarrow> bytes \<Rightarrow> chunk_heap" where
  "one_heap r xs = \<lparr>blocks = [0 \<mapsto> one_chunk r xs], fresh = 1\<rparr>"

lemma one_heap_ok: "length xs < 2 ^ 64 \<Longrightarrow> chunk_ok (one_heap r xs) (0, 8) (one_chunk r xs) xs"
  by (auto simp: chunk_ok_def chunk_at_def one_heap_def one_chunk_def unat_of_nat take_bit_nat_def
      intro!: exI [of _ "[]"])

section \<open>Reference counting\<close>

lemma nn_chunk_free_shared:
  "chunk_ok h p c xs \<Longrightarrow> 1 < refcount c \<Longrightarrow>
   nn_chunk_free h p = Some (set_block h (fst p) (Some (c\<lparr>refcount := refcount c - 1\<rparr>)))"
  by (auto simp: nn_chunk_free_def chunk_ok_def Let_def)

lemma nn_chunk_free_last:
  assumes "chunk_ok h p c xs" "refcount c \<le> 1"
  shows "nn_chunk_free h p = Some (set_block h (fst p) None)"
proof -
  have "8 \<le> snd p" "snd p \<le> length (cmem c)"
    using assms(1) by (auto simp: chunk_ok_def chunk_at_def)
  then show ?thesis
    using assms by (auto simp: nn_chunk_free_def chunk_ok_block Let_def pokel_eq)
qed

lemma nn_chunk_free_gone: "blocks h (fst p) = None \<Longrightarrow> nn_chunk_free h p = None"
  by (cases p) (simp add: nn_chunk_free_def nn_chunk_getptr_def)

lemma chunk_ok_refcount:
  "chunk_ok h p c xs \<Longrightarrow>
   chunk_ok (set_block h (fst p) (Some (c\<lparr>refcount := r\<rparr>))) p (c\<lparr>refcount := r\<rparr>) xs"
  by (simp add: chunk_ok_def chunk_at_def)

lemma nn_chunk_addref_ok:
  "chunk_ok h p c xs \<Longrightarrow>
   nn_chunk_addref h p n = Some (set_block h (fst p) (Some (c\<lparr>refcount := refcount c + n\<rparr>)))"
  by (simp add: nn_chunk_addref_def chunk_ok_block)

primrec free_times :: "nat \<Rightarrow> chunk_heap \<Rightarrow> cptr \<Rightarrow> chunk_heap option" where
  "free_times 0 h p = Some h"
| "free_times (Suc k) h p = nn_chunk_free h p \<bind> (\<lambda>h. free_times k h p)"

lemma free_times_spec:
  assumes "chunk_ok h p c xs" "1 \<le> refcount c"
  shows "k < unat (refcount c) \<Longrightarrow> free_times k h p =
      Some (set_block h (fst p) (Some (c\<lparr>refcount := refcount c - of_nat k\<rparr>)))"
    and "k = unat (refcount c) \<Longrightarrow> free_times k h p = Some (set_block h (fst p) None)"
    and "unat (refcount c) < k \<Longrightarrow> free_times k h p = None"
  using assms
proof (induction k arbitrary: h c)
  case 0
  {
    case 1
    then show ?case by (simp add: chunk_ok_block set_block_same)
  next
    case 2
    then show ?case by (simp add: word_le_nat_alt)
  next
    case 3
    then show ?case by simp
  }
next
  case (Suc k)
  {
    case 1
    then have r: "1 < refcount c" by (simp add: word_less_nat_alt)
    note ok = chunk_ok_refcount [OF 1(2), of "refcount c - 1"]
    have "k < unat (refcount c - 1)" "1 \<le> refcount c - 1"
      using 1 r by (auto simp: unat_sub word_le_nat_alt word_less_nat_alt)
    then show ?case
      using Suc.IH(1) [OF _ ok] 1 r by (simp add: nn_chunk_free_shared diff_diff_eq)
  next
    case 2
    show ?case
    proof (cases "k = 0")
      case True
      then have "refcount c \<le> 1" using 2 by (simp add: word_le_nat_alt)
      then show ?thesis using 2 True by (simp add: nn_chunk_free_last)
    next
      case False
      then have r: "1 < refcount c" using 2 by (simp add: word_less_nat_alt)
      note ok = chunk_ok_refcount [OF 2(2), of "refcount c - 1"]
      have "k = unat (refcount c - 1)" "1 \<le> refcount c - 1"
        using 2 r False by (auto simp: unat_sub word_le_nat_alt word_less_nat_alt)
      then show ?thesis
        using Suc.IH(2) [OF _ ok] 2(2) r by (simp add: nn_chunk_free_shared)
    qed
  next
    case 3
    show ?case
    proof (cases "refcount c \<le> 1")
      case True
      then have "free_times k (set_block h (fst p) None) p = None"
        using 3 by (cases k) (auto simp: nn_chunk_free_gone word_le_nat_alt)
      then show ?thesis using 3 True by (simp add: nn_chunk_free_last)
    next
      case False
      then have r: "1 < refcount c" by simp
      note ok = chunk_ok_refcount [OF 3(2), of "refcount c - 1"]
      have "unat (refcount c - 1) < k" "1 \<le> refcount c - 1"
        using 3 r by (auto simp: unat_sub word_le_nat_alt word_less_nat_alt)
      then show ?thesis
        using Suc.IH(3) [OF _ ok] 3 r by (simp add: nn_chunk_free_shared)
    qed
  }
qed

text \<open>
  A chunk lives exactly as long as it is referenced.  After \<^verbatim>\<open>nn_chunk_addref\<close> with
  \<open>n\<close> more references (no wrap-around of the 32 bit counter), the first releases keep the
  chunk with its data readable, the release of the last of the \<open>r + n\<close> references frees its
  block, and one release more is a use after free.
\<close>

lemma nn_chunk_lifetime:
  assumes ok: "chunk_ok h p c xs" and r: "1 \<le> refcount c" and n: "unat (refcount c) + unat n < 2 ^ 32"
  shows "\<exists>h1. nn_chunk_addref h p n = Some h1 \<and>
    (\<forall>k < unat (refcount c) + unat n. \<exists>h' c'. free_times k h1 p = Some h' \<and> chunk_ok h' p c' xs) \<and>
    (\<exists>h'. free_times (unat (refcount c) + unat n) h1 p = Some h' \<and> blocks h' = (blocks h)(fst p := None)) \<and>
    free_times (unat (refcount c) + unat n + 1) h1 p = None"
proof -
  let ?c = "c\<lparr>refcount := refcount c + n\<rparr>"
  let ?h = "set_block h (fst p) (Some ?c)"
  have u: "unat (refcount c + n) = unat (refcount c) + unat n"
    using n by (simp add: unat_plus_if')
  have ok': "chunk_ok ?h p ?c xs"
    by (rule chunk_ok_refcount [OF ok])
  have r': "1 \<le> refcount ?c"
    using r u by (simp add: word_le_nat_alt)
  note ft = free_times_spec [OF ok' r', simplified, unfolded u]
  have alive: "\<exists>h' c'. free_times k ?h p = Some h' \<and> chunk_ok h' p c' xs"
    if "k < unat (refcount c) + unat n" for k
    using ft(1) [OF that] chunk_ok_refcount [OF ok] by fastforce
  show ?thesis
    using nn_chunk_addref_ok [OF ok, of n] alive ft(2) [OF refl]
      ft(3) [of "unat (refcount c) + unat n + 1"] by auto
qed

section \<open>Resizing\<close>

lemma chunk_ok_8:
  "chunk_ok h (b, 8) c xs \<Longrightarrow> blocks h b = Some c \<and> cmem c = be32 0 @ be32 NN_CHUNK_TAG @ xs \<and>
     length xs = unat (csize c)"
  by (auto simp: chunk_ok_def chunk_at_def)

lemma resize_header:
  assumes "length raw = length h + n"
  shows "resize (h @ xs) raw = h @ take n xs @ drop (length xs) (drop (length h) raw)"
  using assms by (simp add: resize_def add.commute)

lemma chunk_ok_new_block:
  "new_block h c = (b, h') \<Longrightarrow> cmem c = be32 0 @ be32 NN_CHUNK_TAG @ xs \<Longrightarrow> length xs = unat (csize c) \<Longrightarrow>
   chunk_ok h' (b, 8) c xs \<and> b = fresh h \<and> blocks h' = (blocks h)(b \<mapsto> c)"
  by (auto simp: new_block_def chunk_ok_def chunk_at_def intro!: exI [of _ "[]"])

text \<open>
  \<^verbatim>\<open>nn_chunk_realloc\<close> on a chunk that was not trimmed, with one reference, gives a
  well-formed chunk of the new size, with one reference, whose data agrees with the old data
  up to the smaller of the two sizes; no chunk other than the resized one changes.
\<close>

lemma nn_chunk_realloc_keeps_data:
  assumes m: "malloc_ok mal" and ok: "chunk_ok h (b, 8) c xs" and r: "refcount c = 1"
    and fr: "b < fresh h" and n: "32 + unat n < 2 ^ 64" and mem: "mal (32 + n) \<noteq> None"
  shows "\<exists>p h' c' ys. nn_chunk_realloc mal h n (b, 8) = Some (Inr p, h') \<and> chunk_ok h' p c' ys \<and>
    refcount c' = 1 \<and> length ys = unat n \<and>
    take (min (length xs) (unat n)) ys = take (min (length xs) (unat n)) xs \<and>
    (\<forall>b'. b' \<noteq> b \<longrightarrow> b' \<noteq> fst p \<longrightarrow> blocks h' b' = blocks h b')"
proof -
  obtain raw where raw: "mal (nn_chunk_hdrsize + n) = Some raw"
    using mem by (auto simp: hdrsize_value)
  have no: "\<not> nn_chunk_hdrsize + n < nn_chunk_hdrsize"
    using n by (simp add: hdrsize_overflow_iff)
  have len: "length (drop sizeof_nn_chunk raw) = 8 + unat n"
    using m raw hdrsize_no_overflow [OF no] by (simp add: malloc_ok_def sizeof_nn_chunk_def)
  define ys where "ys = take (unat n) xs @ drop (length xs) (drop 8 (drop sizeof_nn_chunk raw))"
  define c' where "c' = c\<lparr>csize := n, cmem := resize (cmem c) (drop sizeof_nn_chunk raw)\<rparr>"
  have csz: "csize c' = n" by (simp add: c'_def)
  obtain b' h' where nb: "new_block (set_block h b None) c' = (b', h')" by force
  have "cmem c' = be32 0 @ be32 NN_CHUNK_TAG @ ys"
    using chunk_ok_8 [OF ok] resize_header [of "drop sizeof_nn_chunk raw" "be32 0 @ be32 NN_CHUNK_TAG" "unat n" xs] len
    by (simp add: c'_def ys_def)
  moreover have ys: "length ys = unat n" using len by (simp add: ys_def)
  ultimately have "chunk_ok h' (b', 8) c' ys" "blocks h' = ((blocks h)(b := None))(b' \<mapsto> c')"
    using chunk_ok_new_block [OF nb, of ys] csz by auto
  moreover have "nn_chunk_realloc mal h n (b, 8) = Some (Inr (b', 8), h')"
    using ok r raw no nb chunk_ok_8 [OF ok]
    by (simp add: nn_chunk_realloc_def Let_def c'_def nn_chunk_getdata_def)
  moreover have "take (min (length xs) (unat n)) ys = take (min (length xs) (unat n)) xs"
    by (simp add: ys_def)
  ultimately show ?thesis using ys r by (fastforce simp: c'_def)
qed

text \<open>
  On a chunk with more than one reference, \<^verbatim>\<open>nn_chunk_realloc\<close> to a smaller size
  copies the whole old data (\<^verbatim>\<open>memcpy (new_ptr, nn_chunk_getdata (self), self->size)\<close>) into
  the smaller new block: the copy runs past the end of the new block.
\<close>

lemma nn_chunk_realloc_shared_shrink_overflows:
  assumes m: "malloc_ok mal" and ok: "chunk_ok h (b, 8) c xs" and r: "refcount c \<noteq> 1"
    and n: "unat n < length xs" "32 + unat n < 2 ^ 64" and mem: "mal (32 + n) \<noteq> None"
  shows "nn_chunk_realloc mal h n (b, 8) = None"
proof -
  obtain raw where raw: "mal (nn_chunk_hdrsize + n) = Some raw"
    using mem by (auto simp: hdrsize_value)
  show ?thesis
    using nn_chunk_alloc_success [OF m n(2) raw] ok r n(1) chunk_ok_8 [OF ok]
    by (auto simp: nn_chunk_realloc_def nn_assert_def)
qed

text \<open>
  \<^verbatim>\<open>nn_chunk_realloc\<close> forgets that a chunk was trimmed.  The pointer it returns is
  the start of the data area of the block, so after trimming the first sixteen bytes
  of \<open>1, \<dots>, 18\<close> and asking for the size the chunk already has, the caller gets the two bytes
  \<open>1, 2\<close> it had trimmed away in place of the two bytes \<open>17, 18\<close> the chunk held.
\<close>

lemma nn_chunk_realloc_after_trim:
  "do { (p, h) \<leftarrow> nn_chunk_trim (one_heap 1 (map of_nat [1..<19])) (0, 8) 16;
        (rc, h') \<leftarrow> nn_chunk_realloc (\<lambda>n. Some (replicate (unat n) 0)) h 2 p;
        q \<leftarrow> (case rc of Inl _ \<Rightarrow> None | Inr q \<Rightarrow> Some q);
        old \<leftarrow> blocks h (fst p);
        new \<leftarrow> blocks h' (fst q);
        Some (drop (snd p) (cmem old), drop (snd q) (cmem new)) } =
   Some ([17, 18], [1, 2])"
  by (simp add: upt_rec one_heap_def one_chunk_def nn_chunk_trim_def nn_chunk_realloc_def nn_chunk_getptr_def
      peekl_def pokel_def nn_getl_def nn_putl_def be32_def NN_CHUNK_TAG_def Let_def set_block_def
      new_block_def nn_chunk_getdata_def resize_def hdrsize_value sizeof_nn_chunk_def)

end
