(* ===== verification/Nn_Msg.thy ===== *)
theory Nn_Msg
  imports Nn_Chunk
begin

text \<open>
  \<^verbatim>\<open>utils/chunkref.c\<close> and \<^verbatim>\<open>utils/msg.c\<close>: references to data that are either the bytes
  themselves (very small messages, \<open>Vsm\<close>) or a pointer to a reference-counted chunk
  (\<open>Ref\<close>, tag \<^verbatim>\<open>0xff\<close>), and messages made of three of them.  A \<open>Vsm\<close> holds the bytes
  \<^verbatim>\<open>u.ref [1]\<close> up to the size stored in \<^verbatim>\<open>u.ref [0]\<close>.

  The protocol theories see a message through its contents, the record \<open>sp_msg\<close>; the
  predicate \<open>msg_ok\<close> relates the two.
\<close>

section \<open>Chunk references\<close>

definition NN_CHUNKREF_MAX :: u64 where
  "NN_CHUNKREF_MAX = 32"

datatype nn_chunkref = Vsm bytes | Ref cptr

text \<open>\<open>raw\<close> are the bytes the storage held before: small references are not cleared.\<close>

definition nn_chunkref_init ::
  "malloc \<Rightarrow> chunk_heap \<Rightarrow> bytes \<Rightarrow> u64 \<Rightarrow> (nn_chunkref \<times> chunk_heap) option" where
  "nn_chunkref_init mal h raw sz =
     (if sz < NN_CHUNKREF_MAX then Some (Vsm (take (unat sz) raw), h)
      else do {
        (rc, h) \<leftarrow> nn_chunk_alloc mal h sz 0;
        case rc of Inl e \<Rightarrow> None | Inr chunk \<Rightarrow> Some (Ref chunk, h) })"

definition nn_chunkref_init_chunk :: "cptr \<Rightarrow> nn_chunkref" where
  "nn_chunkref_init_chunk chunk = Ref chunk"

fun nn_chunkref_term :: "chunk_heap \<Rightarrow> nn_chunkref \<Rightarrow> chunk_heap option" where
  "nn_chunkref_term h (Ref chunk) = nn_chunk_free h chunk"
| "nn_chunkref_term h (Vsm xs) = Some h"

text \<open>The chunk, and the reference that stays behind.\<close>

fun nn_chunkref_getchunk ::
  "malloc \<Rightarrow> chunk_heap \<Rightarrow> nn_chunkref \<Rightarrow> (cptr \<times> nn_chunkref \<times> chunk_heap) option" where
  "nn_chunkref_getchunk mal h (Ref chunk) = Some (chunk, Vsm [], h)"
| "nn_chunkref_getchunk mal h (Vsm xs) = do {
     (rc, h) \<leftarrow> nn_chunk_alloc mal h (of_nat (length xs)) 0;
     case rc of Inl e \<Rightarrow> None
     | Inr chunk \<Rightarrow> do {
         c \<leftarrow> blocks h (fst chunk);
         nn_assert (snd chunk + length xs \<le> length (cmem c));
         let c = c\<lparr>cmem := take (snd chunk) (cmem c) @ xs @ drop (snd chunk + length xs) (cmem c)\<rparr>;
         Some (chunk, Vsm [], set_block h (fst chunk) (Some c)) } }"

definition nn_chunkref_mv :: "nn_chunkref \<Rightarrow> nn_chunkref" where
  "nn_chunkref_mv src = src"

fun nn_chunkref_cp :: "chunk_heap \<Rightarrow> nn_chunkref \<Rightarrow> (nn_chunkref \<times> chunk_heap) option" where
  "nn_chunkref_cp h (Ref chunk) = map_option (\<lambda>h. (Ref chunk, h)) (nn_chunk_addref h chunk 1)"
| "nn_chunkref_cp h (Vsm xs) = Some (Vsm xs, h)"

text \<open>The bytes behind the pointer \<^verbatim>\<open>nn_chunkref_data\<close> returns, up to the size of the chunk.\<close>

fun nn_chunkref_size :: "chunk_heap \<Rightarrow> nn_chunkref \<Rightarrow> u64 option" where
  "nn_chunkref_size h (Ref chunk) = nn_chunk_size h chunk"
| "nn_chunkref_size h (Vsm xs) = Some (of_nat (length xs))"

fun nn_chunkref_data :: "chunk_heap \<Rightarrow> nn_chunkref \<Rightarrow> bytes option" where
  "nn_chunkref_data h (Ref chunk) = map_option (\<lambda>c. drop (snd chunk) (cmem c)) (blocks h (fst chunk))"
| "nn_chunkref_data h (Vsm xs) = Some xs"

fun nn_chunkref_trim :: "chunk_heap \<Rightarrow> nn_chunkref \<Rightarrow> u64 \<Rightarrow> (nn_chunkref \<times> chunk_heap) option" where
  "nn_chunkref_trim h (Ref chunk) n = map_option (\<lambda>(chunk, h). (Ref chunk, h)) (nn_chunk_trim h chunk n)"
| "nn_chunkref_trim h (Vsm xs) n = do {
     nn_assert (of_nat (length xs) \<ge> n);
     Some (Vsm (drop (unat n) xs), h) }"

fun nn_chunkref_bulkcopy_start :: "chunk_heap \<Rightarrow> nn_chunkref \<Rightarrow> u32 \<Rightarrow> chunk_heap option" where
  "nn_chunkref_bulkcopy_start h (Ref chunk) copies = nn_chunk_addref h chunk copies"
| "nn_chunkref_bulkcopy_start h (Vsm xs) copies = Some h"

definition nn_chunkref_bulkcopy_cp :: "nn_chunkref \<Rightarrow> nn_chunkref" where
  "nn_chunkref_bulkcopy_cp src = src"

section \<open>Messages\<close>

record nn_msg =
  m_sphdr :: nn_chunkref
  m_hdrs :: nn_chunkref
  m_body :: nn_chunkref

definition nn_msg_init :: "malloc \<Rightarrow> chunk_heap \<Rightarrow> bytes \<Rightarrow> u64 \<Rightarrow> (nn_msg \<times> chunk_heap) option" where
  "nn_msg_init mal h raw sz = do {
     (s, h) \<leftarrow> nn_chunkref_init mal h raw 0;
     (hd, h) \<leftarrow> nn_chunkref_init mal h raw 0;
     (b, h) \<leftarrow> nn_chunkref_init mal h raw sz;
     Some (\<lparr>m_sphdr = s, m_hdrs = hd, m_body = b\<rparr>, h) }"

definition nn_msg_init_chunk :: "malloc \<Rightarrow> chunk_heap \<Rightarrow> bytes \<Rightarrow> cptr \<Rightarrow> (nn_msg \<times> chunk_heap) option" where
  "nn_msg_init_chunk mal h raw chunk = do {
     (s, h) \<leftarrow> nn_chunkref_init mal h raw 0;
     (hd, h) \<leftarrow> nn_chunkref_init mal h raw 0;
     Some (\<lparr>m_sphdr = s, m_hdrs = hd, m_body = nn_chunkref_init_chunk chunk\<rparr>, h) }"

definition nn_msg_term :: "chunk_heap \<Rightarrow> nn_msg \<Rightarrow> chunk_heap option" where
  "nn_msg_term h self = do {
     h \<leftarrow> nn_chunkref_term h (m_sphdr self);
     h \<leftarrow> nn_chunkref_term h (m_hdrs self);
     nn_chunkref_term h (m_body self) }"

definition nn_msg_mv :: "nn_msg \<Rightarrow> nn_msg" where
  "nn_msg_mv src = \<lparr>m_sphdr = nn_chunkref_mv (m_sphdr src), m_hdrs = nn_chunkref_mv (m_hdrs src),
     m_body = nn_chunkref_mv (m_body src)\<rparr>"

definition nn_msg_cp :: "chunk_heap \<Rightarrow> nn_msg \<Rightarrow> (nn_msg \<times> chunk_heap) option" where
  "nn_msg_cp h src = do {
     (s, h) \<leftarrow> nn_chunkref_cp h (m_sphdr src);
     (hd, h) \<leftarrow> nn_chunkref_cp h (m_hdrs src);
     (b, h) \<leftarrow> nn_chunkref_cp h (m_body src);
     Some (\<lparr>m_sphdr = s, m_hdrs = hd, m_body = b\<rparr>, h) }"

definition nn_msg_bulkcopy_start :: "chunk_heap \<Rightarrow> nn_msg \<Rightarrow> u32 \<Rightarrow> chunk_heap option" where
  "nn_msg_bulkcopy_start h self copies = do {
     h \<leftarrow> nn_chunkref_bulkcopy_start h (m_sphdr self) copies;
     h \<leftarrow> nn_chunkref_bulkcopy_start h (m_hdrs self) copies;
     nn_chunkref_bulkcopy_start h (m_body self) copies }"

definition nn_msg_bulkcopy_cp :: "nn_msg \<Rightarrow> nn_msg" where
  "nn_msg_bulkcopy_cp src = \<lparr>m_sphdr = nn_chunkref_bulkcopy_cp (m_sphdr src),
     m_hdrs = nn_chunkref_bulkcopy_cp (m_hdrs src), m_body = nn_chunkref_bulkcopy_cp (m_body src)\<rparr>"

definition nn_msg_replace_body :: "chunk_heap \<Rightarrow> nn_msg \<Rightarrow> nn_chunkref \<Rightarrow> (nn_msg \<times> chunk_heap) option" where
  "nn_msg_replace_body h self new_body = do {
     h \<leftarrow> nn_chunkref_term h (m_body self);
     Some (self\<lparr>m_body := new_body\<rparr>, h) }"

section \<open>Contents\<close>

text \<open>The contents of a message, as the protocols read and write them.\<close>

record sp_msg =
  sphdr :: bytes
  hdrs :: bytes
  body :: bytes

fun chunkref_ok :: "chunk_heap \<Rightarrow> nn_chunkref \<Rightarrow> bytes \<Rightarrow> bool" where
  "chunkref_ok h (Vsm ys) xs = (ys = xs \<and> length xs < 32)"
| "chunkref_ok h (Ref p) xs = (\<exists>c. chunk_ok h p c xs \<and> 1 \<le> refcount c)"

definition msg_ok :: "chunk_heap \<Rightarrow> nn_msg \<Rightarrow> sp_msg \<Rightarrow> bool" where
  "msg_ok h m s \<longleftrightarrow> chunkref_ok h (m_sphdr m) (sphdr s) \<and> chunkref_ok h (m_hdrs m) (hdrs s) \<and>
     chunkref_ok h (m_body m) (body s)"

lemma chunk_ok_drop: "chunk_ok h p c xs \<Longrightarrow> drop (snd p) (cmem c) = xs"
  by (auto simp: chunk_ok_def chunk_at_def)

lemma chunkref_ok_data: "chunkref_ok h r xs \<Longrightarrow> nn_chunkref_data h r = Some xs"
  by (cases r) (auto dest: chunk_ok_block chunk_ok_drop)

lemma nn_chunk_size_ok: "chunk_ok h p c xs \<Longrightarrow> nn_chunk_size h p = Some (of_nat (length xs))"
  by (simp add: nn_chunk_size_def chunk_ok_block chunk_ok_length)

lemma chunkref_ok_size: "chunkref_ok h r xs \<Longrightarrow> nn_chunkref_size h r = Some (of_nat (length xs))"
  by (cases r) (auto simp: nn_chunk_size_ok)

section \<open>Counting references\<close>

text \<open>The heap in which the reference count of one block is moved by \<open>n\<close>.\<close>

definition bump :: "u32 \<Rightarrow> nat \<Rightarrow> chunk_heap \<Rightarrow> chunk_heap" where
  "bump n b h = set_block h b (map_option (\<lambda>c. c\<lparr>refcount := refcount c + n\<rparr>) (blocks h b))"

fun bump_ref :: "u32 \<Rightarrow> nn_chunkref \<Rightarrow> chunk_heap \<Rightarrow> chunk_heap" where
  "bump_ref n (Ref p) h = bump n (fst p) h"
| "bump_ref n (Vsm xs) h = h"

definition bump_msg :: "u32 \<Rightarrow> nn_msg \<Rightarrow> chunk_heap \<Rightarrow> chunk_heap" where
  "bump_msg n m h = bump_ref n (m_body m) (bump_ref n (m_hdrs m) (bump_ref n (m_sphdr m) h))"

lemma bump_bump: "bump m b (bump n b h) = bump (n + m) b h"
  by (cases "blocks h b") (simp_all add: bump_def add.assoc)

lemma bump_comm: "bump m a (bump n b h) = bump n b (bump m a h)"
proof (cases "a = b")
  case True
  then show ?thesis by (simp add: bump_bump add.commute)
next
  case False
  then show ?thesis by (simp add: bump_def set_block_def fun_upd_twist)
qed

lemma bump_0 [simp]: "bump 0 b h = h"
  by (cases "blocks h b") (simp_all add: bump_def set_block_same)

lemma bump_ref_0 [simp]: "bump_ref 0 r h = h"
  by (cases r) simp_all

lemma bump_ref_bump: "bump_ref m r (bump_ref n r h) = bump_ref (n + m) r h"
  by (cases r) (simp_all add: bump_bump)

lemma bump_ref_comm: "bump_ref m r (bump_ref n s h) = bump_ref n s (bump_ref m r h)"
  by (cases r; cases s) (simp_all add: bump_comm)

lemma bump_msg_bump: "bump_msg m x (bump_msg n x h) = bump_msg (n + m) x h"
proof -
  let ?B = "\<lambda>n. bump_ref n (m_body x)" and ?H = "\<lambda>n. bump_ref n (m_hdrs x)"
    and ?S = "\<lambda>n. bump_ref n (m_sphdr x)"
  have "bump_msg m x (bump_msg n x h) = ?B m (?H m (?B n (?H n (?S m (?S n h)))))"
    by (simp add: bump_msg_def bump_ref_comm [of m "m_sphdr x"])
  also have "\<dots> = ?B m (?B n (?H m (?H n (?S m (?S n h)))))"
    by (simp add: bump_ref_comm [of m "m_hdrs x" n "m_body x"])
  finally show ?thesis by (simp add: bump_ref_bump bump_msg_def)
qed

text \<open>The block a reference keeps alive, and how much room its counter has.\<close>

fun ref_room :: "nat \<Rightarrow> chunk_heap \<Rightarrow> nn_chunkref \<Rightarrow> bool" where
  "ref_room k h (Vsm xs) = True"
| "ref_room k h (Ref p) = (\<exists>c xs. chunk_ok h p c xs \<and> 1 \<le> refcount c \<and> unat (refcount c) + k < 2 ^ 32)"

lemma bump_ok:
  assumes "chunk_ok h p c xs"
  shows "chunk_ok (bump n b h) p (if b = fst p then c\<lparr>refcount := refcount c + n\<rparr> else c) xs"
  using assms by (auto simp: bump_def chunk_ok_def chunk_at_def)

lemma ref_room_bump:
  assumes "ref_room (k + unat n) h r"
  shows "ref_room k (bump n b h) r"
proof (cases r)
  case (Ref p)
  then obtain c xs where c: "chunk_ok h p c xs" "1 \<le> refcount c" "unat (refcount c) + (k + unat n) < 2 ^ 32"
    using assms by auto
  then have u: "unat (refcount c + n) = unat (refcount c) + unat n"
    by (simp add: unat_plus_if')
  from bump_ok [OF c(1), of n b] show ?thesis
    using c u Ref by (cases "b = fst p") (auto simp: word_le_nat_alt intro!: exI)
qed simp

lemma ref_room_mono: "ref_room k h r \<Longrightarrow> j \<le> k \<Longrightarrow> ref_room j h r"
  by (cases r) force+

lemma ref_room_bump_ref: "ref_room (k + unat n) h r \<Longrightarrow> ref_room k (bump_ref n s h) r"
  by (cases s) (auto simp: ref_room_bump intro: ref_room_mono)

lemma bump_eq: "chunk_ok h (b, i) c xs \<Longrightarrow> bump n b h = set_block h b (Some (c\<lparr>refcount := refcount c + n\<rparr>))"
  by (simp add: bump_def chunk_ok_def)

lemma bulkcopy_start_bump: "ref_room k h r \<Longrightarrow> nn_chunkref_bulkcopy_start h r n = Some (bump_ref n r h)"
  by (cases r) (auto simp: nn_chunk_addref_ok bump_eq)

lemma cp_bump: "ref_room k h r \<Longrightarrow> nn_chunkref_cp h r = Some (r, bump_ref 1 r h)"
  by (cases r) (auto simp: nn_chunk_addref_ok bump_eq)

text \<open>Releasing a reference that is not the last one moves the counter back.\<close>

lemma term_bump:
  assumes "ref_room (unat n) h r" "n \<noteq> 0"
  shows "nn_chunkref_term (bump_ref n r h) r = Some (bump_ref (n - 1) r h)"
proof (cases r)
  case (Ref p)
  then obtain c xs where c: "chunk_ok h p c xs" "1 \<le> refcount c" "unat (refcount c) + unat n < 2 ^ 32"
    using assms by auto
  then have u: "unat (refcount c + n) = unat (refcount c) + unat n"
    by (simp add: unat_plus_if')
  have "1 < refcount c + n"
    using u c(2) assms(2) unat_gt_0 [of n] by (auto simp: word_less_nat_alt word_le_nat_alt)
  then show ?thesis
    using nn_chunk_free_shared [OF bump_ok [OF c(1), of n "fst p"]] Ref c(1)
    by (simp add: bump_def chunk_ok_block algebra_simps)
qed simp

lemma msg_term_bump:
  assumes room: "\<And>r. r \<in> {m_sphdr m, m_hdrs m, m_body m} \<Longrightarrow> ref_room (3 * unat n) h r" and n: "n \<noteq> 0"
  shows "nn_msg_term (bump_msg n m h) m = Some (bump_msg (n - 1) m h)"
proof -
  let ?B = "\<lambda>n. bump_ref n (m_body m)" and ?H = "\<lambda>n. bump_ref n (m_hdrs m)"
    and ?S = "\<lambda>n. bump_ref n (m_sphdr m)"
  have u: "unat (n - 1) \<le> unat n"
    using n unat_gt_0 [of n] by (simp add: unat_sub_if' Suc_le_eq)
  have room': "ref_room (unat n) (bump_ref x a (bump_ref y b h)) r"
    if "r \<in> {m_sphdr m, m_hdrs m, m_body m}" "unat x \<le> unat n" "unat y \<le> unat n" for x y a b r
  proof -
    have "ref_room (unat n + unat x + unat y) h r"
      by (rule ref_room_mono [OF room [OF that(1)]]) (use that in simp)
    then show ?thesis by (intro ref_room_bump_ref) simp
  qed
  have s: "nn_chunkref_term (?S n (?B n (?H n h))) (m_sphdr m) = Some (?S (n - 1) (?B n (?H n h)))"
    by (rule term_bump [OF _ n]) (simp add: room')
  have h: "nn_chunkref_term (?H n (?S (n - 1) (?B n h))) (m_hdrs m) = Some (?H (n - 1) (?S (n - 1) (?B n h)))"
    by (rule term_bump [OF _ n]) (simp add: room' u)
  have b: "nn_chunkref_term (?B n (?H (n - 1) (?S (n - 1) h))) (m_body m) = Some (?B (n - 1) (?H (n - 1) (?S (n - 1) h)))"
    by (rule term_bump [OF _ n]) (simp add: room' u)
  have "bump_msg n m h = ?S n (?B n (?H n h))"
    by (simp add: bump_msg_def bump_ref_comm [of n "m_sphdr m"])
  moreover have "?S (n - 1) (?B n (?H n h)) = ?H n (?S (n - 1) (?B n h))"
    by (simp add: bump_ref_comm [of n "m_hdrs m"])
  moreover have "?H (n - 1) (?S (n - 1) (?B n h)) = ?B n (?H (n - 1) (?S (n - 1) h))"
    by (simp add: bump_ref_comm [of n "m_body m"])
  ultimately show ?thesis
    using s h b by (simp add: nn_msg_term_def bump_msg_def)
qed

primrec msg_term_times :: "nat \<Rightarrow> chunk_heap \<Rightarrow> nn_msg \<Rightarrow> chunk_heap option" where
  "msg_term_times 0 h m = Some h"
| "msg_term_times (Suc k) h m = nn_msg_term h m \<bind> (\<lambda>h. msg_term_times k h m)"

lemma msg_term_times_bump:
  assumes "\<And>r. r \<in> {m_sphdr m, m_hdrs m, m_body m} \<Longrightarrow> ref_room (3 * unat n) h r"
  shows "msg_term_times (unat n) (bump_msg n m h) m = Some h"
  using assms
proof (induction "unat n" arbitrary: n)
  case 0
  then show ?case by (simp add: bump_msg_def unat_eq_0)
next
  case (Suc k)
  then have n: "n \<noteq> 0" by auto
  then have k: "k = unat (n - 1)" using Suc.hyps(2) by (simp add: unat_sub_if')
  have "ref_room (3 * unat (n - 1)) h r" if "r \<in> {m_sphdr m, m_hdrs m, m_body m}" for r
    by (rule ref_room_mono [OF Suc.prems [OF that]]) (use k Suc.hyps(2) in simp)
  then have "msg_term_times k (bump_msg (n - 1) m h) m = Some h"
    using Suc.hyps(1) [OF k] k by simp
  then show ?case
    using msg_term_bump [OF Suc.prems n] Suc.hyps(2) [symmetric] by simp
qed

text \<open>
  C34: copies of a message are balanced by their releases.  \<^verbatim>\<open>nn_msg_bulkcopy_start\<close> for
  \<open>n\<close> copies (which \<^verbatim>\<open>nn_dist_send\<close> issues before it hands out \<open>n\<close> copies) followed by
  \<open>n\<close> calls of \<^verbatim>\<open>nn_msg_term\<close> gives back the heap exactly as it was, provided no
  reference counter wraps; no release on the way frees or corrupts a chunk.
\<close>

theorem nn_msg_bulkcopy_balanced:
  assumes "\<forall>r \<in> {m_sphdr m, m_hdrs m, m_body m}. ref_room (3 * unat n) h r"
  shows "\<exists>h'. nn_msg_bulkcopy_start h m n = Some h' \<and> msg_term_times (unat n) h' m = Some h"
proof -
  have "ref_room (3 * unat n) h r" if "r \<in> {m_sphdr m, m_hdrs m, m_body m}" for r
    using assms that by blast
  note room = this
  have r1: "ref_room (unat n + unat n) (bump_ref n s h) r"
    if "r \<in> {m_sphdr m, m_hdrs m, m_body m}" for r s
    by (rule ref_room_bump_ref, rule ref_room_mono [OF room [OF that]]) simp
  have "nn_msg_bulkcopy_start h m n = Some (bump_msg n m h)"
    unfolding nn_msg_bulkcopy_start_def bump_msg_def
    by (simp add: bulkcopy_start_bump [OF room] bulkcopy_start_bump [OF r1]
        bulkcopy_start_bump [OF ref_room_bump_ref [OF r1]])
  then show ?thesis
    using msg_term_times_bump [OF room] by simp
qed

theorem nn_msg_bulkcopy_balanced_witness:
  "\<exists>h'. nn_msg_bulkcopy_start (one_heap 1 [1, 2, 3]) \<lparr>m_sphdr = Vsm [9], m_hdrs = Vsm [], m_body = Ref (0, 8)\<rparr> 2 =
      Some h' \<and>
    msg_term_times 2 h' \<lparr>m_sphdr = Vsm [9], m_hdrs = Vsm [], m_body = Ref (0, 8)\<rparr> = Some (one_heap 1 [1, 2, 3])"
proof -
  have "chunk_ok (one_heap 1 [1, 2, 3]) (0, 8) (one_chunk 1 [1, 2, 3]) [1, 2, 3]"
    by (rule one_heap_ok) simp
  moreover have "refcount (one_chunk 1 [1, 2, 3]) = 1" by (simp add: one_chunk_def)
  ultimately have "ref_room (3 * unat (2 :: u32)) (one_heap 1 [1, 2, 3]) (Ref (0, 8))"
    by (auto intro!: exI [of _ "one_chunk 1 [1, 2, 3]"] exI [of _ "[1, 2, 3]"])
  then have "\<forall>r \<in> {Vsm [9], Vsm [], Ref (0, 8)}. ref_room (3 * unat (2 :: u32)) (one_heap 1 [1, 2, 3]) r"
    by (simp del: ref_room.simps(2))
  moreover have "unat (2 :: u32) = 2" by simp
  ultimately show ?thesis
    using nn_msg_bulkcopy_balanced [of "\<lparr>m_sphdr = Vsm [9], m_hdrs = Vsm [], m_body = Ref (0, 8)\<rparr>" 2
        "one_heap 1 [1, 2, 3]"] by (simp only: nn_msg.select_convs)
qed

section \<open>Trimming and extracting\<close>

text \<open>
  For small and for large references alike, \<^verbatim>\<open>nn_chunkref_trim\<close> removes exactly the
  first \<open>n\<close> bytes of the data: this is how the protocols split their header off a
  message body.
\<close>

lemma nn_chunkref_trim_spec:
  assumes ok: "chunkref_ok h r xs" and n: "unat n \<le> length xs" and sz: "length xs < 2 ^ 64"
    and lim: "case r of Vsm _ \<Rightarrow> True | Ref p \<Rightarrow> snd p + unat n - 8 < 0xffffffff"
  shows "\<exists>r' h'. nn_chunkref_trim h r n = Some (r', h') \<and> chunkref_ok h' r' (drop (unat n) xs)"
proof (cases r)
  case (Vsm ys)
  then have "n \<le> of_nat (length xs)"
    using n sz by (simp add: word_le_nat_alt unat_of_nat take_bit_nat_def)
  then show ?thesis
    using ok Vsm by auto
next
  case (Ref p)
  then obtain c where c: "chunk_ok h p c xs" "1 \<le> refcount c"
    using ok by auto
  then obtain h' c' where "nn_chunk_trim h p n = Some ((fst p, snd p + unat n), h')"
    "chunk_ok h' (fst p, snd p + unat n) c' (drop (unat n) xs)" "refcount c' = refcount c"
    using nn_chunk_trim_ok [OF c(1), of n] n lim Ref by auto
  then show ?thesis using Ref c by auto
qed

end
