(* ===== verification/Nn_Pipe.thy ===== *)
theory Nn_Pipe
  imports Nn_Msg
begin

text \<open>
  \<^verbatim>\<open>core/pipe.c\<close> and the pipe part of \<^verbatim>\<open>protocol.h\<close>: the object between a transport and
  a socket type.  Pipes are named by numbers.  A world holds the \<^verbatim>\<open>nn_pipebase\<close> of every
  pipe and the state \<open>'x\<close> of the transports; the transport's virtual functions
  \<^verbatim>\<open>vfptr->send\<close> and \<^verbatim>\<open>vfptr->recv\<close> act on the world, since a transport may touch other
  pipes (the inproc transport touches the peer) and may call \<^verbatim>\<open>nn_pipebase_sent\<close> and
  \<^verbatim>\<open>nn_pipebase_received\<close> before it returns.  Events raised to the socket are collected
  in \<open>raised\<close>, oldest first.
\<close>

section \<open>Model\<close>

datatype pipe_state = PIPE_IDLE | PIPE_ACTIVE | PIPE_FAILED

datatype pipe_instate = IN_DEACTIVATED | IN_IDLE | IN_RECEIVING | IN_RECEIVED | IN_ASYNC

datatype pipe_outstate = OUT_DEACTIVATED | OUT_IDLE | OUT_SENDING | OUT_SENT | OUT_ASYNC

datatype pipe_event = NN_PIPE_IN | NN_PIPE_OUT

record nn_pipebase =
  pstate :: pipe_state
  instate :: pipe_instate
  outstate :: pipe_outstate

type_synonym pid = nat

record 'x world =
  pipes :: "pid \<Rightarrow> nn_pipebase"
  raised :: "(pid \<times> pipe_event) list"
  tstate :: 'x

text \<open>The flags \<^verbatim>\<open>nn_pipe_send\<close> and \<^verbatim>\<open>nn_pipe_recv\<close> return.\<close>

definition NN_PIPE_RELEASE :: u32 where
  "NN_PIPE_RELEASE = 1"

definition NN_PIPE_PARSED :: u32 where
  "NN_PIPE_PARSED = 2"

record 'x pipebase_vfptr =
  vsend :: "'x world \<Rightarrow> pid \<Rightarrow> sp_msg \<Rightarrow> (u32 rc \<times> 'x world) option"
  vrecv :: "'x world \<Rightarrow> pid \<Rightarrow> ((u32 \<times> sp_msg) rc \<times> 'x world) option"

definition set_pipe :: "pid \<Rightarrow> nn_pipebase \<Rightarrow> 'x world \<Rightarrow> 'x world" where
  "set_pipe p b w = w\<lparr>pipes := (pipes w)(p := b)\<rparr>"

definition set_instate :: "pid \<Rightarrow> pipe_instate \<Rightarrow> 'x world \<Rightarrow> 'x world" where
  "set_instate p s w = set_pipe p ((pipes w p)\<lparr>instate := s\<rparr>) w"

definition set_outstate :: "pid \<Rightarrow> pipe_outstate \<Rightarrow> 'x world \<Rightarrow> 'x world" where
  "set_outstate p s w = set_pipe p ((pipes w p)\<lparr>outstate := s\<rparr>) w"

definition nn_fsm_raise_pipe :: "pid \<Rightarrow> pipe_event \<Rightarrow> 'x world \<Rightarrow> 'x world" where
  "nn_fsm_raise_pipe p e w = w\<lparr>raised := raised w @ [(p, e)]\<rparr>"

definition nn_pipebase_init :: "pid \<Rightarrow> 'x world \<Rightarrow> 'x world" where
  "nn_pipebase_init p w =
     set_pipe p \<lparr>pstate = PIPE_IDLE, instate = IN_DEACTIVATED, outstate = OUT_DEACTIVATED\<rparr> w"

definition nn_pipebase_term :: "pid \<Rightarrow> 'x world \<Rightarrow> unit option" where
  "nn_pipebase_term p w = nn_assert (pstate (pipes w p) = PIPE_IDLE)"

text \<open>\<open>sock_add\<close> and \<open>sock_rm\<close> are \<^verbatim>\<open>nn_sock_add\<close> and \<^verbatim>\<open>nn_sock_rm\<close>, which hand the pipe to
  the socket type, with the state \<open>'s\<close> of the socket.\<close>

definition nn_pipebase_start ::
  "('s \<Rightarrow> pid \<Rightarrow> (unit rc \<times> 's) option) \<Rightarrow> pid \<Rightarrow> 's \<Rightarrow> 'x world \<Rightarrow> (unit rc \<times> 's \<times> 'x world) option" where
  "nn_pipebase_start sock_add p s w = do {
     nn_assert (pstate (pipes w p) = PIPE_IDLE);
     let w = set_pipe p \<lparr>pstate = PIPE_ACTIVE, instate = IN_ASYNC, outstate = OUT_IDLE\<rparr> w;
     (rc, s) \<leftarrow> sock_add s p;
     case rc of
       Inl e \<Rightarrow> Some (Inl e, s, set_pipe p ((pipes w p)\<lparr>pstate := PIPE_FAILED\<rparr>) w)
     | Inr _ \<Rightarrow> Some (Inr (), s, nn_fsm_raise_pipe p NN_PIPE_OUT w) }"

definition nn_pipebase_stop ::
  "('s \<Rightarrow> pid \<Rightarrow> 's option) \<Rightarrow> pid \<Rightarrow> 's \<Rightarrow> 'x world \<Rightarrow> ('s \<times> 'x world) option" where
  "nn_pipebase_stop sock_rm p s w = do {
     s \<leftarrow> (if pstate (pipes w p) = PIPE_ACTIVE then sock_rm s p else Some s);
     Some (s, set_pipe p ((pipes w p)\<lparr>pstate := PIPE_IDLE\<rparr>) w) }"

definition nn_pipebase_received :: "pid \<Rightarrow> 'x world \<Rightarrow> 'x world option" where
  "nn_pipebase_received p w =
     (if instate (pipes w p) = IN_RECEIVING then Some (set_instate p IN_RECEIVED w)
      else do {
        nn_assert (instate (pipes w p) = IN_ASYNC);
        Some (nn_fsm_raise_pipe p NN_PIPE_IN (set_instate p IN_IDLE w)) })"

definition nn_pipebase_sent :: "pid \<Rightarrow> 'x world \<Rightarrow> 'x world option" where
  "nn_pipebase_sent p w =
     (if outstate (pipes w p) = OUT_SENDING then Some (set_outstate p OUT_SENT w)
      else do {
        nn_assert (outstate (pipes w p) = OUT_ASYNC);
        Some (nn_fsm_raise_pipe p NN_PIPE_OUT (set_outstate p OUT_IDLE w)) })"

definition nn_pipe_send :: "'x pipebase_vfptr \<Rightarrow> 'x world \<Rightarrow> pid \<Rightarrow> sp_msg \<Rightarrow> (u32 \<times> 'x world) option" where
  "nn_pipe_send vf w p msg = do {
     nn_assert (outstate (pipes w p) = OUT_IDLE);
     (rc, w) \<leftarrow> vsend vf (set_outstate p OUT_SENDING w) p msg;
     case rc of Inl e \<Rightarrow> None
     | Inr rc \<Rightarrow>
         if outstate (pipes w p) = OUT_SENT then Some (rc, set_outstate p OUT_IDLE w)
         else do {
           nn_assert (outstate (pipes w p) = OUT_SENDING);
           Some (rc OR NN_PIPE_RELEASE, set_outstate p OUT_ASYNC w) } }"

definition nn_pipe_recv :: "'x pipebase_vfptr \<Rightarrow> 'x world \<Rightarrow> pid \<Rightarrow> (u32 \<times> sp_msg \<times> 'x world) option" where
  "nn_pipe_recv vf w p = do {
     nn_assert (instate (pipes w p) = IN_IDLE);
     (rc, w) \<leftarrow> vrecv vf (set_instate p IN_RECEIVING w) p;
     case rc of Inl e \<Rightarrow> None
     | Inr (rc, msg) \<Rightarrow>
         if instate (pipes w p) = IN_RECEIVED then Some (rc, msg, set_instate p IN_IDLE w)
         else do {
           nn_assert (instate (pipes w p) = IN_RECEIVING);
           Some (rc OR NN_PIPE_RELEASE, msg, set_instate p IN_ASYNC w) } }"

definition released :: "u32 \<Rightarrow> bool" where
  "released rc \<longleftrightarrow> rc AND NN_PIPE_RELEASE \<noteq> 0"

definition parsed :: "u32 \<Rightarrow> bool" where
  "parsed rc \<longleftrightarrow> rc AND NN_PIPE_PARSED \<noteq> 0"

section \<open>Basic facts\<close>

lemma released_iff: "released rc \<longleftrightarrow> odd rc"
  by (auto simp: released_def NN_PIPE_RELEASE_def and_one_eq odd_iff_mod_2_eq_one)

lemma released_or [simp]: "released (rc OR NN_PIPE_RELEASE)"
  by (simp add: released_iff even_or_iff NN_PIPE_RELEASE_def)

lemma released_clear [simp]: "\<not> released (rc AND NOT NN_PIPE_RELEASE)"
  by (simp add: released_iff even_and_iff NN_PIPE_RELEASE_def)

lemma pipes_set_pipe [simp]: "pipes (set_pipe p b w) = (pipes w)(p := b)"
  by (simp add: set_pipe_def)

lemma pipes_raise [simp]: "pipes (nn_fsm_raise_pipe p e w) = pipes w"
  by (simp add: nn_fsm_raise_pipe_def)

lemma set_pipe_other [simp]: "raised (set_pipe p b w) = raised w" "tstate (set_pipe p b w) = tstate w"
  by (simp_all add: set_pipe_def)

lemma set_state_sel [simp]:
  "instate (pipes (set_instate p s w) q) = (if q = p then s else instate (pipes w q))"
  "outstate (pipes (set_instate p s w) q) = outstate (pipes w q)"
  "pstate (pipes (set_instate p s w) q) = pstate (pipes w q)"
  "outstate (pipes (set_outstate p t w) q) = (if q = p then t else outstate (pipes w q))"
  "instate (pipes (set_outstate p t w) q) = instate (pipes w q)"
  "pstate (pipes (set_outstate p t w) q) = pstate (pipes w q)"
  "raised (set_instate p s w) = raised w" "tstate (set_instate p s w) = tstate w"
  "raised (set_outstate p t w) = raised w" "tstate (set_outstate p t w) = tstate w"
  by (simp_all add: set_instate_def set_outstate_def)

text \<open>Whether the socket may send to, or receive from, the pipe.\<close>

abbreviation can_send :: "'x world \<Rightarrow> pid \<Rightarrow> bool" where
  "can_send w p \<equiv> pstate (pipes w p) = PIPE_ACTIVE \<and> outstate (pipes w p) = OUT_IDLE"

abbreviation can_recv :: "'x world \<Rightarrow> pid \<Rightarrow> bool" where
  "can_recv w p \<equiv> pstate (pipes w p) = PIPE_ACTIVE \<and> instate (pipes w p) = IN_IDLE"

section \<open>What a transport promises\<close>

text \<open>
  A transport keeps an invariant \<open>winv\<close> of the world.  Asked to send on a pipe that is being
  sent on, it takes the message, reports no error and no \<open>NN_PIPE_RELEASE\<close> of its own, and
  either calls \<^verbatim>\<open>nn_pipebase_sent\<close> on that pipe before it returns or does so later; it
  touches no state that belongs to the socket on other pipes.  Likewise for receiving.
\<close>

locale transport =
  fixes vf :: "'x pipebase_vfptr" and winv :: "'x world \<Rightarrow> bool"
  assumes vsend_ok: "winv w \<Longrightarrow> can_send w p \<Longrightarrow> \<exists>rc w'. vsend vf (set_outstate p OUT_SENDING w) p m = Some (Inr rc, w') \<and>
      \<not> released rc \<and> (\<forall>q. pstate (pipes w' q) = pstate (pipes w q)) \<and> (\<forall>q. instate (pipes w' q) = instate (pipes w q)) \<and>
      (\<forall>q. q \<noteq> p \<longrightarrow> outstate (pipes w' q) = outstate (pipes w q)) \<and>
      (outstate (pipes w' p) = OUT_SENT \<and> winv (set_outstate p OUT_IDLE w') \<or>
       outstate (pipes w' p) = OUT_SENDING \<and> winv (set_outstate p OUT_ASYNC w'))"
    and vrecv_ok: "winv w \<Longrightarrow> can_recv w p \<Longrightarrow> \<exists>rc m w'. vrecv vf (set_instate p IN_RECEIVING w) p = Some (Inr (rc, m), w') \<and>
      \<not> released rc \<and> (\<forall>q. pstate (pipes w' q) = pstate (pipes w q)) \<and> (\<forall>q. outstate (pipes w' q) = outstate (pipes w q)) \<and>
      (\<forall>q. q \<noteq> p \<longrightarrow> instate (pipes w' q) = instate (pipes w q)) \<and>
      (instate (pipes w' p) = IN_RECEIVED \<and> winv (set_instate p IN_IDLE w') \<or>
       instate (pipes w' p) = IN_RECEIVING \<and> winv (set_instate p IN_ASYNC w'))"
begin

text \<open>Sending on a pipe that may be sent on never aborts, and the pipe may be sent on
  again exactly when the release flag is not set.\<close>

lemma pipe_send_ok:
  assumes "winv w" "can_send w p"
  shows "\<exists>rc w'. nn_pipe_send vf w p m = Some (rc, w') \<and> winv w' \<and>
    (\<forall>q. can_send w' q \<longleftrightarrow> can_send w q \<and> \<not> (q = p \<and> released rc)) \<and> (\<forall>q. can_recv w' q \<longleftrightarrow> can_recv w q)"
proof -
  obtain rc w' where w': "vsend vf (set_outstate p OUT_SENDING w) p m = Some (Inr rc, w')" "\<not> released rc"
    "\<forall>q. pstate (pipes w' q) = pstate (pipes w q)" "\<forall>q. instate (pipes w' q) = instate (pipes w q)"
    "\<forall>q. q \<noteq> p \<longrightarrow> outstate (pipes w' q) = outstate (pipes w q)"
    "outstate (pipes w' p) = OUT_SENT \<and> winv (set_outstate p OUT_IDLE w') \<or>
     outstate (pipes w' p) = OUT_SENDING \<and> winv (set_outstate p OUT_ASYNC w')"
    using vsend_ok [OF assms, of m] by metis
  from w'(6) show ?thesis
    using w'(1-5) assms(2) by (elim disjE) (simp_all add: nn_pipe_send_def)
qed

lemma pipe_recv_ok:
  assumes "winv w" "can_recv w p"
  shows "\<exists>rc m w'. nn_pipe_recv vf w p = Some (rc, m, w') \<and> winv w' \<and>
    (\<forall>q. can_recv w' q \<longleftrightarrow> can_recv w q \<and> \<not> (q = p \<and> released rc)) \<and> (\<forall>q. can_send w' q \<longleftrightarrow> can_send w q)"
proof -
  obtain rc m w' where w': "vrecv vf (set_instate p IN_RECEIVING w) p = Some (Inr (rc, m), w')" "\<not> released rc"
    "\<forall>q. pstate (pipes w' q) = pstate (pipes w q)" "\<forall>q. outstate (pipes w' q) = outstate (pipes w q)"
    "\<forall>q. q \<noteq> p \<longrightarrow> instate (pipes w' q) = instate (pipes w q)"
    "instate (pipes w' p) = IN_RECEIVED \<and> winv (set_instate p IN_IDLE w') \<or>
     instate (pipes w' p) = IN_RECEIVING \<and> winv (set_instate p IN_ASYNC w')"
    using vrecv_ok [OF assms] by metis
  from w'(6) show ?thesis
    using w'(1-5) assms(2) by (elim disjE) (simp_all add: nn_pipe_recv_def)
qed

end

end
