(* ===== verification/Nn_Priolist.thy ===== *)
theory Nn_Priolist
  imports Nn_Pipe
begin

text \<open>
  \<^verbatim>\<open>protocols/utils/priolist.c\<close>: the active pipes of a socket, ordered by priority, with a
  round-robin position within each priority level.  A \<^verbatim>\<open>struct nn_priolist_data\<close> is named
  by its pipe; the list of a slot is the sequence of its pipes (theory \<open>Nn_List\<close>).
\<close>

section \<open>Model\<close>

definition NN_PRIOLIST_SLOTS :: nat where
  "NN_PRIOLIST_SLOTS = 16"

record nn_priolist_data =
  dpipe :: pid
  dprio :: int

record nn_priolist_slot =
  spipes :: "pid list"
  scurrent :: "pid option"

record nn_priolist =
  pslots :: "nn_priolist_slot list"
  pcurrent :: int

definition nn_priolist_init :: nn_priolist where
  "nn_priolist_init = \<lparr>pslots = replicate NN_PRIOLIST_SLOTS \<lparr>spipes = [], scurrent = None\<rparr>, pcurrent = -1\<rparr>"

definition nn_priolist_term :: "nn_priolist \<Rightarrow> unit option" where
  "nn_priolist_term self = nn_assert (list_all (\<lambda>s. spipes s = []) (pslots self))"

definition nn_priolist_add :: "pid \<Rightarrow> int \<Rightarrow> nn_priolist_data" where
  "nn_priolist_add pipe priority = \<lparr>dpipe = pipe, dprio = priority\<rparr>"

text \<open>The slot of a priority level; an index outside the array is not a slot.\<close>

definition slot_of :: "nn_priolist \<Rightarrow> int \<Rightarrow> nn_priolist_slot option" where
  "slot_of self prio =
     (if 1 \<le> prio \<and> prio \<le> int (length (pslots self)) then Some (pslots self ! nat (prio - 1)) else None)"

definition set_slot :: "nn_priolist \<Rightarrow> int \<Rightarrow> nn_priolist_slot \<Rightarrow> nn_priolist" where
  "set_slot self prio s = self\<lparr>pslots := (pslots self)[nat (prio - 1) := s]\<rparr>"

definition list_begin :: "pid list \<Rightarrow> pid option" where
  "list_begin xs = (case xs of [] \<Rightarrow> None | x # _ \<Rightarrow> Some x)"

text \<open>The loop that looks for a non-empty slot, from slot \<open>cur\<close> on: the first argument are
  the slots from there to the end of the array.\<close>

fun skip_empty :: "nn_priolist_slot list \<Rightarrow> int \<Rightarrow> int" where
  "skip_empty [] cur = -1"
| "skip_empty (s # ss) cur = (if spipes s = [] then skip_empty ss (cur + 1) else cur)"

definition skip_from :: "nn_priolist \<Rightarrow> nn_priolist" where
  "skip_from self = self\<lparr>pcurrent := skip_empty (drop (nat (pcurrent self - 1)) (pslots self)) (pcurrent self)\<rparr>"

definition isinlist :: "nn_priolist \<Rightarrow> pid \<Rightarrow> bool" where
  "isinlist self p \<longleftrightarrow> list_ex (\<lambda>s. p \<in> set (spipes s)) (pslots self)"

definition nn_priolist_rm :: "nn_priolist \<Rightarrow> nn_priolist_data \<Rightarrow> nn_priolist option" where
  "nn_priolist_rm self data =
     (if \<not> isinlist self (dpipe data) then Some self
      else do {
        slot \<leftarrow> slot_of self (dprio data);
        nn_assert (dpipe data \<in> set (spipes slot));
        if scurrent slot \<noteq> Some (dpipe data)
        then Some (set_slot self (dprio data) (slot\<lparr>spipes := remove1 (dpipe data) (spipes slot)\<rparr>))
        else do {
          let it = succ_of (spipes slot) (dpipe data);
          let slot = slot\<lparr>spipes := remove1 (dpipe data) (spipes slot), scurrent := it\<rparr>;
          let slot = (if scurrent slot = None then slot\<lparr>scurrent := list_begin (spipes slot)\<rparr> else slot);
          let self = set_slot self (dprio data) slot;
          if pcurrent self \<noteq> dprio data then Some self
          else Some (skip_from self) } })"

definition nn_priolist_activate :: "nn_priolist \<Rightarrow> nn_priolist_data \<Rightarrow> nn_priolist option" where
  "nn_priolist_activate self data = do {
     slot \<leftarrow> slot_of self (dprio data);
     nn_assert (\<not> isinlist self (dpipe data));
     if spipes slot \<noteq> []
     then Some (set_slot self (dprio data) (slot\<lparr>spipes := spipes slot @ [dpipe data]\<rparr>))
     else do {
       let self = set_slot self (dprio data)
         (slot\<lparr>spipes := spipes slot @ [dpipe data], scurrent := Some (dpipe data)\<rparr>);
       if pcurrent self = -1 then Some (self\<lparr>pcurrent := dprio data\<rparr>)
       else if pcurrent self > dprio data then Some (self\<lparr>pcurrent := dprio data\<rparr>)
       else Some self } }"

definition nn_priolist_is_active :: "nn_priolist \<Rightarrow> bool" where
  "nn_priolist_is_active self \<longleftrightarrow> pcurrent self \<noteq> -1"

definition nn_priolist_getpipe :: "nn_priolist \<Rightarrow> pid option option" where
  "nn_priolist_getpipe self =
     (if pcurrent self = -1 then Some None
      else do {
        slot \<leftarrow> slot_of self (pcurrent self);
        p \<leftarrow> scurrent slot;
        Some (Some p) })"

definition nn_priolist_advance :: "nn_priolist \<Rightarrow> bool \<Rightarrow> nn_priolist option" where
  "nn_priolist_advance self release = do {
     nn_assert (pcurrent self > 0);
     slot \<leftarrow> slot_of self (pcurrent self);
     c \<leftarrow> scurrent slot;
     nn_assert (c \<in> set (spipes slot));
     let it = succ_of (spipes slot) c;
     let slot = (if release then slot\<lparr>spipes := remove1 c (spipes slot)\<rparr> else slot);
     let it = (if it = None then list_begin (spipes slot) else it);
     let self = set_slot self (pcurrent self) (slot\<lparr>scurrent := it\<rparr>);
     Some (skip_from self) }"

definition nn_priolist_get_priority :: "nn_priolist \<Rightarrow> int" where
  "nn_priolist_get_priority self = pcurrent self"

section \<open>Well-formed lists\<close>

definition slot_ok :: "nn_priolist_slot \<Rightarrow> bool" where
  "slot_ok s \<longleftrightarrow> distinct (spipes s) \<and>
     (case scurrent s of None \<Rightarrow> spipes s = [] | Some c \<Rightarrow> c \<in> set (spipes s))"

text \<open>\<open>pr\<close> gives the priorities the pipes were added with.\<close>

definition pl_inv :: "(pid \<Rightarrow> int) \<Rightarrow> nn_priolist \<Rightarrow> bool" where
  "pl_inv pr self \<longleftrightarrow> length (pslots self) = NN_PRIOLIST_SLOTS \<and>
     (\<forall>i < NN_PRIOLIST_SLOTS. slot_ok (pslots self ! i) \<and>
        (\<forall>p \<in> set (spipes (pslots self ! i)). pr p = int i + 1)) \<and>
     pcurrent self = skip_empty (pslots self) 1"

text \<open>The active pipes.\<close>

definition pl_active :: "nn_priolist \<Rightarrow> pid set" where
  "pl_active self = (\<Union>s \<in> set (pslots self). set (spipes s))"

lemma pl_active_iff: "p \<in> pl_active self \<longleftrightarrow> (\<exists>j < length (pslots self). p \<in> set (spipes (pslots self ! j)))"
  by (auto simp: pl_active_def in_set_conv_nth [of _ "pslots self"] Bex_def)

lemma isinlist_active: "isinlist self p \<longleftrightarrow> p \<in> pl_active self"
  by (auto simp: isinlist_def pl_active_def list_ex_iff)

lemma skip_empty_cases:
  "(skip_empty ss k = -1 \<and> (\<forall>s \<in> set ss. spipes s = [])) \<or>
   (\<exists>i < length ss. skip_empty ss k = k + int i \<and> spipes (ss ! i) \<noteq> [] \<and> (\<forall>j < i. spipes (ss ! j) = []))"
proof (induction ss arbitrary: k)
  case Nil
  then show ?case by simp
next
  case (Cons s ss)
  show ?case
  proof (cases "spipes s = []")
    case False
    then show ?thesis by (auto intro!: exI [of _ 0])
  next
    case True
    from Cons [of "k + 1"] show ?thesis
    proof (elim disjE exE conjE)
      assume "skip_empty ss (k + 1) = -1" "\<forall>s \<in> set ss. spipes s = []"
      then show ?thesis using True by simp
    next
      fix i assume "i < length ss" "skip_empty ss (k + 1) = k + 1 + int i" "spipes (ss ! i) \<noteq> []"
        "\<forall>j < i. spipes (ss ! j) = []"
      then show ?thesis
        using True by (intro disjI2 exI [of _ "Suc i"]) (auto simp: nth_Cons split: nat.splits)
    qed
  qed
qed

lemma skip_empty_eqI:
  assumes "i < length ss" "spipes (ss ! i) \<noteq> []" "\<forall>j < i. spipes (ss ! j) = []"
  shows "skip_empty ss k = k + int i"
proof -
  from skip_empty_cases [of ss k] show ?thesis
  proof (elim disjE exE conjE)
    assume "\<forall>s \<in> set ss. spipes s = []"
    then show ?thesis using assms by (auto dest: nth_mem)
  next
    fix j assume "j < length ss" "skip_empty ss k = k + int j" "spipes (ss ! j) \<noteq> []"
      "\<forall>l < j. spipes (ss ! l) = []"
    then show ?thesis using assms by (metis linorder_neqE_nat)
  qed
qed

text \<open>Skipping may start at any position before which all slots are empty.\<close>

lemma skip_empty_drop:
  assumes "\<forall>j < i. spipes (ss ! j) = []" "i \<le> length ss"
  shows "skip_empty (drop i ss) (k + int i) = skip_empty ss k"
  using assms
proof (induction i arbitrary: ss k)
  case 0
  then show ?case by simp
next
  case (Suc i)
  then obtain s ss' where ss: "ss = s # ss'" by (cases ss) auto
  have "spipes s = []" "\<forall>j < i. spipes (ss' ! j) = []"
    using Suc.prems(1) unfolding ss by force+
  then show ?case
    using Suc.IH [of ss' "k + 1"] Suc.prems(2) ss by (simp add: algebra_simps)
qed

lemma skip_empty_cong:
  "map (\<lambda>s. spipes s = []) ss = map (\<lambda>s. spipes s = []) ts \<Longrightarrow> skip_empty ss k = skip_empty ts k"
proof (induction ss arbitrary: ts k)
  case (Cons s ss)
  then show ?case by (cases ts) auto
qed simp

text \<open>What the invariant says of the current slot.\<close>

lemma pl_inv_current:
  assumes "pl_inv pr self"
  shows "pcurrent self = -1 \<and> pl_active self = {} \<or>
    (\<exists>i < NN_PRIOLIST_SLOTS. pcurrent self = int i + 1 \<and> spipes (pslots self ! i) \<noteq> [] \<and>
      (\<forall>j < i. spipes (pslots self ! j) = []))"
  using assms skip_empty_cases [of "pslots self" 1]
  by (auto simp: pl_inv_def pl_active_def)

lemma pl_inv_slot:
  assumes "pl_inv pr self" "1 \<le> k" "k \<le> int NN_PRIOLIST_SLOTS"
  shows "slot_of self k = Some (pslots self ! nat (k - 1))" "slot_ok (pslots self ! nat (k - 1))"
    "\<forall>p \<in> set (spipes (pslots self ! nat (k - 1))). pr p = k" "nat (k - 1) < length (pslots self)"
proof -
  have i: "nat (k - 1) < NN_PRIOLIST_SLOTS" "int (nat (k - 1)) + 1 = k" using assms by auto
  then show "slot_of self k = Some (pslots self ! nat (k - 1))" "slot_ok (pslots self ! nat (k - 1))"
    "nat (k - 1) < length (pslots self)"
    using assms by (auto simp: pl_inv_def slot_of_def)
  show "\<forall>p \<in> set (spipes (pslots self ! nat (k - 1))). pr p = k"
    using assms(1) i unfolding pl_inv_def by metis
qed

lemma pl_active_slot:
  assumes "pl_inv pr self" "1 \<le> k" "k \<le> int NN_PRIOLIST_SLOTS" "pr p = k"
  shows "p \<in> pl_active self \<longleftrightarrow> p \<in> set (spipes (pslots self ! nat (k - 1)))"
proof
  assume "p \<in> pl_active self"
  then obtain i where "i < length (pslots self)" "p \<in> set (spipes (pslots self ! i))"
    by (auto simp: pl_active_def in_set_conv_nth [of _ "pslots self"])
  moreover from this have "int i + 1 = k"
    using assms by (auto simp: pl_inv_def)
  ultimately show "p \<in> set (spipes (pslots self ! nat (k - 1)))"
    by auto
next
  assume "p \<in> set (spipes (pslots self ! nat (k - 1)))"
  then show "p \<in> pl_active self"
    using pl_inv_slot(4) [OF assms(1-3)] by (auto simp: pl_active_def intro: nth_mem)
qed

lemma pl_active_prio: "pl_inv pr self \<Longrightarrow> p \<in> pl_active self \<Longrightarrow> 1 \<le> pr p \<and> pr p \<le> int NN_PRIOLIST_SLOTS"
  by (auto simp: pl_active_def pl_inv_def in_set_conv_nth [of _ "pslots self"])

text \<open>Replacing the contents of one slot.\<close>

lemma pl_inv_update:
  assumes inv: "pl_inv pr self" and k: "1 \<le> k" "k \<le> int NN_PRIOLIST_SLOTS" and s: "slot_ok s"
    "\<forall>p \<in> set (spipes s). pr p = k" and cur: "c = skip_empty ((pslots self)[nat (k - 1) := s]) 1"
  shows "pl_inv pr ((set_slot self k s)\<lparr>pcurrent := c\<rparr>)"
    and "pl_active ((set_slot self k s)\<lparr>pcurrent := c\<rparr>) =
      (pl_active self - set (spipes (pslots self ! nat (k - 1)))) \<union> set (spipes s)"
proof -
  let ?i = "nat (k - 1)" and ?t = "(set_slot self k s)\<lparr>pcurrent := c\<rparr>"
  have i: "?i < length (pslots self)" "int ?i + 1 = k" "length (pslots self) = NN_PRIOLIST_SLOTS"
    using inv k by (auto simp: pl_inv_def)
  show t: "pl_inv pr ?t"
    using inv s cur i by (auto simp: pl_inv_def set_slot_def nth_list_update)
  have "p \<in> pl_active ?t \<longleftrightarrow> p \<in> (pl_active self - set (spipes (pslots self ! ?i))) \<union> set (spipes s)" for p
  proof (cases "pr p = k")
    case True
    then show ?thesis
      using pl_active_slot [OF inv k True] pl_active_slot [OF t k True] i by (simp add: set_slot_def)
  next
    case False
    have "p \<notin> set (spipes s)" "p \<notin> set (spipes (pslots self ! ?i))"
      using False s(2) pl_inv_slot(3) [OF inv k] by auto
    then show ?thesis
      using i(1) by (auto simp: pl_active_iff set_slot_def nth_list_update split: if_splits) metis
  qed
  then show "pl_active ?t = (pl_active self - set (spipes (pslots self ! ?i))) \<union> set (spipes s)"
    by blast
qed

section \<open>Operations keep the invariant\<close>

lemma pl_inv_init: "pl_inv pr nn_priolist_init" "pl_active nn_priolist_init = {}"
proof -
  have "skip_empty (replicate n \<lparr>spipes = [], scurrent = None\<rparr>) k = -1" for n k
    by (induction n arbitrary: k) auto
  then show "pl_inv pr nn_priolist_init"
    by (simp add: pl_inv_def nn_priolist_init_def slot_ok_def)
  show "pl_active nn_priolist_init = {}"
    by (auto simp: pl_active_def nn_priolist_init_def)
qed

lemma set_slot_current [simp]: "pcurrent (set_slot self k s) = pcurrent self"
  "pslots (set_slot self k s) = (pslots self)[nat (k - 1) := s]"
  by (simp_all add: set_slot_def)

lemma set_slot_keep: "(set_slot self k s)\<lparr>pcurrent := pcurrent self\<rparr> = set_slot self k s"
  by (simp add: set_slot_def)

lemmas pl_inv_update_keep = pl_inv_update [where c = "pcurrent self" and self = self for self, unfolded set_slot_keep]

lemma pl_skip_same:
  assumes "pl_inv pr self" "spipes s = [] \<longleftrightarrow> spipes (pslots self ! i) = []"
  shows "pcurrent self = skip_empty ((pslots self)[i := s]) 1"
proof -
  have "map (\<lambda>s. spipes s = []) ((pslots self)[i := s]) = map (\<lambda>s. spipes s = []) (pslots self)"
    using assms(2)
    by (cases "i < length (pslots self)") (simp_all add: map_update list_update_same_conv list_update_beyond)
  then show ?thesis
    using assms(1) skip_empty_cong unfolding pl_inv_def by metis
qed

lemma pl_skip_from:
  assumes "i < length (pslots self)" "pcurrent self = int i + 1" "\<forall>j < i. spipes (pslots self ! j) = []"
  shows "skip_from (set_slot self (int i + 1) s) =
    (set_slot self (int i + 1) s)\<lparr>pcurrent := skip_empty ((pslots self)[i := s]) 1\<rparr>"
  using skip_empty_drop [of i "(pslots self)[i := s]" 1] assms
  by (simp add: skip_from_def add.commute)

lemma slot_ok_append: "slot_ok s \<Longrightarrow> spipes s \<noteq> [] \<Longrightarrow> p \<notin> set (spipes s) \<Longrightarrow> slot_ok (s\<lparr>spipes := spipes s @ [p]\<rparr>)"
  by (auto simp: slot_ok_def split: option.splits)

text \<open>A slot that was empty becomes non-empty.\<close>

lemma pl_skip_new:
  assumes inv: "pl_inv pr self" and k: "1 \<le> k" "k \<le> int NN_PRIOLIST_SLOTS"
    and e: "spipes (pslots self ! nat (k - 1)) = []" and s: "spipes s \<noteq> []"
  shows "skip_empty ((pslots self)[nat (k - 1) := s]) 1 =
    (if pcurrent self = -1 \<or> pcurrent self > k then k else pcurrent self)"
proof -
  define i where "i = nat (k - 1)"
  have i: "int i + 1 = k" "i < length (pslots self)" "length (pslots self) = NN_PRIOLIST_SLOTS"
    using inv k by (auto simp: i_def pl_inv_def)
  have new: "skip_empty ((pslots self)[i := s]) 1 = 1 + int j"
    if "j < length (pslots self)" "j = i \<or> spipes (pslots self ! j) \<noteq> []"
      "\<forall>l < j. l \<noteq> i \<and> spipes (pslots self ! l) = []" for j
    by (rule skip_empty_eqI) (use that s i in \<open>auto simp: nth_list_update\<close>)
  from pl_inv_current [OF inv] consider "pcurrent self = -1" "pl_active self = {}"
    | j where "j < NN_PRIOLIST_SLOTS" "pcurrent self = int j + 1" "spipes (pslots self ! j) \<noteq> []"
      "\<forall>l < j. spipes (pslots self ! l) = []" by blast
  then have "skip_empty ((pslots self)[i := s]) 1 =
    (if pcurrent self = -1 \<or> pcurrent self > k then k else pcurrent self)"
  proof cases
    case 1
    then have "p \<notin> set (spipes (pslots self ! l))" if "l < i" for l p
      using i(2) that pl_active_iff [of p self] by auto
    then have "\<forall>l < i. spipes (pslots self ! l) = []"
      by (metis list.set_sel(1))
    then show ?thesis using new [of i] i 1 by simp
  next
    case (2 j)
    have "i \<noteq> j" using e 2(3) by (auto simp: i_def)
    then show ?thesis
      using new [of i] new [of j] i 2 by (cases "i < j") auto
  qed
  then show ?thesis by (simp add: i_def)
qed

lemma nn_priolist_activate_ok:
  assumes inv: "pl_inv pr self" and k: "1 \<le> k" "k \<le> int NN_PRIOLIST_SLOTS" and prk: "pr p = k" and p: "p \<notin> pl_active self"
  shows "\<exists>self'. nn_priolist_activate self \<lparr>dpipe = p, dprio = k\<rparr> = Some self' \<and> pl_inv pr self' \<and>
    pl_active self' = insert p (pl_active self)"
proof -
  let ?i = "nat (k - 1)"
  let ?slot = "pslots self ! ?i"
  note sl = pl_inv_slot [OF inv k]
  have np: "p \<notin> set (spipes ?slot)" "\<not> isinlist self p"
    using p pl_active_slot [OF inv k prk] by (simp_all add: isinlist_active)
  have sub: "set (spipes ?slot) \<subseteq> pl_active self"
    using sl(4) pl_active_iff by blast
  show ?thesis
  proof (cases "spipes ?slot = []")
    case False
    let ?s = "?slot\<lparr>spipes := spipes ?slot @ [p]\<rparr>"
    have c: "pcurrent self = skip_empty ((pslots self)[?i := ?s]) 1"
      by (rule pl_skip_same [OF inv]) (simp add: False)
    have "slot_ok ?s" "\<forall>q \<in> set (spipes ?s). pr q = k"
      using slot_ok_append [OF sl(2) False np(1)] sl(3) prk by simp_all
    note up = pl_inv_update_keep [OF inv k this c]
    have "nn_priolist_activate self \<lparr>dpipe = p, dprio = k\<rparr> = Some (set_slot self k ?s)"
      using False sl(1) np(2) by (simp add: nn_priolist_activate_def)
    moreover have "pl_active (set_slot self k ?s) = insert p (pl_active self)"
      unfolding up(2) using sub by auto
    ultimately show ?thesis using up(1) by blast
  next
    case True
    let ?s = "?slot\<lparr>spipes := spipes ?slot @ [p], scurrent := Some p\<rparr>"
    let ?c = "if pcurrent self = -1 \<or> pcurrent self > k then k else pcurrent self"
    have new: "skip_empty ((pslots self)[?i := ?s]) 1 = ?c"
      using pl_skip_new [OF inv k True, of ?s] by simp
    have "slot_ok ?s" "\<forall>q \<in> set (spipes ?s). pr q = k"
      using True prk by (simp_all add: slot_ok_def)
    note up = pl_inv_update [OF inv k this new [symmetric]]
    have "nn_priolist_activate self \<lparr>dpipe = p, dprio = k\<rparr> =
        Some ((set_slot self k ?s)\<lparr>pcurrent := ?c\<rparr>)"
      using True sl(1) np(2) by (simp add: nn_priolist_activate_def set_slot_def Let_def)
    moreover have "pl_active ((set_slot self k ?s)\<lparr>pcurrent := ?c\<rparr>) = insert p (pl_active self)"
      unfolding up(2) using True by simp
    ultimately show ?thesis using up(1) by blast
  qed
qed

text \<open>The slot after its pipe \<open>p\<close> is erased, with the current position moved on from \<open>p\<close>.\<close>

definition slot_erase :: "pid \<Rightarrow> nn_priolist_slot \<Rightarrow> nn_priolist_slot" where
  "slot_erase p slot = slot\<lparr>spipes := remove1 p (spipes slot),
     scurrent := (if scurrent slot \<noteq> Some p then scurrent slot
       else case succ_of (spipes slot) p of None \<Rightarrow> list_begin (remove1 p (spipes slot)) | Some q \<Rightarrow> Some q)\<rparr>"

lemma succ_of_remove1:
  assumes "distinct xs" "succ_of xs p = Some q"
  shows "q \<in> set (remove1 p xs)"
proof -
  obtain as bs where xs: "xs = as @ p # bs" "p \<notin> set as"
    using assms(2) succ_of_notin split_list_first [of p xs] by fastforce
  then show ?thesis
    using assms(2) by (auto simp: succ_of_split remove1_split split: list.splits)
qed

lemma list_begin_mem: "list_begin xs = Some x \<Longrightarrow> x \<in> set xs" "list_begin xs = None \<longleftrightarrow> xs = []"
  by (auto simp: list_begin_def split: list.splits)

lemma slot_erase_ok:
  assumes "slot_ok slot" "p \<in> set (spipes slot)"
  shows "slot_ok (slot_erase p slot)"
proof -
  obtain c where c: "scurrent slot = Some c" "c \<in> set (spipes slot)" "distinct (spipes slot)"
    using assms by (auto simp: slot_ok_def split: option.splits)
  have "c \<in> set (remove1 p (spipes slot))" if "c \<noteq> p"
    using c(2) that by simp
  then show ?thesis
    using c succ_of_remove1 [OF c(3), of p] list_begin_mem
    by (cases "c = p") (auto simp: slot_ok_def slot_erase_def split: option.split simp del: set_remove1_eq)
qed

lemma nn_priolist_rm_ok:
  assumes inv: "pl_inv pr self" and prk: "pr p = k"
  shows "\<exists>self'. nn_priolist_rm self \<lparr>dpipe = p, dprio = k\<rparr> = Some self' \<and> pl_inv pr self' \<and>
    pl_active self' = pl_active self - {p}"
proof (cases "p \<in> pl_active self")
  case False
  then show ?thesis
    using inv by (simp add: nn_priolist_rm_def isinlist_active)
next
  case True
  have k: "1 \<le> k" "k \<le> int NN_PRIOLIST_SLOTS"
    using pl_active_prio [OF inv True] prk by auto
  define i where "i = nat (k - 1)"
  note sl = pl_inv_slot [OF inv k, folded i_def]
  let ?slot = "pslots self ! i"
  let ?s = "slot_erase p ?slot"
  have i: "int i + 1 = k" using k by (simp add: i_def)
  have p: "p \<in> set (spipes ?slot)"
    using True pl_active_slot [OF inv k prk] by (simp add: i_def)
  have s: "slot_ok ?s" "\<forall>q \<in> set (spipes ?s). pr q = k"
    using slot_erase_ok [OF sl(2) p] sl(3) by (auto simp: slot_erase_def dest: notin_set_remove1)
  have act: "pl_active self - set (spipes ?slot) \<union> set (spipes ?s) = pl_active self - {p}"
    using sl(2,4) p pl_active_iff [of _ self] by (auto simp: slot_erase_def slot_ok_def set_remove1_eq)
  note up = pl_inv_update [OF inv k s, folded i_def, unfolded act]
  have cur: "pcurrent self = skip_empty ((pslots self)[i := ?s]) 1" if "scurrent ?slot \<noteq> Some p \<or> pcurrent self \<noteq> k"
    using that
  proof
    assume "scurrent ?slot \<noteq> Some p"
    then have "spipes ?s \<noteq> []"
      using sl(2) p by (auto simp: slot_ok_def slot_erase_def set_remove1_eq split: option.splits
          dest!: arg_cong [of "remove1 p (spipes ?slot)" _ set])
    then show ?thesis by (intro pl_skip_same [OF inv]) (use p in auto)
  next
    assume ne: "pcurrent self \<noteq> k"
    from pl_inv_current [OF inv] True obtain j where j: "j < NN_PRIOLIST_SLOTS" "pcurrent self = int j + 1"
      "spipes (pslots self ! j) \<noteq> []" "\<forall>l < j. spipes (pslots self ! l) = []" by blast
    then have "j \<noteq> i" "j < length (pslots self)" using ne i inv by (auto simp: pl_inv_def)
    moreover have "\<not> i < j" using j(4) p by auto
    ultimately have "skip_empty ((pslots self)[i := ?s]) 1 = 1 + int j"
      by (intro skip_empty_eqI) (use j in auto)
    then show ?thesis using j by simp
  qed
  have e: "slot_of self k = Some ?slot" "isinlist self p" by (rule sl) (simp add: isinlist_active True)
  show ?thesis
  proof (cases "scurrent ?slot \<noteq> Some p \<or> pcurrent self \<noteq> k")
    case True
    have "nn_priolist_rm self \<lparr>dpipe = p, dprio = k\<rparr> = Some (set_slot self k ?s)"
      using True e p by (auto simp: nn_priolist_rm_def slot_erase_def Let_def split: option.splits)
    then show ?thesis
      using up [OF cur [OF True], unfolded set_slot_keep] by simp
  next
    case False
    have "nn_priolist_rm self \<lparr>dpipe = p, dprio = k\<rparr> = Some (skip_from (set_slot self k ?s))"
      using False e p by (auto simp: nn_priolist_rm_def slot_erase_def Let_def split: option.splits)
    moreover have "\<forall>j < i. spipes (pslots self ! j) = []"
      using pl_inv_current [OF inv] False i by auto
    then have "skip_from (set_slot self k ?s) = (set_slot self k ?s)\<lparr>pcurrent := skip_empty ((pslots self)[i := ?s]) 1\<rparr>"
      using pl_skip_from [of i self ?s] sl(4) False by (simp add: i)
    ultimately show ?thesis
      using up [OF refl] by simp
  qed
qed

text \<open>The slot with its current position moved to the next pipe.\<close>

definition slot_next :: "pid \<Rightarrow> nn_priolist_slot \<Rightarrow> nn_priolist_slot" where
  "slot_next c slot = slot\<lparr>scurrent :=
     (case succ_of (spipes slot) c of None \<Rightarrow> list_begin (spipes slot) | Some q \<Rightarrow> Some q)\<rparr>"

lemma slot_next_ok: "slot_ok slot \<Longrightarrow> c \<in> set (spipes slot) \<Longrightarrow> slot_ok (slot_next c slot)"
  using list_begin_mem [of "spipes slot"] succ_of_in_set [of "spipes slot" c]
  by (auto simp: slot_ok_def slot_next_def split: option.splits)

text \<open>The current pipe of a list that is not empty.\<close>

lemma pl_current_pipe:
  assumes inv: "pl_inv pr self" and act: "pcurrent self \<noteq> -1"
  obtains i c where "i < NN_PRIOLIST_SLOTS" "pcurrent self = int i + 1" "\<forall>j < i. spipes (pslots self ! j) = []"
    "slot_of self (int i + 1) = Some (pslots self ! i)" "slot_ok (pslots self ! i)"
    "scurrent (pslots self ! i) = Some c" "c \<in> set (spipes (pslots self ! i))" "pr c = int i + 1"
    "nn_priolist_getpipe self = Some (Some c)"
proof -
  obtain i where i: "i < NN_PRIOLIST_SLOTS" "pcurrent self = int i + 1" "spipes (pslots self ! i) \<noteq> []"
    "\<forall>j < i. spipes (pslots self ! j) = []"
    using pl_inv_current [OF inv] act by blast
  then have k: "1 \<le> int i + 1" "int i + 1 \<le> int NN_PRIOLIST_SLOTS" by auto
  note sl = pl_inv_slot [OF inv k, simplified]
  obtain c where c: "scurrent (pslots self ! i) = Some c" "c \<in> set (spipes (pslots self ! i))"
    using sl(2) i(3) by (auto simp: slot_ok_def split: option.splits)
  show thesis
    by (rule that [of i c]) (use i sl c act in \<open>auto simp: nn_priolist_getpipe_def add.commute\<close>)
qed

lemma nn_priolist_advance_ok:
  assumes inv: "pl_inv pr self" and act: "pcurrent self \<noteq> -1"
  shows "\<exists>c self'. nn_priolist_getpipe self = Some (Some c) \<and> c \<in> pl_active self \<and>
    nn_priolist_advance self rel = Some self' \<and> pl_inv pr self' \<and>
    pl_active self' = (if rel then pl_active self - {c} else pl_active self)"
proof -
  obtain i c where i: "i < NN_PRIOLIST_SLOTS" "pcurrent self = int i + 1" "\<forall>j < i. spipes (pslots self ! j) = []"
    and slot: "slot_of self (int i + 1) = Some (pslots self ! i)" "slot_ok (pslots self ! i)"
    and c: "scurrent (pslots self ! i) = Some c" "c \<in> set (spipes (pslots self ! i))" "pr c = int i + 1"
    and get: "nn_priolist_getpipe self = Some (Some c)"
    using pl_current_pipe [OF assms] .
  have k: "1 \<le> int i + 1" "int i + 1 \<le> int NN_PRIOLIST_SLOTS" using i by auto
  note sl = pl_inv_slot [OF inv k, simplified]
  let ?slot = "pslots self ! i"
  define s where "s = (if rel then slot_erase c ?slot else slot_next c ?slot)"
  have ok: "slot_ok s" "\<forall>q \<in> set (spipes s). pr q = int i + 1"
    using slot_erase_ok [OF slot(2) c(2)] slot_next_ok [OF slot(2) c(2)] sl(3)
    by (auto simp: s_def slot_erase_def slot_next_def dest: notin_set_remove1)
  have "nn_priolist_advance self rel = Some (skip_from (set_slot self (int i + 1) s))"
    using i(2) slot c by (auto simp: nn_priolist_advance_def s_def slot_erase_def slot_next_def Let_def
        split: option.splits)
  then have adv: "nn_priolist_advance self rel =
      Some ((set_slot self (int i + 1) s)\<lparr>pcurrent := skip_empty ((pslots self)[i := s]) 1\<rparr>)"
    using pl_skip_from [of i self s] i sl(4) by simp
  have sub: "set (spipes ?slot) \<subseteq> pl_active self"
    using sl(4) pl_active_iff by blast
  then have "pl_active self - set (spipes ?slot) \<union> set (spipes s) = (if rel then pl_active self - {c} else pl_active self)"
    using slot(2) c(2) by (auto simp: s_def slot_erase_def slot_next_def slot_ok_def set_remove1_eq)
  then show ?thesis
    using pl_inv_update [OF inv k ok refl] adv get c(2) sub by auto
qed

section \<open>Properties\<close>

lemma getpipe_best:
  assumes "pl_inv pr self"
  shows "if pl_active self = {} then nn_priolist_getpipe self = Some None
    else \<exists>c. nn_priolist_getpipe self = Some (Some c) \<and> c \<in> pl_active self \<and> (\<forall>q \<in> pl_active self. pr c \<le> pr q)"
proof (cases "pcurrent self = -1")
  case True
  then have "pl_active self = {}"
    using pl_inv_current [OF assms] by auto
  then show ?thesis using True by (simp add: nn_priolist_getpipe_def)
next
  case False
  obtain i c where i: "i < NN_PRIOLIST_SLOTS" "\<forall>j < i. spipes (pslots self ! j) = []"
    and c: "c \<in> set (spipes (pslots self ! i))" "pr c = int i + 1" "nn_priolist_getpipe self = Some (Some c)"
    using pl_current_pipe [OF assms False] .
  have len: "length (pslots self) = NN_PRIOLIST_SLOTS" using assms by (simp add: pl_inv_def)
  have "c \<in> pl_active self" using i(1) c(1) len by (auto simp: pl_active_iff)
  moreover have "pr c \<le> pr q" if q: "q \<in> pl_active self" for q
  proof -
    obtain j where j: "j < NN_PRIOLIST_SLOTS" "q \<in> set (spipes (pslots self ! j))"
      using q len by (auto simp: pl_active_iff)
    then have "\<not> j < i" using i(2) by auto
    moreover have "pr q = int j + 1" using j assms by (auto simp: pl_inv_def)
    ultimately show ?thesis using c(2) by simp
  qed
  ultimately show ?thesis using c(3) by auto
qed

text \<open>
  The priority list always offers a pipe of the best priority level.  Under the
  invariant that all operations keep, \<^verbatim>\<open>nn_priolist_getpipe\<close> answers \<^verbatim>\<open>NULL\<close> exactly when no
  pipe is active, and otherwise an active pipe such that no active pipe has a smaller
  priority number.
\<close>

lemma nn_priolist_getpipe_best:
  assumes "pl_inv pr self"
  shows "if pl_active self = {} then nn_priolist_getpipe self = Some None
    else \<exists>c. nn_priolist_getpipe self = Some (Some c) \<and> c \<in> pl_active self \<and> (\<forall>q \<in> pl_active self. pr c \<le> pr q)"
  by (rule getpipe_best [OF assms])

text \<open>The pipes offered in \<open>n\<close> turns, each followed by a move to the next pipe.\<close>

primrec turns :: "nat \<Rightarrow> nn_priolist \<Rightarrow> pid list option" where
  "turns 0 self = Some []"
| "turns (Suc n) self = do {
     p \<leftarrow> nn_priolist_getpipe self;
     p \<leftarrow> p;
     self \<leftarrow> nn_priolist_advance self False;
     ps \<leftarrow> turns n self;
     Some (p # ps) }"

lemma succ_of_nth: "distinct xs \<Longrightarrow> j < length xs \<Longrightarrow>
    succ_of xs (xs ! j) = (if Suc j < length xs then Some (xs ! Suc j) else None)"
proof (induction xs "xs ! j" arbitrary: j rule: succ_of.induct)
  case (3 y z ys)
  show ?case
  proof (cases j)
    case (Suc j')
    then have "(y # z # ys) ! j \<noteq> y" using 3 by (auto simp: nth_Cons split: nat.splits)
    then show ?thesis using 3 Suc by auto
  qed simp
qed auto

lemma mod_Suc_less: "j < n \<Longrightarrow> (if Suc j < n then Suc j else 0) = Suc j mod n"
  by (auto simp: mod_if)

text \<open>One turn: the position within the current slot moves round, nothing else changes.\<close>

lemma advance_turn:
  assumes inv: "pl_inv pr self" and i: "pcurrent self = int i + 1" "i < NN_PRIOLIST_SLOTS"
    and xs: "spipes (pslots self ! i) = xs" "j < length xs" "scurrent (pslots self ! i) = Some (xs ! j)"
  shows "nn_priolist_getpipe self = Some (Some (xs ! j))"
    "\<exists>self'. nn_priolist_advance self False = Some self' \<and> pl_inv pr self' \<and> pcurrent self' = int i + 1 \<and>
      spipes (pslots self' ! i) = xs \<and> scurrent (pslots self' ! i) = Some (xs ! (Suc j mod length xs))"
proof -
  have act: "pcurrent self \<noteq> -1" using i by simp
  have k: "1 \<le> int i + 1" "int i + 1 \<le> int NN_PRIOLIST_SLOTS" using i by auto
  note sl = pl_inv_slot [OF inv k, simplified]
  have first: "\<forall>j < i. spipes (pslots self ! j) = []"
    using pl_inv_current [OF inv] i by auto
  have d: "distinct xs" using sl(2) xs(1) by (simp add: slot_ok_def)
  show "nn_priolist_getpipe self = Some (Some (xs ! j))"
    using i sl(1) xs(3) by (simp add: nn_priolist_getpipe_def add.commute)
  let ?s = "(pslots self ! i)\<lparr>scurrent := Some (xs ! (Suc j mod length xs))\<rparr>"
  have next_pipe: "(case succ_of xs (xs ! j) of None \<Rightarrow> list_begin xs | Some q \<Rightarrow> Some q) =
      Some (xs ! (Suc j mod length xs))"
    using succ_of_nth [OF d xs(2)] mod_Suc_less [OF xs(2)] xs(2)
    by (cases xs) (auto simp: list_begin_def split: if_splits)
  have "nn_priolist_advance self False = Some (skip_from (set_slot self (int i + 1) ?s))"
    using i sl(1) xs next_pipe by (auto simp: nn_priolist_advance_def add.commute Let_def split: option.splits)
  moreover have "skip_from (set_slot self (int i + 1) ?s) = set_slot self (int i + 1) ?s"
    using pl_skip_from [of i self ?s] pl_skip_same [OF inv, of ?s i] i(1) first sl(4)
    by (simp add: set_slot_keep)
  ultimately have adv: "nn_priolist_advance self False = Some (set_slot self (int i + 1) ?s)" by simp
  obtain self' where "nn_priolist_advance self False = Some self'" "pl_inv pr self'"
    using nn_priolist_advance_ok [OF inv act, of False] by auto
  then show "\<exists>self'. nn_priolist_advance self False = Some self' \<and> pl_inv pr self' \<and> pcurrent self' = int i + 1 \<and>
      spipes (pslots self' ! i) = xs \<and> scurrent (pslots self' ! i) = Some (xs ! (Suc j mod length xs))"
    using adv sl(4) i xs(1) by auto
qed

lemma turns_nth:
  assumes "pl_inv pr self" "pcurrent self = int i + 1" "i < NN_PRIOLIST_SLOTS"
    "spipes (pslots self ! i) = xs" "j < length xs" "scurrent (pslots self ! i) = Some (xs ! j)"
  shows "turns n self = Some (map (\<lambda>m. xs ! ((j + m) mod length xs)) [0..<n])"
  using assms
proof (induction n arbitrary: self j)
  case 0
  then show ?case by simp
next
  case (Suc n)
  note t = advance_turn [OF Suc.prems]
  then obtain self' where self': "nn_priolist_advance self False = Some self'" "pl_inv pr self'"
    "pcurrent self' = int i + 1" "spipes (pslots self' ! i) = xs"
    "scurrent (pslots self' ! i) = Some (xs ! (Suc j mod length xs))" by blast
  have "turns n self' = Some (map (\<lambda>m. xs ! ((Suc j mod length xs + m) mod length xs)) [0..<n])"
    by (rule Suc.IH [OF self'(2-3) Suc.prems(3) self'(4) mod_less_divisor self'(5)])
      (use Suc.prems(5) in linarith)
  also have "map (\<lambda>m. xs ! ((Suc j mod length xs + m) mod length xs)) [0..<n] =
      map (\<lambda>m. xs ! ((j + m) mod length xs)) [Suc 0..<Suc n]"
    by (simp add: map_Suc_upt [symmetric] mod_add_left_eq del: upt_Suc)
  finally show ?case
    using t(1) self'(1) Suc.prems(5) by (simp add: upt_conv_Cons del: upt_Suc)
qed

text \<open>
  Round robin within a priority level.  As long as no pipe is released, as many
  consecutive turns as the best level has pipes offer each pipe of that level exactly once,
  and the following turn offers the first of them again.
\<close>

lemma nn_priolist_round_robin:
  assumes "pl_inv pr self" "pcurrent self = int i + 1" "i < NN_PRIOLIST_SLOTS"
  shows "\<exists>ps. turns (length (spipes (pslots self ! i))) self = Some ps \<and> distinct ps \<and>
    set ps = set (spipes (pslots self ! i)) \<and>
    turns (length (spipes (pslots self ! i)) + 1) self = Some (ps @ [hd ps])"
proof -
  let ?xs = "spipes (pslots self ! i)"
  have act: "pcurrent self \<noteq> -1" using assms by simp
  obtain i' c where c: "pcurrent self = int i' + 1" "slot_ok (pslots self ! i')"
    "scurrent (pslots self ! i') = Some c" "c \<in> set (spipes (pslots self ! i'))"
    using pl_current_pipe [OF assms(1) act] .
  then have "i' = i" using assms(2) by simp
  then obtain j where j: "j < length ?xs" "scurrent (pslots self ! i) = Some (?xs ! j)"
    using c by (auto simp: in_set_conv_nth)
  note t = turns_nth [OF assms refl j]
  define ps where "ps = map (\<lambda>m. ?xs ! ((j + m) mod length ?xs)) [0..<length ?xs]"
  have ps: "ps = rotate j ?xs"
    by (rule nth_equalityI) (use j in \<open>auto simp: ps_def nth_rotate add.commute\<close>)
  have "turns (length ?xs + 1) self = Some (ps @ [hd ps])"
  proof -
    have "hd ps = ?xs ! j"
      using j by (simp add: ps hd_rotate_conv_nth flip: length_greater_0_conv)
    then show ?thesis
      using t [of "length ?xs + 1"] j by (simp add: ps_def del: turns.simps)
  qed
  moreover have "distinct ps" "set ps = set ?xs"
    using c(2) \<open>i' = i\<close> by (simp_all add: ps slot_ok_def)
  ultimately show ?thesis using t [of "length ?xs"] by (auto simp: ps_def)
qed

end
