(* ===== verification/Nn_Msgqueue.thy ===== *)
theory Nn_Msgqueue
  imports Nn_Fifo Nn_Msg
begin

text \<open>
  \<^verbatim>\<open>transports/inproc/msgqueue.c\<close>: the bounded message queue of the inproc transport, a
  singly linked list of chunks of 126 message slots with one spare chunk in a cache.  The
  chunks live in a store; a slot that was never written, or whose message was moved out, is
  \<open>None\<close>, and reading it is an access to an uninitialised message.
\<close>

section \<open>Model\<close>

definition NN_MSGQUEUE_GRANULARITY :: nat where
  "NN_MSGQUEUE_GRANULARITY = 126"

record nn_msgqueue_chunk =
  msgs :: "sp_msg option list"
  mnext :: "nat option"

record nn_msgqueue =
  mq_store :: "nat \<Rightarrow> nn_msgqueue_chunk option"
  mq_fresh :: nat
  out_chunk :: nat
  out_pos :: nat
  in_chunk :: "nat option"
  in_pos :: nat
  count :: u64
  mem :: u64
  maxmem :: u64
  cache :: "nat option"

definition mq_set :: "nn_msgqueue \<Rightarrow> nat \<Rightarrow> nn_msgqueue_chunk option \<Rightarrow> nn_msgqueue" where
  "mq_set q c x = q\<lparr>mq_store := (mq_store q)(c := x)\<rparr>"

definition new_chunk :: nn_msgqueue_chunk where
  "new_chunk = \<lparr>msgs = replicate NN_MSGQUEUE_GRANULARITY None, mnext = None\<rparr>"

definition nn_msgqueue_init :: "u64 \<Rightarrow> nn_msgqueue" where
  "nn_msgqueue_init mx = \<lparr>mq_store = [0 \<mapsto> new_chunk], mq_fresh = 1, out_chunk = 0, out_pos = 0,
     in_chunk = Some 0, in_pos = 0, count = 0, mem = 0, maxmem = mx, cache = None\<rparr>"

definition nn_msgqueue_empty :: "nn_msgqueue \<Rightarrow> bool" where
  "nn_msgqueue_empty self \<longleftrightarrow> count self = 0"

text \<open>\<^verbatim>\<open>nn_chunkref_size (&msg->sphdr) + nn_chunkref_size (&msg->body)\<close>\<close>

definition msgsz :: "sp_msg \<Rightarrow> u64" where
  "msgsz m = of_nat (length (sphdr m)) + of_nat (length (body m))"

definition nn_msgqueue_send :: "nn_msgqueue \<Rightarrow> sp_msg \<Rightarrow> (unit rc \<times> nn_msgqueue) option" where
  "nn_msgqueue_send self msg =
     (if count self > 0 \<and> mem self + msgsz msg \<ge> maxmem self then Some (Inl EAGAIN, self)
      else do {
        let self = self\<lparr>count := count self + 1, mem := mem self + msgsz msg\<rparr>;
        ch \<leftarrow> mq_store self (out_chunk self);
        nn_assert (out_pos self < length (msgs ch));
        let self = mq_set self (out_chunk self) (Some (ch\<lparr>msgs := (msgs ch)[out_pos self := Some msg]\<rparr>));
        let self = self\<lparr>out_pos := out_pos self + 1\<rparr>;
        if out_pos self = NN_MSGQUEUE_GRANULARITY then do {
          let self = (case cache self of Some _ \<Rightarrow> self
            | None \<Rightarrow> (mq_set self (mq_fresh self) (Some new_chunk))
                \<lparr>cache := Some (mq_fresh self), mq_fresh := mq_fresh self + 1\<rparr>);
          ch \<leftarrow> mq_store self (out_chunk self);
          let self = mq_set self (out_chunk self) (Some (ch\<lparr>mnext := cache self\<rparr>));
          c \<leftarrow> cache self;
          Some (Inr (), self\<lparr>out_chunk := c, cache := None, out_pos := 0\<rparr>) }
        else Some (Inr (), self) })"

definition nn_msgqueue_recv :: "nn_msgqueue \<Rightarrow> (sp_msg rc \<times> nn_msgqueue) option" where
  "nn_msgqueue_recv self =
     (if count self = 0 then Some (Inl EAGAIN, self)
      else do {
        ic \<leftarrow> in_chunk self;
        ch \<leftarrow> mq_store self ic;
        nn_assert (in_pos self < length (msgs ch));
        msg \<leftarrow> msgs ch ! in_pos self;
        let self = mq_set self ic (Some (ch\<lparr>msgs := (msgs ch)[in_pos self := None]\<rparr>));
        let self = self\<lparr>in_pos := in_pos self + 1\<rparr>;
        let self = (if in_pos self = NN_MSGQUEUE_GRANULARITY
          then (let self = self\<lparr>in_chunk := mnext ch, in_pos := 0\<rparr>
                in case cache self of None \<Rightarrow> self\<lparr>cache := Some ic\<rparr> | Some _ \<Rightarrow> mq_set self ic None)
          else self);
        Some (Inr msg, self\<lparr>count := count self - 1, mem := mem self - msgsz msg\<rparr>) })"

text \<open>The loop of \<^verbatim>\<open>nn_msgqueue_term\<close>: it counts the messages it terminates.\<close>

partial_function (option) msgqueue_drain :: "nn_msgqueue \<Rightarrow> sp_msg list \<Rightarrow> (sp_msg list \<times> nn_msgqueue) option" where
  "msgqueue_drain self acc = do {
     (rc, self) \<leftarrow> nn_msgqueue_recv self;
     case rc of Inl e \<Rightarrow> (if e = EAGAIN then Some (acc, self) else None)
     | Inr msg \<Rightarrow> msgqueue_drain self (acc @ [msg]) }"

text \<open>The terminated messages and the store after the chunks are freed.\<close>

definition nn_msgqueue_term :: "nn_msgqueue \<Rightarrow> (sp_msg list \<times> (nat \<Rightarrow> nn_msgqueue_chunk option)) option" where
  "nn_msgqueue_term self = do {
     (ms, self) \<leftarrow> msgqueue_drain self [];
     nn_assert (in_chunk self = Some (out_chunk self));
     let self = mq_set self (out_chunk self) None;
     Some (ms, case cache self of None \<Rightarrow> mq_store self | Some c \<Rightarrow> (mq_store self)(c := None)) }"

section \<open>Representation\<close>

lemma mq_store_set [simp]: "mq_store (mq_set q c x) = (mq_store q)(c := x)"
  by (simp add: mq_set_def)

lemma mq_set_fields [simp]:
  "mq_fresh (mq_set q c x) = mq_fresh q" "out_chunk (mq_set q c x) = out_chunk q"
  "out_pos (mq_set q c x) = out_pos q" "in_chunk (mq_set q c x) = in_chunk q"
  "in_pos (mq_set q c x) = in_pos q" "count (mq_set q c x) = count q" "mem (mq_set q c x) = mem q"
  "maxmem (mq_set q c x) = maxmem q" "cache (mq_set q c x) = cache q"
  by (simp_all add: mq_set_def)

text \<open>The chunks \<open>cs\<close> are linked in this order and their slots, joined, are \<open>flat\<close>.\<close>

fun mq_chain :: "(nat \<Rightarrow> nn_msgqueue_chunk option) \<Rightarrow> nat list \<Rightarrow> sp_msg option list \<Rightarrow> bool" where
  "mq_chain st [] flat = (flat = [])"
| "mq_chain st (c # cs) flat = (\<exists>ch rest. st c = Some ch \<and> length (msgs ch) = NN_MSGQUEUE_GRANULARITY \<and>
     (cs = [] \<or> mnext ch = Some (hd cs)) \<and> flat = msgs ch @ rest \<and> mq_chain st cs rest)"

definition mq_total :: "nat list \<Rightarrow> nn_msgqueue \<Rightarrow> nat" where
  "mq_total cs q = (length cs - 1) * NN_MSGQUEUE_GRANULARITY + out_pos q"

text \<open>The statistics and the spare chunk, and the slots between the two positions.\<close>

definition mq_stats :: "nn_msgqueue \<Rightarrow> sp_msg list \<Rightarrow> bool" where
  "mq_stats q ms \<longleftrightarrow> unat (count q) = length ms \<and> mem q = sum_list (map msgsz ms)"

definition mq_spare :: "nn_msgqueue \<Rightarrow> nat list \<Rightarrow> bool" where
  "mq_spare q cs \<longleftrightarrow> (\<forall>c. cache q = Some c \<longrightarrow> c \<notin> set cs \<and> (\<exists>ch. mq_store q c = Some ch \<and>
        length (msgs ch) = NN_MSGQUEUE_GRANULARITY)) \<and>
     (\<forall>c. mq_store q c \<noteq> None \<longrightarrow> c < mq_fresh q \<and> (c \<in> set cs \<or> cache q = Some c))"

definition mq_slots :: "nn_msgqueue \<Rightarrow> nat list \<Rightarrow> sp_msg option list \<Rightarrow> sp_msg list \<Rightarrow> bool" where
  "mq_slots q cs flat ms \<longleftrightarrow> mq_chain (mq_store q) cs flat \<and> distinct cs \<and> cs \<noteq> [] \<and>
     in_chunk q = Some (hd cs) \<and> out_chunk q = last cs \<and>
     in_pos q < NN_MSGQUEUE_GRANULARITY \<and> out_pos q < NN_MSGQUEUE_GRANULARITY \<and>
     in_pos q \<le> mq_total cs q \<and>
     map Some ms = take (mq_total cs q - in_pos q) (drop (in_pos q) flat)"

definition mq_rep :: "nn_msgqueue \<Rightarrow> sp_msg list \<Rightarrow> bool" where
  "mq_rep q ms \<longleftrightarrow> mq_stats q ms \<and> (\<exists>cs flat. mq_slots q cs flat ms \<and> mq_spare q cs)"

lemma mq_chain_length: "mq_chain st cs flat \<Longrightarrow> length flat = length cs * NN_MSGQUEUE_GRANULARITY"
  by (induction cs arbitrary: flat) auto

lemma mq_chain_frame: "mq_chain st cs flat \<Longrightarrow> c \<notin> set cs \<Longrightarrow> mq_chain (st(c := x)) cs flat"
  by (induction cs arbitrary: flat) auto

lemma mq_chain_cong: "mq_chain st cs flat \<Longrightarrow> (\<And>c. c \<in> set cs \<Longrightarrow> st' c = st c) \<Longrightarrow> mq_chain st' cs flat"
  by (induction cs arbitrary: flat) auto

lemma mq_chain_in: "mq_chain st cs flat \<Longrightarrow> c \<in> set cs \<Longrightarrow>
    \<exists>ch. st c = Some ch \<and> length (msgs ch) = NN_MSGQUEUE_GRANULARITY"
  by (induction cs arbitrary: flat) auto

text \<open>Writing a slot of the last chunk.\<close>

lemma mq_chain_put:
  assumes "mq_chain st (cs @ [c]) flat" "distinct (cs @ [c])" "st c = Some ch" "i < NN_MSGQUEUE_GRANULARITY"
    and "st' c = Some (ch\<lparr>msgs := (msgs ch)[i := x]\<rparr>)" "\<And>d. d \<in> set cs \<Longrightarrow> st' d = st d"
  shows "mq_chain st' (cs @ [c]) (flat[length cs * NN_MSGQUEUE_GRANULARITY + i := x])"
  using assms
proof (induction cs arbitrary: flat)
  case Nil
  then show ?case by auto
next
  case (Cons d cs)
  then obtain dh rest where d: "st d = Some dh" "length (msgs dh) = NN_MSGQUEUE_GRANULARITY"
    "mnext dh = Some (hd (cs @ [c]))" "flat = msgs dh @ rest" "mq_chain st (cs @ [c]) rest"
    by auto
  then have "mq_chain st' (cs @ [c]) (rest[length cs * NN_MSGQUEUE_GRANULARITY + i := x])"
    using Cons by auto
  moreover have "flat[length (d # cs) * NN_MSGQUEUE_GRANULARITY + i := x] =
      msgs dh @ rest[length cs * NN_MSGQUEUE_GRANULARITY + i := x]"
    using d by (simp add: list_update_append)
  ultimately show ?case
    using d Cons.prems by auto
qed

text \<open>Linking a further chunk to the last one.\<close>

lemma mq_chain_link:
  assumes "mq_chain st (cs @ [c]) flat" "c \<notin> set cs" "st c = Some ch" "n \<notin> set (cs @ [c])"
    "st n = Some nh" "length (msgs nh) = NN_MSGQUEUE_GRANULARITY"
    and "st' c = Some (ch\<lparr>mnext := Some n\<rparr>)" "\<And>d. d \<in> set (n # cs) \<Longrightarrow> st' d = st d"
  shows "mq_chain st' (cs @ [c, n]) (flat @ msgs nh)"
  using assms
proof (induction cs arbitrary: flat)
  case Nil
  then show ?case by auto
next
  case (Cons d cs)
  then obtain dh rest where d: "st d = Some dh" "length (msgs dh) = NN_MSGQUEUE_GRANULARITY"
    "mnext dh = Some (hd (cs @ [c]))" "flat = msgs dh @ rest" "mq_chain st (cs @ [c]) rest"
    by auto
  then have "mq_chain st' (cs @ [c, n]) (rest @ msgs nh)"
    using Cons by auto
  moreover have "hd (cs @ [c]) = hd (cs @ [c, n])" by (cases cs) auto
  ultimately show ?case
    using d Cons.prems by auto
qed

section \<open>Sending\<close>

lemma take_update_Suc:
  "i + n < length flat \<Longrightarrow> take (Suc n) (drop i (flat[i + n := x])) = take n (drop i flat) @ [x]"
  by (simp add: drop_update_swap take_Suc_conv_app_nth)

lemma mq_total_less:
  "mq_slots q cs flat ms \<Longrightarrow> mq_total cs q < length flat"
  using mq_chain_length [of "mq_store q" cs flat]
  by (cases cs) (auto simp: mq_slots_def mq_total_def)

text \<open>The queue after the message is stored, before a new chunk is linked.\<close>

definition mq_put :: "nn_msgqueue \<Rightarrow> sp_msg \<Rightarrow> nn_msgqueue_chunk \<Rightarrow> nn_msgqueue" where
  "mq_put q m ch = (mq_set (q\<lparr>count := count q + 1, mem := mem q + msgsz m\<rparr>) (out_chunk q)
     (Some (ch\<lparr>msgs := (msgs ch)[out_pos q := Some m]\<rparr>)))\<lparr>out_pos := out_pos q + 1\<rparr>"

lemma mq_put_fields [simp]:
  "mq_store (mq_put q m ch) = (mq_store q)(out_chunk q \<mapsto> ch\<lparr>msgs := (msgs ch)[out_pos q := Some m]\<rparr>)"
  "mq_fresh (mq_put q m ch) = mq_fresh q" "out_chunk (mq_put q m ch) = out_chunk q"
  "out_pos (mq_put q m ch) = out_pos q + 1" "in_chunk (mq_put q m ch) = in_chunk q"
  "in_pos (mq_put q m ch) = in_pos q" "count (mq_put q m ch) = count q + 1"
  "mem (mq_put q m ch) = mem q + msgsz m" "maxmem (mq_put q m ch) = maxmem q"
  "cache (mq_put q m ch) = cache q"
  by (simp_all add: mq_put_def)

lemma mq_put_slots:
  assumes sl: "mq_slots q (ds @ [c]) flat ms" and ch: "mq_store q c = Some ch"
  shows "mq_chain (mq_store (mq_put q m ch)) (ds @ [c]) (flat[mq_total (ds @ [c]) q := Some m])"
    and "map Some (ms @ [m]) = take (Suc (mq_total (ds @ [c]) q) - in_pos q)
       (drop (in_pos q) (flat[mq_total (ds @ [c]) q := Some m]))"
proof -
  show "mq_chain (mq_store (mq_put q m ch)) (ds @ [c]) (flat[mq_total (ds @ [c]) q := Some m])"
    unfolding mq_total_def using sl ch
    by (auto simp: mq_slots_def intro!: mq_chain_put [of "mq_store q"])
  have t: "mq_total (ds @ [c]) q < length flat" "in_pos q \<le> mq_total (ds @ [c]) q"
    using sl mq_total_less by (auto simp: mq_slots_def)
  then show "map Some (ms @ [m]) = take (Suc (mq_total (ds @ [c]) q) - in_pos q)
       (drop (in_pos q) (flat[mq_total (ds @ [c]) q := Some m]))"
    using sl take_update_Suc [of "in_pos q" "mq_total (ds @ [c]) q - in_pos q" flat "Some m"]
    by (auto simp: mq_slots_def Suc_diff_le)
qed

lemma mq_put_spare:
  assumes "mq_spare q cs" "mq_store q c = Some ch" "c \<in> set cs" "out_chunk q = c"
  shows "mq_spare (mq_put q m ch) cs"
  using assms by (auto simp: mq_spare_def)

lemma mq_put_stats:
  assumes "mq_stats q ms" "count q + 1 \<noteq> 0"
  shows "mq_stats (mq_put q m ch) (ms @ [m])"
proof -
  have "unat (count q + 1) = unat (count q) + 1"
    using assms(2) unatSuc [of "count q"] by (simp add: add.commute)
  then show ?thesis using assms by (simp add: mq_stats_def)
qed

text \<open>The queue with a spare chunk in the cache, and the queue after the chunk is linked.\<close>

definition mq_with_cache :: "nn_msgqueue \<Rightarrow> nn_msgqueue" where
  "mq_with_cache self = (case cache self of Some _ \<Rightarrow> self
     | None \<Rightarrow> (mq_set self (mq_fresh self) (Some new_chunk))
         \<lparr>cache := Some (mq_fresh self), mq_fresh := mq_fresh self + 1\<rparr>)"

definition mq_link :: "nn_msgqueue \<Rightarrow> nn_msgqueue_chunk \<Rightarrow> nat \<Rightarrow> nn_msgqueue" where
  "mq_link q ch n = (mq_set q (out_chunk q) (Some (ch\<lparr>mnext := Some n\<rparr>)))\<lparr>out_chunk := n, cache := None, out_pos := 0\<rparr>"

lemma mq_link_fields [simp]:
  "mq_store (mq_link q ch n) = (mq_store q)(out_chunk q \<mapsto> ch\<lparr>mnext := Some n\<rparr>)"
  "mq_fresh (mq_link q ch n) = mq_fresh q" "out_chunk (mq_link q ch n) = n"
  "out_pos (mq_link q ch n) = 0" "in_chunk (mq_link q ch n) = in_chunk q"
  "in_pos (mq_link q ch n) = in_pos q" "count (mq_link q ch n) = count q"
  "mem (mq_link q ch n) = mem q" "cache (mq_link q ch n) = None"
  by (simp_all add: mq_link_def)

lemma mq_with_cache_fields [simp]:
  "out_chunk (mq_with_cache q) = out_chunk q" "out_pos (mq_with_cache q) = out_pos q"
  "in_chunk (mq_with_cache q) = in_chunk q" "in_pos (mq_with_cache q) = in_pos q"
  "count (mq_with_cache q) = count q" "mem (mq_with_cache q) = mem q"
  by (auto simp: mq_with_cache_def split: option.splits)

lemma mq_with_cache_spare:
  assumes sp: "mq_spare q cs" and cs: "\<And>c. c \<in> set cs \<Longrightarrow> mq_store q c \<noteq> None"
  shows "\<exists>n nh. cache (mq_with_cache q) = Some n \<and> n \<notin> set cs \<and> mq_store (mq_with_cache q) n = Some nh \<and>
    length (msgs nh) = NN_MSGQUEUE_GRANULARITY \<and> n < mq_fresh (mq_with_cache q) \<and>
    (\<forall>c. c \<noteq> n \<longrightarrow> mq_store (mq_with_cache q) c = mq_store q c) \<and>
    (\<forall>c. mq_store (mq_with_cache q) c \<noteq> None \<longrightarrow> c < mq_fresh (mq_with_cache q) \<and> c \<in> insert n (set cs))"
proof (cases "cache q")
  case None
  have "mq_fresh q \<notin> set cs"
    using sp cs by (auto simp: mq_spare_def)
  then show ?thesis
    using None sp by (auto simp: mq_with_cache_def new_chunk_def mq_spare_def less_Suc_eq)
next
  case (Some n)
  then show ?thesis
    using sp by (auto simp: mq_with_cache_def mq_spare_def)
qed

lemma nn_msgqueue_send_accept:
  assumes "\<not> (count q > 0 \<and> mem q + msgsz m \<ge> maxmem q)" "mq_store q (out_chunk q) = Some ch"
    "out_pos q < length (msgs ch)"
  shows "nn_msgqueue_send q m = (if out_pos q + 1 = NN_MSGQUEUE_GRANULARITY
     then do { let self = mq_with_cache (mq_put q m ch);
               c \<leftarrow> cache self;
               ch \<leftarrow> mq_store self (out_chunk self);
               Some (Inr (), mq_link self ch c) }
     else Some (Inr (), mq_put q m ch))"
proof -
  have "nn_msgqueue_send q m = (if out_pos q + 1 = NN_MSGQUEUE_GRANULARITY
     then do { let self = mq_with_cache (mq_put q m ch);
               ch \<leftarrow> mq_store self (out_chunk self);
               let self = mq_set self (out_chunk self) (Some (ch\<lparr>mnext := cache self\<rparr>));
               c \<leftarrow> cache self;
               Some (Inr (), self\<lparr>out_chunk := c, cache := None, out_pos := 0\<rparr>) }
     else Some (Inr (), mq_put q m ch))"
    unfolding nn_msgqueue_send_def mq_with_cache_def [symmetric] if_not_P [OF assms(1)]
    using assms(2,3) by (simp add: Let_def mq_put_def)
  then show ?thesis
    by (auto simp: mq_link_def Let_def split: bind_splits)
qed

lemma nn_msgqueue_send_rep:
  assumes rep: "mq_rep q ms" and acc: "\<not> (count q > 0 \<and> mem q + msgsz m \<ge> maxmem q)" "count q + 1 \<noteq> 0"
  shows "\<exists>q'. nn_msgqueue_send q m = Some (Inr (), q') \<and> mq_rep q' (ms @ [m])"
proof -
  obtain cs flat where sl: "mq_slots q cs flat ms" and sp: "mq_spare q cs" and st: "mq_stats q ms"
    using rep by (auto simp: mq_rep_def)
  obtain ds c where cs: "cs = ds @ [c]" and c: "out_chunk q = c"
    using sl by (cases cs rule: rev_cases) (auto simp: mq_slots_def)
  obtain ch where ch: "mq_store q c = Some ch" "length (msgs ch) = NN_MSGQUEUE_GRANULARITY"
    using sl mq_chain_in [of "mq_store q" cs flat c] by (auto simp: mq_slots_def cs)
  let ?q = "mq_put q m ch" and ?flat = "flat[mq_total cs q := Some m]"
  have put: "mq_chain (mq_store ?q) cs ?flat" "mq_spare ?q cs" "mq_stats ?q (ms @ [m])"
    "map Some (ms @ [m]) = take (Suc (mq_total cs q) - in_pos q) (drop (in_pos q) ?flat)"
    using mq_put_slots [of q ds c flat ms ch m] mq_put_spare [OF sp ch(1)] mq_put_stats [OF st acc(2)]
      sl ch c by (auto simp: cs)
  have pos: "out_pos q < length (msgs ch)"
    using sl ch by (simp add: mq_slots_def)
  note send = nn_msgqueue_send_accept [OF acc(1) ch(1) [folded c] pos]
  show ?thesis
  proof (cases "out_pos q + 1 = NN_MSGQUEUE_GRANULARITY")
    case False
    then have "mq_slots ?q cs ?flat (ms @ [m])"
      using put sl by (auto simp: mq_slots_def mq_total_def)
    then show ?thesis
      using send False put by (auto simp: mq_rep_def)
  next
    case True
    let ?w = "mq_with_cache ?q"
    obtain n nh where n: "cache ?w = Some n" "n \<notin> set cs" "mq_store ?w n = Some nh"
      "length (msgs nh) = NN_MSGQUEUE_GRANULARITY" "n < mq_fresh ?w"
      "\<And>c. c \<noteq> n \<Longrightarrow> mq_store ?w c = mq_store ?q c" 
      "\<And>c. mq_store ?w c \<noteq> None \<Longrightarrow> c < mq_fresh ?w \<and> c \<in> insert n (set cs)"
      using mq_with_cache_spare [OF put(2)] mq_chain_in [OF put(1)] by blast
    obtain ch' where ch': "mq_store ?w c = Some ch'"
      using n(2,6) by (auto simp: c cs)
    have "mq_chain (mq_store ?w) cs ?flat"
      by (rule mq_chain_cong [OF put(1)]) (metis n(2,6))
    then have chain: "mq_chain (mq_store ?w) (ds @ [c]) ?flat" unfolding cs .
    have "mq_chain (mq_store (mq_link ?w ch' n)) (ds @ [c, n]) (?flat @ msgs nh)"
      by (rule mq_chain_link [OF chain _ ch' _ n(3,4)])
        (use n(2) sl in \<open>auto simp: cs c mq_slots_def\<close>)
    moreover have "Suc (mq_total cs q) = length ds * NN_MSGQUEUE_GRANULARITY + NN_MSGQUEUE_GRANULARITY"
      using True by (simp add: mq_total_def cs)
    moreover have "length ?flat = length cs * NN_MSGQUEUE_GRANULARITY"
      using mq_chain_length [OF put(1)] by simp
    ultimately have "mq_slots (mq_link ?w ch' n) (ds @ [c, n]) (?flat @ msgs nh) (ms @ [m])"
      using put(4) sl n(2) by (cases ds) (auto simp: mq_slots_def mq_total_def cs c)
    moreover have "mq_spare (mq_link ?w ch' n) (ds @ [c, n])"
      using n(7) ch' by (auto simp: mq_spare_def c cs)
    moreover have "mq_stats (mq_link ?w ch' n) (ms @ [m])"
      using put(3) by (simp add: mq_stats_def)
    ultimately have "mq_rep (mq_link ?w ch' n) (ms @ [m])"
      by (auto simp: mq_rep_def)
    then show ?thesis
      using send True n(1) ch' by (simp add: c)
  qed
qed

section \<open>Receiving\<close>

lemma mq_slots_hd:
  assumes sl: "mq_slots q cs flat (m # ms)"
  obtains c ds ch rest where "cs = c # ds" "mq_store q c = Some ch" "length (msgs ch) = NN_MSGQUEUE_GRANULARITY"
    "flat = msgs ch @ rest" "mq_chain (mq_store q) ds rest" "msgs ch ! in_pos q = Some m"
    "in_pos q < mq_total cs q" "ds = [] \<or> mnext ch = Some (hd ds)"
    "map Some ms = take (mq_total cs q - Suc (in_pos q)) (drop (Suc (in_pos q)) flat)"
proof -
  obtain c ds where cs: "cs = c # ds"
    using sl by (cases cs) (auto simp: mq_slots_def)
  obtain ch rest where ch: "mq_store q c = Some ch" "length (msgs ch) = NN_MSGQUEUE_GRANULARITY"
    "flat = msgs ch @ rest" "mq_chain (mq_store q) ds rest" "ds = [] \<or> mnext ch = Some (hd ds)"
    using sl by (auto simp: mq_slots_def cs)
  have ms: "Some m # map Some ms = take (mq_total cs q - in_pos q) (drop (in_pos q) flat)"
    using sl by (simp add: mq_slots_def)
  then have lt: "in_pos q < mq_total cs q"
    by (cases "mq_total cs q - in_pos q") auto
  have pos: "in_pos q < length flat" "in_pos q < length (msgs ch)"
    using sl ch by (auto simp: mq_slots_def)
  have "Some m # map Some ms = flat ! in_pos q # take (mq_total cs q - Suc (in_pos q)) (drop (Suc (in_pos q)) flat)"
    using ms lt pos by (simp add: Cons_nth_drop_Suc [symmetric] Suc_diff_Suc [symmetric])
  then show thesis
    using that cs ch lt pos by (simp add: nth_append)
qed

lemma mq_stats_pop:
  assumes "mq_stats q (m # ms)"
  shows "count q \<noteq> 0" "mq_stats (q\<lparr>count := count q - 1, mem := mem q - msgsz m\<rparr>) ms"
proof -
  have "unat (count q) = Suc (length ms)"
    using assms by (simp add: mq_stats_def)
  then show "count q \<noteq> 0" by auto
  then have "unat (count q - 1) = length ms"
    using \<open>unat (count q) = Suc (length ms)\<close> unat_gt_0 [of "count q"] by (simp add: unat_sub_if' Suc_le_eq)
  then show "mq_stats (q\<lparr>count := count q - 1, mem := mem q - msgsz m\<rparr>) ms"
    using assms by (simp add: mq_stats_def)
qed

text \<open>The queue after the message is moved out of its slot, and after the chunk is left.\<close>

definition mq_take :: "nn_msgqueue \<Rightarrow> nat \<Rightarrow> nn_msgqueue_chunk \<Rightarrow> nn_msgqueue" where
  "mq_take q c ch = (mq_set q c (Some (ch\<lparr>msgs := (msgs ch)[in_pos q := None]\<rparr>)))\<lparr>in_pos := in_pos q + 1\<rparr>"

definition mq_leave :: "nn_msgqueue \<Rightarrow> nat \<Rightarrow> nn_msgqueue_chunk \<Rightarrow> nn_msgqueue" where
  "mq_leave q c ch = (let self = q\<lparr>in_chunk := mnext ch, in_pos := 0\<rparr>
     in case cache self of None \<Rightarrow> self\<lparr>cache := Some c\<rparr> | Some _ \<Rightarrow> mq_set self c None)"

lemma mq_take_fields [simp]:
  "mq_store (mq_take q c ch) = (mq_store q)(c \<mapsto> ch\<lparr>msgs := (msgs ch)[in_pos q := None]\<rparr>)"
  "mq_fresh (mq_take q c ch) = mq_fresh q" "out_chunk (mq_take q c ch) = out_chunk q"
  "out_pos (mq_take q c ch) = out_pos q" "in_chunk (mq_take q c ch) = in_chunk q"
  "in_pos (mq_take q c ch) = in_pos q + 1" "count (mq_take q c ch) = count q"
  "mem (mq_take q c ch) = mem q" "cache (mq_take q c ch) = cache q"
  by (simp_all add: mq_take_def)

lemma mq_leave_fields [simp]:
  "mq_fresh (mq_leave q c ch) = mq_fresh q" "out_chunk (mq_leave q c ch) = out_chunk q"
  "out_pos (mq_leave q c ch) = out_pos q" "in_chunk (mq_leave q c ch) = mnext ch"
  "in_pos (mq_leave q c ch) = 0" "count (mq_leave q c ch) = count q" "mem (mq_leave q c ch) = mem q"
  by (auto simp: mq_leave_def Let_def split: option.splits)

lemma mq_leave_store: "d \<noteq> c \<Longrightarrow> mq_store (mq_leave q c ch) d = mq_store q d"
  by (auto simp: mq_leave_def Let_def split: option.splits)

lemma mq_leave_spare:
  assumes "mq_spare q (c # ds)" "mq_store q c = Some ch'" "length (msgs ch') = NN_MSGQUEUE_GRANULARITY" "c \<notin> set ds"
  shows "mq_spare (mq_leave q c ch) ds"
  using assms by (cases "cache q") (auto simp: mq_leave_def mq_spare_def Let_def)

lemma nn_msgqueue_recv_eq:
  assumes "count q \<noteq> 0" "in_chunk q = Some c" "mq_store q c = Some ch" "in_pos q < length (msgs ch)"
    "msgs ch ! in_pos q = Some m"
  shows "nn_msgqueue_recv q = (let self = (if in_pos q + 1 = NN_MSGQUEUE_GRANULARITY
      then mq_leave (mq_take q c ch) c ch else mq_take q c ch)
    in Some (Inr m, self\<lparr>count := count q - 1, mem := mem q - msgsz m\<rparr>))"
  using assms unfolding nn_msgqueue_recv_def
  by (auto simp: Let_def mq_leave_def mq_take_def split: option.splits)

lemma nn_msgqueue_recv_rep:
  assumes rep: "mq_rep q (m # ms)"
  shows "\<exists>q'. nn_msgqueue_recv q = Some (Inr m, q') \<and> mq_rep q' ms"
proof -
  obtain cs flat where sl: "mq_slots q cs flat (m # ms)" and sp: "mq_spare q cs" and st: "mq_stats q (m # ms)"
    using rep by (auto simp: mq_rep_def)
  from sl obtain c ds ch rest where c: "cs = c # ds" "mq_store q c = Some ch"
    "length (msgs ch) = NN_MSGQUEUE_GRANULARITY" "flat = msgs ch @ rest" "mq_chain (mq_store q) ds rest"
    "msgs ch ! in_pos q = Some m" "in_pos q < mq_total cs q" "ds = [] \<or> mnext ch = Some (hd ds)"
    "map Some ms = take (mq_total cs q - Suc (in_pos q)) (drop (Suc (in_pos q)) flat)"
    by (rule mq_slots_hd)
  let ?q = "mq_take q c ch"
  let ?q' = "if in_pos q + 1 = NN_MSGQUEUE_GRANULARITY then mq_leave ?q c ch else ?q"
  have ic: "in_chunk q = Some c" "in_pos q < length (msgs ch)" "c \<notin> set ds"
    using sl c by (auto simp: mq_slots_def)
  have "\<exists>cs flat. mq_slots ?q' cs flat ms \<and> mq_spare ?q' cs"
  proof (cases "in_pos q + 1 = NN_MSGQUEUE_GRANULARITY")
    case False
    have "mq_chain (mq_store ?q) ds rest"
      by (rule mq_chain_cong [OF c(5)]) (use ic(3) in auto)
    then have "mq_chain (mq_store ?q) cs (flat[in_pos q := None])"
      using c(1,3,4,8) ic(2) by (auto simp: list_update_append)
    then have "mq_slots ?q cs (flat[in_pos q := None]) ms"
      using sl c(7,9) False by (auto simp: mq_slots_def mq_total_def)
    moreover have "mq_spare ?q cs"
      using sp c(1,2,3) by (auto simp: mq_spare_def)
    ultimately show ?thesis using False by auto
  next
    case True
    have ds: "ds \<noteq> []"
      using c(1,7) sl True by (auto simp: mq_slots_def mq_total_def)
    have "mq_chain (mq_store (mq_leave ?q c ch)) ds rest"
      by (rule mq_chain_cong [OF c(5)]) (subst mq_leave_store, use ic(3) in auto)
    moreover have "map Some ms = take (mq_total ds q) rest"
      using c(1,3,4,9) True ds by (cases ds) (auto simp: mq_total_def)
    ultimately have "mq_slots (mq_leave ?q c ch) ds rest ms"
      using sl c(1,8) ds by (auto simp: mq_slots_def mq_total_def NN_MSGQUEUE_GRANULARITY_def)
    moreover have "mq_spare (mq_leave ?q c ch) ds"
      by (rule mq_leave_spare [where ch' = "ch\<lparr>msgs := (msgs ch)[in_pos q := None]\<rparr>"])
        (use sp c(1,2,3) ic(3) in \<open>auto simp: mq_spare_def\<close>)
    ultimately show ?thesis using True by auto
  qed
  then obtain cs' flat' where "mq_slots ?q' cs' flat' ms" "mq_spare ?q' cs'" by blast
  then have "mq_slots (?q'\<lparr>count := count q - 1, mem := mem q - msgsz m\<rparr>) cs' flat' ms"
    "mq_spare (?q'\<lparr>count := count q - 1, mem := mem q - msgsz m\<rparr>) cs'"
    by (simp_all add: mq_slots_def mq_spare_def mq_total_def)
  moreover have "mq_stats (?q'\<lparr>count := count q - 1, mem := mem q - msgsz m\<rparr>) ms"
    using mq_stats_pop(2) [OF st] by (simp add: mq_stats_def)
  ultimately have "mq_rep (?q'\<lparr>count := count q - 1, mem := mem q - msgsz m\<rparr>) ms"
    unfolding mq_rep_def by blast
  then show ?thesis
    using nn_msgqueue_recv_eq [OF mq_stats_pop(1) [OF st] ic(1) c(2) ic(2) c(6)] by (simp add: Let_def)
qed

lemma nn_msgqueue_recv_empty: "mq_rep q [] \<Longrightarrow> nn_msgqueue_recv q = Some (Inl EAGAIN, q)"
  by (simp add: mq_rep_def mq_stats_def nn_msgqueue_recv_def unat_eq_0)

lemma mq_rep_init: "mq_rep (nn_msgqueue_init mx) []"
proof -
  have "mq_slots (nn_msgqueue_init mx) [0] (msgs new_chunk) []" "mq_spare (nn_msgqueue_init mx) [0]"
    by (auto simp: mq_slots_def mq_spare_def nn_msgqueue_init_def new_chunk_def NN_MSGQUEUE_GRANULARITY_def
        mq_total_def)
  then show ?thesis
    by (auto simp: mq_rep_def mq_stats_def nn_msgqueue_init_def)
qed

section \<open>Properties\<close>

text \<open>The operations in the shape of the queue contract: a message the code refuses, or one
  more than \<open>2 ^ 64 - 1\<close> messages, is not pushed.\<close>

definition mq_can_push :: "nn_msgqueue \<Rightarrow> sp_msg \<Rightarrow> bool" where
  "mq_can_push q m \<longleftrightarrow> \<not> (count q > 0 \<and> mem q + msgsz m \<ge> maxmem q) \<and> count q + 1 \<noteq> 0"

definition mq_push :: "nn_msgqueue \<Rightarrow> sp_msg \<Rightarrow> nn_msgqueue option" where
  "mq_push q m = map_option snd (nn_msgqueue_send q m)"

definition mq_pop :: "nn_msgqueue \<Rightarrow> (sp_msg option \<times> nn_msgqueue) option" where
  "mq_pop q = map_option (\<lambda>(rc, q). (case rc of Inl _ \<Rightarrow> None | Inr m \<Rightarrow> Some m, q)) (nn_msgqueue_recv q)"

interpretation mq: fifo mq_rep mq_can_push mq_push mq_pop
proof
  show "\<exists>q'. mq_push q m = Some q' \<and> mq_rep q' (ms @ [m])" if "mq_rep q ms" "mq_can_push q m" for q ms m
    using nn_msgqueue_send_rep [OF that(1), of m] that(2) by (auto simp: mq_push_def mq_can_push_def)
  show "\<exists>q'. mq_pop q = Some (None, q') \<and> mq_rep q' []" if "mq_rep q []" for q
    using nn_msgqueue_recv_empty [OF that] that by (simp add: mq_pop_def)
  show "\<exists>q'. mq_pop q = Some (Some m, q') \<and> mq_rep q' ms" if "mq_rep q (m # ms)" for q m ms
    using nn_msgqueue_recv_rep [OF that] by (auto simp: mq_pop_def)
qed

text \<open>
  The message queue of the inproc transport is first in, first out.  Whatever the
  sequence of sends and receives on a new queue, no run hits an uninitialised slot or a
  missing chunk, through all changes of chunk and reuse of the cached one, and the accepted
  messages are delivered in order: those received so far are a prefix of those accepted,
  and the rest is still queued.
\<close>

lemma nn_msgqueue_fifo:
  "\<exists>q acc del ms. fifo_run mq_can_push mq_push mq_pop (nn_msgqueue_init mx) ops = Some (q, acc, del) \<and>
     mq_rep q ms \<and> acc = del @ ms"
  using mq.run_fifo [OF mq_rep_init, of mx ops] by simp

text \<open>
  The capacity rule of the message queue.  A send is refused with \<^verbatim>\<open>EAGAIN\<close>, and the
  queue left as it is, exactly when the queue is not empty and its memory together with the
  message reaches \<^verbatim>\<open>maxmem\<close>; in particular one message of any size fits into an empty
  queue.  An accepted message goes to the end; a receive fails with \<^verbatim>\<open>EAGAIN\<close> exactly on
  the empty queue and otherwise returns the oldest message.
\<close>

lemma nn_msgqueue_capacity:
  assumes "mq_rep q ms" "Suc (length ms) < 2 ^ 64"
  shows "(nn_msgqueue_send q m = Some (Inl EAGAIN, q) \<longleftrightarrow>
      ms \<noteq> [] \<and> sum_list (map msgsz ms) + msgsz m \<ge> maxmem q) \<and>
    (ms = [] \<or> sum_list (map msgsz ms) + msgsz m < maxmem q \<longrightarrow>
      (\<exists>q'. nn_msgqueue_send q m = Some (Inr (), q') \<and> mq_rep q' (ms @ [m]))) \<and>
    (case ms of [] \<Rightarrow> nn_msgqueue_recv q = Some (Inl EAGAIN, q)
      | x # xs \<Rightarrow> \<exists>q'. nn_msgqueue_recv q = Some (Inr x, q') \<and> mq_rep q' xs)"
    (is "?refuse \<and> ?accept \<and> ?recv")
proof (intro conjI)
  have st: "unat (count q) = length ms" "mem q = sum_list (map msgsz ms)"
    using assms(1) by (auto simp: mq_rep_def mq_stats_def)
  then have c: "0 < count q \<longleftrightarrow> ms \<noteq> []"
    by (metis length_greater_0_conv unat_gt_0 word_neq_0_conv)
  have "unat (count q + 1) = Suc (length ms)"
    using assms(2) st(1) by (simp add: unat_plus_if')
  then have ne: "count q + 1 \<noteq> 0" by auto
  show send: ?accept
    using nn_msgqueue_send_rep [OF assms(1) _ ne, of m] c st(2) by auto
  show ?refuse
  proof (cases "ms \<noteq> [] \<and> sum_list (map msgsz ms) + msgsz m \<ge> maxmem q")
    case True
    then show ?thesis using c st(2) by (simp add: nn_msgqueue_send_def)
  next
    case False
    then have "\<exists>q'. nn_msgqueue_send q m = Some (Inr (), q')"
      using send by (auto simp: not_le)
    then show ?thesis using False by auto
  qed
  show ?recv
    using assms(1) nn_msgqueue_recv_empty nn_msgqueue_recv_rep by (auto split: list.splits)
qed

section \<open>Termination of the queue\<close>

lemma msgqueue_drain_rep:
  "mq_rep q ms \<Longrightarrow> \<exists>q'. msgqueue_drain q acc = Some (acc @ ms, q') \<and> mq_rep q' []"
proof (induction ms arbitrary: q acc)
  case Nil
  then show ?case
    using nn_msgqueue_recv_empty [OF Nil] by (subst msgqueue_drain.simps) simp
next
  case (Cons m ms)
  obtain q1 where q1: "nn_msgqueue_recv q = Some (Inr m, q1)" "mq_rep q1 ms"
    using nn_msgqueue_recv_rep [OF Cons.prems] by blast
  then show ?case
    using Cons.IH [OF q1(2), of "acc @ [m]"] by (subst msgqueue_drain.simps) simp
qed

lemma mq_rep_empty_chunks:
  assumes "mq_rep q []"
  shows "in_chunk q = Some (out_chunk q)"
    "mq_store q c \<noteq> None \<Longrightarrow> c = out_chunk q \<or> cache q = Some c"
proof -
  obtain cs flat where sl: "mq_slots q cs flat []" and sp: "mq_spare q cs"
    using assms by (auto simp: mq_rep_def)
  have "mq_total cs q < length flat" by (rule mq_total_less [OF sl])
  moreover have "take (mq_total cs q - in_pos q) (drop (in_pos q) flat) = []"
    using sl by (simp add: mq_slots_def)
  ultimately have "mq_total cs q \<le> in_pos q" by auto
  then have "length cs - 1 = 0"
    using sl by (cases "length cs - 1") (auto simp: mq_slots_def mq_total_def)
  then obtain d where "cs = [d]"
    using sl by (cases cs) (auto simp: mq_slots_def)
  then show "in_chunk q = Some (out_chunk q)"
    "mq_store q c \<noteq> None \<Longrightarrow> c = out_chunk q \<or> cache q = Some c"
    using sl sp by (auto simp: mq_slots_def mq_spare_def)
qed

text \<open>
  \<^verbatim>\<open>nn_msgqueue_term\<close> always ends: its loop receives and terminates exactly the
  messages that were still queued, the assertion that a single chunk is left holds, and no
  chunk stays allocated.
\<close>

lemma nn_msgqueue_term_frees_all:
  assumes "mq_rep q ms"
  shows "nn_msgqueue_term q = Some (ms, \<lambda>c. None)"
proof -
  obtain q' where q': "msgqueue_drain q [] = Some (ms, q')" "mq_rep q' []"
    using msgqueue_drain_rep [OF assms, of "[]"] by auto
  note ch = mq_rep_empty_chunks [OF q'(2)]
  have "(case cache q' of None \<Rightarrow> (mq_store q')(out_chunk q' := None)
      | Some c \<Rightarrow> ((mq_store q')(out_chunk q' := None))(c := None)) = (\<lambda>c. None)"
    using ch(2) by (cases "cache q'") (fastforce simp: fun_eq_iff)+
  then show ?thesis
    using q' ch(1) by (simp add: nn_msgqueue_term_def Let_def cong: option.case_cong)
qed

end
