(* ===== verification/Nn_Inproc.thy ===== *)
theory Nn_Inproc
  imports Nn_Pipe Nn_Msgqueue
begin

text \<open>
  \<^verbatim>\<open>transports/inproc/sinproc.c\<close>: one end of an inproc connection.  Sessions carry the
  number of their pipe.  Events exchanged between the two ends with \<^verbatim>\<open>nn_fsm_raiseto\<close>
  wait in \<open>pending\<close>, oldest first, until the event loop delivers them; an event object that
  is already waiting must not be raised again (\<^verbatim>\<open>nn_queue_push\<close> aborts).  Events raised to
  the owner (the binproc or cinproc object) are collected in \<open>to_owner\<close>.
\<close>

section \<open>Model\<close>

datatype sinproc_state =
  SIN_IDLE | SIN_CONNECTING | SIN_READY | SIN_ACTIVE | SIN_DISCONNECTED | SIN_STOPPING_PEER | SIN_STOPPING

datatype sinproc_type =
  NN_SINPROC_CONNECT | NN_SINPROC_READY | NN_SINPROC_ACCEPTED | NN_SINPROC_SENT | NN_SINPROC_RECEIVED
| NN_SINPROC_DISCONNECT | NN_SINPROC_STOPPED

text \<open>The four event objects embedded in a session.\<close>

datatype sinproc_event = EV_CONNECT | EV_SENT | EV_RECEIVED | EV_DISCONNECT

datatype fsm_state = FSM_IDLE | FSM_ACTIVE | FSM_STOPPING

record nn_sinproc =
  fsmstate :: fsm_state
  sstate :: sinproc_state
  sending :: bool
  receiving :: bool
  peer :: "pid option"
  msgqueue :: nn_msgqueue
  smsg :: sp_msg

text \<open>A waiting event: the object (its session and which of the four), the session it goes
  to, its type and the session it comes from.\<close>

record raised_event =
  ev_obj :: "pid \<times> sinproc_event"
  ev_dst :: pid
  ev_type :: sinproc_type
  ev_src :: pid

record inproc =
  sessions :: "pid \<Rightarrow> nn_sinproc"
  pending :: "raised_event list"
  to_owner :: "(pid \<times> sinproc_type) list"

type_synonym iworld = "inproc world"

definition session :: "iworld \<Rightarrow> pid \<Rightarrow> nn_sinproc" where
  "session w p = sessions (tstate w) p"

definition set_session :: "pid \<Rightarrow> nn_sinproc \<Rightarrow> iworld \<Rightarrow> iworld" where
  "set_session p s w = w\<lparr>tstate := (tstate w)\<lparr>sessions := (sessions (tstate w))(p := s)\<rparr>\<rparr>"

definition add_event :: "raised_event \<Rightarrow> iworld \<Rightarrow> iworld" where
  "add_event e w = w\<lparr>tstate := (tstate w)\<lparr>pending := pending (tstate w) @ [e]\<rparr>\<rparr>"

definition nn_fsm_raiseto :: "pid \<times> sinproc_event \<Rightarrow> pid \<Rightarrow> sinproc_type \<Rightarrow> pid \<Rightarrow> iworld \<Rightarrow> iworld option" where
  "nn_fsm_raiseto obj dst typ src w = do {
     nn_assert (obj \<notin> ev_obj ` set (pending (tstate w)));
     Some (add_event \<lparr>ev_obj = obj, ev_dst = dst, ev_type = typ, ev_src = src\<rparr> w) }"

definition empty_msg :: sp_msg where
  "empty_msg = \<lparr>sphdr = [], hdrs = [], body = []\<rparr>"

definition nn_sinproc_init :: "u64 \<Rightarrow> nn_sinproc" where
  "nn_sinproc_init rcvbuf = \<lparr>fsmstate = FSM_IDLE, sstate = SIN_IDLE, sending = False, receiving = False,
     peer = None, msgqueue = nn_msgqueue_init rcvbuf, smsg = empty_msg\<rparr>"

text \<open>The message as it travels: header and body are merged into the body.\<close>

definition merge_msg :: "sp_msg \<Rightarrow> sp_msg" where
  "merge_msg m = \<lparr>sphdr = [], hdrs = [], body = sphdr m @ body m\<rparr>"

definition nn_sinproc_send :: "iworld \<Rightarrow> pid \<Rightarrow> sp_msg \<Rightarrow> (u32 rc \<times> iworld) option" where
  "nn_sinproc_send w p msg =
     (let self = session w p
      in if sstate self = SIN_DISCONNECTED then Some (Inl ECONNRESET, w)
         else do {
           nn_assert (sstate self = SIN_ACTIVE);
           nn_assert (\<not> sending self);
           let self = self\<lparr>smsg := merge_msg msg, sending := True\<rparr>;
           let w = set_session p self w;
           q \<leftarrow> peer self;
           w \<leftarrow> nn_fsm_raiseto (q, EV_SENT) q NN_SINPROC_SENT p w;
           Some (Inr 0, w) })"

text \<open>The lingering message of the peer is moved into the queue, if it fits now.\<close>

definition sinproc_unblock :: "iworld \<Rightarrow> pid \<Rightarrow> iworld option" where
  "sinproc_unblock w p =
     (let self = session w p
      in if sstate self \<noteq> SIN_DISCONNECTED \<and> receiving self then do {
           q \<leftarrow> peer self;
           (rc, mq) \<leftarrow> nn_msgqueue_send (msgqueue self) (smsg (session w q));
           case rc of
             Inl e \<Rightarrow> do { nn_assert (e = EAGAIN); Some (set_session p (self\<lparr>msgqueue := mq\<rparr>) w) }
           | Inr _ \<Rightarrow> do {
               let w = set_session p (self\<lparr>msgqueue := mq\<rparr>) w;
               let w = set_session q ((session w q)\<lparr>smsg := empty_msg\<rparr>) w;
               w \<leftarrow> nn_fsm_raiseto (q, EV_RECEIVED) q NN_SINPROC_RECEIVED p w;
               Some (set_session p ((session w p)\<lparr>receiving := False\<rparr>) w) } }
         else Some w)"

definition nn_sinproc_recv :: "iworld \<Rightarrow> pid \<Rightarrow> ((u32 \<times> sp_msg) rc \<times> iworld) option" where
  "nn_sinproc_recv w p = do {
     let self = session w p;
     nn_assert (sstate self = SIN_ACTIVE \<or> sstate self = SIN_DISCONNECTED);
     (rc, mq) \<leftarrow> nn_msgqueue_recv (msgqueue self);
     case rc of Inl e \<Rightarrow> None
     | Inr msg \<Rightarrow> do {
         w \<leftarrow> sinproc_unblock (set_session p (self\<lparr>msgqueue := mq\<rparr>) w) p;
         w \<leftarrow> (if nn_msgqueue_empty (msgqueue (session w p)) then Some w else nn_pipebase_received p w);
         Some (Inr (0, msg), w) } }"

definition nn_sinproc_pipebase_vfptr :: "inproc pipebase_vfptr" where
  "nn_sinproc_pipebase_vfptr = \<lparr>vsend = nn_sinproc_send, vrecv = nn_sinproc_recv\<rparr>"

section \<open>State machine\<close>

text \<open>What a session is fed with: actions on itself or events from the peer.\<close>

datatype sinproc_input = NN_FSM_START | NN_FSM_STOP | NN_SINPROC_ACTION_READY | SRC_PEER sinproc_type pid

text \<open>The handler of the \<open>SENT\<close> event in the active state.\<close>

definition sinproc_on_sent :: "iworld \<Rightarrow> pid \<Rightarrow> iworld option" where
  "sinproc_on_sent w p = do {
     let self = session w p;
     let empty = nn_msgqueue_empty (msgqueue self);
     q \<leftarrow> peer self;
     (rc, mq) \<leftarrow> nn_msgqueue_send (msgqueue self) (smsg (session w q));
     case rc of
       Inl e \<Rightarrow> do { nn_assert (e = EAGAIN); Some (set_session p (self\<lparr>msgqueue := mq, receiving := True\<rparr>) w) }
     | Inr _ \<Rightarrow> do {
         let w = set_session p (self\<lparr>msgqueue := mq\<rparr>) w;
         let w = set_session q ((session w q)\<lparr>smsg := empty_msg\<rparr>) w;
         w \<leftarrow> (if empty then nn_pipebase_received p w else Some w);
         nn_fsm_raiseto (q, EV_RECEIVED) q NN_SINPROC_RECEIVED p w } }"

definition sinproc_on_received :: "iworld \<Rightarrow> pid \<Rightarrow> iworld option" where
  "sinproc_on_received w p = do {
     nn_assert (sending (session w p));
     w \<leftarrow> nn_pipebase_sent p w;
     Some (set_session p ((session w p)\<lparr>sending := False\<rparr>) w) }"

text \<open>\<open>add\<close> and \<open>rm\<close> hand the pipe to the socket type and take it back.\<close>

definition sinproc_activate ::
  "('s \<Rightarrow> pid \<Rightarrow> (unit rc \<times> 's) option) \<Rightarrow> pid \<Rightarrow> 's \<times> iworld \<Rightarrow> ('s \<times> iworld) option" where
  "sinproc_activate add p sw = do {
     (rc, s, w) \<leftarrow> nn_pipebase_start add p (fst sw) (snd sw);
     case rc of Inl e \<Rightarrow> None
     | Inr _ \<Rightarrow> Some (s, set_session p ((session w p)\<lparr>sstate := SIN_ACTIVE\<rparr>) w) }"

definition nn_sinproc_handler ::
  "('s \<Rightarrow> pid \<Rightarrow> (unit rc \<times> 's) option) \<Rightarrow> ('s \<Rightarrow> pid \<Rightarrow> 's option) \<Rightarrow> pid \<Rightarrow> sinproc_input \<Rightarrow>
   's \<times> iworld \<Rightarrow> ('s \<times> iworld) option" where
  "nn_sinproc_handler add rm p input sw = (case sw of (s, w) \<Rightarrow>
     (case (sstate (session w p), input) of
       (SIN_IDLE, NN_FSM_START) \<Rightarrow> Some (s, set_session p ((session w p)\<lparr>sstate := SIN_CONNECTING\<rparr>) w)
     | (SIN_CONNECTING, NN_SINPROC_ACTION_READY) \<Rightarrow>
         Some (s, set_session p ((session w p)\<lparr>sstate := SIN_READY\<rparr>) w)
     | (SIN_CONNECTING, SRC_PEER NN_SINPROC_READY src) \<Rightarrow> do {
         let w = set_session p ((session w p)\<lparr>peer := Some src\<rparr>) w;
         (s, w) \<leftarrow> sinproc_activate add p (s, w);
         w \<leftarrow> nn_fsm_raiseto (p, EV_CONNECT) src NN_SINPROC_ACCEPTED p w;
         Some (s, w) }
     | (SIN_READY, SRC_PEER NN_SINPROC_READY src) \<Rightarrow> sinproc_activate add p (s, w)
     | (SIN_READY, SRC_PEER NN_SINPROC_ACCEPTED src) \<Rightarrow> sinproc_activate add p (s, w)
     | (SIN_ACTIVE, SRC_PEER NN_SINPROC_SENT src) \<Rightarrow> map_option (Pair s) (sinproc_on_sent w p)
     | (SIN_ACTIVE, SRC_PEER NN_SINPROC_RECEIVED src) \<Rightarrow> map_option (Pair s) (sinproc_on_received w p)
     | (SIN_ACTIVE, SRC_PEER NN_SINPROC_DISCONNECT src) \<Rightarrow> do {
         (s, w) \<leftarrow> nn_pipebase_stop rm p s w;
         q \<leftarrow> peer (session w p);
         w \<leftarrow> nn_fsm_raiseto (q, EV_DISCONNECT) q NN_SINPROC_DISCONNECT p w;
         let w = set_session p ((session w p)\<lparr>sstate := SIN_DISCONNECTED, peer := None\<rparr>) w;
         Some (s, w\<lparr>tstate := (tstate w)\<lparr>to_owner := to_owner (tstate w) @ [(p, NN_SINPROC_DISCONNECT)]\<rparr>\<rparr>) }
     | (SIN_DISCONNECTED, SRC_PEER NN_SINPROC_RECEIVED src) \<Rightarrow> Some (s, w)
     | _ \<Rightarrow> None))"

definition nn_sinproc_shutdown_events ::
  "('s \<Rightarrow> pid \<Rightarrow> 's option) \<Rightarrow> pid \<Rightarrow> sinproc_input \<Rightarrow> 's \<times> iworld \<Rightarrow> ('s \<times> iworld) option" where
  "nn_sinproc_shutdown_events rm p input sw = (case sw of (s, w) \<Rightarrow>
     (case input of
       NN_FSM_STOP \<Rightarrow>
         if sstate (session w p) \<noteq> SIN_IDLE \<and> sstate (session w p) \<noteq> SIN_DISCONNECTED then do {
           (s, w) \<leftarrow> nn_pipebase_stop rm p s w;
           nn_assert (fsmstate (session w p) = FSM_ACTIVE \<or> fsmstate (session w p) = FSM_STOPPING);
           q \<leftarrow> peer (session w p);
           w \<leftarrow> nn_fsm_raiseto (q, EV_DISCONNECT) q NN_SINPROC_DISCONNECT p w;
           Some (s, set_session p ((session w p)\<lparr>sstate := SIN_STOPPING_PEER\<rparr>) w) }
         else Some (s, set_session p ((session w p)\<lparr>sstate := SIN_STOPPING\<rparr>) w)
     | SRC_PEER NN_SINPROC_RECEIVED src \<Rightarrow> Some (s, w)
     | SRC_PEER NN_SINPROC_DISCONNECT src \<Rightarrow> do {
         nn_assert (sstate (session w p) = SIN_STOPPING_PEER);
         Some (s, set_session p ((session w p)\<lparr>sstate := SIN_STOPPING\<rparr>) w) }
     | _ \<Rightarrow> None))"

definition event_active :: "pid \<Rightarrow> sinproc_event \<Rightarrow> iworld \<Rightarrow> bool" where
  "event_active p e w \<longleftrightarrow> (p, e) \<in> ev_obj ` set (pending (tstate w))"

definition nn_sinproc_shutdown ::
  "('s \<Rightarrow> pid \<Rightarrow> 's option) \<Rightarrow> pid \<Rightarrow> sinproc_input \<Rightarrow> 's \<times> iworld \<Rightarrow> ('s \<times> iworld) option" where
  "nn_sinproc_shutdown rm p input sw = do {
     nn_assert (fsmstate (session (snd sw) p) = FSM_STOPPING);
     (s, w) \<leftarrow> nn_sinproc_shutdown_events rm p input sw;
     if sstate (session w p) \<noteq> SIN_STOPPING then Some (s, w)
     else if event_active p EV_RECEIVED w \<or> event_active p EV_DISCONNECT w then Some (s, w)
     else do {
       nn_assert (\<not> event_active p EV_CONNECT w);
       nn_assert (\<not> event_active p EV_SENT w);
       let w = w\<lparr>tstate := (tstate w)\<lparr>to_owner := to_owner (tstate w) @ [(p, NN_SINPROC_STOPPED)]\<rparr>\<rparr>;
       Some (s, set_session p ((session w p)\<lparr>fsmstate := FSM_IDLE\<rparr>) w) } }"

text \<open>\<^verbatim>\<open>nn_fsm_feed\<close>, and the delivery of the oldest waiting event.\<close>

definition nn_fsm_feed ::
  "('s \<Rightarrow> pid \<Rightarrow> (unit rc \<times> 's) option) \<Rightarrow> ('s \<Rightarrow> pid \<Rightarrow> 's option) \<Rightarrow> pid \<Rightarrow> sinproc_input \<Rightarrow>
   's \<times> iworld \<Rightarrow> ('s \<times> iworld) option" where
  "nn_fsm_feed add rm p input sw =
     (if fsmstate (session (snd sw) p) \<noteq> FSM_STOPPING then nn_sinproc_handler add rm p input sw
      else nn_sinproc_shutdown rm p input sw)"

definition set_pending :: "raised_event list \<Rightarrow> iworld \<Rightarrow> iworld" where
  "set_pending es w = w\<lparr>tstate := (tstate w)\<lparr>pending := es\<rparr>\<rparr>"

definition deliver ::
  "('s \<Rightarrow> pid \<Rightarrow> (unit rc \<times> 's) option) \<Rightarrow> ('s \<Rightarrow> pid \<Rightarrow> 's option) \<Rightarrow> 's \<times> iworld \<Rightarrow> ('s \<times> iworld) option" where
  "deliver add rm sw = (case sw of (s, w) \<Rightarrow> (case pending (tstate w) of [] \<Rightarrow> Some (s, w)
     | e # es \<Rightarrow> nn_fsm_feed add rm (ev_dst e) (SRC_PEER (ev_type e) (ev_src e))
         (s, set_pending es w)))"

definition nn_sinproc_connect ::
  "('s \<Rightarrow> pid \<Rightarrow> (unit rc \<times> 's) option) \<Rightarrow> ('s \<Rightarrow> pid \<Rightarrow> 's option) \<Rightarrow> pid \<Rightarrow> pid \<Rightarrow>
   's \<times> iworld \<Rightarrow> ('s \<times> iworld) option" where
  "nn_sinproc_connect add rm p q sw = do {
     nn_assert (fsmstate (session (snd sw) p) = FSM_IDLE);
     (s, w) \<leftarrow> nn_sinproc_handler add rm p NN_FSM_START sw;
     let w = set_session p ((session w p)\<lparr>fsmstate := FSM_ACTIVE\<rparr>) w;
     w \<leftarrow> nn_fsm_raiseto (p, EV_CONNECT) q NN_SINPROC_CONNECT p w;
     Some (s, w) }"

definition nn_sinproc_accept ::
  "('s \<Rightarrow> pid \<Rightarrow> (unit rc \<times> 's) option) \<Rightarrow> ('s \<Rightarrow> pid \<Rightarrow> 's option) \<Rightarrow> pid \<Rightarrow> pid \<Rightarrow>
   's \<times> iworld \<Rightarrow> ('s \<times> iworld) option" where
  "nn_sinproc_accept add rm p q sw = (case sw of (s, w) \<Rightarrow> do {
     nn_assert (peer (session w p) = None);
     let w = set_session p ((session w p)\<lparr>peer := Some q\<rparr>) w;
     w \<leftarrow> nn_fsm_raiseto (p, EV_CONNECT) q NN_SINPROC_READY p w;
     nn_assert (fsmstate (session w p) = FSM_IDLE);
     (s, w) \<leftarrow> nn_sinproc_handler add rm p NN_FSM_START (s, w);
     let w = set_session p ((session w p)\<lparr>fsmstate := FSM_ACTIVE\<rparr>) w;
     nn_fsm_feed add rm p NN_SINPROC_ACTION_READY (s, w) })"

definition nn_sinproc_stop ::
  "('s \<Rightarrow> pid \<Rightarrow> 's option) \<Rightarrow> pid \<Rightarrow> 's \<times> iworld \<Rightarrow> ('s \<times> iworld) option" where
  "nn_sinproc_stop rm p sw = (case sw of (s, w) \<Rightarrow>
     if fsmstate (session w p) \<noteq> FSM_ACTIVE then Some (s, w)
     else nn_sinproc_shutdown rm p NN_FSM_STOP
       (s, set_session p ((session w p)\<lparr>fsmstate := FSM_STOPPING\<rparr>) w))"

section \<open>Frame facts\<close>

lemma session_simps [simp]:
  "session (set_session p x w) r = (if r = p then x else session w r)"
  "session (set_instate p i w) r = session w r" "session (set_outstate p ou w) r = session w r"
  "session (set_pipe p b w) r = session w r"
  "session (nn_fsm_raise_pipe p ev w) r = session w r" "session (add_event e w) r = session w r"
  "session (set_pending es w) r = session w r"
  by (simp_all add: set_pending_def session_def set_session_def set_instate_def set_outstate_def set_pipe_def
      nn_fsm_raise_pipe_def add_event_def)

lemma set_session_twice [simp]: "set_session p x (set_session p y w) = set_session p x w"
  by (simp add: set_session_def)

lemma pending_simps [simp]:
  "pending (tstate (set_session p x w)) = pending (tstate w)"
  "pending (tstate (nn_fsm_raise_pipe p ev w)) = pending (tstate w)"
  "pending (tstate (add_event e w)) = pending (tstate w) @ [e]"
  "pending (tstate (set_pending es w)) = es"
  by (simp_all add: set_pending_def set_session_def nn_fsm_raise_pipe_def add_event_def)

lemma pipes_simps [simp]:
  "pipes (set_session p x w) = pipes w" "pipes (add_event e w) = pipes w" "pipes (set_pending es w) = pipes w"
  by (simp_all add: set_pending_def set_session_def add_event_def)

lemma event_active_simps [simp]:
  "event_active r k (set_session p x w) = event_active r k w"
  "event_active r k (set_instate p i w) = event_active r k w"
  "event_active r k (set_outstate p ou w) = event_active r k w"
  "event_active r k (nn_fsm_raise_pipe p ev w) = event_active r k w"
  "event_active r k (add_event e w) \<longleftrightarrow> event_active r k w \<or> ev_obj e = (r, k)"
  by (auto simp: event_active_def)

lemma nn_fsm_raiseto_eq:
  "nn_fsm_raiseto obj dst typ src w = (if event_active (fst obj) (snd obj) w then None
     else Some (add_event \<lparr>ev_obj = obj, ev_dst = dst, ev_type = typ, ev_src = src\<rparr> w))"
  by (simp add: nn_fsm_raiseto_def event_active_def nn_assert_def)

section \<open>The inproc transport keeps the contract of transports\<close>

definition sess_ok :: "iworld \<Rightarrow> pid \<Rightarrow> bool" where
  "sess_ok w p \<longleftrightarrow> sstate (session w p) = SIN_ACTIVE \<and>
     (\<exists>q. peer (session w p) = Some q \<and> q \<noteq> p \<and>
       (outstate (pipes w p) = OUT_IDLE \<longrightarrow> \<not> sending (session w p) \<and> \<not> event_active q EV_SENT w) \<and>
       (receiving (session w p) \<longrightarrow> \<not> event_active q EV_RECEIVED w)) \<and>
     (\<exists>ms. mq_rep (msgqueue (session w p)) ms \<and> (instate (pipes w p) = IN_IDLE \<longrightarrow> ms \<noteq> []))"

abbreviation active_pipe :: "'x world \<Rightarrow> pid \<Rightarrow> bool" where
  "active_pipe w p \<equiv> pstate (pipes w p) = PIPE_ACTIVE"

definition inproc_inv :: "iworld \<Rightarrow> bool" where
  "inproc_inv w \<longleftrightarrow> (\<forall>p. active_pipe w p \<longrightarrow> sess_ok w p) \<and>
     (\<forall>p p'. active_pipe w p \<longrightarrow> active_pipe w p' \<longrightarrow> peer (session w p) = peer (session w p') \<longrightarrow> p = p')"

lemma sinproc_send_ok:
  assumes inv: "inproc_inv w" and p: "can_send w p"
  shows "\<exists>w'. nn_sinproc_send (set_outstate p OUT_SENDING w) p m = Some (Inr 0, w') \<and> pipes w' = pipes (set_outstate p OUT_SENDING w) \<and>
     inproc_inv (set_outstate p OUT_ASYNC w')"
proof -
  have "sess_ok w p" using inv p by (simp add: inproc_inv_def)
  then obtain q where q: "sstate (session w p) = SIN_ACTIVE" "peer (session w p) = Some q" "q \<noteq> p"
    "\<not> sending (session w p)" "\<not> event_active q EV_SENT w"
    using p by (auto simp: sess_ok_def)
  let ?w = "add_event \<lparr>ev_obj = (q, EV_SENT), ev_dst = q, ev_type = NN_SINPROC_SENT, ev_src = p\<rparr>
    (set_session p ((session w p)\<lparr>smsg := merge_msg m, sending := True\<rparr>) (set_outstate p OUT_SENDING w))"
  have "nn_sinproc_send (set_outstate p OUT_SENDING w) p m = Some (Inr 0, ?w)"
    using q by (simp add: nn_sinproc_send_def nn_fsm_raiseto_eq Let_def)
  moreover have "inproc_inv (set_outstate p OUT_ASYNC ?w)"
  proof -
    have other: "peer (session w r) \<noteq> Some q" if "active_pipe w r" "r \<noteq> p" for r
      using inv that p q(2) by (metis inproc_inv_def)
    have ok: "sess_ok w r" if "active_pipe w r" for r
      using inv that by (simp add: inproc_inv_def)
    have "sess_ok (set_outstate p OUT_ASYNC ?w) r" if r: "active_pipe w r" for r
      using ok [OF r] other [OF r] q by (auto simp: sess_ok_def)
    moreover have "peer (session (set_outstate p OUT_ASYNC ?w) r) = peer (session w r)" for r
      by simp
    ultimately show ?thesis
      using inv unfolding inproc_inv_def by simp
  qed
  ultimately show ?thesis by auto
qed

lemma mq_rep_room: "mq_rep q (m # ms) \<Longrightarrow> mq_rep q' ms \<Longrightarrow> count q' + 1 \<noteq> 0"
proof -
  assume "mq_rep q (m # ms)" "mq_rep q' ms"
  then have "unat (count q) = Suc (length ms)" "unat (count q') = length ms"
    by (auto simp: mq_rep_def mq_stats_def)
  then have "Suc (unat (count q')) < 18446744073709551616"
    using unat_less_u64 [of "count q"] by simp
  then have "unat (count q' + 1) = Suc (unat (count q'))"
    by (simp add: unat_plus_if')
  then show ?thesis by auto
qed

text \<open>Sending to a queue either leaves it as it is or appends.\<close>

lemma nn_msgqueue_send_cases:
  assumes "mq_rep q ms" "count q + 1 \<noteq> 0"
  obtains "nn_msgqueue_send q m = Some (Inl EAGAIN, q)" "ms \<noteq> []"
  | q' where "nn_msgqueue_send q m = Some (Inr (), q')" "mq_rep q' (ms @ [m])"
proof (cases "count q > 0 \<and> mem q + msgsz m \<ge> maxmem q")
  case True
  then have "ms \<noteq> []"
    using assms(1) unat_gt_0 [of "count q"] by (auto simp: mq_rep_def mq_stats_def)
  then show thesis using that(1) True by (simp add: nn_msgqueue_send_def)
next
  case False
  then show thesis using nn_msgqueue_send_rep [OF assms(1) False assms(2)] that(2) by blast
qed

text \<open>What the lingering message leaves behind: the queue, the flag and a waiting event.\<close>

lemma sinproc_unblock_ok:
  assumes p: "sstate (session w p) = SIN_ACTIVE" "peer (session w p) = Some q" "q \<noteq> p"
    and rcv: "receiving (session w p) \<longrightarrow> \<not> event_active q EV_RECEIVED w"
    and mq: "mq_rep (msgqueue (session w p)) ms" "count (msgqueue (session w p)) + 1 \<noteq> 0"
  obtains w' ms' where "sinproc_unblock w p = Some w'" "pipes w' = pipes w"
    "mq_rep (msgqueue (session w' p)) ms'"
    "\<And>r. sstate (session w' r) = sstate (session w r) \<and> peer (session w' r) = peer (session w r) \<and>
        sending (session w' r) = sending (session w r)"
    "\<And>r. r \<noteq> p \<Longrightarrow> receiving (session w' r) = receiving (session w r) \<and> msgqueue (session w' r) = msgqueue (session w r)"
    "\<And>r k. event_active r k w' \<longrightarrow> event_active r k w \<or> (r = q \<and> k = EV_RECEIVED)"
    "receiving (session w' p) \<longrightarrow> \<not> event_active q EV_RECEIVED w'"
proof (cases "receiving (session w p)")
  case False
  then show thesis
    using that [of w ms] mq(1) by (simp add: sinproc_unblock_def Let_def)
next
  case True
  show thesis
  proof (rule nn_msgqueue_send_cases [OF mq, of "smsg (session w q)"])
    assume "nn_msgqueue_send (msgqueue (session w p)) (smsg (session w q)) = Some (Inl EAGAIN, msgqueue (session w p))"
    then show thesis
      using that [of "set_session p (session w p) w" ms] True p mq(1) rcv
      by (simp add: sinproc_unblock_def Let_def)
  next
    fix mq' assume mq': "nn_msgqueue_send (msgqueue (session w p)) (smsg (session w q)) = Some (Inr (), mq')"
      "mq_rep mq' (ms @ [smsg (session w q)])"
    let ?w1 = "set_session q ((session w q)\<lparr>smsg := empty_msg\<rparr>) (set_session p ((session w p)\<lparr>msgqueue := mq'\<rparr>) w)"
    let ?w2 = "add_event \<lparr>ev_obj = (q, EV_RECEIVED), ev_dst = q, ev_type = NN_SINPROC_RECEIVED, ev_src = p\<rparr> ?w1"
    let ?w3 = "set_session p ((session w p)\<lparr>msgqueue := mq', receiving := False\<rparr>) ?w2"
    have "sinproc_unblock w p = Some ?w3"
      using True p rcv mq'(1) by (simp add: sinproc_unblock_def Let_def nn_fsm_raiseto_eq)
    then show thesis
      using that [of ?w3 "ms @ [smsg (session w q)]"] p mq'(2) by simp
  qed
qed

lemma sinproc_recv_ok:
  assumes inv: "inproc_inv w" and p: "can_recv w p"
  shows "\<exists>m w'. nn_sinproc_recv (set_instate p IN_RECEIVING w) p = Some (Inr (0, m), w') \<and>
     (pipes w' = pipes (set_instate p IN_RECEIVED (set_instate p IN_RECEIVING w)) \<and> inproc_inv (set_instate p IN_IDLE w') \<or>
      pipes w' = pipes (set_instate p IN_RECEIVING w) \<and> inproc_inv (set_instate p IN_ASYNC w'))"
proof -
  have "sess_ok w p" using inv p by (simp add: inproc_inv_def)
  then obtain q m ms where q: "sstate (session w p) = SIN_ACTIVE" "peer (session w p) = Some q" "q \<noteq> p"
    "receiving (session w p) \<longrightarrow> \<not> event_active q EV_RECEIVED w" and mq: "mq_rep (msgqueue (session w p)) (m # ms)"
    using p by (auto simp: sess_ok_def neq_Nil_conv)
  obtain mq' where mq': "nn_msgqueue_recv (msgqueue (session w p)) = Some (Inr m, mq')" "mq_rep mq' ms"
    using nn_msgqueue_recv_rep [OF mq] by blast
  let ?w = "set_session p ((session w p)\<lparr>msgqueue := mq'\<rparr>) (set_instate p IN_RECEIVING w)"
  obtain w1 ms' where w1: "sinproc_unblock ?w p = Some w1" "pipes w1 = pipes ?w" "mq_rep (msgqueue (session w1 p)) ms'"
    "\<And>r. sstate (session w1 r) = sstate (session ?w r) \<and> peer (session w1 r) = peer (session ?w r) \<and>
        sending (session w1 r) = sending (session ?w r)"
    "\<And>r. r \<noteq> p \<Longrightarrow> receiving (session w1 r) = receiving (session ?w r) \<and> msgqueue (session w1 r) = msgqueue (session ?w r)"
    "\<And>r k. event_active r k w1 \<longrightarrow> event_active r k ?w \<or> (r = q \<and> k = EV_RECEIVED)"
    "receiving (session w1 p) \<longrightarrow> \<not> event_active q EV_RECEIVED w1"
    by (rule sinproc_unblock_ok [of ?w p q ms]) (use q mq' mq_rep_room [OF mq mq'(2)] in auto)
  have inv': "inproc_inv (set_instate p i w2)"
    if w2: "w2 = w1 \<or> w2 = set_instate p IN_RECEIVED w1" and i: "i = IN_IDLE \<longrightarrow> ms' \<noteq> []" for i w2
  proof -
    have same: "session w2 r = session w1 r" "event_active r k w2 = event_active r k w1"
      "outstate (pipes w2 r) = outstate (pipes w r)" "pstate (pipes w2 r) = pstate (pipes w r)"
      "r \<noteq> p \<Longrightarrow> instate (pipes w2 r) = instate (pipes w r)" for r k
      using w2 w1(2) by auto
    have other: "peer (session w r) \<noteq> Some q" if "active_pipe w r" "r \<noteq> p" for r
      using inv that p q(2) by (metis inproc_inv_def)
    have ok: "sess_ok w r" if "active_pipe w r" for r
      using inv that by (simp add: inproc_inv_def)
    have "sess_ok (set_instate p i w2) r" if r: "active_pipe w r" for r
    proof (cases "r = p")
      case True
      then show ?thesis
        using ok [OF r] q w1(3,4,6,7) i by (fastforce simp: sess_ok_def same)
    next
      case False
      then show ?thesis
        using ok [OF r] other [OF r] w1(4,5,6) by (fastforce simp: sess_ok_def same)
    qed
    moreover have "peer (session w1 r) = peer (session w r)" for r
      using w1(4) [of r] by simp
    ultimately show ?thesis
      using inv unfolding inproc_inv_def by (simp add: same)
  qed
  show ?thesis
  proof (cases "nn_msgqueue_empty (msgqueue (session w1 p))")
    case True
    have "nn_sinproc_recv (set_instate p IN_RECEIVING w) p = Some (Inr (0, m), w1)"
      using q(1) mq'(1) w1(1) True by (simp add: nn_sinproc_recv_def)
    then show ?thesis
      using inv' [of w1 IN_ASYNC] w1(2) by simp
  next
    case False
    then have "ms' \<noteq> []"
      using w1(3) by (auto simp: nn_msgqueue_empty_def mq_rep_def mq_stats_def unat_eq_0)
    moreover have "nn_sinproc_recv (set_instate p IN_RECEIVING w) p = Some (Inr (0, m), set_instate p IN_RECEIVED w1)"
      using q(1) mq'(1) w1(1,2) False by (simp add: nn_sinproc_recv_def nn_pipebase_received_def)
    moreover have "pipes (set_instate p IN_RECEIVED w1) = pipes (set_instate p IN_RECEIVED (set_instate p IN_RECEIVING w))"
      using w1(2) by (simp add: set_instate_def)
    ultimately show ?thesis
      using inv' [of "set_instate p IN_RECEIVED w1" IN_IDLE] by blast
  qed
qed

interpretation inproc: transport nn_sinproc_pipebase_vfptr inproc_inv
proof
  fix w p m assume w: "inproc_inv w" "can_send w p"
  obtain w' where "nn_sinproc_send (set_outstate p OUT_SENDING w) p m = Some (Inr 0, w')"
    "pipes w' = pipes (set_outstate p OUT_SENDING w)" "inproc_inv (set_outstate p OUT_ASYNC w')"
    using sinproc_send_ok [OF w, of m] by blast
  then show "\<exists>rc w'. vsend nn_sinproc_pipebase_vfptr (set_outstate p OUT_SENDING w) p m = Some (Inr rc, w') \<and>
      \<not> released rc \<and> (\<forall>q. pstate (pipes w' q) = pstate (pipes w q)) \<and>
      (\<forall>q. instate (pipes w' q) = instate (pipes w q)) \<and>
      (\<forall>q. q \<noteq> p \<longrightarrow> outstate (pipes w' q) = outstate (pipes w q)) \<and>
      (outstate (pipes w' p) = OUT_SENT \<and> inproc_inv (set_outstate p OUT_IDLE w') \<or>
       outstate (pipes w' p) = OUT_SENDING \<and> inproc_inv (set_outstate p OUT_ASYNC w'))"
    by (simp add: nn_sinproc_pipebase_vfptr_def released_iff)
next
  fix w p assume w: "inproc_inv w" "can_recv w p"
  obtain m w' where w': "nn_sinproc_recv (set_instate p IN_RECEIVING w) p = Some (Inr (0, m), w')"
    and "pipes w' = pipes (set_instate p IN_RECEIVED (set_instate p IN_RECEIVING w)) \<and> inproc_inv (set_instate p IN_IDLE w') \<or>
      pipes w' = pipes (set_instate p IN_RECEIVING w) \<and> inproc_inv (set_instate p IN_ASYNC w')"
    using sinproc_recv_ok [OF w] by metis
  from this(2) show "\<exists>rc m w'. vrecv nn_sinproc_pipebase_vfptr (set_instate p IN_RECEIVING w) p = Some (Inr (rc, m), w') \<and>
      \<not> released rc \<and> (\<forall>q. pstate (pipes w' q) = pstate (pipes w q)) \<and>
      (\<forall>q. outstate (pipes w' q) = outstate (pipes w q)) \<and>
      (\<forall>q. q \<noteq> p \<longrightarrow> instate (pipes w' q) = instate (pipes w q)) \<and>
      (instate (pipes w' p) = IN_RECEIVED \<and> inproc_inv (set_instate p IN_IDLE w') \<or>
       instate (pipes w' p) = IN_RECEIVING \<and> inproc_inv (set_instate p IN_ASYNC w'))"
    using w' by (intro exI [of _ 0] exI [of _ m] exI [of _ w'])
      (elim disjE; simp add: nn_sinproc_pipebase_vfptr_def released_iff)
qed

end
