(* ===== verification/Nn_Inproc_Delivery.thy ===== *)
theory Nn_Inproc_Delivery
  imports Nn_Inproc
begin

text \<open>
  End-to-end delivery over a connected pair of inproc sessions (\<^verbatim>\<open>sinproc.c\<close> over
  \<^verbatim>\<open>msgqueue.c\<close> and \<^verbatim>\<open>core/pipe.c\<close>): whatever the interleaving of sends, receives and event
  deliveries at both ends, nothing aborts and every message arrives once and in order.
\<close>

section \<open>Runs of a connected pair\<close>

datatype inproc_op = ISend pid sp_msg | IRecv pid | IDeliver

text \<open>The world with the messages sent and received so far at every pipe.  A send or receive
  the pipe is not ready for is not attempted, as the socket types do.\<close>

record inproc_run =
  iw :: iworld
  sent :: "pid \<Rightarrow> sp_msg list"
  got :: "pid \<Rightarrow> sp_msg list"

text \<open>The socket side of start and stop plays no role once the pair is connected.\<close>

definition no_add :: "unit \<Rightarrow> pid \<Rightarrow> (unit rc \<times> unit) option" where
  "no_add s p = Some (Inr (), s)"

definition no_rm :: "unit \<Rightarrow> pid \<Rightarrow> unit option" where
  "no_rm s p = Some s"

fun inproc_step :: "inproc_op \<Rightarrow> inproc_run \<Rightarrow> inproc_run option" where
  "inproc_step (ISend p m) r =
     (if can_send (iw r) p then do {
        (rc, w) \<leftarrow> nn_pipe_send nn_sinproc_pipebase_vfptr (iw r) p m;
        Some (r\<lparr>iw := w, sent := (sent r)(p := sent r p @ [merge_msg m])\<rparr>) }
      else Some r)"
| "inproc_step (IRecv p) r =
     (if can_recv (iw r) p then do {
        (rc, m, w) \<leftarrow> nn_pipe_recv nn_sinproc_pipebase_vfptr (iw r) p;
        Some (r\<lparr>iw := w, got := (got r)(p := got r p @ [m])\<rparr>) }
      else Some r)"
| "inproc_step IDeliver r = do {
     (_, w) \<leftarrow> deliver no_add no_rm ((), iw r);
     Some (r\<lparr>iw := w\<rparr>) }"

fun inproc_exec :: "inproc_op list \<Rightarrow> inproc_run \<Rightarrow> inproc_run option" where
  "inproc_exec [] r = Some r"
| "inproc_exec (x # xs) r = inproc_step x r \<bind> inproc_exec xs"

section \<open>One direction of the connection\<close>

text \<open>What one direction consists of: the receiver's queue, the sender's message slot, whether
  \<open>SENT\<close> waits at the receiver, the receiver's flag, whether \<open>RECEIVED\<close> waits at the sender,
  and the pipe states.\<close>

record direction =
  d_queue :: nn_msgqueue
  d_slot :: sp_msg
  d_sent :: bool
  d_blocked :: bool
  d_acked :: bool
  d_in :: pipe_instate
  d_out :: pipe_outstate
  d_sending :: bool

definition direction_of :: "iworld \<Rightarrow> pid \<Rightarrow> pid \<Rightarrow> direction" where
  "direction_of w p q = \<lparr>d_queue = msgqueue (session w q), d_slot = smsg (session w p),
     d_sent = event_active q EV_SENT w, d_blocked = receiving (session w q),
     d_acked = event_active p EV_RECEIVED w, d_in = instate (pipes w q), d_out = outstate (pipes w p),
     d_sending = sending (session w p)\<rparr>"

text \<open>\<open>ms\<close> are the messages in the receiver's queue.\<close>

definition dir_ok :: "direction \<Rightarrow> sp_msg list \<Rightarrow> sp_msg list \<Rightarrow> sp_msg list \<Rightarrow> bool" where
  "dir_ok d ms st gt \<longleftrightarrow> mq_rep (d_queue d) ms \<and>
     st = gt @ ms @ (if d_sent d \<or> d_blocked d then [d_slot d] else []) \<and>
     (if ms = [] then d_in d = IN_ASYNC \<and> \<not> d_blocked d else d_in d = IN_IDLE) \<and>
     (if d_sending d then d_out d = OUT_ASYNC \<and>
        (d_sent d \<and> \<not> d_blocked d \<and> \<not> d_acked d \<or> \<not> d_sent d \<and> d_blocked d \<and> \<not> d_acked d \<or>
         \<not> d_sent d \<and> \<not> d_blocked d \<and> d_acked d)
      else d_out d = OUT_IDLE \<and> \<not> d_sent d \<and> \<not> d_blocked d \<and> \<not> d_acked d)"

definition good_event :: "pid \<Rightarrow> pid \<Rightarrow> raised_event \<Rightarrow> bool" where
  "good_event p q e \<longleftrightarrow> ev_dst e \<in> {p, q} \<and>
     (ev_obj e = (ev_dst e, EV_SENT) \<and> ev_type e = NN_SINPROC_SENT \<or>
      ev_obj e = (ev_dst e, EV_RECEIVED) \<and> ev_type e = NN_SINPROC_RECEIVED)"

definition linked :: "iworld \<Rightarrow> pid \<Rightarrow> pid \<Rightarrow> bool" where
  "linked w p q \<longleftrightarrow> p \<noteq> q \<and> active_pipe w p \<and> sstate (session w p) = SIN_ACTIVE \<and>
     fsmstate (session w p) = FSM_ACTIVE \<and> peer (session w p) = Some q"

definition pair_ok :: "pid \<Rightarrow> pid \<Rightarrow> inproc_run \<Rightarrow> bool" where
  "pair_ok p q r \<longleftrightarrow> linked (iw r) p q \<and> linked (iw r) q p \<and>
     (\<exists>ms. dir_ok (direction_of (iw r) p q) ms (sent r p) (got r q)) \<and>
     (\<exists>ms. dir_ok (direction_of (iw r) q p) ms (sent r q) (got r p)) \<and>
     list_all (good_event p q) (pending (tstate (iw r))) \<and> distinct (map ev_obj (pending (tstate (iw r))))"

lemma good_event_sym: "good_event p q = good_event q p"
  by (auto simp: good_event_def)

lemma pair_ok_sym: "pair_ok p q r \<longleftrightarrow> pair_ok q p r"
  by (auto simp: pair_ok_def good_event_sym)

section \<open>Steps keep both directions\<close>

text \<open>The one-directional core of a send, a receive and the two deliveries.\<close>

lemma dir_send:
  assumes "dir_ok d ms st gt" "d_out d = OUT_IDLE"
  shows "dir_ok (d\<lparr>d_slot := m, d_sent := True, d_out := OUT_ASYNC, d_sending := True\<rparr>) ms (st @ [m]) gt"
  using assms by (auto simp: dir_ok_def split: if_splits)

lemma dir_acked:
  assumes "dir_ok d ms st gt" "d_acked d"
  shows "d_sending d \<and> d_out d = OUT_ASYNC \<and>
    dir_ok (d\<lparr>d_acked := False, d_out := OUT_IDLE, d_sending := False\<rparr>) ms st gt"
  using assms by (auto simp: dir_ok_def split: if_splits)

lemma dir_deliver_refused:
  assumes "dir_ok d ms st gt" "d_sent d" "ms \<noteq> []"
  shows "dir_ok (d\<lparr>d_sent := False, d_blocked := True\<rparr>) ms st gt"
  using assms by (auto simp: dir_ok_def split: if_splits)

lemma dir_deliver_accepted:
  assumes "dir_ok d ms st gt" "d_sent d" "mq_rep mq' (ms @ [d_slot d])"
  shows "dir_ok (d\<lparr>d_queue := mq', d_slot := x, d_sent := False, d_acked := True, d_in := IN_IDLE\<rparr>) (ms @ [d_slot d]) st gt"
  using assms by (auto simp: dir_ok_def split: if_splits)

lemma dir_recv:
  assumes "dir_ok d (m # ms) st gt" "mq_rep mq' ms" "\<not> d_blocked d \<or> ms \<noteq> []"
  shows "dir_ok (d\<lparr>d_queue := mq', d_in := (if ms = [] then IN_ASYNC else IN_IDLE)\<rparr>) ms st (gt @ [m])"
  using assms by (auto simp: dir_ok_def split: if_splits)

lemma dir_recv_unblock:
  assumes "dir_ok d (m # ms) st gt" "d_blocked d" "mq_rep mq' (ms @ [d_slot d])"
  shows "dir_ok (d\<lparr>d_queue := mq', d_slot := x, d_blocked := False, d_acked := True, d_in := IN_IDLE\<rparr>)
    (ms @ [d_slot d]) st (gt @ [m])"
  using assms by (auto simp: dir_ok_def split: if_splits)

text \<open>A send.\<close>

lemma pair_send:
  assumes ok: "pair_ok p q r" and p: "can_send (iw r) p"
  shows "\<exists>r'. inproc_step (ISend p m) r = Some r' \<and> pair_ok p q r'"
proof -
  let ?w = "iw r"
  obtain ms1 ms2 where l: "linked ?w p q" "linked ?w q p"
    and d1: "dir_ok (direction_of ?w p q) ms1 (sent r p) (got r q)"
    and d2: "dir_ok (direction_of ?w q p) ms2 (sent r q) (got r p)"
    and ev: "list_all (good_event p q) (pending (tstate ?w))" "distinct (map ev_obj (pending (tstate ?w)))"
    using ok by (auto simp: pair_ok_def)
  have nq: "\<not> sending (session ?w p)" "\<not> event_active q EV_SENT ?w"
    using d1 p by (auto simp: dir_ok_def direction_of_def split: if_splits)
  let ?e = "\<lparr>ev_obj = (q, EV_SENT), ev_dst = q, ev_type = NN_SINPROC_SENT, ev_src = p\<rparr>"
  let ?w' = "set_outstate p OUT_ASYNC (add_event ?e (set_session p
    ((session ?w p)\<lparr>smsg := merge_msg m, sending := True\<rparr>) (set_outstate p OUT_SENDING ?w)))"
  let ?r = "r\<lparr>iw := ?w', sent := (sent r)(p := sent r p @ [merge_msg m])\<rparr>"
  have "inproc_step (ISend p m) r = Some ?r"
    using l p nq by (simp add: nn_pipe_send_def nn_sinproc_pipebase_vfptr_def nn_sinproc_send_def linked_def
        nn_fsm_raiseto_eq Let_def)
  moreover have "direction_of ?w' p q = (direction_of ?w p q)\<lparr>d_slot := merge_msg m, d_sent := True,
      d_out := OUT_ASYNC, d_sending := True\<rparr>"
    using l by (simp add: direction_of_def linked_def)
  moreover have "direction_of ?w' q p = direction_of ?w q p"
    using l by (simp add: direction_of_def linked_def)
  moreover have "linked ?w' p q" "linked ?w' q p"
    using l by (auto simp: linked_def)
  moreover have "list_all (good_event p q) (pending (tstate ?w'))" "distinct (map ev_obj (pending (tstate ?w')))"
    using ev nq(2) by (auto simp: good_event_def event_active_def)
  ultimately show ?thesis
    using dir_send [OF d1, of "merge_msg m"] d2 p l by (auto simp: pair_ok_def direction_of_def linked_def)
qed

text \<open>A receive.\<close>

lemma mq_rep_empty_iff: "mq_rep q ms \<Longrightarrow> nn_msgqueue_empty q \<longleftrightarrow> ms = []"
  by (auto simp: nn_msgqueue_empty_def mq_rep_def mq_stats_def unat_eq_0 simp flip: length_0_conv)

lemma pair_okI:
  "linked (iw r) p q \<Longrightarrow> linked (iw r) q p \<Longrightarrow> dir_ok (direction_of (iw r) p q) ms (sent r p) (got r q) \<Longrightarrow>
   dir_ok (direction_of (iw r) q p) ms' (sent r q) (got r p) \<Longrightarrow>
   list_all (good_event p q) (pending (tstate (iw r))) \<Longrightarrow> distinct (map ev_obj (pending (tstate (iw r)))) \<Longrightarrow>
   pair_ok p q r"
  by (auto simp: pair_ok_def)

text \<open>The receiving session's part, where the queue and the flag of the session and the peer's
  message slot are as given.\<close>

lemma recv_plain:
  assumes "linked w q p" "can_recv w q" "nn_msgqueue_recv (msgqueue (session w q)) = Some (Inr m, mq')"
    "\<not> receiving (session w q) \<or>
     nn_msgqueue_send mq' (smsg (session w p)) = Some (Inl EAGAIN, mq')"
  shows "\<exists>rc. nn_pipe_recv nn_sinproc_pipebase_vfptr w q = Some (rc, m,
      let w1 = set_session q ((session w q)\<lparr>msgqueue := mq'\<rparr>) (set_instate q IN_RECEIVING w)
      in if nn_msgqueue_empty mq' then set_instate q IN_ASYNC w1
         else set_instate q IN_IDLE (set_instate q IN_RECEIVED w1))"
proof -
  let ?w1 = "set_session q ((session w q)\<lparr>msgqueue := mq'\<rparr>) (set_instate q IN_RECEIVING w)"
  have "sinproc_unblock ?w1 q = Some ?w1"
    using assms by (auto simp: sinproc_unblock_def linked_def Let_def)
  then show ?thesis
    using assms by (simp add: nn_pipe_recv_def nn_sinproc_pipebase_vfptr_def nn_sinproc_recv_def linked_def
        nn_pipebase_received_def Let_def)
qed

lemma recv_unblock:
  assumes "linked w q p" "can_recv w q" "nn_msgqueue_recv (msgqueue (session w q)) = Some (Inr m, mq')"
    "receiving (session w q)" "nn_msgqueue_send mq' (smsg (session w p)) = Some (Inr (), mq'')"
    "\<not> event_active p EV_RECEIVED w" "\<not> nn_msgqueue_empty mq''"
  shows "\<exists>rc. nn_pipe_recv nn_sinproc_pipebase_vfptr w q = Some (rc, m,
      set_instate q IN_IDLE (set_instate q IN_RECEIVED (set_session q ((session w q)\<lparr>msgqueue := mq'', receiving := False\<rparr>)
        (add_event \<lparr>ev_obj = (p, EV_RECEIVED), ev_dst = p, ev_type = NN_SINPROC_RECEIVED, ev_src = q\<rparr>
          (set_session p ((session w p)\<lparr>smsg := empty_msg\<rparr>)
            (set_session q ((session w q)\<lparr>msgqueue := mq''\<rparr>) (set_instate q IN_RECEIVING w)))))))"
proof -
  let ?w1 = "set_session q ((session w q)\<lparr>msgqueue := mq'\<rparr>) (set_instate q IN_RECEIVING w)"
  have "sinproc_unblock ?w1 q = Some (set_session q ((session w q)\<lparr>msgqueue := mq'', receiving := False\<rparr>)
        (add_event \<lparr>ev_obj = (p, EV_RECEIVED), ev_dst = p, ev_type = NN_SINPROC_RECEIVED, ev_src = q\<rparr>
          (set_session p ((session w p)\<lparr>smsg := empty_msg\<rparr>) (set_session q ((session w q)\<lparr>msgqueue := mq''\<rparr>)
            (set_instate q IN_RECEIVING w)))))"
    using assms by (simp add: sinproc_unblock_def linked_def Let_def nn_fsm_raiseto_eq)
  then show ?thesis
    using assms by (simp add: nn_pipe_recv_def nn_sinproc_pipebase_vfptr_def nn_sinproc_recv_def linked_def
        nn_pipebase_received_def Let_def)
qed

lemma pair_recv:
  assumes ok: "pair_ok p q r" and q: "can_recv (iw r) q"
  shows "\<exists>r'. inproc_step (IRecv q) r = Some r' \<and> pair_ok p q r'"
proof -
  let ?w = "iw r"
  obtain ms1 ms2 where l: "linked ?w p q" "linked ?w q p"
    and d1: "dir_ok (direction_of ?w p q) ms1 (sent r p) (got r q)"
    and d2: "dir_ok (direction_of ?w q p) ms2 (sent r q) (got r p)"
    and ev: "list_all (good_event p q) (pending (tstate ?w))" "distinct (map ev_obj (pending (tstate ?w)))"
    using ok by (auto simp: pair_ok_def)
  have pq: "p \<noteq> q" using l by (simp add: linked_def)
  obtain m ms where ms1: "ms1 = m # ms"
    using d1 q by (cases ms1) (auto simp: dir_ok_def direction_of_def)
  have mq: "mq_rep (msgqueue (session ?w q)) (m # ms)"
    using d1 by (simp add: dir_ok_def direction_of_def ms1)
  obtain mq' where mq': "nn_msgqueue_recv (msgqueue (session ?w q)) = Some (Inr m, mq')" "mq_rep mq' ms"
    using nn_msgqueue_recv_rep [OF mq] by blast
  have step: "inproc_step (IRecv q) r = Some (r\<lparr>iw := w', got := (got r)(q := got r q @ [m])\<rparr>)"
    if "nn_pipe_recv nn_sinproc_pipebase_vfptr ?w q = Some (rc, m, w')" for rc w'
    using that q by simp
  consider (plain) "\<not> receiving (session ?w q) \<or> nn_msgqueue_send mq' (smsg (session ?w p)) = Some (Inl EAGAIN, mq') \<and> ms \<noteq> []"
    | (accepted) mq'' where "receiving (session ?w q)" "nn_msgqueue_send mq' (smsg (session ?w p)) = Some (Inr (), mq'')"
        "mq_rep mq'' (ms @ [smsg (session ?w p)])"
    using nn_msgqueue_send_cases [OF mq'(2) mq_rep_room [OF mq mq'(2)], of "smsg (session ?w p)"] by metis
  then show ?thesis
  proof cases
    case accepted
    have na: "\<not> event_active p EV_RECEIVED ?w"
      using d1 accepted(1) by (auto simp: dir_ok_def direction_of_def split: if_splits)
    have ne: "\<not> nn_msgqueue_empty mq''" using mq_rep_empty_iff [OF accepted(3)] by simp
    let ?w' = "set_instate q IN_IDLE (set_instate q IN_RECEIVED (set_session q ((session ?w q)\<lparr>msgqueue := mq'', receiving := False\<rparr>)
        (add_event \<lparr>ev_obj = (p, EV_RECEIVED), ev_dst = p, ev_type = NN_SINPROC_RECEIVED, ev_src = q\<rparr>
          (set_session p ((session ?w p)\<lparr>smsg := empty_msg\<rparr>)
            (set_session q ((session ?w q)\<lparr>msgqueue := mq''\<rparr>) (set_instate q IN_RECEIVING ?w))))))"
    obtain rc where "nn_pipe_recv nn_sinproc_pipebase_vfptr ?w q = Some (rc, m, ?w')"
      using recv_unblock [OF l(2) q mq'(1) accepted(1,2) na ne] by blast
    note st = step [OF this]
    have dir: "direction_of ?w' p q = (direction_of ?w p q)\<lparr>d_queue := mq'', d_slot := empty_msg,
        d_blocked := False, d_acked := True, d_in := IN_IDLE\<rparr>" "direction_of ?w' q p = direction_of ?w q p"
      using pq by (simp_all add: direction_of_def)
    have bl: "d_blocked (direction_of ?w p q)" "d_slot (direction_of ?w p q) = smsg (session ?w p)"
      using accepted by (simp_all add: direction_of_def)
    have new: "dir_ok (direction_of ?w' p q) (ms @ [smsg (session ?w p)]) (sent r p) (got r q @ [m])"
      unfolding dir using dir_recv_unblock [OF d1 [unfolded ms1] bl(1), unfolded bl(2), OF accepted(3)] .
    have "pair_ok p q (r\<lparr>iw := ?w', got := (got r)(q := got r q @ [m])\<rparr>)"
    proof (rule pair_okI [where ms' = ms2])
      show "dir_ok (direction_of (iw (r\<lparr>iw := ?w', got := (got r)(q := got r q @ [m])\<rparr>)) p q) (ms @ [smsg (session ?w p)])
         (sent (r\<lparr>iw := ?w', got := (got r)(q := got r q @ [m])\<rparr>) p) (got (r\<lparr>iw := ?w', got := (got r)(q := got r q @ [m])\<rparr>) q)"
        using new by simp
    qed (use l d2 ev na pq dir(2) in \<open>auto simp: linked_def good_event_def event_active_def\<close>)
    then show ?thesis using st by blast
  next
    case plain
    let ?w1 = "set_session q ((session ?w q)\<lparr>msgqueue := mq'\<rparr>) (set_instate q IN_RECEIVING ?w)"
    let ?w' = "if ms = [] then set_instate q IN_ASYNC ?w1 else set_instate q IN_IDLE (set_instate q IN_RECEIVED ?w1)"
    have "\<exists>rc. nn_pipe_recv nn_sinproc_pipebase_vfptr ?w q = Some (rc, m, ?w')"
      using recv_plain [OF l(2) q mq'(1)] plain mq_rep_empty_iff [OF mq'(2)] unfolding Let_def by auto
    then obtain rc where "nn_pipe_recv nn_sinproc_pipebase_vfptr ?w q = Some (rc, m, ?w')" ..
    note st = step [OF this]
    have dir: "direction_of ?w' p q = (direction_of ?w p q)\<lparr>d_queue := mq', d_in := (if ms = [] then IN_ASYNC else IN_IDLE)\<rparr>"
      "direction_of ?w' q p = direction_of ?w q p"
      using pq by (simp_all add: direction_of_def)
    have "\<not> d_blocked (direction_of ?w p q) \<or> ms \<noteq> []"
      using plain by (auto simp: direction_of_def)
    then have new: "dir_ok (direction_of ?w' p q) ms (sent r p) (got r q @ [m])"
      unfolding dir using dir_recv [OF d1 [unfolded ms1] mq'(2)] by blast
    have "pair_ok p q (r\<lparr>iw := ?w', got := (got r)(q := got r q @ [m])\<rparr>)"
      by (rule pair_okI [where ms = ms and ms' = ms2]) (use new l d2 ev pq dir(2) in \<open>auto simp: linked_def\<close>)
    then show ?thesis using st by blast
  qed
qed

text \<open>Delivery of a \<open>SENT\<close> and of a \<open>RECEIVED\<close> event.\<close>

lemma event_active_pop:
  assumes "pending (tstate w) = e # es" "distinct (map ev_obj (pending (tstate w)))"
  shows "event_active r k (set_pending es w) \<longleftrightarrow> event_active r k w \<and> (r, k) \<noteq> ev_obj e"
  using assms by (auto simp: event_active_def)

lemma linked_feed:
  assumes "linked w q p"
  shows "nn_fsm_feed add rm q (SRC_PEER NN_SINPROC_SENT src) (s, w) = map_option (Pair s) (sinproc_on_sent w q)"
    "nn_fsm_feed add rm q (SRC_PEER NN_SINPROC_RECEIVED src) (s, w) = map_option (Pair s) (sinproc_on_received w q)"
  using assms by (simp_all add: nn_fsm_feed_def nn_sinproc_handler_def linked_def)

lemma pair_deliver_received:
  assumes ok: "pair_ok p q r" and e: "pending (tstate (iw r)) = e # es" "ev_dst e = p" "ev_type e = NN_SINPROC_RECEIVED"
  shows "\<exists>r'. inproc_step IDeliver r = Some r' \<and> pair_ok p q r'"
proof -
  let ?w = "iw r"
  obtain ms1 ms2 where l: "linked ?w p q" "linked ?w q p"
    and d1: "dir_ok (direction_of ?w p q) ms1 (sent r p) (got r q)"
    and d2: "dir_ok (direction_of ?w q p) ms2 (sent r q) (got r p)"
    and ev: "list_all (good_event p q) (pending (tstate ?w))" "distinct (map ev_obj (pending (tstate ?w)))"
    using ok by (auto simp: pair_ok_def)
  have pq: "p \<noteq> q" using l by (simp add: linked_def)
  have obj: "ev_obj e = (p, EV_RECEIVED)"
    using ev(1) e by (auto simp: good_event_def)
  then have "d_acked (direction_of ?w p q)"
    using e(1) by (simp add: direction_of_def event_active_def)
  note ack = dir_acked [OF d1 this]
  have snd: "sending (session ?w p)" "outstate (pipes ?w p) = OUT_ASYNC"
    using ack by (auto simp: direction_of_def)
  let ?w1 = "set_pending es ?w"
  let ?w' = "set_session p ((session ?w p)\<lparr>sending := False\<rparr>) (nn_fsm_raise_pipe p NN_PIPE_OUT (set_outstate p OUT_IDLE ?w1))"
  have "linked ?w1 p q" using l(1) by (simp add: linked_def)
  then have "deliver no_add no_rm ((), ?w) = Some ((), ?w')"
    using e snd linked_feed(2) [of ?w1 p q no_add no_rm "ev_src e" "()"]
    by (simp add: deliver_def sinproc_on_received_def nn_pipebase_sent_def)
  then have step: "inproc_step IDeliver r = Some (r\<lparr>iw := ?w'\<rparr>)" by simp
  have dir: "direction_of ?w' p q = (direction_of ?w p q)\<lparr>d_acked := False, d_out := OUT_IDLE, d_sending := False\<rparr>"
    "direction_of ?w' q p = direction_of ?w q p"
    using pq event_active_pop [OF e(1) ev(2)] by (simp_all add: direction_of_def obj)
  have "pair_ok p q (r\<lparr>iw := ?w'\<rparr>)"
    by (rule pair_okI [where ms = ms1 and ms' = ms2]) (use ack l d2 ev e pq dir in \<open>auto simp: linked_def\<close>)
  then show ?thesis using step by blast
qed

lemma pair_deliver_sent:
  assumes ok: "pair_ok p q r" and e: "pending (tstate (iw r)) = e # es" "ev_dst e = q" "ev_type e = NN_SINPROC_SENT"
    and len: "Suc (length (sent r p)) < 2 ^ 64"
  shows "\<exists>r'. inproc_step IDeliver r = Some r' \<and> pair_ok p q r'"
proof -
  let ?w = "iw r" and ?m = "smsg (session (iw r) p)" and ?q = "msgqueue (session (iw r) q)"
  obtain ms1 ms2 where l: "linked ?w p q" "linked ?w q p"
    and d1: "dir_ok (direction_of ?w p q) ms1 (sent r p) (got r q)"
    and d2: "dir_ok (direction_of ?w q p) ms2 (sent r q) (got r p)"
    and ev: "list_all (good_event p q) (pending (tstate ?w))" "distinct (map ev_obj (pending (tstate ?w)))"
    using ok by (auto simp: pair_ok_def)
  have pq: "p \<noteq> q" "peer (session ?w q) = Some p" using l by (simp_all add: linked_def)
  have obj: "ev_obj e = (q, EV_SENT)"
    using ev(1) e by (auto simp: good_event_def)
  then have ds: "d_sent (direction_of ?w p q)"
    using e(1) by (simp add: direction_of_def event_active_def)
  have na: "\<not> event_active p EV_RECEIVED ?w"
    using d1 ds by (auto simp: dir_ok_def direction_of_def split: if_splits)
  have rep: "mq_rep ?q ms1" "length ms1 \<le> length (sent r p)"
    using d1 by (auto simp: dir_ok_def direction_of_def)
  have "unat (count ?q + 1) = Suc (length ms1)"
    using rep len by (simp add: unat_plus_if' mq_rep_def mq_stats_def)
  then have room: "count ?q + 1 \<noteq> 0" by auto
  let ?w1 = "set_pending es ?w"
  have feed: "deliver no_add no_rm ((), ?w) = map_option (Pair ()) (sinproc_on_sent ?w1 q)"
    using e linked_feed(1) [of ?w1 q p] l(2) by (simp add: deliver_def linked_def)
  have pop: "event_active x k ?w1 \<longleftrightarrow> event_active x k ?w \<and> (x, k) \<noteq> (q, EV_SENT)" for x k
    using event_active_pop [OF e(1) ev(2)] obj by simp
  from rep(1) room show ?thesis
  proof (rule nn_msgqueue_send_cases [of ?q ms1 ?m])
    assume full: "nn_msgqueue_send ?q ?m = Some (Inl EAGAIN, ?q)" "ms1 \<noteq> []"
    let ?w' = "set_session q ((session ?w q)\<lparr>msgqueue := ?q, receiving := True\<rparr>) ?w1"
    have step: "inproc_step IDeliver r = Some (r\<lparr>iw := ?w'\<rparr>)"
      using feed full pq by (simp add: sinproc_on_sent_def Let_def)
    have dir: "direction_of ?w' p q = (direction_of ?w p q)\<lparr>d_sent := False, d_blocked := True\<rparr>"
      "direction_of ?w' q p = direction_of ?w q p"
      using pq by (simp_all add: direction_of_def pop)
    have "pair_ok p q (r\<lparr>iw := ?w'\<rparr>)"
      by (rule pair_okI [where ms = ms1 and ms' = ms2])
        (use dir_deliver_refused [OF d1 ds full(2)] l d2 ev e pq dir in \<open>auto simp: linked_def\<close>)
    then show ?thesis using step by blast
  next
    fix mq' assume acc: "nn_msgqueue_send ?q ?m = Some (Inr (), mq')" "mq_rep mq' (ms1 @ [?m])"
    let ?e = "\<lparr>ev_obj = (p, EV_RECEIVED), ev_dst = p, ev_type = NN_SINPROC_RECEIVED, ev_src = q\<rparr>"
    let ?w2 = "set_session p ((session ?w p)\<lparr>smsg := empty_msg\<rparr>) (set_session q ((session ?w q)\<lparr>msgqueue := mq'\<rparr>) ?w1)"
    let ?w' = "add_event ?e (if ms1 = [] then nn_fsm_raise_pipe q NN_PIPE_IN (set_instate q IN_IDLE ?w2) else ?w2)"
    have inst: "instate (pipes ?w q) = (if ms1 = [] then IN_ASYNC else IN_IDLE)"
      using d1 by (auto simp: dir_ok_def direction_of_def split: if_splits)
    have step: "inproc_step IDeliver r = Some (r\<lparr>iw := ?w'\<rparr>)"
      using feed acc pq inst na mq_rep_empty_iff [OF rep(1)]
      by (simp add: sinproc_on_sent_def Let_def nn_pipebase_received_def nn_fsm_raiseto_eq pop)
    have dir: "direction_of ?w' p q = (direction_of ?w p q)\<lparr>d_queue := mq', d_slot := empty_msg, d_sent := False,
        d_acked := True, d_in := IN_IDLE\<rparr>" "direction_of ?w' q p = direction_of ?w q p"
      using pq inst by (simp_all add: direction_of_def pop)
    have slot: "d_slot (direction_of ?w p q) = ?m" by (simp add: direction_of_def)
    have pend: "list_all (good_event p q) (pending (tstate ?w'))" "distinct (map ev_obj (pending (tstate ?w')))"
      using ev e na by (auto simp: good_event_def event_active_def)
    have "pair_ok p q (r\<lparr>iw := ?w'\<rparr>)"
      by (rule pair_okI [where ms = "ms1 @ [?m]" and ms' = ms2])
        (use dir_deliver_accepted [OF d1 ds, unfolded slot, OF acc(2)] l d2 pend pq dir in \<open>auto simp: linked_def\<close>)
    then show ?thesis using step by blast
  qed
qed

section \<open>Runs\<close>

fun op_at :: "pid \<Rightarrow> pid \<Rightarrow> inproc_op \<Rightarrow> bool" where
  "op_at p q (ISend x m) = (x = p \<or> x = q)"
| "op_at p q (IRecv x) = (x = p \<or> x = q)"
| "op_at p q IDeliver = True"

lemma pair_step:
  assumes ok: "pair_ok p q r" and at: "op_at p q x"
    and len: "Suc (length (sent r p)) < 2 ^ 64" "Suc (length (sent r q)) < 2 ^ 64"
  shows "\<exists>r'. inproc_step x r = Some r' \<and> pair_ok p q r' \<and>
    length (sent r' p) \<le> Suc (length (sent r p)) \<and> length (sent r' q) \<le> Suc (length (sent r q))"
proof -
  have ok': "pair_ok q p r" using ok pair_ok_sym by blast
  have "\<exists>r'. inproc_step x r = Some r' \<and> pair_ok p q r'"
  proof (cases x)
    case (ISend y m)
    then show ?thesis
      using at pair_send [OF ok, of m] pair_send [OF ok', of m] pair_ok_sym ok
      by (cases "can_send (iw r) y") auto
  next
    case (IRecv y)
    then show ?thesis
      using at pair_recv [OF ok] pair_recv [OF ok'] pair_ok_sym ok
      by (cases "can_recv (iw r) y") auto
  next
    case IDeliver
    show ?thesis
    proof (cases "pending (tstate (iw r))")
      case Nil
      then show ?thesis using IDeliver ok by (cases r) (simp add: deliver_def)
    next
      case (Cons e es)
      then have "good_event p q e" using ok by (simp add: pair_ok_def)
      then have dst: "ev_dst e = p \<or> ev_dst e = q"
        and ty: "ev_type e = NN_SINPROC_SENT \<or> ev_type e = NN_SINPROC_RECEIVED"
        by (auto simp: good_event_def)
      from ty show ?thesis
      proof
        assume "ev_type e = NN_SINPROC_SENT"
        then show ?thesis
          using dst pair_deliver_sent [OF ok Cons _ _ len(1)] pair_deliver_sent [OF ok' Cons _ _ len(2)]
            pair_ok_sym IDeliver by metis
      next
        assume "ev_type e = NN_SINPROC_RECEIVED"
        then show ?thesis
          using dst pair_deliver_received [OF ok Cons] pair_deliver_received [OF ok' Cons] pair_ok_sym IDeliver
          by metis
      qed
    qed
  qed
  then obtain r' where r': "inproc_step x r = Some r'" "pair_ok p q r'" by blast
  have "length (sent r' y) \<le> Suc (length (sent r y))" for y
    using r'(1) by (cases x) (auto split: if_splits bind_splits)
  then show ?thesis using r' by blast
qed

lemma pair_exec:
  assumes "pair_ok p q r" "list_all (op_at p q) ops" "length (sent r p) + length ops < 2 ^ 64 - 1"
    "length (sent r q) + length ops < 2 ^ 64 - 1"
  shows "\<exists>r'. inproc_exec ops r = Some r' \<and> pair_ok p q r'"
  using assms
proof (induction ops arbitrary: r)
  case Nil
  then show ?case by simp
next
  case (Cons x ops)
  then obtain r1 where r1: "inproc_step x r = Some r1" "pair_ok p q r1"
    "length (sent r1 p) \<le> Suc (length (sent r p))" "length (sent r1 q) \<le> Suc (length (sent r q))"
    using pair_step [of p q r x] by auto
  have "\<exists>r'. inproc_exec ops r1 = Some r' \<and> pair_ok p q r'"
    by (rule Cons.IH) (use Cons.prems r1 in auto)
  then show ?case using r1(1) by simp
qed

text \<open>What the invariant says of the messages.\<close>

lemma pair_ok_delivery:
  assumes "pair_ok p q r"
  shows "\<exists>rest. sent r p = got r q @ rest"
    "pending (tstate (iw r)) = [] \<Longrightarrow> \<not> can_recv (iw r) q \<Longrightarrow> got r q = sent r p"
proof -
  obtain ms where d: "dir_ok (direction_of (iw r) p q) ms (sent r p) (got r q)" and l: "linked (iw r) q p"
    using assms by (auto simp: pair_ok_def)
  then show "\<exists>rest. sent r p = got r q @ rest" by (auto simp: dir_ok_def)
  show "got r q = sent r p" if "pending (tstate (iw r)) = []" "\<not> can_recv (iw r) q"
    using d l that by (auto simp: dir_ok_def direction_of_def event_active_def linked_def split: if_splits)
qed

text \<open>A sender that may not send while no event waits is held up by a receiver that may receive.\<close>

lemma pair_ok_progress:
  assumes "pair_ok p q r" "pending (tstate (iw r)) = []" "\<not> can_send (iw r) p"
  shows "can_recv (iw r) q"
proof -
  obtain ms where "dir_ok (direction_of (iw r) p q) ms (sent r p) (got r q)" "linked (iw r) q p" "linked (iw r) p q"
    using assms by (auto simp: pair_ok_def)
  then show ?thesis
    using assms(2,3) by (auto simp: dir_ok_def direction_of_def event_active_def linked_def split: if_splits)
qed

section \<open>Connecting\<close>

text \<open>
  The handshake of \<^verbatim>\<open>cinproc.c\<close> and \<^verbatim>\<open>binproc.c\<close> as far as the two sessions are concerned:
  session \<open>p\<close> connects, the bound side consumes the \<open>CONNECT\<close> event and lets its new session
  \<open>q\<close> accept, and the \<open>READY\<close> and \<open>ACCEPTED\<close> events are delivered.
\<close>

definition fresh_pipe :: nn_pipebase where
  "fresh_pipe = \<lparr>pstate = PIPE_IDLE, instate = IN_DEACTIVATED, outstate = OUT_DEACTIVATED\<rparr>"

definition fresh_world :: "u64 \<Rightarrow> iworld" where
  "fresh_world rcvbuf = \<lparr>pipes = (\<lambda>p. fresh_pipe), raised = [],
     tstate = \<lparr>sessions = (\<lambda>p. nn_sinproc_init rcvbuf), pending = [], to_owner = []\<rparr>\<rparr>"

definition handshake :: "pid \<Rightarrow> pid \<Rightarrow> iworld \<Rightarrow> iworld option" where
  "handshake p q w = do {
     (s, w) \<leftarrow> nn_sinproc_connect no_add no_rm p q ((), w);
     let w = set_pending (tl (pending (tstate w))) w;
     sw \<leftarrow> nn_sinproc_accept no_add no_rm q p (s, w);
     sw \<leftarrow> deliver no_add no_rm sw;
     (s, w) \<leftarrow> deliver no_add no_rm sw;
     Some w }"

definition start_run :: "iworld \<Rightarrow> inproc_run" where
  "start_run w = \<lparr>iw = w, sent = (\<lambda>p. []), got = (\<lambda>p. [])\<rparr>"

lemma handshake_pair:
  assumes "p \<noteq> q"
  shows "\<exists>w. handshake p q (fresh_world n) = Some w \<and> pair_ok p q (start_run w)"
proof -
  have s: "session (fresh_world n) r = nn_sinproc_init n" "pipes (fresh_world n) r = fresh_pipe"
    "pending (tstate (fresh_world n)) = []" for r
    by (simp_all add: fresh_world_def session_def)
  show ?thesis
    using assms mq_rep_init [of n]
    by (simp add: handshake_def nn_sinproc_connect_def nn_sinproc_accept_def nn_sinproc_handler_def deliver_def
        nn_fsm_feed_def sinproc_activate_def nn_pipebase_start_def no_add_def nn_fsm_raiseto_eq Let_def s
        nn_sinproc_init_def fresh_pipe_def event_active_def pair_ok_def linked_def direction_of_def dir_ok_def
        start_run_def)
qed

section \<open>Properties\<close>

text \<open>
  C7: the inproc transport delivers reliably and in order.  Two sessions are connected by
  the handshake; then any interleaving of sends and receives at both ends and of event
  deliveries runs without a failing assertion, and at any moment the messages received at
  one end are a prefix of those sent at the other, each with its protocol header merged into
  the body.  When no event waits and the receiver has nothing to receive, all sent messages
  have arrived.
\<close>

theorem inproc_delivers_in_order:
  assumes "p \<noteq> q" "list_all (op_at p q) ops" "length ops < 2 ^ 64 - 1"
  shows "\<exists>w r. handshake p q (fresh_world rcvbuf) = Some w \<and> inproc_exec ops (start_run w) = Some r \<and>
    (\<exists>rest. sent r p = got r q @ rest) \<and> (\<exists>rest. sent r q = got r p @ rest) \<and>
    (pending (tstate (iw r)) = [] \<longrightarrow> \<not> can_recv (iw r) q \<longrightarrow> got r q = sent r p) \<and>
    (pending (tstate (iw r)) = [] \<longrightarrow> \<not> can_recv (iw r) p \<longrightarrow> got r p = sent r q)"
proof -
  obtain w where w: "handshake p q (fresh_world rcvbuf) = Some w" "pair_ok p q (start_run w)"
    using handshake_pair [OF assms(1)] by blast
  obtain r where r: "inproc_exec ops (start_run w) = Some r" "pair_ok p q r"
    using pair_exec [OF w(2) assms(2)] assms(3) by (auto simp: start_run_def)
  have r': "pair_ok q p r" using r(2) pair_ok_sym by blast
  show ?thesis
    by (intro exI [of _ w] exI [of _ r] conjI impI w(1) r(1) pair_ok_delivery [OF r(2)] pair_ok_delivery [OF r'])
qed

theorem inproc_delivers_in_order_witness:
  "\<exists>w r rest. handshake 0 1 (fresh_world 100) = Some w \<and>
     inproc_exec [ISend 0 \<lparr>sphdr = [1], hdrs = [], body = [2]\<rparr>, IDeliver, IRecv 1, IDeliver] (start_run w) = Some r \<and>
     sent r 0 = got r 1 @ rest"
proof -
  let ?ops = "[ISend 0 \<lparr>sphdr = [1], hdrs = [], body = [2]\<rparr>, IDeliver, IRecv 1, IDeliver]"
  have "list_all (op_at 0 1) ?ops" "length ?ops < 2 ^ 64 - 1" "(0 :: pid) \<noteq> 1" by simp_all
  from inproc_delivers_in_order [OF this(3,1,2), of 100] show ?thesis by blast
qed

text \<open>
  C8: no wake-up is lost.  After any such run, if no event waits for delivery and one end
  may not send, then the other end may receive: a blocked sender always waits for a receiver
  that has something to read.
\<close>

theorem inproc_no_lost_wakeup:
  assumes "p \<noteq> q" "list_all (op_at p q) ops" "length ops < 2 ^ 64 - 1"
  shows "\<exists>w r. handshake p q (fresh_world rcvbuf) = Some w \<and> inproc_exec ops (start_run w) = Some r \<and>
    (pending (tstate (iw r)) = [] \<longrightarrow> can_send (iw r) p \<or> can_recv (iw r) q)"
proof -
  obtain w where w: "handshake p q (fresh_world rcvbuf) = Some w" "pair_ok p q (start_run w)"
    using handshake_pair [OF assms(1)] by blast
  obtain r where r: "inproc_exec ops (start_run w) = Some r" "pair_ok p q r"
    using pair_exec [OF w(2) assms(2)] assms(3) by (auto simp: start_run_def)
  then show ?thesis
    using w(1) pair_ok_progress [OF r(2)] by blast
qed

theorem inproc_no_lost_wakeup_witness:
  "\<exists>w r. handshake 0 1 (fresh_world 100) = Some w \<and>
     inproc_exec [ISend 0 \<lparr>sphdr = [1], hdrs = [], body = [2]\<rparr>, IDeliver] (start_run w) = Some r \<and>
     (pending (tstate (iw r)) = [] \<longrightarrow> can_send (iw r) 0 \<or> can_recv (iw r) 1)"
  by (rule inproc_no_lost_wakeup) simp_all

end
