(* ===== verification/Nn_Sched.thy ===== *)
theory Nn_Sched
  imports Nn_Priolist Nn_Inproc_Delivery
begin

text \<open>
  The building blocks of the socket types, \<^verbatim>\<open>protocols/utils/\<close>: the load balancer
  (\<^verbatim>\<open>lb.c\<close>) and the fair queuer (\<^verbatim>\<open>fq.c\<close>) over the priority list, the distributor
  (\<^verbatim>\<open>dist.c\<close>) and the exclusive pipe (\<^verbatim>\<open>excl.c\<close>).  They take the world and the transport's
  virtual functions as arguments and return the world they leave behind.
\<close>

section \<open>Load balancer\<close>

type_synonym nn_lb = nn_priolist
type_synonym nn_fq = nn_priolist

definition nn_lb_init :: nn_lb where
  "nn_lb_init = nn_priolist_init"

definition nn_lb_term :: "nn_lb \<Rightarrow> unit option" where
  "nn_lb_term self = nn_priolist_term self"

definition nn_lb_add :: "pid \<Rightarrow> int \<Rightarrow> nn_priolist_data" where
  "nn_lb_add pipe priority = nn_priolist_add pipe priority"

definition nn_lb_rm :: "nn_lb \<Rightarrow> nn_priolist_data \<Rightarrow> nn_lb option" where
  "nn_lb_rm self data = nn_priolist_rm self data"

definition nn_lb_out :: "nn_lb \<Rightarrow> nn_priolist_data \<Rightarrow> nn_lb option" where
  "nn_lb_out self data = nn_priolist_activate self data"

definition nn_lb_can_send :: "nn_lb \<Rightarrow> bool" where
  "nn_lb_can_send self = nn_priolist_is_active self"

definition nn_lb_get_priority :: "nn_lb \<Rightarrow> int" where
  "nn_lb_get_priority self = nn_priolist_get_priority self"

text \<open>The result is the return code, the pipe stored in \<^verbatim>\<open>*to\<close>, the balancer and the world.\<close>

definition nn_lb_send ::
  "'x pipebase_vfptr \<Rightarrow> 'x world \<Rightarrow> nn_lb \<Rightarrow> sp_msg \<Rightarrow> ((u32 \<times> pid) rc \<times> nn_lb \<times> 'x world) option" where
  "nn_lb_send vf w self msg = do {
     pipe \<leftarrow> nn_priolist_getpipe self;
     case pipe of None \<Rightarrow> Some (Inl EAGAIN, self, w)
     | Some pipe \<Rightarrow> do {
         (rc, w) \<leftarrow> nn_pipe_send vf w pipe msg;
         self \<leftarrow> nn_priolist_advance self (released rc);
         Some (Inr (rc AND NOT NN_PIPE_RELEASE, pipe), self, w) } }"

section \<open>Fair queuer\<close>

definition nn_fq_init :: nn_fq where
  "nn_fq_init = nn_priolist_init"

definition nn_fq_term :: "nn_fq \<Rightarrow> unit option" where
  "nn_fq_term self = nn_priolist_term self"

definition nn_fq_add :: "pid \<Rightarrow> int \<Rightarrow> nn_priolist_data" where
  "nn_fq_add pipe priority = nn_priolist_add pipe priority"

definition nn_fq_rm :: "nn_fq \<Rightarrow> nn_priolist_data \<Rightarrow> nn_fq option" where
  "nn_fq_rm self data = nn_priolist_rm self data"

definition nn_fq_in :: "nn_fq \<Rightarrow> nn_priolist_data \<Rightarrow> nn_fq option" where
  "nn_fq_in self data = nn_priolist_activate self data"

definition nn_fq_can_recv :: "nn_fq \<Rightarrow> bool" where
  "nn_fq_can_recv self = nn_priolist_is_active self"

text \<open>The return code, the message, the pipe it came from.\<close>

definition nn_fq_recv ::
  "'x pipebase_vfptr \<Rightarrow> 'x world \<Rightarrow> nn_fq \<Rightarrow> ((u32 \<times> sp_msg \<times> pid) rc \<times> nn_fq \<times> 'x world) option" where
  "nn_fq_recv vf w self = do {
     p \<leftarrow> nn_priolist_getpipe self;
     case p of None \<Rightarrow> Some (Inl EAGAIN, self, w)
     | Some p \<Rightarrow> do {
         (rc, msg, w) \<leftarrow> nn_pipe_recv vf w p;
         self \<leftarrow> nn_priolist_advance self (released rc);
         Some (Inr (rc AND NOT NN_PIPE_RELEASE, msg, p), self, w) } }"

section \<open>Distributor\<close>

record nn_dist =
  dcount :: u32
  dpipes :: "pid list"

definition nn_dist_init :: nn_dist where
  "nn_dist_init = \<lparr>dcount = 0, dpipes = []\<rparr>"

definition nn_dist_term :: "nn_dist \<Rightarrow> unit option" where
  "nn_dist_term self = do { nn_assert (dcount self = 0); nn_assert (dpipes self = []) }"

definition nn_dist_rm :: "nn_dist \<Rightarrow> pid \<Rightarrow> nn_dist" where
  "nn_dist_rm self p =
     (if p \<in> set (dpipes self) then self\<lparr>dcount := dcount self - 1, dpipes := remove1 p (dpipes self)\<rparr> else self)"

definition nn_dist_out :: "nn_dist \<Rightarrow> pid \<Rightarrow> nn_dist option" where
  "nn_dist_out self p = do {
     nn_assert (p \<notin> set (dpipes self));
     Some (self\<lparr>dcount := dcount self + 1, dpipes := dpipes self @ [p]\<rparr>) }"

text \<open>The loop over the pipes: those still to be visited, and those visited that stay.\<close>

fun dist_loop ::
  "'x pipebase_vfptr \<Rightarrow> sp_msg \<Rightarrow> pid option \<Rightarrow> 'x world \<Rightarrow> u32 \<Rightarrow> pid list \<Rightarrow> pid list \<Rightarrow>
   (u32 \<times> pid list \<times> 'x world) option" where
  "dist_loop vf msg exclude w cnt kept [] = Some (cnt, kept, w)"
| "dist_loop vf msg exclude w cnt kept (p # ps) =
     (if exclude = Some p then dist_loop vf msg exclude w cnt (kept @ [p]) ps
      else do {
        (rc, w) \<leftarrow> nn_pipe_send vf w p msg;
        if released rc then dist_loop vf msg exclude w (cnt - 1) kept ps
        else dist_loop vf msg exclude w cnt (kept @ [p]) ps })"

definition nn_dist_send ::
  "'x pipebase_vfptr \<Rightarrow> 'x world \<Rightarrow> nn_dist \<Rightarrow> sp_msg \<Rightarrow> pid option \<Rightarrow> (nn_dist \<times> 'x world) option" where
  "nn_dist_send vf w self msg exclude =
     (if dcount self = 0 then Some (self, w)
      else do {
        (cnt, ps, w) \<leftarrow> dist_loop vf msg exclude w (dcount self) [] (dpipes self);
        Some (self\<lparr>dcount := cnt, dpipes := ps\<rparr>, w) })"

section \<open>Exclusive pipe\<close>

record nn_excl =
  epipe :: "pid option"
  inpipe :: "pid option"
  outpipe :: "pid option"

definition nn_excl_init :: nn_excl where
  "nn_excl_init = \<lparr>epipe = None, inpipe = None, outpipe = None\<rparr>"

definition nn_excl_term :: "nn_excl \<Rightarrow> unit option" where
  "nn_excl_term self = do { nn_assert (epipe self = None); nn_assert (inpipe self = None); nn_assert (outpipe self = None) }"

definition nn_excl_add :: "nn_excl \<Rightarrow> pid \<Rightarrow> unit rc \<times> nn_excl" where
  "nn_excl_add self p =
     (if epipe self \<noteq> None then (Inl EISCONN, self) else (Inr (), self\<lparr>epipe := Some p\<rparr>))"

definition nn_excl_rm :: "nn_excl \<Rightarrow> nn_excl option" where
  "nn_excl_rm self = do {
     nn_assert (epipe self \<noteq> None);
     Some \<lparr>epipe = None, inpipe = None, outpipe = None\<rparr> }"

definition nn_excl_in :: "nn_excl \<Rightarrow> pid \<Rightarrow> nn_excl option" where
  "nn_excl_in self p = do {
     nn_assert (inpipe self = None);
     nn_assert (epipe self = Some p);
     Some (self\<lparr>inpipe := Some p\<rparr>) }"

definition nn_excl_out :: "nn_excl \<Rightarrow> pid \<Rightarrow> nn_excl option" where
  "nn_excl_out self p = do {
     nn_assert (outpipe self = None);
     nn_assert (epipe self = Some p);
     Some (self\<lparr>outpipe := Some p\<rparr>) }"

definition nn_excl_send ::
  "'x pipebase_vfptr \<Rightarrow> 'x world \<Rightarrow> nn_excl \<Rightarrow> sp_msg \<Rightarrow> (u32 rc \<times> nn_excl \<times> 'x world) option" where
  "nn_excl_send vf w self msg = (case outpipe self of None \<Rightarrow> Some (Inl EAGAIN, self, w)
     | Some p \<Rightarrow> do {
         (rc, w) \<leftarrow> nn_pipe_send vf w p msg;
         let self = (if released rc then self\<lparr>outpipe := None\<rparr> else self);
         Some (Inr (rc AND NOT NN_PIPE_RELEASE), self, w) })"

definition nn_excl_recv ::
  "'x pipebase_vfptr \<Rightarrow> 'x world \<Rightarrow> nn_excl \<Rightarrow> ((u32 \<times> sp_msg) rc \<times> nn_excl \<times> 'x world) option" where
  "nn_excl_recv vf w self = (case inpipe self of None \<Rightarrow> Some (Inl EAGAIN, self, w)
     | Some p \<Rightarrow> do {
         (rc, msg, w) \<leftarrow> nn_pipe_recv vf w p;
         let self = (if released rc then self\<lparr>inpipe := None\<rparr> else self);
         Some (Inr (rc AND NOT NN_PIPE_RELEASE, msg), self, w) })"

definition nn_excl_can_send :: "nn_excl \<Rightarrow> bool" where
  "nn_excl_can_send self \<longleftrightarrow> outpipe self \<noteq> None"

definition nn_excl_can_recv :: "nn_excl \<Rightarrow> bool" where
  "nn_excl_can_recv self \<longleftrightarrow> inpipe self \<noteq> None"

section \<open>Readiness invariants\<close>

text \<open>
  A scheduler never holds a pipe that is not ready: the pipes of the load balancer and of the
  distributor may be sent on, those of the fair queuer may be received from.
\<close>

definition lb_inv :: "(pid \<Rightarrow> int) \<Rightarrow> 'x world \<Rightarrow> nn_lb \<Rightarrow> bool" where
  "lb_inv pr w self \<longleftrightarrow> pl_inv pr self \<and> (\<forall>p \<in> pl_active self. can_send w p)"

definition fq_inv :: "(pid \<Rightarrow> int) \<Rightarrow> 'x world \<Rightarrow> nn_fq \<Rightarrow> bool" where
  "fq_inv pr w self \<longleftrightarrow> pl_inv pr self \<and> (\<forall>p \<in> pl_active self. can_recv w p)"

definition dist_inv :: "'x world \<Rightarrow> nn_dist \<Rightarrow> bool" where
  "dist_inv w self \<longleftrightarrow> distinct (dpipes self) \<and> unat (dcount self) = length (dpipes self) \<and>
     (\<forall>p \<in> set (dpipes self). can_send w p)"

definition excl_inv :: "'x world \<Rightarrow> nn_excl \<Rightarrow> bool" where
  "excl_inv w self \<longleftrightarrow> (inpipe self = None \<or> inpipe self = epipe self) \<and>
     (outpipe self = None \<or> outpipe self = epipe self) \<and>
     (\<forall>p. inpipe self = Some p \<longrightarrow> can_recv w p) \<and> (\<forall>p. outpipe self = Some p \<longrightarrow> can_send w p)"

lemma pl_active_empty: "pl_inv pr self \<Longrightarrow> pl_active self = {} \<longleftrightarrow> pcurrent self = -1"
proof
  assume inv: "pl_inv pr self" and e: "pl_active self = {}"
  show "pcurrent self = -1"
  proof (rule ccontr)
    assume "pcurrent self \<noteq> -1"
    then show False using nn_priolist_advance_ok [OF inv, of False] e by auto
  qed
next
  assume inv: "pl_inv pr self" and "pcurrent self = -1"
  then show "pl_active self = {}"
    using pl_inv_current [OF inv] by auto
qed

lemma pl_best:
  "pl_inv pr self \<Longrightarrow> if pl_active self = {} then nn_priolist_getpipe self = Some None
    else \<exists>c. nn_priolist_getpipe self = Some (Some c) \<and> c \<in> pl_active self \<and> (\<forall>q \<in> pl_active self. pr c \<le> pr q)"
  by (rule getpipe_best)

lemma unat_of_nat_u32_le: "k \<le> unat (n :: u32) \<Longrightarrow> unat (n - of_nat k) = unat n - k"
proof -
  assume k: "k \<le> unat n"
  moreover have "unat n < 2 ^ LENGTH(32)" by (rule unsigned_less)
  ultimately have "unat (of_nat k :: u32) = k"
    by (simp add: unat_of_nat take_bit_nat_def)
  then show ?thesis using k by (simp add: unat_sub_if')
qed

lemma nn_lb_can_send_iff: "pl_inv pr self \<Longrightarrow> nn_lb_can_send self \<longleftrightarrow> pl_active self \<noteq> {}"
  using pl_active_empty [of pr self] by (simp add: nn_lb_can_send_def nn_priolist_is_active_def)

lemma nn_fq_can_recv_iff: "pl_inv pr self \<Longrightarrow> nn_fq_can_recv self \<longleftrightarrow> pl_active self \<noteq> {}"
  using pl_active_empty [of pr self] by (simp add: nn_fq_can_recv_def nn_priolist_is_active_def)

text \<open>A message sent to several pipes, one after the other: the pipes with their flags.\<close>

fun send_seq :: "'x pipebase_vfptr \<Rightarrow> 'x world \<Rightarrow> sp_msg \<Rightarrow> pid list \<Rightarrow> ((pid \<times> u32) list \<times> 'x world) option" where
  "send_seq vf w m [] = Some ([], w)"
| "send_seq vf w m (p # ps) = do {
     (rc, w) \<leftarrow> nn_pipe_send vf w p m;
     (rs, w) \<leftarrow> send_seq vf w m ps;
     Some ((p, rc) # rs, w) }"

lemma send_seq_dom: "send_seq vf w m ps = Some (rs, w') \<Longrightarrow> map fst rs = ps"
  by (induction ps arbitrary: w rs) (auto split: bind_splits)

text \<open>The pipes that were released by the sends.\<close>

definition gone :: "(pid \<times> u32) list \<Rightarrow> pid set" where
  "gone rs = {p. \<exists>rc. (p, rc) \<in> set rs \<and> released rc}"

lemma gone_Cons: "gone ((p, rc) # rs) = (if released rc then {p} else {}) \<union> gone rs"
  by (auto simp: gone_def)

lemma gone_dom: "gone rs \<subseteq> set (map fst rs)"
  by (force simp: gone_def)

lemma dist_loop_seq:
  assumes "send_seq vf w m (filter (\<lambda>p. exclude \<noteq> Some p) ps) = Some (rs, w')" "distinct ps"
  shows "dist_loop vf m exclude w cnt kept ps =
    Some (cnt - of_nat (card (gone rs)), kept @ filter (\<lambda>p. p \<notin> gone rs) ps, w')"
  using assms
proof (induction ps arbitrary: w cnt kept rs)
  case Nil
  then show ?case by (simp add: gone_def)
next
  case (Cons p ps)
  show ?case
  proof (cases "exclude = Some p")
    case True
    have "p \<notin> gone rs"
      using send_seq_dom [OF Cons.prems(1)] gone_dom [of rs] True by auto
    then show ?thesis using Cons True by simp
  next
    case False
    then obtain rc w1 rs' where s: "nn_pipe_send vf w p m = Some (rc, w1)" "rs = (p, rc) # rs'"
      "send_seq vf w1 m (filter (\<lambda>p. exclude \<noteq> Some p) ps) = Some (rs', w')"
      using Cons.prems(1) by (auto split: bind_splits)
    have sub: "gone rs' \<subseteq> set ps" using send_seq_dom [OF s(3)] gone_dom [of rs'] by auto
    then have "p \<notin> gone rs'" "finite (gone rs')" "filter (\<lambda>q. q \<noteq> p \<and> q \<notin> gone rs') ps = filter (\<lambda>q. q \<notin> gone rs') ps"
      using Cons.prems(2) finite_subset by (auto intro: filter_cong)
    then show ?thesis
      using Cons.IH [OF s(3)] Cons.prems(2) False s(1,2) by (auto simp: gone_Cons algebra_simps)
  qed
qed

context transport begin

lemma lb_send_ok:
  assumes w: "winv w" and inv: "lb_inv pr w lb" and ne: "pl_active lb \<noteq> {}"
  shows "\<exists>c rc lb' w'. nn_lb_send vf w lb m = Some (Inr (rc AND NOT NN_PIPE_RELEASE, c), lb', w') \<and>
    nn_pipe_send vf w c m = Some (rc, w') \<and> c \<in> pl_active lb \<and> (\<forall>q \<in> pl_active lb. pr c \<le> pr q) \<and>
    pl_active lb' = (if released rc then pl_active lb - {c} else pl_active lb) \<and>
    winv w' \<and> lb_inv pr w' lb' \<and> (\<forall>q. can_recv w' q \<longleftrightarrow> can_recv w q) \<and>
    (\<forall>q. can_send w' q \<longleftrightarrow> can_send w q \<and> \<not> (q = c \<and> released rc))"
proof -
  have pl: "pl_inv pr lb" and cur: "pcurrent lb \<noteq> -1"
    using inv ne pl_active_empty by (auto simp: lb_inv_def)
  obtain c where c: "nn_priolist_getpipe lb = Some (Some c)" "c \<in> pl_active lb" "\<forall>q \<in> pl_active lb. pr c \<le> pr q"
    using pl_best [OF pl] ne by auto
  have "can_send w c" using inv c(2) by (auto simp: lb_inv_def)
  then obtain rc w' where s: "nn_pipe_send vf w c m = Some (rc, w')" "winv w'"
    "\<forall>q. can_send w' q \<longleftrightarrow> can_send w q \<and> \<not> (q = c \<and> released rc)" "\<forall>q. can_recv w' q \<longleftrightarrow> can_recv w q"
    using pipe_send_ok [OF w, of c m] by blast
  obtain lb' where lb': "nn_priolist_advance lb (released rc) = Some lb'" "pl_inv pr lb'"
    "pl_active lb' = (if released rc then pl_active lb - {c} else pl_active lb)"
    using nn_priolist_advance_ok [OF pl cur, of "released rc"] c(1) by auto
  have "lb_inv pr w' lb'"
    using inv lb' s(3) by (auto simp: lb_inv_def)
  then show ?thesis
    using c s lb' by (intro exI [of _ c] exI [of _ rc] exI [of _ lb'] exI [of _ w']) (simp add: nn_lb_send_def)
qed

lemma lb_send_empty: "lb_inv pr w lb \<Longrightarrow> pl_active lb = {} \<Longrightarrow> nn_lb_send vf w lb m = Some (Inl EAGAIN, lb, w)"
  using pl_best [of pr lb] by (simp add: lb_inv_def nn_lb_send_def)

lemma fq_recv_ok:
  assumes w: "winv w" and inv: "fq_inv pr w fq" and ne: "pl_active fq \<noteq> {}"
  shows "\<exists>c rc m fq' w'. nn_fq_recv vf w fq = Some (Inr (rc AND NOT NN_PIPE_RELEASE, m, c), fq', w') \<and>
    nn_pipe_recv vf w c = Some (rc, m, w') \<and> c \<in> pl_active fq \<and> (\<forall>q \<in> pl_active fq. pr c \<le> pr q) \<and>
    pl_active fq' = (if released rc then pl_active fq - {c} else pl_active fq) \<and>
    winv w' \<and> fq_inv pr w' fq' \<and> (\<forall>q. can_send w' q \<longleftrightarrow> can_send w q) \<and>
    (\<forall>q. can_recv w' q \<longleftrightarrow> can_recv w q \<and> \<not> (q = c \<and> released rc))"
proof -
  have pl: "pl_inv pr fq" and cur: "pcurrent fq \<noteq> -1"
    using inv ne pl_active_empty by (auto simp: fq_inv_def)
  obtain c where c: "nn_priolist_getpipe fq = Some (Some c)" "c \<in> pl_active fq" "\<forall>q \<in> pl_active fq. pr c \<le> pr q"
    using pl_best [OF pl] ne by auto
  have "can_recv w c" using inv c(2) by (auto simp: fq_inv_def)
  then obtain rc m w' where s: "nn_pipe_recv vf w c = Some (rc, m, w')" "winv w'"
    "\<forall>q. can_recv w' q \<longleftrightarrow> can_recv w q \<and> \<not> (q = c \<and> released rc)" "\<forall>q. can_send w' q \<longleftrightarrow> can_send w q"
    using pipe_recv_ok [OF w, of c] by blast
  obtain fq' where fq': "nn_priolist_advance fq (released rc) = Some fq'" "pl_inv pr fq'"
    "pl_active fq' = (if released rc then pl_active fq - {c} else pl_active fq)"
    using nn_priolist_advance_ok [OF pl cur, of "released rc"] c(1) by auto
  have "fq_inv pr w' fq'"
    using inv fq' s(3) by (auto simp: fq_inv_def)
  then show ?thesis
    using c s fq' by (intro exI [of _ c] exI [of _ rc] exI [of _ m] exI [of _ fq'] exI [of _ w'])
      (simp add: nn_fq_recv_def)
qed

lemma fq_recv_empty: "fq_inv pr w fq \<Longrightarrow> pl_active fq = {} \<Longrightarrow> nn_fq_recv vf w fq = Some (Inl EAGAIN, fq, w)"
  using pl_best [of pr fq] by (simp add: fq_inv_def nn_fq_recv_def)

lemma send_seq_ok:
  assumes "winv w" "\<forall>p \<in> set ps. can_send w p" "distinct ps"
  shows "\<exists>rs w'. send_seq vf w m ps = Some (rs, w') \<and> winv w' \<and> (\<forall>q. can_recv w' q \<longleftrightarrow> can_recv w q) \<and>
    (\<forall>q. can_send w' q \<longleftrightarrow> can_send w q \<and> q \<notin> gone rs)"
  using assms
proof (induction ps arbitrary: w)
  case Nil
  then show ?case by (simp add: gone_def)
next
  case (Cons p ps)
  then obtain rc w1 where w1: "nn_pipe_send vf w p m = Some (rc, w1)" "winv w1"
    "\<forall>q. can_send w1 q \<longleftrightarrow> can_send w q \<and> \<not> (q = p \<and> released rc)" "\<forall>q. can_recv w1 q \<longleftrightarrow> can_recv w q"
    using pipe_send_ok [of w p m] by auto
  have "\<forall>q \<in> set ps. can_send w1 q" using Cons.prems w1(3) by auto
  then obtain rs w' where "send_seq vf w1 m ps = Some (rs, w')" "winv w'" "\<forall>q. can_recv w' q \<longleftrightarrow> can_recv w1 q"
    "\<forall>q. can_send w' q \<longleftrightarrow> can_send w1 q \<and> q \<notin> gone rs"
    using Cons.IH [OF w1(2)] Cons.prems(3) by auto
  then show ?case using w1 by (auto simp: gone_Cons)
qed

lemma dist_send_ok:
  assumes w: "winv w" and inv: "dist_inv w d"
  shows "\<exists>rs w' d'. nn_dist_send vf w d m exclude = Some (d', w') \<and>
    send_seq vf w m (filter (\<lambda>p. exclude \<noteq> Some p) (dpipes d)) = Some (rs, w') \<and>
    dpipes d' = filter (\<lambda>p. p \<notin> gone rs) (dpipes d) \<and> winv w' \<and> dist_inv w' d' \<and>
    (\<forall>q. can_recv w' q \<longleftrightarrow> can_recv w q) \<and> (\<forall>q. can_send w' q \<longleftrightarrow> can_send w q \<and> q \<notin> gone rs)"
proof -
  let ?ps = "filter (\<lambda>p. exclude \<noteq> Some p) (dpipes d)"
  have d: "distinct (dpipes d)" "unat (dcount d) = length (dpipes d)" "\<forall>p \<in> set ?ps. can_send w p"
    using inv by (auto simp: dist_inv_def)
  obtain rs w' where s: "send_seq vf w m ?ps = Some (rs, w')" "winv w'" "\<forall>q. can_recv w' q \<longleftrightarrow> can_recv w q"
    "\<forall>q. can_send w' q \<longleftrightarrow> can_send w q \<and> q \<notin> gone rs"
    using send_seq_ok [OF w d(3) distinct_filter [OF d(1)], of m] by blast
  have sub: "gone rs \<subseteq> set (dpipes d)" using send_seq_dom [OF s(1)] gone_dom [of rs] by auto
  define cnt where "cnt = dcount d - of_nat (card (gone rs))"
  define d' where "d' = d\<lparr>dcount := cnt, dpipes := filter (\<lambda>p. p \<notin> gone rs) (dpipes d)\<rparr>"
  have "nn_dist_send vf w d m exclude = Some (d', w')"
  proof (cases "dcount d = 0")
    case True
    then have "dpipes d = []" using d(2) by simp
    then show ?thesis using True s(1) by (simp add: nn_dist_send_def d'_def cnt_def gone_def)
  next
    case False
    then show ?thesis
      using dist_loop_seq [OF s(1) d(1)] by (simp add: nn_dist_send_def d'_def cnt_def)
  qed
  moreover have "dist_inv w' d'"
  proof -
    have "length (filter (\<lambda>p. p \<notin> gone rs) (dpipes d)) + card (gone rs) = length (dpipes d)"
      using sum_length_filter_compl [of "\<lambda>p. p \<notin> gone rs" "dpipes d"] d(1) sub
      by (simp add: distinct_length_filter Int_absorb2 Int_commute [of _ "gone rs"])
    then have "unat cnt = length (filter (\<lambda>p. p \<notin> gone rs) (dpipes d))"
      using d(2) unat_of_nat_u32_le [of "card (gone rs)" "dcount d"] by (simp add: cnt_def)
    then show ?thesis using inv s(4) by (auto simp: dist_inv_def d'_def)
  qed
  ultimately show ?thesis using s by (auto simp: d'_def)
qed

end

section \<open>Properties\<close>

text \<open>What a send leaves in the session of an inproc pipe.\<close>

lemma inproc_send_session:
  assumes "nn_pipe_send nn_sinproc_pipebase_vfptr w p m = Some (rc, w')"
  shows "session w' q = (if q = p then (session w p)\<lparr>smsg := merge_msg m, sending := True\<rparr> else session w q)"
  using assms
  by (auto simp: nn_pipe_send_def nn_sinproc_pipebase_vfptr_def nn_sinproc_send_def nn_fsm_raiseto_eq Let_def
      split: if_splits bind_splits sum.splits)

lemma inproc_send_seq_session:
  assumes "send_seq nn_sinproc_pipebase_vfptr w m ps = Some (rs, w')" "distinct ps"
  shows "session w' q = (if q \<in> set ps then (session w q)\<lparr>smsg := merge_msg m, sending := True\<rparr> else session w q)"
  using assms
proof (induction ps arbitrary: w rs)
  case (Cons p ps)
  then obtain rc w1 rs' where s: "nn_pipe_send nn_sinproc_pipebase_vfptr w p m = Some (rc, w1)"
    "send_seq nn_sinproc_pipebase_vfptr w1 m ps = Some (rs', w')"
    by (auto split: bind_splits)
  show ?case
    using Cons.IH [OF s(2)] Cons.prems(2) inproc_send_session [OF s(1)] by auto
qed simp

lemma inproc_dist_fanout:
  assumes "inproc_inv w" "dist_inv w d"
  shows "\<exists>d' w'. nn_dist_send nn_sinproc_pipebase_vfptr w d m exclude = Some (d', w') \<and>
    inproc_inv w' \<and> dist_inv w' d' \<and> dpipes d' = filter (can_send w') (dpipes d) \<and>
    (\<forall>p. session w' p = (if p \<in> set (dpipes d) \<and> exclude \<noteq> Some p
       then (session w p)\<lparr>smsg := merge_msg m, sending := True\<rparr> else session w p))"
proof -
  obtain rs w' d' where s: "nn_dist_send nn_sinproc_pipebase_vfptr w d m exclude = Some (d', w')"
    "send_seq nn_sinproc_pipebase_vfptr w m (filter (\<lambda>p. exclude \<noteq> Some p) (dpipes d)) = Some (rs, w')"
    "dpipes d' = filter (\<lambda>p. p \<notin> gone rs) (dpipes d)" "inproc_inv w'" "dist_inv w' d'"
    "\<forall>q. can_send w' q \<longleftrightarrow> can_send w q \<and> q \<notin> gone rs"
    using inproc.dist_send_ok [OF assms, of m exclude] by blast
  have "dpipes d' = filter (can_send w') (dpipes d)"
    unfolding s(3) by (rule filter_cong) (use s(6) assms(2) in \<open>auto simp: dist_inv_def\<close>)
  moreover have "distinct (dpipes d)" using assms(2) by (simp add: dist_inv_def)
  ultimately show ?thesis
    using s(1,4,5) inproc_send_seq_session [OF s(2)] by auto
qed

text \<open>
  C16: \<^verbatim>\<open>nn_dist_send\<close> over the inproc transport hands the message to every pipe of the
  distributor but the excluded one, exactly once and to no other pipe; it never aborts, and
  afterwards the distributor holds exactly those of its pipes that can take another message,
  with the right count.
\<close>

theorem nn_dist_send_fanout:
  assumes "inproc_inv w" "dist_inv w d"
  shows "\<exists>d' w'. nn_dist_send nn_sinproc_pipebase_vfptr w d m exclude = Some (d', w') \<and>
    inproc_inv w' \<and> dist_inv w' d' \<and> dpipes d' = filter (can_send w') (dpipes d) \<and>
    (\<forall>p. session w' p = (if p \<in> set (dpipes d) \<and> exclude \<noteq> Some p
       then (session w p)\<lparr>smsg := merge_msg m, sending := True\<rparr> else session w p))"
  using assms by (rule inproc_dist_fanout)

text \<open>A world with a connected pair of inproc sessions, for examples.\<close>

definition pair_world :: iworld where
  "pair_world = (case handshake 0 1 (fresh_world 100) of Some w \<Rightarrow> w | None \<Rightarrow> fresh_world 100)"

lemma pair_world_ok: "inproc_inv pair_world" "can_send pair_world 0" "can_send pair_world 1"
proof -
  obtain w where w: "handshake 0 1 (fresh_world 100) = Some w" "pair_ok 0 1 (start_run w)"
    using handshake_pair [of 0 1 100] by auto
  have pw: "pair_world = w" by (simp only: pair_world_def w(1) option.case)
  have s: "session (fresh_world 100) r = nn_sinproc_init 100" "pipes (fresh_world 100) r = fresh_pipe"
    "pending (tstate (fresh_world 100)) = []" for r
    by (simp_all add: fresh_world_def session_def)
  have act: "pending (tstate w) = []" "active_pipe w r \<longleftrightarrow> r = 0 \<or> r = 1" for r
    using w(1)
    by (auto simp: handshake_def nn_sinproc_connect_def nn_sinproc_accept_def nn_sinproc_handler_def deliver_def
        nn_fsm_feed_def sinproc_activate_def nn_pipebase_start_def no_add_def nn_fsm_raiseto_eq Let_def s
        nn_sinproc_init_def fresh_pipe_def event_active_def split: if_splits)
  show "can_send pair_world 0" "can_send pair_world 1"
    using w(2) act(1) unfolding pw
    by (auto simp: pair_ok_def linked_def dir_ok_def direction_of_def start_run_def event_active_def split: if_splits)
  have l: "linked w 0 1" "linked w 1 0"
    using w(2) by (auto simp: pair_ok_def start_run_def)
  have "sess_ok w 0" "sess_ok w 1"
    using w(2) by (auto simp: pair_ok_def linked_def dir_ok_def direction_of_def start_run_def sess_ok_def split: if_splits)
  then show "inproc_inv pair_world"
    unfolding pw inproc_inv_def using act(2) l by (auto simp: linked_def)
qed

theorem nn_dist_send_fanout_witness:
  "\<exists>d' w'. nn_dist_send nn_sinproc_pipebase_vfptr pair_world \<lparr>dcount = 2, dpipes = [0, 1]\<rparr>
     \<lparr>sphdr = [], hdrs = [], body = [7]\<rparr> (Some 1) = Some (d', w') \<and> dist_inv w' d' \<and>
     smsg (session w' 0) = \<lparr>sphdr = [], hdrs = [], body = [7]\<rparr> \<and> session w' 1 = session pair_world 1"
proof -
  have "dist_inv pair_world \<lparr>dcount = 2, dpipes = [0, 1]\<rparr>"
    using pair_world_ok by (simp add: dist_inv_def)
  then obtain d' w' where
    "nn_dist_send nn_sinproc_pipebase_vfptr pair_world \<lparr>dcount = 2, dpipes = [0, 1]\<rparr>
       \<lparr>sphdr = [], hdrs = [], body = [7]\<rparr> (Some 1) = Some (d', w')" "dist_inv w' d'"
    "\<forall>p. session w' p = (if p \<in> {0, 1} \<and> Some 1 \<noteq> Some p
       then (session pair_world p)\<lparr>smsg := merge_msg \<lparr>sphdr = [], hdrs = [], body = [7]\<rparr>, sending := True\<rparr>
       else session pair_world p)"
    using nn_dist_send_fanout [OF pair_world_ok(1), of "\<lparr>dcount = 2, dpipes = [0, 1]\<rparr>"
        "\<lparr>sphdr = [], hdrs = [], body = [7]\<rparr>" "Some 1"] by auto
  then show ?thesis by (intro exI [of _ d'] exI [of _ w']) (simp add: merge_msg_def)
qed

text \<open>
  C18: \<^verbatim>\<open>nn_lb_send\<close> over the inproc transport sends to a ready pipe of the best priority, if
  there is one, and answers \<^verbatim>\<open>EAGAIN\<close> with nothing changed otherwise.  It never aborts: the
  balancer only ever holds pipes that can take a message, before and after.
\<close>

theorem nn_lb_send_best:
  assumes "inproc_inv w" "lb_inv pr w lb"
  shows "if pl_active lb = {} then nn_lb_send nn_sinproc_pipebase_vfptr w lb m = Some (Inl EAGAIN, lb, w)
    else \<exists>c fl lb' w'. nn_lb_send nn_sinproc_pipebase_vfptr w lb m = Some (Inr (fl, c), lb', w') \<and>
      c \<in> pl_active lb \<and> (\<forall>q \<in> pl_active lb. pr c \<le> pr q) \<and> inproc_inv w' \<and> lb_inv pr w' lb' \<and>
      (\<forall>p. session w' p = (if p = c then (session w p)\<lparr>smsg := merge_msg m, sending := True\<rparr> else session w p))"
proof (cases "pl_active lb = {}")
  case True
  then show ?thesis using inproc.lb_send_empty [OF assms(2)] by simp
next
  case False
  then obtain c rc lb' w' where
    s: "nn_lb_send nn_sinproc_pipebase_vfptr w lb m = Some (Inr (rc AND NOT NN_PIPE_RELEASE, c), lb', w')"
      "nn_pipe_send nn_sinproc_pipebase_vfptr w c m = Some (rc, w')" "c \<in> pl_active lb"
      "\<forall>q \<in> pl_active lb. pr c \<le> pr q" "inproc_inv w'" "lb_inv pr w' lb'"
    using inproc.lb_send_ok [OF assms False, of m] by blast
  have "\<forall>p. session w' p = (if p = c then (session w p)\<lparr>smsg := merge_msg m, sending := True\<rparr> else session w p)"
    using inproc_send_session [OF s(2)] by simp
  then show ?thesis using False s(1,3-6) by auto
qed

theorem nn_lb_send_best_witness:
  "nn_lb_send nn_sinproc_pipebase_vfptr pair_world nn_lb_init \<lparr>sphdr = [], hdrs = [], body = [7]\<rparr> =
     Some (Inl EAGAIN, nn_lb_init, pair_world) \<and>
   (\<exists>lb fl lb' w'. nn_lb_out nn_lb_init \<lparr>dpipe = 1, dprio = 8\<rparr> = Some lb \<and>
      nn_lb_send nn_sinproc_pipebase_vfptr pair_world lb \<lparr>sphdr = [], hdrs = [], body = [7]\<rparr> = Some (Inr (fl, 1), lb', w'))"
proof -
  let ?pr = "\<lambda>p. 8 :: int"
  obtain lb where lb: "nn_lb_out nn_lb_init \<lparr>dpipe = 1, dprio = 8\<rparr> = Some lb" "pl_inv ?pr lb" "pl_active lb = {1}"
    using nn_priolist_activate_ok [OF pl_inv_init(1) [of ?pr], of 8 1] pl_inv_init(2)
    by (auto simp: nn_lb_out_def nn_lb_init_def NN_PRIOLIST_SLOTS_def)
  have "lb_inv ?pr pair_world lb" "lb_inv ?pr pair_world nn_lb_init" "pl_active nn_lb_init = {}"
    using lb pair_world_ok pl_inv_init by (auto simp: lb_inv_def nn_lb_init_def)
  then show ?thesis
    using nn_lb_send_best [OF pair_world_ok(1), of ?pr lb "\<lparr>sphdr = [], hdrs = [], body = [7]\<rparr>"]
      nn_lb_send_best [OF pair_world_ok(1), of ?pr nn_lb_init "\<lparr>sphdr = [], hdrs = [], body = [7]\<rparr>"] lb(1,3)
    by auto
qed

end
