(* ===== verification/Nn_Trie.thy ===== *)
theory Nn_Trie
  imports Nn_Prelude
begin

text \<open>
  \<^verbatim>\<open>protocols/pubsub/trie.c\<close>: the patricia trie that holds the subscriptions of a SUB socket.
  A node has a reference count, a prefix of at most ten bytes and an array of children that
  is sparse (up to eight characters with their children) or dense (one slot, possibly
  \<^verbatim>\<open>NULL\<close>, for every character from \<^verbatim>\<open>min\<close> to \<^verbatim>\<open>max\<close>).  The pointer structure is a tree, so
  it is modelled as one; \<^verbatim>\<open>NULL\<close> is \<open>None\<close>.

  \<^verbatim>\<open>nn_trie_match\<close> works on a pointer and a 64 bit size; its data argument is the memory that
  may be read from the pointer on, which may extend beyond the message.  A read outside this
  memory, a dereference of \<^verbatim>\<open>NULL\<close> and a failing \<^verbatim>\<open>assert\<close> are \<open>None\<close>.
\<close>

section \<open>Data\<close>

definition NN_TRIE_PREFIX_MAX :: nat where
  "NN_TRIE_PREFIX_MAX = 10"

definition NN_TRIE_SPARSE_MAX :: nat where
  "NN_TRIE_SPARSE_MAX = 8"

text \<open>The children: \<^verbatim>\<open>type\<close> is the number of sparse children, or the dense marker; a dense
  array has \<^verbatim>\<open>min\<close>, \<^verbatim>\<open>max\<close>, \<^verbatim>\<open>nbr\<close> and the slots.\<close>

datatype 'n kids = Sparse "(u8 \<times> 'n) list" | Dense u8 u8 u16 "'n option list"

datatype nn_trie_node = Node (refcount: u32) (prefix: bytes) (kids: "nn_trie_node kids")

type_synonym nn_trie = "nn_trie_node option"

definition nn_trie_init :: nn_trie where
  "nn_trie_init = None"

section \<open>Helpers\<close>

text \<open>How many characters of the data match the prefix.\<close>

fun nn_node_check_prefix :: "bytes \<Rightarrow> bytes \<Rightarrow> u64 \<Rightarrow> nat option" where
  "nn_node_check_prefix [] data sz = Some 0"
| "nn_node_check_prefix (p # ps) data sz =
     (if sz = 0 then Some 0
      else case data of [] \<Rightarrow> None
        | d # ds \<Rightarrow> if p \<noteq> d then Some 0 else map_option Suc (nn_node_check_prefix ps ds (sz - 1)))"

fun sparse_index :: "(u8 \<times> 'n) list \<Rightarrow> u8 \<Rightarrow> nat option" where
  "sparse_index [] c = None"
| "sparse_index ((x, n) # cs) c = (if x = c then Some 0 else map_option Suc (sparse_index cs c))"

text \<open>The slot for a character: its index among the children.\<close>

definition nn_node_next :: "'n kids \<Rightarrow> u8 \<Rightarrow> nat option" where
  "nn_node_next ks c = (case ks of Sparse cs \<Rightarrow> sparse_index cs c
     | Dense mn mx nbr arr \<Rightarrow> if c < mn \<or> c > mx then None else Some (unat (c - mn)))"

definition nn_node_child :: "'n kids \<Rightarrow> nat \<Rightarrow> 'n option" where
  "nn_node_child ks i = (case ks of Sparse cs \<Rightarrow> if i < length cs then Some (snd (cs ! i)) else None
     | Dense mn mx nbr arr \<Rightarrow> if i < length arr then arr ! i else None)"

definition set_child :: "'n kids \<Rightarrow> nat \<Rightarrow> 'n \<Rightarrow> 'n kids" where
  "set_child ks i n = (case ks of Sparse cs \<Rightarrow> Sparse (cs[i := (fst (cs ! i), n)])
     | Dense mn mx nbr arr \<Rightarrow> Dense mn mx nbr (arr[i := Some n]))"

definition nn_node_has_subscribers :: "nn_trie_node \<Rightarrow> bool" where
  "nn_node_has_subscribers node \<longleftrightarrow> refcount node \<noteq> 0"

fun nn_node_compact :: "nn_trie_node \<Rightarrow> nn_trie_node" where
  "nn_node_compact (Node rc pre (Sparse [(c, Node rc' pre' ks')])) =
     (if rc \<noteq> 0 then Node rc pre (Sparse [(c, Node rc' pre' ks')])
      else if length pre + length pre' + 1 > NN_TRIE_PREFIX_MAX then Node rc pre (Sparse [(c, Node rc' pre' ks')])
      else Node rc' (pre @ [c] @ pre') ks')"
| "nn_node_compact node = node"

section \<open>Subscribing\<close>

text \<open>Step 4: new nodes for the rest of the subscription; the last one is subscribed (step 5).\<close>

function new_nodes :: "bytes \<Rightarrow> nn_trie_node" where
  "new_nodes data = (if length data > NN_TRIE_PREFIX_MAX
     then Node 0 (take NN_TRIE_PREFIX_MAX data)
       (Sparse [(data ! NN_TRIE_PREFIX_MAX, new_nodes (drop (NN_TRIE_PREFIX_MAX + 1) data))])
     else Node 1 data (Sparse []))"
  by auto
termination by (relation "measure length") auto

declare new_nodes.simps [simp del]

text \<open>Growing a dense array to the range \<open>new_min\<close> to \<open>new_max\<close>.\<close>

definition dense_grow :: "u8 \<Rightarrow> u8 \<Rightarrow> 'n option list \<Rightarrow> u8 \<Rightarrow> u8 \<Rightarrow> 'n option list" where
  "dense_grow mn mx arr new_min new_max =
     (let old_children = unat mx - unat mn + 1; new_children = unat new_max - unat new_min + 1
      in if mn \<noteq> new_min then replicate (unat mn - unat new_min) None @ take old_children arr
         else take old_children arr @ replicate (new_children - old_children) None)"

text \<open>The children of a full sparse array spread over a dense one.\<close>

fun spread :: "u8 \<Rightarrow> (u8 \<times> 'n) list \<Rightarrow> 'n option list \<Rightarrow> 'n option list" where
  "spread new_min [] arr = arr"
| "spread new_min ((c, n) # cs) arr = spread new_min cs (arr[unat (c - new_min) := Some n])"

definition u8_min :: "u8 \<Rightarrow> u8 \<Rightarrow> u8" where
  "u8_min a b = (if a < b then a else b)"

definition u8_max :: "u8 \<Rightarrow> u8 \<Rightarrow> u8" where
  "u8_max a b = (if a > b then a else b)"

text \<open>Steps 3 and 4: add a child for the first character of the rest.  The new dense node
  that replaces a full sparse one gets the reference count 0.\<close>

definition add_child :: "nn_trie_node \<Rightarrow> u8 \<Rightarrow> bytes \<Rightarrow> nn_trie_node option" where
  "add_child node c rest = (case node of Node rc pre ks \<Rightarrow>
     (case ks of
       Sparse cs \<Rightarrow>
         if length cs < NN_TRIE_SPARSE_MAX then Some (Node rc pre (Sparse (cs @ [(c, new_nodes rest)])))
         else (let new_min = u8_min (foldl u8_min 255 (map fst cs)) c;
                   new_max = u8_max (foldl u8_max 0 (map fst cs)) c;
                   arr = spread new_min cs (replicate (unat new_max - unat new_min + 1) None)
               in do {
                 nn_assert (arr ! unat (c - new_min) = None);
                 Some (Node 0 pre (Dense new_min new_max (of_nat (length cs) + 1)
                   (arr[unat (c - new_min) := Some (new_nodes rest)]))) })
     | Dense mn mx nbr arr \<Rightarrow>
         (let new_min = (if mn < c then mn else c);
              new_max = (if mx > c then mx else c);
              (mn', mx', arr') = (if c < mn \<or> c > mx then (new_min, new_max, dense_grow mn mx arr new_min new_max)
                else (mn, mx, arr))
          in do {
            nn_assert (arr' ! unat (c - mn') = None);
            Some (Node rc pre (Dense mn' mx' (nbr + 1) (arr'[unat (c - mn') := Some (new_nodes rest)]))) })))"

text \<open>Step 5, after step 3 found no more data.\<close>

definition subscribe_here :: "nn_trie_node \<Rightarrow> int \<times> nn_trie_node" where
  "subscribe_here node = (case node of Node rc pre ks \<Rightarrow> (if rc + 1 = 1 then 1 else 0, Node (rc + 1) pre ks))"

definition step3 :: "nn_trie_node \<Rightarrow> bytes \<Rightarrow> (int \<times> nn_trie_node) option" where
  "step3 node data = (case data of [] \<Rightarrow> Some (subscribe_here node)
     | c # rest \<Rightarrow> map_option (Pair 1) (add_child node c rest))"

definition split_node :: "nn_trie_node \<Rightarrow> nat \<Rightarrow> nn_trie_node" where
  "split_node node pos = (case node of Node rc pre ks \<Rightarrow>
     Node 0 (take pos pre) (Sparse [(pre ! pos, nn_node_compact (Node rc (drop (pos + 1) pre) ks))]))"

text \<open>The number of leading characters two strings share: what \<^verbatim>\<open>nn_node_check_prefix\<close>
  computes when the data is exactly \<^verbatim>\<open>size\<close> bytes long.\<close>

fun lcp :: "bytes \<Rightarrow> bytes \<Rightarrow> nat" where
  "lcp (p # ps) (d # ds) = (if p = d then Suc (lcp ps ds) else 0)"
| "lcp ps ds = 0"

lemma check_prefix_0: "nn_node_check_prefix pre data 0 = Some 0"
  by (cases pre) auto

lemma check_prefix_mem:
  "length data < 2 ^ 64 \<Longrightarrow> nn_node_check_prefix pre (data @ more) (of_nat (length data)) = Some (lcp pre data)"
proof (induction pre data rule: lcp.induct)
  case (1 p ps d ds)
  have "of_nat (length (d # ds)) \<noteq> (0 :: u64)"
    using 1(2) by (simp add: word_of_nat_eq_0_iff nat_dvd_not_less del: of_nat_Suc length_Cons)
  then show ?case using 1 by simp
qed (auto simp: check_prefix_0)

lemmas check_prefix_lcp = check_prefix_mem [where more = "[]", unfolded append_Nil2]

lemma lcp_le: "lcp pre data \<le> length pre" "lcp pre data \<le> length data"
  by (induction pre data rule: lcp.induct) auto

lemma lcp_take: "take (lcp pre data) data = take (lcp pre data) pre"
  by (induction pre data rule: lcp.induct) auto

lemma lcp_full: "lcp pre data = length pre \<longleftrightarrow> (\<exists>rest. data = pre @ rest)"
  by (induction pre data rule: lcp.induct) auto

lemma lcp_diff: "lcp pre data < length pre \<Longrightarrow> lcp pre data < length data \<Longrightarrow>
    pre ! lcp pre data \<noteq> data ! lcp pre data"
  by (induction pre data rule: lcp.induct) auto

function nn_node_subscribe :: "nn_trie_node option \<Rightarrow> bytes \<Rightarrow> (int \<times> nn_trie_node) option" where
  "nn_node_subscribe None data = Some (1, new_nodes data)"
| "nn_node_subscribe (Some node) data = do {
     pos \<leftarrow> nn_node_check_prefix (prefix node) data (of_nat (length data));
     let data' = drop pos data;
     if pos < length (prefix node) then step3 (split_node node pos) data'
     else case data' of [] \<Rightarrow> Some (subscribe_here node)
       | c # rest \<Rightarrow> (case nn_node_next (kids node) c of None \<Rightarrow> step3 node data'
           | Some i \<Rightarrow> (case nn_node_child (kids node) i of None \<Rightarrow> step3 node data'
               | Some ch \<Rightarrow> do {
                   (rc, ch') \<leftarrow> nn_node_subscribe (Some ch) rest;
                   Some (rc, Node (refcount node) (prefix node) (set_child (kids node) i ch')) })) }"
  by pat_completeness auto
termination
proof (relation "measure (length \<circ> snd)", goal_cases)
  case (2 node data pos data' c rest)
  then have "length (c # rest) \<le> length data" by (metis diff_le_self length_drop)
  then show ?case by simp
qed simp

declare nn_node_subscribe.simps [simp del]

definition nn_trie_subscribe :: "nn_trie \<Rightarrow> bytes \<Rightarrow> (int \<times> nn_trie) option" where
  "nn_trie_subscribe self data = map_option (\<lambda>(rc, n). (rc, Some n)) (nn_node_subscribe self data)"

section \<open>Matching\<close>

function nn_node_match :: "nn_trie_node option \<Rightarrow> bytes \<Rightarrow> u64 \<Rightarrow> bool option" where
  "nn_node_match None data sz = Some False"
| "nn_node_match (Some node) data sz = do {
     n \<leftarrow> nn_node_check_prefix (prefix node) data sz;
     if n \<noteq> length (prefix node) then Some False
     else if nn_node_has_subscribers node then Some True
     else case drop (length (prefix node)) data of [] \<Rightarrow> None
       | c # rest \<Rightarrow> nn_node_match
           (case nn_node_next (kids node) c of None \<Rightarrow> None | Some i \<Rightarrow> nn_node_child (kids node) i)
           rest (sz - of_nat (length (prefix node)) - 1) }"
  by pat_completeness auto
termination
proof (relation "measure (\<lambda>(n, d, s). length d)", goal_cases)
  case (2 node data sz n c rest)
  then have "length (c # rest) \<le> length data" by (metis diff_le_self length_drop)
  then show ?case by simp
qed simp

definition nn_trie_match :: "nn_trie \<Rightarrow> bytes \<Rightarrow> u64 \<Rightarrow> bool option" where
  "nn_trie_match self data sz = nn_node_match self data sz"

section \<open>Unsubscribing\<close>

definition EINVAL_rc :: int where
  "EINVAL_rc = - 22"

text \<open>The label \<^verbatim>\<open>found\<close>: the end of the subscription is reached at this node.\<close>

definition unsubscribe_here :: "nn_trie_node option \<Rightarrow> int \<times> nn_trie_node option" where
  "unsubscribe_here self = (case self of None \<Rightarrow> (EINVAL_rc, None)
     | Some (Node rc pre ks) \<Rightarrow>
         if \<not> nn_node_has_subscribers (Node rc pre ks) then (EINVAL_rc, self)
         else if rc - 1 = 0 then
           (case ks of Sparse [] \<Rightarrow> (1, None) | _ \<Rightarrow> (1, Some (nn_node_compact (Node (rc - 1) pre ks))))
         else (0, Some (Node (rc - 1) pre ks)))"

definition first_filled :: "'n option list \<Rightarrow> nat" where
  "first_filled arr = length (takeWhile (\<lambda>x. x = None) arr)"

primrec last_filled :: "'n option list \<Rightarrow> nat \<Rightarrow> nat" where
  "last_filled arr 0 = 0"
| "last_filled arr (Suc i) = (if arr ! Suc i \<noteq> None then Suc i else last_filled arr i)"

fun dense_to_sparse :: "u8 \<Rightarrow> 'n option list \<Rightarrow> (u8 \<times> 'n) list" where
  "dense_to_sparse c [] = []"
| "dense_to_sparse c (None # arr) = dense_to_sparse (c + 1) arr"
| "dense_to_sparse c (Some n # arr) = (c, n) # dense_to_sparse (c + 1) arr"

text \<open>Pruning after the child at index \<open>i\<close>, for the character \<open>c\<close>, has become \<^verbatim>\<open>NULL\<close>: the
  sparse array, and the dense array in its four cases.  The sparse node made from a dense one
  gets the reference count 0.\<close>

definition prune_sparse :: "u32 \<Rightarrow> bytes \<Rightarrow> (u8 \<times> nn_trie_node) list \<Rightarrow> nat \<Rightarrow> nn_trie_node option" where
  "prune_sparse rc pre cs i = (let cs' = take i cs @ drop (i + 1) cs
     in if cs' = [] \<and> \<not> nn_node_has_subscribers (Node rc pre (Sparse cs')) then None
        else Some (nn_node_compact (Node rc pre (Sparse cs'))))"

definition prune_dense ::
  "u32 \<Rightarrow> bytes \<Rightarrow> u8 \<Rightarrow> u8 \<Rightarrow> u16 \<Rightarrow> nn_trie_node option list \<Rightarrow> u8 \<Rightarrow> nn_trie_node option" where
  "prune_dense rc pre mn mx nbr arr c =
     (if unat nbr > NN_TRIE_SPARSE_MAX + 1 then
        (if c = mn then (let i = first_filled arr
           in Some (Node rc pre (Dense (of_nat (i + unat mn)) mx (nbr - 1) (drop i arr))))
         else if c = mx then (let i = last_filled arr (unat mx - unat mn)
           in Some (Node rc pre (Dense mn (of_nat (i + unat mn)) (nbr - 1) (take (i + 1) arr))))
         else Some (Node rc pre (Dense mn mx (nbr - 1) arr)))
      else (let cs = dense_to_sparse mn arr
        in if length cs = NN_TRIE_SPARSE_MAX then Some (Node 0 pre (Sparse cs)) else None))"

definition prune :: "nn_trie_node \<Rightarrow> nat \<Rightarrow> u8 \<Rightarrow> (int \<times> nn_trie_node option) option" where
  "prune node i c = (case node of Node rc pre ks \<Rightarrow>
     (case ks of Sparse cs \<Rightarrow> Some (1, prune_sparse rc pre cs i)
      | Dense mn mx nbr arr \<Rightarrow>
          map_option (\<lambda>n. (1, Some n)) (prune_dense rc pre mn mx nbr (arr[i := None]) c)))"

definition put_child :: "'n kids \<Rightarrow> nat \<Rightarrow> 'n option \<Rightarrow> 'n kids" where
  "put_child ks i ch = (case ch of None \<Rightarrow> ks | Some n \<Rightarrow> set_child ks i n)"

function nn_node_unsubscribe :: "nn_trie_node option \<Rightarrow> bytes \<Rightarrow> (int \<times> nn_trie_node option) option" where
  "nn_node_unsubscribe self data =
     (if data = [] then Some (unsubscribe_here self)
      else case self of None \<Rightarrow> None
      | Some node \<Rightarrow> do {
          pos \<leftarrow> nn_node_check_prefix (prefix node) data (of_nat (length data));
          if pos \<noteq> length (prefix node) then Some (0, Some node)
          else case drop (length (prefix node)) data of [] \<Rightarrow> Some (unsubscribe_here self)
          | c # rest \<Rightarrow> (case nn_node_next (kids node) c of None \<Rightarrow> Some (0, Some node)
              | Some i \<Rightarrow> do {
                  (rc, ch) \<leftarrow> nn_node_unsubscribe (nn_node_child (kids node) i) rest;
                  let node' = Node (refcount node) (prefix node) (put_child (kids node) i ch);
                  if rc = 0 then Some (0, Some node')
                  else if ch \<noteq> None then Some (1, Some node')
                  else prune node i c }) })"
  by pat_completeness auto
termination
proof (relation "measure (length \<circ> snd)", goal_cases)
  case (2 self data node pos c rest i)
  then have "length (c # rest) \<le> length data" by (metis diff_le_self length_drop)
  then show ?case by simp
qed simp

declare nn_node_unsubscribe.simps [simp del]

definition nn_trie_unsubscribe :: "nn_trie \<Rightarrow> bytes \<Rightarrow> (int \<times> nn_trie) option" where
  "nn_trie_unsubscribe self data = nn_node_unsubscribe self data"

section \<open>Meaning\<close>

definition lookup :: "'n kids \<Rightarrow> u8 \<Rightarrow> 'n option" where
  "lookup ks c = (case nn_node_next ks c of None \<Rightarrow> None | Some i \<Rightarrow> nn_node_child ks i)"

text \<open>How often a string is subscribed below a node.\<close>

function node_subs :: "nn_trie_node \<Rightarrow> bytes \<Rightarrow> nat" where
  "node_subs node s =
     (if s = prefix node then unat (refcount node)
      else if take (length (prefix node)) s = prefix node then
        (case drop (length (prefix node)) s of [] \<Rightarrow> 0
         | c # r \<Rightarrow> (case lookup (kids node) c of None \<Rightarrow> 0 | Some ch \<Rightarrow> node_subs ch r))
      else 0)"
  by auto
termination
proof (relation "measure (length \<circ> snd)", goal_cases)
  case (2 node s c r)
  then have "length (c # r) \<le> length s" by (metis diff_le_self length_drop)
  then show ?case by simp
qed simp

declare node_subs.simps [simp del]

definition trie_subs :: "nn_trie \<Rightarrow> bytes \<Rightarrow> nat" where
  "trie_subs t s = (case t of None \<Rightarrow> 0 | Some n \<Rightarrow> node_subs n s)"

lemma node_subs_eq:
  "node_subs (Node rc pre ks) s = (if s = pre then unat rc
     else case drop (length pre) s of [] \<Rightarrow> 0
       | c # r \<Rightarrow> if take (length pre) s = pre then (case lookup ks c of None \<Rightarrow> 0 | Some ch \<Rightarrow> node_subs ch r) else 0)"
  by (subst node_subs.simps) (auto split: list.splits)

lemma node_subs_append:
  "node_subs (Node rc pre ks) (pre @ r) = (case r of [] \<Rightarrow> unat rc
     | c # r \<Rightarrow> (case lookup ks c of None \<Rightarrow> 0 | Some ch \<Rightarrow> node_subs ch r))"
  by (auto simp: node_subs_eq split: list.splits)

lemma node_subs_self [simp]: "node_subs (Node rc pre ks) pre = unat rc"
  by (simp add: node_subs_eq)

lemma node_subs_not_prefix: "(\<nexists>r. s = pre @ r) \<Longrightarrow> node_subs (Node rc pre ks) s = 0"
  by (auto simp: node_subs_eq split: list.splits) (metis append_take_drop_id)+

lemma new_nodes_subs: "node_subs (new_nodes d) s = (if s = d then 1 else 0)"
proof (induction d arbitrary: s rule: new_nodes.induct)
  case (1 d)
  show ?case
  proof (cases "length d > NN_TRIE_PREFIX_MAX")
    case False
    then show ?thesis
      by (subst new_nodes.simps) (auto simp: node_subs_eq lookup_def nn_node_next_def split: list.splits)
  next
    case True
    let ?n = NN_TRIE_PREFIX_MAX
    have d: "d = take ?n d @ d ! ?n # drop (?n + 1) d"
      using True by (simp add: id_take_nth_drop [symmetric])
    have new: "new_nodes d = Node 0 (take ?n d) (Sparse [(d ! ?n, new_nodes (drop (?n + 1) d))])"
      using True by (subst new_nodes.simps) simp
    show ?thesis
    proof (cases "\<exists>r. s = take ?n d @ r")
      case False
      then show ?thesis using node_subs_not_prefix [OF False] d by (auto simp: new)
    next
      case True
      then obtain r where r: "s = take ?n d @ r" by blast
      show ?thesis
      proof (cases r)
        case Nil
        then have "s \<noteq> d" using r \<open>length d > ?n\<close> by (metis append_Nil2 length_take min.absorb4 nat_neq_iff)
        then show ?thesis using Nil r by (simp add: new)
      next
        case (Cons c r')
        have "s = d \<longleftrightarrow> c = d ! ?n \<and> r' = drop (?n + 1) d"
          unfolding r Cons using d by (metis append_eq_append_conv list.inject)
        then show ?thesis
          using 1 [OF \<open>length d > ?n\<close>, of r'] r Cons
          by (auto simp: new node_subs_append lookup_def nn_node_next_def nn_node_child_def)
      qed
    qed
  qed
qed

section \<open>Well-formed tries\<close>

definition filled :: "'n option list \<Rightarrow> nat" where
  "filled arr = length (filter (\<lambda>x. x \<noteq> None) arr)"

fun kids_wf :: "'n kids \<Rightarrow> bool" where
  "kids_wf (Sparse cs) = (distinct (map fst cs) \<and> length cs \<le> NN_TRIE_SPARSE_MAX)"
| "kids_wf (Dense mn mx nbr arr) = (mn \<le> mx \<and> length arr = unat mx - unat mn + 1 \<and>
     unat nbr = filled arr \<and> filled arr > NN_TRIE_SPARSE_MAX)"

inductive node_wf :: "nn_trie_node \<Rightarrow> bool" where
  "(rc = 0 \<Longrightarrow> ks \<noteq> Sparse []) \<Longrightarrow> length pre \<le> NN_TRIE_PREFIX_MAX \<Longrightarrow> kids_wf ks \<Longrightarrow> (\<And>c ch. lookup ks c = Some ch \<Longrightarrow> node_wf ch) \<Longrightarrow>
   node_wf (Node rc pre ks)"

inductive_simps node_wf_iff: "node_wf (Node rc pre ks)"

definition trie_wf :: "nn_trie \<Rightarrow> bool" where
  "trie_wf t \<longleftrightarrow> (case t of None \<Rightarrow> True | Some n \<Rightarrow> node_wf n)"

subsection \<open>Children\<close>

lemma sparse_index_map_of:
  "(case sparse_index cs c of None \<Rightarrow> None | Some i \<Rightarrow> if i < length cs then Some (snd (cs ! i)) else None) = map_of cs c"
  by (induction cs c rule: sparse_index.induct) (auto split: option.splits)

lemma lookup_Sparse [simp]: "lookup (Sparse cs) = map_of cs"
  by (rule ext) (simp add: lookup_def nn_node_next_def nn_node_child_def sparse_index_map_of [symmetric] cong: option.case_cong)

lemma sparse_index_Some: "sparse_index cs c = Some i \<Longrightarrow> i < length cs \<and> fst (cs ! i) = c \<and> (\<forall>j < i. fst (cs ! j) \<noteq> c)"
proof (induction cs c arbitrary: i rule: sparse_index.induct)
  case (2 x n cs c)
  show ?case
  proof (cases "x = c")
    case False
    then obtain j where j: "sparse_index cs c = Some j" "i = Suc j" using 2 by auto
    then show ?thesis using 2(1) [OF False j(1)] False by (auto simp: nth_Cons split: nat.splits)
  qed (use 2 in auto)
qed simp

lemma lookup_Dense:
  "lookup (Dense mn mx nbr arr) c = (if mn \<le> c \<and> c \<le> mx \<and> unat (c - mn) < length arr then arr ! unat (c - mn) else None)"
  by (auto simp: lookup_def nn_node_next_def nn_node_child_def not_less)

lemma u8_diff: "(mn :: u8) \<le> c \<Longrightarrow> unat (c - mn) = unat c - unat mn"
  by (simp add: unat_sub)

lemma lookup_Dense_wf:
  "kids_wf (Dense mn mx nbr arr) \<Longrightarrow>
   lookup (Dense mn mx nbr arr) c = (if mn \<le> c \<and> c \<le> mx then arr ! (unat c - unat mn) else None)"
  by (auto simp: lookup_Dense u8_diff word_le_nat_alt)

lemma filled_append: "filled (xs @ ys) = filled xs + filled ys"
  and filled_Nones: "filled (replicate n None) = 0"
  by (simp_all add: filled_def)

lemma filled_update:
  "i < length arr \<Longrightarrow> filled (arr[i := Some n]) = (if arr ! i = None then Suc (filled arr) else filled arr)"
proof (induction arr arbitrary: i)
  case (Cons x arr)
  then show ?case by (cases i) (auto simp: filled_def)
qed simp

lemma filled_le: "filled arr \<le> length arr"
  by (simp add: filled_def)

lemma lookup_set_child:
  assumes wf: "kids_wf ks" and i: "nn_node_next ks c = Some i" "nn_node_child ks i = Some n"
  shows "lookup (set_child ks i n') = (lookup ks)(c \<mapsto> n')" "kids_wf (set_child ks i n')"
proof (atomize (full), cases ks)
  case (Sparse cs)
  then have ix: "i < length cs" "fst (cs ! i) = c" "\<forall>j < i. fst (cs ! j) \<noteq> c"
    using sparse_index_Some [of cs c i] i by (simp_all add: nn_node_next_def)
  have d: "distinct (map fst cs)" using wf Sparse by simp
  have fsts: "map fst (cs[i := (c, n')]) = map fst cs"
    using ix by (simp add: map_update) (metis list_update_id nth_map)
  have "map_of (cs[i := (c, n')]) x = ((map_of cs)(c \<mapsto> n')) x" for x
  proof (cases "x = c")
    case True
    have "(c, n') \<in> set (cs[i := (c, n')])" using ix(1) by (simp add: set_update_memI)
    then show ?thesis using True d fsts by simp
  next
    case False
    have "(x, v) \<in> set (cs[i := (c, n')]) \<longleftrightarrow> (x, v) \<in> set cs" for v
      using ix False by (auto simp: in_set_conv_nth nth_list_update) (metis fst_conv)+
    then show ?thesis
      using False d fsts by (simp add: map_of_eq_None_iff) (metis (no_types, lifting) map_of_eq_Some_iff not_None_eq)
  qed
  then show "lookup (set_child ks i n') = (lookup ks)(c \<mapsto> n') \<and> kids_wf (set_child ks i n')"
    using Sparse ix(2) fsts wf by (auto simp: set_child_def)
next
  case (Dense mn mx nbr arr)
  have c: "mn \<le> c" "c \<le> mx" "i = unat c - unat mn"
    using i(1) Dense by (auto simp: nn_node_next_def u8_diff not_less split: if_splits)
  have ai: "i < length arr" "arr ! i \<noteq> None"
    using i(2) Dense by (auto simp: nn_node_child_def split: if_splits)
  have wf': "kids_wf (Dense mn mx nbr (arr[i := Some n']))"
    using wf Dense ai by (simp add: filled_update)
  have "lookup (Dense mn mx nbr (arr[i := Some n'])) x = ((lookup ks)(c \<mapsto> n')) x" for x
  proof -
    have "unat x - unat mn = i \<longleftrightarrow> x = c" if "mn \<le> x"
      using that c by (auto simp: word_le_nat_alt word_unat_eq_iff)
    moreover have "i < length arr" using c wf Dense by (simp add: word_le_nat_alt)
    ultimately show ?thesis
      using wf Dense c unfolding lookup_Dense_wf [OF wf'] Dense by (auto simp: lookup_Dense_wf nth_list_update)
  qed
  then show "lookup (set_child ks i n') = (lookup ks)(c \<mapsto> n') \<and> kids_wf (set_child ks i n')"
    using wf' Dense by (auto simp: set_child_def)
qed


subsection \<open>Dense arrays\<close>

definition dense_ok :: "u8 \<Rightarrow> u8 \<Rightarrow> 'n option list \<Rightarrow> bool" where
  "dense_ok mn mx arr \<longleftrightarrow> mn \<le> mx \<and> length arr = unat mx - unat mn + 1"

lemma kids_wf_Dense:
  "kids_wf (Dense mn mx nbr arr) \<longleftrightarrow> dense_ok mn mx arr \<and> unat nbr = filled arr \<and> filled arr > NN_TRIE_SPARSE_MAX"
  by (auto simp: dense_ok_def)

lemma lookup_dense_ok:
  "dense_ok mn mx arr \<Longrightarrow>
   lookup (Dense mn mx nbr arr) c = (if mn \<le> c \<and> c \<le> mx then arr ! (unat c - unat mn) else None)"
  by (auto simp: dense_ok_def lookup_Dense u8_diff word_le_nat_alt)

lemma dense_update:
  assumes "dense_ok mn mx arr" "mn \<le> c" "c \<le> mx"
  shows "lookup (Dense mn mx nbr' (arr[unat (c - mn) := v])) = (lookup (Dense mn mx nbr arr))(c := v)"
    and "dense_ok mn mx (arr[unat (c - mn) := v])" and "unat (c - mn) < length arr"
    and "lookup (Dense mn mx nbr arr) c = arr ! unat (c - mn)"
proof -
  show ok: "dense_ok mn mx (arr[unat (c - mn) := v])" using assms by (simp add: dense_ok_def)
  show i: "unat (c - mn) < length arr" using assms by (simp add: dense_ok_def u8_diff word_le_nat_alt)
  show "lookup (Dense mn mx nbr arr) c = arr ! unat (c - mn)"
    using assms by (simp add: lookup_dense_ok u8_diff)
  show "lookup (Dense mn mx nbr' (arr[unat (c - mn) := v])) = (lookup (Dense mn mx nbr arr))(c := v)"
  proof
    fix x
    have "unat x - unat mn = unat c - unat mn \<longleftrightarrow> x = c" if "mn \<le> x"
      using that assms by (auto simp: word_le_nat_alt word_unat_eq_iff)
    then show "lookup (Dense mn mx nbr' (arr[unat (c - mn) := v])) x = ((lookup (Dense mn mx nbr arr))(c := v)) x"
      using assms i unfolding lookup_dense_ok [OF ok] fun_upd_apply lookup_dense_ok [OF assms(1)]
      by (auto simp: nth_list_update u8_diff)
  qed
qed

lemma dense_grow_left:
  assumes ok: "dense_ok mn mx arr" and c: "c < mn"
  shows "dense_ok c mx (dense_grow mn mx arr c mx)"
    and "lookup (Dense c mx nbr' (dense_grow mn mx arr c mx)) = lookup (Dense mn mx nbr arr)"
    and "filled (dense_grow mn mx arr c mx) = filled arr"
proof -
  have g: "dense_grow mn mx arr c mx = replicate (unat mn - unat c) None @ arr"
    using ok c by (auto simp: dense_grow_def dense_ok_def Let_def)
  show ok': "dense_ok c mx (dense_grow mn mx arr c mx)"
    using ok c unfolding g by (auto simp: dense_ok_def word_le_nat_alt word_less_nat_alt)
  show "lookup (Dense c mx nbr' (dense_grow mn mx arr c mx)) = lookup (Dense mn mx nbr arr)"
    using c ok unfolding fun_eq_iff lookup_dense_ok [OF ok] lookup_dense_ok [OF ok' [unfolded g]] g
    by (auto simp: nth_append dense_ok_def word_le_nat_alt word_less_nat_alt)
  show "filled (dense_grow mn mx arr c mx) = filled arr"
    by (simp add: g filled_append filled_Nones)
qed

lemma dense_grow_right:
  assumes ok: "dense_ok mn mx arr" and c: "mx < c"
  shows "dense_ok mn c (dense_grow mn mx arr mn c)"
    and "lookup (Dense mn c nbr' (dense_grow mn mx arr mn c)) = lookup (Dense mn mx nbr arr)"
    and "filled (dense_grow mn mx arr mn c) = filled arr"
proof -
  have g: "dense_grow mn mx arr mn c = arr @ replicate (unat c - unat mx) None"
    using ok c by (auto simp: dense_grow_def dense_ok_def Let_def word_le_nat_alt word_less_nat_alt)
  show ok': "dense_ok mn c (dense_grow mn mx arr mn c)"
    using ok c unfolding g by (auto simp: dense_ok_def word_le_nat_alt word_less_nat_alt)
  show "lookup (Dense mn c nbr' (dense_grow mn mx arr mn c)) = lookup (Dense mn mx nbr arr)"
    using c ok unfolding fun_eq_iff lookup_dense_ok [OF ok] lookup_dense_ok [OF ok' [unfolded g]] g
    by (auto simp: nth_append dense_ok_def word_le_nat_alt word_less_nat_alt)
  show "filled (dense_grow mn mx arr mn c) = filled arr"
    by (simp add: g filled_append filled_Nones)
qed

lemma spread_ok:
  assumes "dense_ok mn mx arr" "distinct (map fst cs)" "\<forall>c \<in> fst ` set cs. mn \<le> c \<and> c \<le> mx"
    and "\<forall>c \<in> fst ` set cs. lookup (Dense mn mx nbr arr) c = None"
  shows "dense_ok mn mx (spread mn cs arr) \<and>
    lookup (Dense mn mx nbr (spread mn cs arr)) = lookup (Dense mn mx nbr arr) ++ map_of cs \<and>
    filled (spread mn cs arr) = filled arr + length cs"
  using assms
proof (induction mn cs arr rule: spread.induct)
  case (2 mn c n cs arr)
  note u = dense_update [OF 2(2), of c]
  have c: "mn \<le> c" "c \<le> mx" using 2(4) by auto
  have "arr ! unat (c - mn) = None" using u(4) [OF c] 2(5) by simp
  then have f: "filled (arr[unat (c - mn) := Some n]) = Suc (filled arr)"
    using filled_update u(3) [OF c] by metis
  have "lookup (Dense mn mx nbr arr) ++ map_of ((c, n) # cs) = (lookup (Dense mn mx nbr arr))(c \<mapsto> n) ++ map_of cs"
    using map_of_eq_None_iff [of cs c] 2(3) by (auto simp: fun_eq_iff map_add_def split: option.splits)
  moreover have l: "lookup (Dense mn mx nbr (arr[unat (c - mn) := Some n])) = (lookup (Dense mn mx nbr arr))(c \<mapsto> n)"
    using u(1) [OF c] .
  have "\<forall>x \<in> fst ` set cs. lookup (Dense mn mx nbr (arr[unat (c - mn) := Some n])) x = None"
    unfolding l using 2(3,5) by auto
  then have "dense_ok mn mx (spread mn cs (arr[unat (c - mn) := Some n])) \<and>
    lookup (Dense mn mx nbr (spread mn cs (arr[unat (c - mn) := Some n]))) =
      (lookup (Dense mn mx nbr arr))(c \<mapsto> n) ++ map_of cs \<and>
    filled (spread mn cs (arr[unat (c - mn) := Some n])) = Suc (filled arr) + length cs"
    using 2(1) [OF u(2) [OF c]] 2(3,4) unfolding l f by (simp add: fun_upd_def)
  ultimately show ?case by (simp del: map_of.simps map_add_upd_left)
qed simp

subsection \<open>Adding a child\<close>

lemma foldl_u8_min: "foldl u8_min a cs \<le> a \<and> (\<forall>c \<in> set cs. foldl u8_min a cs \<le> c)"
proof (induction cs arbitrary: a)
  case (Cons x cs)
  have "u8_min a x \<le> a" "u8_min a x \<le> x" by (auto simp: u8_min_def)
  then show ?case using Cons [of "u8_min a x"] by fastforce
qed simp

lemma foldl_u8_max: "a \<le> foldl u8_max a cs \<and> (\<forall>c \<in> set cs. c \<le> foldl u8_max a cs)"
proof (induction cs arbitrary: a)
  case (Cons x cs)
  have "a \<le> u8_max a x" "x \<le> u8_max a x" by (auto simp: u8_max_def)
  then show ?case using Cons [of "u8_max a x"] by fastforce
qed simp

lemma u8_min_le: "u8_min a b \<le> a" "u8_min a b \<le> b"
  and u8_max_ge: "a \<le> u8_max a b" "b \<le> u8_max a b"
  by (auto simp: u8_min_def u8_max_def)

text \<open>A sparse array that is full is replaced by a dense one.\<close>

definition full_sparse :: "'n kids \<Rightarrow> bool" where
  "full_sparse ks \<longleftrightarrow> (case ks of Sparse cs \<Rightarrow> length cs \<ge> NN_TRIE_SPARSE_MAX | _ \<Rightarrow> False)"

lemma nbr_succ: "unat (nbr :: u16) = filled arr \<Longrightarrow> dense_ok mn mx arr \<Longrightarrow> unat (nbr + 1) = Suc (filled arr)"
  using filled_le [of arr] unsigned_less [of mx, where 'a = nat] by (simp add: dense_ok_def unat_word_ariths)

definition child_added :: "'n kids \<Rightarrow> u8 \<Rightarrow> 'n \<Rightarrow> 'n kids \<Rightarrow> bool" where
  "child_added ks c n ks' \<longleftrightarrow> lookup ks' = (lookup ks)(c \<mapsto> n) \<and> kids_wf ks' \<and> ks' \<noteq> Sparse []"

lemma child_added_Dense:
  assumes ok: "dense_ok mn mx arr" "mn \<le> c" "c \<le> mx" and l: "lookup (Dense mn mx nbr arr) = lookup ks" "lookup ks c = None"
    and f: "unat nbr = filled arr" "filled arr \<ge> NN_TRIE_SPARSE_MAX"
  shows "arr ! unat (c - mn) = None" "child_added ks c n (Dense mn mx (nbr + 1) (arr[unat (c - mn) := Some n]))"
proof -
  note u = dense_update [OF ok]
  show z: "arr ! unat (c - mn) = None" using u(4) l by metis
  have "lookup (Dense mn mx (nbr + 1) (arr[unat (c - mn) := Some n])) = (lookup ks)(c \<mapsto> n)"
    using u(1) l(1) by metis
  moreover have "kids_wf (Dense mn mx (nbr + 1) (arr[unat (c - mn) := Some n]))"
    using u(2) nbr_succ [OF f(1) ok(1)] f(2) z u(3) unfolding kids_wf_Dense by (simp add: filled_update)
  ultimately show "child_added ks c n (Dense mn mx (nbr + 1) (arr[unat (c - mn) := Some n]))"
    by (simp add: child_added_def)
qed

lemma add_child_dense:
  assumes wf: "kids_wf ks" and l: "lookup ks c = None" and ks: "ks = Dense mn mx nbr arr"
  shows "\<exists>ks'. add_child (Node rc pre ks) c rest = Some (Node rc pre ks') \<and> child_added ks c (new_nodes rest) ks'"
proof -
  have ok: "dense_ok mn mx arr" and f: "unat nbr = filled arr" "filled arr > NN_TRIE_SPARSE_MAX"
    using wf ks by (simp_all only: kids_wf_Dense)
  have mm: "mn \<le> mx" using ok by (simp add: dense_ok_def)
  have lk: "lookup (Dense mn mx nbr arr) = lookup ks" using ks by simp
  consider "c < mn" | "mx < c" | "mn \<le> c" "c \<le> mx" by force
  then show ?thesis
  proof cases
    case 1
    let ?arr = "dense_grow mn mx arr c mx"
    note g = dense_grow_left [OF ok 1]
    have s: "\<not> mn < c" "mx > c" using 1 mm by auto
    have "lookup (Dense c mx nbr ?arr) = lookup ks" using g(2) lk by metis
    note a = child_added_Dense [OF g(1) order.refl _ this l, unfolded g(3), OF _ f(1)]
    show ?thesis
      using 1 s a f(2) mm by (auto simp: add_child_def ks Let_def nn_assert_def)
  next
    case 2
    let ?arr = "dense_grow mn mx arr mn c"
    note g = dense_grow_right [OF ok 2]
    have s: "mn < c" "\<not> mx > c" using 2 mm by auto
    have "lookup (Dense mn c nbr ?arr) = lookup ks" using g(2) lk by metis
    note a = child_added_Dense [OF g(1) _ order.refl this l, unfolded g(3), OF _ f(1)]
    show ?thesis
      using 2 s a f(2) by (auto simp: add_child_def ks Let_def nn_assert_def)
  next
    case 3
    note a = child_added_Dense [OF ok 3 lk l f(1)]
    have "\<not> (c < mn \<or> c > mx)" using 3 by auto
    then show ?thesis
      using a f(2) by (auto simp: add_child_def ks Let_def nn_assert_def)
  qed
qed

lemma add_child_sparse:
  assumes wf: "kids_wf ks" and l: "lookup ks c = None" and ks: "ks = Sparse cs"
  shows "\<exists>ks'. add_child (Node rc pre ks) c rest = Some (Node (if full_sparse ks then 0 else rc) pre ks') \<and>
    child_added ks c (new_nodes rest) ks'"
proof (cases "length cs < NN_TRIE_SPARSE_MAX")
  case True
  have new: "c \<notin> fst ` set cs" using l ks by (simp add: map_of_eq_None_iff)
  have "map_of (cs @ [(c, n)]) = (map_of cs)(c \<mapsto> n)" for n
  proof -
    have "map_of cs c = None" using l ks by simp
    then show ?thesis by (auto simp: map_add_def fun_eq_iff split: option.splits)
  qed
  then have "child_added ks c (new_nodes rest) (Sparse (cs @ [(c, new_nodes rest)]))"
    using wf ks True new by (auto simp: child_added_def)
  then show ?thesis using True by (simp add: add_child_def ks full_sparse_def)
next
  case False
  have len: "length cs = NN_TRIE_SPARSE_MAX" using wf ks False by simp
  let ?mn = "u8_min (foldl u8_min 255 (map fst cs)) c" and ?mx = "u8_max (foldl u8_max 0 (map fst cs)) c"
  let ?none = "replicate (unat ?mx - unat ?mn + 1) None :: nn_trie_node option list"
  let ?arr = "spread ?mn cs ?none" and ?nbr = "of_nat (length cs) :: u16"
  have rng: "\<forall>x \<in> fst ` set cs. ?mn \<le> x \<and> x \<le> ?mx" and c: "?mn \<le> c" "c \<le> ?mx"
    using foldl_u8_min [of 255 "map fst cs"] foldl_u8_max [of 0 "map fst cs"]
    by (auto intro: order.trans [OF u8_min_le(1)] order.trans [OF _ u8_max_ge(1)] u8_min_le(2) u8_max_ge(2))
  have ok0: "dense_ok ?mn ?mx ?none" using c by (auto simp: dense_ok_def)
  have l0: "lookup (Dense ?mn ?mx ?nbr ?none) = Map.empty"
    unfolding fun_eq_iff lookup_dense_ok [OF ok0] by (auto simp: word_le_nat_alt simp del: replicate_Suc)
  have ok: "dense_ok ?mn ?mx ?arr" and lk: "lookup (Dense ?mn ?mx ?nbr ?arr) = lookup ks" and f: "filled ?arr = length cs"
    using spread_ok [OF ok0 _ rng, of ?nbr] wf ks l0 by (auto simp: filled_Nones simp del: replicate_Suc)
  have "unat ?nbr = filled ?arr" using f len by (simp add: NN_TRIE_SPARSE_MAX_def)
  note a = child_added_Dense [OF ok c lk l this, unfolded f, OF eq_imp_le [OF len [symmetric]]]
  show ?thesis
    using a False by (simp add: add_child_def ks Let_def full_sparse_def)
qed

lemma add_child_ok:
  assumes "kids_wf ks" "lookup ks c = None"
  shows "\<exists>ks'. add_child (Node rc pre ks) c rest = Some (Node (if full_sparse ks then 0 else rc) pre ks') \<and>
    child_added ks c (new_nodes rest) ks'"
proof (cases ks)
  case (Dense mn mx nbr arr)
  then show ?thesis using add_child_dense [OF assms Dense, of rc pre rest] by (simp add: full_sparse_def)
qed (rule add_child_sparse [OF assms])

section \<open>Structural changes keep the subscriptions\<close>

lemma node_wf_new_nodes: "node_wf (new_nodes d)"
proof (induction d rule: new_nodes.induct)
  case (1 d)
  then show ?case
    by (subst new_nodes.simps) (auto simp: node_wf_iff NN_TRIE_SPARSE_MAX_def split: if_splits)
qed

lemma node_subs_one_child:
  "node_subs (Node 0 pre (Sparse [(c, ch)])) s =
     (if take (length pre + 1) s = pre @ [c] then node_subs ch (drop (length pre + 1) s) else 0)"
proof (cases "\<exists>r. s = pre @ r")
  case True
  then obtain r where "s = pre @ r" by blast
  then show ?thesis by (cases r) (auto simp: node_subs_append)
next
  case False
  then have "take (length pre + 1) s \<noteq> pre @ [c]"
    by (metis append.assoc append_take_drop_id)
  then show ?thesis using node_subs_not_prefix [OF False] by simp
qed

lemma node_subs_longer_prefix:
  "node_subs (Node rc (pre @ c # pre') ks) s =
     (if take (length pre + 1) s = pre @ [c] then node_subs (Node rc pre' ks) (drop (length pre + 1) s) else 0)"
proof (cases "take (length pre + 1) s = pre @ [c]")
  case True
  then obtain r where s: "s = pre @ c # r"
    by (metis append.assoc append_Cons append_Nil append_take_drop_id)
  then show ?thesis by (auto simp: node_subs_eq split: list.splits)
next
  case False
  then have "\<nexists>r. s = (pre @ c # pre') @ r" by auto
  then show ?thesis using False node_subs_not_prefix by simp
qed

lemma nn_node_compact_cases:
  obtains "nn_node_compact n = n" | pre c rc' pre' ks' where "n = Node 0 pre (Sparse [(c, Node rc' pre' ks')])"
    "length pre + length pre' + 1 \<le> NN_TRIE_PREFIX_MAX" "nn_node_compact n = Node rc' (pre @ c # pre') ks'"
proof (cases n rule: nn_node_compact.cases)
  case (1 rc pre c rc' pre' ks')
  then show ?thesis
    using that by (cases "rc = 0 \<and> length pre + length pre' + 1 \<le> NN_TRIE_PREFIX_MAX") auto
qed (use that in auto)

lemma node_subs_compact [simp]: "node_subs (nn_node_compact n) = node_subs n"
  by (rule ext, cases n rule: nn_node_compact_cases)
    (simp_all add: node_subs_one_child node_subs_longer_prefix)

lemma node_wf_compact: "node_wf n \<Longrightarrow> node_wf (nn_node_compact n)"
proof (cases n rule: nn_node_compact_cases)
  case (2 pre c rc' pre' ks')
  assume "node_wf n"
  then have "node_wf (Node rc' pre' ks')"
    using 2(1) by (auto simp: node_wf_iff [of 0] dest: spec [of _ c])
  then show ?thesis using 2 by (auto simp: node_wf_iff)
qed simp

lemma node_subs_upd:
  assumes "lookup ks' = (lookup ks)(c := Some ch')"
  shows "node_subs (Node rc' pre ks') s = (if s = pre then unat rc'
    else if take (length pre + 1) s = pre @ [c] then node_subs ch' (drop (length pre + 1) s)
    else node_subs (Node rc pre ks) s)"
proof (cases "\<exists>r. s = pre @ r")
  case True
  then obtain r where "s = pre @ r" by blast
  then show ?thesis by (cases r) (auto simp: node_subs_append assms)
next
  case False
  then have "take (length pre + 1) s \<noteq> pre @ [c]"
    by (metis append.assoc append_take_drop_id)
  then show ?thesis using node_subs_not_prefix [OF False] by auto
qed

lemma node_wf_upd:
  assumes "node_wf (Node rc pre ks)" "lookup ks' = (lookup ks)(c \<mapsto> ch')" "kids_wf ks'" "ks' \<noteq> Sparse []" "node_wf ch'"
  shows "node_wf (Node rc' pre ks')"
  using assms by (auto simp: node_wf_iff)

lemma split_node_ok:
  assumes wf: "node_wf (Node rc pre ks)" and pos: "pos < length pre"
  shows "node_wf (split_node (Node rc pre ks) pos)" "node_subs (split_node (Node rc pre ks) pos) = node_subs (Node rc pre ks)"
proof -
  have "node_wf (Node rc (drop (pos + 1) pre) ks)" using wf by (auto simp: node_wf_iff)
  then show "node_wf (split_node (Node rc pre ks) pos)"
    using node_wf_compact wf pos by (auto simp: split_node_def node_wf_iff NN_TRIE_SPARSE_MAX_def)
  have "pre = take pos pre @ pre ! pos # drop (pos + 1) pre"
    using pos by (simp add: id_take_nth_drop [symmetric])
  then have "node_subs (Node rc pre ks) s =
    node_subs (Node rc (take pos pre @ pre ! pos # drop (pos + 1) pre) ks) s" for s by simp
  also have "\<dots> s = node_subs (split_node (Node rc pre ks) pos) s" for s
    unfolding node_subs_longer_prefix by (simp add: split_node_def node_subs_one_child)
  finally show "node_subs (split_node (Node rc pre ks) pos) = node_subs (Node rc pre ks)" by auto
qed

section \<open>The effect of a subscription\<close>

text \<open>The subscription that is lost when a full sparse node that is itself subscribed is
  replaced by a dense one.\<close>

function spill :: "nn_trie_node \<Rightarrow> bytes \<Rightarrow> bytes option" where
  "spill node d = (if lcp (prefix node) d < length (prefix node) then None
     else case drop (length (prefix node)) d of [] \<Rightarrow> None
       | c # rest \<Rightarrow> (case lookup (kids node) c of None \<Rightarrow> if full_sparse (kids node) then Some (prefix node) else None
           | Some ch \<Rightarrow> map_option (\<lambda>p. prefix node @ c # p) (spill ch rest)))"
  by auto
termination
proof (relation "measure (length \<circ> snd)", goal_cases)
  case (2 node d c rest)
  then have "length (c # rest) \<le> length d" by (metis diff_le_self length_drop)
  then show ?case by simp
qed simp

declare spill.simps [simp del]

definition subscribed :: "nn_trie_node \<Rightarrow> bytes \<Rightarrow> bytes option \<Rightarrow> (int \<times> nn_trie_node) option \<Rightarrow> bool" where
  "subscribed n d lost r \<longleftrightarrow> (\<exists>n'. r = Some (if node_subs n d = 0 then 1 else 0, n') \<and> node_wf n' \<and>
     (\<forall>s. node_subs n' s = (if lost = Some s then 0 else node_subs n s) + (if s = d then 1 else 0)))"

lemma subscribe_here_ok:
  assumes "node_wf (Node rc pre ks)" "unat rc + 1 < 2 ^ 32"
  shows "subscribed (Node rc pre ks) pre None (Some (subscribe_here (Node rc pre ks)))"
proof -
  have rc: "unat (rc + 1) = unat rc + 1" using assms(2) by (simp add: unat_word_ariths)
  then have z: "rc + 1 \<noteq> 0" by (metis add_is_0 unat_0 zero_neq_one)
  have "rc + 1 = 1 \<longleftrightarrow> unat rc = 0" by (simp add: unat_eq_0)
  moreover have "node_subs (Node (rc + 1) pre ks) s = node_subs (Node rc pre ks) s + (if s = pre then 1 else 0)" for s
    using rc by (auto simp: node_subs_eq)
  ultimately show ?thesis
    using assms(1) z by (auto simp: subscribed_def subscribe_here_def node_wf_iff)
qed

lemma step3_ok:
  assumes wf: "node_wf (Node rc pre ks)" and l: "lookup ks c = None"
  shows "subscribed (Node rc pre ks) (pre @ c # rest) (if full_sparse ks then Some pre else None)
    (step3 (Node rc pre ks) (c # rest))"
proof -
  have "kids_wf ks" using wf by (simp add: node_wf_iff)
  from add_child_ok [OF this l] obtain ks' where
    add: "add_child (Node rc pre ks) c rest = Some (Node (if full_sparse ks then 0 else rc) pre ks')"
    and added: "child_added ks c (new_nodes rest) ks'" by blast
  note lk = added [unfolded child_added_def, THEN conjunct1]
  have wf': "node_wf (Node (if full_sparse ks then 0 else rc) pre ks')"
    using node_wf_upd [OF wf lk _ _ node_wf_new_nodes] added by (simp add: child_added_def)
  have z: "node_subs (Node rc pre ks) (pre @ c # r) = 0" for r
    using l by (simp add: node_subs_append)
  have "node_subs (Node (if full_sparse ks then 0 else rc) pre ks') s =
    (if (if full_sparse ks then Some pre else None) = Some s then 0 else node_subs (Node rc pre ks) s) +
    (if s = pre @ c # rest then 1 else 0)" for s
  proof (cases "take (length pre + 1) s = pre @ [c]")
    case True
    then obtain r where "s = pre @ c # r"
      by (metis append.assoc append_Cons append_Nil append_take_drop_id)
    then show ?thesis using z [of r] by (simp add: node_subs_upd [OF lk, of _ _ _ rc] new_nodes_subs)
  next
    case False
    then have "s \<noteq> pre @ c # rest" by auto
    then show ?thesis using False by (auto simp: node_subs_upd [OF lk, of _ _ _ rc])
  qed
  then show ?thesis
    using add wf' z by (auto simp: subscribed_def step3_def)
qed

lemma lookup_SomeE:
  assumes "lookup ks c = Some ch"
  obtains i where "nn_node_next ks c = Some i" "nn_node_child ks i = Some ch"
  using assms that by (auto simp: lookup_def split: option.splits)

lemma subscribe_split:
  assumes wf: "node_wf (Node rc pre ks)" and pos: "lcp pre d < length pre"
  shows "subscribed (Node rc pre ks) d None (step3 (split_node (Node rc pre ks) (lcp pre d)) (drop (lcp pre d) d))"
proof -
  let ?pos = "lcp pre d" and ?n = "Node rc pre ks"
  note sp = split_node_ok [OF wf pos]
  obtain ch where n': "split_node ?n ?pos = Node 0 (take ?pos pre) (Sparse [(pre ! ?pos, ch)])"
    by (simp add: split_node_def)
  have d: "d = take ?pos pre @ drop ?pos d" using lcp_take [of pre d] by (metis append_take_drop_id)
  show ?thesis
  proof (cases "drop ?pos d")
    case Nil
    then have "take ?pos pre = d" using d by simp
    moreover from this have "node_subs ?n d = 0" by (metis n' node_subs_self sp(2) unat_0)
    ultimately show ?thesis
      using subscribe_here_ok [OF sp(1) [unfolded n']] sp(2) Nil n' by (simp add: step3_def subscribed_def)
  next
    case (Cons c rest)
    have "?pos < length d" using Cons by (metis drop_eq_Nil linorder_not_le list.distinct(1))
    then have "c \<noteq> pre ! ?pos" using lcp_diff [OF pos] Cons by (metis Cons_nth_drop_Suc list.inject)
    then have "subscribed (split_node ?n ?pos) (take ?pos pre @ c # rest) None (step3 (split_node ?n ?pos) (c # rest))"
      using step3_ok [OF sp(1) [unfolded n'], of c rest]
      by (simp add: n' full_sparse_def NN_TRIE_SPARSE_MAX_def)
    then show ?thesis using d Cons sp(2) by (simp add: subscribed_def)
  qed
qed

lemma subscribe_child:
  assumes wf: "node_wf (Node rc pre ks)" and i: "nn_node_next ks c = Some i" "nn_node_child ks i = Some ch"
    and ch: "subscribed ch rest lost r"
  shows "subscribed (Node rc pre ks) (pre @ c # rest) (map_option (\<lambda>p. pre @ c # p) lost)
    (case r of None \<Rightarrow> None | Some (rv, ch') \<Rightarrow> Some (rv, Node rc pre (set_child ks i ch')))"
proof -
  obtain ch' where r: "r = Some (if node_subs ch rest = 0 then 1 else 0, ch')" and wf': "node_wf ch'"
    and sub: "\<And>s. node_subs ch' s = (if lost = Some s then 0 else node_subs ch s) + (if s = rest then 1 else 0)"
    using ch by (auto simp: subscribed_def)
  have l: "lookup ks c = Some ch" using i by (simp add: lookup_def)
  have "kids_wf ks" using wf by (simp add: node_wf_iff)
  note sc = lookup_set_child [OF this i, of ch']
  have "set_child ks i ch' \<noteq> Sparse []" using fun_cong [OF sc(1), of c] by auto
  then have "node_wf (Node rc pre (set_child ks i ch'))"
    using node_wf_upd [OF wf sc(1,2) _ wf'] by simp
  moreover have "node_subs (Node rc pre ks) (pre @ c # x) = node_subs ch x" for x
    using l by (simp add: node_subs_append)
  moreover have "node_subs (Node rc pre (set_child ks i ch')) s =
    (if map_option (\<lambda>p. pre @ c # p) lost = Some s then 0 else node_subs (Node rc pre ks) s) +
    (if s = pre @ c # rest then 1 else 0)" for s
  proof (cases "take (length pre + 1) s = pre @ [c]")
    case True
    then obtain x where "s = pre @ c # x"
      by (metis append.assoc append_Cons append_Nil append_take_drop_id)
    then show ?thesis using l by (auto simp: sc(1) sub node_subs_append)
  next
    case False
    then have "s \<noteq> pre @ c # x" for x by auto
    then show ?thesis using False by (auto simp: node_subs_upd [OF sc(1), of _ _ _ rc])
  qed
  ultimately show ?thesis by (auto simp: subscribed_def r)
qed

lemma nn_node_subscribe_ok:
  "node_wf n \<Longrightarrow> length d < 2 ^ 64 \<Longrightarrow> node_subs n d + 1 < 2 ^ 32 \<Longrightarrow>
   subscribed n d (spill n d) (nn_node_subscribe (Some n) d)"
proof (induction d arbitrary: n rule: length_induct)
  case (1 d)
  obtain rc pre ks where n: "n = Node rc pre ks" by (cases n)
  note wf = 1(2) [unfolded n] and cp = check_prefix_lcp [OF 1(3), of pre]
  show ?case
  proof (cases "lcp pre d < length pre")
    case True
    then show ?thesis
      using subscribe_split [OF wf True] cp n by (simp add: spill.simps Let_def nn_node_subscribe.simps)
  next
    case False
    then obtain r where d: "d = pre @ r" and lcp: "lcp pre d = length pre"
      using lcp_le(1) [of pre d] lcp_full by (metis le_neq_implies_less)
    then have dr: "drop (length pre) d = r" by simp
    have unf: "nn_node_subscribe (Some n) d = (case r of [] \<Rightarrow> Some (subscribe_here n)
      | c # rest \<Rightarrow> (case nn_node_next ks c of None \<Rightarrow> step3 n r
         | Some i \<Rightarrow> (case nn_node_child ks i of None \<Rightarrow> step3 n r
            | Some ch \<Rightarrow> (case nn_node_subscribe (Some ch) rest of None \<Rightarrow> None
                | Some (rv, ch') \<Rightarrow> Some (rv, Node rc pre (set_child ks i ch'))))))"
      using cp lcp dr n by (subst nn_node_subscribe.simps) (auto simp: Let_def split: list.splits option.splits)
    show ?thesis
    proof (cases r)
      case Nil
      then show ?thesis
        using subscribe_here_ok [OF wf] 1(4) n unf lcp d by (simp add: spill.simps)
    next
      case (Cons c rest)
      show ?thesis
      proof (cases "lookup ks c")
        case None
        then have "nn_node_subscribe (Some n) d = step3 (Node rc pre ks) (c # rest)"
          using unf Cons n by (auto simp: lookup_def split: option.splits)
        then show ?thesis
          using step3_ok [OF wf None, of rest] Cons d lcp None n by (simp add: spill.simps split: if_splits)
      next
        case (Some ch)
        then obtain i where i: "nn_node_next ks c = Some i" "nn_node_child ks i = Some ch" by (rule lookup_SomeE)
        have "node_wf ch" using wf Some by (simp add: node_wf_iff)
        moreover have "node_subs ch rest + 1 < 2 ^ 32" using 1(4) d Cons Some n by (simp add: node_subs_append)
        ultimately have "subscribed ch rest (spill ch rest) (nn_node_subscribe (Some ch) rest)"
          using 1(1,3) d Cons by simp
        then show ?thesis
          using subscribe_child [OF wf i, of rest] unf lcp d Cons Some i n
          by (simp add: spill.simps [of "Node rc pre ks"])
      qed
    qed
  qed
qed

definition trie_spill :: "nn_trie \<Rightarrow> bytes \<Rightarrow> bytes option" where
  "trie_spill t d = (case t of None \<Rightarrow> None | Some n \<Rightarrow> spill n d)"

lemma trie_subscribe_ok:
  assumes "trie_wf t" "length d < 2 ^ 64" "trie_subs t d + 1 < 2 ^ 32"
  shows "\<exists>t'. nn_trie_subscribe t d = Some (if trie_subs t d = 0 then 1 else 0, t') \<and> trie_wf t' \<and>
    (\<forall>s. trie_subs t' s = (if trie_spill t d = Some s then 0 else trie_subs t s) + (if s = d then 1 else 0))"
proof (cases t)
  case None
  then show ?thesis
    by (simp add: nn_trie_subscribe_def trie_subs_def trie_wf_def nn_node_subscribe.simps trie_spill_def
        new_nodes_subs node_wf_new_nodes)
next
  case (Some n)
  then show ?thesis
    using nn_node_subscribe_ok [of n d] assms
    by (auto simp: subscribed_def nn_trie_subscribe_def trie_subs_def trie_wf_def trie_spill_def)
qed

text \<open>
  C9: Subscribing.  On a well-formed trie \<^verbatim>\<open>nn_trie_subscribe\<close> does not abort, keeps the trie
  well-formed, returns 1 exactly when the string was not subscribed before, and adds one to
  the count of this string and to no other.  One subscription is forgotten: that of a node
  with eight children, when the new string gives it a ninth (\<open>trie_spill\<close>).\<close>

theorem nn_trie_subscribe_spec:
  assumes "trie_wf t" "length d < 2 ^ 64" "trie_subs t d + 1 < 2 ^ 32"
  shows "\<exists>t'. nn_trie_subscribe t d = Some (if trie_subs t d = 0 then 1 else 0, t') \<and> trie_wf t' \<and>
    (\<forall>s. trie_subs t' s = (if trie_spill t d = Some s then 0 else trie_subs t s) + (if s = d then 1 else 0))"
  using assms by (rule trie_subscribe_ok)

section \<open>The effect of matching\<close>

lemma kids_nonempty: "kids_wf ks \<Longrightarrow> ks \<noteq> Sparse [] \<Longrightarrow> \<exists>c ch. lookup ks c = Some ch"
proof (cases ks)
  case (Sparse cs)
  assume "ks \<noteq> Sparse []"
  then obtain c ch cs' where "cs = (c, ch) # cs'" using Sparse by (cases cs) auto
  then show ?thesis using Sparse by auto
next
  case (Dense mn mx nbr arr)
  assume wf: "kids_wf ks"
  then have "filter (\<lambda>x. x \<noteq> None) arr \<noteq> []"
    using Dense by (auto simp: filled_def)
  then obtain i where i: "i < length arr" "arr ! i \<noteq> None" by (auto simp: filter_empty_conv in_set_conv_nth)
  let ?c = "mn + of_nat i"
  have "i \<le> unat mx - unat mn" "mn \<le> mx" using i wf Dense by auto
  then have "unat mn + i < 2 ^ 8" using unsigned_less [of mx, where 'a = nat] by (simp add: word_le_nat_alt)
  then have c: "unat ?c = unat mn + i" by (simp add: unat_word_ariths unat_of_nat)
  then have "lookup ks ?c = arr ! i"
    using Dense wf \<open>i \<le> unat mx - unat mn\<close> lookup_Dense_wf [of mn mx nbr arr ?c]
    by (auto simp: word_le_nat_alt split: if_splits)
  then show ?thesis using i(2) by (metis not_None_eq)
qed

text \<open>Every node leads to a subscription.\<close>

lemma node_has_sub: "node_wf n \<Longrightarrow> \<exists>s. node_subs n s > 0"
proof (induction rule: node_wf.induct)
  case (1 rc ks pre)
  show ?case
  proof (cases "rc = 0")
    case True
    then obtain c ch where l: "lookup ks c = Some ch" using 1 kids_nonempty by blast
    then obtain s where "node_subs ch s > 0" using 1 by blast
    then have "node_subs (Node rc pre ks) (pre @ c # s) > 0" using l by (simp add: node_subs_append)
    then show ?thesis by blast
  next
    case False
    then have "node_subs (Node rc pre ks) pre > 0" by (simp add: unat_gt_0)
    then show ?thesis by blast
  qed
qed

lemma lookup_next: "lookup ks c = (case nn_node_next ks c of None \<Rightarrow> None | Some i \<Rightarrow> nn_node_child ks i)"
  by (simp add: lookup_def)

declare nn_node_match.simps(2) [simp del]

lemma nn_node_match_ok:
  "node_wf n \<Longrightarrow> length d < 2 ^ 64 \<Longrightarrow> (\<And>s. node_subs n (d @ s) > 0 \<Longrightarrow> s = []) \<Longrightarrow>
   nn_node_match (Some n) (d @ more) (of_nat (length d)) = Some (\<exists>k. node_subs n (take k d) > 0)"
proof (induction d arbitrary: n rule: length_induct)
  case (1 d)
  obtain rc pre ks where n: "n = Node rc pre ks" by (cases n)
  note wf = 1(2) [unfolded n] and cp = check_prefix_mem [OF 1(3), of pre more]
  show ?case
  proof (cases "lcp pre d < length pre")
    case True
    have "\<nexists>r. take k d = pre @ r" for k
    proof
      assume "\<exists>r. take k d = pre @ r"
      then have "\<exists>r. d = pre @ r" by (metis append.assoc append_take_drop_id)
      then show False using True by (simp add: lcp_full [symmetric])
    qed
    then show ?thesis using True cp n node_subs_not_prefix by (simp add: nn_node_match.simps)
  next
    case False
    then obtain r where d: "d = pre @ r" and lcp: "lcp pre d = length pre"
      using lcp_le(1) [of pre d] lcp_full by (metis le_neq_implies_less)
    have match: "nn_node_match (Some n) (d @ more) (of_nat (length d)) =
      (if rc \<noteq> 0 then Some True else case r @ more of [] \<Rightarrow> None
       | c # rest \<Rightarrow> nn_node_match (lookup ks c) rest (of_nat (length d) - of_nat (length pre) - 1))"
      using cp lcp d n by (simp add: nn_node_match.simps nn_node_has_subscribers_def lookup_next cong: list.case_cong option.case_cong)
    show ?thesis
    proof (cases "rc = 0")
      case False
      then have "node_subs n (take (length pre) d) > 0" using n d by (simp add: unat_gt_0)
      then show ?thesis using match False by auto
    next
      case True
      obtain c rest where r: "r = c # rest"
      proof (cases r)
        case Nil
        obtain s where s: "node_subs n s > 0" using node_has_sub [OF 1(2)] by blast
        then obtain x where "s = pre @ x" using n node_subs_not_prefix [of s pre rc ks] by auto
        then show ?thesis using 1(4) [of x] s Nil d True n by simp
      qed
      have k: "node_subs n (take k d) > 0 \<longleftrightarrow>
        k > length pre \<and> (case lookup ks c of None \<Rightarrow> False | Some ch \<Rightarrow> node_subs ch (take (k - length pre - 1) rest) > 0)" for k
      proof (cases "k > length pre")
        case True
        then have "take k d = pre @ c # take (k - length pre - 1) rest"
          using d r by (cases "k - length pre") auto
        then show ?thesis using True n by (simp add: node_subs_append split: option.splits)
      next
        case False
        then show ?thesis using d n \<open>rc = 0\<close>
          by (auto simp: node_subs_eq)
      qed
      show ?thesis
      proof (cases "lookup ks c")
        case None
        then show ?thesis using match True r k by simp
      next
        case (Some ch)
        have "node_wf ch" using wf Some by (simp add: node_wf_iff)
        moreover have "s = []" if "node_subs ch (rest @ s) > 0" for s
          using that 1(4) [of s] d r Some n by (simp add: node_subs_append)
        moreover have "of_nat (length d) - of_nat (length pre) - 1 = (of_nat (length rest) :: u64)"
          using d r by simp
        ultimately have "nn_node_match (Some n) (d @ more) (of_nat (length d)) = Some (\<exists>k. node_subs ch (take k rest) > 0)"
          using 1(1,3) match True r Some d by simp
        moreover have "(\<exists>k. node_subs n (take k d) > 0) \<longleftrightarrow> (\<exists>k. node_subs ch (take k rest) > 0)"
        proof
          assume "\<exists>k. node_subs ch (take k rest) > 0"
          then obtain k where "node_subs ch (take k rest) > 0" by blast
          then show "\<exists>k. node_subs n (take k d) > 0" using k [of "length pre + 1 + k"] Some by auto
        qed (use k Some in auto)
        ultimately show ?thesis by simp
      qed
    qed
  qed
qed

lemma trie_match_ok:
  assumes "trie_wf t" "length d < 2 ^ 64" "\<And>s. trie_subs t (d @ s) > 0 \<Longrightarrow> s = []"
  shows "nn_trie_match t (d @ more) (of_nat (length d)) = Some (\<exists>k. trie_subs t (take k d) > 0)"
proof (cases t)
  case (Some n)
  then show ?thesis
    using nn_node_match_ok [of n d more] assms by (simp add: nn_trie_match_def trie_wf_def trie_subs_def)
qed (simp add: nn_trie_match_def trie_subs_def)

text \<open>
  C11: Matching.  When no subscription is a proper extension of the message,
  \<^verbatim>\<open>nn_trie_match\<close> reads only the message and says whether some subscription is a prefix of it,
  whatever follows the message in memory.\<close>

theorem nn_trie_match_spec:
  assumes "trie_wf t" "length d < 2 ^ 64" "\<And>s. trie_subs t (d @ s) > 0 \<Longrightarrow> s = []"
  shows "nn_trie_match t (d @ more) (of_nat (length d)) = Some (\<exists>k. trie_subs t (take k d) > 0)"
  using assms by (rule trie_match_ok)

text \<open>How far matching reads: no further than the trie is deep.\<close>

lemma check_prefix_defined: "length pre \<le> length data \<Longrightarrow> nn_node_check_prefix pre data sz \<noteq> None"
  by (induction pre data sz rule: nn_node_check_prefix.induct) (auto split: list.splits)

lemma node_match_defined: "node_wf n \<Longrightarrow> \<exists>K. \<forall>data sz. length data \<ge> K \<longrightarrow> nn_node_match (Some n) data sz \<noteq> None"
proof (induction rule: node_wf.induct)
  case (1 rc ks pre)
  then have "\<forall>c. \<exists>K. \<forall>ch data sz. lookup ks c = Some ch \<longrightarrow> length data \<ge> K \<longrightarrow> nn_node_match (Some ch) data sz \<noteq> None"
    by (metis option.inject option.exhaust)
  then obtain K where K: "\<And>c ch data sz. lookup ks c = Some ch \<Longrightarrow> length data \<ge> K c \<Longrightarrow> nn_node_match (Some ch) data sz \<noteq> None"
    by metis
  define M where "M = length pre + 1 + (\<Sum>c \<in> UNIV. K c)"
  have "nn_node_match (Some (Node rc pre ks)) data sz \<noteq> None" if len: "length data \<ge> M" for data sz
  proof -
    obtain n where n: "nn_node_check_prefix pre data sz = Some n"
      using check_prefix_defined [of pre data sz] len by (auto simp: M_def)
    obtain c rest where cr: "drop (length pre) data = c # rest"
      using len by (cases "drop (length pre) data") (auto simp: M_def)
    have "length rest + 1 = length data - length pre" using arg_cong [OF cr, of length] by simp
    moreover have "K c \<le> (\<Sum>c \<in> UNIV. K c)" by (rule member_le_sum) auto
    ultimately have "length rest \<ge> K c" using len by (simp add: M_def)
    then have "nn_node_match (lookup ks c) rest z \<noteq> None" for z
      using K [of c] by (cases "lookup ks c") auto
    moreover have "nn_node_match (Some (Node rc pre ks)) data sz = (if n \<noteq> length pre then Some False
      else if nn_node_has_subscribers (Node rc pre ks) then Some True
      else nn_node_match (lookup ks c) rest (sz - of_nat (length pre) - 1))"
      using n cr by (simp add: nn_node_match.simps lookup_next cong: option.case_cong)
    ultimately show ?thesis by (simp only: split: if_split) simp
  qed
  then show ?case by blast
qed

lemma trie_match_defined: "trie_wf t \<Longrightarrow> \<exists>K. \<forall>data sz. length data \<ge> K \<longrightarrow> nn_trie_match t data sz \<noteq> None"
  using node_match_defined by (cases t) (auto simp: trie_wf_def nn_trie_match_def)

section \<open>The effect of unsubscribing\<close>

lemma node_subs_del:
  assumes "lookup ks' = (lookup ks)(c := None)"
  shows "node_subs (Node rc pre ks') s =
    (if take (length pre + 1) s = pre @ [c] then 0 else node_subs (Node rc pre ks) s)"
proof (cases "\<exists>r. s = pre @ r")
  case True
  then obtain r where "s = pre @ r" by blast
  then show ?thesis by (cases r) (auto simp: node_subs_append assms)
next
  case False
  then show ?thesis using node_subs_not_prefix [OF False] by auto
qed

lemma filled_remove: "i < length arr \<Longrightarrow> arr ! i \<noteq> None \<Longrightarrow> filled (arr[i := None]) = filled arr - 1"
proof (induction arr arbitrary: i)
  case (Cons x arr)
  show ?case
  proof (cases i)
    case (Suc j)
    then have "filled arr > 0" using Cons(2,3) by (auto simp: filled_def filter_empty_conv in_set_conv_nth intro!: exI [of _ j])
    then show ?thesis using Cons Suc by (auto simp: filled_def)
  qed (use Cons in \<open>auto simp: filled_def\<close>)
qed simp

lemma dense_trim_left:
  assumes ok: "dense_ok mn mx arr" and k: "k < length arr" "\<And>i. i < k \<Longrightarrow> arr ! i = None"
  shows "dense_ok (of_nat (k + unat mn)) mx (drop k arr)"
    "lookup (Dense (of_nat (k + unat mn)) mx nbr' (drop k arr)) = lookup (Dense mn mx nbr arr)"
    "filled (drop k arr) = filled arr"
proof -
  let ?mn = "of_nat (k + unat mn) :: u8"
  have le: "unat mn \<le> unat mx" "k \<le> unat mx - unat mn" using ok k(1) by (auto simp: dense_ok_def word_le_nat_alt)
  then have "k + unat mn < 2 ^ 8" using unsigned_less [of mx, where 'a = nat] by simp
  then have mn: "unat ?mn = k + unat mn" by (simp add: unat_of_nat del: of_nat_add)
  show ok': "dense_ok ?mn mx (drop k arr)"
    using ok k(1) le mn by (simp add: dense_ok_def word_le_nat_alt del: of_nat_add) arith
  show "lookup (Dense ?mn mx nbr' (drop k arr)) = lookup (Dense mn mx nbr arr)"
    unfolding fun_eq_iff lookup_dense_ok [OF ok'] lookup_dense_ok [OF ok] using k mn le
    by (auto simp: word_le_nat_alt not_le simp del: of_nat_add intro!: k(2) [symmetric])
  have "filled (take k arr) = 0" using k by (auto simp: filled_def filter_empty_conv in_set_conv_nth)
  then show "filled (drop k arr) = filled arr" by (metis add_0 append_take_drop_id filled_append)
qed

lemma dense_trim_right:
  assumes ok: "dense_ok mn mx arr" and k: "k < length arr" "\<And>i. k < i \<Longrightarrow> i < length arr \<Longrightarrow> arr ! i = None"
  shows "dense_ok mn (of_nat (k + unat mn)) (take (k + 1) arr)"
    "lookup (Dense mn (of_nat (k + unat mn)) nbr' (take (k + 1) arr)) = lookup (Dense mn mx nbr arr)"
    "filled (take (k + 1) arr) = filled arr"
proof -
  let ?mx = "of_nat (k + unat mn) :: u8"
  have le: "unat mn \<le> unat mx" "k \<le> unat mx - unat mn" using ok k(1) by (auto simp: dense_ok_def word_le_nat_alt)
  then have "k + unat mn < 2 ^ 8" using unsigned_less [of mx, where 'a = nat] by simp
  then have mx: "unat ?mx = k + unat mn" by (simp add: unat_of_nat del: of_nat_add)
  show ok': "dense_ok mn ?mx (take (k + 1) arr)"
    using ok k(1) le mx by (simp add: dense_ok_def word_le_nat_alt del: of_nat_add)
  show "lookup (Dense mn ?mx nbr' (take (k + 1) arr)) = lookup (Dense mn mx nbr arr)"
    unfolding fun_eq_iff lookup_dense_ok [OF ok'] lookup_dense_ok [OF ok] using k(1) mx le ok
    by (auto simp: word_le_nat_alt not_le dense_ok_def simp del: of_nat_add intro!: k(2) [symmetric])
  have "filled (drop (k + 1) arr) = 0"
    using k by (auto simp: filled_def filter_empty_conv in_set_conv_nth)
  then show "filled (take (k + 1) arr) = filled arr" by (metis add_0_right append_take_drop_id filled_append)
qed

lemma first_filled_ok:
  assumes "filled arr > 0"
  shows "first_filled arr < length arr" "\<And>i. i < first_filled arr \<Longrightarrow> arr ! i = None"
proof -
  have "\<exists>x \<in> set arr. x \<noteq> None" using assms by (auto simp: filled_def filter_empty_conv)
  then show "first_filled arr < length arr"
    unfolding first_filled_def by (induction arr) auto
  show "\<And>i. i < first_filled arr \<Longrightarrow> arr ! i = None"
    unfolding first_filled_def by (metis (mono_tags, lifting) nth_mem set_takeWhileD takeWhile_nth)
qed

lemma last_filled_ok: "last_filled arr n \<le> n \<and> (\<forall>i. last_filled arr n < i \<longrightarrow> i \<le> n \<longrightarrow> arr ! i = None)"
  by (induction n) (auto simp: le_Suc_eq)

lemma u8_succ: "c \<noteq> 255 \<Longrightarrow> unat ((c :: u8) + 1) = unat c + 1"
proof -
  assume "c \<noteq> 255"
  then have "unat c \<noteq> 255" by (simp add: word_unat_eq_iff)
  then have "Suc (unat c) < 256" using unsigned_less [of c, where 'a = nat] by simp
  then show ?thesis by (simp add: unat_word_ariths)
qed

lemma dense_to_sparse_keys:
  "unat c + length arr \<le> 256 \<Longrightarrow> distinct (map fst (dense_to_sparse c arr)) \<and>
   (\<forall>x \<in> fst ` set (dense_to_sparse c arr). c \<le> x) \<and> length (dense_to_sparse c arr) = filled arr \<and>
   map_of (dense_to_sparse c arr) x = (if c \<le> x \<and> unat x - unat c < length arr then arr ! (unat x - unat c) else None)"
proof (induction c arr rule: dense_to_sparse.induct)
  case (2 c arr)
  show ?case
  proof (cases "c = 255")
    case False
    note c = u8_succ [OF False]
    then show ?thesis using c 2 by (auto simp: filled_def word_le_nat_alt nth_Cons')
  qed (use 2 in \<open>auto simp: filled_def word_le_nat_alt\<close>)
next
  case (3 c n arr)
  show ?case
  proof (cases "c = 255")
    case False
    note c = u8_succ [OF False]
    then show ?thesis using c 3 by (auto simp: filled_def word_le_nat_alt nth_Cons' word_unat_eq_iff)
  qed (use 3 in \<open>auto simp: filled_def word_le_nat_alt word_unat_eq_iff\<close>)
qed (simp add: filled_def)

lemma sparse_remove:
  assumes "sparse_index cs c = Some i" "distinct (map fst cs)"
  shows "map_of (take i cs @ drop (i + 1) cs) = (map_of cs)(c := None)"
    "distinct (map fst (take i cs @ drop (i + 1) cs))" "length (take i cs @ drop (i + 1) cs) = length cs - 1"
proof -
  have i: "i < length cs" "fst (cs ! i) = c" using sparse_index_Some [OF assms(1)] by auto
  have cs: "cs = take i cs @ cs ! i # drop (i + 1) cs" using i(1) by (simp add: id_take_nth_drop [symmetric])
  then obtain n where cs': "cs = take i cs @ (c, n) # drop (i + 1) cs" using i(2) by (cases "cs ! i") auto
  have d: "distinct (map fst (take i cs @ (c, n) # drop (i + 1) cs))" using assms(2) cs' by metis
  then show "distinct (map fst (take i cs @ drop (i + 1) cs))" by auto
  have "map_of (take i cs @ (c, n) # drop (i + 1) cs) x = map_of (take i cs @ drop (i + 1) cs) x" if "x \<noteq> c" for x
    using that by (simp add: map_add_def cong: option.case_cong)
  moreover have "map_of (take i cs @ drop (i + 1) cs) c = None"
    using d by (auto simp: map_of_eq_None_iff simp del: map_of_append)
  moreover have "map_of cs = map_of (take i cs @ (c, n) # drop (i + 1) cs)"
    by (rule arg_cong [OF cs'])
  ultimately show "map_of (take i cs @ drop (i + 1) cs) = (map_of cs)(c := None)"
    by (simp add: fun_eq_iff del: map_of_append)
  show "length (take i cs @ drop (i + 1) cs) = length cs - 1" using i(1) by simp
qed

definition pruned :: "nn_trie_node \<Rightarrow> u8 \<Rightarrow> nn_trie_node option \<Rightarrow> bool" where
  "pruned n c t \<longleftrightarrow> trie_wf t \<and> (\<forall>s. trie_subs t s =
     (if take (length (prefix n) + 1) s = prefix n @ [c] then 0 else node_subs n s))"

lemma prunedI:
  assumes "node_wf (Node rc pre ks)" "lookup ks' = (lookup ks)(c := None)" "kids_wf ks'" "rc \<noteq> 0 \<or> ks' \<noteq> Sparse []"
  shows "pruned (Node rc pre ks) c (Some (Node rc pre ks'))"
    "pruned (Node rc pre ks) c (Some (nn_node_compact (Node rc pre ks')))"
proof -
  have wf': "node_wf (Node rc pre ks')" using assms by (auto simp: node_wf_iff)
  then show "pruned (Node rc pre ks) c (Some (Node rc pre ks'))"
    and "pruned (Node rc pre ks) c (Some (nn_node_compact (Node rc pre ks')))"
    using node_wf_compact [OF wf']
    by (simp_all add: pruned_def trie_wf_def trie_subs_def node_subs_del [OF assms(2)])
qed

lemma prune_sparse_ok:
  assumes wf: "node_wf (Node rc pre (Sparse cs))" and i: "sparse_index cs c = Some i"
  shows "pruned (Node rc pre (Sparse cs)) c (prune_sparse rc pre cs i)"
proof -
  let ?cs = "take i cs @ drop (i + 1) cs"
  have cs: "distinct (map fst cs)" "length cs \<le> NN_TRIE_SPARSE_MAX" using wf by (auto simp: node_wf_iff)
  note r = sparse_remove [OF i cs(1)]
  have l: "lookup (Sparse ?cs) = (lookup (Sparse cs))(c := None)" and k: "kids_wf (Sparse ?cs)"
    using r cs(2) by (simp_all del: map_of_append)
  show ?thesis
  proof (cases "?cs = [] \<and> rc = 0")
    case True
    then have "node_subs (Node rc pre (Sparse ?cs)) s = 0" for s
      by (simp only: True) (simp add: node_subs_eq split: list.splits)
    then have "node_subs (Node 0 pre (Sparse cs)) s = 0" if "take (length pre + 1) s \<noteq> pre @ [c]" for s
      using node_subs_del [OF l, of rc pre s] True that by metis
    then show ?thesis
      using True by (auto simp: pruned_def prune_sparse_def Let_def nn_node_has_subscribers_def trie_wf_def
          trie_subs_def)
  next
    case False
    then show ?thesis
      using prunedI(2) [OF wf l k] by (auto simp: prune_sparse_def Let_def nn_node_has_subscribers_def)
  qed
qed

lemma prune_dense_ok:
  assumes wf: "node_wf (Node rc pre (Dense mn mx nbr arr0))" and c: "mn \<le> c" "c \<le> mx" and i: "i = unat (c - mn)"
    and ch: "arr0 ! i \<noteq> None" and plain: "rc = 0" and arr: "arr = arr0[i := None]"
  shows "\<exists>n. prune_dense rc pre mn mx nbr arr c = Some n \<and> pruned (Node rc pre (Dense mn mx nbr arr0)) c (Some n)"
proof -
  let ?ks = "Dense mn mx nbr arr0"
  have ok0: "dense_ok mn mx arr0" and nbr: "unat nbr = filled arr0" and f0: "filled arr0 > NN_TRIE_SPARSE_MAX"
    using wf by (auto simp only: kids_wf_Dense node_wf_iff)
  note u = dense_update [OF ok0 c, folded i]
  have l: "lookup (Dense mn mx nbr' arr) = (lookup ?ks)(c := None)" for nbr' using u(1) arr by simp
  have ok: "dense_ok mn mx arr" and len: "length arr = unat mx - unat mn + 1" and mm: "unat mn \<le> unat mx"
    using u(2) arr by (auto simp: dense_ok_def word_le_nat_alt)
  have f: "filled arr = filled arr0 - 1" using filled_remove [OF u(3) ch] arr by simp
  show ?thesis
  proof (cases "unat nbr > NN_TRIE_SPARSE_MAX + 1")
    case True
    then have nbr': "unat (nbr - 1) = filled arr" "filled arr > NN_TRIE_SPARSE_MAX" "filled arr > 0"
      using nbr f by (auto simp: unat_sub word_le_nat_alt)
    note ff = first_filled_ok [OF nbr'(3)] and lf = last_filled_ok [of arr "unat mx - unat mn"]
    have lf': "last_filled arr (unat mx - unat mn) < length arr"
      "\<And>j. last_filled arr (unat mx - unat mn) < j \<Longrightarrow> j < length arr \<Longrightarrow> arr ! j = None"
      using lf len by auto
    note tl = dense_trim_left [OF ok ff] and tr = dense_trim_right [OF ok lf']
    have P: "pruned (Node rc pre ?ks) c (Some (Node rc pre (Dense mn' mx' (nbr - 1) arr')))"
      if "dense_ok mn' mx' arr'" "lookup (Dense mn' mx' (nbr - 1) arr') = lookup (Dense mn mx nbr arr)"
        "filled arr' = filled arr" for mn' mx' arr'
      using prunedI(1) [OF wf, of "Dense mn' mx' (nbr - 1) arr'"] that nbr' l
      by (simp only: kids_wf_Dense) simp
    show ?thesis
      using True P [OF tl] P [OF tr] P [OF ok l [of "nbr - 1", folded l [of nbr]] refl]
      by (auto simp: prune_dense_def Let_def simp del: of_nat_add)
  next
    case False
    then have f8: "filled arr = NN_TRIE_SPARSE_MAX" using nbr f f0 by simp
    let ?cs = "dense_to_sparse mn arr"
    have "unat mn + length arr \<le> 256" using len mm unsigned_less [of mx, where 'a = nat] by simp
    note ds = dense_to_sparse_keys [OF this]
    have "lookup (Sparse ?cs) = lookup (Dense mn mx nbr arr)"
      unfolding fun_eq_iff lookup_dense_ok [OF ok] using ds len mm by (auto simp: word_le_nat_alt)
    then have "lookup (Sparse ?cs) = (lookup ?ks)(c := None)" using l by simp
    moreover have "kids_wf (Sparse ?cs)" "Sparse ?cs \<noteq> Sparse []"
      using ds f8 by (auto simp: NN_TRIE_SPARSE_MAX_def)
    ultimately show ?thesis
      using False prunedI(1) [OF wf, of "Sparse ?cs"] ds f8 plain by (simp add: prune_dense_def Let_def)
  qed
qed

lemma prune_ok:
  assumes wf: "node_wf (Node rc pre ks)" and i: "nn_node_next ks c = Some i" "nn_node_child ks i = Some ch"
    and plain: "\<not> (\<exists>cs. ks = Sparse cs) \<Longrightarrow> rc = 0"
  shows "\<exists>t. prune (Node rc pre ks) i c = Some (1, t) \<and> pruned (Node rc pre ks) c t"
proof (cases ks)
  case (Sparse cs)
  then show ?thesis using prune_sparse_ok [of rc pre cs c i] wf i(1) by (simp add: prune_def nn_node_next_def)
next
  case (Dense mn mx nbr arr)
  then have "mn \<le> c" "c \<le> mx" "i = unat (c - mn)" "arr ! i \<noteq> None"
    using i by (auto simp: nn_node_next_def nn_node_child_def split: if_splits)
  then show ?thesis
    using prune_dense_ok [OF wf [unfolded Dense], of c i] plain Dense by (auto simp: prune_def)
qed

text \<open>The dense nodes above the end of a subscription are not subscribed themselves.\<close>

function dense_plain :: "nn_trie_node \<Rightarrow> bytes \<Rightarrow> bool" where
  "dense_plain node d = (case drop (length (prefix node)) d of [] \<Rightarrow> True
     | c # rest \<Rightarrow> (case kids node of Sparse cs \<Rightarrow> True | _ \<Rightarrow> refcount node = 0) \<and>
         (case lookup (kids node) c of None \<Rightarrow> True | Some ch \<Rightarrow> dense_plain ch rest))"
  by auto
termination
proof (relation "measure (length \<circ> snd)", goal_cases)
  case (2 node d c rest)
  then have "length (c # rest) \<le> length d" by (metis diff_le_self length_drop)
  then show ?case by simp
qed simp

declare dense_plain.simps [simp del]

definition unsubscribed :: "nn_trie_node \<Rightarrow> bytes \<Rightarrow> (int \<times> nn_trie_node option) option \<Rightarrow> bool" where
  "unsubscribed n d r \<longleftrightarrow> (\<exists>t. r = Some (if node_subs n d = 1 then 1 else 0, t) \<and> trie_wf t \<and>
     (\<forall>s. trie_subs t s = node_subs n s - (if s = d then 1 else 0)))"

lemma unsubscribedI:
  "r = Some (if node_subs n d = 1 then 1 else 0, t) \<Longrightarrow> trie_wf t \<Longrightarrow>
   (\<And>s. trie_subs t s = node_subs n s - (if s = d then 1 else 0)) \<Longrightarrow> unsubscribed n d r"
  unfolding unsubscribed_def by blast

lemma unsubscribe_here_ok:
  assumes wf: "node_wf (Node rc pre ks)" and rc: "rc \<noteq> 0"
  shows "unsubscribed (Node rc pre ks) pre (Some (unsubscribe_here (Some (Node rc pre ks))))"
proof -
  have dec: "unat (rc - 1) = unat rc - 1" using rc by (rule unat_minus_one)
  have "unat rc \<noteq> 0" using rc by (simp add: unat_eq_zero)
  then have one: "rc - 1 = 0 \<longleftrightarrow> unat rc = 1" using dec by (metis unat_eq_zero diff_is_0_eq le_antisym less_one linorder_not_le order.refl)
  have subs: "node_subs (Node (rc - 1) pre ks) s = node_subs (Node rc pre ks) s - (if s = pre then 1 else 0)" for s
    using dec by (auto simp: node_subs_eq)
  show ?thesis
  proof (cases "rc - 1 = 0 \<and> ks = Sparse []")
    case True
    then have "node_subs (Node (rc - 1) pre ks) s = 0" for s by (auto simp: node_subs_eq split: list.splits)
    then show ?thesis
      using True subs one rc
      by (auto simp: unsubscribed_def unsubscribe_here_def nn_node_has_subscribers_def trie_wf_def trie_subs_def)
  next
    case False
    have wf': "node_wf (Node (rc - 1) pre ks)" using wf False by (auto simp: node_wf_iff)
    have u: "unsubscribe_here (Some (Node rc pre ks)) =
      (if unat rc = 1 then 1 else 0, Some (if rc - 1 = 0 then nn_node_compact (Node (rc - 1) pre ks) else Node (rc - 1) pre ks))"
      using False rc one
      by (auto simp: unsubscribe_here_def nn_node_has_subscribers_def split: kids.splits list.splits)
    show ?thesis
      using wf' node_wf_compact [OF wf'] subs by (auto simp: u unsubscribed_def trie_wf_def trie_subs_def)
  qed
qed

lemma unsubscribe_child:
  assumes wf: "node_wf (Node rc pre ks)" and i: "nn_node_next ks c = Some i" "nn_node_child ks i = Some ch"
    and plain: "\<not> (\<exists>cs. ks = Sparse cs) \<Longrightarrow> rc = 0" and ch: "unsubscribed ch rest r" and pos: "node_subs ch rest > 0"
  shows "unsubscribed (Node rc pre ks) (pre @ c # rest)
    (case r of None \<Rightarrow> None | Some (rv, ch') \<Rightarrow>
      if rv = 0 then Some (0, Some (Node rc pre (put_child ks i ch')))
      else if ch' \<noteq> None then Some (1, Some (Node rc pre (put_child ks i ch'))) else prune (Node rc pre ks) i c)"
proof -
  let ?n = "Node rc pre ks"
  obtain t where r: "r = Some (if node_subs ch rest = 1 then 1 else 0, t)" and wf': "trie_wf t"
    and sub: "\<And>s. trie_subs t s = node_subs ch s - (if s = rest then 1 else 0)"
    using ch by (auto simp: unsubscribed_def)
  have l: "lookup ks c = Some ch" using i by (simp add: lookup_def)
  have n: "node_subs ?n (pre @ c # x) = node_subs ch x" for x using l by (simp add: node_subs_append)
  have k: "kids_wf ks" using wf by (simp add: node_wf_iff)
  have new: "trie_subs t' s = node_subs ?n s - (if s = pre @ c # rest then 1 else 0)"
    if "\<And>s. trie_subs t' s = (if take (length pre + 1) s = pre @ [c] then trie_subs t (drop (length pre + 1) s) else node_subs ?n s)"
    for t' s
  proof (cases "take (length pre + 1) s = pre @ [c]")
    case True
    then obtain x where "s = pre @ c # x"
      by (metis append.assoc append_Cons append_Nil append_take_drop_id)
    then show ?thesis using that [of s] n by (simp add: sub)
  next
    case False
    then show ?thesis using that [of s] by auto
  qed
  show ?thesis
  proof (cases t)
    case None
    then have one: "node_subs ch rest = 1" using sub [of rest] pos by (simp add: trie_subs_def)
    from prune_ok [OF wf i plain] obtain t' where t': "prune ?n i c = Some (1, t')" "pruned ?n c t'" by blast
    have "trie_subs t' s =
      (if take (length pre + 1) s = pre @ [c] then trie_subs t (drop (length pre + 1) s) else node_subs ?n s)" for s
      using t'(2) None by (simp add: pruned_def) (simp add: trie_subs_def)
    note new' = new [OF this]
    show ?thesis
      by (rule unsubscribedI [OF _ _ new']) (use t' None one n r in \<open>simp_all add: pruned_def\<close>)
  next
    case (Some ch')
    note sc = lookup_set_child [OF k i, of ch']
    have "set_child ks i ch' \<noteq> Sparse []" using fun_cong [OF sc(1), of c] by auto
    then have w: "trie_wf (Some (Node rc pre (set_child ks i ch')))"
      using node_wf_upd [OF wf sc(1,2)] wf' Some by (simp add: trie_wf_def)
    have "trie_subs (Some (Node rc pre (set_child ks i ch'))) s =
      (if take (length pre + 1) s = pre @ [c] then trie_subs t (drop (length pre + 1) s) else node_subs ?n s)" for s
      using node_subs_upd [OF sc(1), of rc pre s rc] Some by (auto simp: trie_subs_def)
    note new' = new [OF this]
    show ?thesis
      by (rule unsubscribedI [OF _ w new']) (use r n Some in \<open>simp add: put_child_def\<close>)
  qed
qed

lemma nn_node_unsubscribe_ok:
  "node_wf n \<Longrightarrow> length d < 2 ^ 64 \<Longrightarrow> node_subs n d > 0 \<Longrightarrow> dense_plain n d \<Longrightarrow>
   unsubscribed n d (nn_node_unsubscribe (Some n) d)"
proof (induction d arbitrary: n rule: length_induct)
  case (1 d)
  obtain rc pre ks where n: "n = Node rc pre ks" by (cases n)
  note wf = 1(2) [unfolded n]
  have "\<exists>r. d = pre @ r" using 1(4) n node_subs_not_prefix [of d pre rc ks] by auto
  then obtain r where d: "d = pre @ r" and "lcp pre d = length pre" using lcp_full by metis
  then have cp: "nn_node_check_prefix pre d (of_nat (length d)) = Some (length pre)"
    using check_prefix_lcp [OF 1(3), of pre] by simp
  show ?case
  proof (cases r)
    case Nil
    then have "rc \<noteq> 0" using 1(4) d n by auto
    moreover have "nn_node_unsubscribe (Some n) d = Some (unsubscribe_here (Some n))"
      using cp d n Nil by (subst nn_node_unsubscribe.simps) simp
    ultimately show ?thesis using unsubscribe_here_ok [OF wf] d Nil n by simp
  next
    case (Cons c rest)
    then obtain ch where ch: "lookup ks c = Some ch" "node_subs ch rest > 0"
      using 1(4) d n by (auto simp: node_subs_append split: option.splits)
    then obtain i where i: "nn_node_next ks c = Some i" "nn_node_child ks i = Some ch" by (meson lookup_SomeE)
    have "drop (length pre) d = c # rest" using d Cons by simp
    then have plain: "\<not> (\<exists>cs. ks = Sparse cs) \<Longrightarrow> rc = 0" "dense_plain ch rest"
      using 1(5) n ch by (subst (asm) dense_plain.simps, auto split: kids.splits)+
    have "node_wf ch" using wf ch by (simp add: node_wf_iff)
    then have "unsubscribed ch rest (nn_node_unsubscribe (Some ch) rest)"
      using 1(1,3) d Cons ch(2) plain(2) by simp
    moreover have "nn_node_unsubscribe (Some n) d = (case nn_node_unsubscribe (Some ch) rest of None \<Rightarrow> None
      | Some (rv, ch') \<Rightarrow> if rv = 0 then Some (0, Some (Node rc pre (put_child ks i ch')))
          else if ch' \<noteq> None then Some (1, Some (Node rc pre (put_child ks i ch'))) else prune (Node rc pre ks) i c)"
      using cp \<open>drop (length pre) d = c # rest\<close> n i
      by (subst nn_node_unsubscribe.simps) (auto simp: Let_def split: option.splits)
    ultimately show ?thesis
      using unsubscribe_child [OF wf i plain(1)] ch(2) d Cons n by simp
  qed
qed

definition trie_plain :: "nn_trie \<Rightarrow> bytes \<Rightarrow> bool" where
  "trie_plain t d = (case t of None \<Rightarrow> True | Some n \<Rightarrow> dense_plain n d)"

lemma trie_unsubscribe_ok:
  assumes "trie_wf t" "length d < 2 ^ 64" "trie_subs t d > 0" "trie_plain t d"
  shows "\<exists>t'. nn_trie_unsubscribe t d = Some (if trie_subs t d = 1 then 1 else 0, t') \<and> trie_wf t' \<and>
    (\<forall>s. trie_subs t' s = trie_subs t s - (if s = d then 1 else 0))"
proof (cases t)
  case (Some n)
  have t: "trie_subs t = node_subs n" using Some by (simp add: trie_subs_def fun_eq_iff)
  have "unsubscribed n d (nn_trie_unsubscribe t d)"
    using nn_node_unsubscribe_ok [of n d] assms Some t
    by (simp add: nn_trie_unsubscribe_def trie_wf_def trie_plain_def)
  then show ?thesis by (simp add: unsubscribed_def t)
qed (use assms in \<open>simp add: trie_subs_def\<close>)


section \<open>Examples\<close>

lemma trie_new: "trie_wf (Some (new_nodes d))" "trie_subs (Some (new_nodes d)) s = (if s = d then 1 else 0)"
  by (simp_all add: trie_wf_def trie_subs_def node_wf_new_nodes new_nodes_subs)

theorem nn_trie_subscribe_spec_witness:
  "\<exists>t'. nn_trie_subscribe (Some (new_nodes [97])) [97, 98] = Some (1, t') \<and> trie_wf t' \<and> trie_subs t' [97] = 1 \<and>
     trie_subs t' [97, 98] = 1"
proof -
  have "trie_spill (Some (new_nodes [97])) [97, 98] = None" by code_simp
  then show ?thesis
    using nn_trie_subscribe_spec [of "Some (new_nodes [97])" "[97, 98]"] by (auto simp: trie_new)
qed

theorem nn_trie_match_spec_witness:
  "nn_trie_match (Some (new_nodes [97])) [97, 98, 0] 2 = Some True"
proof -
  have "\<exists>k. trie_subs (Some (new_nodes [97])) (take k [97, 98]) > 0" by (rule exI [of _ 1]) (simp add: trie_new)
  then show ?thesis
    using nn_trie_match_spec [of "Some (new_nodes [97])" "[97, 98]" "[0]"] by (simp add: trie_new)
qed


fun subscribe_all :: "nn_trie \<Rightarrow> bytes list \<Rightarrow> nn_trie option" where
  "subscribe_all t [] = Some t"
| "subscribe_all t (d # ds) = do { (rc, t') \<leftarrow> nn_trie_subscribe t d; subscribe_all t' ds }"

definition two_subs :: nn_trie where
  "two_subs = (case subscribe_all nn_trie_init [[97, 97], [97, 98]] of None \<Rightarrow> None | Some t \<Rightarrow> t)"


text \<open>
  Subscriptions are lost.  A tenth subscription makes the root node dense and forgets
  that the empty string was subscribed; unsubscribing the empty string, which is not
  subscribed, removes the subscription \<^verbatim>\<open>a\<close>.\<close>

lemma nn_trie_forgets:
  "(case subscribe_all nn_trie_init ([] # map (\<lambda>c. [c]) [1, 2, 3, 4, 5, 6, 7, 8]) of None \<Rightarrow> False
    | Some t \<Rightarrow> trie_subs t [] = 1 \<and>
        (case nn_trie_subscribe t [9] of None \<Rightarrow> False | Some (rc, t') \<Rightarrow> trie_subs t' [] = 0)) \<and>
   (case nn_trie_subscribe nn_trie_init [97] of None \<Rightarrow> False
    | Some (rc, t) \<Rightarrow> trie_subs t [] = 0 \<and> trie_subs t [97] = 1 \<and> nn_trie_unsubscribe t [] = Some (1, nn_trie_init))"
  by code_simp

end
