(* ===== verification/Nn_Socket.thy ===== *)
theory Nn_Socket
  imports Nn_Sched
begin

text \<open>
  The interface between the core and the socket types (\<^verbatim>\<open>struct nn_sockbase_vfptr\<close> in
  \<^verbatim>\<open>protocol.h\<close>) and what the core relies on: a locale \<open>sp_socket\<close>, proved for every socket
  type in the theories that follow.  The laws say that no operation of a socket aborts the
  process when it is called the way \<^verbatim>\<open>core/sock.c\<close> and \<^verbatim>\<open>core/pipe.c\<close> call it, and that every
  operation keeps the socket's invariant.  A transport that in addition hands out only
  finitely many messages without new input is a \<open>draining_transport\<close>; inproc is one.
\<close>

section \<open>The virtual functions\<close>

definition NN_SOCKBASE_EVENT_IN :: u32 where
  "NN_SOCKBASE_EVENT_IN = 1"

definition NN_SOCKBASE_EVENT_OUT :: u32 where
  "NN_SOCKBASE_EVENT_OUT = 2"

text \<open>What \<^verbatim>\<open>nn_pipe_getopt\<close> answers for a pipe's endpoint.\<close>

record pipe_opts =
  sndprio :: int
  rcvprio :: int

text \<open>A \<^verbatim>\<open>NULL\<close> function is \<open>None\<close>.\<close>

record ('s, 'x) sockbase_vfptr =
  sk_add :: "'s \<Rightarrow> pid \<Rightarrow> pipe_opts \<Rightarrow> (unit rc \<times> 's) option"
  sk_rm :: "'x world \<Rightarrow> 's \<Rightarrow> pid \<Rightarrow> ('s \<times> 'x world) option"
  sk_in :: "'x world \<Rightarrow> 's \<Rightarrow> pid \<Rightarrow> ('s \<times> 'x world) option"
  sk_out :: "'x world \<Rightarrow> 's \<Rightarrow> pid \<Rightarrow> ('s \<times> 'x world) option"
  sk_events :: "'s \<Rightarrow> u32"
  sk_send :: "('x world \<Rightarrow> 's \<Rightarrow> sp_msg \<Rightarrow> (unit rc \<times> 's \<times> 'x world) option) option"
  sk_recv :: "('x world \<Rightarrow> 's \<Rightarrow> (sp_msg rc \<times> 's \<times> 'x world) option) option"
  sk_setopt :: "'s \<Rightarrow> int \<Rightarrow> int \<Rightarrow> bytes \<Rightarrow> (unit rc \<times> 's) option"

section \<open>How a socket is called\<close>

datatype sock_call = Add pid pipe_opts | Rm pid | In pid | Out pid | Send sp_msg | Recv | Setopt int int bytes

definition sock_exec ::
  "('s, 'x) sockbase_vfptr \<Rightarrow> sock_call \<Rightarrow> 's \<Rightarrow> 'x world \<Rightarrow> ('s \<times> 'x world) option" where
  "sock_exec ops c s w = (case c of
     Add p opt \<Rightarrow> map_option (\<lambda>(rc, s'). (s', w)) (sk_add ops s p opt)
   | Rm p \<Rightarrow> sk_rm ops w s p
   | In p \<Rightarrow> sk_in ops w s p
   | Out p \<Rightarrow> sk_out ops w s p
   | Send m \<Rightarrow> (case sk_send ops of None \<Rightarrow> None | Some f \<Rightarrow> map_option snd (f w s m))
   | Recv \<Rightarrow> (case sk_recv ops of None \<Rightarrow> None | Some f \<Rightarrow> map_option snd (f w s))
   | Setopt level opt val \<Rightarrow> map_option (\<lambda>(rc, s'). (s', w)) (sk_setopt ops s level opt val))"

text \<open>What a proof knows of a socket: its invariant, the pipes it has, those it will receive
  from and those it will send to, whether it takes messages from its pipes at all, whether it
  has room for another pipe, and which messages may be sent and which options set.\<close>

record 's sock_view =
  v_inv :: "'s \<Rightarrow> bool"
  v_att :: "'s \<Rightarrow> pid set"
  v_in :: "'s \<Rightarrow> pid set"
  v_out :: "'s \<Rightarrow> pid set"
  v_hears :: bool
  v_room :: "'s \<Rightarrow> bool"
  v_msgs :: "sp_msg \<Rightarrow> bool"
  v_opts :: "'s \<Rightarrow> int \<Rightarrow> int \<Rightarrow> bytes \<Rightarrow> bool"

definition opts_ok :: "pipe_opts \<Rightarrow> bool" where
  "opts_ok opt \<longleftrightarrow> 1 \<le> sndprio opt \<and> sndprio opt \<le> 16 \<and> 1 \<le> rcvprio opt \<and> rcvprio opt \<le> 16"

text \<open>A pipe is added once, and when there is room for it (the distributor counts pipes
  in 32 bits, the peer tables give them 31 bit keys); \<^verbatim>\<open>NN_PIPE_IN\<close> comes when the pipe has become ready, so it is ready
  and the socket does not hold it as ready; likewise \<^verbatim>\<open>NN_PIPE_OUT\<close>.  \<^verbatim>\<open>sock.c\<close> does not call
  functions that are \<^verbatim>\<open>NULL\<close>.\<close>

definition sock_legal :: "('s, 'x) sockbase_vfptr \<Rightarrow> 's sock_view \<Rightarrow> sock_call \<Rightarrow> 's \<Rightarrow> 'x world \<Rightarrow> bool" where
  "sock_legal ops v c s w = (case c of
     Add p opt \<Rightarrow> p \<notin> v_att v s \<and> v_room v s \<and> opts_ok opt
   | Rm p \<Rightarrow> p \<in> v_att v s
   | In p \<Rightarrow> v_hears v \<and> p \<in> v_att v s \<and> p \<notin> v_in v s \<and> can_recv w p
   | Out p \<Rightarrow> p \<in> v_att v s \<and> p \<notin> v_out v s \<and> can_send w p
   | Send m \<Rightarrow> sk_send ops \<noteq> None \<and> v_msgs v m
   | Recv \<Rightarrow> sk_recv ops \<noteq> None
   | Setopt level opt val \<Rightarrow> v_opts v s level opt val)"

definition sock_ready :: "'s sock_view \<Rightarrow> 's \<Rightarrow> 'x world \<Rightarrow> bool" where
  "sock_ready v s w \<longleftrightarrow> (\<forall>p \<in> v_in v s. can_recv w p) \<and> (\<forall>p \<in> v_out v s. can_send w p) \<and>
     v_in v s \<subseteq> v_att v s \<and> v_out v s \<subseteq> v_att v s"

definition sock_good :: "('x world \<Rightarrow> bool) \<Rightarrow> 's sock_view \<Rightarrow> 's \<Rightarrow> 'x world \<Rightarrow> bool" where
  "sock_good winv v s w \<longleftrightarrow> winv w \<and> v_inv v s \<and> sock_ready v s w"

text \<open>The states a socket can be in: after calls, and after the transport has worked on its
  own, which may change anything but what the socket relies on.\<close>

inductive sock_reach ::
  "('x world \<Rightarrow> bool) \<Rightarrow> ('s, 'x) sockbase_vfptr \<Rightarrow> 's sock_view \<Rightarrow> 's \<Rightarrow> 's \<Rightarrow> 'x world \<Rightarrow> bool"
  for winv ops v init where
  start: "winv w \<Longrightarrow> sock_reach winv ops v init init w"
| call: "sock_reach winv ops v init s w \<Longrightarrow> sock_legal ops v c s w \<Longrightarrow> sock_exec ops c s w = Some (s', w') \<Longrightarrow>
    sock_reach winv ops v init s' w'"
| transport: "sock_reach winv ops v init s w \<Longrightarrow> winv w' \<Longrightarrow> (\<forall>p. can_recv w p \<longrightarrow> can_recv w' p) \<Longrightarrow>
    (\<forall>p. can_send w p \<longrightarrow> can_send w' p) \<Longrightarrow> sock_reach winv ops v init s w'"

section \<open>The contract\<close>

locale sp_socket = transport vf winv for vf :: "'x pipebase_vfptr" and winv :: "'x world \<Rightarrow> bool" +
  fixes ops :: "('s, 'x) sockbase_vfptr" and v :: "'s sock_view" and init :: 's
  assumes init_ok: "v_inv v init" "v_att v init = {}" "v_in v init = {}" "v_out v init = {}"
    and add_law: "sock_good winv v s w \<Longrightarrow> p \<notin> v_att v s \<Longrightarrow> v_room v s \<Longrightarrow> opts_ok opt \<Longrightarrow>
      \<exists>rc s'. sk_add ops s p opt = Some (rc, s') \<and> sock_good winv v s' w"
    and rm_law: "sock_good winv v s w \<Longrightarrow> p \<in> v_att v s \<Longrightarrow>
      \<exists>s' w'. sk_rm ops w s p = Some (s', w') \<and> sock_good winv v s' w' \<and> v_att v s' = v_att v s - {p}"
    and in_law: "sock_good winv v s w \<Longrightarrow> v_hears v \<Longrightarrow> p \<in> v_att v s \<Longrightarrow> p \<notin> v_in v s \<Longrightarrow> can_recv w p \<Longrightarrow>
      \<exists>s' w'. sk_in ops w s p = Some (s', w') \<and> sock_good winv v s' w'"
    and out_law: "sock_good winv v s w \<Longrightarrow> p \<in> v_att v s \<Longrightarrow> p \<notin> v_out v s \<Longrightarrow> can_send w p \<Longrightarrow>
      \<exists>s' w'. sk_out ops w s p = Some (s', w') \<and> sock_good winv v s' w'"
    and send_law: "sock_good winv v s w \<Longrightarrow> sk_send ops = Some f \<Longrightarrow> v_msgs v m \<Longrightarrow>
      \<exists>rc s' w'. f w s m = Some (rc, s', w') \<and> sock_good winv v s' w'"
    and recv_law: "sock_good winv v s w \<Longrightarrow> sk_recv ops = Some g \<Longrightarrow>
      \<exists>rc s' w'. g w s = Some (rc, s', w') \<and> sock_good winv v s' w'"
    and setopt_law: "sock_good winv v s w \<Longrightarrow> v_opts v s level nm val \<Longrightarrow>
      \<exists>rc s'. sk_setopt ops s level nm val = Some (rc, s') \<and> sock_good winv v s' w"
begin

lemma exec_good:
  assumes "sock_good winv v s w" "sock_legal ops v c s w"
  shows "\<exists>s' w'. sock_exec ops c s w = Some (s', w') \<and> sock_good winv v s' w'"
proof (cases c)
  case (Add p opt)
  then show ?thesis using add_law [OF assms(1), of p opt] assms(2) by (auto simp: sock_exec_def sock_legal_def)
next
  case (Rm p)
  then show ?thesis using rm_law [OF assms(1), of p] assms(2) by (auto simp: sock_exec_def sock_legal_def)
next
  case (In p)
  then show ?thesis using in_law [OF assms(1), of p] assms(2) by (auto simp: sock_exec_def sock_legal_def)
next
  case (Out p)
  then show ?thesis using out_law [OF assms(1), of p] assms(2) by (auto simp: sock_exec_def sock_legal_def)
next
  case (Send m)
  then obtain f where f: "sk_send ops = Some f" "v_msgs v m" using assms(2) by (auto simp: sock_legal_def)
  then show ?thesis using send_law [OF assms(1) f] Send by (auto simp: sock_exec_def)
next
  case Recv
  then obtain g where g: "sk_recv ops = Some g" using assms(2) by (auto simp: sock_legal_def)
  then show ?thesis using recv_law [OF assms(1) g] Recv by (auto simp: sock_exec_def)
next
  case (Setopt level opt val)
  then show ?thesis using setopt_law [OF assms(1)] assms(2) by (fastforce simp: sock_exec_def sock_legal_def)
qed

lemma reach_good: "sock_reach winv ops v init s w \<Longrightarrow> sock_good winv v s w"
proof (induction rule: sock_reach.induct)
  case (start w)
  then show ?case using init_ok by (simp add: sock_good_def sock_ready_def)
next
  case (call s w c s' w')
  then show ?case using exec_good [of s w c] by auto
next
  case (transport s w w')
  then show ?case by (auto simp: sock_good_def sock_ready_def)
qed

text \<open>Whatever happens to a socket, no legal call aborts.\<close>

theorem never_aborts:
  assumes "sock_reach winv ops v init s w" "sock_legal ops v c s w"
  shows "\<exists>s' w'. sock_exec ops c s w = Some (s', w') \<and> sock_reach winv ops v init s' w'"
  using exec_good [OF reach_good [OF assms(1)] assms(2)] sock_reach.call [OF assms] by blast

end

section \<open>Transports that drain\<close>

locale draining_transport = transport vf winv for vf :: "'x pipebase_vfptr" and winv :: "'x world \<Rightarrow> bool" +
  fixes backlog :: "'x world \<Rightarrow> pid \<Rightarrow> nat"
  assumes recv_drains: "winv w \<Longrightarrow> can_recv w p \<Longrightarrow> nn_pipe_recv vf w p = Some (rc, m, w') \<Longrightarrow>
    backlog w' p < backlog w p \<and> (\<forall>q. q \<noteq> p \<longrightarrow> backlog w' q = backlog w q)"

text \<open>The messages in the queue of an inproc session, and the one its peer waits to put there.\<close>

definition inproc_backlog :: "iworld \<Rightarrow> pid \<Rightarrow> nat" where
  "inproc_backlog w p = 2 * unat (count (msgqueue (session w p))) + (if receiving (session w p) then 1 else 0)"

lemma mq_rep_count: "mq_rep q ms \<Longrightarrow> unat (count q) = length ms"
  by (simp add: mq_rep_def mq_stats_def)


lemma unblock_backlog:
  assumes w': "sinproc_unblock w p = Some w'" and q: "peer (session w p) = Some q" "q \<noteq> p"
    and mq: "mq_rep (msgqueue (session w p)) ms" "count (msgqueue (session w p)) + 1 \<noteq> 0"
  shows "inproc_backlog w' p \<le> inproc_backlog w p + 1 \<and> (\<forall>r. r \<noteq> p \<longrightarrow> inproc_backlog w' r = inproc_backlog w r)"
proof (cases "sstate (session w p) \<noteq> SIN_DISCONNECTED \<and> receiving (session w p)")
  case False
  then have "w' = w" using w' unfolding sinproc_unblock_def Let_def by (simp only: if_False option.inject)
  then show ?thesis by simp
next
  case True
  show ?thesis
  proof (rule nn_msgqueue_send_cases [OF mq, of "smsg (session w q)"])
    assume "nn_msgqueue_send (msgqueue (session w p)) (smsg (session w q)) = Some (Inl EAGAIN, msgqueue (session w p))"
    then show ?thesis using w' True q by (auto simp: sinproc_unblock_def Let_def inproc_backlog_def)
  next
    fix mq' assume s: "nn_msgqueue_send (msgqueue (session w p)) (smsg (session w q)) = Some (Inr (), mq')"
      and mq': "mq_rep mq' (ms @ [smsg (session w q)])"
    have "unat (count mq') = unat (count (msgqueue (session w p))) + 1"
      using mq_rep_count [OF mq'] mq_rep_count [OF mq(1)] by simp
    then show ?thesis
      using w' True q s by (auto simp: sinproc_unblock_def Let_def inproc_backlog_def nn_fsm_raiseto_eq split: if_splits)
  qed
qed

lemma session_received: "nn_pipebase_received p w = Some w' \<Longrightarrow> session w' r = session w r"
  by (auto simp: nn_pipebase_received_def session_def nn_fsm_raise_pipe_def split: if_splits)

lemma inproc_recv_drains:
  assumes inv: "inproc_inv w" and p: "can_recv w p" and r: "nn_pipe_recv nn_sinproc_pipebase_vfptr w p = Some (rc, m, w')"
  shows "inproc_backlog w' p < inproc_backlog w p \<and> (\<forall>r. r \<noteq> p \<longrightarrow> inproc_backlog w' r = inproc_backlog w r)"
proof -
  have "sess_ok w p" using inv p by (simp add: inproc_inv_def)
  then obtain q x ms where q: "peer (session w p) = Some q" "q \<noteq> p" and mq: "mq_rep (msgqueue (session w p)) (x # ms)"
    using p by (auto simp: sess_ok_def neq_Nil_conv)
  obtain mq' where mq': "nn_msgqueue_recv (msgqueue (session w p)) = Some (Inr x, mq')" "mq_rep mq' ms"
    using nn_msgqueue_recv_rep [OF mq] by blast
  let ?w = "set_session p ((session w p)\<lparr>msgqueue := mq'\<rparr>) (set_instate p IN_RECEIVING w)"
  obtain w1 w2 where w1: "sinproc_unblock ?w p = Some w1"
    and w2: "w2 = w1 \<or> nn_pipebase_received p w1 = Some w2" and w': "\<exists>i. w' = set_instate p i w2"
    using r mq'(1)
    by (auto simp: nn_pipe_recv_def nn_sinproc_pipebase_vfptr_def nn_sinproc_recv_def Let_def split: bind_splits if_splits)
  have "session w' r = session w1 r" for r using w2 w' session_received by (auto simp: session_def)
  then have same: "inproc_backlog w' r = inproc_backlog w1 r" for r by (simp add: inproc_backlog_def)
  have "unat (count mq') + 1 = unat (count (msgqueue (session w p)))"
    using mq_rep_count [OF mq'(2)] mq_rep_count [OF mq] by simp
  then have "inproc_backlog ?w p + 2 = inproc_backlog w p" "r \<noteq> p \<Longrightarrow> inproc_backlog ?w r = inproc_backlog w r" for r
    by (simp_all add: inproc_backlog_def)
  then show ?thesis
    using unblock_backlog [OF w1, of q ms] q mq'(2) mq_rep_room [OF mq mq'(2)] unfolding same by auto
qed

interpretation inproc: draining_transport nn_sinproc_pipebase_vfptr inproc_inv inproc_backlog
  by unfold_locales (rule inproc_recv_drains)


section \<open>Facts for the socket types\<close>

lemma pl_inv_cong: "pl_inv pr l \<Longrightarrow> (\<And>p. p \<in> pl_active l \<Longrightarrow> pr' p = pr p) \<Longrightarrow> pl_inv pr' l"
  unfolding pl_inv_def pl_active_def by (metis UN_I nth_mem)

lemma sock_goodI:
  "winv w \<Longrightarrow> v_inv v s \<Longrightarrow> (\<And>p. p \<in> v_in v s \<Longrightarrow> can_recv w p) \<Longrightarrow> (\<And>p. p \<in> v_out v s \<Longrightarrow> can_send w p) \<Longrightarrow>
   v_in v s \<subseteq> v_att v s \<Longrightarrow> v_out v s \<subseteq> v_att v s \<Longrightarrow> sock_good winv v s w"
  by (simp add: sock_good_def sock_ready_def)

lemma sock_goodD:
  assumes "sock_good winv v s w"
  shows "winv w" "v_inv v s" "p \<in> v_in v s \<Longrightarrow> can_recv w p" "p \<in> v_out v s \<Longrightarrow> can_send w p"
    "v_in v s \<subseteq> v_att v s" "v_out v s \<subseteq> v_att v s"
  using assms by (auto simp: sock_good_def sock_ready_def)


text \<open>A priority list together with the data the socket keeps for its pipes.\<close>

definition pdata_prio :: "(pid \<Rightarrow> nn_priolist_data option) \<Rightarrow> pid \<Rightarrow> int" where
  "pdata_prio data p = (case data p of None \<Rightarrow> 0 | Some d \<Rightarrow> dprio d)"

definition sched_ok :: "(pid \<Rightarrow> nn_priolist_data option) \<Rightarrow> nn_priolist \<Rightarrow> bool" where
  "sched_ok data l \<longleftrightarrow> pl_inv (pdata_prio data) l \<and> pl_active l \<subseteq> dom data \<and>
     (\<forall>p d. data p = Some d \<longrightarrow> dpipe d = p \<and> 1 \<le> dprio d \<and> dprio d \<le> int NN_PRIOLIST_SLOTS)"

lemma sched_init: "sched_ok Map.empty nn_priolist_init"
  by (simp add: sched_ok_def pl_inv_init)

lemma sched_cong: "sched_ok data l \<Longrightarrow> data' = data \<Longrightarrow> sched_ok data' l"
  by simp

lemma sched_add:
  assumes ok: "sched_ok data l" and p: "data p = None" "1 \<le> k" "k \<le> 16"
  shows "sched_ok (data(p := Some (nn_priolist_add p k))) l"
proof -
  have "pl_inv (pdata_prio (data(p := Some (nn_priolist_add p k)))) l"
    by (rule pl_inv_cong [of "pdata_prio data"]) (use ok p in \<open>auto simp: sched_ok_def pdata_prio_def\<close>)
  then show ?thesis
    using ok p by (auto simp: sched_ok_def nn_priolist_add_def NN_PRIOLIST_SLOTS_def)
qed

lemma sched_rm:
  assumes ok: "sched_ok data l" and p: "data p = Some d"
  shows "\<exists>l'. nn_priolist_rm l d = Some l' \<and> sched_ok (data(p := None)) l' \<and> pl_active l' = pl_active l - {p}"
proof -
  have d: "d = \<lparr>dpipe = p, dprio = dprio d\<rparr>" "pdata_prio data p = dprio d" "pl_inv (pdata_prio data) l"
    using ok p by (auto simp: sched_ok_def pdata_prio_def)
  obtain l' where l': "nn_priolist_rm l d = Some l'" "pl_inv (pdata_prio data) l'" "pl_active l' = pl_active l - {p}"
    using nn_priolist_rm_ok [OF d(3,2)] d(1) by auto
  have "pl_inv (pdata_prio (data(p := None))) l'"
    by (rule pl_inv_cong [OF l'(2)]) (use l'(3) in \<open>auto simp: pdata_prio_def\<close>)
  then show ?thesis
    using l' ok by (auto simp: sched_ok_def)
qed

lemma sched_activate:
  assumes ok: "sched_ok data l" and p: "data p = Some d" "p \<notin> pl_active l"
  shows "\<exists>l'. nn_priolist_activate l d = Some l' \<and> sched_ok data l' \<and> pl_active l' = insert p (pl_active l)"
proof -
  have d: "d = \<lparr>dpipe = p, dprio = dprio d\<rparr>" "pdata_prio data p = dprio d" "pl_inv (pdata_prio data) l"
    "1 \<le> dprio d" "dprio d \<le> int NN_PRIOLIST_SLOTS"
    using ok p by (auto simp: sched_ok_def pdata_prio_def)
  obtain l' where "nn_priolist_activate l d = Some l'" "pl_inv (pdata_prio data) l'" "pl_active l' = insert p (pl_active l)"
    using nn_priolist_activate_ok [OF d(3,4,5,2) p(2)] d(1) by auto
  then show ?thesis using ok p by (auto simp: sched_ok_def)
qed

context transport begin

lemma sched_send:
  assumes w: "winv w" and ok: "sched_ok data lb" and r: "\<And>p. p \<in> pl_active lb \<Longrightarrow> can_send w p"
  obtains "pl_active lb = {}" "nn_lb_send vf w lb m = Some (Inl EAGAIN, lb, w)"
  | c rc lb' w' where "nn_lb_send vf w lb m = Some (Inr (rc AND NOT NN_PIPE_RELEASE, c), lb', w')"
    "nn_pipe_send vf w c m = Some (rc, w')" "c \<in> pl_active lb" "winv w'" "sched_ok data lb'"
    "pl_active lb' = (if released rc then pl_active lb - {c} else pl_active lb)"
    "\<And>q. can_recv w q \<Longrightarrow> can_recv w' q" "\<And>q. q \<in> pl_active lb' \<Longrightarrow> can_send w' q"
proof (cases "pl_active lb = {}")
  case True
  then show ?thesis
    using that(1) lb_send_empty [of "pdata_prio data" w lb m] ok by (simp add: lb_inv_def sched_ok_def)
next
  case False
  have inv: "lb_inv (pdata_prio data) w lb" using ok r by (auto simp: lb_inv_def sched_ok_def)
  obtain c rc lb' w' where s: "nn_lb_send vf w lb m = Some (Inr (rc AND NOT NN_PIPE_RELEASE, c), lb', w')"
    "nn_pipe_send vf w c m = Some (rc, w')" "c \<in> pl_active lb" "winv w'" "lb_inv (pdata_prio data) w' lb'"
    "pl_active lb' = (if released rc then pl_active lb - {c} else pl_active lb)"
    "\<forall>q. can_recv w' q \<longleftrightarrow> can_recv w q" "\<forall>q. can_send w' q \<longleftrightarrow> can_send w q \<and> \<not> (q = c \<and> released rc)"
    using lb_send_ok [OF w inv False, of m] by blast
  have ok': "sched_ok data lb'" using s(5,6) ok by (auto simp: lb_inv_def sched_ok_def split: if_splits)
  have r': "can_send w' q" if "q \<in> pl_active lb'" for q using s(5) that by (simp add: lb_inv_def)
  show ?thesis by (rule that(2) [OF s(1-4) ok' s(6) _ r']) (use s(7) in simp_all)
qed

lemma sched_recv:
  assumes w: "winv w" and ok: "sched_ok data fq" and r: "\<And>p. p \<in> pl_active fq \<Longrightarrow> can_recv w p"
  obtains "pl_active fq = {}" "nn_fq_recv vf w fq = Some (Inl EAGAIN, fq, w)"
  | c rc m fq' w' where "nn_fq_recv vf w fq = Some (Inr (rc AND NOT NN_PIPE_RELEASE, m, c), fq', w')"
    "nn_pipe_recv vf w c = Some (rc, m, w')" "c \<in> pl_active fq" "winv w'" "sched_ok data fq'"
    "pl_active fq' = (if released rc then pl_active fq - {c} else pl_active fq)"
    "\<And>q. can_send w q \<Longrightarrow> can_send w' q" "\<And>q. q \<in> pl_active fq' \<Longrightarrow> can_recv w' q"
proof (cases "pl_active fq = {}")
  case True
  then show ?thesis
    using that(1) fq_recv_empty [of "pdata_prio data" w fq] ok by (simp add: fq_inv_def sched_ok_def)
next
  case False
  have inv: "fq_inv (pdata_prio data) w fq" using ok r by (auto simp: fq_inv_def sched_ok_def)
  obtain c rc m fq' w' where s: "nn_fq_recv vf w fq = Some (Inr (rc AND NOT NN_PIPE_RELEASE, m, c), fq', w')"
    "nn_pipe_recv vf w c = Some (rc, m, w')" "c \<in> pl_active fq" "winv w'" "fq_inv (pdata_prio data) w' fq'"
    "pl_active fq' = (if released rc then pl_active fq - {c} else pl_active fq)"
    "\<forall>q. can_send w' q \<longleftrightarrow> can_send w q" "\<forall>q. can_recv w' q \<longleftrightarrow> can_recv w q \<and> \<not> (q = c \<and> released rc)"
    using fq_recv_ok [OF w inv False] by (elim exE conjE) (rule that; assumption)
  have ok': "sched_ok data fq'" using s(5,6) ok by (auto simp: fq_inv_def sched_ok_def split: if_splits)
  have r': "can_recv w' q" if "q \<in> pl_active fq'" for q using s(5) that by (simp add: fq_inv_def)
  show ?thesis by (rule that(2) [OF s(1-4) ok' s(6) _ r']) (use s(7) in simp_all)
qed

end


section \<open>The distributor in a socket\<close>

definition dist_wf :: "nn_dist \<Rightarrow> bool" where
  "dist_wf d \<longleftrightarrow> distinct (dpipes d) \<and> unat (dcount d) = length (dpipes d)"

lemma dist_inv_wf: "dist_inv w d \<longleftrightarrow> dist_wf d \<and> (\<forall>p \<in> set (dpipes d). can_send w p)"
  by (simp add: dist_inv_def dist_wf_def)

lemma dist_wf_init: "dist_wf nn_dist_init" "dpipes nn_dist_init = []"
  by (simp_all add: dist_wf_def nn_dist_init_def)

lemma dist_rm_ok:
  assumes "dist_wf d"
  shows "dist_wf (nn_dist_rm d p)" "set (dpipes (nn_dist_rm d p)) = set (dpipes d) - {p}"
proof -
  show "set (dpipes (nn_dist_rm d p)) = set (dpipes d) - {p}"
    using assms by (simp add: nn_dist_rm_def dist_wf_def)
  show "dist_wf (nn_dist_rm d p)"
  proof (cases "p \<in> set (dpipes d)")
    case True
    then have "dpipes d \<noteq> []" by auto
    then have "dcount d \<noteq> 0" using assms by (auto simp: dist_wf_def)
    then have "unat (dcount d - 1) = unat (dcount d) - 1" by (rule unat_minus_one)
    then show ?thesis using True assms by (simp add: nn_dist_rm_def dist_wf_def length_remove1)
  qed (use assms in \<open>simp add: nn_dist_rm_def\<close>)
qed

lemma dist_out_ok:
  assumes wf: "dist_wf d" and p: "p \<notin> set (dpipes d)" and room: "length (dpipes d) < 2 ^ 31"
  shows "\<exists>d'. nn_dist_out d p = Some d' \<and> dist_wf d' \<and> set (dpipes d') = insert p (set (dpipes d))"
proof -
  have "unat (dcount d + 1) = length (dpipes d) + 1"
    using wf room by (simp add: dist_wf_def unat_word_ariths)
  then show ?thesis using wf p by (simp add: nn_dist_out_def dist_wf_def)
qed

text \<open>The pipes of a distributor are among the attached ones, so there is room for one more.\<close>

lemma dist_room:
  assumes "dist_wf d" "set (dpipes d) \<subseteq> A" "finite A" "card A \<le> 2 ^ 31" "p \<in> A" "p \<notin> set (dpipes d)"
  shows "length (dpipes d) < 2 ^ 31"
proof -
  have "length (dpipes d) = card (set (dpipes d))" using assms(1) by (simp add: dist_wf_def distinct_card)
  also have "\<dots> < card A" by (rule psubset_card_mono) (use assms in auto)
  finally show ?thesis using assms(4) by simp
qed

context transport begin

lemma dist_send_good:
  assumes w: "winv w" and d: "dist_wf d" "\<forall>p \<in> set (dpipes d). can_send w p"
  obtains d' w' where "nn_dist_send vf w d m exclude = Some (d', w')" "winv w'" "dist_wf d'"
    "set (dpipes d') \<subseteq> set (dpipes d)" "\<forall>q \<in> set (dpipes d'). can_send w' q" "\<forall>q. can_recv w q \<longrightarrow> can_recv w' q"
proof -
  have inv: "dist_inv w d" using d by (simp add: dist_inv_wf)
  obtain rs w' d' where s: "nn_dist_send vf w d m exclude = Some (d', w')"
    "dpipes d' = filter (\<lambda>p. p \<notin> gone rs) (dpipes d)" "winv w'" "dist_inv w' d'" "\<forall>q. can_recv w' q \<longleftrightarrow> can_recv w q"
    using dist_send_ok [OF w inv, of m exclude] by (elim exE conjE) (rule that; assumption)
  have "dist_wf d'" "\<forall>q \<in> set (dpipes d'). can_send w' q" using s(4) by (simp_all add: dist_inv_wf)
  then show thesis by (intro that [OF s(1,3)]) (use s(2,5) in auto)
qed

end

section \<open>Receive loops\<close>

text \<open>The loop of \<^verbatim>\<open>nn_xsub_recv\<close> and \<^verbatim>\<open>nn_xbus_recv\<close>: messages are received and dropped until one
  is accepted or none is left.\<close>

partial_function (option) fq_recv_until ::
  "'x pipebase_vfptr \<Rightarrow> (sp_msg \<Rightarrow> bool option) \<Rightarrow> 'x world \<Rightarrow> nn_fq \<Rightarrow> ((u32 \<times> sp_msg \<times> pid) rc \<times> nn_fq \<times> 'x world) option" where
  "fq_recv_until vf accept w fq = do {
     (rc, fq', w') \<leftarrow> nn_fq_recv vf w fq;
     case rc of Inl e \<Rightarrow> Some (Inl e, fq', w')
     | Inr (fl, msg, p) \<Rightarrow> do {
         b \<leftarrow> accept msg;
         if b then Some (Inr (fl, msg, p), fq', w') else fq_recv_until vf accept w' fq' } }"

declare fq_recv_until.simps [code]

text \<open>A run of receives: the messages taken, in order.\<close>

inductive fq_run :: "'x pipebase_vfptr \<Rightarrow> 'x world \<Rightarrow> nn_fq \<Rightarrow> sp_msg list \<Rightarrow> 'x world \<Rightarrow> nn_fq \<Rightarrow> bool" for vf where
  run_nil: "fq_run vf w fq [] w fq"
| run_cons: "nn_fq_recv vf w fq = Some (Inr (fl, msg, p), fq1, w1) \<Longrightarrow> fq_run vf w1 fq1 ms w2 fq2 \<Longrightarrow>
    fq_run vf w fq (msg # ms) w2 fq2"

context draining_transport begin

text \<open>Every receive brings the loop nearer to its end.\<close>

lemma backlog_less:
  assumes "winv w" "can_recv w c" "nn_pipe_recv vf w c = Some (rc, m, w')" "c \<in> pl_active fq" "pl_active fq' \<subseteq> pl_active fq"
  shows "(\<Sum>p \<in> pl_active fq'. backlog w' p) < (\<Sum>p \<in> pl_active fq. backlog w p)"
proof -
  have fin: "finite (pl_active fq)" by (simp add: pl_active_def)
  have dr: "backlog w' c < backlog w c" "\<And>q. q \<noteq> c \<Longrightarrow> backlog w' q = backlog w q"
    using recv_drains [OF assms(1-3)] by auto
  have "(\<Sum>p \<in> pl_active fq'. backlog w' p) \<le> (\<Sum>p \<in> pl_active fq. backlog w' p)"
    by (rule sum_mono2) (use fin assms(5) in auto)
  also have "\<dots> < (\<Sum>p \<in> pl_active fq. backlog w p)"
  proof (rule sum_strict_mono_ex1)
    have "backlog w' x \<le> backlog w x" for x using dr by (cases "x = c") auto
    then show "\<forall>x \<in> pl_active fq. backlog w' x \<le> backlog w x" by blast
  qed (use fin dr assms(4) in auto)
  finally show ?thesis .
qed

text \<open>On a transport that drains, the loop returns: after dropping the messages it does not
  accept, in order, with the first one it accepts, or when no pipe has a message left.\<close>

lemma recv_until_ok:
  assumes "winv w" "sched_ok data fq" "\<forall>p \<in> pl_active fq. can_recv w p" "\<And>m. accept m \<noteq> None"
  shows "\<exists>ms w1 fq1 rc fq' w'. fq_run vf w fq ms w1 fq1 \<and> (\<forall>m \<in> set ms. accept m = Some False) \<and>
    fq_recv_until vf accept w fq = Some (rc, fq', w') \<and> nn_fq_recv vf w1 fq1 = Some (rc, fq', w') \<and>
    (case rc of Inl e \<Rightarrow> e = EAGAIN \<and> pl_active fq' = {} | Inr (fl, m, p) \<Rightarrow> accept m = Some True \<and> p \<in> pl_active fq) \<and>
    winv w' \<and> sched_ok data fq' \<and> pl_active fq' \<subseteq> pl_active fq \<and> (\<forall>p \<in> pl_active fq'. can_recv w' p) \<and>
    (\<forall>q. can_send w q \<longrightarrow> can_send w' q)"
  using assms(1-3)
proof (induction "\<Sum>p \<in> pl_active fq. backlog w p" arbitrary: w fq rule: less_induct)
  case less
  show ?case
  proof (rule sched_recv [OF less(2,3) bspec [OF less(4)]])
    assume e: "pl_active fq = {}" "nn_fq_recv vf w fq = Some (Inl EAGAIN, fq, w)"
    then have "fq_recv_until vf accept w fq = Some (Inl EAGAIN, fq, w)" by (subst fq_recv_until.simps) simp
    then show ?thesis
      using e less(2,3)
      by (intro exI [of _ "[]"] exI [of _ w] exI [of _ fq] exI [of _ "Inl EAGAIN"] conjI) (simp_all add: run_nil)
  next
    fix c rc m fq1 w1
    assume r: "nn_fq_recv vf w fq = Some (Inr (rc AND NOT NN_PIPE_RELEASE, m, c), fq1, w1)"
      and pr: "nn_pipe_recv vf w c = Some (rc, m, w1)" and c: "c \<in> pl_active fq" and w1: "winv w1" "sched_ok data fq1"
      and act: "pl_active fq1 = (if released rc then pl_active fq - {c} else pl_active fq)"
      and snd: "\<And>q. can_send w q \<Longrightarrow> can_send w1 q" and rcv: "\<And>q. q \<in> pl_active fq1 \<Longrightarrow> can_recv w1 q"
    show ?thesis
    proof (cases "accept m = Some True")
      case True
      then have "fq_recv_until vf accept w fq = Some (Inr (rc AND NOT NN_PIPE_RELEASE, m, c), fq1, w1)"
        using r by (subst fq_recv_until.simps) simp
      moreover have "pl_active fq1 \<subseteq> pl_active fq" using act by auto
      ultimately show ?thesis
        using r w1 rcv snd True c
        by (intro exI [of _ "[]"] exI [of _ w] exI [of _ fq] exI [of _ "Inr (rc AND NOT NN_PIPE_RELEASE, m, c)"]
            exI [of _ fq1] exI [of _ w1] conjI) (simp_all add: run_nil)
    next
      case False
      then have no: "accept m = Some False" using assms(4) [of m] by (cases "accept m") auto
      have "(\<Sum>p \<in> pl_active fq1. backlog w1 p) < (\<Sum>p \<in> pl_active fq. backlog w p)"
        by (rule backlog_less [OF less(2) bspec [OF less(4) c] pr c]) (use act in auto)
      moreover have "\<forall>q \<in> pl_active fq1. can_recv w1 q" using rcv by blast
      ultimately obtain ms w2 fq2 rc' fq' w' where
        ih: "fq_run vf w1 fq1 ms w2 fq2" "\<forall>m \<in> set ms. accept m = Some False"
          "fq_recv_until vf accept w1 fq1 = Some (rc', fq', w')" "nn_fq_recv vf w2 fq2 = Some (rc', fq', w')"
          "case rc' of Inl e \<Rightarrow> e = EAGAIN \<and> pl_active fq' = {} | Inr (fl, m, p) \<Rightarrow> accept m = Some True \<and> p \<in> pl_active fq1"
          "winv w'" "sched_ok data fq'" "pl_active fq' \<subseteq> pl_active fq1" "\<forall>p \<in> pl_active fq'. can_recv w' p"
          "\<forall>q. can_send w1 q \<longrightarrow> can_send w' q"
        using less(1) [OF _ w1] by (elim meta_impE exE conjE) (assumption | rule that; assumption)+
      have sub: "pl_active fq1 \<subseteq> pl_active fq" using act by auto
      have "case rc' of Inl e \<Rightarrow> e = EAGAIN \<and> pl_active fq' = {} | Inr (fl, m, p) \<Rightarrow> accept m = Some True \<and> p \<in> pl_active fq"
        using ih(5) sub by (auto split: sum.splits)
      moreover have "fq_recv_until vf accept w fq = Some (rc', fq', w')"
        using r no ih(3) by (subst fq_recv_until.simps) simp
      moreover have "fq_run vf w fq (m # ms) w2 fq2" by (rule run_cons [OF r ih(1)])
      moreover have "\<forall>m \<in> set (m # ms). accept m = Some False" using no ih(2) by simp
      moreover have "pl_active fq' \<subseteq> pl_active fq" using ih(8) sub by blast
      moreover have "\<forall>q. can_send w q \<longrightarrow> can_send w' q" using snd ih(10) by blast
      ultimately show ?thesis using ih(4,6,7,9) by blast
    qed
  qed
qed

end

end
