(* ===== verification/Nn_Pair.thy ===== *)
theory Nn_Pair
  imports Nn_Socket
begin

text \<open>
  The PAIR socket, \<^verbatim>\<open>protocols/pair/xpair.c\<close>: one peer at a time, through the exclusive pipe of
  \<^verbatim>\<open>protocols/utils/excl.c\<close>.
\<close>

record nn_xpair =
  xp_excl :: nn_excl

definition nn_xpair_init :: nn_xpair where
  "nn_xpair_init = \<lparr>xp_excl = nn_excl_init\<rparr>"

definition nn_xpair_term :: "nn_xpair \<Rightarrow> unit option" where
  "nn_xpair_term self = nn_excl_term (xp_excl self)"

definition nn_xpair_add :: "nn_xpair \<Rightarrow> pid \<Rightarrow> pipe_opts \<Rightarrow> (unit rc \<times> nn_xpair) option" where
  "nn_xpair_add self p opt = (case nn_excl_add (xp_excl self) p of (rc, e) \<Rightarrow> Some (rc, self\<lparr>xp_excl := e\<rparr>))"

definition nn_xpair_rm :: "'x world \<Rightarrow> nn_xpair \<Rightarrow> pid \<Rightarrow> (nn_xpair \<times> 'x world) option" where
  "nn_xpair_rm w self p = do { e \<leftarrow> nn_excl_rm (xp_excl self); Some (self\<lparr>xp_excl := e\<rparr>, w) }"

definition nn_xpair_in :: "'x world \<Rightarrow> nn_xpair \<Rightarrow> pid \<Rightarrow> (nn_xpair \<times> 'x world) option" where
  "nn_xpair_in w self p = do { e \<leftarrow> nn_excl_in (xp_excl self) p; Some (self\<lparr>xp_excl := e\<rparr>, w) }"

definition nn_xpair_out :: "'x world \<Rightarrow> nn_xpair \<Rightarrow> pid \<Rightarrow> (nn_xpair \<times> 'x world) option" where
  "nn_xpair_out w self p = do { e \<leftarrow> nn_excl_out (xp_excl self) p; Some (self\<lparr>xp_excl := e\<rparr>, w) }"

definition nn_xpair_events :: "nn_xpair \<Rightarrow> u32" where
  "nn_xpair_events self = (if nn_excl_can_recv (xp_excl self) then NN_SOCKBASE_EVENT_IN else 0) OR
     (if nn_excl_can_send (xp_excl self) then NN_SOCKBASE_EVENT_OUT else 0)"

text \<open>The flags of the pipe are discarded: \<^verbatim>\<open>sock.c\<close> only tests the sign of the result.\<close>

definition nn_xpair_send ::
  "'x pipebase_vfptr \<Rightarrow> 'x world \<Rightarrow> nn_xpair \<Rightarrow> sp_msg \<Rightarrow> (unit rc \<times> nn_xpair \<times> 'x world) option" where
  "nn_xpair_send vf w self msg = do {
     (rc, e, w) \<leftarrow> nn_excl_send vf w (xp_excl self) msg;
     Some (map_sum id (\<lambda>_. ()) rc, self\<lparr>xp_excl := e\<rparr>, w) }"

definition nn_xpair_recv ::
  "'x pipebase_vfptr \<Rightarrow> 'x world \<Rightarrow> nn_xpair \<Rightarrow> (sp_msg rc \<times> nn_xpair \<times> 'x world) option" where
  "nn_xpair_recv vf w self = do {
     (rc, e, w) \<leftarrow> nn_excl_recv vf w (xp_excl self);
     Some (map_sum id snd rc, self\<lparr>xp_excl := e\<rparr>, w) }"

definition nn_xpair_setopt :: "nn_xpair \<Rightarrow> int \<Rightarrow> int \<Rightarrow> bytes \<Rightarrow> (unit rc \<times> nn_xpair) option" where
  "nn_xpair_setopt self level opt optval = Some (Inl ENOPROTOOPT, self)"

definition nn_xpair_sockbase_vfptr :: "'x pipebase_vfptr \<Rightarrow> (nn_xpair, 'x) sockbase_vfptr" where
  "nn_xpair_sockbase_vfptr vf = \<lparr>sk_add = nn_xpair_add, sk_rm = nn_xpair_rm, sk_in = nn_xpair_in,
     sk_out = nn_xpair_out, sk_events = nn_xpair_events, sk_send = Some (nn_xpair_send vf),
     sk_recv = Some (nn_xpair_recv vf),
     sk_setopt = nn_xpair_setopt\<rparr>"

section \<open>The contract\<close>

definition xpair_view :: "nn_xpair sock_view" where
  "xpair_view = \<lparr>v_inv = (\<lambda>s. True), v_att = (\<lambda>s. set_option (epipe (xp_excl s))),
     v_in = (\<lambda>s. set_option (inpipe (xp_excl s))), v_out = (\<lambda>s. set_option (outpipe (xp_excl s))), v_hears = True, v_room = (\<lambda>s. True),
     v_msgs = (\<lambda>m. True), v_opts = (\<lambda>s level opt val. True)\<rparr>"

lemma xpair_view_sel [simp]:
  "v_inv xpair_view s" "v_att xpair_view s = set_option (epipe (xp_excl s))"
  "v_in xpair_view s = set_option (inpipe (xp_excl s))" "v_out xpair_view s = set_option (outpipe (xp_excl s))"
  "v_hears xpair_view"
  by (simp_all add: xpair_view_def)

sublocale transport \<subseteq> xpair: sp_socket vf winv "nn_xpair_sockbase_vfptr vf" xpair_view nn_xpair_init
proof (unfold_locales, goal_cases)
  case (5 s w p opt)
  then show ?case
    by (auto simp: nn_xpair_sockbase_vfptr_def nn_xpair_add_def nn_excl_add_def sock_good_def sock_ready_def
        split: option.splits)
next
  case (6 s w p)
  then show ?case
    by (auto simp: nn_xpair_sockbase_vfptr_def nn_xpair_rm_def nn_excl_rm_def sock_good_def sock_ready_def)
next
  case (7 s w p)
  then show ?case
    by (cases "inpipe (xp_excl s)") (auto simp: nn_xpair_sockbase_vfptr_def nn_xpair_in_def nn_excl_in_def sock_good_def sock_ready_def)
next
  case (8 s w p)
  then show ?case
    by (cases "outpipe (xp_excl s)") (auto simp: nn_xpair_sockbase_vfptr_def nn_xpair_out_def nn_excl_out_def sock_good_def sock_ready_def)
next
  case (9 s w f m)
  note g = sock_goodD [OF 9(1)]
  have f: "f = nn_xpair_send vf" using 9(2) by (simp add: nn_xpair_sockbase_vfptr_def)
  show ?case
  proof (cases "outpipe (xp_excl s)")
    case None
    then show ?thesis using 9(1) by (simp add: f nn_xpair_send_def nn_excl_send_def)
  next
    case (Some p)
    then have "can_send w p" using g(4) by simp
    then obtain rc w' where "nn_pipe_send vf w p m = Some (rc, w')" "winv w'"
      "\<forall>q. can_send w' q \<longleftrightarrow> can_send w q \<and> \<not> (q = p \<and> released rc)" "\<forall>q. can_recv w' q \<longleftrightarrow> can_recv w q"
      using pipe_send_ok [OF g(1), of p m] by blast
    then show ?thesis
      using g(3-6) Some by (auto simp: f nn_xpair_send_def nn_excl_send_def Let_def intro!: sock_goodI)
  qed
next
  case (10 s w g)
  note i = sock_goodD [OF 10(1)]
  have f: "g = nn_xpair_recv vf" using 10(2) by (simp add: nn_xpair_sockbase_vfptr_def)
  show ?case
  proof (cases "inpipe (xp_excl s)")
    case None
    then show ?thesis using 10(1) by (simp add: f nn_xpair_recv_def nn_excl_recv_def)
  next
    case (Some p)
    then have "can_recv w p" using i(3) by simp
    then obtain rc m w' where "nn_pipe_recv vf w p = Some (rc, m, w')" "winv w'"
      "\<forall>q. can_recv w' q \<longleftrightarrow> can_recv w q \<and> \<not> (q = p \<and> released rc)" "\<forall>q. can_send w' q \<longleftrightarrow> can_send w q"
      using pipe_recv_ok [OF i(1), of p] by blast
    then show ?thesis
      using i(3-6) Some by (auto simp: f nn_xpair_recv_def nn_excl_recv_def Let_def intro!: sock_goodI)
  qed
next
  case (11 s w level opt val)
  then show ?case by (simp add: nn_xpair_sockbase_vfptr_def nn_xpair_setopt_def)
qed (auto simp: nn_xpair_init_def nn_excl_init_def)

end
