(* ===== verification/Nn_Pipeline.thy ===== *)
theory Nn_Pipeline
  imports Nn_Socket
begin

text \<open>
  The PUSH and PULL sockets, \<^verbatim>\<open>protocols/pipeline/xpush.c\<close> and \<^verbatim>\<open>xpull.c\<close>: a load balancer on
  the sending side, a fair queuer on the receiving side.  The data a socket attaches to a pipe
  (\<^verbatim>\<open>nn_pipe_setdata\<close>) are a map from pipes.  The statistics are not modelled.
\<close>

section \<open>PUSH\<close>

record nn_xpush =
  push_lb :: nn_lb
  push_data :: "pid \<Rightarrow> nn_priolist_data option"

definition nn_xpush_init :: nn_xpush where
  "nn_xpush_init = \<lparr>push_lb = nn_lb_init, push_data = Map.empty\<rparr>"

definition nn_xpush_term :: "nn_xpush \<Rightarrow> unit option" where
  "nn_xpush_term self = nn_lb_term (push_lb self)"

definition nn_xpush_add :: "nn_xpush \<Rightarrow> pid \<Rightarrow> pipe_opts \<Rightarrow> (unit rc \<times> nn_xpush) option" where
  "nn_xpush_add self p opt = do {
     nn_assert (sndprio opt \<ge> 1 \<and> sndprio opt \<le> 16);
     Some (Inr (), \<lparr>push_lb = push_lb self, push_data = (push_data self)(p \<mapsto> nn_lb_add p (sndprio opt))\<rparr>) }"

definition nn_xpush_rm :: "'x world \<Rightarrow> nn_xpush \<Rightarrow> pid \<Rightarrow> (nn_xpush \<times> 'x world) option" where
  "nn_xpush_rm w self p = do {
     data \<leftarrow> push_data self p;
     lb \<leftarrow> nn_lb_rm (push_lb self) data;
     Some (\<lparr>push_lb = lb, push_data = (push_data self)(p := None)\<rparr>, w) }"

definition nn_xpush_in :: "'x world \<Rightarrow> nn_xpush \<Rightarrow> pid \<Rightarrow> (nn_xpush \<times> 'x world) option" where
  "nn_xpush_in w self p = Some (self, w)"

definition nn_xpush_out :: "'x world \<Rightarrow> nn_xpush \<Rightarrow> pid \<Rightarrow> (nn_xpush \<times> 'x world) option" where
  "nn_xpush_out w self p = do {
     data \<leftarrow> push_data self p;
     lb \<leftarrow> nn_lb_out (push_lb self) data;
     Some (self\<lparr>push_lb := lb\<rparr>, w) }"

definition nn_xpush_events :: "nn_xpush \<Rightarrow> u32" where
  "nn_xpush_events self = (if nn_lb_can_send (push_lb self) then NN_SOCKBASE_EVENT_OUT else 0)"

definition nn_xpush_send ::
  "'x pipebase_vfptr \<Rightarrow> 'x world \<Rightarrow> nn_xpush \<Rightarrow> sp_msg \<Rightarrow> (unit rc \<times> nn_xpush \<times> 'x world) option" where
  "nn_xpush_send vf w self msg = do {
     (rc, lb, w) \<leftarrow> nn_lb_send vf w (push_lb self) msg;
     Some (map_sum id (\<lambda>_. ()) rc, self\<lparr>push_lb := lb\<rparr>, w) }"

definition nn_xpush_setopt :: "nn_xpush \<Rightarrow> int \<Rightarrow> int \<Rightarrow> bytes \<Rightarrow> (unit rc \<times> nn_xpush) option" where
  "nn_xpush_setopt self level opt optval = Some (Inl ENOPROTOOPT, self)"

definition nn_xpush_sockbase_vfptr :: "'x pipebase_vfptr \<Rightarrow> (nn_xpush, 'x) sockbase_vfptr" where
  "nn_xpush_sockbase_vfptr vf = \<lparr>sk_add = nn_xpush_add, sk_rm = nn_xpush_rm, sk_in = nn_xpush_in,
     sk_out = nn_xpush_out, sk_events = nn_xpush_events, sk_send = Some (nn_xpush_send vf), sk_recv = None,
     sk_setopt = nn_xpush_setopt\<rparr>"

section \<open>PULL\<close>

record nn_xpull =
  pull_fq :: nn_fq
  pull_data :: "pid \<Rightarrow> nn_priolist_data option"

definition nn_xpull_init :: nn_xpull where
  "nn_xpull_init = \<lparr>pull_fq = nn_fq_init, pull_data = Map.empty\<rparr>"

definition nn_xpull_term :: "nn_xpull \<Rightarrow> unit option" where
  "nn_xpull_term self = nn_fq_term (pull_fq self)"

definition nn_xpull_add :: "nn_xpull \<Rightarrow> pid \<Rightarrow> pipe_opts \<Rightarrow> (unit rc \<times> nn_xpull) option" where
  "nn_xpull_add self p opt = do {
     nn_assert (rcvprio opt \<ge> 1 \<and> rcvprio opt \<le> 16);
     Some (Inr (), \<lparr>pull_fq = pull_fq self, pull_data = (pull_data self)(p \<mapsto> nn_fq_add p (rcvprio opt))\<rparr>) }"

definition nn_xpull_rm :: "'x world \<Rightarrow> nn_xpull \<Rightarrow> pid \<Rightarrow> (nn_xpull \<times> 'x world) option" where
  "nn_xpull_rm w self p = do {
     data \<leftarrow> pull_data self p;
     fq \<leftarrow> nn_fq_rm (pull_fq self) data;
     Some (\<lparr>pull_fq = fq, pull_data = (pull_data self)(p := None)\<rparr>, w) }"

definition nn_xpull_in :: "'x world \<Rightarrow> nn_xpull \<Rightarrow> pid \<Rightarrow> (nn_xpull \<times> 'x world) option" where
  "nn_xpull_in w self p = do {
     data \<leftarrow> pull_data self p;
     fq \<leftarrow> nn_fq_in (pull_fq self) data;
     Some (self\<lparr>pull_fq := fq\<rparr>, w) }"

definition nn_xpull_out :: "'x world \<Rightarrow> nn_xpull \<Rightarrow> pid \<Rightarrow> (nn_xpull \<times> 'x world) option" where
  "nn_xpull_out w self p = Some (self, w)"

definition nn_xpull_events :: "nn_xpull \<Rightarrow> u32" where
  "nn_xpull_events self = (if nn_fq_can_recv (pull_fq self) then NN_SOCKBASE_EVENT_IN else 0)"

definition nn_xpull_recv ::
  "'x pipebase_vfptr \<Rightarrow> 'x world \<Rightarrow> nn_xpull \<Rightarrow> (sp_msg rc \<times> nn_xpull \<times> 'x world) option" where
  "nn_xpull_recv vf w self = do {
     (rc, fq, w) \<leftarrow> nn_fq_recv vf w (pull_fq self);
     Some (map_sum id (\<lambda>(fl, msg, p). msg) rc, self\<lparr>pull_fq := fq\<rparr>, w) }"

definition nn_xpull_setopt :: "nn_xpull \<Rightarrow> int \<Rightarrow> int \<Rightarrow> bytes \<Rightarrow> (unit rc \<times> nn_xpull) option" where
  "nn_xpull_setopt self level opt optval = Some (Inl ENOPROTOOPT, self)"

definition nn_xpull_sockbase_vfptr :: "'x pipebase_vfptr \<Rightarrow> (nn_xpull, 'x) sockbase_vfptr" where
  "nn_xpull_sockbase_vfptr vf = \<lparr>sk_add = nn_xpull_add, sk_rm = nn_xpull_rm, sk_in = nn_xpull_in,
     sk_out = nn_xpull_out, sk_events = nn_xpull_events, sk_send = None, sk_recv = Some (nn_xpull_recv vf),
     sk_setopt = nn_xpull_setopt\<rparr>"

section \<open>The contracts\<close>

definition xpush_view :: "nn_xpush sock_view" where
  "xpush_view = \<lparr>v_inv = (\<lambda>s. sched_ok (push_data s) (push_lb s)), v_att = (\<lambda>s. dom (push_data s)),
     v_in = (\<lambda>s. {}), v_out = (\<lambda>s. pl_active (push_lb s)), v_hears = True, v_room = (\<lambda>s. True),
     v_msgs = (\<lambda>m. True), v_opts = (\<lambda>s level opt val. True)\<rparr>"

lemma xpush_view_sel [simp]:
  "v_inv xpush_view s \<longleftrightarrow> sched_ok (push_data s) (push_lb s)" "v_att xpush_view s = dom (push_data s)"
  "v_in xpush_view s = {}" "v_out xpush_view s = pl_active (push_lb s)" "v_hears xpush_view"
  by (simp_all add: xpush_view_def)

sublocale transport \<subseteq> xpush: sp_socket vf winv "nn_xpush_sockbase_vfptr vf" xpush_view nn_xpush_init
proof (unfold_locales, goal_cases)
  case (5 s w p opt)
  note g = sock_goodD [OF 5(1)]
  have "sched_ok ((push_data s)(p := Some (nn_lb_add p (sndprio opt)))) (push_lb s)"
    unfolding nn_lb_add_def by (rule sched_add) (use 5 g(2) in \<open>auto simp: opts_ok_def\<close>)
  then show ?case
    using 5 g(1,4,6) by (auto simp: nn_xpush_sockbase_vfptr_def nn_xpush_add_def opts_ok_def intro!: sock_goodI)
next
  case (6 s w p)
  note g = sock_goodD [OF 6(1)]
  then obtain d l' where "push_data s p = Some d" "nn_lb_rm (push_lb s) d = Some l'"
    "sched_ok ((push_data s)(p := None)) l'" "pl_active l' = pl_active (push_lb s) - {p}"
    using 6(2) sched_rm [of "push_data s" "push_lb s" p] by (auto simp: nn_lb_rm_def)
  then show ?case
    using g(1,4,6) by (auto simp: nn_xpush_sockbase_vfptr_def nn_xpush_rm_def intro!: sock_goodI)
next
  case (7 s w p)
  then show ?case by (simp add: nn_xpush_sockbase_vfptr_def nn_xpush_in_def)
next
  case (8 s w p)
  note g = sock_goodD [OF 8(1)]
  then obtain d l' where "push_data s p = Some d" "nn_lb_out (push_lb s) d = Some l'"
    "sched_ok (push_data s) l'" "pl_active l' = insert p (pl_active (push_lb s))"
    using 8(2,3) sched_activate [of "push_data s" "push_lb s" p] by (auto simp: nn_lb_out_def)
  then show ?case
    using g(1,4,6) 8(4) by (auto simp: nn_xpush_sockbase_vfptr_def nn_xpush_out_def intro!: sock_goodI)
next
  case (9 s w f m)
  note g = sock_goodD [OF 9(1)]
  have f: "f = nn_xpush_send vf" using 9(2) by (simp add: nn_xpush_sockbase_vfptr_def)
  have ok: "sched_ok (push_data s) (push_lb s)" "\<And>p. p \<in> pl_active (push_lb s) \<Longrightarrow> can_send w p"
    using g(2,4) by auto
  show ?case
    by (rule sched_send [OF g(1) ok, of m])
      (use g 9(1) in \<open>auto simp: f nn_xpush_send_def intro!: sock_goodI split: if_splits\<close>)
next
  case (10 s w g)
  then show ?case by (simp add: nn_xpush_sockbase_vfptr_def)
next
  case (11 s w level opt val)
  then show ?case by (simp add: nn_xpush_sockbase_vfptr_def nn_xpush_setopt_def)
qed (auto simp: nn_xpush_init_def nn_lb_init_def sched_init pl_inv_init)

definition xpull_view :: "nn_xpull sock_view" where
  "xpull_view = \<lparr>v_inv = (\<lambda>s. sched_ok (pull_data s) (pull_fq s)), v_att = (\<lambda>s. dom (pull_data s)),
     v_in = (\<lambda>s. pl_active (pull_fq s)), v_out = (\<lambda>s. {}), v_hears = True, v_room = (\<lambda>s. True),
     v_msgs = (\<lambda>m. True), v_opts = (\<lambda>s level opt val. True)\<rparr>"

lemma xpull_view_sel [simp]:
  "v_inv xpull_view s \<longleftrightarrow> sched_ok (pull_data s) (pull_fq s)" "v_att xpull_view s = dom (pull_data s)"
  "v_in xpull_view s = pl_active (pull_fq s)" "v_out xpull_view s = {}" "v_hears xpull_view"
  by (simp_all add: xpull_view_def)

sublocale transport \<subseteq> xpull: sp_socket vf winv "nn_xpull_sockbase_vfptr vf" xpull_view nn_xpull_init
proof (unfold_locales, goal_cases)
  case (5 s w p opt)
  note g = sock_goodD [OF 5(1)]
  have "sched_ok ((pull_data s)(p := Some (nn_fq_add p (rcvprio opt)))) (pull_fq s)"
    unfolding nn_fq_add_def by (rule sched_add) (use 5 g(2) in \<open>auto simp: opts_ok_def\<close>)
  then show ?case
    using 5 g(1,3,5) by (auto simp: nn_xpull_sockbase_vfptr_def nn_xpull_add_def opts_ok_def intro!: sock_goodI)
next
  case (6 s w p)
  note g = sock_goodD [OF 6(1)]
  then obtain d l' where "pull_data s p = Some d" "nn_fq_rm (pull_fq s) d = Some l'"
    "sched_ok ((pull_data s)(p := None)) l'" "pl_active l' = pl_active (pull_fq s) - {p}"
    using 6(2) sched_rm [of "pull_data s" "pull_fq s" p] by (auto simp: nn_fq_rm_def)
  then show ?case
    using g(1,3,5) by (auto simp: nn_xpull_sockbase_vfptr_def nn_xpull_rm_def intro!: sock_goodI)
next
  case (7 s w p)
  note g = sock_goodD [OF 7(1)]
  then obtain d l' where "pull_data s p = Some d" "nn_fq_in (pull_fq s) d = Some l'"
    "sched_ok (pull_data s) l'" "pl_active l' = insert p (pl_active (pull_fq s))"
    using 7(3,4) sched_activate [of "pull_data s" "pull_fq s" p] by (auto simp: nn_fq_in_def)
  then show ?case
    using g(1,3,5) 7(5) by (auto simp: nn_xpull_sockbase_vfptr_def nn_xpull_in_def intro!: sock_goodI)
next
  case (8 s w p)
  then show ?case by (simp add: nn_xpull_sockbase_vfptr_def nn_xpull_out_def)
next
  case (9 s w f m)
  then show ?case by (simp add: nn_xpull_sockbase_vfptr_def)
next
  case (10 s w h)
  note g = sock_goodD [OF 10(1)]
  have h: "h = nn_xpull_recv vf" using 10(2) by (simp add: nn_xpull_sockbase_vfptr_def)
  have ok: "sched_ok (pull_data s) (pull_fq s)" "\<And>p. p \<in> pl_active (pull_fq s) \<Longrightarrow> can_recv w p"
    using g(2,3) by auto
  show ?case
    by (rule sched_recv [OF g(1) ok])
      (use g 10(1) in \<open>auto simp: h nn_xpull_recv_def intro!: sock_goodI split: if_splits\<close>)
next
  case (11 s w level opt val)
  then show ?case by (simp add: nn_xpull_sockbase_vfptr_def nn_xpull_setopt_def)
qed (auto simp: nn_xpull_init_def nn_fq_init_def sched_init pl_inv_init)

end
