(* ===== verification/Nn_Pubsub.thy ===== *)
theory Nn_Pubsub
  imports Nn_Socket Nn_Trie
begin

text \<open>
  The PUB and SUB sockets, \<^verbatim>\<open>protocols/pubsub/xpub.c\<close> and \<^verbatim>\<open>xsub.c\<close>: a distributor on the
  publishing side, a fair queuer and the subscription trie on the other.
\<close>

section \<open>PUB\<close>

record nn_xpub =
  pub_outpipes :: nn_dist
  pub_data :: "pid set"

definition nn_xpub_init :: nn_xpub where
  "nn_xpub_init = \<lparr>pub_outpipes = nn_dist_init, pub_data = {}\<rparr>"

definition nn_xpub_term :: "nn_xpub \<Rightarrow> unit option" where
  "nn_xpub_term self = nn_dist_term (pub_outpipes self)"

definition nn_xpub_add :: "nn_xpub \<Rightarrow> pid \<Rightarrow> pipe_opts \<Rightarrow> (unit rc \<times> nn_xpub) option" where
  "nn_xpub_add self p opt = Some (Inr (), self\<lparr>pub_data := insert p (pub_data self)\<rparr>)"

definition nn_xpub_rm :: "'x world \<Rightarrow> nn_xpub \<Rightarrow> pid \<Rightarrow> (nn_xpub \<times> 'x world) option" where
  "nn_xpub_rm w self p = do {
     nn_assert (p \<in> pub_data self);
     Some (\<lparr>pub_outpipes = nn_dist_rm (pub_outpipes self) p, pub_data = pub_data self - {p}\<rparr>, w) }"

text \<open>\<^verbatim>\<open>nn_assert (0)\<close>: a message from a subscriber aborts the publisher.\<close>

definition nn_xpub_in :: "'x world \<Rightarrow> nn_xpub \<Rightarrow> pid \<Rightarrow> (nn_xpub \<times> 'x world) option" where
  "nn_xpub_in w self p = None"

definition nn_xpub_out :: "'x world \<Rightarrow> nn_xpub \<Rightarrow> pid \<Rightarrow> (nn_xpub \<times> 'x world) option" where
  "nn_xpub_out w self p = do {
     nn_assert (p \<in> pub_data self);
     d \<leftarrow> nn_dist_out (pub_outpipes self) p;
     Some (self\<lparr>pub_outpipes := d\<rparr>, w) }"

definition nn_xpub_events :: "nn_xpub \<Rightarrow> u32" where
  "nn_xpub_events self = NN_SOCKBASE_EVENT_OUT"

definition nn_xpub_send ::
  "'x pipebase_vfptr \<Rightarrow> 'x world \<Rightarrow> nn_xpub \<Rightarrow> sp_msg \<Rightarrow> (unit rc \<times> nn_xpub \<times> 'x world) option" where
  "nn_xpub_send vf w self msg = do {
     (d, w) \<leftarrow> nn_dist_send vf w (pub_outpipes self) msg None;
     Some (Inr (), self\<lparr>pub_outpipes := d\<rparr>, w) }"

definition nn_xpub_setopt :: "nn_xpub \<Rightarrow> int \<Rightarrow> int \<Rightarrow> bytes \<Rightarrow> (unit rc \<times> nn_xpub) option" where
  "nn_xpub_setopt self level opt optval = Some (Inl ENOPROTOOPT, self)"

definition nn_xpub_sockbase_vfptr :: "'x pipebase_vfptr \<Rightarrow> (nn_xpub, 'x) sockbase_vfptr" where
  "nn_xpub_sockbase_vfptr vf = \<lparr>sk_add = nn_xpub_add, sk_rm = nn_xpub_rm, sk_in = nn_xpub_in,
     sk_out = nn_xpub_out, sk_events = nn_xpub_events, sk_send = Some (nn_xpub_send vf), sk_recv = None,
     sk_setopt = nn_xpub_setopt\<rparr>"

definition xpub_view :: "nn_xpub sock_view" where
  "xpub_view = \<lparr>v_inv = (\<lambda>s. dist_wf (pub_outpipes s) \<and> finite (pub_data s) \<and> card (pub_data s) \<le> 2 ^ 31),
     v_att = pub_data, v_in = (\<lambda>s. {}), v_out = (\<lambda>s. set (dpipes (pub_outpipes s))), v_hears = False, v_room = (\<lambda>s. card (pub_data s) < 2 ^ 31),
     v_msgs = (\<lambda>m. True), v_opts = (\<lambda>s level opt val. True)\<rparr>"

lemma xpub_view_sel [simp]:
  "v_inv xpub_view s \<longleftrightarrow> dist_wf (pub_outpipes s) \<and> finite (pub_data s) \<and> card (pub_data s) \<le> 2 ^ 31"
  "v_att xpub_view s = pub_data s" "v_in xpub_view s = {}" "v_out xpub_view s = set (dpipes (pub_outpipes s))"
  "\<not> v_hears xpub_view"
  "v_room xpub_view s \<longleftrightarrow> card (pub_data s) < 2 ^ 31"
  by (simp_all add: xpub_view_def)

sublocale transport \<subseteq> xpub: sp_socket vf winv "nn_xpub_sockbase_vfptr vf" xpub_view nn_xpub_init
proof (unfold_locales, goal_cases)
  case (5 s w p opt)
  note g = sock_goodD [OF 5(1)]
  show ?case
    using g(1,2,4,6) 5(2,3) by (auto simp: nn_xpub_sockbase_vfptr_def nn_xpub_add_def intro!: sock_goodI)
next
  case (6 s w p)
  note g = sock_goodD [OF 6(1)]
  have wf: "dist_wf (pub_outpipes s)" "finite (pub_data s)" "card (pub_data s) \<le> 2 ^ 31" using g(2) by auto
  then have "card (pub_data s - {p}) \<le> 2 ^ 31" using card_Diff1_le [of "pub_data s" p] by linarith
  then show ?case
    using 6(2) wf g(1,4,6) dist_rm_ok [OF wf(1), of p]
    by (auto simp: nn_xpub_sockbase_vfptr_def nn_xpub_rm_def intro!: sock_goodI)
next
  case (7 s w p)
  then show ?case by simp
next
  case (8 s w p)
  note g = sock_goodD [OF 8(1)]
  have wf: "dist_wf (pub_outpipes s)" "finite (pub_data s)" "card (pub_data s) \<le> 2 ^ 31" using g(2) by auto
  have "length (dpipes (pub_outpipes s)) < 2 ^ 31"
    by (rule dist_room [OF wf(1) _ wf(2,3)]) (use 8 g(6) in auto)
  then obtain d where "nn_dist_out (pub_outpipes s) p = Some d" "dist_wf d"
    "set (dpipes d) = insert p (set (dpipes (pub_outpipes s)))"
    using dist_out_ok [OF wf(1), of p] 8(3) by auto
  then show ?case
    using 8(2,4) wf g(1,4,6) by (auto simp: nn_xpub_sockbase_vfptr_def nn_xpub_out_def intro!: sock_goodI)
next
  case (9 s w f m)
  note g = sock_goodD [OF 9(1)]
  have f: "f = nn_xpub_send vf" using 9(2) by (simp add: nn_xpub_sockbase_vfptr_def)
  have d: "dist_wf (pub_outpipes s)" "\<forall>p \<in> set (dpipes (pub_outpipes s)). can_send w p" using g(2,4) by auto
  show ?case
    by (rule dist_send_good [OF g(1) d, of m None]) (use g in \<open>auto simp: f nn_xpub_send_def subset_iff intro!: sock_goodI\<close>)
next
  case (10 s w g)
  then show ?case by (simp add: nn_xpub_sockbase_vfptr_def)
next
  case (11 s w level opt val)
  then show ?case by (simp add: nn_xpub_sockbase_vfptr_def nn_xpub_setopt_def)
qed (auto simp: nn_xpub_init_def dist_wf_init)


section \<open>SUB\<close>

record nn_xsub =
  sub_fq :: nn_fq
  sub_trie :: nn_trie
  sub_data :: "pid \<Rightarrow> nn_priolist_data option"

definition nn_xsub_init :: nn_xsub where
  "nn_xsub_init = \<lparr>sub_fq = nn_fq_init, sub_trie = nn_trie_init, sub_data = Map.empty\<rparr>"

definition nn_xsub_term :: "nn_xsub \<Rightarrow> unit option" where
  "nn_xsub_term self = nn_fq_term (sub_fq self)"

definition nn_xsub_add :: "nn_xsub \<Rightarrow> pid \<Rightarrow> pipe_opts \<Rightarrow> (unit rc \<times> nn_xsub) option" where
  "nn_xsub_add self p opt = do {
     nn_assert (rcvprio opt \<ge> 1 \<and> rcvprio opt \<le> 16);
     Some (Inr (), \<lparr>sub_fq = sub_fq self, sub_trie = sub_trie self,
       sub_data = (sub_data self)(p \<mapsto> nn_fq_add p (rcvprio opt))\<rparr>) }"

definition nn_xsub_rm :: "'x world \<Rightarrow> nn_xsub \<Rightarrow> pid \<Rightarrow> (nn_xsub \<times> 'x world) option" where
  "nn_xsub_rm w self p = do {
     data \<leftarrow> sub_data self p;
     fq \<leftarrow> nn_fq_rm (sub_fq self) data;
     Some (\<lparr>sub_fq = fq, sub_trie = sub_trie self, sub_data = (sub_data self)(p := None)\<rparr>, w) }"

definition nn_xsub_in :: "'x world \<Rightarrow> nn_xsub \<Rightarrow> pid \<Rightarrow> (nn_xsub \<times> 'x world) option" where
  "nn_xsub_in w self p = do {
     data \<leftarrow> sub_data self p;
     fq \<leftarrow> nn_fq_in (sub_fq self) data;
     Some (self\<lparr>sub_fq := fq\<rparr>, w) }"

definition nn_xsub_out :: "'x world \<Rightarrow> nn_xsub \<Rightarrow> pid \<Rightarrow> (nn_xsub \<times> 'x world) option" where
  "nn_xsub_out w self p = Some (self, w)"

definition nn_xsub_events :: "nn_xsub \<Rightarrow> u32" where
  "nn_xsub_events self = (if nn_fq_can_recv (sub_fq self) then NN_SOCKBASE_EVENT_IN else 0)"

text \<open>\<open>after\<close> is the memory that follows the body of a message: \<^verbatim>\<open>nn_trie_match\<close> may read it.\<close>

definition nn_xsub_recv ::
  "(sp_msg \<Rightarrow> bytes) \<Rightarrow> 'x pipebase_vfptr \<Rightarrow> 'x world \<Rightarrow> nn_xsub \<Rightarrow> (sp_msg rc \<times> nn_xsub \<times> 'x world) option" where
  "nn_xsub_recv after vf w self = do {
     (rc, fq, w) \<leftarrow> fq_recv_until vf
       (\<lambda>msg. nn_trie_match (sub_trie self) (body msg @ after msg) (of_nat (length (body msg)))) w (sub_fq self);
     case rc of Inl e \<Rightarrow> do { nn_assert (e = EAGAIN); Some (Inl EAGAIN, self\<lparr>sub_fq := fq\<rparr>, w) }
     | Inr (fl, msg, p) \<Rightarrow> Some (Inr msg, self\<lparr>sub_fq := fq\<rparr>, w) }"

definition NN_SUB :: int where
  "NN_SUB = 33"

definition NN_SUB_SUBSCRIBE :: int where
  "NN_SUB_SUBSCRIBE = 1"

definition NN_SUB_UNSUBSCRIBE :: int where
  "NN_SUB_UNSUBSCRIBE = 2"

text \<open>The only negative result of the trie is \<^verbatim>\<open>-EINVAL\<close>.\<close>

definition nn_xsub_setopt :: "nn_xsub \<Rightarrow> int \<Rightarrow> int \<Rightarrow> bytes \<Rightarrow> (unit rc \<times> nn_xsub) option" where
  "nn_xsub_setopt self level opt optval =
     (if level \<noteq> NN_SUB then Some (Inl ENOPROTOOPT, self)
      else if opt = NN_SUB_SUBSCRIBE then do {
        (rc, t) \<leftarrow> nn_trie_subscribe (sub_trie self) optval;
        Some (if rc \<ge> 0 then Inr () else Inl EINVAL, self\<lparr>sub_trie := t\<rparr>) }
      else if opt = NN_SUB_UNSUBSCRIBE then do {
        (rc, t) \<leftarrow> nn_trie_unsubscribe (sub_trie self) optval;
        Some (if rc \<ge> 0 then Inr () else Inl EINVAL, self\<lparr>sub_trie := t\<rparr>) }
      else Some (Inl ENOPROTOOPT, self))"

definition nn_xsub_sockbase_vfptr :: "(sp_msg \<Rightarrow> bytes) \<Rightarrow> 'x pipebase_vfptr \<Rightarrow> (nn_xsub, 'x) sockbase_vfptr" where
  "nn_xsub_sockbase_vfptr after vf = \<lparr>sk_add = nn_xsub_add, sk_rm = nn_xsub_rm, sk_in = nn_xsub_in,
     sk_out = nn_xsub_out, sk_events = nn_xsub_events, sk_send = None, sk_recv = Some (nn_xsub_recv after vf),
     sk_setopt = nn_xsub_setopt\<rparr>"


subsection \<open>Contract\<close>

text \<open>Matching any message stays inside the memory that can be read.\<close>

definition readable :: "(sp_msg \<Rightarrow> bytes) \<Rightarrow> nn_trie \<Rightarrow> bool" where
  "readable after t \<longleftrightarrow> (\<forall>m. nn_trie_match t (body m @ after m) (of_nat (length (body m))) \<noteq> None)"

lemma readable_deep: "trie_wf t \<Longrightarrow> \<exists>K. \<forall>after. (\<forall>m. length (after m) \<ge> K) \<longrightarrow> readable after t"
  using trie_match_defined [of t] unfolding readable_def by (metis length_append trans_le_add2)

text \<open>The options that may be set: subscriptions whose count does not overflow, and only
  strings that are subscribed are unsubscribed.\<close>

definition xsub_opts :: "(sp_msg \<Rightarrow> bytes) \<Rightarrow> nn_xsub \<Rightarrow> int \<Rightarrow> int \<Rightarrow> bytes \<Rightarrow> bool" where
  "xsub_opts after s level opt val \<longleftrightarrow> length val < 2 ^ 64 \<and>
     (opt = NN_SUB_SUBSCRIBE \<longrightarrow> trie_subs (sub_trie s) val + 1 < 2 ^ 32) \<and>
     (opt = NN_SUB_UNSUBSCRIBE \<longrightarrow> trie_subs (sub_trie s) val > 0 \<and> trie_plain (sub_trie s) val) \<and>
     (\<forall>rc s'. nn_xsub_setopt s level opt val = Some (rc, s') \<longrightarrow> readable after (sub_trie s'))"

definition xsub_view :: "(sp_msg \<Rightarrow> bytes) \<Rightarrow> nn_xsub sock_view" where
  "xsub_view after = \<lparr>v_inv = (\<lambda>s. sched_ok (sub_data s) (sub_fq s) \<and> trie_wf (sub_trie s) \<and> readable after (sub_trie s)),
     v_att = (\<lambda>s. dom (sub_data s)), v_in = (\<lambda>s. pl_active (sub_fq s)), v_out = (\<lambda>s. {}), v_hears = True, v_room = (\<lambda>s. True),
     v_msgs = (\<lambda>m. True), v_opts = xsub_opts after\<rparr>"

lemma xsub_view_sel [simp]:
  "v_inv (xsub_view after) s \<longleftrightarrow> sched_ok (sub_data s) (sub_fq s) \<and> trie_wf (sub_trie s) \<and> readable after (sub_trie s)"
  "v_att (xsub_view after) s = dom (sub_data s)" "v_in (xsub_view after) s = pl_active (sub_fq s)"
  "v_out (xsub_view after) s = {}" "v_hears (xsub_view after)" "v_opts (xsub_view after) = xsub_opts after"
  by (simp_all add: xsub_view_def)

lemma nn_xsub_setopt_ok:
  assumes "xsub_opts after s level opt val" "trie_wf (sub_trie s)"
  shows "\<exists>rc t. nn_xsub_setopt s level opt val = Some (rc, s\<lparr>sub_trie := t\<rparr>) \<and> trie_wf t \<and>
    (readable after (sub_trie s) \<longrightarrow> readable after t)"
proof -
  have len: "length val < 2 ^ 64" using assms(1) by (simp add: xsub_opts_def)
  consider "level = NN_SUB" "opt = NN_SUB_SUBSCRIBE" | "level = NN_SUB" "opt = NN_SUB_UNSUBSCRIBE"
    | "level \<noteq> NN_SUB \<or> opt \<noteq> NN_SUB_SUBSCRIBE \<and> opt \<noteq> NN_SUB_UNSUBSCRIBE" by blast
  then show ?thesis
  proof cases
    case 1
    then obtain t where t: "nn_trie_subscribe (sub_trie s) val = Some (if trie_subs (sub_trie s) val = 0 then 1 else 0, t)"
      "trie_wf t"
      using trie_subscribe_ok [OF assms(2) len] assms(1) by (auto simp: xsub_opts_def)
    then have "nn_xsub_setopt s level opt val = Some (Inr (), s\<lparr>sub_trie := t\<rparr>)"
      using 1 by (simp add: nn_xsub_setopt_def)
    moreover from this have "readable after t" using assms(1) unfolding xsub_opts_def by fastforce
    ultimately show ?thesis using t(2) by blast
  next
    case 2
    then obtain t where t: "nn_trie_unsubscribe (sub_trie s) val = Some (if trie_subs (sub_trie s) val = 1 then 1 else 0, t)"
      "trie_wf t"
      using trie_unsubscribe_ok [OF assms(2) len] assms(1) by (auto simp: xsub_opts_def)
    then have "nn_xsub_setopt s level opt val = Some (Inr (), s\<lparr>sub_trie := t\<rparr>)"
      using 2 by (simp add: nn_xsub_setopt_def NN_SUB_SUBSCRIBE_def NN_SUB_UNSUBSCRIBE_def)
    moreover from this have "readable after t" using assms(1) unfolding xsub_opts_def by fastforce
    ultimately show ?thesis using t(2) by blast
  next
    case 3
    then have "nn_xsub_setopt s level opt val = Some (Inl ENOPROTOOPT, s\<lparr>sub_trie := sub_trie s\<rparr>)"
      by (auto simp: nn_xsub_setopt_def)
    then show ?thesis using assms(2) by blast
  qed
qed

context draining_transport begin

lemma xsub_recv_ok:
  assumes w: "winv w" and ok: "sched_ok (sub_data s) (sub_fq s)" "\<forall>p \<in> pl_active (sub_fq s). can_recv w p"
    and rd: "readable after (sub_trie s)"
  shows "\<exists>ms w1 fq1 rc fq' w'. fq_run vf w (sub_fq s) ms w1 fq1 \<and>
    (\<forall>m \<in> set ms. nn_trie_match (sub_trie s) (body m @ after m) (of_nat (length (body m))) = Some False) \<and>
    nn_xsub_recv after vf w s = Some (rc, s\<lparr>sub_fq := fq'\<rparr>, w') \<and>
    (case rc of Inl e \<Rightarrow> e = EAGAIN \<and> pl_active fq' = {}
     | Inr m \<Rightarrow> nn_trie_match (sub_trie s) (body m @ after m) (of_nat (length (body m))) = Some True \<and>
         (\<exists>fl p. nn_fq_recv vf w1 fq1 = Some (Inr (fl, m, p), fq', w'))) \<and>
    winv w' \<and> sched_ok (sub_data s) fq' \<and> pl_active fq' \<subseteq> pl_active (sub_fq s) \<and> (\<forall>p \<in> pl_active fq'. can_recv w' p)"
proof -
  let ?acc = "\<lambda>m. nn_trie_match (sub_trie s) (body m @ after m) (of_nat (length (body m)))"
  have "?acc m \<noteq> None" for m using rd by (simp add: readable_def)
  then obtain ms w1 fq1 rc fq' w' where
    r: "fq_run vf w (sub_fq s) ms w1 fq1" "\<forall>m \<in> set ms. ?acc m = Some False"
      "fq_recv_until vf ?acc w (sub_fq s) = Some (rc, fq', w')" "nn_fq_recv vf w1 fq1 = Some (rc, fq', w')"
      "case rc of Inl e \<Rightarrow> e = EAGAIN \<and> pl_active fq' = {} | Inr (fl, m, p) \<Rightarrow> ?acc m = Some True \<and> p \<in> pl_active (sub_fq s)"
      "winv w'" "sched_ok (sub_data s) fq'" "pl_active fq' \<subseteq> pl_active (sub_fq s)" "\<forall>p \<in> pl_active fq'. can_recv w' p"
    using recv_until_ok [OF w ok, of ?acc] by (elim meta_impE exE conjE) (assumption | rule that; assumption)+
  let ?rc = "map_sum id (\<lambda>(fl, m, p). m) rc"
  have "nn_xsub_recv after vf w s = Some (?rc, s\<lparr>sub_fq := fq'\<rparr>, w')"
    using r(3,5) by (auto simp: nn_xsub_recv_def split: sum.splits)
  moreover have "case ?rc of Inl e \<Rightarrow> e = EAGAIN \<and> pl_active fq' = {}
     | Inr m \<Rightarrow> ?acc m = Some True \<and> (\<exists>fl p. nn_fq_recv vf w1 fq1 = Some (Inr (fl, m, p), fq', w'))"
    using r(4,5) by (auto split: sum.splits)
  ultimately show ?thesis using r(1,2,6-9) by blast
qed

end

sublocale draining_transport \<subseteq> xsub: sp_socket vf winv "nn_xsub_sockbase_vfptr after vf" "xsub_view after" nn_xsub_init for after
proof (unfold_locales, goal_cases)
  case (5 s w p opt)
  note g = sock_goodD [OF 5(1)]
  have "sched_ok ((sub_data s)(p := Some (nn_fq_add p (rcvprio opt)))) (sub_fq s)"
    unfolding nn_fq_add_def by (rule sched_add) (use 5 g(2) in \<open>auto simp: opts_ok_def\<close>)
  then show ?case
    using 5 g(1,2,3,5) by (auto simp: nn_xsub_sockbase_vfptr_def nn_xsub_add_def opts_ok_def intro!: sock_goodI)
next
  case (6 s w p)
  note g = sock_goodD [OF 6(1)]
  then obtain d l' where "sub_data s p = Some d" "nn_fq_rm (sub_fq s) d = Some l'"
    "sched_ok ((sub_data s)(p := None)) l'" "pl_active l' = pl_active (sub_fq s) - {p}"
    using 6(2) sched_rm [of "sub_data s" "sub_fq s" p] by (auto simp: nn_fq_rm_def)
  then show ?case
    using g(1,2,3,5) by (auto simp: nn_xsub_sockbase_vfptr_def nn_xsub_rm_def intro!: sock_goodI)
next
  case (7 s w p)
  note g = sock_goodD [OF 7(1)]
  then obtain d l' where "sub_data s p = Some d" "nn_fq_in (sub_fq s) d = Some l'"
    "sched_ok (sub_data s) l'" "pl_active l' = insert p (pl_active (sub_fq s))"
    using 7(3,4) sched_activate [of "sub_data s" "sub_fq s" p] by (auto simp: nn_fq_in_def)
  then show ?case
    using g(1,2,3,5) 7(5) by (auto simp: nn_xsub_sockbase_vfptr_def nn_xsub_in_def intro!: sock_goodI)
next
  case (8 s w p)
  then show ?case by (simp add: nn_xsub_sockbase_vfptr_def nn_xsub_out_def)
next
  case (9 s w f m)
  then show ?case by (simp add: nn_xsub_sockbase_vfptr_def)
next
  case (10 s w h)
  note g = sock_goodD [OF 10(1)]
  have h: "h = nn_xsub_recv after vf" using 10(2) by (simp add: nn_xsub_sockbase_vfptr_def)
  have ok: "sched_ok (sub_data s) (sub_fq s)" "\<forall>p \<in> pl_active (sub_fq s). can_recv w p" "readable after (sub_trie s)"
    using g(2,3) by auto
  show ?case
    using xsub_recv_ok [OF g(1) ok] g(2,5) h by (fastforce simp: subset_iff intro!: sock_goodI)
next
  case (11 s w level nm val)
  note g = sock_goodD [OF 11(1)]
  show ?case
    using nn_xsub_setopt_ok [of after s level nm val] 11(2) g(1,2,3,5)
    by (fastforce simp: nn_xsub_sockbase_vfptr_def intro!: sock_goodI)
qed (auto simp: nn_xsub_init_def nn_fq_init_def sched_init pl_inv_init nn_trie_init_def trie_wf_def readable_def nn_trie_match_def)

end
