(* ===== verification/Nn_Examples.thy ===== *)
theory Nn_Examples
  imports Nn_Sched
begin

text \<open>Concrete worlds: a connected pair of inproc sessions with messages on the way, for the
  examples of the socket types.\<close>

lemma inproc_send_pstate:
  "nn_pipe_send nn_sinproc_pipebase_vfptr w p m = Some (rc, w') \<Longrightarrow> pstate (pipes w' x) = pstate (pipes w x)"
  by (auto simp: nn_pipe_send_def nn_sinproc_pipebase_vfptr_def nn_sinproc_send_def nn_fsm_raiseto_eq Let_def
      split: if_splits bind_splits sum.splits)

lemma received_pstate: "nn_pipebase_received p w = Some w' \<Longrightarrow> pstate (pipes w' x) = pstate (pipes w x)"
  by (auto simp: nn_pipebase_received_def split: if_splits)

lemma sent_pstate: "nn_pipebase_sent p w = Some w' \<Longrightarrow> pstate (pipes w' x) = pstate (pipes w x)"
  by (auto simp: nn_pipebase_sent_def split: if_splits)

lemma raiseto_pipes: "nn_fsm_raiseto e d t s w = Some w' \<Longrightarrow> pipes w' = pipes w"
  by (auto simp: nn_fsm_raiseto_def)

lemma on_sent_pstate: "sinproc_on_sent w p = Some w' \<Longrightarrow> pstate (pipes w' x) = pstate (pipes w x)"
  by (auto simp: sinproc_on_sent_def Let_def split: bind_splits sum.splits if_splits
      dest!: received_pstate [where x = x] raiseto_pipes)

lemma on_received_pstate: "sinproc_on_received w p = Some w' \<Longrightarrow> pstate (pipes w' x) = pstate (pipes w x)"
  by (auto simp: sinproc_on_received_def split: bind_splits dest!: sent_pstate [where x = x])

lemma pair_deliver_cases:
  assumes ok: "pair_ok p q r" and d: "deliver no_add no_rm ((), iw r) = Some (u, w')" and e: "pending (tstate (iw r)) = e # es"
  shows "sinproc_on_sent (set_pending es (iw r)) (ev_dst e) = Some w' \<or>
    sinproc_on_received (set_pending es (iw r)) (ev_dst e) = Some w'"
proof -
  have "good_event p q e" using ok e by (simp add: pair_ok_def)
  then have e': "ev_dst e = p \<or> ev_dst e = q" "ev_type e = NN_SINPROC_SENT \<or> ev_type e = NN_SINPROC_RECEIVED"
    by (auto simp: good_event_def)
  have "sstate (session (iw r) (ev_dst e)) = SIN_ACTIVE" "fsmstate (session (iw r) (ev_dst e)) = FSM_ACTIVE"
    using ok e'(1) by (auto simp: pair_ok_def linked_def)
  then show ?thesis
    using d e e'(2) by (auto simp: deliver_def nn_fsm_feed_def nn_sinproc_handler_def)
qed

lemma pair_deliver_pstate:
  assumes ok: "pair_ok p q r" and d: "deliver no_add no_rm ((), iw r) = Some (u, w')"
  shows "pstate (pipes w' x) = pstate (pipes (iw r) x)"
proof (cases "pending (tstate (iw r))")
  case Nil
  then show ?thesis using d by (simp add: deliver_def)
next
  case (Cons e es)
  then show ?thesis using pair_deliver_cases [OF ok d Cons] on_sent_pstate on_received_pstate by fastforce
qed

lemma pair_inproc_inv:
  assumes ok: "pair_ok p q r" and only: "\<And>x. active_pipe (iw r) x \<Longrightarrow> x = p \<or> x = q"
  shows "inproc_inv (iw r)"
proof -
  have l: "linked (iw r) p q" "linked (iw r) q p" using ok by (auto simp: pair_ok_def)
  have "sess_ok (iw r) p" "sess_ok (iw r) q"
    using ok by (auto simp: pair_ok_def linked_def dir_ok_def direction_of_def sess_ok_def split: if_splits)
  then show ?thesis
    using only l unfolding inproc_inv_def linked_def by (metis option.inject)
qed

lemma unblock_pipes: "sinproc_unblock w p = Some w' \<Longrightarrow> pipes w' = pipes w"
  by (auto simp: sinproc_unblock_def Let_def split: bind_splits if_splits sum.splits dest!: raiseto_pipes)

lemma inproc_recv_pstate:
  "nn_pipe_recv nn_sinproc_pipebase_vfptr w p = Some (rc, m, w') \<Longrightarrow> pstate (pipes w' x) = pstate (pipes w x)"
  by (auto simp: nn_pipe_recv_def nn_sinproc_pipebase_vfptr_def nn_sinproc_recv_def Let_def
      split: if_splits bind_splits sum.splits dest!: received_pstate [where x = x] unblock_pipes)

text \<open>The pair after one message went from session 0 and its event was delivered.\<close>

definition msg_run :: "sp_msg \<Rightarrow> inproc_run option" where
  "msg_run m = inproc_exec [ISend 0 m, IDeliver] (start_run pair_world)"

definition msg_world :: "sp_msg \<Rightarrow> iworld" where
  "msg_world m = (case msg_run m of Some r \<Rightarrow> iw r | None \<Rightarrow> pair_world)"

lemma pair_world_run: "pair_ok 0 1 (start_run pair_world)" "active_pipe pair_world x \<longleftrightarrow> x = 0 \<or> x = 1"
proof -
  obtain w where w: "handshake 0 1 (fresh_world 100) = Some w" "pair_ok 0 1 (start_run w)"
    using handshake_pair [of 0 1 100] by auto
  have pw: "pair_world = w" by (simp only: pair_world_def w(1) option.case)
  then show "pair_ok 0 1 (start_run pair_world)" using w(2) by simp
  have s: "session (fresh_world 100) r = nn_sinproc_init 100" "pipes (fresh_world 100) r = fresh_pipe"
    "pending (tstate (fresh_world 100)) = []" for r
    by (simp_all add: fresh_world_def session_def)
  show "active_pipe pair_world x \<longleftrightarrow> x = 0 \<or> x = 1"
    unfolding pw using w(1)
    by (auto simp: handshake_def nn_sinproc_connect_def nn_sinproc_accept_def nn_sinproc_handler_def deliver_def
        nn_fsm_feed_def sinproc_activate_def nn_pipebase_start_def no_add_def nn_fsm_raiseto_eq Let_def s
        nn_sinproc_init_def fresh_pipe_def event_active_def split: if_splits)
qed

lemma msg_world_ok: "inproc_inv (msg_world m) \<and> (\<forall>x. active_pipe (msg_world m) x \<longleftrightarrow> x = 0 \<or> x = 1)"
proof -
  note ok = pair_world_run(1)
  have "length (sent (start_run pair_world) x) = 0" for x by (simp add: start_run_def)
  then obtain r1 where r1: "inproc_step (ISend 0 m) (start_run pair_world) = Some r1" "pair_ok 0 1 r1"
    "length (sent r1 0) \<le> 1" "length (sent r1 1) \<le> 1"
    using pair_step [OF ok, of "ISend 0 m"] by auto
  have a1: "active_pipe (iw r1) x \<longleftrightarrow> x = 0 \<or> x = 1" for x
    using r1(1) pair_world_run(2) [of x]
    by (auto simp: start_run_def split: if_splits bind_splits dest!: inproc_send_pstate [where x = x])
  obtain r2 where r2: "inproc_step IDeliver r1 = Some r2" "pair_ok 0 1 r2"
    using pair_step [OF r1(2), of IDeliver] r1(3,4) by auto
  have a2: "active_pipe (iw r2) x \<longleftrightarrow> x = 0 \<or> x = 1" for x
    using r2(1) a1 [of x] pair_deliver_pstate [OF r1(2)] by (auto split: bind_splits)
  then have "inproc_inv (iw r2)" using pair_inproc_inv [OF r2(2)] by blast
  moreover have "msg_world m = iw r2"
    using r1(1) r2(1) by (simp add: msg_world_def msg_run_def del: inproc_step.simps)
  ultimately show ?thesis using a2 by simp
qed

lemma msg_world_inv: "inproc_inv (msg_world m)"
  using msg_world_ok by blast

lemma msg_world_active: "active_pipe (msg_world m) x \<longleftrightarrow> x = 0 \<or> x = 1"
  using msg_world_ok by blast

lemma msg_world_recv:
  "can_recv (msg_world \<lparr>sphdr = [], hdrs = [], body = [7]\<rparr>) 1 \<and> \<not> can_send (msg_world \<lparr>sphdr = [], hdrs = [], body = [7]\<rparr>) 0 \<and>
   can_send (msg_world \<lparr>sphdr = [], hdrs = [], body = [7]\<rparr>) 1"
  by code_simp

end
