(* ===== verification/Nn_Bus.thy ===== *)
theory Nn_Bus
  imports Nn_Socket Nn_Examples
begin

text \<open>
  The BUS socket, \<^verbatim>\<open>protocols/bus/xbus.c\<close> and \<^verbatim>\<open>bus.c\<close>: every message goes to all peers; the raw
  socket marks a received message with the pipe it came from, and does not send a message back
  to the pipe it is marked with.  The mark is the pipe's address: \<open>addr\<close> gives the addresses,
  and a header of eight bytes is the address in the byte order of the machine.
\<close>

definition ptr_bytes :: "u64 \<Rightarrow> bytes" where
  "ptr_bytes v = map (\<lambda>k. ucast (drop_bit k v AND 0xff)) [0, 8, 16, 24, 32, 40, 48, 56]"

lemma length_ptr_bytes [simp]: "length (ptr_bytes v) = 8"
  by (simp add: ptr_bytes_def)

lemma ptr_bytes_back: "nn_getll (rev (ptr_bytes v)) = Some v"
  by (simp add: ptr_bytes_def nn_getll_def join64)

lemma ptr_bytes_inj: "ptr_bytes a = ptr_bytes b \<longleftrightarrow> a = b"
  using ptr_bytes_back by (metis option.inject)

section \<open>Raw socket\<close>

record nn_xbus =
  bus_outpipes :: nn_dist
  bus_inpipes :: nn_fq
  bus_data :: "pid \<Rightarrow> nn_priolist_data option"

definition nn_xbus_init :: nn_xbus where
  "nn_xbus_init = \<lparr>bus_outpipes = nn_dist_init, bus_inpipes = nn_fq_init, bus_data = Map.empty\<rparr>"

definition nn_xbus_term :: "nn_xbus \<Rightarrow> unit option" where
  "nn_xbus_term self = do { nn_fq_term (bus_inpipes self); nn_dist_term (bus_outpipes self) }"

definition nn_xbus_add :: "nn_xbus \<Rightarrow> pid \<Rightarrow> pipe_opts \<Rightarrow> (unit rc \<times> nn_xbus) option" where
  "nn_xbus_add self p opt = do {
     nn_assert (rcvprio opt \<ge> 1 \<and> rcvprio opt \<le> 16);
     Some (Inr (), \<lparr>bus_outpipes = bus_outpipes self, bus_inpipes = bus_inpipes self,
       bus_data = (bus_data self)(p \<mapsto> nn_fq_add p (rcvprio opt))\<rparr>) }"

definition nn_xbus_rm :: "'x world \<Rightarrow> nn_xbus \<Rightarrow> pid \<Rightarrow> (nn_xbus \<times> 'x world) option" where
  "nn_xbus_rm w self p = do {
     data \<leftarrow> bus_data self p;
     fq \<leftarrow> nn_fq_rm (bus_inpipes self) data;
     Some (\<lparr>bus_outpipes = nn_dist_rm (bus_outpipes self) p, bus_inpipes = fq,
       bus_data = (bus_data self)(p := None)\<rparr>, w) }"

definition nn_xbus_in :: "'x world \<Rightarrow> nn_xbus \<Rightarrow> pid \<Rightarrow> (nn_xbus \<times> 'x world) option" where
  "nn_xbus_in w self p = do {
     data \<leftarrow> bus_data self p;
     fq \<leftarrow> nn_fq_in (bus_inpipes self) data;
     Some (self\<lparr>bus_inpipes := fq\<rparr>, w) }"

definition nn_xbus_out :: "'x world \<Rightarrow> nn_xbus \<Rightarrow> pid \<Rightarrow> (nn_xbus \<times> 'x world) option" where
  "nn_xbus_out w self p = do {
     data \<leftarrow> bus_data self p;
     d \<leftarrow> nn_dist_out (bus_outpipes self) p;
     Some (self\<lparr>bus_outpipes := d\<rparr>, w) }"

definition nn_xbus_events :: "nn_xbus \<Rightarrow> u32" where
  "nn_xbus_events self = (if nn_fq_can_recv (bus_inpipes self) then NN_SOCKBASE_EVENT_IN else 0) OR NN_SOCKBASE_EVENT_OUT"

text \<open>The pipe to leave out is compared by its address.\<close>

definition bus_exclude :: "(pid \<Rightarrow> u64) \<Rightarrow> nn_dist \<Rightarrow> bytes \<Rightarrow> pid option" where
  "bus_exclude addr d hdr = find (\<lambda>p. ptr_bytes (addr p) = hdr) (dpipes d)"

definition nn_xbus_send ::
  "(pid \<Rightarrow> u64) \<Rightarrow> 'x pipebase_vfptr \<Rightarrow> 'x world \<Rightarrow> nn_xbus \<Rightarrow> sp_msg \<Rightarrow> (unit rc \<times> nn_xbus \<times> 'x world) option" where
  "nn_xbus_send addr vf w self msg =
     (if length (sphdr msg) \<noteq> 0 \<and> length (sphdr msg) \<noteq> 8 then Some (Inl EINVAL, self, w)
      else do {
        let exclude = (if length (sphdr msg) = 0 then None else bus_exclude addr (bus_outpipes self) (sphdr msg));
        (d, w) \<leftarrow> nn_dist_send vf w (bus_outpipes self) (msg\<lparr>sphdr := []\<rparr>) exclude;
        Some (Inr (), self\<lparr>bus_outpipes := d\<rparr>, w) })"

definition nn_xbus_recv ::
  "(pid \<Rightarrow> u64) \<Rightarrow> 'x pipebase_vfptr \<Rightarrow> 'x world \<Rightarrow> nn_xbus \<Rightarrow> (sp_msg rc \<times> nn_xbus \<times> 'x world) option" where
  "nn_xbus_recv addr vf w self = do {
     (rc, fq, w) \<leftarrow> fq_recv_until vf (\<lambda>msg. Some (length (sphdr msg) = 0)) w (bus_inpipes self);
     let self = self\<lparr>bus_inpipes := fq\<rparr>;
     case rc of Inl e \<Rightarrow> Some (Inl e, self, w)
     | Inr (fl, msg, p) \<Rightarrow> Some (Inr (msg\<lparr>sphdr := ptr_bytes (addr p)\<rparr>), self, w) }"

definition nn_xbus_setopt :: "nn_xbus \<Rightarrow> int \<Rightarrow> int \<Rightarrow> bytes \<Rightarrow> (unit rc \<times> nn_xbus) option" where
  "nn_xbus_setopt self level opt optval = Some (Inl ENOPROTOOPT, self)"

definition nn_xbus_sockbase_vfptr :: "(pid \<Rightarrow> u64) \<Rightarrow> 'x pipebase_vfptr \<Rightarrow> (nn_xbus, 'x) sockbase_vfptr" where
  "nn_xbus_sockbase_vfptr addr vf = \<lparr>sk_add = nn_xbus_add, sk_rm = nn_xbus_rm, sk_in = nn_xbus_in,
     sk_out = nn_xbus_out, sk_events = nn_xbus_events, sk_send = Some (nn_xbus_send addr vf),
     sk_recv = Some (nn_xbus_recv addr vf), sk_setopt = nn_xbus_setopt\<rparr>"

section \<open>Cooked socket\<close>

definition nn_bus_send ::
  "(pid \<Rightarrow> u64) \<Rightarrow> 'x pipebase_vfptr \<Rightarrow> 'x world \<Rightarrow> nn_xbus \<Rightarrow> sp_msg \<Rightarrow> (unit rc \<times> nn_xbus \<times> 'x world) option" where
  "nn_bus_send addr vf w self msg =
     (if length (sphdr msg) \<noteq> 0 then Some (Inl EINVAL, self, w)
      else do {
        (rc, self, w) \<leftarrow> nn_xbus_send addr vf w self msg;
        nn_assert (rc = Inr ());
        Some (Inr (), self, w) })"

definition nn_bus_recv ::
  "(pid \<Rightarrow> u64) \<Rightarrow> 'x pipebase_vfptr \<Rightarrow> 'x world \<Rightarrow> nn_xbus \<Rightarrow> (sp_msg rc \<times> nn_xbus \<times> 'x world) option" where
  "nn_bus_recv addr vf w self = do {
     (rc, self, w) \<leftarrow> nn_xbus_recv addr vf w self;
     case rc of Inl e \<Rightarrow> do { nn_assert (e = EAGAIN); Some (Inl EAGAIN, self, w) }
     | Inr msg \<Rightarrow> do {
         nn_assert (length (sphdr msg) = 8);
         Some (Inr (msg\<lparr>sphdr := []\<rparr>), self, w) } }"

definition nn_bus_sockbase_vfptr :: "(pid \<Rightarrow> u64) \<Rightarrow> 'x pipebase_vfptr \<Rightarrow> (nn_xbus, 'x) sockbase_vfptr" where
  "nn_bus_sockbase_vfptr addr vf = (nn_xbus_sockbase_vfptr addr vf)
     \<lparr>sk_send := Some (nn_bus_send addr vf), sk_recv := Some (nn_bus_recv addr vf)\<rparr>"

section \<open>Contract\<close>

definition xbus_view :: "nn_xbus sock_view" where
  "xbus_view = \<lparr>v_inv = (\<lambda>s. sched_ok (bus_data s) (bus_inpipes s) \<and> dist_wf (bus_outpipes s) \<and>
       finite (dom (bus_data s)) \<and> card (dom (bus_data s)) \<le> 2 ^ 31),
     v_att = (\<lambda>s. dom (bus_data s)), v_in = (\<lambda>s. pl_active (bus_inpipes s)),
     v_out = (\<lambda>s. set (dpipes (bus_outpipes s))), v_hears = True, v_room = (\<lambda>s. card (dom (bus_data s)) < 2 ^ 31), v_msgs = (\<lambda>m. True), v_opts = (\<lambda>s level opt val. True)\<rparr>"

lemma xbus_view_sel [simp]:
  "v_inv xbus_view s \<longleftrightarrow> sched_ok (bus_data s) (bus_inpipes s) \<and> dist_wf (bus_outpipes s) \<and>
     finite (dom (bus_data s)) \<and> card (dom (bus_data s)) \<le> 2 ^ 31"
  "v_att xbus_view s = dom (bus_data s)" "v_in xbus_view s = pl_active (bus_inpipes s)"
  "v_out xbus_view s = set (dpipes (bus_outpipes s))" "v_hears xbus_view"
  "v_room xbus_view s \<longleftrightarrow> card (dom (bus_data s)) < 2 ^ 31"
  by (simp_all add: xbus_view_def)

context draining_transport begin

lemma xbus_send_good:
  assumes "sock_good winv xbus_view s w"
  shows "\<exists>s' w'. nn_xbus_send addr vf w s m = Some (if length (sphdr m) \<noteq> 0 \<and> length (sphdr m) \<noteq> 8 then Inl EINVAL else Inr (), s', w') \<and>
    sock_good winv xbus_view s' w'"
proof (cases "length (sphdr m) \<noteq> 0 \<and> length (sphdr m) \<noteq> 8")
  case True
  then show ?thesis using assms by (simp add: nn_xbus_send_def)
next
  case False
  note g = sock_goodD [OF assms]
  let ?ex = "if length (sphdr m) = 0 then None else bus_exclude addr (bus_outpipes s) (sphdr m)"
  have d: "dist_wf (bus_outpipes s)" "\<forall>p \<in> set (dpipes (bus_outpipes s)). can_send w p" using g(2,4) by auto
  obtain d' w' where s: "nn_dist_send vf w (bus_outpipes s) (m\<lparr>sphdr := []\<rparr>) ?ex = Some (d', w')"
    and r: "winv w'" "dist_wf d'" "set (dpipes d') \<subseteq> set (dpipes (bus_outpipes s))"
      "\<forall>q \<in> set (dpipes d'). can_send w' q" "\<forall>q. can_recv w q \<longrightarrow> can_recv w' q"
    by (rule dist_send_good [OF g(1) d, of "m\<lparr>sphdr := []\<rparr>" ?ex]) (rule that)
  have "nn_xbus_send addr vf w s m = Some (Inr (), s\<lparr>bus_outpipes := d'\<rparr>, w')"
    unfolding nn_xbus_send_def Let_def using False by (simp only: s if_False) simp
  moreover have "sock_good winv xbus_view (s\<lparr>bus_outpipes := d'\<rparr>) w'"
    using r g(2,3,5,6) by (intro sock_goodI) (auto simp: subset_iff)
  ultimately show ?thesis using False by auto
qed

lemma xbus_recv_good:
  assumes "sock_good winv xbus_view s w"
  shows "\<exists>rc s' w'. nn_xbus_recv addr vf w s = Some (rc, s', w') \<and> sock_good winv xbus_view s' w' \<and>
    bus_outpipes s' = bus_outpipes s \<and> bus_data s' = bus_data s \<and>
    (case rc of Inl e \<Rightarrow> e = EAGAIN | Inr m \<Rightarrow> \<exists>p \<in> pl_active (bus_inpipes s). sphdr m = ptr_bytes (addr p))"
proof -
  note g = sock_goodD [OF assms]
  have ok: "sched_ok (bus_data s) (bus_inpipes s)" "\<forall>p \<in> pl_active (bus_inpipes s). can_recv w p"
    using g(2,3) by auto
  let ?acc = "\<lambda>msg. Some (length (sphdr msg) = 0)"
  obtain rc fq' w' where
    r: "fq_recv_until vf ?acc w (bus_inpipes s) = Some (rc, fq', w')"
      "case rc of Inl e \<Rightarrow> e = EAGAIN \<and> pl_active fq' = {} | Inr (fl, m, p) \<Rightarrow> ?acc m = Some True \<and> p \<in> pl_active (bus_inpipes s)"
      "winv w'" "sched_ok (bus_data s) fq'" "pl_active fq' \<subseteq> pl_active (bus_inpipes s)" "\<forall>p \<in> pl_active fq'. can_recv w' p"
      "\<forall>q. can_send w q \<longrightarrow> can_send w' q"
    using recv_until_ok [OF g(1) ok, of ?acc] by (elim meta_impE exE conjE) (simp | rule that; assumption)+
  have "sock_good winv xbus_view (s\<lparr>bus_inpipes := fq'\<rparr>) w'"
    using r(3-7) g(2,4,5,6) by (intro sock_goodI) (auto simp: subset_iff)
  then show ?thesis
    using r(1,2) by (auto simp: nn_xbus_recv_def Let_def split: sum.splits)
qed

end

sublocale draining_transport \<subseteq> xbus: sp_socket vf winv "nn_xbus_sockbase_vfptr addr vf" xbus_view nn_xbus_init for addr
proof (unfold_locales, goal_cases)
  case (5 s w p opt)
  note g = sock_goodD [OF 5(1)]
  have "sched_ok ((bus_data s)(p := Some (nn_fq_add p (rcvprio opt)))) (bus_inpipes s)"
    unfolding nn_fq_add_def by (rule sched_add) (use 5 g(2) in \<open>auto simp: opts_ok_def\<close>)
  then show ?case
    using 5 g(1-6) by (auto simp: nn_xbus_sockbase_vfptr_def nn_xbus_add_def opts_ok_def card_insert_if intro!: sock_goodI)
next
  case (6 s w p)
  note g = sock_goodD [OF 6(1)]
  then obtain d l' where l: "bus_data s p = Some d" "nn_fq_rm (bus_inpipes s) d = Some l'"
    "sched_ok ((bus_data s)(p := None)) l'" "pl_active l' = pl_active (bus_inpipes s) - {p}"
    using 6(2) sched_rm [of "bus_data s" "bus_inpipes s" p] by (auto simp: nn_fq_rm_def)
  have wf: "dist_wf (bus_outpipes s)" "finite (dom (bus_data s))" "card (dom (bus_data s)) \<le> 2 ^ 31" using g(2) by auto
  then have "card (dom (bus_data s) - {p}) \<le> 2 ^ 31" using card_Diff1_le [of "dom (bus_data s)" p] by linarith
  then show ?case
    using l wf g(1-6) dist_rm_ok [OF wf(1), of p]
    by (auto simp: nn_xbus_sockbase_vfptr_def nn_xbus_rm_def intro!: sock_goodI)
next
  case (7 s w p)
  note g = sock_goodD [OF 7(1)]
  then obtain d l' where "bus_data s p = Some d" "nn_fq_in (bus_inpipes s) d = Some l'"
    "sched_ok (bus_data s) l'" "pl_active l' = insert p (pl_active (bus_inpipes s))"
    using 7(3,4) sched_activate [of "bus_data s" "bus_inpipes s" p] by (auto simp: nn_fq_in_def)
  then show ?case
    using g(1-6) 7(5) by (auto simp: nn_xbus_sockbase_vfptr_def nn_xbus_in_def intro!: sock_goodI)
next
  case (8 s w p)
  note g = sock_goodD [OF 8(1)]
  have wf: "dist_wf (bus_outpipes s)" "finite (dom (bus_data s))" "card (dom (bus_data s)) \<le> 2 ^ 31" using g(2) by auto
  have "length (dpipes (bus_outpipes s)) < 2 ^ 31"
    by (rule dist_room [OF wf(1) _ wf(2,3)]) (use 8 g(6) in auto)
  then obtain d where "nn_dist_out (bus_outpipes s) p = Some d" "dist_wf d"
    "set (dpipes d) = insert p (set (dpipes (bus_outpipes s)))"
    using dist_out_ok [OF wf(1), of p] 8(3) by auto
  then show ?case
    using 8(2,4) g(1-6) by (auto simp: nn_xbus_sockbase_vfptr_def nn_xbus_out_def intro!: sock_goodI)
      (metis domD subsetD)+
next
  case (9 s w f m)
  then show ?case
    using xbus_send_good [OF 9(1), of addr m] by (auto simp: nn_xbus_sockbase_vfptr_def)
next
  case (10 s w h)
  then show ?case
    using xbus_recv_good [OF 10(1), of addr] by (auto simp: nn_xbus_sockbase_vfptr_def)
next
  case (11 s w level nm val)
  then show ?case by (simp add: nn_xbus_sockbase_vfptr_def nn_xbus_setopt_def)
qed (auto simp: nn_xbus_init_def nn_fq_init_def sched_init pl_inv_init dist_wf_init)


sublocale draining_transport \<subseteq> bus: sp_socket vf winv "nn_bus_sockbase_vfptr addr vf" xbus_view nn_xbus_init for addr
proof (unfold_locales, goal_cases)
  case (5 s w p opt)
  then show ?case using xbus.add_law [of s w p opt] by (simp add: nn_bus_sockbase_vfptr_def)
next
  case (6 s w p)
  then show ?case using xbus.rm_law [of s w p] by (simp add: nn_bus_sockbase_vfptr_def)
next
  case (7 s w p)
  then show ?case using xbus.in_law [of s w p] by (simp add: nn_bus_sockbase_vfptr_def)
next
  case (8 s w p)
  then show ?case using xbus.out_law [of s w p] by (simp add: nn_bus_sockbase_vfptr_def)
next
  case (9 s w f m)
  then show ?case
    using xbus_send_good [OF 9(1), of addr m] by (auto simp: nn_bus_sockbase_vfptr_def nn_bus_send_def)
next
  case (10 s w h)
  have h: "h = nn_bus_recv addr vf" using 10(2) by (simp add: nn_bus_sockbase_vfptr_def)
  obtain rc s' w' where r: "nn_xbus_recv addr vf w s = Some (rc, s', w')" "sock_good winv xbus_view s' w'"
    "case rc of Inl e \<Rightarrow> e = EAGAIN | Inr m \<Rightarrow> \<exists>p \<in> pl_active (bus_inpipes s). sphdr m = ptr_bytes (addr p)"
    using xbus_recv_good [OF 10(1), of addr] by blast
  then show ?case by (auto simp: h nn_bus_recv_def split: sum.splits)
next
  case (11 s w level nm val)
  then show ?case by (simp add: nn_bus_sockbase_vfptr_def nn_xbus_sockbase_vfptr_def nn_xbus_setopt_def)
qed (auto simp: nn_xbus_init_def nn_fq_init_def sched_init pl_inv_init dist_wf_init)

section \<open>No echo\<close>

lemma find_addr:
  assumes "inj_on addr A" "p \<in> A" "set ps \<subseteq> A"
  shows "find (\<lambda>q. ptr_bytes (addr q) = ptr_bytes (addr p)) ps = (if p \<in> set ps then Some p else None)"
  using assms(3)
proof (induction ps)
  case (Cons q ps)
  then show ?case using assms(1,2) by (auto simp: ptr_bytes_inj inj_on_eq_iff)
qed simp

text \<open>
  C15: A raw BUS socket that sends on the message it has just received (what a device does)
  does not send it back: over inproc every ready pipe but the one it came from gets it, with
  the mark removed, and no other pipe is touched.\<close>

theorem nn_xbus_no_echo:
  assumes "sock_good inproc_inv xbus_view s w" "inj_on addr (dom (bus_data s))"
    and "nn_xbus_recv addr nn_sinproc_pipebase_vfptr w s = Some (Inr m, s1, w1)"
  shows "\<exists>p s2 w2. sphdr m = ptr_bytes (addr p) \<and> p \<in> pl_active (bus_inpipes s) \<and>
    nn_xbus_send addr nn_sinproc_pipebase_vfptr w1 s1 m = Some (Inr (), s2, w2) \<and> sock_good inproc_inv xbus_view s2 w2 \<and>
    (\<forall>q. session w2 q = (if q \<in> set (dpipes (bus_outpipes s)) \<and> q \<noteq> p
       then (session w1 q)\<lparr>smsg := merge_msg (m\<lparr>sphdr := []\<rparr>), sending := True\<rparr> else session w1 q))"
proof -
  obtain p where g1: "sock_good inproc_inv xbus_view s1 w1" and out: "bus_outpipes s1 = bus_outpipes s"
    and p: "p \<in> pl_active (bus_inpipes s)" "sphdr m = ptr_bytes (addr p)"
    using inproc.xbus_recv_good [OF assms(1), of addr] assms(3) by auto
  let ?d = "bus_outpipes s1" and ?ex = "bus_exclude addr (bus_outpipes s1) (sphdr m)"
  have len: "length (sphdr m) = 8" using p(2) by simp
  have "inproc_inv w1" "dist_inv w1 ?d" using sock_goodD(1,2,4) [OF g1] by (auto simp: dist_inv_wf)
  then obtain d' w2 where f: "nn_dist_send nn_sinproc_pipebase_vfptr w1 ?d (m\<lparr>sphdr := []\<rparr>) ?ex = Some (d', w2)"
    "\<forall>q. session w2 q = (if q \<in> set (dpipes ?d) \<and> ?ex \<noteq> Some q
       then (session w1 q)\<lparr>smsg := merge_msg (m\<lparr>sphdr := []\<rparr>), sending := True\<rparr> else session w1 q)"
    using inproc_dist_fanout [of w1 ?d "m\<lparr>sphdr := []\<rparr>" ?ex] by blast
  have "pl_active (bus_inpipes s) \<subseteq> dom (bus_data s)" "set (dpipes (bus_outpipes s)) \<subseteq> dom (bus_data s)"
    using sock_goodD(5,6) [OF assms(1)] by simp_all
  then have "?ex = (if p \<in> set (dpipes ?d) then Some p else None)"
    unfolding bus_exclude_def p(2) out by (intro find_addr [OF assms(2)]) (use p(1) in blast)+
  then have "q \<in> set (dpipes ?d) \<and> ?ex \<noteq> Some q \<longleftrightarrow> q \<in> set (dpipes ?d) \<and> q \<noteq> p" for q by auto
  moreover have "nn_xbus_send addr nn_sinproc_pipebase_vfptr w1 s1 m = Some (Inr (), s1\<lparr>bus_outpipes := d'\<rparr>, w2)"
    using f(1) len by (simp add: nn_xbus_send_def Let_def)
  moreover from this have "sock_good inproc_inv xbus_view (s1\<lparr>bus_outpipes := d'\<rparr>) w2"
    using inproc.xbus_send_good [OF g1, of addr m] len by auto
  ultimately show ?thesis using f(2) p out by (metis (lifting))
qed


text \<open>An example: session 1 of a connected pair, in a BUS socket.\<close>

definition bus_fq :: nn_fq where
  "bus_fq = (case nn_fq_in nn_fq_init (nn_fq_add 1 8) of Some l \<Rightarrow> l | None \<Rightarrow> nn_fq_init)"

definition bus_example :: nn_xbus where
  "bus_example = \<lparr>bus_outpipes = \<lparr>dcount = 1, dpipes = [1]\<rparr>, bus_inpipes = bus_fq,
     bus_data = (\<lambda>p. if p = 1 then Some (nn_fq_add 1 8) else None)\<rparr>"

lemma bus_fq_ok: "sched_ok (\<lambda>p. if p = 1 then Some (nn_fq_add 1 8) else None) bus_fq" "pl_active bus_fq = {1}"
proof -
  let ?d = "\<lambda>p :: pid. if p = 1 then Some (nn_fq_add 1 8) else None"
  have "sched_ok (Map.empty(1 := Some (nn_priolist_add 1 8))) nn_priolist_init"
    by (rule sched_add [OF sched_init]) auto
  moreover have "Map.empty(1 := Some (nn_priolist_add 1 8)) = ?d" by (auto simp: nn_fq_add_def)
  ultimately have "sched_ok ?d nn_fq_init" unfolding nn_fq_init_def by (simp only:)
  moreover have "1 \<notin> pl_active nn_fq_init" by (simp add: nn_fq_init_def pl_inv_init)
  ultimately obtain l where l: "nn_priolist_activate nn_fq_init (nn_fq_add 1 8) = Some l" "sched_ok ?d l"
    "pl_active l = insert 1 (pl_active nn_fq_init)"
    using sched_activate [of ?d nn_fq_init 1 "nn_fq_add 1 8"] by auto
  have "bus_fq = l" unfolding bus_fq_def nn_fq_in_def l(1) by simp
  then show "sched_ok ?d bus_fq" "pl_active bus_fq = {1}"
    using l(2,3) by (simp_all add: nn_fq_init_def pl_inv_init)
qed

theorem nn_xbus_no_echo_witness:
  "\<exists>m s1 w1 s2 w2. nn_xbus_recv of_nat nn_sinproc_pipebase_vfptr (msg_world \<lparr>sphdr = [], hdrs = [], body = [7]\<rparr>) bus_example =
     Some (Inr m, s1, w1) \<and> nn_xbus_send of_nat nn_sinproc_pipebase_vfptr w1 s1 m = Some (Inr (), s2, w2) \<and>
     session w2 1 = session w1 1"
proof -
  let ?w = "msg_world \<lparr>sphdr = [], hdrs = [], body = [7]\<rparr>"
  have g: "sock_good inproc_inv xbus_view bus_example ?w"
    by (rule sock_goodI) (use msg_world_inv msg_world_recv bus_fq_ok in \<open>auto simp: bus_example_def dist_wf_def dom_def\<close>)
  have "case nn_xbus_recv of_nat nn_sinproc_pipebase_vfptr ?w bus_example of Some (Inr m, s1, w1) \<Rightarrow> True | _ \<Rightarrow> False"
    by code_simp
  then obtain m s1 w1 where r: "nn_xbus_recv of_nat nn_sinproc_pipebase_vfptr ?w bus_example = Some (Inr m, s1, w1)"
    by (auto split: option.splits sum.splits prod.splits) (metis old.sum.exhaust)
  have "inj_on (of_nat :: nat \<Rightarrow> u64) (dom (bus_data bus_example))" by (auto simp: bus_example_def inj_on_def dom_def split: if_splits)
  from nn_xbus_no_echo [OF g this r] obtain p s2 w2 where
    "p \<in> pl_active (bus_inpipes bus_example)" "nn_xbus_send of_nat nn_sinproc_pipebase_vfptr w1 s1 m = Some (Inr (), s2, w2)"
    "\<forall>q. session w2 q = (if q \<in> set (dpipes (bus_outpipes bus_example)) \<and> q \<noteq> p
       then (session w1 q)\<lparr>smsg := merge_msg (m\<lparr>sphdr := []\<rparr>), sending := True\<rparr> else session w1 q)" by blast
  then show ?thesis using r bus_fq_ok(2) by (auto simp: bus_example_def)
qed

end
