(* ===== verification/Nn_Frames.thy ===== *)
theory Nn_Frames
  imports Nn_Socket Nn_Examples
begin

text \<open>
  Transports that do not split messages: a message that arrives without \<^verbatim>\<open>NN_PIPE_PARSED\<close> has
  its protocol header still in its body.  The request/reply and survey sockets assert that.
  Inproc is such a transport because it merges header and body when a message is sent.
\<close>

locale framing_transport = draining_transport vf winv backlog
  for vf :: "'x pipebase_vfptr" and winv :: "'x world \<Rightarrow> bool" and backlog :: "'x world \<Rightarrow> pid \<Rightarrow> nat" +
  assumes recv_raw: "winv w \<Longrightarrow> can_recv w p \<Longrightarrow> nn_pipe_recv vf w p = Some (rc, m, w') \<Longrightarrow> \<not> parsed rc \<Longrightarrow> sphdr m = []"

definition inproc_clean :: "iworld \<Rightarrow> bool" where
  "inproc_clean w \<longleftrightarrow> inproc_inv w \<and>
     (\<forall>p. active_pipe w p \<longrightarrow> (\<exists>ms. mq_rep (msgqueue (session w p)) ms \<and> (\<forall>m \<in> set ms. sphdr m = []))) \<and>
     (\<forall>p. sphdr (smsg (session w p)) = [])"

definition clean_queue :: "nn_msgqueue \<Rightarrow> bool" where
  "clean_queue q \<longleftrightarrow> (\<exists>ms. mq_rep q ms \<and> (\<forall>m \<in> set ms. sphdr m = []))"

lemma inproc_clean_iff:
  "inproc_clean w \<longleftrightarrow> inproc_inv w \<and> (\<forall>p. active_pipe w p \<longrightarrow> clean_queue (msgqueue (session w p))) \<and>
     (\<forall>p. sphdr (smsg (session w p)) = [])"
  by (simp add: inproc_clean_def clean_queue_def)

lemma clean_send:
  assumes c: "inproc_clean w" and s: "nn_pipe_send nn_sinproc_pipebase_vfptr w p m = Some (rc, w')" and inv: "inproc_inv w'"
  shows "inproc_clean w'"
proof -
  have "pstate (pipes w' x) = pstate (pipes w x)" for x using inproc_send_pstate [OF s] .
  moreover have "msgqueue (session w' x) = msgqueue (session w x)" "sphdr (smsg (session w' x)) = []" for x
    using s c by (auto simp: nn_pipe_send_def nn_sinproc_pipebase_vfptr_def nn_sinproc_send_def nn_fsm_raiseto_eq Let_def
        merge_msg_def inproc_clean_iff split: if_splits bind_splits sum.splits)
  ultimately show ?thesis using c inv by (simp add: inproc_clean_iff)
qed

lemma clean_unblock:
  assumes "sinproc_unblock w p = Some w'" "clean_queue (msgqueue (session w p))" "count (msgqueue (session w p)) + 1 \<noteq> 0"
    "peer (session w p) = Some q" "q \<noteq> p" "\<forall>r. sphdr (smsg (session w r)) = []"
  shows "clean_queue (msgqueue (session w' p))" "r \<noteq> p \<Longrightarrow> msgqueue (session w' r) = msgqueue (session w r)"
    "sphdr (smsg (session w' r)) = []"
proof -
  obtain ms where ms: "mq_rep (msgqueue (session w p)) ms" "\<forall>m \<in> set ms. sphdr m = []"
    using assms(2) by (auto simp: clean_queue_def)
  have "clean_queue (msgqueue (session w' p)) \<and> (r \<noteq> p \<longrightarrow> msgqueue (session w' r) = msgqueue (session w r)) \<and>
    sphdr (smsg (session w' r)) = []"
  proof (cases "sstate (session w p) \<noteq> SIN_DISCONNECTED \<and> receiving (session w p)")
    case False
    then have "w' = w" using assms(1) unfolding sinproc_unblock_def Let_def by (simp only: if_False option.inject)
    then show ?thesis using assms by simp
  next
    case True
    show ?thesis
    proof (rule nn_msgqueue_send_cases [OF ms(1) assms(3), of "smsg (session w q)"])
      assume "nn_msgqueue_send (msgqueue (session w p)) (smsg (session w q)) = Some (Inl EAGAIN, msgqueue (session w p))"
      then show ?thesis using assms True by (auto simp: sinproc_unblock_def Let_def)
    next
      fix mq' assume mq': "nn_msgqueue_send (msgqueue (session w p)) (smsg (session w q)) = Some (Inr (), mq')"
        and rep: "mq_rep mq' (ms @ [smsg (session w q)])"
      have "\<forall>m \<in> set (ms @ [smsg (session w q)]). sphdr m = []" using ms(2) assms(6) by simp
      then have "clean_queue mq'" using rep unfolding clean_queue_def by blast
      then show ?thesis using assms True mq' by (auto simp: sinproc_unblock_def Let_def nn_fsm_raiseto_eq empty_msg_def split: if_splits)
    qed
  qed
  then show "clean_queue (msgqueue (session w' p))" "r \<noteq> p \<Longrightarrow> msgqueue (session w' r) = msgqueue (session w r)"
    "sphdr (smsg (session w' r)) = []" by auto
qed

lemma clean_recv:
  assumes c: "inproc_clean w" and p: "can_recv w p" and r: "nn_pipe_recv nn_sinproc_pipebase_vfptr w p = Some (rc, m, w')"
    and inv: "inproc_inv w'" and act: "\<And>q. pstate (pipes w' q) = pstate (pipes w q)"
  shows "inproc_clean w'" "sphdr m = []"
proof -
  have ok: "sess_ok w p" using c p by (simp add: inproc_clean_def inproc_inv_def)
  then obtain q x xs where q: "peer (session w p) = Some q" "q \<noteq> p" and xs: "mq_rep (msgqueue (session w p)) (x # xs)"
    using p by (auto simp: sess_ok_def neq_Nil_conv)
  obtain l where l: "mq_rep (msgqueue (session w p)) l" "\<forall>m \<in> set l. sphdr m = []"
    using c p by (auto simp: inproc_clean_def)
  then have "l \<noteq> []" using mq_rep_count [OF xs] mq_rep_count [OF l(1)] by auto
  then obtain y ms where "l = y # ms" by (auto simp: neq_Nil_conv)
  then have mq: "mq_rep (msgqueue (session w p)) (y # ms)" "sphdr y = []" "\<forall>m \<in> set ms. sphdr m = []" using l by auto
  obtain mq' where mq': "nn_msgqueue_recv (msgqueue (session w p)) = Some (Inr y, mq')" "mq_rep mq' ms"
    using nn_msgqueue_recv_rep [OF mq(1)] by blast
  let ?w = "set_session p ((session w p)\<lparr>msgqueue := mq'\<rparr>) (set_instate p IN_RECEIVING w)"
  obtain w1 w2 where w1: "sinproc_unblock ?w p = Some w1" "m = y"
    and w2: "w2 = w1 \<or> nn_pipebase_received p w1 = Some w2" and w': "\<exists>i. w' = set_instate p i w2"
    using r mq'(1)
    by (auto simp: nn_pipe_recv_def nn_sinproc_pipebase_vfptr_def nn_sinproc_recv_def Let_def split: bind_splits if_splits)
  have same: "session w' r = session w1 r" for r using w2 w' session_received by (auto simp: session_def)
  have cq: "clean_queue (msgqueue (session ?w p))" using mq'(2) mq(3) by (auto simp: clean_queue_def)
  have "count (msgqueue (session ?w p)) + 1 \<noteq> 0" using mq_rep_room [OF mq(1) mq'(2)] by simp
  moreover have "peer (session ?w p) = Some q" "\<forall>r. sphdr (smsg (session ?w r)) = []" using q(1) c by (auto simp: inproc_clean_iff)
  ultimately have cl: "clean_queue (msgqueue (session w1 p))" "\<And>r. r \<noteq> p \<Longrightarrow> msgqueue (session w1 r) = msgqueue (session ?w r)"
    "\<And>r. sphdr (smsg (session w1 r)) = []"
    using clean_unblock [OF w1(1) cq, of q] q(2) by auto
  have "clean_queue (msgqueue (session w' r))" if "active_pipe w r" for r
    using cl(1) cl(2) [of r] c that by (cases "r = p") (auto simp: same inproc_clean_iff)
  then show "inproc_clean w'" "sphdr m = []"
    using inv act cl(3) mq(2) w1(2) by (simp_all add: inproc_clean_iff same)
qed

text \<open>A stronger invariant of the same functions gives the contract again.\<close>

lemma inproc_send_clean:
  assumes "inproc_clean w" "can_send w p"
  shows "\<exists>w'. nn_sinproc_send (set_outstate p OUT_SENDING w) p m = Some (Inr 0, w') \<and>
    pipes w' = pipes (set_outstate p OUT_SENDING w) \<and> inproc_clean (set_outstate p OUT_ASYNC w')"
proof -
  obtain w' where w': "nn_sinproc_send (set_outstate p OUT_SENDING w) p m = Some (Inr 0, w')"
    "pipes w' = pipes (set_outstate p OUT_SENDING w)" "inproc_inv (set_outstate p OUT_ASYNC w')"
    using sinproc_send_ok [of w p m] assms by (auto simp: inproc_clean_def)
  have "nn_pipe_send nn_sinproc_pipebase_vfptr w p m = Some (0 OR NN_PIPE_RELEASE, set_outstate p OUT_ASYNC w')"
    using w' assms(2) by (simp add: nn_pipe_send_def nn_sinproc_pipebase_vfptr_def)
  then show ?thesis using clean_send [OF assms(1)] w' by blast
qed

interpretation inprocf: framing_transport nn_sinproc_pipebase_vfptr inproc_clean inproc_backlog
proof (unfold_locales, goal_cases)
  case (1 w p m)
  then obtain w' where "nn_sinproc_send (set_outstate p OUT_SENDING w) p m = Some (Inr 0, w')"
    "pipes w' = pipes (set_outstate p OUT_SENDING w)" "inproc_clean (set_outstate p OUT_ASYNC w')"
    using inproc_send_clean [of w p m] by blast
  then show ?case by (simp add: nn_sinproc_pipebase_vfptr_def released_iff)
next
  case (2 w p)
  then have inv: "inproc_inv w" by (simp add: inproc_clean_def)
  obtain m w' where w': "nn_sinproc_recv (set_instate p IN_RECEIVING w) p = Some (Inr (0, m), w')"
    and alt: "pipes w' = pipes (set_instate p IN_RECEIVED (set_instate p IN_RECEIVING w)) \<and> inproc_inv (set_instate p IN_IDLE w') \<or>
      pipes w' = pipes (set_instate p IN_RECEIVING w) \<and> inproc_inv (set_instate p IN_ASYNC w')"
    using sinproc_recv_ok [OF inv 2(2)] by (elim exE conjE) (rule that; assumption)
  have cl: "inproc_clean (set_instate p i w')"
    if "nn_pipe_recv nn_sinproc_pipebase_vfptr w p = Some (rc, m, set_instate p i w')" "inproc_inv (set_instate p i w')"
      "\<And>q. pstate (pipes w' q) = pstate (pipes w q)" for rc i
    by (rule clean_recv(1) [OF 2(1,2) that(1,2)]) (use that(3) in simp)
  from alt show ?case
  proof (elim disjE conjE)
    assume a: "pipes w' = pipes (set_instate p IN_RECEIVED (set_instate p IN_RECEIVING w))" "inproc_inv (set_instate p IN_IDLE w')"
    have "nn_pipe_recv nn_sinproc_pipebase_vfptr w p = Some (0, m, set_instate p IN_IDLE w')"
      using w' a(1) 2(2) by (simp add: nn_pipe_recv_def nn_sinproc_pipebase_vfptr_def)
    then have "inproc_clean (set_instate p IN_IDLE w')" by (rule cl [OF _ a(2)]) (simp add: a(1))
    then show ?thesis using w' a(1)
      by (intro exI [of _ 0] exI [of _ m] exI [of _ w']) (simp add: nn_sinproc_pipebase_vfptr_def released_iff)
  next
    assume a: "pipes w' = pipes (set_instate p IN_RECEIVING w)" "inproc_inv (set_instate p IN_ASYNC w')"
    have "nn_pipe_recv nn_sinproc_pipebase_vfptr w p = Some (0 OR NN_PIPE_RELEASE, m, set_instate p IN_ASYNC w')"
      using w' a(1) 2(2) by (simp add: nn_pipe_recv_def nn_sinproc_pipebase_vfptr_def)
    then have "inproc_clean (set_instate p IN_ASYNC w')" by (rule cl [OF _ a(2)]) (simp add: a(1))
    then show ?thesis using w' a(1)
      by (intro exI [of _ 0] exI [of _ m] exI [of _ w']) (simp add: nn_sinproc_pipebase_vfptr_def released_iff)
  qed
next
  case (3 w p rc m w')
  then show ?case using inproc_recv_drains [of w p rc m w'] by (simp add: inproc_clean_def)
next
  case (4 w p rc m w')
  then obtain rc' m' w'' where x: "nn_pipe_recv nn_sinproc_pipebase_vfptr w p = Some (rc', m', w'')" "inproc_inv w''"
    using inproc.pipe_recv_ok [of w p] by (auto simp: inproc_clean_def)
  have "pstate (pipes w' q) = pstate (pipes w q)" for q
    using inproc_recv_pstate [OF 4(3)] .
  then show ?case using clean_recv(2) [OF 4(1-3)] x 4(3) by auto
qed

section \<open>The example worlds are of this kind\<close>

lemma raiseto_smsg: "nn_fsm_raiseto e d t src w = Some w' \<Longrightarrow> session w' x = session w x"
  by (auto simp: nn_fsm_raiseto_eq split: if_splits)

lemma sent_smsg: "nn_pipebase_sent p w = Some w' \<Longrightarrow> session w' x = session w x"
  by (auto simp: nn_pipebase_sent_def split: if_splits)

lemma on_sent_smsg:
  "sinproc_on_sent w p = Some w' \<Longrightarrow> \<forall>r. sphdr (smsg (session w r)) = [] \<Longrightarrow> sphdr (smsg (session w' x)) = []"
  by (auto simp: sinproc_on_sent_def Let_def empty_msg_def split: bind_splits sum.splits if_splits
      dest!: session_received [where r = x] raiseto_smsg [where x = x])

lemma on_received_smsg:
  "sinproc_on_received w p = Some w' \<Longrightarrow> smsg (session w' x) = smsg (session w x)"
  by (auto simp: sinproc_on_received_def split: bind_splits if_splits dest!: sent_smsg [where x = x])

lemma pair_deliver_smsg:
  assumes ok: "pair_ok p q r" and d: "deliver no_add no_rm ((), iw r) = Some (u, w')"
    and c: "\<forall>x. sphdr (smsg (session (iw r) x)) = []"
  shows "sphdr (smsg (session w' x)) = []"
proof (cases "pending (tstate (iw r))")
  case Nil
  then show ?thesis using d c by (simp add: deliver_def)
next
  case (Cons e es)
  then show ?thesis
    using pair_deliver_cases [OF ok d Cons] c on_sent_smsg [of "set_pending es (iw r)" "ev_dst e" w' x]
      on_received_smsg [of "set_pending es (iw r)" "ev_dst e" w' x] by auto
qed

lemma pair_world_smsg: "smsg (session pair_world x) = empty_msg"
proof -
  obtain w where w: "handshake 0 1 (fresh_world 100) = Some w" using handshake_pair [of 0 1 100] by auto
  have pw: "pair_world = w" by (simp only: pair_world_def w option.case)
  have s: "session (fresh_world 100) r = nn_sinproc_init 100" "pipes (fresh_world 100) r = fresh_pipe"
    "pending (tstate (fresh_world 100)) = []" for r
    by (simp_all add: fresh_world_def session_def)
  show ?thesis
    unfolding pw using w
    by (auto simp: handshake_def nn_sinproc_connect_def nn_sinproc_accept_def nn_sinproc_handler_def deliver_def
        nn_fsm_feed_def sinproc_activate_def nn_pipebase_start_def no_add_def nn_fsm_raiseto_eq Let_def s
        nn_sinproc_init_def fresh_pipe_def event_active_def split: if_splits)
qed

lemma msg_world_clean: "inproc_clean (msg_world m)"
proof -
  note ok = pair_world_run(1)
  have "length (sent (start_run pair_world) x) = 0" for x by (simp add: start_run_def)
  then obtain r1 where r1: "inproc_step (ISend 0 m) (start_run pair_world) = Some r1" "pair_ok 0 1 r1"
    "length (sent r1 0) \<le> 1" "length (sent r1 1) \<le> 1"
    using pair_step [OF ok, of "ISend 0 m"] by auto
  obtain r2 where r2: "inproc_step IDeliver r1 = Some r2" "pair_ok 0 1 r2"
    using pair_step [OF r1(2), of IDeliver] r1(3,4) by auto
  have w: "msg_world m = iw r2"
    using r1(1) r2(1) by (simp add: msg_world_def msg_run_def del: inproc_step.simps)
  have sent: "\<forall>x. \<forall>m \<in> set (sent r2 x). sphdr m = []"
    using r1(1) r2(1) by (auto simp: start_run_def merge_msg_def split: if_splits bind_splits)
  have "sphdr (smsg (session (iw r1) x)) = []" for x
    using r1(1) pair_world_smsg [of x]
    by (auto simp: start_run_def empty_msg_def merge_msg_def split: if_splits bind_splits dest!: inproc_send_session [where q = x])
  then have smsg: "\<forall>x. sphdr (smsg (session (iw r2) x)) = []"
    using r2(1) pair_deliver_smsg [OF r1(2)] by (auto split: bind_splits)
  have inv: "inproc_inv (iw r2)" using msg_world_inv [of m] unfolding w .
  have "clean_queue (msgqueue (session (iw r2) p))" if p: "p = 0 \<or> p = 1" for p
  proof -
    obtain ms q where "dir_ok (direction_of (iw r2) q p) ms (sent r2 q) (got r2 p)"
      using r2(2) p unfolding pair_ok_def by blast
    then have "mq_rep (msgqueue (session (iw r2) p)) ms" "set ms \<subseteq> set (sent r2 q)"
      by (auto simp: dir_ok_def direction_of_def)
    then show ?thesis using sent unfolding clean_queue_def by blast
  qed
  moreover have "active_pipe (iw r2) p \<Longrightarrow> p = 0 \<or> p = 1" for p
    using msg_world_active [of m p] unfolding w by simp
  ultimately show ?thesis unfolding w inproc_clean_iff using inv smsg by blast
qed

end
