(* ===== verification/Nn_Rep.thy ===== *)
theory Nn_Rep
  imports Nn_Frames Nn_Hash
begin

text \<open>
  The REP socket, \<^verbatim>\<open>protocols/reqrep/xrep.c\<close> and \<^verbatim>\<open>rep.c\<close>: every pipe has a key in a hash table; a
  request arrives with the stack of keys it collected on its way (the backtrace) in front of
  its body, and the reply finds its way back by it.  \<open>maxttl\<close> is the socket option
  \<^verbatim>\<open>NN_MAXTTL\<close>, \<open>key0\<close> the random number the keys start with.
\<close>

section \<open>Raw socket\<close>

definition NN_XREP_OUT :: u32 where
  "NN_XREP_OUT = 1"

record nn_xrep_data =
  xd_pipe :: pid
  xd_initem :: nn_priolist_data
  xd_flags :: u32

record nn_xrep =
  rep_next_key :: u32
  rep_outpipes :: "pid nn_hash"
  rep_inpipes :: nn_fq
  rep_data :: "pid \<Rightarrow> nn_xrep_data option"

definition nn_xrep_init :: "u32 \<Rightarrow> nn_xrep" where
  "nn_xrep_init key0 = \<lparr>rep_next_key = key0, rep_outpipes = nn_hash_init (\<lambda>p. 0), rep_inpipes = nn_fq_init,
     rep_data = Map.empty\<rparr>"

definition nn_xrep_term :: "nn_xrep \<Rightarrow> unit option" where
  "nn_xrep_term self = do { nn_fq_term (rep_inpipes self); nn_hash_term (rep_outpipes self) }"

definition xrep_set_data :: "nn_xrep \<Rightarrow> pid \<Rightarrow> nn_xrep_data option \<Rightarrow> nn_xrep" where
  "xrep_set_data self p d = \<lparr>rep_next_key = rep_next_key self, rep_outpipes = rep_outpipes self,
     rep_inpipes = rep_inpipes self, rep_data = (rep_data self)(p := d)\<rparr>"

definition nn_xrep_add :: "nn_xrep \<Rightarrow> pid \<Rightarrow> pipe_opts \<Rightarrow> (unit rc \<times> nn_xrep) option" where
  "nn_xrep_add self p opt = do {
     nn_assert (rcvprio opt \<ge> 1 \<and> rcvprio opt \<le> 16);
     h \<leftarrow> nn_hash_insert (rep_outpipes self) (rep_next_key self AND 0x7fffffff) p;
     let self = self\<lparr>rep_outpipes := h, rep_next_key := rep_next_key self + 1\<rparr>;
     Some (Inr (), xrep_set_data self p
       (Some \<lparr>xd_pipe = p, xd_initem = nn_fq_add p (rcvprio opt), xd_flags = 0\<rparr>)) }"

definition nn_xrep_rm :: "'x world \<Rightarrow> nn_xrep \<Rightarrow> pid \<Rightarrow> (nn_xrep \<times> 'x world) option" where
  "nn_xrep_rm w self p = do {
     data \<leftarrow> rep_data self p;
     fq \<leftarrow> nn_fq_rm (rep_inpipes self) (xd_initem data);
     h \<leftarrow> nn_hash_erase (rep_outpipes self) p;
     Some (xrep_set_data (self\<lparr>rep_inpipes := fq, rep_outpipes := h\<rparr>) p None, w) }"

definition nn_xrep_in :: "'x world \<Rightarrow> nn_xrep \<Rightarrow> pid \<Rightarrow> (nn_xrep \<times> 'x world) option" where
  "nn_xrep_in w self p = do {
     data \<leftarrow> rep_data self p;
     fq \<leftarrow> nn_fq_in (rep_inpipes self) (xd_initem data);
     Some (self\<lparr>rep_inpipes := fq\<rparr>, w) }"

definition nn_xrep_out :: "'x world \<Rightarrow> nn_xrep \<Rightarrow> pid \<Rightarrow> (nn_xrep \<times> 'x world) option" where
  "nn_xrep_out w self p = do {
     data \<leftarrow> rep_data self p;
     Some (xrep_set_data self p (Some (data\<lparr>xd_flags := xd_flags data OR NN_XREP_OUT\<rparr>)), w) }"

definition nn_xrep_events :: "nn_xrep \<Rightarrow> u32" where
  "nn_xrep_events self = (if nn_fq_can_recv (rep_inpipes self) then NN_SOCKBASE_EVENT_IN else 0) OR NN_SOCKBASE_EVENT_OUT"

text \<open>A reply whose header names no pipe, or one that is not ready, is dropped.\<close>

definition nn_xrep_send ::
  "'x pipebase_vfptr \<Rightarrow> 'x world \<Rightarrow> nn_xrep \<Rightarrow> sp_msg \<Rightarrow> (unit rc \<times> nn_xrep \<times> 'x world) option" where
  "nn_xrep_send vf w self msg =
     (if length (sphdr msg) < 4 then Some (Inr (), self, w)
      else do {
        key \<leftarrow> nn_getl (sphdr msg);
        let msg = msg\<lparr>sphdr := drop 4 (sphdr msg)\<rparr>;
        case nn_hash_get (rep_outpipes self) key of None \<Rightarrow> Some (Inr (), self, w)
        | Some item \<Rightarrow> do {
            data \<leftarrow> rep_data self item;
            if xd_flags data AND NN_XREP_OUT = 0 then Some (Inr (), self, w)
            else do {
              (rc, w) \<leftarrow> nn_pipe_send vf w (xd_pipe data) msg;
              Some (Inr (), if released rc then xrep_set_data self item (Some (data\<lparr>xd_flags := xd_flags data AND NOT NN_XREP_OUT\<rparr>))
                else self, w) } } })"

text \<open>The number of words down to the bottom of the backtrace, the word whose high bit is set;
  \<open>Some None\<close> when the body ends before.\<close>

function backtrace_scan :: "bytes \<Rightarrow> nat \<Rightarrow> nat option option" where
  "backtrace_scan data i =
     (if (i + 1) * 4 > length data then Some None
      else do {
        v \<leftarrow> nn_getl (drop (4 * i) data);
        if v AND 0x80000000 \<noteq> 0 then Some (Some (i + 1)) else backtrace_scan data (i + 1) })"
  by pat_completeness auto
termination
  by (relation "measure (\<lambda>(data, i). length data - i)") auto

declare backtrace_scan.simps [simp del]

text \<open>\<open>Some None\<close>: the message is dropped.\<close>

definition xrep_split :: "int \<Rightarrow> sp_msg \<Rightarrow> sp_msg option option" where
  "xrep_split maxttl msg = do {
     n \<leftarrow> backtrace_scan (body msg) 0;
     case n of None \<Rightarrow> Some None
     | Some i \<Rightarrow>
         if int i > maxttl then Some None
         else do {
           nn_assert (length (sphdr msg) = 0);
           Some (Some (msg\<lparr>sphdr := take (i * 4) (body msg), body := drop (i * 4) (body msg)\<rparr>)) } }"

definition nn_xrep_recv ::
  "int \<Rightarrow> 'x pipebase_vfptr \<Rightarrow> 'x world \<Rightarrow> nn_xrep \<Rightarrow> (sp_msg rc \<times> nn_xrep \<times> 'x world) option" where
  "nn_xrep_recv maxttl vf w self = do {
     (rc, fq, w) \<leftarrow> nn_fq_recv vf w (rep_inpipes self);
     let self = self\<lparr>rep_inpipes := fq\<rparr>;
     case rc of Inl e \<Rightarrow> Some (Inl e, self, w)
     | Inr (rc, msg, pipe) \<Rightarrow> do {
         split \<leftarrow> (if \<not> parsed rc then xrep_split maxttl msg else Some (Some msg));
         case split of None \<Rightarrow> Some (Inl EAGAIN, self, w)
         | Some msg \<Rightarrow> do {
             ref \<leftarrow> nn_putl (replicate 4 0) (hkey (rep_outpipes self) pipe);
             Some (Inr (msg\<lparr>sphdr := ref @ sphdr msg\<rparr>), self, w) } } }"

definition nn_xrep_setopt :: "nn_xrep \<Rightarrow> int \<Rightarrow> int \<Rightarrow> bytes \<Rightarrow> (unit rc \<times> nn_xrep) option" where
  "nn_xrep_setopt self level opt optval = Some (Inl ENOPROTOOPT, self)"

definition nn_xrep_sockbase_vfptr :: "int \<Rightarrow> 'x pipebase_vfptr \<Rightarrow> (nn_xrep, 'x) sockbase_vfptr" where
  "nn_xrep_sockbase_vfptr maxttl vf = \<lparr>sk_add = nn_xrep_add, sk_rm = nn_xrep_rm, sk_in = nn_xrep_in,
     sk_out = nn_xrep_out, sk_events = nn_xrep_events, sk_send = Some (nn_xrep_send vf),
     sk_recv = Some (nn_xrep_recv maxttl vf), sk_setopt = nn_xrep_setopt\<rparr>"

section \<open>Cooked socket\<close>

definition NN_REP_INPROGRESS :: u32 where
  "NN_REP_INPROGRESS = 1"

record nn_rep =
  rep_x :: nn_xrep
  rep_flags :: u32
  backtrace :: bytes

definition nn_rep_init :: "u32 \<Rightarrow> nn_rep" where
  "nn_rep_init key0 = \<lparr>rep_x = nn_xrep_init key0, rep_flags = 0, backtrace = []\<rparr>"

definition nn_rep_term :: "nn_rep \<Rightarrow> unit option" where
  "nn_rep_term self = nn_xrep_term (rep_x self)"

definition nn_rep_events :: "nn_rep \<Rightarrow> u32" where
  "nn_rep_events self =
     (let events = nn_xrep_events (rep_x self)
      in if rep_flags self AND NN_REP_INPROGRESS = 0 then events AND NOT NN_SOCKBASE_EVENT_OUT else events)"

definition nn_rep_send ::
  "'x pipebase_vfptr \<Rightarrow> 'x world \<Rightarrow> nn_rep \<Rightarrow> sp_msg \<Rightarrow> (unit rc \<times> nn_rep \<times> 'x world) option" where
  "nn_rep_send vf w self msg =
     (if rep_flags self AND NN_REP_INPROGRESS = 0 then Some (Inl EFSM, self, w)
      else do {
        nn_assert (length (sphdr msg) = 0);
        let msg = msg\<lparr>sphdr := backtrace self\<rparr>;
        let self = self\<lparr>rep_flags := rep_flags self AND NOT NN_REP_INPROGRESS\<rparr>;
        (rc, x, w) \<leftarrow> nn_xrep_send vf w (rep_x self) msg;
        nn_assert (rc = Inr () \<or> rc = Inl EAGAIN);
        Some (Inr (), self\<lparr>rep_x := x\<rparr>, w) })"

definition nn_rep_recv ::
  "int \<Rightarrow> 'x pipebase_vfptr \<Rightarrow> 'x world \<Rightarrow> nn_rep \<Rightarrow> (sp_msg rc \<times> nn_rep \<times> 'x world) option" where
  "nn_rep_recv maxttl vf w self = do {
     let self = (if rep_flags self AND NN_REP_INPROGRESS \<noteq> 0
       then self\<lparr>rep_flags := rep_flags self AND NOT NN_REP_INPROGRESS\<rparr> else self);
     (rc, x, w) \<leftarrow> nn_xrep_recv maxttl vf w (rep_x self);
     let self = self\<lparr>rep_x := x\<rparr>;
     case rc of Inl e \<Rightarrow> do { nn_assert (e = EAGAIN); Some (Inl EAGAIN, self, w) }
     | Inr msg \<Rightarrow>
         Some (Inr (msg\<lparr>sphdr := []\<rparr>),
           self\<lparr>backtrace := sphdr msg, rep_flags := rep_flags self OR NN_REP_INPROGRESS\<rparr>, w) }"

text \<open>The operations the cooked socket takes from the raw one.\<close>

definition on_rep_x :: "nn_rep \<Rightarrow> (nn_xrep \<times> 'a) option \<Rightarrow> (nn_rep \<times> 'a) option" where
  "on_rep_x self r = map_option (map_prod (\<lambda>x. self\<lparr>rep_x := x\<rparr>) id) r"

definition nn_rep_sockbase_vfptr :: "int \<Rightarrow> 'x pipebase_vfptr \<Rightarrow> (nn_rep, 'x) sockbase_vfptr" where
  "nn_rep_sockbase_vfptr maxttl vf = \<lparr>
     sk_add = (\<lambda>s p opt. map_option (map_prod id (\<lambda>x. s\<lparr>rep_x := x\<rparr>)) (nn_xrep_add (rep_x s) p opt)),
     sk_rm = (\<lambda>w s p. on_rep_x s (nn_xrep_rm w (rep_x s) p)),
     sk_in = (\<lambda>w s p. on_rep_x s (nn_xrep_in w (rep_x s) p)),
     sk_out = (\<lambda>w s p. on_rep_x s (nn_xrep_out w (rep_x s) p)),
     sk_events = nn_rep_events, sk_send = Some (nn_rep_send vf), sk_recv = Some (nn_rep_recv maxttl vf),
     sk_setopt = (\<lambda>s level opt val. map_option (map_prod id (\<lambda>x. s\<lparr>rep_x := x\<rparr>)) (nn_xrep_setopt (rep_x s) level opt val))\<rparr>"

section \<open>The backtrace\<close>

text \<open>What the scan finds: words without the high bit, then one that has it.\<close>

definition is_backtrace :: "bytes \<Rightarrow> bool" where
  "is_backtrace h \<longleftrightarrow> (\<exists>ks b. h = concat (map be32 ks) @ be32 b \<and> (\<forall>k \<in> set ks. k AND 0x80000000 = 0) \<and> b AND 0x80000000 \<noteq> 0)"

lemma backtrace_scan_total: "backtrace_scan data i \<noteq> None"
proof (induction data i rule: backtrace_scan.induct)
  case (1 data i)
  show ?case
  proof (cases "(i + 1) * 4 > length data")
    case False
    then have "\<not> length (drop (4 * i) data) < 4" by simp
    then obtain v where "nn_getl (drop (4 * i) data) = Some v" by (simp add: nn_getl_def)
    then show ?thesis using 1 [OF False, of v] False by (subst backtrace_scan.simps) simp
  qed (simp add: backtrace_scan.simps)
qed

lemma be32_getl:
  assumes "nn_getl d = Some v"
  shows "d = be32 v @ drop 4 d"
proof -
  have "4 \<le> length d" using assms by (auto simp: nn_getl_def split: if_splits)
  then have "length (take 4 d) = 4" by simp
  then obtain a b c e where t: "take 4 d = [a, b, c, e]" using length_4_conv by metis
  have d: "d = [a, b, c, e] @ drop 4 d" using append_take_drop_id [of 4 d] unfolding t by simp
  have v: "v = push_bit 24 (ucast a) OR push_bit 16 (ucast b) OR push_bit 8 (ucast c) OR ucast e"
    using assms by (subst (asm) d) (simp add: nn_getl_def)
  have m: "(0xff :: u32) = mask 8" by (simp add: mask_numeral)
  have no: "\<not> bit x (8 + n)" "\<not> bit x (16 + n)" "\<not> bit x (24 + n)" for x :: u8 and n
    using bit_imp_le_length [of x] by fastforce+
  have "be32 v = [a, b, c, e]"
    unfolding be32_def v m by (auto intro!: bit_word_eqI simp: bit_simps no split: if_splits)
  then show ?thesis using d by simp
qed

lemma getl_exact: "length h = 4 \<Longrightarrow> nn_getl h = Some v \<longleftrightarrow> h = be32 v"
  using be32_getl [of h v] by (auto simp: nn_getl_be32')

lemma backtrace_scan_sound:
  "backtrace_scan data i = Some (Some n) \<Longrightarrow> i < n \<and> n * 4 \<le> length data \<and> is_backtrace (drop (4 * i) (take (n * 4) data))"
proof (induction data i rule: backtrace_scan.induct)
  case (1 data i)
  then have le: "\<not> (i + 1) * 4 > length data" by (subst (asm) (2) backtrace_scan.simps) (auto split: if_splits)
  then have "\<not> length (drop (4 * i) data) < 4" by simp
  then obtain v where v: "nn_getl (drop (4 * i) data) = Some v" by (simp add: nn_getl_def)
  have d: "drop (4 * i) data = be32 v @ drop (4 * (i + 1)) data"
    using be32_getl [OF v] by (simp add: drop_drop add.commute)
  show ?case
  proof (cases "v AND 0x80000000 \<noteq> 0")
    case True
    then have n: "n = i + 1" using 1(2) le v by (subst (asm) backtrace_scan.simps) simp
    have "drop (4 * i) (take (n * 4) data) = be32 v"
      using d by (simp add: n drop_take)
    then show ?thesis using True le n unfolding is_backtrace_def by (intro conjI exI [of _ "[]"] exI [of _ v]) auto
  next
    case False
    then have "backtrace_scan data (i + 1) = Some (Some n)" using 1(2) le v by (subst (asm) backtrace_scan.simps) simp
    from 1(1) [OF le v _ this] False have ih: "i + 1 < n" "n * 4 \<le> length data" "is_backtrace (drop (4 * (i + 1)) (take (n * 4) data))"
      by auto
    obtain ks b where kb: "drop (4 * (i + 1)) (take (n * 4) data) = concat (map be32 ks) @ be32 b"
      "\<forall>k \<in> set ks. k AND 0x80000000 = 0" "b AND 0x80000000 \<noteq> 0" using ih(3) by (auto simp: is_backtrace_def)
    have "drop (4 * i) (take (n * 4) data) = take (n * 4 - 4 * i) (be32 v @ drop (4 * (i + 1)) data)"
      using d by (simp add: drop_take)
    also have "\<dots> = be32 v @ drop (4 * (i + 1)) (take (n * 4) data)"
      using ih(1) by (simp add: drop_take add.commute)
    finally show ?thesis
      using kb False ih(1,2) unfolding is_backtrace_def by (intro conjI exI [of _ "v # ks"] exI [of _ b]) auto
  qed
qed

lemma backtrace_scan_step: "k AND 0x80000000 = 0 \<Longrightarrow> length h = 4 * i \<Longrightarrow>
    backtrace_scan (h @ be32 k @ t) i = backtrace_scan (h @ be32 k @ t) (i + 1)"
  by (subst backtrace_scan.simps) (simp add: nn_getl_be32)

lemma backtrace_scan_words:
  assumes "\<forall>k \<in> set ks. k AND 0x80000000 = 0" "b AND 0x80000000 \<noteq> 0"
  shows "length h = 4 * i \<Longrightarrow> backtrace_scan (h @ concat (map be32 ks) @ be32 b @ t) i = Some (Some (i + length ks + 1))"
  using assms(1)
proof (induction ks arbitrary: h i)
  case Nil
  then show ?case using assms(2) by (subst backtrace_scan.simps) (simp add: nn_getl_be32)
next
  case (Cons k ks)
  have "backtrace_scan (h @ be32 k @ concat (map be32 ks) @ be32 b @ t) i =
      backtrace_scan ((h @ be32 k) @ concat (map be32 ks) @ be32 b @ t) (i + 1)"
    using backtrace_scan_step [of k h i "concat (map be32 ks) @ be32 b @ t"] Cons.prems by simp
  then show ?case using Cons.IH [of "h @ be32 k" "i + 1"] Cons.prems by simp
qed

lemma length_words [simp]: "length (concat (map be32 ks)) = 4 * length ks"
  by (induction ks) auto

lemma backtrace_scan_complete:
  assumes "is_backtrace h"
  shows "\<exists>n. length h = n * 4 \<and> backtrace_scan (h @ t) 0 = Some (Some n)"
proof -
  obtain ks b where h: "h = concat (map be32 ks) @ be32 b" "\<forall>k \<in> set ks. k AND 0x80000000 = 0" "b AND 0x80000000 \<noteq> 0"
    using assms by (auto simp: is_backtrace_def)
  show ?thesis using backtrace_scan_words [OF h(2,3), of "[]" 0 t] by (intro exI [of _ "length ks + 1"]) (simp add: h(1))
qed

lemma backtrace_prepend: "is_backtrace h \<Longrightarrow> k AND 0x80000000 = 0 \<Longrightarrow> is_backtrace (be32 k @ h)"
  unfolding is_backtrace_def by (elim exE conjE) (rule_tac x = "k # ks" in exI, auto)

lemma xrep_split_ok:
  assumes "sphdr m = []"
  shows "\<exists>r. xrep_split maxttl m = Some r \<and> (\<forall>m'. r = Some m' \<longrightarrow>
    is_backtrace (sphdr m') \<and> body m = sphdr m' @ body m' \<and> hdrs m' = hdrs m \<and> int (length (sphdr m') div 4) \<le> maxttl)"
proof -
  obtain n where n: "backtrace_scan (body m) 0 = Some n" using backtrace_scan_total by blast
  show ?thesis
  proof (cases n)
    case None
    then show ?thesis using n by (simp add: xrep_split_def)
  next
    case (Some i)
    then have "i * 4 \<le> length (body m)" "is_backtrace (take (i * 4) (body m))"
      using backtrace_scan_sound [of "body m" 0 i] n by simp_all
    then show ?thesis using n Some assms by (auto simp: xrep_split_def)
  qed
qed

section \<open>Contract\<close>

definition xrep_ready :: "nn_xrep \<Rightarrow> pid set" where
  "xrep_ready s = {p. \<exists>d. rep_data s p = Some d \<and> xd_flags d AND NN_XREP_OUT \<noteq> 0}"

definition xrep_sched :: "nn_xrep \<Rightarrow> pid \<Rightarrow> nn_priolist_data option" where
  "xrep_sched s p = map_option xd_initem (rep_data s p)"

definition xrep_inv :: "nn_xrep \<Rightarrow> bool" where
  "xrep_inv s \<longleftrightarrow> sched_ok (xrep_sched s) (rep_inpipes s) \<and> hash_inv (rep_outpipes s) \<and>
     ran (nn_hash_get (rep_outpipes s)) = dom (rep_data s) \<and>
     (\<forall>k p. nn_hash_get (rep_outpipes s) k = Some p \<longrightarrow> k AND 0x80000000 = 0) \<and>
     (\<forall>p d. rep_data s p = Some d \<longrightarrow> xd_pipe d = p)"

definition xrep_room :: "nn_xrep \<Rightarrow> bool" where
  "xrep_room s \<longleftrightarrow> nn_hash_get (rep_outpipes s) (rep_next_key s AND 0x7fffffff) = None"

definition xrep_view :: "nn_xrep sock_view" where
  "xrep_view = \<lparr>v_inv = xrep_inv, v_att = (\<lambda>s. dom (rep_data s)), v_in = (\<lambda>s. pl_active (rep_inpipes s)),
     v_out = xrep_ready, v_hears = True, v_room = xrep_room, v_msgs = (\<lambda>m. True), v_opts = (\<lambda>s level opt val. True)\<rparr>"

lemma xrep_view_sel [simp]:
  "v_inv xrep_view = xrep_inv" "v_att xrep_view s = dom (rep_data s)" "v_in xrep_view s = pl_active (rep_inpipes s)"
  "v_out xrep_view = xrep_ready" "v_hears xrep_view" "v_room xrep_view = xrep_room"
  by (simp_all add: xrep_view_def)

lemma xrep_set_data_sel [simp]:
  "rep_next_key (xrep_set_data s p d) = rep_next_key s" "rep_outpipes (xrep_set_data s p d) = rep_outpipes s"
  "rep_inpipes (xrep_set_data s p d) = rep_inpipes s" "rep_data (xrep_set_data s p d) = (rep_data s)(p := d)"
  by (simp_all add: xrep_set_data_def)

lemma xrep_sched_upd: "xrep_sched (xrep_set_data s p d) = (xrep_sched s)(p := map_option xd_initem d)"
  by (auto simp: xrep_sched_def)

lemma xrep_sched_cong: "rep_data s' = rep_data s \<Longrightarrow> xrep_sched s' = xrep_sched s"
  by (auto simp: xrep_sched_def)

lemma xrep_ready_upd: "xrep_ready (xrep_set_data s p d) =
    (case d of None \<Rightarrow> xrep_ready s - {p}
     | Some d \<Rightarrow> if xd_flags d AND NN_XREP_OUT \<noteq> 0 then insert p (xrep_ready s) else xrep_ready s - {p})"
  by (auto simp: xrep_ready_def split: option.splits)

lemma out_flag [simp]: "(f OR NN_XREP_OUT) AND NN_XREP_OUT \<noteq> 0" "(f AND NOT NN_XREP_OUT) AND NN_XREP_OUT = 0"
proof -
  show "(f OR NN_XREP_OUT) AND NN_XREP_OUT \<noteq> 0"
    by (simp add: NN_XREP_OUT_def and_one_eq even_or_iff flip: odd_iff_mod_2_eq_one)
  show "(f AND NOT NN_XREP_OUT) AND NN_XREP_OUT = 0" by (rule bit_word_eqI) (simp add: bit_simps)
qed

lemma NN_XREP_OUT_nonzero [simp]: "NN_XREP_OUT \<noteq> 0"
  by (simp add: NN_XREP_OUT_def)

lemma key_plain: "(k AND 0x7fffffff) AND 0x80000000 = (0 :: u32)"
  by (simp add: and.assoc)

lemma parsed_clear [simp]: "parsed (rc AND NOT NN_PIPE_RELEASE) = parsed rc"
proof -
  have "(rc AND NOT NN_PIPE_RELEASE) AND NN_PIPE_PARSED = rc AND NN_PIPE_PARSED"
    by (simp add: NN_PIPE_RELEASE_def NN_PIPE_PARSED_def and.assoc)
  then show ?thesis by (simp add: parsed_def)
qed

lemma xrep_init_ok:
  "xrep_inv (nn_xrep_init key0)" "rep_data (nn_xrep_init key0) = Map.empty" "pl_active (rep_inpipes (nn_xrep_init key0)) = {}"
  "xrep_ready (nn_xrep_init key0) = {}"
proof -
  have "xrep_sched (nn_xrep_init key0) = Map.empty" by (auto simp: xrep_sched_def nn_xrep_init_def)
  then show "xrep_inv (nn_xrep_init key0)"
    using sched_init by (simp add: xrep_inv_def nn_xrep_init_def hash_inv_init nn_fq_init_def)
qed (simp_all add: nn_xrep_init_def nn_fq_init_def pl_inv_init xrep_ready_def)

lemma xrep_add_ok:
  assumes inv: "xrep_inv s" and p: "rep_data s p = None" "xrep_room s" "opts_ok opt"
  shows "\<exists>s'. nn_xrep_add s p opt = Some (Inr (), s') \<and> xrep_inv s' \<and> rep_inpipes s' = rep_inpipes s \<and>
    xrep_ready s' = xrep_ready s \<and> dom (rep_data s') = insert p (dom (rep_data s))"
proof -
  let ?k = "rep_next_key s AND 0x7fffffff"
  have h: "hash_inv (rep_outpipes s)" "nn_hash_get (rep_outpipes s) ?k = None" "p \<notin> ran (nn_hash_get (rep_outpipes s))"
    using inv p by (auto simp: xrep_inv_def xrep_room_def)
  obtain h' where h': "nn_hash_insert (rep_outpipes s) ?k p = Some h'" "hash_inv h'"
    "nn_hash_get h' = (nn_hash_get (rep_outpipes s))(?k \<mapsto> p)"
    using ht.insert_get [OF h] by blast
  let ?d = "\<lparr>xd_pipe = p, xd_initem = nn_fq_add p (rcvprio opt), xd_flags = 0\<rparr>"
  let ?s = "xrep_set_data (s\<lparr>rep_outpipes := h', rep_next_key := rep_next_key s + 1\<rparr>) p (Some ?d)"
  have "sched_ok ((xrep_sched s)(p := Some (nn_priolist_add p (rcvprio opt)))) (rep_inpipes s)"
    by (rule sched_add) (use inv p in \<open>auto simp: xrep_inv_def xrep_sched_def opts_ok_def\<close>)
  moreover have "xrep_sched ?s = (xrep_sched s)(p := Some (nn_priolist_add p (rcvprio opt)))"
    by (auto simp: xrep_sched_def nn_fq_add_def)
  moreover have "ran (nn_hash_get h') = insert p (dom (rep_data s))"
    using inv h(2) by (simp add: h'(3) ran_map_upd xrep_inv_def)
  ultimately have "xrep_inv ?s"
    using inv h'(2,3) key_plain by (auto simp: xrep_inv_def)
  moreover have "xrep_ready ?s = xrep_ready s" using p(1) by (auto simp: xrep_ready_def)
  moreover have "nn_xrep_add s p opt = Some (Inr (), ?s)"
    using p(3) h'(1) by (simp add: nn_xrep_add_def opts_ok_def Let_def)
  ultimately show ?thesis by (intro exI [of _ ?s]) auto
qed

lemma ran_delete:
  assumes "m k = Some p" "\<And>k'. m k' = Some p \<Longrightarrow> k' = k"
  shows "ran (m(k := None)) = ran m - {p}"
proof (rule set_eqI, rule iffI)
  fix x assume "x \<in> ran (m(k := None))"
  then obtain k' where "k' \<noteq> k" "m k' = Some x" by (auto simp: ran_def split: if_splits)
  then show "x \<in> ran m - {p}" using assms(2) [of k'] by (auto intro: ranI)
next
  fix x assume "x \<in> ran m - {p}"
  then obtain k' where "m k' = Some x" "x \<noteq> p" by (auto simp: ran_def)
  then have "(m(k := None)) k' = Some x" using assms(1) by auto
  then show "x \<in> ran (m(k := None))" by (rule ranI)
qed

lemma xrep_rm_ok:
  assumes inv: "xrep_inv s" and p: "rep_data s p = Some d"
  shows "\<exists>s'. nn_xrep_rm w s p = Some (s', w) \<and> xrep_inv s' \<and> pl_active (rep_inpipes s') = pl_active (rep_inpipes s) - {p} \<and>
    xrep_ready s' = xrep_ready s - {p} \<and> dom (rep_data s') = dom (rep_data s) - {p}"
proof -
  have "xrep_sched s p = Some (xd_initem d)" using p by (simp add: xrep_sched_def)
  then obtain fq where fq: "nn_fq_rm (rep_inpipes s) (xd_initem d) = Some fq" "sched_ok ((xrep_sched s)(p := None)) fq"
    "pl_active fq = pl_active (rep_inpipes s) - {p}"
    using sched_rm [of "xrep_sched s" "rep_inpipes s" p] inv by (auto simp: xrep_inv_def nn_fq_rm_def)
  have "p \<in> ran (nn_hash_get (rep_outpipes s))" using inv p by (auto simp: xrep_inv_def)
  then obtain k where k: "nn_hash_get (rep_outpipes s) k = Some p" by (auto simp: ran_def)
  have hi: "hash_inv (rep_outpipes s)" using inv by (simp add: xrep_inv_def)
  then obtain h' where h': "nn_hash_erase (rep_outpipes s) p = Some h'" "hash_inv h'"
    "nn_hash_get h' = (nn_hash_get (rep_outpipes s))(k := None)"
    using ht.erase_get [OF _ k] by blast
  have "ran (nn_hash_get h') = ran (nn_hash_get (rep_outpipes s)) - {p}"
    unfolding h'(3) by (rule ran_delete, rule k) (rule ht.keys_unique [OF hi _ k])
  moreover let ?s = "xrep_set_data (s\<lparr>rep_inpipes := fq, rep_outpipes := h'\<rparr>) p None"
  have "xrep_sched ?s = (xrep_sched s)(p := None)" by (auto simp: xrep_sched_def)
  moreover have "k' AND 0x80000000 = 0" if "nn_hash_get h' k' = Some q" for k' q
  proof -
    have "nn_hash_get (rep_outpipes s) k' = Some q" using that by (simp add: h'(3) split: if_splits)
    then show ?thesis using inv unfolding xrep_inv_def by blast
  qed
  ultimately have "xrep_inv ?s" using inv fq(2) h'(2) by (simp add: xrep_inv_def)
  moreover have "xrep_ready ?s = xrep_ready s - {p}"
    by (simp only: xrep_ready_upd option.case) (simp add: xrep_ready_def)
  moreover have "nn_xrep_rm w s p = Some (?s, w)" using p fq(1) h'(1) by (simp add: nn_xrep_rm_def)
  ultimately show ?thesis using fq(3) by (intro exI [of _ ?s]) simp
qed

lemma xrep_in_ok:
  assumes inv: "xrep_inv s" and p: "rep_data s p = Some d" "p \<notin> pl_active (rep_inpipes s)"
  shows "\<exists>fq. nn_xrep_in w s p = Some (s\<lparr>rep_inpipes := fq\<rparr>, w) \<and> xrep_inv (s\<lparr>rep_inpipes := fq\<rparr>) \<and>
    pl_active fq = insert p (pl_active (rep_inpipes s))"
proof -
  have "xrep_sched s p = Some (xd_initem d)" using p by (simp add: xrep_sched_def)
  then obtain fq where "nn_fq_in (rep_inpipes s) (xd_initem d) = Some fq" "sched_ok (xrep_sched s) fq"
    "pl_active fq = insert p (pl_active (rep_inpipes s))"
    using sched_activate [of "xrep_sched s" "rep_inpipes s" p] inv p(2) by (auto simp: xrep_inv_def nn_fq_in_def)
  moreover from this have "xrep_inv (s\<lparr>rep_inpipes := fq\<rparr>)"
    using inv xrep_sched_cong [of "s\<lparr>rep_inpipes := fq\<rparr>" s] by (simp add: xrep_inv_def)
  ultimately show ?thesis using p(1) by (intro exI [of _ fq]) (simp add: nn_xrep_in_def)
qed

lemma xrep_flags_inv:
  assumes "xrep_inv s" "rep_data s p = Some d" "xd_initem d' = xd_initem d" "xd_pipe d' = xd_pipe d"
  shows "xrep_inv (xrep_set_data s p (Some d'))"
proof -
  have "xrep_sched (xrep_set_data s p (Some d')) = xrep_sched s" using assms by (auto simp: xrep_sched_def)
  then show ?thesis using assms by (auto simp: xrep_inv_def)
qed

lemma xrep_key_of:
  assumes "xrep_inv s" "p \<in> dom (rep_data s)"
  shows "nn_hash_get (rep_outpipes s) (hkey (rep_outpipes s) p) = Some p" "hkey (rep_outpipes s) p AND 0x80000000 = 0"
proof -
  have hi: "hash_inv (rep_outpipes s)" "p \<in> ran (nn_hash_get (rep_outpipes s))"
    "\<forall>k q. nn_hash_get (rep_outpipes s) k = Some q \<longrightarrow> k AND 0x80000000 = 0"
    using assms by (simp_all add: xrep_inv_def)
  show k: "nn_hash_get (rep_outpipes s) (hkey (rep_outpipes s) p) = Some p"
    using hi(2) unfolding hash_get_iff [OF hi(1)] hash_ran_get [OF hi(1)] by simp
  show "hkey (rep_outpipes s) p AND 0x80000000 = 0" using hi(3) k by blast
qed

context transport begin

text \<open>A reply whose header starts with the key of a ready pipe goes to that pipe; other replies
  are dropped.\<close>

lemma xrep_send_to:
  assumes inv: "xrep_inv s" and p: "rep_data s p = Some d" "xd_flags d AND NN_XREP_OUT \<noteq> 0"
    and w: "winv w" "\<forall>q \<in> xrep_ready s. can_send w q" and hdr: "sphdr m = be32 (hkey (rep_outpipes s) p) @ h"
  shows "\<exists>s' rc w'. nn_xrep_send vf w s m = Some (Inr (), s', w') \<and> nn_pipe_send vf w p (m\<lparr>sphdr := h\<rparr>) = Some (rc, w') \<and>
    winv w' \<and> xrep_inv s' \<and> dom (rep_data s') = dom (rep_data s) \<and> rep_inpipes s' = rep_inpipes s \<and>
    xrep_ready s' \<subseteq> xrep_ready s \<and> (\<forall>q \<in> xrep_ready s'. can_send w' q) \<and> (\<forall>q. can_recv w' q \<longleftrightarrow> can_recv w q)"
proof -
  have pr: "p \<in> xrep_ready s" using p by (simp add: xrep_ready_def)
  obtain rc w' where s: "nn_pipe_send vf w p (m\<lparr>sphdr := h\<rparr>) = Some (rc, w')" "winv w'"
    "\<forall>q. can_send w' q \<longleftrightarrow> can_send w q \<and> \<not> (q = p \<and> released rc)" "\<forall>q. can_recv w' q \<longleftrightarrow> can_recv w q"
    using pipe_send_ok [OF w(1) bspec [OF w(2) pr], of "m\<lparr>sphdr := h\<rparr>"] by (elim exE conjE) (rule that; assumption)
  let ?d = "d\<lparr>xd_flags := xd_flags d AND NOT NN_XREP_OUT\<rparr>"
  let ?s = "if released rc then xrep_set_data s p (Some ?d) else s"
  have dp: "xd_pipe d = p" using inv p(1) by (simp add: xrep_inv_def)
  have "nn_xrep_send vf w s m = Some (Inr (), ?s, w')"
    using p xrep_key_of(1) [OF inv, of p] domI [of "rep_data s" p d] s(1) by (simp add: nn_xrep_send_def hdr nn_getl_be32 dp)
  moreover have "xrep_inv ?s" using xrep_flags_inv [OF inv p(1), of ?d] inv by simp
  moreover have "xrep_ready ?s = (if released rc then xrep_ready s - {p} else xrep_ready s)" by (simp add: xrep_ready_upd)
  moreover have "\<forall>q \<in> xrep_ready ?s. can_send w' q" using calculation(3) w(2) s(3) by auto
  ultimately show ?thesis using s(1,2,4) p(1) by (intro exI [of _ ?s] exI [of _ rc] exI [of _ w']) auto
qed

lemma xrep_send_drop:
  assumes "xrep_inv s" "length (sphdr m) < 4 \<or> (\<exists>k. nn_getl (sphdr m) = Some k \<and>
    (\<forall>p d. nn_hash_get (rep_outpipes s) k = Some p \<longrightarrow> rep_data s p = Some d \<longrightarrow> xd_flags d AND NN_XREP_OUT = 0))"
  shows "nn_xrep_send vf w s m = Some (Inr (), s, w)"
proof (cases "length (sphdr m) < 4")
  case False
  then obtain k where k: "nn_getl (sphdr m) = Some k"
    "\<forall>p d. nn_hash_get (rep_outpipes s) k = Some p \<longrightarrow> rep_data s p = Some d \<longrightarrow> xd_flags d AND NN_XREP_OUT = 0"
    using assms(2) by blast
  show ?thesis
  proof (cases "nn_hash_get (rep_outpipes s) k")
    case (Some p)
    then have "p \<in> dom (rep_data s)" using assms(1) unfolding xrep_inv_def by (metis ranI)
    then show ?thesis using k False Some by (auto simp: nn_xrep_send_def)
  qed (use k False in \<open>simp add: nn_xrep_send_def\<close>)
qed (simp add: nn_xrep_send_def)

lemma xrep_send_good:
  assumes "sock_good winv xrep_view s w"
  shows "\<exists>s' w'. nn_xrep_send vf w s m = Some (Inr (), s', w') \<and> sock_good winv xrep_view s' w' \<and>
    dom (rep_data s') = dom (rep_data s)"
proof -
  note g = sock_goodD [OF assms]
  have inv: "xrep_inv s" and rdy: "\<forall>q \<in> xrep_ready s. can_send w q" using g(2,4) by auto
  show ?thesis
  proof (cases "length (sphdr m) < 4")
    case True
    then show ?thesis using xrep_send_drop [OF inv] assms by simp
  next
    case False
    then obtain k where k: "nn_getl (sphdr m) = Some k" by (simp add: nn_getl_def)
    show ?thesis
    proof (cases "\<exists>p d. nn_hash_get (rep_outpipes s) k = Some p \<and> rep_data s p = Some d \<and> xd_flags d AND NN_XREP_OUT \<noteq> 0")
      case True
      then obtain p d where p: "nn_hash_get (rep_outpipes s) k = Some p" "rep_data s p = Some d" "xd_flags d AND NN_XREP_OUT \<noteq> 0"
        by blast
      have hi: "hash_inv (rep_outpipes s)" using inv by (simp add: xrep_inv_def)
      have "hkey (rep_outpipes s) p = k" using p(1) by (simp add: hash_get_iff [OF hi])
      then have hdr: "sphdr m = be32 (hkey (rep_outpipes s) p) @ drop 4 (sphdr m)" using be32_getl [OF k] by simp
      obtain s' w' where s': "nn_xrep_send vf w s m = Some (Inr (), s', w')" "winv w'" "xrep_inv s'"
        "dom (rep_data s') = dom (rep_data s)" "rep_inpipes s' = rep_inpipes s" "xrep_ready s' \<subseteq> xrep_ready s"
        "\<forall>q \<in> xrep_ready s'. can_send w' q" "\<forall>q. can_recv w' q \<longleftrightarrow> can_recv w q"
        using xrep_send_to [OF inv p(2,3) g(1) rdy hdr] by (elim exE conjE) (rule that; assumption)
      moreover have "sock_good winv xrep_view s' w'"
        using s'(2-8) g(3,5,6) by (intro sock_goodI) (simp_all add: subset_iff)
      ultimately show ?thesis by blast
    next
      case False
      then show ?thesis using xrep_send_drop [OF inv, of m w] k assms by blast
    qed
  qed
qed

end

context framing_transport begin

text \<open>What a request looks like to the user of the raw socket: the key of the pipe it came from,
  then the backtrace it arrived with.\<close>

lemma xrep_recv_ok:
  assumes inv: "xrep_inv s" and w: "winv w" "\<forall>p \<in> pl_active (rep_inpipes s). can_recv w p"
  shows "\<exists>rc fq w'. nn_xrep_recv maxttl vf w s = Some (rc, s\<lparr>rep_inpipes := fq\<rparr>, w') \<and> winv w' \<and>
    xrep_inv (s\<lparr>rep_inpipes := fq\<rparr>) \<and> pl_active fq \<subseteq> pl_active (rep_inpipes s) \<and>
    (\<forall>p \<in> pl_active fq. can_recv w' p) \<and> (\<forall>q. can_send w q \<longrightarrow> can_send w' q) \<and>
    (case rc of Inl e \<Rightarrow> e = EAGAIN
     | Inr m \<Rightarrow> \<exists>p fl raw h. p \<in> pl_active (rep_inpipes s) \<and> nn_pipe_recv vf w p = Some (fl, raw, w') \<and>
         sphdr m = be32 (hkey (rep_outpipes s) p) @ h \<and> hdrs m = hdrs raw \<and>
         (if parsed fl then h = sphdr raw \<and> body m = body raw
          else is_backtrace h \<and> body raw = h @ body m \<and> int (length h div 4) \<le> maxttl))"
proof -
  have ok: "sched_ok (xrep_sched s) (rep_inpipes s)" using inv by (simp add: xrep_inv_def)
  have keep: "xrep_inv (s\<lparr>rep_inpipes := fq\<rparr>)" if "sched_ok (xrep_sched s) fq" for fq
    using inv that xrep_sched_cong [of "s\<lparr>rep_inpipes := fq\<rparr>" s] by (simp add: xrep_inv_def)
  show ?thesis
  proof (rule sched_recv [OF w(1) ok bspec [OF w(2)]])
    assume "nn_fq_recv vf w (rep_inpipes s) = Some (Inl EAGAIN, rep_inpipes s, w)"
    then have "nn_xrep_recv maxttl vf w s = Some (Inl EAGAIN, s\<lparr>rep_inpipes := rep_inpipes s\<rparr>, w)"
      by (simp add: nn_xrep_recv_def)
    then show ?thesis
      using keep [OF ok] w by (intro exI [of _ "Inl EAGAIN"] exI [of _ "rep_inpipes s"] exI [of _ w]) simp
  next
    fix c rc raw fq w'
    assume r: "nn_fq_recv vf w (rep_inpipes s) = Some (Inr (rc AND NOT NN_PIPE_RELEASE, raw, c), fq, w')"
      and pr: "nn_pipe_recv vf w c = Some (rc, raw, w')" and c: "c \<in> pl_active (rep_inpipes s)" and w': "winv w'" "sched_ok (xrep_sched s) fq"
      and act: "pl_active fq = (if released rc then pl_active (rep_inpipes s) - {c} else pl_active (rep_inpipes s))"
      and snd: "\<And>q. can_send w q \<Longrightarrow> can_send w' q" and rcv: "\<And>q. q \<in> pl_active fq \<Longrightarrow> can_recv w' q"
    have fin: ?thesis if "nn_xrep_recv maxttl vf w s = Some (res, s\<lparr>rep_inpipes := fq\<rparr>, w')"
      "case res of Inl e \<Rightarrow> e = EAGAIN
       | Inr m \<Rightarrow> \<exists>p fl raw h. p \<in> pl_active (rep_inpipes s) \<and> nn_pipe_recv vf w p = Some (fl, raw, w') \<and>
         sphdr m = be32 (hkey (rep_outpipes s) p) @ h \<and> hdrs m = hdrs raw \<and>
         (if parsed fl then h = sphdr raw \<and> body m = body raw
          else is_backtrace h \<and> body raw = h @ body m \<and> int (length h div 4) \<le> maxttl)" for res
      using that keep [OF w'(2)] w'(1) act snd rcv by (intro exI [of _ res] exI [of _ fq] exI [of _ w'] conjI) auto
    have key: "nn_putl (replicate 4 0) k = Some (be32 k)" for k by (rule nn_putl_be32) simp
    show ?thesis
    proof (cases "parsed rc")
      case True
      then show ?thesis
        using r pr c key by (intro fin [of "Inr (raw\<lparr>sphdr := be32 (hkey (rep_outpipes s) c) @ sphdr raw\<rparr>)"])
          (auto simp: nn_xrep_recv_def)
    next
      case False
      obtain sp where sp: "xrep_split maxttl raw = Some sp" "\<forall>m'. sp = Some m' \<longrightarrow>
        is_backtrace (sphdr m') \<and> body raw = sphdr m' @ body m' \<and> hdrs m' = hdrs raw \<and> int (length (sphdr m') div 4) \<le> maxttl"
        using xrep_split_ok [of raw maxttl] recv_raw [OF w(1) bspec [OF w(2) c] pr False] by blast
      show ?thesis
      proof (cases sp)
        case None
        then show ?thesis using r False sp(1) by (intro fin [of "Inl EAGAIN"]) (simp_all add: nn_xrep_recv_def)
      next
        case (Some m')
        then have m': "is_backtrace (sphdr m')" "body raw = sphdr m' @ body m'" "hdrs m' = hdrs raw" "int (length (sphdr m') div 4) \<le> maxttl"
          using sp(2) by auto
        show ?thesis
          by (rule fin [of "Inr (m'\<lparr>sphdr := be32 (hkey (rep_outpipes s) c) @ sphdr m'\<rparr>)"])
            (use r False sp(1) Some key pr c m' in \<open>auto simp: nn_xrep_recv_def intro!: exI [of _ c]\<close>)
      qed
    qed
  qed
qed

end

sublocale framing_transport \<subseteq> xrep: sp_socket vf winv "nn_xrep_sockbase_vfptr maxttl vf" xrep_view "nn_xrep_init key0" for maxttl key0
proof (unfold_locales, goal_cases)
  case (5 s w p opt)
  note g = sock_goodD [OF 5(1)]
  obtain s' where "nn_xrep_add s p opt = Some (Inr (), s')" "xrep_inv s'" "rep_inpipes s' = rep_inpipes s"
    "xrep_ready s' = xrep_ready s" "dom (rep_data s') = insert p (dom (rep_data s))"
    using xrep_add_ok [of s p opt] 5(2-4) g(2) by auto
  then show ?case
    using g(1,3-6) by (auto simp: nn_xrep_sockbase_vfptr_def intro!: sock_goodI)
next
  case (6 s w p)
  note g = sock_goodD [OF 6(1)]
  obtain s' where "nn_xrep_rm w s p = Some (s', w)" "xrep_inv s'" "pl_active (rep_inpipes s') = pl_active (rep_inpipes s) - {p}"
    "xrep_ready s' = xrep_ready s - {p}" "dom (rep_data s') = dom (rep_data s) - {p}"
    using xrep_rm_ok [of s p _ w] 6(2) g(2) by auto
  then show ?case
    using g(1,3-6) by (auto simp: nn_xrep_sockbase_vfptr_def intro!: sock_goodI)
next
  case (7 s w p)
  note g = sock_goodD [OF 7(1)]
  obtain fq where "nn_xrep_in w s p = Some (s\<lparr>rep_inpipes := fq\<rparr>, w)" "xrep_inv (s\<lparr>rep_inpipes := fq\<rparr>)"
    "pl_active fq = insert p (pl_active (rep_inpipes s))"
    using xrep_in_ok [of s p _ w] 7(3,4) g(2) by auto
  moreover have "xrep_ready (s\<lparr>rep_inpipes := fq\<rparr>) = xrep_ready s" by (simp add: xrep_ready_def)
  ultimately show ?case
    using g(1,3-6) 7(3,5) by (auto simp: nn_xrep_sockbase_vfptr_def intro!: sock_goodI)
next
  case (8 s w p)
  note g = sock_goodD [OF 8(1)]
  obtain d where d: "rep_data s p = Some d" using 8(2) by auto
  let ?s = "xrep_set_data s p (Some (d\<lparr>xd_flags := xd_flags d OR NN_XREP_OUT\<rparr>))"
  have "nn_xrep_out w s p = Some (?s, w)" using d by (simp add: nn_xrep_out_def)
  moreover have "xrep_inv ?s" using g(2) by (intro xrep_flags_inv [OF _ d]) simp_all
  ultimately show ?case
    using g(1,3-6) 8(4) d by (auto simp: nn_xrep_sockbase_vfptr_def xrep_ready_upd intro!: sock_goodI)
next
  case (9 s w f m)
  then show ?case
    using xrep_send_good [OF 9(1), of m] by (auto simp: nn_xrep_sockbase_vfptr_def)
next
  case (10 s w h)
  note g = sock_goodD [OF 10(1)]
  have h: "h = nn_xrep_recv maxttl vf" using 10(2) by (simp add: nn_xrep_sockbase_vfptr_def)
  have ok: "xrep_inv s" "\<forall>p \<in> pl_active (rep_inpipes s). can_recv w p" using g(2,3) by auto
  obtain rc fq w' where r: "nn_xrep_recv maxttl vf w s = Some (rc, s\<lparr>rep_inpipes := fq\<rparr>, w')" "winv w'"
    "xrep_inv (s\<lparr>rep_inpipes := fq\<rparr>)" "pl_active fq \<subseteq> pl_active (rep_inpipes s)"
    "\<forall>p \<in> pl_active fq. can_recv w' p" "\<forall>q. can_send w q \<longrightarrow> can_send w' q"
    using xrep_recv_ok [OF ok(1) g(1) ok(2), of maxttl] by (elim exE conjE) (rule that; assumption)
  have "xrep_ready (s\<lparr>rep_inpipes := fq\<rparr>) = xrep_ready s" by (simp add: xrep_ready_def)
  then have "sock_good winv xrep_view (s\<lparr>rep_inpipes := fq\<rparr>) w'"
    using r(2-6) g(4-6) by (intro sock_goodI) (auto simp: subset_iff)
  then show ?case using r(1) h by blast
next
  case (11 s w level nm val)
  then show ?case by (simp add: nn_xrep_sockbase_vfptr_def nn_xrep_setopt_def)
qed (simp_all add: xrep_init_ok)

section \<open>The cooked socket\<close>

definition rep_view :: "nn_rep sock_view" where
  "rep_view = \<lparr>v_inv = (\<lambda>s. xrep_inv (rep_x s)), v_att = (\<lambda>s. dom (rep_data (rep_x s))),
     v_in = (\<lambda>s. pl_active (rep_inpipes (rep_x s))), v_out = (\<lambda>s. xrep_ready (rep_x s)), v_hears = True,
     v_room = (\<lambda>s. xrep_room (rep_x s)), v_msgs = (\<lambda>m. sphdr m = []), v_opts = (\<lambda>s level opt val. True)\<rparr>"

lemma rep_view_sel [simp]:
  "v_inv rep_view s = xrep_inv (rep_x s)" "v_att rep_view s = dom (rep_data (rep_x s))"
  "v_in rep_view s = pl_active (rep_inpipes (rep_x s))" "v_out rep_view s = xrep_ready (rep_x s)" "v_hears rep_view"
  "v_room rep_view s = xrep_room (rep_x s)" "v_msgs rep_view m \<longleftrightarrow> sphdr m = []"
  by (simp_all add: rep_view_def)

lemma rep_good: "sock_good winv rep_view s w \<longleftrightarrow> sock_good winv xrep_view (rep_x s) w"
  by (simp add: sock_good_def sock_ready_def)

lemma inprogress_flag [simp]:
  "NN_REP_INPROGRESS \<noteq> 0" "(f OR NN_REP_INPROGRESS) AND NN_REP_INPROGRESS \<noteq> 0" "(f AND NOT NN_REP_INPROGRESS) AND NN_REP_INPROGRESS = 0"
  using out_flag [of f] by (simp_all add: NN_REP_INPROGRESS_def NN_XREP_OUT_def)

sublocale framing_transport \<subseteq> rep: sp_socket vf winv "nn_rep_sockbase_vfptr maxttl vf" rep_view "nn_rep_init key0" for maxttl key0
proof (unfold_locales, goal_cases)
  case (5 s w p opt)
  then show ?case
    using xrep.add_law [of "rep_x s" w p opt]
    by (auto simp: rep_good nn_rep_sockbase_vfptr_def nn_xrep_sockbase_vfptr_def)
next
  case (6 s w p)
  then show ?case
    using xrep.rm_law [of "rep_x s" w p]
    by (auto simp: rep_good nn_rep_sockbase_vfptr_def nn_xrep_sockbase_vfptr_def on_rep_x_def)
next
  case (7 s w p)
  then show ?case
    using xrep.in_law [of "rep_x s" w p]
    by (auto simp: rep_good nn_rep_sockbase_vfptr_def nn_xrep_sockbase_vfptr_def on_rep_x_def)
next
  case (8 s w p)
  then show ?case
    using xrep.out_law [of "rep_x s" w p]
    by (auto simp: rep_good nn_rep_sockbase_vfptr_def nn_xrep_sockbase_vfptr_def on_rep_x_def)
next
  case (9 s w f m)
  have f: "f = nn_rep_send vf" using 9(2) by (simp add: nn_rep_sockbase_vfptr_def)
  show ?case
    using xrep_send_good [of "rep_x s" w "m\<lparr>sphdr := backtrace s\<rparr>"] 9(1,3) f
    by (auto simp: rep_good nn_rep_send_def)
next
  case (10 s w h)
  have h: "h = nn_rep_recv maxttl vf" using 10(2) by (simp add: nn_rep_sockbase_vfptr_def)
  have g: "sock_good winv xrep_view (rep_x s) w" using 10(1) by (simp add: rep_good)
  note g' = sock_goodD [OF g]
  have ok: "xrep_inv (rep_x s)" "\<forall>p \<in> pl_active (rep_inpipes (rep_x s)). can_recv w p" using g'(2,3) by auto
  obtain rc x w' where r: "nn_xrep_recv maxttl vf w (rep_x s) = Some (rc, x, w')" "\<And>e. rc = Inl e \<Longrightarrow> e = EAGAIN"
    using xrep_recv_ok [OF ok(1) g'(1) ok(2), of maxttl] by fastforce
  moreover have "sock_good winv xrep_view x w'"
    using xrep.recv_law [OF g, of maxttl "nn_xrep_recv maxttl vf"] r(1) by (auto simp: nn_xrep_sockbase_vfptr_def)
  ultimately show ?case by (auto simp: h rep_good nn_rep_recv_def Let_def split: sum.splits if_splits)
next
  case (11 s w level nm val)
  then show ?case by (simp add: rep_good nn_rep_sockbase_vfptr_def nn_xrep_setopt_def)
qed (simp_all add: nn_rep_init_def xrep_init_ok)

lemma inproc_recv_unparsed: "nn_pipe_recv nn_sinproc_pipebase_vfptr w p = Some (fl, raw, w') \<Longrightarrow> \<not> parsed fl"
  by (auto simp: nn_pipe_recv_def nn_sinproc_pipebase_vfptr_def nn_sinproc_recv_def Let_def parsed_def NN_PIPE_PARSED_def
      NN_PIPE_RELEASE_def split: if_splits bind_splits sum.splits)

text \<open>Answering the pipe whose key the header starts with.\<close>

lemma xrep_answer:
  assumes inv: "xrep_inv x" and p: "p \<in> dom (rep_data x)" and w: "inproc_clean w" "\<forall>q \<in> xrep_ready x. can_send w q"
    and hdr: "sphdr r = be32 (hkey (rep_outpipes x) p) @ h" "body r = b"
  shows "\<exists>x2 w2. nn_xrep_send nn_sinproc_pipebase_vfptr w x r = Some (Inr (), x2, w2) \<and>
    (\<forall>q. session w2 q = (if q = p \<and> p \<in> xrep_ready x
       then (session w p)\<lparr>smsg := \<lparr>sphdr = [], hdrs = [], body = h @ b\<rparr>, sending := True\<rparr> else session w q))"
proof (cases "p \<in> xrep_ready x")
  case True
  then obtain d where d: "rep_data x p = Some d" "xd_flags d AND NN_XREP_OUT \<noteq> 0" by (auto simp: xrep_ready_def)
  obtain x2 rc w2 where "nn_xrep_send nn_sinproc_pipebase_vfptr w x r = Some (Inr (), x2, w2)"
    and s: "nn_pipe_send nn_sinproc_pipebase_vfptr w p (r\<lparr>sphdr := h\<rparr>) = Some (rc, w2)"
    using inprocf.xrep_send_to [OF inv d w hdr(1)] by (elim exE conjE) (rule that; assumption)
  moreover have "merge_msg (r\<lparr>sphdr := h\<rparr>) = \<lparr>sphdr = [], hdrs = [], body = h @ b\<rparr>" using hdr(2) by (simp add: merge_msg_def)
  ultimately show ?thesis using inproc_send_session [OF s] True by auto
next
  case False
  have k: "nn_getl (sphdr r) = Some (hkey (rep_outpipes x) p)" using hdr by (simp add: nn_getl_be32)
  have "\<forall>q d. nn_hash_get (rep_outpipes x) (hkey (rep_outpipes x) p) = Some q \<longrightarrow> rep_data x q = Some d \<longrightarrow> xd_flags d AND NN_XREP_OUT = 0"
    using xrep_key_of(1) [OF inv p] False by (auto simp: xrep_ready_def)
  then show ?thesis using inprocf.xrep_send_drop [OF inv, of r w] k False by auto
qed

text \<open>
  C17: A reply goes back where the request came from.  Over inproc, when a REP socket has
  received a request, the request arrived on some ready pipe with a well-formed backtrace in
  front of its body; the reply is put on that pipe, with the same backtrace in front of its
  own body, and on no other pipe, or is dropped when the pipe is not ready; then the socket
  refuses to send until the next request.
\<close>

theorem nn_rep_reply_routed:
  assumes "sock_good inproc_clean rep_view s w" "sphdr r = []"
    and "nn_rep_recv maxttl nn_sinproc_pipebase_vfptr w s = Some (Inr m, s1, w1)"
  shows "\<exists>p fl raw h s2 w2. p \<in> pl_active (rep_inpipes (rep_x s)) \<and>
    nn_pipe_recv nn_sinproc_pipebase_vfptr w p = Some (fl, raw, w1) \<and> is_backtrace h \<and> body raw = h @ body m \<and>
    nn_rep_send nn_sinproc_pipebase_vfptr w1 s1 r = Some (Inr (), s2, w2) \<and>
    (\<forall>q. session w2 q = (if q = p \<and> p \<in> xrep_ready (rep_x s)
       then (session w1 p)\<lparr>smsg := \<lparr>sphdr = [], hdrs = [], body = h @ body r\<rparr>, sending := True\<rparr> else session w1 q)) \<and>
    (\<forall>r'. nn_rep_send nn_sinproc_pipebase_vfptr w2 s2 r' = Some (Inl EFSM, s2, w2))"
proof -
  let ?vf = nn_sinproc_pipebase_vfptr and ?x = "rep_x s"
  have g: "sock_good inproc_clean xrep_view ?x w" using assms(1) by (simp add: rep_good)
  note g' = sock_goodD [OF g]
  have ok: "xrep_inv ?x" "\<forall>p \<in> pl_active (rep_inpipes ?x). can_recv w p" using g'(2,3) by auto
  obtain rc fq w' where x: "nn_xrep_recv maxttl ?vf w ?x = Some (rc, ?x\<lparr>rep_inpipes := fq\<rparr>, w')" "inproc_clean w'"
    "xrep_inv (?x\<lparr>rep_inpipes := fq\<rparr>)" "\<forall>q. can_send w q \<longrightarrow> can_send w' q"
    "case rc of Inl e \<Rightarrow> e = EAGAIN
     | Inr m \<Rightarrow> \<exists>p fl raw h. p \<in> pl_active (rep_inpipes ?x) \<and> nn_pipe_recv ?vf w p = Some (fl, raw, w') \<and>
         sphdr m = be32 (hkey (rep_outpipes ?x) p) @ h \<and> hdrs m = hdrs raw \<and>
         (if parsed fl then h = sphdr raw \<and> body m = body raw
          else is_backtrace h \<and> body raw = h @ body m \<and> int (length h div 4) \<le> maxttl)"
    using inprocf.xrep_recv_ok [OF ok(1) g'(1) ok(2), of maxttl] by (elim exE conjE) (rule that; assumption)
  let ?x1 = "?x\<lparr>rep_inpipes := fq\<rparr>"
  obtain m0 where m0: "rc = Inr m0" "m = m0\<lparr>sphdr := []\<rparr>" "w1 = w'" "rep_x s1 = ?x1" "backtrace s1 = sphdr m0"
    "rep_flags s1 AND NN_REP_INPROGRESS \<noteq> 0"
    using assms(3) x(1,5) by (auto simp: nn_rep_recv_def Let_def split: sum.splits if_splits)
  obtain p fl raw h where p: "p \<in> pl_active (rep_inpipes ?x)" "nn_pipe_recv ?vf w p = Some (fl, raw, w1)"
    "sphdr m0 = be32 (hkey (rep_outpipes ?x) p) @ h" "is_backtrace h" "body raw = h @ body m"
    using x(5) m0(1,2,3) inproc_recv_unparsed by fastforce
  have "xrep_ready ?x1 = xrep_ready ?x" by (simp add: xrep_ready_def)
  moreover from this have "\<forall>q \<in> xrep_ready ?x1. can_send w1 q" using x(4) g'(4) m0(3) by auto
  moreover have "p \<in> dom (rep_data ?x1)" using p(1) g'(5) by auto
  ultimately have "\<exists>x2 w2. nn_xrep_send ?vf w1 ?x1 (r\<lparr>sphdr := sphdr m0\<rparr>) = Some (Inr (), x2, w2) \<and>
    (\<forall>q. session w2 q = (if q = p \<and> p \<in> xrep_ready ?x
       then (session w1 p)\<lparr>smsg := \<lparr>sphdr = [], hdrs = [], body = h @ body r\<rparr>, sending := True\<rparr> else session w1 q))"
    using xrep_answer [OF x(3), of p w1 "r\<lparr>sphdr := sphdr m0\<rparr>" h "body r"] x(2) p(3) unfolding m0(3) by simp
  then obtain x2 w2 where s2: "nn_xrep_send ?vf w1 ?x1 (r\<lparr>sphdr := sphdr m0\<rparr>) = Some (Inr (), x2, w2)"
    and ses: "\<forall>q. session w2 q = (if q = p \<and> p \<in> xrep_ready ?x
       then (session w1 p)\<lparr>smsg := \<lparr>sphdr = [], hdrs = [], body = h @ body r\<rparr>, sending := True\<rparr> else session w1 q)" by blast
  let ?s2 = "s1\<lparr>rep_flags := rep_flags s1 AND NOT NN_REP_INPROGRESS, rep_x := x2\<rparr>"
  have "nn_rep_send ?vf w1 s1 r = Some (Inr (), ?s2, w2)"
    using s2 assms(2) m0(4-6) by (simp add: nn_rep_send_def)
  moreover have "nn_rep_send ?vf w2 ?s2 r' = Some (Inl EFSM, ?s2, w2)" for r' by (simp add: nn_rep_send_def)
  ultimately show ?thesis using p(1,2,4,5) ses by blast
qed


text \<open>An example: session 1 of the connected pair in a REP socket, with a request waiting.\<close>

definition rep_request :: sp_msg where
  "rep_request = \<lparr>sphdr = [0x80, 0, 0, 5], hdrs = [], body = [7]\<rparr>"

definition xrep_example :: nn_xrep where
  "xrep_example = (case nn_xrep_add (nn_xrep_init 0) 1 \<lparr>sndprio = 8, rcvprio = 8\<rparr> of None \<Rightarrow> nn_xrep_init 0
   | Some (rc, s) \<Rightarrow> (case nn_xrep_in pair_world s 1 of None \<Rightarrow> s
     | Some (s, w) \<Rightarrow> (case nn_xrep_out pair_world s 1 of None \<Rightarrow> s | Some (s, w) \<Rightarrow> s)))"

definition rep_example :: nn_rep where
  "rep_example = \<lparr>rep_x = xrep_example, rep_flags = 0, backtrace = []\<rparr>"

lemma xrep_example_ok:
  "xrep_inv xrep_example" "pl_active (rep_inpipes xrep_example) = {1}" "xrep_ready xrep_example = {1}" "dom (rep_data xrep_example) = {1}"
proof -
  let ?s0 = "nn_xrep_init 0"
  have room: "xrep_room ?s0" by (simp add: xrep_room_def nn_xrep_init_def)
  obtain s1 where s1: "nn_xrep_add ?s0 1 \<lparr>sndprio = 8, rcvprio = 8\<rparr> = Some (Inr (), s1)" "xrep_inv s1"
    "rep_inpipes s1 = rep_inpipes ?s0" "xrep_ready s1 = {}" "dom (rep_data s1) = {1}"
    using xrep_add_ok [OF xrep_init_ok(1) [of 0], of 1 "\<lparr>sndprio = 8, rcvprio = 8\<rparr>"] room
    by (auto simp: xrep_init_ok opts_ok_def)
  obtain d where d: "rep_data s1 1 = Some d" using s1(5) by (auto simp: dom_def)
  obtain fq where s2: "nn_xrep_in pair_world s1 1 = Some (s1\<lparr>rep_inpipes := fq\<rparr>, pair_world)" "xrep_inv (s1\<lparr>rep_inpipes := fq\<rparr>)"
    "pl_active fq = {1}"
    using xrep_in_ok [OF s1(2) d, of pair_world] s1(3) by (auto simp: xrep_init_ok)
  let ?s2 = "s1\<lparr>rep_inpipes := fq\<rparr>" and ?d = "d\<lparr>xd_flags := xd_flags d OR NN_XREP_OUT\<rparr>"
  have d2: "rep_data ?s2 1 = Some d" using d by simp
  have s3: "nn_xrep_out pair_world ?s2 1 = Some (xrep_set_data ?s2 1 (Some ?d), pair_world)"
    using d by (simp add: nn_xrep_out_def)
  have ex: "xrep_example = xrep_set_data ?s2 1 (Some ?d)"
    unfolding xrep_example_def s1(1) option.case prod.case s2(1) s3 ..
  show "xrep_inv xrep_example" unfolding ex using xrep_flags_inv [OF s2(2) d2, of ?d] by simp
  have "xrep_ready ?s2 = xrep_ready s1" by (simp add: xrep_ready_def)
  then show "xrep_ready xrep_example = {1}" unfolding ex xrep_ready_upd using s1(4) by simp
  show "pl_active (rep_inpipes xrep_example) = {1}" "dom (rep_data xrep_example) = {1}"
    unfolding ex using s2(3) s1(5) by auto
qed

lemma rep_world:
  "inproc_clean (msg_world rep_request)" "can_recv (msg_world rep_request) 1" "can_send (msg_world rep_request) 1"
proof -
  show "inproc_clean (msg_world rep_request)" by (rule msg_world_clean)
  have "can_recv (msg_world rep_request) 1 \<and> can_send (msg_world rep_request) 1" by code_simp
  then show "can_recv (msg_world rep_request) 1" "can_send (msg_world rep_request) 1" by auto
qed

lemma rep_example_good: "sock_good inproc_clean rep_view rep_example (msg_world rep_request)"
  unfolding rep_good rep_example_def nn_rep.simps
  by (rule sock_goodI) (use rep_world xrep_example_ok in auto)

theorem nn_rep_reply_routed_witness:
  "\<exists>m s1 w1 s2 w2. nn_rep_recv 8 nn_sinproc_pipebase_vfptr (msg_world rep_request) rep_example = Some (Inr m, s1, w1) \<and>
     nn_rep_send nn_sinproc_pipebase_vfptr w1 s1 \<lparr>sphdr = [], hdrs = [], body = [9]\<rparr> = Some (Inr (), s2, w2) \<and>
     body (smsg (session w2 1)) = [0x80, 0, 0, 5, 9]"
proof -
  let ?r = "\<lparr>sphdr = [], hdrs = [], body = [9 :: u8]\<rparr>"
  have "case nn_rep_recv 8 nn_sinproc_pipebase_vfptr (msg_world rep_request) rep_example of
      Some (Inr m, s1, w1) \<Rightarrow> body m = [7] | _ \<Rightarrow> False"
    by code_simp
  then obtain m s1 w1 where r: "nn_rep_recv 8 nn_sinproc_pipebase_vfptr (msg_world rep_request) rep_example = Some (Inr m, s1, w1)"
    and m: "body m = [7]"
    by (auto split: option.splits sum.splits prod.splits) (metis old.sum.exhaust)
  have rr: "sphdr ?r = []" by simp
  obtain p fl raw h s2 w2 where n: "p \<in> pl_active (rep_inpipes (rep_x rep_example))"
    "nn_pipe_recv nn_sinproc_pipebase_vfptr (msg_world rep_request) p = Some (fl, raw, w1)" "body raw = h @ body m"
    "nn_rep_send nn_sinproc_pipebase_vfptr w1 s1 ?r = Some (Inr (), s2, w2)"
    "\<forall>q. session w2 q = (if q = p \<and> p \<in> xrep_ready (rep_x rep_example)
       then (session w1 p)\<lparr>smsg := \<lparr>sphdr = [], hdrs = [], body = h @ body ?r\<rparr>, sending := True\<rparr> else session w1 q)"
    using nn_rep_reply_routed [OF rep_example_good rr r] by (elim exE conjE) (rule that; assumption)
  have p: "p = 1" using n(1) xrep_example_ok(2) by (simp add: rep_example_def)
  have "case nn_pipe_recv nn_sinproc_pipebase_vfptr (msg_world rep_request) 1 of
      Some (fl, raw, w) \<Rightarrow> body raw = [0x80, 0, 0, 5, 7] | None \<Rightarrow> False"
    by code_simp
  then have "h = [0x80, 0, 0, 5]" using n(2,3) m by (simp add: p)
  then show ?thesis using r n(4,5) p xrep_example_ok(3) by (auto simp: rep_example_def)
qed

end
