(* ===== verification/Nn_Xreq.thy ===== *)
theory Nn_Xreq
  imports Nn_Rep
begin

text \<open>
  The raw REQ socket, \<^verbatim>\<open>protocols/reqrep/xreq.c\<close>: requests are load-balanced, replies
  fair-queued, and the request ID in front of a reply is split off.
\<close>

record nn_xreq_data =
  xq_lb :: nn_priolist_data
  xq_fq :: nn_priolist_data

record nn_xreq =
  req_lb :: nn_lb
  req_fq :: nn_fq
  req_data :: "pid \<Rightarrow> nn_xreq_data option"

definition nn_xreq_init :: nn_xreq where
  "nn_xreq_init = \<lparr>req_lb = nn_lb_init, req_fq = nn_fq_init, req_data = Map.empty\<rparr>"

definition nn_xreq_term :: "nn_xreq \<Rightarrow> unit option" where
  "nn_xreq_term self = do { nn_fq_term (req_fq self); nn_lb_term (req_lb self) }"

definition nn_xreq_add :: "nn_xreq \<Rightarrow> pid \<Rightarrow> pipe_opts \<Rightarrow> (unit rc \<times> nn_xreq) option" where
  "nn_xreq_add self p opt = do {
     nn_assert (sndprio opt \<ge> 1 \<and> sndprio opt \<le> 16);
     nn_assert (rcvprio opt \<ge> 1 \<and> rcvprio opt \<le> 16);
     Some (Inr (), \<lparr>req_lb = req_lb self, req_fq = req_fq self,
       req_data = (req_data self)(p \<mapsto> \<lparr>xq_lb = nn_lb_add p (sndprio opt), xq_fq = nn_fq_add p (rcvprio opt)\<rparr>)\<rparr>) }"

definition nn_xreq_rm :: "'x world \<Rightarrow> nn_xreq \<Rightarrow> pid \<Rightarrow> (nn_xreq \<times> 'x world) option" where
  "nn_xreq_rm w self p = do {
     data \<leftarrow> req_data self p;
     lb \<leftarrow> nn_lb_rm (req_lb self) (xq_lb data);
     fq \<leftarrow> nn_fq_rm (req_fq self) (xq_fq data);
     Some (\<lparr>req_lb = lb, req_fq = fq, req_data = (req_data self)(p := None)\<rparr>, w) }"

definition nn_xreq_in :: "'x world \<Rightarrow> nn_xreq \<Rightarrow> pid \<Rightarrow> (nn_xreq \<times> 'x world) option" where
  "nn_xreq_in w self p = do {
     data \<leftarrow> req_data self p;
     fq \<leftarrow> nn_fq_in (req_fq self) (xq_fq data);
     Some (self\<lparr>req_fq := fq\<rparr>, w) }"

definition nn_xreq_out :: "'x world \<Rightarrow> nn_xreq \<Rightarrow> pid \<Rightarrow> (nn_xreq \<times> 'x world) option" where
  "nn_xreq_out w self p = do {
     data \<leftarrow> req_data self p;
     lb \<leftarrow> nn_lb_out (req_lb self) (xq_lb data);
     Some (self\<lparr>req_lb := lb\<rparr>, w) }"

definition nn_xreq_events :: "nn_xreq \<Rightarrow> u32" where
  "nn_xreq_events self = (if nn_fq_can_recv (req_fq self) then NN_SOCKBASE_EVENT_IN else 0) OR
     (if nn_lb_can_send (req_lb self) then NN_SOCKBASE_EVENT_OUT else 0)"

text \<open>The result on success is the pipe the request went to.\<close>

definition nn_xreq_send_to ::
  "'x pipebase_vfptr \<Rightarrow> 'x world \<Rightarrow> nn_xreq \<Rightarrow> sp_msg \<Rightarrow> (pid rc \<times> nn_xreq \<times> 'x world) option" where
  "nn_xreq_send_to vf w self msg = do {
     (rc, lb, w) \<leftarrow> nn_lb_send vf w (req_lb self) msg;
     let self = self\<lparr>req_lb := lb\<rparr>;
     case rc of Inl e \<Rightarrow> do { nn_assert (e = EAGAIN); Some (Inl EAGAIN, self, w) }
     | Inr (rc, to) \<Rightarrow> Some (Inr to, self, w) }"

definition nn_xreq_send ::
  "'x pipebase_vfptr \<Rightarrow> 'x world \<Rightarrow> nn_xreq \<Rightarrow> sp_msg \<Rightarrow> (unit rc \<times> nn_xreq \<times> 'x world) option" where
  "nn_xreq_send vf w self msg = do {
     (rc, self, w) \<leftarrow> nn_xreq_send_to vf w self msg;
     Some (map_sum id (\<lambda>_. ()) rc, self, w) }"

text \<open>A reply that was not split by the transport: the first four bytes become the header.\<close>

definition split_id :: "sp_msg \<Rightarrow> sp_msg option option" where
  "split_id msg =
     (if length (body msg) < 4 then Some None
      else do {
        nn_assert (length (sphdr msg) = 0);
        Some (Some (msg\<lparr>sphdr := take 4 (body msg), body := drop 4 (body msg)\<rparr>)) })"

definition nn_xreq_recv ::
  "'x pipebase_vfptr \<Rightarrow> 'x world \<Rightarrow> nn_xreq \<Rightarrow> (sp_msg rc \<times> nn_xreq \<times> 'x world) option" where
  "nn_xreq_recv vf w self = do {
     (rc, fq, w) \<leftarrow> nn_fq_recv vf w (req_fq self);
     let self = self\<lparr>req_fq := fq\<rparr>;
     case rc of Inl e \<Rightarrow> do { nn_assert (e = EAGAIN); Some (Inl EAGAIN, self, w) }
     | Inr (rc, msg, pipe) \<Rightarrow> do {
         split \<leftarrow> (if \<not> parsed rc then split_id msg else Some (Some msg));
         case split of None \<Rightarrow> Some (Inl EAGAIN, self, w)
         | Some msg \<Rightarrow> Some (Inr msg, self, w) } }"

definition nn_xreq_setopt :: "nn_xreq \<Rightarrow> int \<Rightarrow> int \<Rightarrow> bytes \<Rightarrow> (unit rc \<times> nn_xreq) option" where
  "nn_xreq_setopt self level opt optval = Some (Inl ENOPROTOOPT, self)"

definition nn_xreq_sockbase_vfptr :: "'x pipebase_vfptr \<Rightarrow> (nn_xreq, 'x) sockbase_vfptr" where
  "nn_xreq_sockbase_vfptr vf = \<lparr>sk_add = nn_xreq_add, sk_rm = nn_xreq_rm, sk_in = nn_xreq_in,
     sk_out = nn_xreq_out, sk_events = nn_xreq_events, sk_send = Some (nn_xreq_send vf),
     sk_recv = Some (nn_xreq_recv vf), sk_setopt = nn_xreq_setopt\<rparr>"

section \<open>Contract\<close>

definition xreq_lbs :: "nn_xreq \<Rightarrow> pid \<Rightarrow> nn_priolist_data option" where
  "xreq_lbs s p = map_option xq_lb (req_data s p)"

definition xreq_fqs :: "nn_xreq \<Rightarrow> pid \<Rightarrow> nn_priolist_data option" where
  "xreq_fqs s p = map_option xq_fq (req_data s p)"

definition xreq_inv :: "nn_xreq \<Rightarrow> bool" where
  "xreq_inv s \<longleftrightarrow> sched_ok (xreq_lbs s) (req_lb s) \<and> sched_ok (xreq_fqs s) (req_fq s)"

lemma xreq_maps [simp]:
  "xreq_lbs (s\<lparr>req_lb := l\<rparr>) = xreq_lbs s" "xreq_lbs (s\<lparr>req_fq := l\<rparr>) = xreq_lbs s"
  "xreq_fqs (s\<lparr>req_lb := l\<rparr>) = xreq_fqs s" "xreq_fqs (s\<lparr>req_fq := l\<rparr>) = xreq_fqs s"
  by (auto simp: xreq_lbs_def xreq_fqs_def)

lemma xreq_maps_upd [simp]:
  "xreq_lbs \<lparr>req_lb = lb, req_fq = fq, req_data = (req_data s)(p := d)\<rparr> = (xreq_lbs s)(p := map_option xq_lb d)"
  "xreq_fqs \<lparr>req_lb = lb, req_fq = fq, req_data = (req_data s)(p := d)\<rparr> = (xreq_fqs s)(p := map_option xq_fq d)"
  by (auto simp: xreq_lbs_def xreq_fqs_def)

definition xreq_view :: "nn_xreq sock_view" where
  "xreq_view = \<lparr>v_inv = xreq_inv, v_att = (\<lambda>s. dom (req_data s)), v_in = (\<lambda>s. pl_active (req_fq s)),
     v_out = (\<lambda>s. pl_active (req_lb s)), v_hears = True, v_room = (\<lambda>s. True), v_msgs = (\<lambda>m. True),
     v_opts = (\<lambda>s level opt val. True)\<rparr>"

lemma xreq_view_sel [simp]:
  "v_inv xreq_view = xreq_inv" "v_att xreq_view s = dom (req_data s)" "v_in xreq_view s = pl_active (req_fq s)"
  "v_out xreq_view s = pl_active (req_lb s)" "v_hears xreq_view" "v_room xreq_view s" "v_msgs xreq_view m"
  by (simp_all add: xreq_view_def)

lemma split_id_ok: "sphdr m = [] \<Longrightarrow> split_id m = Some (if length (body m) < 4 then None
    else Some (m\<lparr>sphdr := take 4 (body m), body := drop 4 (body m)\<rparr>))"
  by (simp add: split_id_def)

context transport begin

lemma xreq_send_ok:
  assumes "sock_good winv xreq_view s w"
  obtains "nn_xreq_send_to vf w s m = Some (Inl EAGAIN, s, w)" "pl_active (req_lb s) = {}"
  | c rc lb w' where "nn_xreq_send_to vf w s m = Some (Inr c, s\<lparr>req_lb := lb\<rparr>, w')" "nn_pipe_send vf w c m = Some (rc, w')"
    "c \<in> pl_active (req_lb s)" "c \<in> dom (req_data s)" "sock_good winv xreq_view (s\<lparr>req_lb := lb\<rparr>) w'"
proof -
  note g = sock_goodD [OF assms]
  have ok: "sched_ok (xreq_lbs s) (req_lb s)" and r: "\<And>p. p \<in> pl_active (req_lb s) \<Longrightarrow> can_send w p"
    using g(2,4) by (auto simp: xreq_inv_def)
  show thesis
  proof (rule sched_send [OF g(1) ok r])
    assume "pl_active (req_lb s) = {}" "nn_lb_send vf w (req_lb s) m = Some (Inl EAGAIN, req_lb s, w)"
    then show thesis by (intro that(1)) (simp_all add: nn_xreq_send_to_def)
  next
    fix c rc lb w'
    assume s: "nn_lb_send vf w (req_lb s) m = Some (Inr (rc AND NOT NN_PIPE_RELEASE, c), lb, w')"
      and ps: "nn_pipe_send vf w c m = Some (rc, w')" and c: "c \<in> pl_active (req_lb s)" and w': "winv w'" "sched_ok (xreq_lbs s) lb"
      and act: "pl_active lb = (if released rc then pl_active (req_lb s) - {c} else pl_active (req_lb s))"
      and rcv: "\<And>q. can_recv w q \<Longrightarrow> can_recv w' q" and snd: "\<And>q. q \<in> pl_active lb \<Longrightarrow> can_send w' q"
    have "pl_active lb \<subseteq> dom (req_data s)" using act g(6) by auto
    then have "sock_good winv xreq_view (s\<lparr>req_lb := lb\<rparr>) w'"
      using w' rcv snd g(2,3,5) by (intro sock_goodI) (simp_all add: xreq_inv_def)
    moreover have "c \<in> dom (req_data s)" using c g(6) by auto
    moreover have "nn_xreq_send_to vf w s m = Some (Inr c, s\<lparr>req_lb := lb\<rparr>, w')" using s by (simp add: nn_xreq_send_to_def)
    ultimately show thesis using that(2) ps c by blast
  qed
qed

end

text \<open>Receiving fails when no pipe has a message, or on a message that is too short; otherwise the
  header is the first four bytes of what came from a ready pipe.\<close>

definition xreq_raw :: "'x pipebase_vfptr \<Rightarrow> 'x world \<Rightarrow> nn_xreq \<Rightarrow> pid \<Rightarrow> sp_msg \<Rightarrow> sp_msg \<Rightarrow> 'x world \<Rightarrow> bool" where
  "xreq_raw vf w s c raw m w' \<longleftrightarrow> c \<in> pl_active (req_fq s) \<and> (\<exists>fl. nn_pipe_recv vf w c = Some (fl, raw, w') \<and>
     (if parsed fl then m = raw else body raw = sphdr m @ body m \<and> length (sphdr m) = 4))"

context framing_transport begin

lemma xreq_recv_ok:
  assumes "sock_good winv xreq_view s w"
  obtains fq w' where "nn_xreq_recv vf w s = Some (Inl EAGAIN, s\<lparr>req_fq := fq\<rparr>, w')" "sock_good winv xreq_view (s\<lparr>req_fq := fq\<rparr>) w'"
  | m fq w' c raw where "nn_xreq_recv vf w s = Some (Inr m, s\<lparr>req_fq := fq\<rparr>, w')" "sock_good winv xreq_view (s\<lparr>req_fq := fq\<rparr>) w'"
    "xreq_raw vf w s c raw m w'"
    "(\<Sum>p \<in> pl_active fq. backlog w' p) < (\<Sum>p \<in> pl_active (req_fq s). backlog w p)"
proof -
  note g = sock_goodD [OF assms]
  have ok: "sched_ok (xreq_fqs s) (req_fq s)" and r: "\<And>p. p \<in> pl_active (req_fq s) \<Longrightarrow> can_recv w p"
    using g(2,3) by (auto simp: xreq_inv_def)
  show thesis
  proof (rule sched_recv [OF g(1) ok r])
    assume "nn_fq_recv vf w (req_fq s) = Some (Inl EAGAIN, req_fq s, w)"
    then show thesis using assms by (intro that(1) [of "req_fq s" w]) (simp_all add: nn_xreq_recv_def)
  next
    fix c rc raw fq w'
    assume f: "nn_fq_recv vf w (req_fq s) = Some (Inr (rc AND NOT NN_PIPE_RELEASE, raw, c), fq, w')"
      and pr: "nn_pipe_recv vf w c = Some (rc, raw, w')" and c: "c \<in> pl_active (req_fq s)" and w': "winv w'" "sched_ok (xreq_fqs s) fq"
      and act: "pl_active fq = (if released rc then pl_active (req_fq s) - {c} else pl_active (req_fq s))"
      and snd: "\<And>q. can_send w q \<Longrightarrow> can_send w' q" and rcv: "\<And>q. q \<in> pl_active fq \<Longrightarrow> can_recv w' q"
    have sub: "pl_active fq \<subseteq> pl_active (req_fq s)" using act by auto
    then have gd: "sock_good winv xreq_view (s\<lparr>req_fq := fq\<rparr>) w'"
      using w' rcv snd g(2,4,5,6) by (intro sock_goodI) (simp_all add: xreq_inv_def subset_iff)
    note less = backlog_less [OF g(1) r [OF c] pr c sub]
    show thesis
    proof (cases "parsed rc")
      case True
      then have "nn_xreq_recv vf w s = Some (Inr raw, s\<lparr>req_fq := fq\<rparr>, w')" using f by (simp add: nn_xreq_recv_def)
      then show thesis using that(2) [of raw fq w' c raw] gd less pr c True by (simp add: xreq_raw_def)
    next
      case False
      note sp = split_id_ok [OF recv_raw [OF g(1) r [OF c] pr False]]
      show thesis
      proof (cases "length (body raw) < 4")
        case True
        then have "nn_xreq_recv vf w s = Some (Inl EAGAIN, s\<lparr>req_fq := fq\<rparr>, w')" using f False sp by (simp add: nn_xreq_recv_def)
        then show thesis using that(1) gd by blast
      next
        case big: False
        let ?m = "raw\<lparr>sphdr := take 4 (body raw), body := drop 4 (body raw)\<rparr>"
        have "nn_xreq_recv vf w s = Some (Inr ?m, s\<lparr>req_fq := fq\<rparr>, w')" using f False sp big by (simp add: nn_xreq_recv_def)
        then show thesis using that(2) [of ?m fq w' c raw] gd less pr c False big by (simp add: xreq_raw_def)
      qed
    qed
  qed
qed

end

sublocale framing_transport \<subseteq> xreq: sp_socket vf winv "nn_xreq_sockbase_vfptr vf" xreq_view nn_xreq_init
proof (unfold_locales, goal_cases)
  case (5 s w p opt)
  note g = sock_goodD [OF 5(1)]
  have "xreq_lbs s p = None" "xreq_fqs s p = None" using 5(2) by (auto simp: xreq_lbs_def xreq_fqs_def)
  then have "sched_ok ((xreq_lbs s)(p := Some (nn_lb_add p (sndprio opt)))) (req_lb s)"
    "sched_ok ((xreq_fqs s)(p := Some (nn_fq_add p (rcvprio opt)))) (req_fq s)"
    unfolding nn_fq_add_def nn_lb_add_def using g(2) 5(4) by (auto simp: xreq_inv_def opts_ok_def intro!: sched_add)
  then show ?case
    using 5(4) g(1-6)
    by (auto simp: nn_xreq_sockbase_vfptr_def nn_xreq_add_def opts_ok_def xreq_inv_def intro!: sock_goodI)
next
  case (6 s w p)
  note g = sock_goodD [OF 6(1)]
  obtain d where d: "req_data s p = Some d" using 6(2) by auto
  obtain lb where lb: "nn_lb_rm (req_lb s) (xq_lb d) = Some lb" "sched_ok ((xreq_lbs s)(p := None)) lb" "pl_active lb = pl_active (req_lb s) - {p}"
    using sched_rm [of "xreq_lbs s" "req_lb s" p "xq_lb d"] g(2) d by (auto simp: xreq_inv_def nn_lb_rm_def xreq_lbs_def)
  obtain fq where fq: "nn_fq_rm (req_fq s) (xq_fq d) = Some fq" "sched_ok ((xreq_fqs s)(p := None)) fq" "pl_active fq = pl_active (req_fq s) - {p}"
    using sched_rm [of "xreq_fqs s" "req_fq s" p "xq_fq d"] g(2) d by (auto simp: xreq_inv_def nn_fq_rm_def xreq_fqs_def)
  then show ?case
    using lb fq d g(1-6) by (auto simp: nn_xreq_sockbase_vfptr_def nn_xreq_rm_def xreq_inv_def intro!: sock_goodI)
next
  case (7 s w p)
  note g = sock_goodD [OF 7(1)]
  obtain d where d: "req_data s p = Some d" using 7(3) by auto
  obtain fq where "nn_fq_in (req_fq s) (xq_fq d) = Some fq" "sched_ok (xreq_fqs s) fq" "pl_active fq = insert p (pl_active (req_fq s))"
    using sched_activate [of "xreq_fqs s" "req_fq s" p "xq_fq d"] g(2) d 7(4) by (auto simp: xreq_inv_def nn_fq_in_def xreq_fqs_def)
  then show ?case
    using d 7(5) g(1-6) by (auto simp: nn_xreq_sockbase_vfptr_def nn_xreq_in_def xreq_inv_def intro!: sock_goodI)
next
  case (8 s w p)
  note g = sock_goodD [OF 8(1)]
  obtain d where d: "req_data s p = Some d" using 8(2) by auto
  obtain lb where "nn_lb_out (req_lb s) (xq_lb d) = Some lb" "sched_ok (xreq_lbs s) lb" "pl_active lb = insert p (pl_active (req_lb s))"
    using sched_activate [of "xreq_lbs s" "req_lb s" p "xq_lb d"] g(2) d 8(3) by (auto simp: xreq_inv_def nn_lb_out_def xreq_lbs_def)
  then show ?case
    using d 8(4) g(1-6) by (auto simp: nn_xreq_sockbase_vfptr_def nn_xreq_out_def xreq_inv_def intro!: sock_goodI)
next
  case (9 s w f m)
  have f: "f = nn_xreq_send vf" using 9(2) by (simp add: nn_xreq_sockbase_vfptr_def)
  show ?case
    by (rule xreq_send_ok [OF 9(1), of m]) (use 9(1) in \<open>auto simp: f nn_xreq_send_def\<close>)
next
  case (10 s w h)
  have h: "h = nn_xreq_recv vf" using 10(2) by (simp add: nn_xreq_sockbase_vfptr_def)
  show ?case by (rule xreq_recv_ok [OF 10(1)]) (auto simp: h)
next
  case (11 s w level nm val)
  then show ?case by (simp add: nn_xreq_sockbase_vfptr_def nn_xreq_setopt_def)
next
  case 1
  have "xreq_lbs nn_xreq_init = Map.empty" "xreq_fqs nn_xreq_init = Map.empty"
    by (auto simp: xreq_lbs_def xreq_fqs_def nn_xreq_init_def)
  then show ?case using sched_init by (simp add: xreq_inv_def nn_xreq_init_def nn_lb_init_def nn_fq_init_def)
qed (simp_all add: nn_xreq_init_def nn_lb_init_def nn_fq_init_def pl_inv_init)

end
