(* ===== verification/Nn_Timer.thy ===== *)
theory Nn_Timer
  imports Nn_Inproc
begin

text \<open>
  \<^verbatim>\<open>aio/timer.c\<close> on top of \<^verbatim>\<open>aio/fsm.c\<close>: the timers of the request and survey sockets.  The owner
  starts and stops a timer; the worker thread executes its two tasks in the order they were
  posted and reports the expiry; the owner is told \<open>NN_TIMER_TIMEOUT\<close> and \<open>NN_TIMER_STOPPED\<close>
  by events.  A timer holds what concerns it of the worker: its tasks that wait in the task
  queue, and whether its handle is in the timer set.  \<open>tm_raised\<close> are its events that wait in
  the context (\<^verbatim>\<open>aio/ctx.c\<close>), oldest first.
\<close>

section \<open>Model\<close>

datatype timer_state = TIMER_IDLE | TIMER_ACTIVE | TIMER_STOPPING

datatype timer_task = NN_TIMER_SRC_START_TASK | NN_TIMER_SRC_STOP_TASK

datatype timer_event = NN_TIMER_TIMEOUT | NN_TIMER_STOPPED

record nn_timer =
  tm_fsm :: fsm_state
  tm_state :: timer_state
  tm_timeout :: int
  tm_tasks :: "timer_task list"
  tm_armed :: bool
  tm_raised :: "timer_event list"

definition nn_timer_init :: nn_timer where
  "nn_timer_init = \<lparr>tm_fsm = FSM_IDLE, tm_state = TIMER_IDLE, tm_timeout = -1, tm_tasks = [], tm_armed = False, tm_raised = []\<rparr>"

text \<open>The timer's state machine is idle and no \<open>STOPPED\<close> event waits (\<^verbatim>\<open>nn_fsm_isidle\<close>).\<close>

definition nn_timer_isidle :: "nn_timer \<Rightarrow> bool" where
  "nn_timer_isidle self \<longleftrightarrow> tm_fsm self = FSM_IDLE \<and> NN_TIMER_STOPPED \<notin> set (tm_raised self)"

definition nn_timer_term :: "nn_timer \<Rightarrow> unit option" where
  "nn_timer_term self = do {
     nn_assert (tm_state self = TIMER_IDLE);
     nn_assert (tm_tasks self = []);
     nn_assert (\<not> tm_armed self);
     nn_assert (nn_timer_isidle self) }"

definition nn_worker_execute :: "nn_timer \<Rightarrow> timer_task \<Rightarrow> nn_timer option" where
  "nn_worker_execute self task = do {
     nn_assert (task \<notin> set (tm_tasks self));
     Some (self\<lparr>tm_tasks := tm_tasks self @ [task]\<rparr>) }"

definition nn_worker_add_timer :: "nn_timer \<Rightarrow> nn_timer option" where
  "nn_worker_add_timer self = do { nn_assert (\<not> tm_armed self); Some (self\<lparr>tm_armed := True\<rparr>) }"

definition nn_worker_rm_timer :: "nn_timer \<Rightarrow> nn_timer" where
  "nn_worker_rm_timer self = self\<lparr>tm_armed := False\<rparr>"

definition timer_raise :: "nn_timer \<Rightarrow> timer_event \<Rightarrow> nn_timer option" where
  "timer_raise self e = do {
     nn_assert (e \<notin> set (tm_raised self));
     Some (self\<lparr>tm_raised := tm_raised self @ [e]\<rparr>) }"

text \<open>What the timer's state machine is fed with.\<close>

datatype timer_input = TM_START | TM_STOP | TM_TASK timer_task | TM_EXPIRED

definition nn_timer_shutdown :: "nn_timer \<Rightarrow> timer_input \<Rightarrow> nn_timer option" where
  "nn_timer_shutdown self input =
     (if input = TM_STOP then nn_worker_execute (self\<lparr>tm_state := TIMER_STOPPING\<rparr>) NN_TIMER_SRC_STOP_TASK
      else if tm_state self = TIMER_STOPPING then
        (if input \<noteq> TM_TASK NN_TIMER_SRC_STOP_TASK then Some self
         else do {
           let self = (nn_worker_rm_timer self)\<lparr>tm_state := TIMER_IDLE\<rparr>;
           nn_assert (tm_fsm self = FSM_STOPPING);
           self \<leftarrow> timer_raise self NN_TIMER_STOPPED;
           Some (self\<lparr>tm_fsm := FSM_IDLE\<rparr>) })
      else None)"

definition nn_timer_handler :: "nn_timer \<Rightarrow> timer_input \<Rightarrow> nn_timer option" where
  "nn_timer_handler self input = (case (tm_state self, input) of
     (TIMER_IDLE, TM_START) \<Rightarrow> nn_worker_execute (self\<lparr>tm_state := TIMER_ACTIVE\<rparr>) NN_TIMER_SRC_START_TASK
   | (TIMER_ACTIVE, TM_TASK NN_TIMER_SRC_START_TASK) \<Rightarrow> do {
       nn_assert (tm_timeout self \<ge> 0);
       self \<leftarrow> nn_worker_add_timer self;
       Some (self\<lparr>tm_timeout := -1\<rparr>) }
   | (TIMER_ACTIVE, TM_EXPIRED) \<Rightarrow> do {
       nn_assert (tm_timeout self = -1);
       timer_raise self NN_TIMER_TIMEOUT }
   | _ \<Rightarrow> None)"

text \<open>\<^verbatim>\<open>nn_fsm_feed\<close>.\<close>

definition timer_feed :: "nn_timer \<Rightarrow> timer_input \<Rightarrow> nn_timer option" where
  "timer_feed self input =
     (if tm_fsm self \<noteq> FSM_STOPPING then nn_timer_handler self input else nn_timer_shutdown self input)"

definition nn_timer_start :: "nn_timer \<Rightarrow> int \<Rightarrow> nn_timer option" where
  "nn_timer_start self timeout = do {
     nn_assert (timeout \<ge> 0);
     let self = self\<lparr>tm_timeout := timeout\<rparr>;
     nn_assert (nn_timer_isidle self);
     self \<leftarrow> nn_timer_handler self TM_START;
     Some (self\<lparr>tm_fsm := FSM_ACTIVE\<rparr>) }"

definition nn_timer_stop :: "nn_timer \<Rightarrow> nn_timer option" where
  "nn_timer_stop self =
     (if tm_fsm self \<noteq> FSM_ACTIVE then Some self
      else nn_timer_shutdown (self\<lparr>tm_fsm := FSM_STOPPING\<rparr>) TM_STOP)"

text \<open>The worker thread: it executes the oldest task, or takes the expired handle from the
  timer set.\<close>

definition worker_task :: "nn_timer \<Rightarrow> nn_timer option" where
  "worker_task self = (case tm_tasks self of [] \<Rightarrow> Some self
   | task # rest \<Rightarrow> timer_feed (self\<lparr>tm_tasks := rest\<rparr>) (TM_TASK task))"

definition worker_expire :: "nn_timer \<Rightarrow> nn_timer option" where
  "worker_expire self =
     (if tm_armed self then timer_feed (self\<lparr>tm_armed := False\<rparr>) TM_EXPIRED else Some self)"

text \<open>The context hands the oldest event to the owner.\<close>

definition timer_take :: "nn_timer \<Rightarrow> (timer_event \<times> nn_timer) option" where
  "timer_take self = (case tm_raised self of [] \<Rightarrow> None
   | e # es \<Rightarrow> Some (e, self\<lparr>tm_raised := es\<rparr>))"

section \<open>Invariant\<close>

definition timer_inv :: "nn_timer \<Rightarrow> bool" where
  "timer_inv t \<longleftrightarrow> (case tm_fsm t of
     FSM_IDLE \<Rightarrow> tm_state t = TIMER_IDLE \<and> tm_tasks t = [] \<and> \<not> tm_armed t \<and>
       tm_raised t \<in> {[], [NN_TIMER_STOPPED], [NN_TIMER_TIMEOUT, NN_TIMER_STOPPED]}
   | FSM_ACTIVE \<Rightarrow> tm_state t = TIMER_ACTIVE \<and>
       (tm_tasks t = [NN_TIMER_SRC_START_TASK] \<and> 0 \<le> tm_timeout t \<and> \<not> tm_armed t \<and> tm_raised t = [] \<or>
        tm_tasks t = [] \<and> tm_timeout t = -1 \<and> (tm_raised t = [] \<or> tm_raised t = [NN_TIMER_TIMEOUT] \<and> \<not> tm_armed t))
   | FSM_STOPPING \<Rightarrow> tm_state t = TIMER_STOPPING \<and> tm_raised t \<in> {[], [NN_TIMER_TIMEOUT]} \<and>
       (tm_tasks t = [NN_TIMER_SRC_STOP_TASK] \<or>
        tm_tasks t = [NN_TIMER_SRC_START_TASK, NN_TIMER_SRC_STOP_TASK] \<and> \<not> tm_armed t))"

lemma timer_init_inv: "timer_inv nn_timer_init" "tm_fsm nn_timer_init = FSM_IDLE" "tm_raised nn_timer_init = []"
  by (simp_all add: timer_inv_def nn_timer_init_def)

lemma timer_start_ok:
  assumes "timer_inv t" "nn_timer_isidle t" "0 \<le> ms"
  shows "\<exists>t'. nn_timer_start t ms = Some t' \<and> timer_inv t' \<and> tm_fsm t' = FSM_ACTIVE \<and> tm_raised t' = []"
  using assms by (auto simp: timer_inv_def nn_timer_isidle_def nn_timer_start_def nn_timer_handler_def nn_worker_execute_def)

lemma timer_stop_ok:
  assumes "timer_inv t"
  shows "\<exists>t'. nn_timer_stop t = Some t' \<and> timer_inv t' \<and> tm_raised t' = tm_raised t \<and>
    tm_fsm t' = (if tm_fsm t = FSM_ACTIVE then FSM_STOPPING else tm_fsm t)"
  using assms by (auto simp: timer_inv_def nn_timer_stop_def nn_timer_shutdown_def nn_worker_execute_def)

lemma worker_task_ok:
  assumes "timer_inv t"
  shows "\<exists>t'. worker_task t = Some t' \<and> timer_inv t' \<and>
    (tm_fsm t' = tm_fsm t \<and> tm_raised t' = tm_raised t \<or>
     tm_fsm t = FSM_STOPPING \<and> tm_fsm t' = FSM_IDLE \<and> tm_raised t' = tm_raised t @ [NN_TIMER_STOPPED])"
proof (cases "tm_fsm t")
  case FSM_IDLE
  then show ?thesis using assms by (simp add: timer_inv_def worker_task_def)
next
  case FSM_ACTIVE
  then show ?thesis
    using assms by (auto simp: timer_inv_def worker_task_def timer_feed_def nn_timer_handler_def nn_worker_add_timer_def)
next
  case FSM_STOPPING
  then show ?thesis
    using assms by (auto simp: timer_inv_def worker_task_def timer_feed_def nn_timer_shutdown_def nn_worker_rm_timer_def timer_raise_def)
qed

lemma worker_expire_ok:
  assumes "timer_inv t"
  shows "\<exists>t'. worker_expire t = Some t' \<and> timer_inv t' \<and> tm_fsm t' = tm_fsm t \<and>
    (tm_raised t' = tm_raised t \<or> tm_fsm t = FSM_ACTIVE \<and> tm_raised t' = tm_raised t @ [NN_TIMER_TIMEOUT])"
proof (cases "tm_fsm t")
  case FSM_IDLE
  then show ?thesis using assms by (simp add: timer_inv_def worker_expire_def)
next
  case FSM_ACTIVE
  then show ?thesis
    using assms by (auto simp: timer_inv_def worker_expire_def timer_feed_def nn_timer_handler_def timer_raise_def)
next
  case FSM_STOPPING
  then show ?thesis
    using assms by (auto simp: timer_inv_def worker_expire_def timer_feed_def nn_timer_shutdown_def)
qed

lemma timer_take_ok: "timer_inv t \<Longrightarrow> timer_take t = Some (e, t') \<Longrightarrow> timer_inv t'"
  by (cases "tm_fsm t") (auto simp: timer_inv_def timer_take_def)

section \<open>Reachable timers\<close>

inductive timer_reach :: "nn_timer \<Rightarrow> bool" where
  tr_init: "timer_reach nn_timer_init"
| tr_start: "timer_reach t \<Longrightarrow> nn_timer_isidle t \<Longrightarrow> 0 \<le> ms \<Longrightarrow> nn_timer_start t ms = Some t' \<Longrightarrow> timer_reach t'"
| tr_stop: "timer_reach t \<Longrightarrow> nn_timer_stop t = Some t' \<Longrightarrow> timer_reach t'"
| tr_task: "timer_reach t \<Longrightarrow> worker_task t = Some t' \<Longrightarrow> timer_reach t'"
| tr_expire: "timer_reach t \<Longrightarrow> worker_expire t = Some t' \<Longrightarrow> timer_reach t'"
| tr_take: "timer_reach t \<Longrightarrow> timer_take t = Some (e, t') \<Longrightarrow> timer_reach t'"

lemma timer_reach_inv: "timer_reach t \<Longrightarrow> timer_inv t"
proof (induction rule: timer_reach.induct)
  case (tr_start t ms t')
  then show ?case using timer_start_ok [of t ms] by auto
next
  case (tr_stop t t')
  then show ?case using timer_stop_ok [of t] by auto
next
  case (tr_task t t')
  then show ?case using worker_task_ok [of t] by auto
next
  case (tr_expire t t')
  then show ?case using worker_expire_ok [of t] by auto
qed (auto simp: timer_init_inv timer_take_ok)



text \<open>
  Stopping a timer always comes to an end: when the worker has executed the tasks that
  wait, whether or not the timer expired meanwhile, the timer is idle and \<open>NN_TIMER_STOPPED\<close>
  is the last event the owner gets, exactly once.
\<close>

lemma nn_timer_stop_completes:
  assumes "timer_reach t" "tm_fsm t = FSM_ACTIVE" "nn_timer_stop t = Some t1"
  shows "\<exists>t2. (worker_task t1 = Some t2 \<or> (\<exists>t'. worker_task t1 = Some t' \<and> worker_task t' = Some t2)) \<and>
    tm_fsm t2 = FSM_IDLE \<and> tm_raised t2 = tm_raised t @ [NN_TIMER_STOPPED] \<and> NN_TIMER_STOPPED \<notin> set (tm_raised t)"
proof -
  have inv: "timer_inv t" using timer_reach_inv [OF assms(1)] .
  then have s: "timer_inv t1" "tm_fsm t1 = FSM_STOPPING" "tm_raised t1 = tm_raised t"
    using timer_stop_ok [OF inv] assms(2,3) by auto
  have no: "NN_TIMER_STOPPED \<notin> set (tm_raised t)" using inv assms(2) by (auto simp: timer_inv_def)
  have one: "\<exists>t2. worker_task x = Some t2 \<and> tm_fsm t2 = FSM_IDLE \<and> tm_raised t2 = tm_raised x @ [NN_TIMER_STOPPED]"
    if "timer_inv x" "tm_fsm x = FSM_STOPPING" "tm_tasks x = [NN_TIMER_SRC_STOP_TASK]" for x
    using that by (auto simp: timer_inv_def worker_task_def timer_feed_def nn_timer_shutdown_def nn_worker_rm_timer_def timer_raise_def)
  show ?thesis
  proof (cases "tm_tasks t1 = [NN_TIMER_SRC_STOP_TASK]")
    case True
    then show ?thesis using one [OF s(1,2)] s(3) no by auto
  next
    case False
    then have tk: "tm_tasks t1 = [NN_TIMER_SRC_START_TASK, NN_TIMER_SRC_STOP_TASK]" using s(1,2) by (simp add: timer_inv_def)
    then have w: "worker_task t1 = Some (t1\<lparr>tm_tasks := [NN_TIMER_SRC_STOP_TASK]\<rparr>)"
      using s(1,2) by (simp add: worker_task_def timer_feed_def nn_timer_shutdown_def timer_inv_def)
    have "timer_inv (t1\<lparr>tm_tasks := [NN_TIMER_SRC_STOP_TASK]\<rparr>)" using s(1,2) by (simp add: timer_inv_def)
    from one [OF this] obtain t2 where "worker_task (t1\<lparr>tm_tasks := [NN_TIMER_SRC_STOP_TASK]\<rparr>) = Some t2"
      "tm_fsm t2 = FSM_IDLE" "tm_raised t2 = tm_raised t @ [NN_TIMER_STOPPED]" using s(2,3) by auto
    then show ?thesis using w no by blast
  qed
qed

end
