(* ===== verification/Nn_Timed.thy ===== *)
theory Nn_Timed
  imports Nn_Timer Nn_Frames
begin

text \<open>
  Sockets with a state machine and a timer of their own.  The worker thread enters the context
  of the socket, feeds the timer, and on leaving the context the events that were raised are
  handed to the socket's state machine (\<^verbatim>\<open>nn_ctx_leave\<close>).  The locale \<open>timed_socket\<close> extends the
  contract of sockets: whatever the worker does, nothing aborts.
\<close>

text \<open>The first loop of \<^verbatim>\<open>nn_ctx_leave\<close>: events are processed until none is left.\<close>

partial_function (option) nn_ctx_leave :: "('s \<Rightarrow> ('e \<times> 's) option) \<Rightarrow> ('e \<Rightarrow> 's \<Rightarrow> 's option) \<Rightarrow> 's \<Rightarrow> 's option" where
  "nn_ctx_leave pop process s = (case pop s of None \<Rightarrow> Some s
   | Some (event, s) \<Rightarrow> do { s \<leftarrow> process event s; nn_ctx_leave pop process s })"

declare nn_ctx_leave.simps [code]

lemma nn_ctx_leave_none [simp]: "pop s = None \<Longrightarrow> nn_ctx_leave pop process s = Some s"
  by (subst nn_ctx_leave.simps) simp

lemma nn_ctx_leave_one:
  "pop s = Some (e, s1) \<Longrightarrow> process e s1 = Some s2 \<Longrightarrow> pop s2 = None \<Longrightarrow> nn_ctx_leave pop process s = Some s2"
  by (subst nn_ctx_leave.simps) simp

text \<open>The \<^verbatim>\<open>int\<close> an option value of four bytes holds, in the byte order of the machine.\<close>

definition int_option :: "bytes \<Rightarrow> int option" where
  "int_option optval = map_option sint (nn_getl (rev optval))"

lemma int_option_some: "length val = 4 \<Longrightarrow> \<exists>i. int_option val = Some i"
  by (simp add: int_option_def nn_getl_def)

text \<open>What the worker does to the timer of a socket.\<close>

datatype tick = TaskTick | ExpireTick

definition timer_tick :: "tick \<Rightarrow> nn_timer \<Rightarrow> nn_timer option" where
  "timer_tick k t = (case k of TaskTick \<Rightarrow> worker_task t | ExpireTick \<Rightarrow> worker_expire t)"

text \<open>A tick of a timer at rest: nothing for the owner, or one event.\<close>

lemma timer_tick_ok:
  assumes "timer_inv t" "tm_raised t = []"
  obtains t' where "timer_tick k t = Some t'" "timer_inv t'" "tm_fsm t' = tm_fsm t" "tm_raised t' = []"
  | t' where "timer_tick k t = Some t'" "timer_inv t'" "tm_fsm t = FSM_ACTIVE" "tm_fsm t' = FSM_ACTIVE" "tm_raised t' = [NN_TIMER_TIMEOUT]"
  | t' where "timer_tick k t = Some t'" "timer_inv t'" "tm_fsm t = FSM_STOPPING" "tm_fsm t' = FSM_IDLE" "tm_raised t' = [NN_TIMER_STOPPED]"
proof (cases k)
  case TaskTick
  then show thesis using worker_task_ok [OF assms(1)] assms(2) that by (auto simp: timer_tick_def)
next
  case ExpireTick
  then show thesis using worker_expire_ok [OF assms(1)] assms(2) that by (auto simp: timer_tick_def)
qed

text \<open>An armed timer expires, its owner stops it, and the worker carries that out.\<close>

lemma timer_expires:
  assumes "timer_inv t" "tm_fsm t = FSM_ACTIVE" "tm_armed t" "tm_raised t = []"
  obtains t1 t2 t3 where "timer_tick ExpireTick t = Some t1" "tm_raised t1 = [NN_TIMER_TIMEOUT]"
    "nn_timer_stop (t1\<lparr>tm_raised := []\<rparr>) = Some t2" "tm_raised t2 = []" "timer_tick TaskTick t2 = Some t3"
    "tm_raised t3 = [NN_TIMER_STOPPED]" "timer_inv (t3\<lparr>tm_raised := []\<rparr>)" "tm_fsm t3 = FSM_IDLE"
proof -
  have t: "tm_state t = TIMER_ACTIVE" "tm_tasks t = []" "tm_timeout t = -1"
    using assms by (auto simp: timer_inv_def)
  let ?t1 = "t\<lparr>tm_armed := False, tm_raised := [NN_TIMER_TIMEOUT]\<rparr>"
  let ?t2 = "t\<lparr>tm_armed := False, tm_fsm := FSM_STOPPING, tm_state := TIMER_STOPPING, tm_tasks := [NN_TIMER_SRC_STOP_TASK]\<rparr>"
  let ?t3 = "?t2\<lparr>tm_tasks := [], tm_state := TIMER_IDLE, tm_fsm := FSM_IDLE, tm_raised := [NN_TIMER_STOPPED]\<rparr>"
  show thesis
  proof (rule that)
    show "timer_tick ExpireTick t = Some ?t1"
      using assms(2-4) t by (simp add: timer_tick_def worker_expire_def timer_feed_def nn_timer_handler_def timer_raise_def)
    show "nn_timer_stop (?t1\<lparr>tm_raised := []\<rparr>) = Some ?t2"
      using assms(2,4) t by (simp add: nn_timer_stop_def nn_timer_shutdown_def nn_worker_execute_def)
    show "timer_tick TaskTick ?t2 = Some ?t3"
      using assms(4) t by (simp add: timer_tick_def worker_task_def timer_feed_def nn_timer_shutdown_def nn_worker_rm_timer_def timer_raise_def)
  qed (use assms(4) t in \<open>simp_all add: timer_inv_def\<close>)
qed

text \<open>A timer that is being stopped is idle after one or two tasks of the worker.\<close>

lemma timer_stopping_ticks:
  assumes "timer_inv t" "tm_fsm t = FSM_STOPPING" "tm_raised t = []"
  obtains t' where "timer_tick TaskTick t = Some t'" "tm_raised t' = [NN_TIMER_STOPPED]" "tm_fsm t' = FSM_IDLE" "timer_inv (t'\<lparr>tm_raised := []\<rparr>)"
  | t1 t' where "timer_tick TaskTick t = Some t1" "tm_raised t1 = []" "timer_tick TaskTick t1 = Some t'"
    "tm_raised t' = [NN_TIMER_STOPPED]" "tm_fsm t' = FSM_IDLE" "timer_inv (t'\<lparr>tm_raised := []\<rparr>)"
proof -
  have last: "\<exists>t'. timer_tick TaskTick t = Some t' \<and> tm_raised t' = [NN_TIMER_STOPPED] \<and> tm_fsm t' = FSM_IDLE \<and> timer_inv (t'\<lparr>tm_raised := []\<rparr>)"
    if "tm_tasks t = [NN_TIMER_SRC_STOP_TASK]" "tm_state t = TIMER_STOPPING" "tm_fsm t = FSM_STOPPING" "tm_raised t = []" for t
    using that by (simp add: timer_tick_def worker_task_def timer_feed_def nn_timer_shutdown_def nn_worker_rm_timer_def timer_raise_def timer_inv_def)
  show thesis
  proof (cases "tm_tasks t = [NN_TIMER_SRC_STOP_TASK]")
    case True
    then show thesis using last [of t] assms that(1) by (auto simp: timer_inv_def)
  next
    case False
    then have tk: "tm_tasks t = [NN_TIMER_SRC_START_TASK, NN_TIMER_SRC_STOP_TASK]" "tm_state t = TIMER_STOPPING"
      using assms by (auto simp: timer_inv_def)
    let ?t1 = "t\<lparr>tm_tasks := [NN_TIMER_SRC_STOP_TASK]\<rparr>"
    have "timer_tick TaskTick t = Some ?t1"
      using tk assms(2) by (simp add: timer_tick_def worker_task_def timer_feed_def nn_timer_shutdown_def)
    then show thesis using last [of ?t1] assms tk(2) that(2) [of ?t1] by auto
  qed
qed

inductive timed_reach ::
  "('x world \<Rightarrow> bool) \<Rightarrow> ('s, 'x) sockbase_vfptr \<Rightarrow> 's sock_view \<Rightarrow> (tick \<Rightarrow> 'x world \<Rightarrow> 's \<Rightarrow> ('s \<times> 'x world) option) \<Rightarrow>
   's \<Rightarrow> 's \<Rightarrow> 'x world \<Rightarrow> bool"
  for winv ops v tick init where
  timed_start: "winv w \<Longrightarrow> timed_reach winv ops v tick init init w"
| timed_call: "timed_reach winv ops v tick init s w \<Longrightarrow> sock_legal ops v c s w \<Longrightarrow> sock_exec ops c s w = Some (s', w') \<Longrightarrow>
    timed_reach winv ops v tick init s' w'"
| timed_transport: "timed_reach winv ops v tick init s w \<Longrightarrow> winv w' \<Longrightarrow> (\<forall>p. can_recv w p \<longrightarrow> can_recv w' p) \<Longrightarrow>
    (\<forall>p. can_send w p \<longrightarrow> can_send w' p) \<Longrightarrow> timed_reach winv ops v tick init s w'"
| timed_tick: "timed_reach winv ops v tick init s w \<Longrightarrow> tick k w s = Some (s', w') \<Longrightarrow> timed_reach winv ops v tick init s' w'"

locale timed_socket = sp_socket vf winv ops v init
  for vf :: "'x pipebase_vfptr" and winv :: "'x world \<Rightarrow> bool" and ops :: "('s, 'x) sockbase_vfptr" and v :: "'s sock_view" and init :: 's +
  fixes tick :: "tick \<Rightarrow> 'x world \<Rightarrow> 's \<Rightarrow> ('s \<times> 'x world) option"
  assumes tick_law: "sock_good winv v s w \<Longrightarrow> \<exists>s' w'. tick k w s = Some (s', w') \<and> sock_good winv v s' w'"
begin

lemma timed_good: "timed_reach winv ops v tick init s w \<Longrightarrow> sock_good winv v s w"
proof (induction rule: timed_reach.induct)
  case (timed_start w)
  then show ?case using init_ok by (simp add: sock_good_def sock_ready_def)
next
  case (timed_call s w c s' w')
  then show ?case using exec_good [of s w c] by auto
next
  case (timed_transport s w w')
  then show ?case by (auto simp: sock_good_def sock_ready_def)
next
  case (timed_tick s w k s' w')
  then show ?case using tick_law [of s w k] by auto
qed

theorem timed_never_aborts:
  assumes "timed_reach winv ops v tick init s w"
  shows "(sock_legal ops v c s w \<longrightarrow> sock_exec ops c s w \<noteq> None) \<and> tick k w s \<noteq> None"
  using exec_good [OF timed_good [OF assms], of c] tick_law [OF timed_good [OF assms], of k] by auto

end

end
