(* ===== verification/Nn_Req.thy ===== *)
theory Nn_Req
  imports Nn_Xreq Nn_Timed
begin

text \<open>
  The REQ socket, \<^verbatim>\<open>protocols/reqrep/req.c\<close> and \<^verbatim>\<open>task.c\<close>: at most one request at a time, sent again
  when no reply comes before the resend timer expires or when its pipe goes away.  The state
  machine is \<open>nn_req_handler\<close>; the timer is the one of theory \<open>Nn_Timer\<close>.
\<close>

section \<open>Model\<close>

definition NN_REQ :: int where
  "NN_REQ = 48"

definition NN_REQ_RESEND_IVL :: int where
  "NN_REQ_RESEND_IVL = 1"

definition NN_REQ_DEFAULT_RESEND_IVL :: int where
  "NN_REQ_DEFAULT_RESEND_IVL = 60000"

datatype req_state = REQ_IDLE | REQ_PASSIVE | REQ_DELAYED | REQ_ACTIVE | REQ_TIMED_OUT | REQ_CANCELLING
  | REQ_STOPPING_TIMER | REQ_DONE | REQ_STOPPING

datatype req_input = REQ_FSM_START | REQ_FSM_STOP | REQ_ACTION_IN | REQ_ACTION_OUT | REQ_ACTION_SENT
  | REQ_ACTION_RECEIVED | REQ_ACTION_PIPE_RM | REQ_RESEND_TIMER timer_event

text \<open>\<open>t_live\<close> records whether the message \<open>t_reply\<close> is initialised: \<^verbatim>\<open>nn_msg_term\<close> leaves its bytes in
  place.\<close>

record nn_task =
  t_id :: u32
  t_request :: sp_msg
  t_reply :: sp_msg
  t_live :: bool
  t_timer :: nn_timer
  t_sent_to :: "pid option"

text \<open>\<open>q_gone\<close>: \<^verbatim>\<open>nn_sockbase_stopped\<close> was called.\<close>

record nn_req =
  q_x :: nn_xreq
  q_fsm :: fsm_state
  q_state :: req_state
  q_lastid :: u32
  q_resend_ivl :: int
  q_task :: nn_task
  q_gone :: bool

definition set_task :: "nn_req \<Rightarrow> (nn_task \<Rightarrow> nn_task) \<Rightarrow> nn_req" where
  "set_task self f = self\<lparr>q_task := f (q_task self)\<rparr>"

definition nn_task_init :: "nn_task \<Rightarrow> u32 \<Rightarrow> nn_task" where
  "nn_task_init self i = self\<lparr>t_id := i\<rparr>"

definition nn_req_inprogress :: "nn_req \<Rightarrow> bool" where
  "nn_req_inprogress self \<longleftrightarrow>
     \<not> (q_state self = REQ_IDLE \<or> q_state self = REQ_PASSIVE \<or> q_state self = REQ_STOPPING)"

definition req_timer_stop :: "nn_req \<Rightarrow> nn_req option" where
  "req_timer_stop self = do {
     t \<leftarrow> nn_timer_stop (t_timer (q_task self));
     Some (set_task self (\<lambda>k. k\<lparr>t_timer := t\<rparr>)) }"

definition nn_req_action_send ::
  "'x pipebase_vfptr \<Rightarrow> 'x world \<Rightarrow> nn_req \<Rightarrow> bool \<Rightarrow> (nn_req \<times> 'x world) option" where
  "nn_req_action_send vf w self allow_delay = do {
     (rc, x, w) \<leftarrow> nn_xreq_send_to vf w (q_x self) (t_request (q_task self));
     let self = self\<lparr>q_x := x\<rparr>;
     case rc of
       Inl e \<Rightarrow> do {
         nn_assert (e = EAGAIN);
         nn_assert allow_delay;
         Some (self\<lparr>q_state := REQ_DELAYED\<rparr>, w) }
     | Inr to \<Rightarrow> do {
         t \<leftarrow> nn_timer_start (t_timer (q_task self)) (q_resend_ivl self);
         Some ((set_task self (\<lambda>k. k\<lparr>t_timer := t, t_sent_to := Some to\<rparr>))\<lparr>q_state := REQ_ACTIVE\<rparr>, w) } }"

text \<open>Leaving the active state: the timer is stopped and the pipe forgotten.\<close>

definition req_leave_active :: "nn_req \<Rightarrow> req_state \<Rightarrow> nn_req option" where
  "req_leave_active self st = do {
     self \<leftarrow> req_timer_stop self;
     Some ((set_task self (\<lambda>k. k\<lparr>t_sent_to := None\<rparr>))\<lparr>q_state := st\<rparr>) }"

definition nn_req_handler ::
  "'x pipebase_vfptr \<Rightarrow> 'x world \<Rightarrow> nn_req \<Rightarrow> req_input \<Rightarrow> (nn_req \<times> 'x world) option" where
  "nn_req_handler vf w self input = (case (q_state self, input) of
     (REQ_IDLE, REQ_FSM_START) \<Rightarrow> Some (self\<lparr>q_state := REQ_PASSIVE\<rparr>, w)
   | (REQ_PASSIVE, REQ_ACTION_SENT) \<Rightarrow> nn_req_action_send vf w self True
   | (REQ_DELAYED, REQ_ACTION_OUT) \<Rightarrow> nn_req_action_send vf w self False
   | (REQ_DELAYED, REQ_ACTION_SENT) \<Rightarrow> Some (self, w)
   | (REQ_ACTIVE, REQ_ACTION_IN) \<Rightarrow> map_option (\<lambda>s. (s, w)) (req_leave_active self REQ_STOPPING_TIMER)
   | (REQ_ACTIVE, REQ_ACTION_SENT) \<Rightarrow> map_option (\<lambda>s. (s, w)) (req_leave_active self REQ_CANCELLING)
   | (REQ_ACTIVE, REQ_ACTION_PIPE_RM) \<Rightarrow> map_option (\<lambda>s. (s, w)) (req_leave_active self REQ_TIMED_OUT)
   | (REQ_ACTIVE, REQ_RESEND_TIMER NN_TIMER_TIMEOUT) \<Rightarrow> map_option (\<lambda>s. (s, w)) (req_leave_active self REQ_TIMED_OUT)
   | (REQ_TIMED_OUT, REQ_RESEND_TIMER NN_TIMER_STOPPED) \<Rightarrow> nn_req_action_send vf w self True
   | (REQ_TIMED_OUT, REQ_ACTION_SENT) \<Rightarrow> Some (self\<lparr>q_state := REQ_CANCELLING\<rparr>, w)
   | (REQ_CANCELLING, REQ_RESEND_TIMER NN_TIMER_STOPPED) \<Rightarrow> nn_req_action_send vf w self True
   | (REQ_CANCELLING, REQ_ACTION_SENT) \<Rightarrow> Some (self, w)
   | (REQ_STOPPING_TIMER, REQ_RESEND_TIMER NN_TIMER_STOPPED) \<Rightarrow> Some (self\<lparr>q_state := REQ_DONE\<rparr>, w)
   | (REQ_STOPPING_TIMER, REQ_ACTION_SENT) \<Rightarrow> Some (self\<lparr>q_state := REQ_CANCELLING\<rparr>, w)
   | (REQ_DONE, REQ_ACTION_RECEIVED) \<Rightarrow> Some (self\<lparr>q_state := REQ_PASSIVE\<rparr>, w)
   | (REQ_DONE, REQ_ACTION_SENT) \<Rightarrow> nn_req_action_send vf w self True
   | _ \<Rightarrow> None)"

definition nn_req_shutdown :: "nn_req \<Rightarrow> req_input \<Rightarrow> nn_req option" where
  "nn_req_shutdown self input = do {
     self \<leftarrow> (if input = REQ_FSM_STOP then do {
         self \<leftarrow> req_timer_stop self;
         Some (self\<lparr>q_state := REQ_STOPPING\<rparr>) } else Some self);
     if q_state self = REQ_STOPPING then
       (if \<not> nn_timer_isidle (t_timer (q_task self)) then Some self
        else do {
          nn_assert (q_fsm self = FSM_STOPPING);
          Some (self\<lparr>q_state := REQ_IDLE, q_fsm := FSM_IDLE, q_gone := True\<rparr>) })
     else None }"

text \<open>\<^verbatim>\<open>nn_fsm_feed\<close>.\<close>

definition nn_req_feed :: "'x pipebase_vfptr \<Rightarrow> 'x world \<Rightarrow> nn_req \<Rightarrow> req_input \<Rightarrow> (nn_req \<times> 'x world) option" where
  "nn_req_feed vf w self input =
     (if q_fsm self \<noteq> FSM_STOPPING then nn_req_handler vf w self input
      else map_option (\<lambda>s. (s, w)) (nn_req_shutdown self input))"

definition nn_req_init :: "'x pipebase_vfptr \<Rightarrow> 'x world \<Rightarrow> u32 \<Rightarrow> nn_req option" where
  "nn_req_init vf w lastid = do {
     let task = \<lparr>t_id = 0, t_request = empty_msg, t_reply = empty_msg, t_live = True, t_timer = nn_timer_init, t_sent_to = None\<rparr>;
     let self = \<lparr>q_x = nn_xreq_init, q_fsm = FSM_IDLE, q_state = REQ_IDLE, q_lastid = lastid,
       q_resend_ivl = NN_REQ_DEFAULT_RESEND_IVL, q_task = nn_task_init task lastid, q_gone = False\<rparr>;
     (self, w) \<leftarrow> nn_req_handler vf w self REQ_FSM_START;
     Some (self\<lparr>q_fsm := FSM_ACTIVE\<rparr>) }"

text \<open>A message is terminated that is not initialised: the memory it refers to is released twice.\<close>

definition nn_req_term :: "nn_req \<Rightarrow> unit option" where
  "nn_req_term self = do {
     nn_timer_term (t_timer (q_task self));
     nn_assert (t_live (q_task self));
     nn_assert (q_fsm self = FSM_IDLE);
     nn_xreq_term (q_x self) }"

definition nn_req_stop :: "nn_req \<Rightarrow> nn_req option" where
  "nn_req_stop self =
     (if q_fsm self \<noteq> FSM_ACTIVE then Some self
      else nn_req_shutdown (self\<lparr>q_fsm := FSM_STOPPING\<rparr>) REQ_FSM_STOP)"

text \<open>The loop of \<^verbatim>\<open>nn_req_in\<close>; every reply is received into the task, over whatever is there.\<close>

partial_function (option) req_in_loop ::
  "'x pipebase_vfptr \<Rightarrow> 'x world \<Rightarrow> nn_req \<Rightarrow> (nn_req \<times> 'x world) option" where
  "req_in_loop vf w self = do {
     (rc, x, w) \<leftarrow> nn_xreq_recv vf w (q_x self);
     let self = self\<lparr>q_x := x\<rparr>;
     case rc of
       Inl e \<Rightarrow> do { nn_assert (e = EAGAIN); Some (self, w) }
     | Inr reply \<Rightarrow> do {
         let self = set_task self (\<lambda>k. k\<lparr>t_reply := reply, t_live := True\<rparr>);
         let drop_it = set_task self (\<lambda>k. k\<lparr>t_live := False\<rparr>);
         if \<not> nn_req_inprogress self then req_in_loop vf w drop_it
         else if length (sphdr reply) \<noteq> 4 then req_in_loop vf w drop_it
         else do {
           reqid \<leftarrow> nn_getl (sphdr reply);
           if reqid AND 0x80000000 = 0 then req_in_loop vf w drop_it
           else if reqid \<noteq> t_id (q_task self) OR 0x80000000 then req_in_loop vf w drop_it
           else do {
             let self = set_task self (\<lambda>k. k\<lparr>t_reply := reply\<lparr>sphdr := []\<rparr>\<rparr>);
             if q_state self = REQ_ACTIVE then nn_req_feed vf w self REQ_ACTION_IN
             else Some (self, w) } } } }"

declare req_in_loop.simps [code]

definition nn_req_in :: "'x pipebase_vfptr \<Rightarrow> 'x world \<Rightarrow> nn_req \<Rightarrow> pid \<Rightarrow> (nn_req \<times> 'x world) option" where
  "nn_req_in vf w self p = do {
     (x, w) \<leftarrow> nn_xreq_in w (q_x self) p;
     req_in_loop vf w (self\<lparr>q_x := x\<rparr>) }"

definition nn_req_out :: "'x pipebase_vfptr \<Rightarrow> 'x world \<Rightarrow> nn_req \<Rightarrow> pid \<Rightarrow> (nn_req \<times> 'x world) option" where
  "nn_req_out vf w self p = do {
     (x, w) \<leftarrow> nn_xreq_out w (q_x self) p;
     let self = self\<lparr>q_x := x\<rparr>;
     if q_state self = REQ_DELAYED then nn_req_feed vf w self REQ_ACTION_OUT else Some (self, w) }"

definition nn_req_events :: "nn_req \<Rightarrow> u32" where
  "nn_req_events self = NN_SOCKBASE_EVENT_OUT OR (if q_state self = REQ_DONE then NN_SOCKBASE_EVENT_IN else 0)"

definition nn_req_csend ::
  "'x pipebase_vfptr \<Rightarrow> 'x world \<Rightarrow> nn_req \<Rightarrow> sp_msg \<Rightarrow> (unit rc \<times> nn_req \<times> 'x world) option" where
  "nn_req_csend vf w self msg = do {
     let self = set_task self (\<lambda>k. k\<lparr>t_id := t_id k + 1\<rparr>);
     nn_assert (length (sphdr msg) = 0);
     hdr \<leftarrow> nn_putl (replicate 4 0) (t_id (q_task self) OR 0x80000000);
     let self = set_task self (\<lambda>k. k\<lparr>t_request := msg\<lparr>sphdr := hdr\<rparr>\<rparr>);
     (self, w) \<leftarrow> nn_req_feed vf w self REQ_ACTION_SENT;
     Some (Inr (), self, w) }"

definition nn_req_crecv ::
  "'x pipebase_vfptr \<Rightarrow> 'x world \<Rightarrow> nn_req \<Rightarrow> (sp_msg rc \<times> nn_req \<times> 'x world) option" where
  "nn_req_crecv vf w self =
     (if \<not> nn_req_inprogress self then Some (Inl EFSM, self, w)
      else if q_state self \<noteq> REQ_DONE then Some (Inl EAGAIN, self, w)
      else do {
        let msg = t_reply (q_task self);
        let self = set_task self (\<lambda>k. k\<lparr>t_reply := empty_msg, t_live := True\<rparr>);
        (self, w) \<leftarrow> nn_req_feed vf w self REQ_ACTION_RECEIVED;
        Some (Inr msg, self, w) })"

definition nn_req_rm :: "'x pipebase_vfptr \<Rightarrow> 'x world \<Rightarrow> nn_req \<Rightarrow> pid \<Rightarrow> (nn_req \<times> 'x world) option" where
  "nn_req_rm vf w self p = do {
     (x, w) \<leftarrow> nn_xreq_rm w (q_x self) p;
     let self = self\<lparr>q_x := x\<rparr>;
     if t_sent_to (q_task self) = Some p then nn_req_feed vf w self REQ_ACTION_PIPE_RM else Some (self, w) }"

definition nn_req_setopt :: "nn_req \<Rightarrow> int \<Rightarrow> int \<Rightarrow> bytes \<Rightarrow> (unit rc \<times> nn_req) option" where
  "nn_req_setopt self level opt optval =
     (if level \<noteq> NN_REQ then Some (Inl ENOPROTOOPT, self)
      else if opt = NN_REQ_RESEND_IVL then
        (if length optval \<noteq> 4 then Some (Inl EINVAL, self)
         else do { ivl \<leftarrow> int_option optval; Some (Inr (), self\<lparr>q_resend_ivl := ivl\<rparr>) })
      else Some (Inl ENOPROTOOPT, self))"

definition nn_req_getopt :: "nn_req \<Rightarrow> int \<Rightarrow> int \<Rightarrow> nat \<Rightarrow> int rc" where
  "nn_req_getopt self level opt optvallen =
     (if level \<noteq> NN_REQ then Inl ENOPROTOOPT
      else if opt = NN_REQ_RESEND_IVL then (if optvallen < 4 then Inl EINVAL else Inr (q_resend_ivl self))
      else Inl ENOPROTOOPT)"

definition nn_req_sockbase_vfptr :: "'x pipebase_vfptr \<Rightarrow> (nn_req, 'x) sockbase_vfptr" where
  "nn_req_sockbase_vfptr vf = \<lparr>
     sk_add = (\<lambda>s p opt. map_option (map_prod id (\<lambda>x. s\<lparr>q_x := x\<rparr>)) (nn_xreq_add (q_x s) p opt)),
     sk_rm = nn_req_rm vf, sk_in = nn_req_in vf, sk_out = nn_req_out vf, sk_events = nn_req_events,
     sk_send = Some (nn_req_csend vf), sk_recv = Some (nn_req_crecv vf), sk_setopt = nn_req_setopt\<rparr>"

text \<open>The worker thread works on the timer, then the events are processed.\<close>

definition req_pop :: "nn_req \<times> 'x world \<Rightarrow> (timer_event \<times> nn_req \<times> 'x world) option" where
  "req_pop sw = map_option (\<lambda>(e, t). (e, set_task (fst sw) (\<lambda>k. k\<lparr>t_timer := t\<rparr>), snd sw))
     (timer_take (t_timer (q_task (fst sw))))"

definition nn_req_tick :: "'x pipebase_vfptr \<Rightarrow> tick \<Rightarrow> 'x world \<Rightarrow> nn_req \<Rightarrow> (nn_req \<times> 'x world) option" where
  "nn_req_tick vf k w self = do {
     t \<leftarrow> timer_tick k (t_timer (q_task self));
     nn_ctx_leave req_pop (\<lambda>e (s, w). nn_req_feed vf w s (REQ_RESEND_TIMER e))
       (set_task self (\<lambda>k. k\<lparr>t_timer := t\<rparr>), w) }"

section \<open>Contract\<close>

text \<open>The state machine and the timer go together.\<close>

definition req_timer_state :: "req_state \<Rightarrow> fsm_state \<Rightarrow> bool" where
  "req_timer_state st f \<longleftrightarrow> (case st of
     REQ_PASSIVE \<Rightarrow> f = FSM_IDLE | REQ_DELAYED \<Rightarrow> f = FSM_IDLE | REQ_DONE \<Rightarrow> f = FSM_IDLE
   | REQ_ACTIVE \<Rightarrow> f = FSM_ACTIVE
   | REQ_TIMED_OUT \<Rightarrow> f = FSM_STOPPING | REQ_CANCELLING \<Rightarrow> f = FSM_STOPPING | REQ_STOPPING_TIMER \<Rightarrow> f = FSM_STOPPING
   | REQ_IDLE \<Rightarrow> False | REQ_STOPPING \<Rightarrow> False)"

definition req_core :: "nn_req \<Rightarrow> bool" where
  "req_core s \<longleftrightarrow> q_fsm s = FSM_ACTIVE \<and> 0 \<le> q_resend_ivl s \<and> timer_inv (t_timer (q_task s)) \<and>
     tm_raised (t_timer (q_task s)) = [] \<and> req_timer_state (q_state s) (tm_fsm (t_timer (q_task s))) \<and>
     (t_sent_to (q_task s) \<noteq> None \<longleftrightarrow> q_state s = REQ_ACTIVE)"

definition req_inv :: "nn_req \<Rightarrow> bool" where
  "req_inv s \<longleftrightarrow> xreq_inv (q_x s) \<and> req_core s \<and> (q_state s = REQ_DELAYED \<longrightarrow> pl_active (req_lb (q_x s)) = {})"

definition req_opts :: "nn_req \<Rightarrow> int \<Rightarrow> int \<Rightarrow> bytes \<Rightarrow> bool" where
  "req_opts s level opt val \<longleftrightarrow> (\<forall>i. int_option val = Some i \<longrightarrow> 0 \<le> i)"

definition req_view :: "nn_req sock_view" where
  "req_view = \<lparr>v_inv = req_inv, v_att = (\<lambda>s. dom (req_data (q_x s))), v_in = (\<lambda>s. pl_active (req_fq (q_x s))),
     v_out = (\<lambda>s. pl_active (req_lb (q_x s))), v_hears = True, v_room = (\<lambda>s. True), v_msgs = (\<lambda>m. sphdr m = []),
     v_opts = req_opts\<rparr>"

lemma req_view_sel [simp]:
  "v_inv req_view = req_inv" "v_att req_view s = dom (req_data (q_x s))" "v_in req_view s = pl_active (req_fq (q_x s))"
  "v_out req_view s = pl_active (req_lb (q_x s))" "v_hears req_view" "v_room req_view s" "v_msgs req_view m \<longleftrightarrow> sphdr m = []"
  "v_opts req_view = req_opts"
  by (simp_all add: req_view_def)

lemma req_good: "sock_good winv req_view s w \<longleftrightarrow> sock_good winv xreq_view (q_x s) w \<and> req_core s \<and>
    (q_state s = REQ_DELAYED \<longrightarrow> pl_active (req_lb (q_x s)) = {})"
  by (auto simp: sock_good_def sock_ready_def req_inv_def)

lemma set_task_sel [simp]:
  "q_x (set_task s f) = q_x s" "q_fsm (set_task s f) = q_fsm s" "q_state (set_task s f) = q_state s"
  "q_resend_ivl (set_task s f) = q_resend_ivl s" "q_task (set_task s f) = f (q_task s)" "q_gone (set_task s f) = q_gone s"
  by (simp_all add: set_task_def)

lemma req_core_state:
  "req_core s \<Longrightarrow> q_state s \<in> {REQ_PASSIVE, REQ_DELAYED, REQ_DONE} \<Longrightarrow> nn_timer_isidle (t_timer (q_task s))"
  by (auto simp: req_core_def req_timer_state_def nn_timer_isidle_def)

lemma leave_active_ok:
  assumes "req_core s" "q_state s = REQ_ACTIVE" "st \<in> {REQ_TIMED_OUT, REQ_CANCELLING, REQ_STOPPING_TIMER}"
  shows "\<exists>t. req_leave_active s st = Some ((set_task s (\<lambda>k. k\<lparr>t_timer := t, t_sent_to := None\<rparr>))\<lparr>q_state := st\<rparr>) \<and>
    req_core ((set_task s (\<lambda>k. k\<lparr>t_timer := t, t_sent_to := None\<rparr>))\<lparr>q_state := st\<rparr>)"
proof -
  have c: "timer_inv (t_timer (q_task s))" "tm_fsm (t_timer (q_task s)) = FSM_ACTIVE" "tm_raised (t_timer (q_task s)) = []"
    using assms(1,2) by (auto simp: req_core_def req_timer_state_def)
  obtain t where t: "nn_timer_stop (t_timer (q_task s)) = Some t" "timer_inv t" "tm_raised t = []" "tm_fsm t = FSM_STOPPING"
    using timer_stop_ok [OF c(1)] c(2,3) by auto
  have "req_leave_active s st = Some ((set_task s (\<lambda>k. k\<lparr>t_timer := t, t_sent_to := None\<rparr>))\<lparr>q_state := st\<rparr>)"
    using t(1) by (simp add: req_leave_active_def req_timer_stop_def set_task_def)
  then show ?thesis using t assms by (auto simp: req_core_def req_timer_state_def)
qed

lemma req_tick_event:
  assumes "timer_tick k (t_timer (q_task s)) = Some t" "tm_raised t = [e]"
    "nn_req_feed vf w (set_task s (\<lambda>k. k\<lparr>t_timer := t\<lparr>tm_raised := []\<rparr>\<rparr>)) (REQ_RESEND_TIMER e) = Some (s2, w2)"
    "tm_raised (t_timer (q_task s2)) = []"
  shows "nn_req_tick vf k w s = Some (s2, w2)"
proof -
  let ?s0 = "set_task s (\<lambda>k. k\<lparr>t_timer := t\<rparr>)" and ?s1 = "set_task s (\<lambda>k. k\<lparr>t_timer := t\<lparr>tm_raised := []\<rparr>\<rparr>)"
  have "set_task ?s0 (\<lambda>k. k\<lparr>t_timer := t\<lparr>tm_raised := []\<rparr>\<rparr>) = ?s1" by (simp add: set_task_def)
  then have "req_pop (?s0, w) = Some (e, ?s1, w)" using assms(2) by (simp add: req_pop_def timer_take_def)
  moreover have "req_pop (s2, w2) = None" using assms(4) by (simp add: req_pop_def timer_take_def)
  ultimately have "nn_ctx_leave req_pop (\<lambda>e (s, w). nn_req_feed vf w s (REQ_RESEND_TIMER e)) (?s0, w) = Some (s2, w2)"
    by (intro nn_ctx_leave_one) (auto simp: assms(3))
  then show ?thesis using assms(1) by (simp add: nn_req_tick_def)
qed

text \<open>What sending the stored request does: it is put on a ready pipe and the timer started, or
  the socket waits for a pipe.\<close>

definition req_sent :: "'x pipebase_vfptr \<Rightarrow> nn_req \<Rightarrow> 'x world \<Rightarrow> nn_req \<Rightarrow> 'x world \<Rightarrow> bool" where
  "req_sent vf s w s' w' \<longleftrightarrow> t_id (q_task s') = t_id (q_task s) \<and> t_request (q_task s') = t_request (q_task s) \<and>
     t_reply (q_task s') = t_reply (q_task s) \<and>
     (if pl_active (req_lb (q_x s)) = {} then q_state s' = REQ_DELAYED \<and> w' = w
      else q_state s' = REQ_ACTIVE \<and> (\<exists>c rc. t_sent_to (q_task s') = Some c \<and> c \<in> pl_active (req_lb (q_x s)) \<and>
        nn_pipe_send vf w c (t_request (q_task s)) = Some (rc, w')))"

context framing_transport begin

lemma action_send_ok:
  assumes g: "sock_good winv xreq_view (q_x s) w" and t: "timer_inv (t_timer (q_task s))" "tm_fsm (t_timer (q_task s)) = FSM_IDLE"
    "tm_raised (t_timer (q_task s)) = []" and c: "q_fsm s = FSM_ACTIVE" "0 \<le> q_resend_ivl s" "t_sent_to (q_task s) = None"
    and d: "allow \<or> pl_active (req_lb (q_x s)) \<noteq> {}"
  shows "\<exists>s' w'. nn_req_action_send vf w s allow = Some (s', w') \<and> sock_good winv req_view s' w' \<and> req_sent vf s w s' w'"
proof (rule xreq_send_ok [OF g, of "t_request (q_task s)"])
  assume x: "nn_xreq_send_to vf w (q_x s) (t_request (q_task s)) = Some (Inl EAGAIN, q_x s, w)" "pl_active (req_lb (q_x s)) = {}"
  then have "nn_req_action_send vf w s allow = Some (s\<lparr>q_state := REQ_DELAYED\<rparr>, w)"
    using d by (simp add: nn_req_action_send_def)
  then show ?thesis using g t c x(2) by (auto simp: req_good req_core_def req_timer_state_def req_sent_def)
next
  fix k rc lb w'
  assume x: "nn_xreq_send_to vf w (q_x s) (t_request (q_task s)) = Some (Inr k, q_x s\<lparr>req_lb := lb\<rparr>, w')"
    "nn_pipe_send vf w k (t_request (q_task s)) = Some (rc, w')" "k \<in> pl_active (req_lb (q_x s))"
    "sock_good winv xreq_view (q_x s\<lparr>req_lb := lb\<rparr>) w'"
  obtain t' where t': "nn_timer_start (t_timer (q_task s)) (q_resend_ivl s) = Some t'" "timer_inv t'" "tm_fsm t' = FSM_ACTIVE" "tm_raised t' = []"
    using timer_start_ok [OF t(1) _ c(2)] t(2,3) by (auto simp: nn_timer_isidle_def)
  let ?s = "(set_task (s\<lparr>q_x := q_x s\<lparr>req_lb := lb\<rparr>\<rparr>) (\<lambda>j. j\<lparr>t_timer := t', t_sent_to := Some k\<rparr>))\<lparr>q_state := REQ_ACTIVE\<rparr>"
  have "nn_req_action_send vf w s allow = Some (?s, w')" using x(1) t'(1) by (simp add: nn_req_action_send_def)
  moreover have "sock_good winv req_view ?s w'" using x(4) t' c by (simp add: req_good req_core_def req_timer_state_def)
  moreover have "req_sent vf s w ?s w'" using x(2,3) by (auto simp: req_sent_def)
  ultimately show ?thesis by blast
qed

text \<open>A new request, in any state.\<close>

lemma feed_sent_ok:
  assumes "sock_good winv req_view s w"
  shows "\<exists>s' w'. nn_req_feed vf w s REQ_ACTION_SENT = Some (s', w') \<and> sock_good winv req_view s' w'"
proof -
  have g: "sock_good winv xreq_view (q_x s) w" "req_core s" "q_state s = REQ_DELAYED \<longrightarrow> pl_active (req_lb (q_x s)) = {}"
    using assms by (auto simp: req_good)
  have f: "nn_req_feed vf w s REQ_ACTION_SENT = nn_req_handler vf w s REQ_ACTION_SENT"
    using g(2) by (simp add: nn_req_feed_def req_core_def)
  consider "q_state s = REQ_PASSIVE \<or> q_state s = REQ_DONE" | "q_state s = REQ_ACTIVE" | "q_state s = REQ_DELAYED \<or> q_state s = REQ_CANCELLING"
    | "q_state s = REQ_TIMED_OUT \<or> q_state s = REQ_STOPPING_TIMER"
    using g(2) by (cases "q_state s") (auto simp: req_core_def req_timer_state_def)
  then show ?thesis
  proof cases
    case 1
    then have "\<exists>s' w'. nn_req_action_send vf w s True = Some (s', w') \<and> sock_good winv req_view s' w' \<and> req_sent vf s w s' w'"
      using g(2) by (intro action_send_ok [OF g(1)]) (auto simp: req_core_def req_timer_state_def)
    then show ?thesis using 1 unfolding f by (auto simp: nn_req_handler_def)
  next
    case 2
    then show ?thesis using leave_active_ok [OF g(2), of REQ_CANCELLING] g(1) unfolding f by (auto simp: nn_req_handler_def req_good)
  next
    case 3
    then show ?thesis using assms unfolding f by (auto simp: nn_req_handler_def)
  next
    case 4
    then show ?thesis using g unfolding f by (auto simp: nn_req_handler_def req_good req_core_def req_timer_state_def)
  qed
qed

text \<open>The events of the timer, with the timer as it is after the event was taken.\<close>

lemma feed_timer_ok:
  assumes g: "sock_good winv xreq_view (q_x s) w" and c: "q_fsm s = FSM_ACTIVE" "0 \<le> q_resend_ivl s"
    "timer_inv (t_timer (q_task s))" "tm_raised (t_timer (q_task s)) = []" "t_sent_to (q_task s) \<noteq> None \<longleftrightarrow> q_state s = REQ_ACTIVE"
    and e: "e = NN_TIMER_TIMEOUT \<and> q_state s = REQ_ACTIVE \<and> tm_fsm (t_timer (q_task s)) = FSM_ACTIVE \<or>
      e = NN_TIMER_STOPPED \<and> q_state s \<in> {REQ_TIMED_OUT, REQ_CANCELLING, REQ_STOPPING_TIMER} \<and> tm_fsm (t_timer (q_task s)) = FSM_IDLE"
  shows "\<exists>s' w'. nn_req_feed vf w s (REQ_RESEND_TIMER e) = Some (s', w') \<and> sock_good winv req_view s' w'"
  using e
proof (elim disjE conjE)
  assume e: "e = NN_TIMER_TIMEOUT" "q_state s = REQ_ACTIVE" "tm_fsm (t_timer (q_task s)) = FSM_ACTIVE"
  then have "req_core s" using c by (simp add: req_core_def req_timer_state_def)
  then show ?thesis using leave_active_ok [of s REQ_TIMED_OUT] e g c(1) by (auto simp: nn_req_feed_def nn_req_handler_def req_good)
next
  assume e: "e = NN_TIMER_STOPPED" "q_state s \<in> {REQ_TIMED_OUT, REQ_CANCELLING, REQ_STOPPING_TIMER}" "tm_fsm (t_timer (q_task s)) = FSM_IDLE"
  show ?thesis
  proof (cases "q_state s = REQ_STOPPING_TIMER")
    case True
    then show ?thesis using e g c by (auto simp: nn_req_feed_def nn_req_handler_def req_good req_core_def req_timer_state_def)
  next
    case False
    have "\<exists>s' w'. nn_req_action_send vf w s True = Some (s', w') \<and> sock_good winv req_view s' w' \<and> req_sent vf s w s' w'"
      using e(2,3) c by (intro action_send_ok [OF g]) auto
    then show ?thesis using e(1,2) False c(1) by (auto simp: nn_req_feed_def nn_req_handler_def)
  qed
qed

lemma req_tick_ok:
  assumes "sock_good winv req_view s w"
  shows "\<exists>s' w'. nn_req_tick vf k w s = Some (s', w') \<and> sock_good winv req_view s' w'"
proof -
  have g: "sock_good winv xreq_view (q_x s) w" "req_core s" "q_state s = REQ_DELAYED \<longrightarrow> pl_active (req_lb (q_x s)) = {}"
    using assms by (auto simp: req_good)
  let ?t = "t_timer (q_task s)"
  have c: "timer_inv ?t" "tm_raised ?t = []" using g(2) by (auto simp: req_core_def)
  have one: ?thesis
    if t': "timer_tick k ?t = Some t'" "tm_raised t' = [e]" "timer_inv t'"
      and e: "e = NN_TIMER_TIMEOUT \<and> q_state s = REQ_ACTIVE \<and> tm_fsm t' = FSM_ACTIVE \<or>
        e = NN_TIMER_STOPPED \<and> q_state s \<in> {REQ_TIMED_OUT, REQ_CANCELLING, REQ_STOPPING_TIMER} \<and> tm_fsm t' = FSM_IDLE" for t' e
  proof -
    let ?s1 = "set_task s (\<lambda>k. k\<lparr>t_timer := t'\<lparr>tm_raised := []\<rparr>\<rparr>)"
    have "timer_inv (t'\<lparr>tm_raised := []\<rparr>)" using timer_take_ok [OF t'(3), of e] t'(2) by (simp add: timer_take_def)
    then obtain s2 w2 where s2: "nn_req_feed vf w ?s1 (REQ_RESEND_TIMER e) = Some (s2, w2)" "sock_good winv req_view s2 w2"
      using feed_timer_ok [of ?s1 w e] g(1,2) e by (auto simp: req_core_def)
    then have "nn_req_tick vf k w s = Some (s2, w2)"
      by (intro req_tick_event [OF t'(1,2) s2(1)]) (simp add: req_good req_core_def)
    then show ?thesis using s2(2) by blast
  qed
  show ?thesis
  proof (rule timer_tick_ok [OF c, of k])
    fix t' assume t': "timer_tick k ?t = Some t'" "timer_inv t'" "tm_fsm t' = tm_fsm ?t" "tm_raised t' = []"
    have "nn_req_tick vf k w s = Some (set_task s (\<lambda>k. k\<lparr>t_timer := t'\<rparr>), w)"
      using t'(1,4) by (simp add: nn_req_tick_def req_pop_def timer_take_def)
    then show ?thesis using g t' by (auto simp: req_good req_core_def)
  next
    fix t' assume t': "timer_tick k ?t = Some t'" "timer_inv t'" "tm_fsm ?t = FSM_ACTIVE" "tm_fsm t' = FSM_ACTIVE" "tm_raised t' = [NN_TIMER_TIMEOUT]"
    have "q_state s = REQ_ACTIVE" using g(2) t'(3) by (cases "q_state s") (auto simp: req_core_def req_timer_state_def)
    then show ?thesis using one [OF t'(1,5,2)] t'(4) by simp
  next
    fix t' assume t': "timer_tick k ?t = Some t'" "timer_inv t'" "tm_fsm ?t = FSM_STOPPING" "tm_fsm t' = FSM_IDLE" "tm_raised t' = [NN_TIMER_STOPPED]"
    have "q_state s \<in> {REQ_TIMED_OUT, REQ_CANCELLING, REQ_STOPPING_TIMER}"
      using g(2) t'(3) by (cases "q_state s") (auto simp: req_core_def req_timer_state_def)
    then show ?thesis using one [OF t'(1,5,2)] t'(4) by simp
  qed
qed

end

lemma xreq_rm_lb:
  assumes "nn_xreq_rm w x p = Some (x', w')" "sock_good winv xreq_view x w" "pl_active (req_lb x) = {}"
  shows "pl_active (req_lb x') = {}"
proof -
  obtain d lb where d: "req_data x p = Some d" "nn_lb_rm (req_lb x) (xq_lb d) = Some lb" "req_lb x' = lb"
    using assms(1) by (auto simp: nn_xreq_rm_def split: bind_splits)
  have "sched_ok (xreq_lbs x) (req_lb x)" using sock_goodD(2) [OF assms(2)] by (simp add: xreq_inv_def)
  then show ?thesis using sched_rm [of "xreq_lbs x" "req_lb x" p "xq_lb d"] d assms(3) by (auto simp: xreq_lbs_def nn_lb_rm_def)
qed

lemma xreq_out_lb:
  assumes "sock_good winv xreq_view x w" "nn_xreq_out w x p = Some (x', w')" "p \<notin> pl_active (req_lb x)"
  shows "pl_active (req_lb x') = insert p (pl_active (req_lb x))"
proof -
  obtain d lb where d: "req_data x p = Some d" "nn_lb_out (req_lb x) (xq_lb d) = Some lb" "req_lb x' = lb"
    using assms(2) by (auto simp: nn_xreq_out_def split: bind_splits)
  have "sched_ok (xreq_lbs x) (req_lb x)" using sock_goodD(2) [OF assms(1)] by (simp add: xreq_inv_def)
  then show ?thesis using sched_activate [of "xreq_lbs x" "req_lb x" p "xq_lb d"] d assms(3) by (auto simp: xreq_lbs_def nn_lb_out_def)
qed

section \<open>Receiving replies\<close>

text \<open>A reply to the current request.\<close>

definition req_match :: "nn_req \<Rightarrow> sp_msg \<Rightarrow> bool" where
  "req_match s m \<longleftrightarrow> nn_req_inprogress s \<and> sphdr m = be32 (t_id (q_task s) OR 0x80000000)"

text \<open>A run of receives on the raw socket: the messages taken, in order.\<close>

inductive xreq_run :: "'x pipebase_vfptr \<Rightarrow> 'x world \<Rightarrow> nn_xreq \<Rightarrow> sp_msg list \<Rightarrow> 'x world \<Rightarrow> nn_xreq \<Rightarrow> bool" for vf where
  xrun_nil: "xreq_run vf w x [] w x"
| xrun_cons: "nn_xreq_recv vf w x = Some (Inr m, x1, w1) \<Longrightarrow> xreq_run vf w1 x1 ms w2 x2 \<Longrightarrow> xreq_run vf w x (m # ms) w2 x2"

lemma high_bit: "((v :: u32) OR 0x80000000) AND 0x80000000 \<noteq> 0"
proof -
  have "bit ((v OR 0x80000000) AND (0x80000000 :: u32)) 31" by (simp add: bit_simps)
  then show ?thesis by auto
qed

text \<open>One turn of the loop.\<close>

lemma req_in_loop_stale:
  assumes "nn_xreq_recv vf w (q_x s) = Some (Inr m, x, w1)" "\<not> req_match s m"
  shows "req_in_loop vf w s = req_in_loop vf w1 (set_task (s\<lparr>q_x := x\<rparr>) (\<lambda>k. k\<lparr>t_reply := m, t_live := False\<rparr>))"
proof -
  let ?d = "set_task (s\<lparr>q_x := x\<rparr>) (\<lambda>k. k\<lparr>t_reply := m, t_live := False\<rparr>)"
  have d: "set_task (set_task (s\<lparr>q_x := x\<rparr>) (\<lambda>k. k\<lparr>t_reply := m, t_live := True\<rparr>)) (\<lambda>k. k\<lparr>t_live := False\<rparr>) = ?d"
    by (simp add: set_task_def)
  show ?thesis
  proof (cases "nn_req_inprogress s \<and> length (sphdr m) = 4")
    case False
    then show ?thesis using assms(1) by (subst req_in_loop.simps) (auto simp: Let_def d nn_req_inprogress_def)
  next
    case True
    then obtain v where v: "nn_getl (sphdr m) = Some v" by (simp add: nn_getl_def)
    then have "v \<noteq> t_id (q_task s) OR 0x80000000" using assms(2) True getl_exact by (auto simp: req_match_def)
    then show ?thesis using assms(1) True v by (subst req_in_loop.simps) (auto simp: Let_def d nn_req_inprogress_def)
  qed
qed

lemma req_in_loop_match:
  assumes "nn_xreq_recv vf w (q_x s) = Some (Inr m, x, w1)" "req_match s m"
  shows "req_in_loop vf w s =
    (let s1 = set_task (s\<lparr>q_x := x\<rparr>) (\<lambda>k. k\<lparr>t_reply := m\<lparr>sphdr := []\<rparr>, t_live := True\<rparr>)
     in if q_state s = REQ_ACTIVE then nn_req_feed vf w1 s1 REQ_ACTION_IN else Some (s1, w1))"
proof -
  have h: "sphdr m = be32 (t_id (q_task s) OR 0x80000000)" "nn_req_inprogress s" using assms(2) by (simp_all add: req_match_def)
  have d: "set_task (set_task (s\<lparr>q_x := x\<rparr>) (\<lambda>k. k\<lparr>t_reply := m, t_live := True\<rparr>)) (\<lambda>k. k\<lparr>t_reply := m\<lparr>sphdr := []\<rparr>\<rparr>) =
      set_task (s\<lparr>q_x := x\<rparr>) (\<lambda>k. k\<lparr>t_reply := m\<lparr>sphdr := []\<rparr>, t_live := True\<rparr>)"
    by (simp add: set_task_def)
  show ?thesis
    using assms(1) h high_bit by (subst req_in_loop.simps) (simp add: Let_def nn_getl_be32' d nn_req_inprogress_def)
qed

text \<open>What a run of the loop comes to.\<close>

definition req_in_result :: "'x pipebase_vfptr \<Rightarrow> nn_req \<Rightarrow> 'x world \<Rightarrow> nn_xreq \<Rightarrow> nn_req \<Rightarrow> 'x world \<Rightarrow> bool" where
  "req_in_result vf s w1 x1 s' w' \<longleftrightarrow> t_id (q_task s') = t_id (q_task s) \<and> t_request (q_task s') = t_request (q_task s) \<and>
     ((\<exists>x2. nn_xreq_recv vf w1 x1 = Some (Inl EAGAIN, x2, w') \<and> q_state s' = q_state s) \<or>
      (\<exists>m x2. nn_xreq_recv vf w1 x1 = Some (Inr m, x2, w') \<and> req_match s m \<and> t_reply (q_task s') = m\<lparr>sphdr := []\<rparr> \<and> t_live (q_task s') \<and>
        q_state s' = (if q_state s = REQ_ACTIVE then REQ_STOPPING_TIMER else q_state s)))"

context framing_transport begin

lemma req_in_loop_ok:
  assumes "sock_good winv req_view s w"
  shows "\<exists>ms w1 x1 s' w'. xreq_run vf w (q_x s) ms w1 x1 \<and> (\<forall>m \<in> set ms. \<not> req_match s m) \<and>
    req_in_loop vf w s = Some (s', w') \<and> sock_good winv req_view s' w' \<and> req_in_result vf s w1 x1 s' w'"
  using assms
proof (induction "\<Sum>p \<in> pl_active (req_fq (q_x s)). backlog w p" arbitrary: s w rule: less_induct)
  case less
  have g: "sock_good winv xreq_view (q_x s) w" "req_core s" "q_state s = REQ_DELAYED \<longrightarrow> pl_active (req_lb (q_x s)) = {}"
    using less(2) by (auto simp: req_good)
  have same: "req_core (set_task (s\<lparr>q_x := x\<rparr>) (\<lambda>k. k\<lparr>t_reply := m, t_live := b\<rparr>))" for x m b
    using g(2) by (simp add: req_core_def)
  show ?case
  proof (rule xreq_recv_ok [OF g(1)])
    fix fq w1 assume r: "nn_xreq_recv vf w (q_x s) = Some (Inl EAGAIN, q_x s\<lparr>req_fq := fq\<rparr>, w1)"
      "sock_good winv xreq_view (q_x s\<lparr>req_fq := fq\<rparr>) w1"
    let ?s = "s\<lparr>q_x := q_x s\<lparr>req_fq := fq\<rparr>\<rparr>"
    have l: "req_in_loop vf w s = Some (?s, w1)" using r(1) by (subst req_in_loop.simps) simp
    have "sock_good winv req_view ?s w1" using r(2) g by (auto simp: req_good req_core_def)
    moreover have "req_in_result vf s w (q_x s) ?s w1" using r(1) by (simp add: req_in_result_def)
    ultimately show ?thesis using l xrun_nil [of vf w "q_x s"] by (intro exI [of _ "[]"]) auto
  next
    fix m fq w1 c raw assume r: "nn_xreq_recv vf w (q_x s) = Some (Inr m, q_x s\<lparr>req_fq := fq\<rparr>, w1)"
      "sock_good winv xreq_view (q_x s\<lparr>req_fq := fq\<rparr>) w1"
      "(\<Sum>p \<in> pl_active fq. backlog w1 p) < (\<Sum>p \<in> pl_active (req_fq (q_x s)). backlog w p)"
    let ?x = "q_x s\<lparr>req_fq := fq\<rparr>"
    show ?thesis
    proof (cases "req_match s m")
      case True
      let ?s = "set_task (s\<lparr>q_x := ?x\<rparr>) (\<lambda>k. k\<lparr>t_reply := m\<lparr>sphdr := []\<rparr>, t_live := True\<rparr>)"
      have l: "req_in_loop vf w s = (if q_state s = REQ_ACTIVE then nn_req_feed vf w1 ?s REQ_ACTION_IN else Some (?s, w1))"
        using req_in_loop_match [OF r(1) True] by (simp add: Let_def)
      have gs: "sock_good winv req_view ?s w1" using r(2) same g(3) by (simp add: req_good)
      have "\<exists>s'. req_in_loop vf w s = Some (s', w1) \<and> sock_good winv req_view s' w1 \<and> req_in_result vf s w (q_x s) s' w1"
      proof (cases "q_state s = REQ_ACTIVE")
        case False
        then show ?thesis using l gs r(1) True by (auto simp: req_in_result_def)
      next
        case act: True
        obtain t where t: "req_leave_active ?s REQ_STOPPING_TIMER = Some ((set_task ?s (\<lambda>k. k\<lparr>t_timer := t, t_sent_to := None\<rparr>))\<lparr>q_state := REQ_STOPPING_TIMER\<rparr>)"
          "req_core ((set_task ?s (\<lambda>k. k\<lparr>t_timer := t, t_sent_to := None\<rparr>))\<lparr>q_state := REQ_STOPPING_TIMER\<rparr>)"
          using leave_active_ok [of ?s REQ_STOPPING_TIMER] gs act by (auto simp: req_good)
        let ?s' = "(set_task ?s (\<lambda>k. k\<lparr>t_timer := t, t_sent_to := None\<rparr>))\<lparr>q_state := REQ_STOPPING_TIMER\<rparr>"
        have "req_in_loop vf w s = Some (?s', w1)"
          using l act t(1) g(2) by (simp add: nn_req_feed_def nn_req_handler_def req_core_def)
        moreover have "sock_good winv req_view ?s' w1" using t(2) r(2) by (simp add: req_good)
        moreover have "req_in_result vf s w (q_x s) ?s' w1" using r(1) True act by (simp add: req_in_result_def)
        ultimately show ?thesis by blast
      qed
      then show ?thesis using xrun_nil [of vf w "q_x s"] by (intro exI [of _ "[]"]) auto
    next
      case False
      let ?s = "set_task (s\<lparr>q_x := ?x\<rparr>) (\<lambda>k. k\<lparr>t_reply := m, t_live := False\<rparr>)"
      have l: "req_in_loop vf w s = req_in_loop vf w1 ?s" by (rule req_in_loop_stale [OF r(1) False])
      have gs: "sock_good winv req_view ?s w1" using r(2) same g(3) by (simp add: req_good)
      have mm: "req_match ?s m' = req_match s m'" for m' by (simp add: req_match_def nn_req_inprogress_def)
      obtain ms w2 x2 s' w' where ih: "xreq_run vf w1 ?x ms w2 x2" "\<forall>m' \<in> set ms. \<not> req_match s m'"
        "req_in_loop vf w1 ?s = Some (s', w')" "sock_good winv req_view s' w'" "req_in_result vf ?s w2 x2 s' w'"
        using less(1) [OF _ gs] r(3) unfolding mm by auto
      have "xreq_run vf w (q_x s) (m # ms) w2 x2" by (rule xrun_cons [OF r(1) ih(1)])
      moreover have "\<forall>m' \<in> set (m # ms). \<not> req_match s m'" using ih(2) False by simp
      moreover have "req_in_result vf s w2 x2 s' w'" using ih(5) unfolding req_in_result_def mm by (simp cong: if_cong)
      ultimately show ?thesis using l ih(3,4) by (metis (no_types, lifting))
    qed
  qed
qed

end

definition req_started :: "u32 \<Rightarrow> nn_req" where
  "req_started lastid = \<lparr>q_x = nn_xreq_init, q_fsm = FSM_ACTIVE, q_state = REQ_PASSIVE, q_lastid = lastid,
     q_resend_ivl = NN_REQ_DEFAULT_RESEND_IVL,
     q_task = \<lparr>t_id = lastid, t_request = empty_msg, t_reply = empty_msg, t_live = True, t_timer = nn_timer_init, t_sent_to = None\<rparr>,
     q_gone = False\<rparr>"

lemma nn_req_init_started: "nn_req_init vf w lastid = Some (req_started lastid)"
  by (simp add: nn_req_init_def nn_req_handler_def req_started_def nn_task_init_def)

sublocale framing_transport \<subseteq> req: timed_socket vf winv "nn_req_sockbase_vfptr vf" req_view "req_started lastid" "nn_req_tick vf" for lastid
proof (unfold_locales, goal_cases)
  case (5 s w p opt)
  then show ?case
    using xreq.add_law [of "q_x s" w p opt]
    by (auto simp: req_good nn_req_sockbase_vfptr_def nn_xreq_sockbase_vfptr_def req_core_def nn_xreq_add_def)
next
  case (6 s w p)
  have g: "sock_good winv xreq_view (q_x s) w" "req_core s" "q_state s = REQ_DELAYED \<longrightarrow> pl_active (req_lb (q_x s)) = {}"
    using 6(1) by (auto simp: req_good)
  obtain x w' where x: "nn_xreq_rm w (q_x s) p = Some (x, w')" "sock_good winv xreq_view x w'" "dom (req_data x) = dom (req_data (q_x s)) - {p}"
    using xreq.rm_law [OF g(1), of p] 6(2) by (auto simp: nn_xreq_sockbase_vfptr_def)
  have sub: "pl_active (req_lb (q_x s)) = {} \<Longrightarrow> pl_active (req_lb x) = {}"
    using x(1) g(1) xreq_rm_lb by blast
  let ?s = "s\<lparr>q_x := x\<rparr>"
  have gs: "sock_good winv req_view ?s w'" using x(2) g(2,3) sub by (auto simp: req_good req_core_def)
  show ?case
  proof (cases "t_sent_to (q_task s) = Some p")
    case True
    then have "q_state s = REQ_ACTIVE" using g(2) by (auto simp: req_core_def)
    then show ?thesis
      using leave_active_ok [of ?s REQ_TIMED_OUT] gs x True g(2)
      by (auto simp: nn_req_sockbase_vfptr_def nn_req_rm_def nn_req_feed_def nn_req_handler_def req_good req_core_def)
  next
    case False
    then show ?thesis using x gs by (simp add: nn_req_sockbase_vfptr_def nn_req_rm_def)
  qed
next
  case (7 s w p)
  have g: "sock_good winv xreq_view (q_x s) w" "req_core s" "q_state s = REQ_DELAYED \<longrightarrow> pl_active (req_lb (q_x s)) = {}"
    using 7(1) by (auto simp: req_good)
  obtain x w' where x: "nn_xreq_in w (q_x s) p = Some (x, w')" "sock_good winv xreq_view x w'"
    using xreq.in_law [OF g(1), of p] 7(3-5) by (auto simp: nn_xreq_sockbase_vfptr_def)
  then have "req_lb x = req_lb (q_x s)" by (auto simp: nn_xreq_in_def split: bind_splits)
  then have "sock_good winv req_view (s\<lparr>q_x := x\<rparr>) w'" using x(2) g(2,3) by (auto simp: req_good req_core_def)
  then show ?case using req_in_loop_ok [of "s\<lparr>q_x := x\<rparr>" w'] x(1) by (auto simp: nn_req_sockbase_vfptr_def nn_req_in_def)
next
  case (8 s w p)
  have g: "sock_good winv xreq_view (q_x s) w" "req_core s" "q_state s = REQ_DELAYED \<longrightarrow> pl_active (req_lb (q_x s)) = {}"
    using 8(1) by (auto simp: req_good)
  obtain x w' where x: "nn_xreq_out w (q_x s) p = Some (x, w')" "sock_good winv xreq_view x w'"
    using xreq.out_law [OF g(1), of p] 8(2-4) by (auto simp: nn_xreq_sockbase_vfptr_def)
  show ?case
  proof (cases "q_state s = REQ_DELAYED")
    case True
    have "pl_active (req_lb x) \<noteq> {}" using xreq_out_lb [OF g(1) x(1)] 8(3) by auto
    then have "\<exists>s' w''. nn_req_action_send vf w' (s\<lparr>q_x := x\<rparr>) False = Some (s', w'') \<and> sock_good winv req_view s' w'' \<and> req_sent vf (s\<lparr>q_x := x\<rparr>) w' s' w''"
      using g(2) True x(2) by (intro action_send_ok) (auto simp: req_core_def req_timer_state_def)
    then show ?thesis
      using x(1) True g(2) by (auto simp: nn_req_sockbase_vfptr_def nn_req_out_def nn_req_feed_def nn_req_handler_def req_core_def)
  next
    case False
    then show ?thesis using x g(2) by (auto simp: nn_req_sockbase_vfptr_def nn_req_out_def req_good req_core_def)
  qed
next
  case (9 s w f m)
  have f: "f = nn_req_csend vf" using 9(2) by (simp add: nn_req_sockbase_vfptr_def)
  let ?s = "set_task (set_task s (\<lambda>k. k\<lparr>t_id := t_id k + 1\<rparr>)) (\<lambda>k. k\<lparr>t_request := m\<lparr>sphdr := be32 (t_id k OR 0x80000000)\<rparr>\<rparr>)"
  have "sock_good winv req_view ?s w" using 9(1) by (simp add: req_good req_core_def)
  moreover have "nn_putl (replicate 4 0) k = Some (be32 k)" for k by (rule nn_putl_be32) simp
  ultimately show ?case using feed_sent_ok [of ?s w] 9(3) by (auto simp: f nn_req_csend_def set_task_def)
next
  case (10 s w h)
  have h: "h = nn_req_crecv vf" using 10(2) by (simp add: nn_req_sockbase_vfptr_def)
  show ?case
  proof (cases "q_state s = REQ_DONE")
    case True
    then show ?thesis
      using 10(1) by (auto simp: h nn_req_crecv_def nn_req_inprogress_def nn_req_feed_def nn_req_handler_def req_good req_core_def req_timer_state_def)
  next
    case False
    then show ?thesis using 10(1) by (auto simp: h nn_req_crecv_def)
  qed
next
  case (11 s w level nm val)
  show ?case
    using 11 int_option_some [of val] by (auto simp: nn_req_sockbase_vfptr_def nn_req_setopt_def req_opts_def req_good req_core_def)
next
  case (12 s w k)
  then show ?case by (rule req_tick_ok)
next
  case 1
  then show ?case
    using xreq.init_ok(1) by (simp add: req_inv_def req_started_def req_core_def timer_init_inv req_timer_state_def NN_REQ_DEFAULT_RESEND_IVL_def)
qed (simp_all add: req_started_def nn_xreq_init_def nn_lb_init_def nn_fq_init_def pl_inv_init)

section \<open>Properties\<close>


text \<open>
  C20: A request that gets no answer is sent again.  When the resend timer of a waiting request
  expires, the timer is stopped, and once the worker has done so the same request, with the
  same ID, is put on a ready pipe and the timer runs again; without a ready pipe the socket
  waits for one.
\<close>

theorem nn_req_resends:
  assumes "sock_good inproc_clean req_view s w" "q_state s = REQ_ACTIVE" "tm_armed (t_timer (q_task s))"
  shows "\<exists>s1 s2 w2. nn_req_tick nn_sinproc_pipebase_vfptr ExpireTick w s = Some (s1, w) \<and> q_state s1 = REQ_TIMED_OUT \<and>
    nn_req_tick nn_sinproc_pipebase_vfptr TaskTick w s1 = Some (s2, w2) \<and> sock_good inproc_clean req_view s2 w2 \<and>
    req_sent nn_sinproc_pipebase_vfptr s w s2 w2"
proof -
  let ?vf = nn_sinproc_pipebase_vfptr and ?t = "t_timer (q_task s)"
  have g: "sock_good inproc_clean xreq_view (q_x s) w" "req_core s" using assms(1) by (auto simp: req_good)
  have a: "timer_inv ?t" "tm_fsm ?t = FSM_ACTIVE" "tm_raised ?t = []" using g(2) assms(2) by (auto simp: req_core_def req_timer_state_def)
  obtain t1 t2 t3 where t: "timer_tick ExpireTick ?t = Some t1" "tm_raised t1 = [NN_TIMER_TIMEOUT]"
    "nn_timer_stop (t1\<lparr>tm_raised := []\<rparr>) = Some t2" "tm_raised t2 = []" "timer_tick TaskTick t2 = Some t3"
    "tm_raised t3 = [NN_TIMER_STOPPED]" "timer_inv (t3\<lparr>tm_raised := []\<rparr>)" "tm_fsm t3 = FSM_IDLE"
    by (rule timer_expires [OF a(1,2) assms(3) a(3)])
  let ?s1 = "(set_task s (\<lambda>k. k\<lparr>t_timer := t2, t_sent_to := None\<rparr>))\<lparr>q_state := REQ_TIMED_OUT\<rparr>"
  have "nn_req_feed ?vf w (set_task s (\<lambda>k. k\<lparr>t_timer := t1\<lparr>tm_raised := []\<rparr>\<rparr>)) (REQ_RESEND_TIMER NN_TIMER_TIMEOUT) = Some (?s1, w)"
    using t(3) g(2) assms(2) by (simp add: nn_req_feed_def nn_req_handler_def req_leave_active_def req_timer_stop_def req_core_def set_task_def)
  then have s1: "nn_req_tick ?vf ExpireTick w s = Some (?s1, w)"
    by (rule req_tick_event [OF t(1,2)]) (simp add: t(4))
  let ?s2 = "set_task ?s1 (\<lambda>k. k\<lparr>t_timer := t3\<lparr>tm_raised := []\<rparr>\<rparr>)"
  obtain s3 w3 where s3: "nn_req_action_send ?vf w ?s2 True = Some (s3, w3)" "sock_good inproc_clean req_view s3 w3" "req_sent ?vf ?s2 w s3 w3"
    using inprocf.action_send_ok [of ?s2 w True] g t(7,8) by (auto simp: req_core_def)
  then have "nn_req_feed ?vf w ?s2 (REQ_RESEND_TIMER NN_TIMER_STOPPED) = Some (s3, w3)"
    using g(2) by (simp add: nn_req_feed_def nn_req_handler_def req_core_def)
  then have "nn_req_tick ?vf TaskTick w ?s1 = Some (s3, w3)"
    using s3(2) by (intro req_tick_event [where t = t3]) (simp_all add: t(5,6) req_good req_core_def)
  moreover have "req_sent ?vf s w s3 w3" using s3(3) by (simp add: req_sent_def cong: if_cong)
  ultimately show ?thesis using s1 s3(2) by (intro exI [of _ ?s1] exI [of _ s3] exI [of _ w3]) simp
qed

text \<open>The ticks that bring a stopping socket to its end.\<close>

definition req_closed :: "nn_req \<Rightarrow> bool" where
  "req_closed s \<longleftrightarrow> q_gone s \<and> q_fsm s = FSM_IDLE \<and> nn_timer_term (t_timer (q_task s)) = Some ()"

lemma req_last_tick:
  assumes "q_fsm s = FSM_STOPPING" "q_state s = REQ_STOPPING" "timer_tick TaskTick (t_timer (q_task s)) = Some t"
    "tm_raised t = [NN_TIMER_STOPPED]" "tm_fsm t = FSM_IDLE" "timer_inv (t\<lparr>tm_raised := []\<rparr>)"
  shows "\<exists>s'. nn_req_tick vf TaskTick w s = Some (s', w) \<and> req_closed s'"
proof -
  let ?s1 = "set_task s (\<lambda>k. k\<lparr>t_timer := t\<lparr>tm_raised := []\<rparr>\<rparr>)"
  let ?s' = "?s1\<lparr>q_state := REQ_IDLE, q_fsm := FSM_IDLE, q_gone := True\<rparr>"
  have "nn_req_feed vf w ?s1 (REQ_RESEND_TIMER NN_TIMER_STOPPED) = Some (?s', w)"
    using assms(1,2,5) by (simp add: nn_req_feed_def nn_req_shutdown_def nn_timer_isidle_def)
  then have "nn_req_tick vf TaskTick w s = Some (?s', w)" by (intro req_tick_event [OF assms(3,4)]) simp_all
  then show ?thesis
    using assms(5,6) by (intro exI [of _ ?s']) (simp add: req_closed_def nn_timer_term_def nn_timer_isidle_def timer_inv_def)
qed

lemma req_stop_ticks:
  assumes s: "q_fsm s = FSM_STOPPING" "q_state s = REQ_STOPPING" and t: "timer_inv (t_timer (q_task s))" "tm_fsm (t_timer (q_task s)) = FSM_STOPPING"
    "tm_raised (t_timer (q_task s)) = []"
  shows "\<exists>s'. (nn_req_tick vf TaskTick w s = Some (s', w) \<or>
      (\<exists>s1. nn_req_tick vf TaskTick w s = Some (s1, w) \<and> nn_req_tick vf TaskTick w s1 = Some (s', w))) \<and> req_closed s'"
proof (rule timer_stopping_ticks [OF t], goal_cases)
  case (1 t')
  then show ?case using req_last_tick [OF s 1(1-4)] by blast
next
  case (2 t1 t')
  let ?s1 = "set_task s (\<lambda>k. k\<lparr>t_timer := t1\<rparr>)"
  have "nn_req_tick vf TaskTick w s = Some (?s1, w)"
    using 2(1,2) by (simp add: nn_req_tick_def req_pop_def timer_take_def)
  moreover have "\<exists>s'. nn_req_tick vf TaskTick w ?s1 = Some (s', w) \<and> req_closed s'"
    by (rule req_last_tick [OF _ _ _ 2(4-6)]) (simp_all add: s 2(3))
  ultimately show ?case by blast
qed

text \<open>
  C21: Closing a REQ socket comes to an end: after \<^verbatim>\<open>nn_req_stop\<close> the socket has reported that it
  is stopped as soon as the worker has executed the tasks of the timer, at most two; and then
  its timer may be terminated.
\<close>

theorem nn_req_stop_completes:
  assumes "sock_good inproc_clean req_view s w"
  shows "\<exists>s0 s'. nn_req_stop s = Some s0 \<and> (s' = s0 \<or> nn_req_tick nn_sinproc_pipebase_vfptr TaskTick w s0 = Some (s', w) \<or>
      (\<exists>s1. nn_req_tick nn_sinproc_pipebase_vfptr TaskTick w s0 = Some (s1, w) \<and>
        nn_req_tick nn_sinproc_pipebase_vfptr TaskTick w s1 = Some (s', w))) \<and>
    q_gone s' \<and> q_fsm s' = FSM_IDLE \<and> nn_timer_term (t_timer (q_task s')) = Some ()"
proof -
  have c: "q_fsm s = FSM_ACTIVE" "timer_inv (t_timer (q_task s))" "tm_raised (t_timer (q_task s)) = []"
    using assms by (auto simp: req_good req_core_def)
  obtain t where t: "nn_timer_stop (t_timer (q_task s)) = Some t" "timer_inv t" "tm_raised t = []" "tm_fsm t \<noteq> FSM_ACTIVE"
    using timer_stop_ok [OF c(2)] c(3) by auto
  let ?s = "(set_task s (\<lambda>k. k\<lparr>t_timer := t\<rparr>))\<lparr>q_fsm := FSM_STOPPING, q_state := REQ_STOPPING\<rparr>"
  show ?thesis
  proof (cases "tm_fsm t = FSM_IDLE")
    case True
    let ?s' = "?s\<lparr>q_state := REQ_IDLE, q_fsm := FSM_IDLE, q_gone := True\<rparr>"
    have "nn_req_stop s = Some ?s'"
      using t(1,3) c(1) True by (simp add: nn_req_stop_def nn_req_shutdown_def req_timer_stop_def nn_timer_isidle_def set_task_def)
    moreover have "nn_timer_term t = Some ()" using t(2,3) True by (simp add: timer_inv_def nn_timer_term_def nn_timer_isidle_def)
    ultimately show ?thesis by (intro exI [of _ ?s']) simp
  next
    case False
    then have "nn_req_stop s = Some ?s"
      using t(1) c(1) by (simp add: nn_req_stop_def nn_req_shutdown_def req_timer_stop_def nn_timer_isidle_def set_task_def)
    moreover have "tm_fsm t = FSM_STOPPING" using False t(4) by (cases "tm_fsm t") auto
    then have "\<exists>s'. (nn_req_tick nn_sinproc_pipebase_vfptr TaskTick w ?s = Some (s', w) \<or>
        (\<exists>s1. nn_req_tick nn_sinproc_pipebase_vfptr TaskTick w ?s = Some (s1, w) \<and>
          nn_req_tick nn_sinproc_pipebase_vfptr TaskTick w s1 = Some (s', w))) \<and> req_closed s'"
      by (intro req_stop_ticks) (simp_all add: t)
    ultimately show ?thesis unfolding req_closed_def by blast
  qed
qed

section \<open>Examples\<close>

text \<open>A REQ socket on session 1 of the connected pair: it sends a request, which gets the ID 5,
  while the reply is already waiting.\<close>

definition req_reply :: sp_msg where
  "req_reply = \<lparr>sphdr = [0x80, 0, 0, 5], hdrs = [], body = [7]\<rparr>"

definition req_example :: "(nn_req \<times> iworld) option" where
  "req_example = do {
     let ops = nn_req_sockbase_vfptr nn_sinproc_pipebase_vfptr;
     (rc, s) \<leftarrow> sk_add ops (req_started 4) 1 \<lparr>sndprio = 8, rcvprio = 8\<rparr>;
     (s, w) \<leftarrow> sk_out ops (msg_world req_reply) s 1;
     (rc, s, w) \<leftarrow> nn_req_csend nn_sinproc_pipebase_vfptr w s \<lparr>sphdr = [], hdrs = [], body = [1]\<rparr>;
     Some (s, w) }"

text \<open>The reply is taken, the timer stopped, and then a reply to an earlier request arrives.\<close>

definition req_stale_run :: "(req_state \<times> bool \<times> sp_msg rc) option" where
  "req_stale_run = do {
     let vf = nn_sinproc_pipebase_vfptr;
     (s, w) \<leftarrow> req_example;
     (s, w) \<leftarrow> nn_req_in vf w s 1;
     (s, w) \<leftarrow> nn_req_tick vf TaskTick w s;
     (s, w) \<leftarrow> nn_req_tick vf TaskTick w s;
     (u, w) \<leftarrow> deliver no_add no_rm ((), w);
     (rc, w) \<leftarrow> nn_pipe_send vf w 0 \<lparr>sphdr = [0x80, 0, 0, 4], hdrs = [], body = [66]\<rparr>;
     (u, w) \<leftarrow> deliver no_add no_rm ((), w);
     (u, w) \<leftarrow> deliver no_add no_rm ((), w);
     (s, w) \<leftarrow> nn_req_in vf w s 1;
     (rc, s', w) \<leftarrow> nn_req_crecv vf w s;
     Some (q_state s, t_live (q_task s), rc) }"


text \<open>The example is a legal state of the socket.\<close>

lemma req_world: "can_recv (msg_world req_reply) 1 \<and> can_send (msg_world req_reply) 1"
  by code_simp

lemma req_example_steps:
  "case nn_xreq_add nn_xreq_init 1 \<lparr>sndprio = 8, rcvprio = 8\<rparr> of None \<Rightarrow> False
   | Some (rc, x) \<Rightarrow> req_data x 1 \<noteq> None \<and> 1 \<notin> pl_active (req_lb x)"
  "case req_example of None \<Rightarrow> False
   | Some (s, w) \<Rightarrow> q_state s = REQ_ACTIVE \<and> req_data (q_x s) 1 \<noteq> None \<and> 1 \<notin> pl_active (req_fq (q_x s)) \<and> can_recv w 1 \<and> t_id (q_task s) = 5"
  "case req_example of None \<Rightarrow> False
   | Some (s, w) \<Rightarrow> (case nn_req_tick nn_sinproc_pipebase_vfptr TaskTick w s of None \<Rightarrow> False
     | Some (s, w) \<Rightarrow> q_state s = REQ_ACTIVE \<and> tm_armed (t_timer (q_task s)))"
  by code_simp+

lemma req_example_good:
  obtains s w where "req_example = Some (s, w)" "sock_good inproc_clean req_view s w" "q_state s = REQ_ACTIVE"
    "1 \<in> dom (req_data (q_x s))" "1 \<notin> pl_active (req_fq (q_x s))" "can_recv w 1" "t_id (q_task s) = 5"
proof -
  let ?ops = "nn_req_sockbase_vfptr nn_sinproc_pipebase_vfptr" and ?w = "msg_world req_reply"
  have "sock_good inproc_clean req_view (req_started 4) ?w"
    by (rule inprocf.req.timed_good, rule timed_start, rule msg_world_clean)
  then obtain rc s1 where s1: "sk_add ?ops (req_started 4) 1 \<lparr>sndprio = 8, rcvprio = 8\<rparr> = Some (rc, s1)" "sock_good inproc_clean req_view s1 ?w"
    using inprocf.req.add_law [of "req_started 4" ?w 1 "\<lparr>sndprio = 8, rcvprio = 8\<rparr>"]
    by (auto simp: req_started_def nn_xreq_init_def opts_ok_def)
  have "1 \<in> dom (req_data (q_x s1))" "1 \<notin> pl_active (req_lb (q_x s1))"
    using s1(1) req_example_steps(1) by (auto simp: nn_req_sockbase_vfptr_def req_started_def)
  then obtain s2 w2 where s2: "sk_out ?ops ?w s1 1 = Some (s2, w2)" "sock_good inproc_clean req_view s2 w2"
    using inprocf.req.out_law [OF s1(2), of 1] req_world by auto
  obtain rc' s3 w3 where s3: "nn_req_csend nn_sinproc_pipebase_vfptr w2 s2 \<lparr>sphdr = [], hdrs = [], body = [1]\<rparr> = Some (rc', s3, w3)"
    "sock_good inproc_clean req_view s3 w3"
    using inprocf.req.send_law [OF s2(2), of "nn_req_csend nn_sinproc_pipebase_vfptr" "\<lparr>sphdr = [], hdrs = [], body = [1]\<rparr>"]
    by (auto simp: nn_req_sockbase_vfptr_def)
  have ex: "req_example = Some (s3, w3)" using s1(1) s2(1) s3(1) by (simp add: req_example_def)
  have "q_state s3 = REQ_ACTIVE \<and> req_data (q_x s3) 1 \<noteq> None \<and> 1 \<notin> pl_active (req_fq (q_x s3)) \<and> can_recv w3 1 \<and> t_id (q_task s3) = 5"
    using req_example_steps(2) unfolding ex option.case prod.case .
  then show thesis using that [of s3 w3] s3(2) ex by auto
qed


theorem nn_req_stop_completes_witness:
  "\<exists>s w s0. req_example = Some (s, w) \<and> nn_req_stop s = Some s0"
  by (rule req_example_good) (use nn_req_stop_completes in blast)

theorem nn_req_resends_witness:
  "\<exists>s w s1 s2 w2. q_state s = REQ_ACTIVE \<and> nn_req_tick nn_sinproc_pipebase_vfptr ExpireTick w s = Some (s1, w) \<and>
     nn_req_tick nn_sinproc_pipebase_vfptr TaskTick w s1 = Some (s2, w2) \<and> req_sent nn_sinproc_pipebase_vfptr s w s2 w2"
proof (rule req_example_good)
  fix s w assume s: "req_example = Some (s, w)" "sock_good inproc_clean req_view s w"
  obtain s1 w1 where s1: "nn_req_tick nn_sinproc_pipebase_vfptr TaskTick w s = Some (s1, w1)" "sock_good inproc_clean req_view s1 w1"
    using inprocf.req.tick_law [OF s(2), of TaskTick] by blast
  have a: "q_state s1 = REQ_ACTIVE \<and> tm_armed (t_timer (q_task s1))"
    using req_example_steps(3) unfolding s(1) option.case prod.case s1(1) .
  from nn_req_resends [OF s1(2)] a show ?thesis by blast
qed

end
