(* ===== verification/Nn_Respondent.thy ===== *)
theory Nn_Respondent
  imports Nn_Rep
begin

text \<open>
  The RESPONDENT sockets, \<^verbatim>\<open>protocols/survey/xrespondent.c\<close> and \<^verbatim>\<open>respondent.c\<close>.  They keep the same
  data as the REP sockets, so the records of theory \<open>Nn_Rep\<close> serve for both; the functions are
  translated on their own, and shown to be the same.
\<close>

type_synonym nn_xrespondent = nn_xrep
type_synonym nn_respondent = nn_rep

definition NN_XRESPONDENT_OUT :: u32 where
  "NN_XRESPONDENT_OUT = 1"

definition NN_RESPONDENT_INPROGRESS :: u32 where
  "NN_RESPONDENT_INPROGRESS = 1"

section \<open>Raw socket\<close>

definition nn_xrespondent_init :: "u32 \<Rightarrow> nn_xrespondent" where
  "nn_xrespondent_init key0 = \<lparr>rep_next_key = key0, rep_outpipes = nn_hash_init (\<lambda>p. 0), rep_inpipes = nn_fq_init,
     rep_data = Map.empty\<rparr>"

definition nn_xrespondent_term :: "nn_xrespondent \<Rightarrow> unit option" where
  "nn_xrespondent_term self = do { nn_fq_term (rep_inpipes self); nn_hash_term (rep_outpipes self) }"

definition nn_xrespondent_add :: "nn_xrespondent \<Rightarrow> pid \<Rightarrow> pipe_opts \<Rightarrow> (unit rc \<times> nn_xrespondent) option" where
  "nn_xrespondent_add self p opt = do {
     nn_assert (rcvprio opt \<ge> 1 \<and> rcvprio opt \<le> 16);
     h \<leftarrow> nn_hash_insert (rep_outpipes self) (rep_next_key self AND 0x7fffffff) p;
     let self = self\<lparr>rep_outpipes := h, rep_next_key := rep_next_key self + 1\<rparr>;
     Some (Inr (), xrep_set_data self p
       (Some \<lparr>xd_pipe = p, xd_initem = nn_fq_add p (rcvprio opt), xd_flags = 0\<rparr>)) }"

definition nn_xrespondent_rm :: "'x world \<Rightarrow> nn_xrespondent \<Rightarrow> pid \<Rightarrow> (nn_xrespondent \<times> 'x world) option" where
  "nn_xrespondent_rm w self p = do {
     data \<leftarrow> rep_data self p;
     fq \<leftarrow> nn_fq_rm (rep_inpipes self) (xd_initem data);
     h \<leftarrow> nn_hash_erase (rep_outpipes self) p;
     Some (xrep_set_data (self\<lparr>rep_inpipes := fq, rep_outpipes := h\<rparr>) p None, w) }"

definition nn_xrespondent_in :: "'x world \<Rightarrow> nn_xrespondent \<Rightarrow> pid \<Rightarrow> (nn_xrespondent \<times> 'x world) option" where
  "nn_xrespondent_in w self p = do {
     data \<leftarrow> rep_data self p;
     fq \<leftarrow> nn_fq_in (rep_inpipes self) (xd_initem data);
     Some (self\<lparr>rep_inpipes := fq\<rparr>, w) }"

definition nn_xrespondent_out :: "'x world \<Rightarrow> nn_xrespondent \<Rightarrow> pid \<Rightarrow> (nn_xrespondent \<times> 'x world) option" where
  "nn_xrespondent_out w self p = do {
     data \<leftarrow> rep_data self p;
     Some (xrep_set_data self p (Some (data\<lparr>xd_flags := xd_flags data OR NN_XRESPONDENT_OUT\<rparr>)), w) }"

definition nn_xrespondent_events :: "nn_xrespondent \<Rightarrow> u32" where
  "nn_xrespondent_events self = (if nn_fq_can_recv (rep_inpipes self) then NN_SOCKBASE_EVENT_IN else 0) OR NN_SOCKBASE_EVENT_OUT"

definition nn_xrespondent_send ::
  "'x pipebase_vfptr \<Rightarrow> 'x world \<Rightarrow> nn_xrespondent \<Rightarrow> sp_msg \<Rightarrow> (unit rc \<times> nn_xrespondent \<times> 'x world) option" where
  "nn_xrespondent_send vf w self msg =
     (if length (sphdr msg) < 4 then Some (Inr (), self, w)
      else do {
        key \<leftarrow> nn_getl (sphdr msg);
        let msg = msg\<lparr>sphdr := drop 4 (sphdr msg)\<rparr>;
        case nn_hash_get (rep_outpipes self) key of None \<Rightarrow> Some (Inr (), self, w)
        | Some item \<Rightarrow> do {
            data \<leftarrow> rep_data self item;
            if xd_flags data AND NN_XRESPONDENT_OUT = 0 then Some (Inr (), self, w)
            else do {
              (rc, w) \<leftarrow> nn_pipe_send vf w (xd_pipe data) msg;
              Some (Inr (), if released rc then xrep_set_data self item (Some (data\<lparr>xd_flags := xd_flags data AND NOT NN_XRESPONDENT_OUT\<rparr>))
                else self, w) } } })"

definition xrespondent_split :: "int \<Rightarrow> sp_msg \<Rightarrow> sp_msg option option" where
  "xrespondent_split maxttl msg = do {
     n \<leftarrow> backtrace_scan (body msg) 0;
     case n of None \<Rightarrow> Some None
     | Some i \<Rightarrow>
         if int i > maxttl then Some None
         else do {
           nn_assert (length (sphdr msg) = 0);
           Some (Some (msg\<lparr>sphdr := take (i * 4) (body msg), body := drop (i * 4) (body msg)\<rparr>)) } }"

definition nn_xrespondent_recv ::
  "int \<Rightarrow> 'x pipebase_vfptr \<Rightarrow> 'x world \<Rightarrow> nn_xrespondent \<Rightarrow> (sp_msg rc \<times> nn_xrespondent \<times> 'x world) option" where
  "nn_xrespondent_recv maxttl vf w self = do {
     (rc, fq, w) \<leftarrow> nn_fq_recv vf w (rep_inpipes self);
     let self = self\<lparr>rep_inpipes := fq\<rparr>;
     case rc of Inl e \<Rightarrow> Some (Inl e, self, w)
     | Inr (rc, msg, pipe) \<Rightarrow> do {
         split \<leftarrow> (if \<not> parsed rc then xrespondent_split maxttl msg else Some (Some msg));
         case split of None \<Rightarrow> Some (Inl EAGAIN, self, w)
         | Some msg \<Rightarrow> do {
             ref \<leftarrow> nn_putl (replicate 4 0) (hkey (rep_outpipes self) pipe);
             Some (Inr (msg\<lparr>sphdr := ref @ sphdr msg\<rparr>), self, w) } } }"

definition nn_xrespondent_setopt :: "nn_xrespondent \<Rightarrow> int \<Rightarrow> int \<Rightarrow> bytes \<Rightarrow> (unit rc \<times> nn_xrespondent) option" where
  "nn_xrespondent_setopt self level opt optval = Some (Inl ENOPROTOOPT, self)"

definition nn_xrespondent_sockbase_vfptr :: "int \<Rightarrow> 'x pipebase_vfptr \<Rightarrow> (nn_xrespondent, 'x) sockbase_vfptr" where
  "nn_xrespondent_sockbase_vfptr maxttl vf = \<lparr>sk_add = nn_xrespondent_add, sk_rm = nn_xrespondent_rm, sk_in = nn_xrespondent_in,
     sk_out = nn_xrespondent_out, sk_events = nn_xrespondent_events, sk_send = Some (nn_xrespondent_send vf),
     sk_recv = Some (nn_xrespondent_recv maxttl vf), sk_setopt = nn_xrespondent_setopt\<rparr>"

section \<open>Cooked socket\<close>

definition nn_respondent_init :: "u32 \<Rightarrow> nn_respondent" where
  "nn_respondent_init key0 = \<lparr>rep_x = nn_xrespondent_init key0, rep_flags = 0, backtrace = []\<rparr>"

definition nn_respondent_term :: "nn_respondent \<Rightarrow> unit option" where
  "nn_respondent_term self = nn_xrespondent_term (rep_x self)"

definition nn_respondent_events :: "nn_respondent \<Rightarrow> u32" where
  "nn_respondent_events self =
     (let events = nn_xrespondent_events (rep_x self)
      in if rep_flags self AND NN_RESPONDENT_INPROGRESS = 0 then events AND NOT NN_SOCKBASE_EVENT_OUT else events)"

definition nn_respondent_send ::
  "'x pipebase_vfptr \<Rightarrow> 'x world \<Rightarrow> nn_respondent \<Rightarrow> sp_msg \<Rightarrow> (unit rc \<times> nn_respondent \<times> 'x world) option" where
  "nn_respondent_send vf w self msg =
     (if rep_flags self AND NN_RESPONDENT_INPROGRESS = 0 then Some (Inl EFSM, self, w)
      else do {
        nn_assert (length (sphdr msg) = 0);
        let msg = msg\<lparr>sphdr := backtrace self\<rparr>;
        let self = self\<lparr>rep_flags := rep_flags self AND NOT NN_RESPONDENT_INPROGRESS\<rparr>;
        (rc, x, w) \<leftarrow> nn_xrespondent_send vf w (rep_x self) msg;
        nn_assert (rc = Inr () \<or> rc = Inl EAGAIN);
        Some (Inr (), self\<lparr>rep_x := x\<rparr>, w) })"

definition nn_respondent_recv ::
  "int \<Rightarrow> 'x pipebase_vfptr \<Rightarrow> 'x world \<Rightarrow> nn_respondent \<Rightarrow> (sp_msg rc \<times> nn_respondent \<times> 'x world) option" where
  "nn_respondent_recv maxttl vf w self = do {
     let self = (if rep_flags self AND NN_RESPONDENT_INPROGRESS \<noteq> 0
       then self\<lparr>rep_flags := rep_flags self AND NOT NN_RESPONDENT_INPROGRESS\<rparr> else self);
     (rc, x, w) \<leftarrow> nn_xrespondent_recv maxttl vf w (rep_x self);
     let self = self\<lparr>rep_x := x\<rparr>;
     case rc of Inl e \<Rightarrow> do { nn_assert (e = EAGAIN); Some (Inl EAGAIN, self, w) }
     | Inr msg \<Rightarrow>
         Some (Inr (msg\<lparr>sphdr := []\<rparr>),
           self\<lparr>backtrace := sphdr msg, rep_flags := rep_flags self OR NN_RESPONDENT_INPROGRESS\<rparr>, w) }"

definition nn_respondent_sockbase_vfptr :: "int \<Rightarrow> 'x pipebase_vfptr \<Rightarrow> (nn_respondent, 'x) sockbase_vfptr" where
  "nn_respondent_sockbase_vfptr maxttl vf = \<lparr>
     sk_add = (\<lambda>s p opt. map_option (map_prod id (\<lambda>x. s\<lparr>rep_x := x\<rparr>)) (nn_xrespondent_add (rep_x s) p opt)),
     sk_rm = (\<lambda>w s p. on_rep_x s (nn_xrespondent_rm w (rep_x s) p)),
     sk_in = (\<lambda>w s p. on_rep_x s (nn_xrespondent_in w (rep_x s) p)),
     sk_out = (\<lambda>w s p. on_rep_x s (nn_xrespondent_out w (rep_x s) p)),
     sk_events = nn_respondent_events, sk_send = Some (nn_respondent_send vf), sk_recv = Some (nn_respondent_recv maxttl vf),
     sk_setopt = (\<lambda>s level opt val. map_option (map_prod id (\<lambda>x. s\<lparr>rep_x := x\<rparr>)) (nn_xrespondent_setopt (rep_x s) level opt val))\<rparr>"

section \<open>Equivalence\<close>

lemma respondent_consts: "NN_XRESPONDENT_OUT = NN_XREP_OUT" "NN_RESPONDENT_INPROGRESS = NN_REP_INPROGRESS"
  by (simp_all add: NN_XRESPONDENT_OUT_def NN_XREP_OUT_def NN_RESPONDENT_INPROGRESS_def NN_REP_INPROGRESS_def)

lemma xrespondent_eq:
  "nn_xrespondent_init = nn_xrep_init"
  "nn_xrespondent_term = nn_xrep_term"
  "nn_xrespondent_add = nn_xrep_add"
  "nn_xrespondent_rm = nn_xrep_rm"
  "nn_xrespondent_in = nn_xrep_in"
  "nn_xrespondent_out = nn_xrep_out"
  "nn_xrespondent_events = nn_xrep_events"
  "nn_xrespondent_send = nn_xrep_send"
  "xrespondent_split = xrep_split"
  "nn_xrespondent_recv = nn_xrep_recv"
  "nn_xrespondent_setopt = nn_xrep_setopt"
  by (simp_all only: fun_eq_iff simp_thms respondent_consts
      nn_xrespondent_init_def nn_xrep_init_def nn_xrespondent_term_def nn_xrep_term_def nn_xrespondent_add_def nn_xrep_add_def
      nn_xrespondent_rm_def nn_xrep_rm_def nn_xrespondent_in_def nn_xrep_in_def nn_xrespondent_out_def nn_xrep_out_def
      nn_xrespondent_events_def nn_xrep_events_def nn_xrespondent_send_def nn_xrep_send_def xrespondent_split_def xrep_split_def
      nn_xrespondent_recv_def nn_xrep_recv_def nn_xrespondent_setopt_def nn_xrep_setopt_def)

lemma respondent_eq:
  "nn_respondent_init = nn_rep_init"
  "nn_respondent_term = nn_rep_term"
  "nn_respondent_events = nn_rep_events"
  "nn_respondent_send = nn_rep_send"
  "nn_respondent_recv = nn_rep_recv"
  by (simp_all only: fun_eq_iff simp_thms respondent_consts xrespondent_eq
      nn_respondent_init_def nn_rep_init_def nn_respondent_term_def nn_rep_term_def nn_respondent_events_def nn_rep_events_def
      nn_respondent_send_def nn_rep_send_def nn_respondent_recv_def nn_rep_recv_def)


lemma respondent_eqs:
  "nn_xrespondent_sockbase_vfptr = nn_xrep_sockbase_vfptr" "nn_respondent_sockbase_vfptr = nn_rep_sockbase_vfptr"
  by (intro ext; simp add: nn_xrespondent_sockbase_vfptr_def nn_xrep_sockbase_vfptr_def nn_respondent_sockbase_vfptr_def
      nn_rep_sockbase_vfptr_def xrespondent_eq respondent_eq)+

sublocale framing_transport \<subseteq> xrespondent: sp_socket vf winv "nn_xrespondent_sockbase_vfptr maxttl vf" xrep_view "nn_xrespondent_init key0" for maxttl key0
  unfolding respondent_eqs xrespondent_eq(1) by (rule xrep.sp_socket_axioms)

sublocale framing_transport \<subseteq> respondent: sp_socket vf winv "nn_respondent_sockbase_vfptr maxttl vf" rep_view "nn_respondent_init key0" for maxttl key0
  unfolding respondent_eqs respondent_eq(1) by (rule rep.sp_socket_axioms)

end
