(* ===== verification/Nn_Surveyor.thy ===== *)
theory Nn_Surveyor
  imports Nn_Xreq Nn_Timed
begin

text \<open>
  The SURVEYOR sockets, \<^verbatim>\<open>protocols/survey/xsurveyor.c\<close> and \<^verbatim>\<open>surveyor.c\<close>: a survey goes to all peers
  and is open for responses until its deadline; a new survey cancels the one that is going on.
\<close>

section \<open>Raw socket\<close>

record nn_xsurveyor =
  svr_outpipes :: nn_dist
  svr_inpipes :: nn_fq
  svr_data :: "pid \<Rightarrow> nn_priolist_data option"

definition nn_xsurveyor_init :: nn_xsurveyor where
  "nn_xsurveyor_init = \<lparr>svr_outpipes = nn_dist_init, svr_inpipes = nn_fq_init, svr_data = Map.empty\<rparr>"

definition nn_xsurveyor_term :: "nn_xsurveyor \<Rightarrow> unit option" where
  "nn_xsurveyor_term self = do { nn_fq_term (svr_inpipes self); nn_dist_term (svr_outpipes self) }"

definition nn_xsurveyor_add :: "nn_xsurveyor \<Rightarrow> pid \<Rightarrow> pipe_opts \<Rightarrow> (unit rc \<times> nn_xsurveyor) option" where
  "nn_xsurveyor_add self p opt = do {
     nn_assert (rcvprio opt \<ge> 1 \<and> rcvprio opt \<le> 16);
     Some (Inr (), \<lparr>svr_outpipes = svr_outpipes self, svr_inpipes = svr_inpipes self,
       svr_data = (svr_data self)(p \<mapsto> nn_fq_add p (rcvprio opt))\<rparr>) }"

definition nn_xsurveyor_rm :: "'x world \<Rightarrow> nn_xsurveyor \<Rightarrow> pid \<Rightarrow> (nn_xsurveyor \<times> 'x world) option" where
  "nn_xsurveyor_rm w self p = do {
     data \<leftarrow> svr_data self p;
     fq \<leftarrow> nn_fq_rm (svr_inpipes self) data;
     Some (\<lparr>svr_outpipes = nn_dist_rm (svr_outpipes self) p, svr_inpipes = fq, svr_data = (svr_data self)(p := None)\<rparr>, w) }"

definition nn_xsurveyor_in :: "'x world \<Rightarrow> nn_xsurveyor \<Rightarrow> pid \<Rightarrow> (nn_xsurveyor \<times> 'x world) option" where
  "nn_xsurveyor_in w self p = do {
     data \<leftarrow> svr_data self p;
     fq \<leftarrow> nn_fq_in (svr_inpipes self) data;
     Some (self\<lparr>svr_inpipes := fq\<rparr>, w) }"

definition nn_xsurveyor_out :: "'x world \<Rightarrow> nn_xsurveyor \<Rightarrow> pid \<Rightarrow> (nn_xsurveyor \<times> 'x world) option" where
  "nn_xsurveyor_out w self p = do {
     data \<leftarrow> svr_data self p;
     d \<leftarrow> nn_dist_out (svr_outpipes self) p;
     Some (self\<lparr>svr_outpipes := d\<rparr>, w) }"

definition nn_xsurveyor_events :: "nn_xsurveyor \<Rightarrow> u32" where
  "nn_xsurveyor_events self =
     (let events = NN_SOCKBASE_EVENT_OUT
      in if nn_fq_can_recv (svr_inpipes self) then events OR NN_SOCKBASE_EVENT_IN else events)"

definition nn_xsurveyor_send ::
  "'x pipebase_vfptr \<Rightarrow> 'x world \<Rightarrow> nn_xsurveyor \<Rightarrow> sp_msg \<Rightarrow> (unit rc \<times> nn_xsurveyor \<times> 'x world) option" where
  "nn_xsurveyor_send vf w self msg = do {
     (d, w) \<leftarrow> nn_dist_send vf w (svr_outpipes self) msg None;
     Some (Inr (), self\<lparr>svr_outpipes := d\<rparr>, w) }"

definition nn_xsurveyor_recv ::
  "'x pipebase_vfptr \<Rightarrow> 'x world \<Rightarrow> nn_xsurveyor \<Rightarrow> (sp_msg rc \<times> nn_xsurveyor \<times> 'x world) option" where
  "nn_xsurveyor_recv vf w self = do {
     (rc, fq, w) \<leftarrow> nn_fq_recv vf w (svr_inpipes self);
     let self = self\<lparr>svr_inpipes := fq\<rparr>;
     case rc of Inl e \<Rightarrow> Some (Inl e, self, w)
     | Inr (rc, msg, pipe) \<Rightarrow>
         if parsed rc then Some (Inr msg, self, w)
         else if length (body msg) < 4 then Some (Inl EAGAIN, self, w)
         else do {
           nn_assert (length (sphdr msg) = 0);
           Some (Inr (msg\<lparr>sphdr := take 4 (body msg), body := drop 4 (body msg)\<rparr>), self, w) } }"

definition nn_xsurveyor_setopt :: "nn_xsurveyor \<Rightarrow> int \<Rightarrow> int \<Rightarrow> bytes \<Rightarrow> (unit rc \<times> nn_xsurveyor) option" where
  "nn_xsurveyor_setopt self level opt optval = Some (Inl ENOPROTOOPT, self)"

definition nn_xsurveyor_sockbase_vfptr :: "'x pipebase_vfptr \<Rightarrow> (nn_xsurveyor, 'x) sockbase_vfptr" where
  "nn_xsurveyor_sockbase_vfptr vf = \<lparr>sk_add = nn_xsurveyor_add, sk_rm = nn_xsurveyor_rm, sk_in = nn_xsurveyor_in,
     sk_out = nn_xsurveyor_out, sk_events = nn_xsurveyor_events, sk_send = Some (nn_xsurveyor_send vf),
     sk_recv = Some (nn_xsurveyor_recv vf), sk_setopt = nn_xsurveyor_setopt\<rparr>"

definition xsurveyor_view :: "nn_xsurveyor sock_view" where
  "xsurveyor_view = \<lparr>v_inv = (\<lambda>s. sched_ok (svr_data s) (svr_inpipes s) \<and> dist_wf (svr_outpipes s) \<and>
       finite (dom (svr_data s)) \<and> card (dom (svr_data s)) \<le> 2 ^ 31),
     v_att = (\<lambda>s. dom (svr_data s)), v_in = (\<lambda>s. pl_active (svr_inpipes s)),
     v_out = (\<lambda>s. set (dpipes (svr_outpipes s))), v_hears = True, v_room = (\<lambda>s. card (dom (svr_data s)) < 2 ^ 31),
     v_msgs = (\<lambda>m. True), v_opts = (\<lambda>s level opt val. True)\<rparr>"

lemma xsurveyor_view_sel [simp]:
  "v_inv xsurveyor_view s \<longleftrightarrow> sched_ok (svr_data s) (svr_inpipes s) \<and> dist_wf (svr_outpipes s) \<and>
     finite (dom (svr_data s)) \<and> card (dom (svr_data s)) \<le> 2 ^ 31"
  "v_att xsurveyor_view s = dom (svr_data s)" "v_in xsurveyor_view s = pl_active (svr_inpipes s)"
  "v_out xsurveyor_view s = set (dpipes (svr_outpipes s))" "v_hears xsurveyor_view"
  "v_room xsurveyor_view s \<longleftrightarrow> card (dom (svr_data s)) < 2 ^ 31" "v_msgs xsurveyor_view m"
  by (simp_all add: xsurveyor_view_def)

context framing_transport begin

lemma xsurveyor_send_ok:
  assumes "sock_good winv xsurveyor_view s w"
  shows "\<exists>d w'. nn_xsurveyor_send vf w s m = Some (Inr (), s\<lparr>svr_outpipes := d\<rparr>, w') \<and>
    nn_dist_send vf w (svr_outpipes s) m None = Some (d, w') \<and> sock_good winv xsurveyor_view (s\<lparr>svr_outpipes := d\<rparr>) w'"
proof -
  note g = sock_goodD [OF assms]
  have d: "dist_wf (svr_outpipes s)" "\<forall>p \<in> set (dpipes (svr_outpipes s)). can_send w p" using g(2,4) by auto
  show ?thesis
    by (rule dist_send_good [OF g(1) d, of m None])
      (use g in \<open>auto simp: nn_xsurveyor_send_def subset_iff intro!: sock_goodI\<close>)
qed

lemma xsurveyor_recv_ok:
  assumes "sock_good winv xsurveyor_view s w"
  obtains fq w' where "nn_xsurveyor_recv vf w s = Some (Inl EAGAIN, s\<lparr>svr_inpipes := fq\<rparr>, w')" "sock_good winv xsurveyor_view (s\<lparr>svr_inpipes := fq\<rparr>) w'"
  | m fq w' where "nn_xsurveyor_recv vf w s = Some (Inr m, s\<lparr>svr_inpipes := fq\<rparr>, w')" "sock_good winv xsurveyor_view (s\<lparr>svr_inpipes := fq\<rparr>) w'"
    "(\<Sum>p \<in> pl_active fq. backlog w' p) < (\<Sum>p \<in> pl_active (svr_inpipes s). backlog w p)"
proof -
  note g = sock_goodD [OF assms]
  have ok: "sched_ok (svr_data s) (svr_inpipes s)" and r: "\<And>p. p \<in> pl_active (svr_inpipes s) \<Longrightarrow> can_recv w p"
    using g(2,3) by auto
  show thesis
  proof (rule sched_recv [OF g(1) ok r])
    assume "nn_fq_recv vf w (svr_inpipes s) = Some (Inl EAGAIN, svr_inpipes s, w)"
    then show thesis using assms by (intro that(1) [of "svr_inpipes s" w]) (simp_all add: nn_xsurveyor_recv_def)
  next
    fix c rc raw fq w'
    assume f: "nn_fq_recv vf w (svr_inpipes s) = Some (Inr (rc AND NOT NN_PIPE_RELEASE, raw, c), fq, w')"
      and pr: "nn_pipe_recv vf w c = Some (rc, raw, w')" and c: "c \<in> pl_active (svr_inpipes s)" and w': "winv w'" "sched_ok (svr_data s) fq"
      and act: "pl_active fq = (if released rc then pl_active (svr_inpipes s) - {c} else pl_active (svr_inpipes s))"
      and snd: "\<And>q. can_send w q \<Longrightarrow> can_send w' q" and rcv: "\<And>q. q \<in> pl_active fq \<Longrightarrow> can_recv w' q"
    have sub: "pl_active fq \<subseteq> pl_active (svr_inpipes s)" using act by auto
    then have gd: "sock_good winv xsurveyor_view (s\<lparr>svr_inpipes := fq\<rparr>) w'"
      using w' rcv snd g(2,4,5,6) by (intro sock_goodI) (simp_all add: subset_iff)
    note less = backlog_less [OF g(1) r [OF c] pr c sub]
    have raw: "\<not> parsed rc \<Longrightarrow> sphdr raw = []" by (rule recv_raw [OF g(1) r [OF c] pr])
    show thesis
    proof (cases "\<not> parsed rc \<and> length (body raw) < 4")
      case True
      then show thesis using f gd by (intro that(1) [of fq w']) (simp_all add: nn_xsurveyor_recv_def)
    next
      case False
      then show thesis using f gd less raw
        by (intro that(2) [of "if parsed rc then raw else raw\<lparr>sphdr := take 4 (body raw), body := drop 4 (body raw)\<rparr>" fq w'])
          (auto simp: nn_xsurveyor_recv_def Let_def)
    qed
  qed
qed

end

sublocale framing_transport \<subseteq> xsurveyor: sp_socket vf winv "nn_xsurveyor_sockbase_vfptr vf" xsurveyor_view nn_xsurveyor_init
proof (unfold_locales, goal_cases)
  case (5 s w p opt)
  note g = sock_goodD [OF 5(1)]
  have "sched_ok ((svr_data s)(p := Some (nn_fq_add p (rcvprio opt)))) (svr_inpipes s)"
    unfolding nn_fq_add_def by (rule sched_add) (use 5 g(2) in \<open>auto simp: opts_ok_def\<close>)
  then show ?case
    using 5 g(1-6) by (auto simp: nn_xsurveyor_sockbase_vfptr_def nn_xsurveyor_add_def opts_ok_def card_insert_if intro!: sock_goodI)
next
  case (6 s w p)
  note g = sock_goodD [OF 6(1)]
  then obtain d l' where l: "svr_data s p = Some d" "nn_fq_rm (svr_inpipes s) d = Some l'"
    "sched_ok ((svr_data s)(p := None)) l'" "pl_active l' = pl_active (svr_inpipes s) - {p}"
    using 6(2) sched_rm [of "svr_data s" "svr_inpipes s" p] by (auto simp: nn_fq_rm_def)
  have wf: "dist_wf (svr_outpipes s)" "finite (dom (svr_data s))" "card (dom (svr_data s)) \<le> 2 ^ 31" using g(2) by auto
  then have "card (dom (svr_data s) - {p}) \<le> 2 ^ 31" using card_Diff1_le [of "dom (svr_data s)" p] by linarith
  then show ?case
    using l wf g(1-6) dist_rm_ok [OF wf(1), of p]
    by (auto simp: nn_xsurveyor_sockbase_vfptr_def nn_xsurveyor_rm_def intro!: sock_goodI)
next
  case (7 s w p)
  note g = sock_goodD [OF 7(1)]
  then obtain d l' where "svr_data s p = Some d" "nn_fq_in (svr_inpipes s) d = Some l'"
    "sched_ok (svr_data s) l'" "pl_active l' = insert p (pl_active (svr_inpipes s))"
    using 7(3,4) sched_activate [of "svr_data s" "svr_inpipes s" p] by (auto simp: nn_fq_in_def)
  then show ?case
    using g(1-6) 7(5) by (auto simp: nn_xsurveyor_sockbase_vfptr_def nn_xsurveyor_in_def intro!: sock_goodI)
next
  case (8 s w p)
  note g = sock_goodD [OF 8(1)]
  have wf: "dist_wf (svr_outpipes s)" "finite (dom (svr_data s))" "card (dom (svr_data s)) \<le> 2 ^ 31" using g(2) by auto
  have "length (dpipes (svr_outpipes s)) < 2 ^ 31"
    by (rule dist_room [OF wf(1) _ wf(2,3)]) (use 8 g(6) in auto)
  then obtain d where "nn_dist_out (svr_outpipes s) p = Some d" "dist_wf d"
    "set (dpipes d) = insert p (set (dpipes (svr_outpipes s)))"
    using dist_out_ok [OF wf(1), of p] 8(3) by auto
  then show ?case
    using 8(2,4) g(1-6) by (auto simp: nn_xsurveyor_sockbase_vfptr_def nn_xsurveyor_out_def intro!: sock_goodI)
      (metis domD subsetD)+
next
  case (9 s w f m)
  then show ?case
    using xsurveyor_send_ok [OF 9(1), of m] by (auto simp: nn_xsurveyor_sockbase_vfptr_def)
next
  case (10 s w h)
  have h: "h = nn_xsurveyor_recv vf" using 10(2) by (simp add: nn_xsurveyor_sockbase_vfptr_def)
  show ?case by (rule xsurveyor_recv_ok [OF 10(1)]) (auto simp: h)
next
  case (11 s w level nm val)
  then show ?case by (simp add: nn_xsurveyor_sockbase_vfptr_def nn_xsurveyor_setopt_def)
qed (auto simp: nn_xsurveyor_init_def nn_fq_init_def sched_init pl_inv_init dist_wf_init)

section \<open>Cooked socket\<close>

definition NN_SURVEYOR :: int where
  "NN_SURVEYOR = 98"

definition NN_SURVEYOR_DEADLINE :: int where
  "NN_SURVEYOR_DEADLINE = 1"

definition NN_SURVEYOR_DEFAULT_DEADLINE :: int where
  "NN_SURVEYOR_DEFAULT_DEADLINE = 1000"

datatype surveyor_state = SV_IDLE | SV_PASSIVE | SV_ACTIVE | SV_CANCELLING | SV_STOPPING_TIMER | SV_STOPPING

datatype surveyor_input = SV_FSM_START | SV_FSM_STOP | SV_ACTION_START | SV_ACTION_CANCEL | SV_DEADLINE_TIMER timer_event

text \<open>\<open>sv_gone\<close>: \<^verbatim>\<open>nn_sockbase_stopped\<close> was called.\<close>

record nn_surveyor =
  sv_x :: nn_xsurveyor
  sv_fsm :: fsm_state
  sv_state :: surveyor_state
  surveyid :: u32
  sv_timer :: nn_timer
  tosend :: sp_msg
  deadline :: int
  timedout :: bool
  sv_gone :: bool

definition nn_surveyor_inprogress :: "nn_surveyor \<Rightarrow> bool" where
  "nn_surveyor_inprogress self \<longleftrightarrow> \<not> (sv_state self = SV_IDLE \<or> sv_state self = SV_PASSIVE \<or> sv_state self = SV_STOPPING)"

definition nn_surveyor_resend :: "'x pipebase_vfptr \<Rightarrow> 'x world \<Rightarrow> nn_surveyor \<Rightarrow> (nn_surveyor \<times> 'x world) option" where
  "nn_surveyor_resend vf w self = do {
     (rc, x, w) \<leftarrow> nn_xsurveyor_send vf w (sv_x self) (tosend self);
     nn_assert (rc = Inr ());
     Some (self\<lparr>sv_x := x\<rparr>, w) }"

text \<open>The survey is sent and its deadline starts.\<close>

definition surveyor_start :: "'x pipebase_vfptr \<Rightarrow> 'x world \<Rightarrow> nn_surveyor \<Rightarrow> (nn_surveyor \<times> 'x world) option" where
  "surveyor_start vf w self = do {
     (self, w) \<leftarrow> nn_surveyor_resend vf w self;
     t \<leftarrow> nn_timer_start (sv_timer self) (deadline self);
     Some (self\<lparr>sv_timer := t, sv_state := SV_ACTIVE\<rparr>, w) }"

definition surveyor_timer_stop :: "nn_surveyor \<Rightarrow> nn_surveyor option" where
  "surveyor_timer_stop self = do { t \<leftarrow> nn_timer_stop (sv_timer self); Some (self\<lparr>sv_timer := t\<rparr>) }"

definition nn_surveyor_handler ::
  "'x pipebase_vfptr \<Rightarrow> 'x world \<Rightarrow> nn_surveyor \<Rightarrow> surveyor_input \<Rightarrow> (nn_surveyor \<times> 'x world) option" where
  "nn_surveyor_handler vf w self input = (case (sv_state self, input) of
     (SV_IDLE, SV_FSM_START) \<Rightarrow> Some (self\<lparr>sv_state := SV_PASSIVE\<rparr>, w)
   | (SV_PASSIVE, SV_ACTION_START) \<Rightarrow> surveyor_start vf w self
   | (SV_ACTIVE, SV_ACTION_CANCEL) \<Rightarrow> do { self \<leftarrow> surveyor_timer_stop self; Some (self\<lparr>sv_state := SV_CANCELLING\<rparr>, w) }
   | (SV_ACTIVE, SV_DEADLINE_TIMER NN_TIMER_TIMEOUT) \<Rightarrow> do {
       self \<leftarrow> surveyor_timer_stop self;
       Some (self\<lparr>sv_state := SV_STOPPING_TIMER, timedout := True\<rparr>, w) }
   | (SV_CANCELLING, SV_ACTION_CANCEL) \<Rightarrow> Some (self, w)
   | (SV_CANCELLING, SV_DEADLINE_TIMER NN_TIMER_STOPPED) \<Rightarrow> surveyor_start vf w self
   | (SV_STOPPING_TIMER, SV_ACTION_CANCEL) \<Rightarrow> Some (self\<lparr>sv_state := SV_CANCELLING\<rparr>, w)
   | (SV_STOPPING_TIMER, SV_DEADLINE_TIMER NN_TIMER_STOPPED) \<Rightarrow> Some (self\<lparr>sv_state := SV_PASSIVE\<rparr>, w)
   | _ \<Rightarrow> None)"

definition nn_surveyor_shutdown :: "nn_surveyor \<Rightarrow> surveyor_input \<Rightarrow> nn_surveyor option" where
  "nn_surveyor_shutdown self input = do {
     self \<leftarrow> (if input = SV_FSM_STOP then do {
         self \<leftarrow> surveyor_timer_stop self;
         Some (self\<lparr>sv_state := SV_STOPPING\<rparr>) } else Some self);
     if sv_state self = SV_STOPPING then
       (if \<not> nn_timer_isidle (sv_timer self) then Some self
        else do {
          nn_assert (sv_fsm self = FSM_STOPPING);
          Some (self\<lparr>sv_state := SV_IDLE, sv_fsm := FSM_IDLE, sv_gone := True\<rparr>) })
     else None }"

text \<open>\<^verbatim>\<open>nn_fsm_feed\<close>.\<close>

definition nn_surveyor_feed ::
  "'x pipebase_vfptr \<Rightarrow> 'x world \<Rightarrow> nn_surveyor \<Rightarrow> surveyor_input \<Rightarrow> (nn_surveyor \<times> 'x world) option" where
  "nn_surveyor_feed vf w self input =
     (if sv_fsm self \<noteq> FSM_STOPPING then nn_surveyor_handler vf w self input
      else map_option (\<lambda>s. (s, w)) (nn_surveyor_shutdown self input))"

definition nn_surveyor_init :: "'x pipebase_vfptr \<Rightarrow> 'x world \<Rightarrow> u32 \<Rightarrow> nn_surveyor option" where
  "nn_surveyor_init vf w id0 = do {
     let self = \<lparr>sv_x = nn_xsurveyor_init, sv_fsm = FSM_IDLE, sv_state = SV_IDLE, surveyid = id0, sv_timer = nn_timer_init,
       tosend = empty_msg, deadline = NN_SURVEYOR_DEFAULT_DEADLINE, timedout = False, sv_gone = False\<rparr>;
     (self, w) \<leftarrow> nn_surveyor_handler vf w self SV_FSM_START;
     Some (self\<lparr>sv_fsm := FSM_ACTIVE\<rparr>) }"

definition nn_surveyor_term :: "nn_surveyor \<Rightarrow> unit option" where
  "nn_surveyor_term self = do {
     nn_timer_term (sv_timer self);
     nn_assert (sv_fsm self = FSM_IDLE);
     nn_xsurveyor_term (sv_x self) }"

definition nn_surveyor_stop :: "nn_surveyor \<Rightarrow> nn_surveyor option" where
  "nn_surveyor_stop self =
     (if sv_fsm self \<noteq> FSM_ACTIVE then Some self
      else nn_surveyor_shutdown (self\<lparr>sv_fsm := FSM_STOPPING\<rparr>) SV_FSM_STOP)"

definition nn_surveyor_events :: "nn_surveyor \<Rightarrow> u32" where
  "nn_surveyor_events self =
     (let rc = nn_xsurveyor_events (sv_x self)
      in if \<not> nn_surveyor_inprogress self then rc OR NN_SOCKBASE_EVENT_IN else rc)"

definition nn_surveyor_send ::
  "'x pipebase_vfptr \<Rightarrow> 'x world \<Rightarrow> nn_surveyor \<Rightarrow> sp_msg \<Rightarrow> (unit rc \<times> nn_surveyor \<times> 'x world) option" where
  "nn_surveyor_send vf w self msg = do {
     let self = self\<lparr>surveyid := (surveyid self + 1) OR 0x80000000\<rparr>;
     nn_assert (length (sphdr msg) = 0);
     hdr \<leftarrow> nn_putl (replicate 4 0) (surveyid self);
     let self = self\<lparr>tosend := msg\<lparr>sphdr := hdr\<rparr>\<rparr>;
     if nn_surveyor_inprogress self then
       (if nn_xsurveyor_events (sv_x self) AND NN_SOCKBASE_EVENT_OUT = 0 then Some (Inl EAGAIN, self, w)
        else do {
          (self, w) \<leftarrow> nn_surveyor_feed vf w self SV_ACTION_CANCEL;
          Some (Inr (), self, w) })
     else do {
       (self, w) \<leftarrow> nn_surveyor_feed vf w self SV_ACTION_START;
       Some (Inr (), self, w) } }"

partial_function (option) survey_recv_loop ::
  "'x pipebase_vfptr \<Rightarrow> 'x world \<Rightarrow> nn_surveyor \<Rightarrow> (sp_msg rc \<times> nn_surveyor \<times> 'x world) option" where
  "survey_recv_loop vf w self = do {
     (rc, x, w) \<leftarrow> nn_xsurveyor_recv vf w (sv_x self);
     let self = self\<lparr>sv_x := x\<rparr>;
     case rc of
       Inl e \<Rightarrow> do { nn_assert (e = EAGAIN); Some (Inl EAGAIN, self, w) }
     | Inr msg \<Rightarrow>
         if length (sphdr msg) \<noteq> 4 then survey_recv_loop vf w self
         else do {
           i \<leftarrow> nn_getl (sphdr msg);
           if i \<noteq> surveyid self then survey_recv_loop vf w self
           else Some (Inr (msg\<lparr>sphdr := []\<rparr>), self, w) } }"

declare survey_recv_loop.simps [code]

definition nn_surveyor_recv ::
  "'x pipebase_vfptr \<Rightarrow> 'x world \<Rightarrow> nn_surveyor \<Rightarrow> (sp_msg rc \<times> nn_surveyor \<times> 'x world) option" where
  "nn_surveyor_recv vf w self =
     (if \<not> nn_surveyor_inprogress self then
        (if timedout self then Some (Inl ETIMEDOUT, self\<lparr>timedout := False\<rparr>, w) else Some (Inl EFSM, self, w))
      else survey_recv_loop vf w self)"

definition nn_surveyor_setopt :: "nn_surveyor \<Rightarrow> int \<Rightarrow> int \<Rightarrow> bytes \<Rightarrow> (unit rc \<times> nn_surveyor) option" where
  "nn_surveyor_setopt self level opt optval =
     (if level \<noteq> NN_SURVEYOR then Some (Inl ENOPROTOOPT, self)
      else if opt = NN_SURVEYOR_DEADLINE then
        (if length optval \<noteq> 4 then Some (Inl EINVAL, self)
         else do { ms \<leftarrow> int_option optval; Some (Inr (), self\<lparr>deadline := ms\<rparr>) })
      else Some (Inl ENOPROTOOPT, self))"

definition nn_surveyor_getopt :: "nn_surveyor \<Rightarrow> int \<Rightarrow> int \<Rightarrow> nat \<Rightarrow> int rc" where
  "nn_surveyor_getopt self level opt optvallen =
     (if level \<noteq> NN_SURVEYOR then Inl ENOPROTOOPT
      else if opt = NN_SURVEYOR_DEADLINE then (if optvallen < 4 then Inl EINVAL else Inr (deadline self))
      else Inl ENOPROTOOPT)"

definition on_sv_x :: "nn_surveyor \<Rightarrow> (nn_xsurveyor \<times> 'a) option \<Rightarrow> (nn_surveyor \<times> 'a) option" where
  "on_sv_x self r = map_option (map_prod (\<lambda>x. self\<lparr>sv_x := x\<rparr>) id) r"

definition nn_surveyor_sockbase_vfptr :: "'x pipebase_vfptr \<Rightarrow> (nn_surveyor, 'x) sockbase_vfptr" where
  "nn_surveyor_sockbase_vfptr vf = \<lparr>
     sk_add = (\<lambda>s p opt. map_option (map_prod id (\<lambda>x. s\<lparr>sv_x := x\<rparr>)) (nn_xsurveyor_add (sv_x s) p opt)),
     sk_rm = (\<lambda>w s p. on_sv_x s (nn_xsurveyor_rm w (sv_x s) p)),
     sk_in = (\<lambda>w s p. on_sv_x s (nn_xsurveyor_in w (sv_x s) p)),
     sk_out = (\<lambda>w s p. on_sv_x s (nn_xsurveyor_out w (sv_x s) p)),
     sk_events = nn_surveyor_events, sk_send = Some (nn_surveyor_send vf), sk_recv = Some (nn_surveyor_recv vf),
     sk_setopt = nn_surveyor_setopt\<rparr>"

definition surveyor_pop :: "nn_surveyor \<times> 'x world \<Rightarrow> (timer_event \<times> nn_surveyor \<times> 'x world) option" where
  "surveyor_pop sw = map_option (\<lambda>(e, t). (e, (fst sw)\<lparr>sv_timer := t\<rparr>, snd sw)) (timer_take (sv_timer (fst sw)))"

definition nn_surveyor_tick :: "'x pipebase_vfptr \<Rightarrow> tick \<Rightarrow> 'x world \<Rightarrow> nn_surveyor \<Rightarrow> (nn_surveyor \<times> 'x world) option" where
  "nn_surveyor_tick vf k w self = do {
     t \<leftarrow> timer_tick k (sv_timer self);
     nn_ctx_leave surveyor_pop (\<lambda>e (s, w). nn_surveyor_feed vf w s (SV_DEADLINE_TIMER e)) (self\<lparr>sv_timer := t\<rparr>, w) }"

section \<open>Contract\<close>

definition sv_timer_state :: "surveyor_state \<Rightarrow> fsm_state \<Rightarrow> bool" where
  "sv_timer_state st f \<longleftrightarrow> (case st of SV_PASSIVE \<Rightarrow> f = FSM_IDLE | SV_ACTIVE \<Rightarrow> f = FSM_ACTIVE
   | SV_CANCELLING \<Rightarrow> f = FSM_STOPPING | SV_STOPPING_TIMER \<Rightarrow> f = FSM_STOPPING | SV_IDLE \<Rightarrow> False | SV_STOPPING \<Rightarrow> False)"

definition sv_core :: "nn_surveyor \<Rightarrow> bool" where
  "sv_core s \<longleftrightarrow> sv_fsm s = FSM_ACTIVE \<and> 0 \<le> deadline s \<and> timer_inv (sv_timer s) \<and> tm_raised (sv_timer s) = [] \<and>
     sv_timer_state (sv_state s) (tm_fsm (sv_timer s))"

definition sv_opts :: "nn_surveyor \<Rightarrow> int \<Rightarrow> int \<Rightarrow> bytes \<Rightarrow> bool" where
  "sv_opts s level opt val \<longleftrightarrow> (\<forall>i. int_option val = Some i \<longrightarrow> 0 \<le> i)"

definition surveyor_view :: "nn_surveyor sock_view" where
  "surveyor_view = \<lparr>v_inv = (\<lambda>s. v_inv xsurveyor_view (sv_x s) \<and> sv_core s), v_att = (\<lambda>s. dom (svr_data (sv_x s))),
     v_in = (\<lambda>s. pl_active (svr_inpipes (sv_x s))), v_out = (\<lambda>s. set (dpipes (svr_outpipes (sv_x s)))), v_hears = True,
     v_room = (\<lambda>s. v_room xsurveyor_view (sv_x s)), v_msgs = (\<lambda>m. sphdr m = []), v_opts = sv_opts\<rparr>"

lemma surveyor_view_sel:
  "v_inv surveyor_view s \<longleftrightarrow> v_inv xsurveyor_view (sv_x s) \<and> sv_core s" "v_att surveyor_view s = v_att xsurveyor_view (sv_x s)"
  "v_in surveyor_view s = v_in xsurveyor_view (sv_x s)" "v_out surveyor_view s = v_out xsurveyor_view (sv_x s)"
  "v_hears surveyor_view = v_hears xsurveyor_view" "v_room surveyor_view s = v_room xsurveyor_view (sv_x s)"
  "v_msgs surveyor_view m \<longleftrightarrow> sphdr m = []" "v_opts surveyor_view = sv_opts"
  by (simp_all add: surveyor_view_def)

lemma surveyor_good: "sock_good winv surveyor_view s w \<longleftrightarrow> sock_good winv xsurveyor_view (sv_x s) w \<and> sv_core s"
  unfolding sock_good_def sock_ready_def surveyor_view_sel by auto

lemma sv_core_x [simp]: "sv_core (s\<lparr>sv_x := x\<rparr>) = sv_core s"
  by (simp add: sv_core_def)

lemma sv_stop_ok:
  assumes "sv_core s" "sv_state s = SV_ACTIVE"
  shows "\<exists>t. surveyor_timer_stop s = Some (s\<lparr>sv_timer := t\<rparr>) \<and> timer_inv t \<and> tm_raised t = [] \<and> tm_fsm t = FSM_STOPPING"
  using timer_stop_ok [of "sv_timer s"] assms by (auto simp: surveyor_timer_stop_def sv_core_def sv_timer_state_def)

text \<open>Starting a survey: every ready pipe gets it, and the deadline starts.\<close>

definition survey_sent :: "'x pipebase_vfptr \<Rightarrow> nn_surveyor \<Rightarrow> 'x world \<Rightarrow> nn_surveyor \<Rightarrow> 'x world \<Rightarrow> bool" where
  "survey_sent vf s w s' w' \<longleftrightarrow> sv_state s' = SV_ACTIVE \<and> surveyid s' = surveyid s \<and> tosend s' = tosend s \<and>
     tm_fsm (sv_timer s') = FSM_ACTIVE \<and>
     nn_dist_send vf w (svr_outpipes (sv_x s)) (tosend s) None = Some (svr_outpipes (sv_x s'), w')"

text \<open>Receiving responses: a run of receives on the raw socket, and what a call comes to.\<close>

inductive xsurveyor_run :: "'x pipebase_vfptr \<Rightarrow> 'x world \<Rightarrow> nn_xsurveyor \<Rightarrow> sp_msg list \<Rightarrow> 'x world \<Rightarrow> nn_xsurveyor \<Rightarrow> bool" for vf where
  svrun_nil: "xsurveyor_run vf w x [] w x"
| svrun_cons: "nn_xsurveyor_recv vf w x = Some (Inr m, x1, w1) \<Longrightarrow> xsurveyor_run vf w1 x1 ms w2 x2 \<Longrightarrow> xsurveyor_run vf w x (m # ms) w2 x2"

definition survey_recv_result :: "'x pipebase_vfptr \<Rightarrow> nn_surveyor \<Rightarrow> 'x world \<Rightarrow> nn_xsurveyor \<Rightarrow> sp_msg rc \<Rightarrow> nn_xsurveyor \<Rightarrow> 'x world \<Rightarrow> bool" where
  "survey_recv_result vf s w1 x1 rc x' w' \<longleftrightarrow> (case rc of
     Inl e \<Rightarrow> e = EAGAIN \<and> nn_xsurveyor_recv vf w1 x1 = Some (Inl EAGAIN, x', w')
   | Inr m \<Rightarrow> sphdr m = [] \<and> nn_xsurveyor_recv vf w1 x1 = Some (Inr (m\<lparr>sphdr := be32 (surveyid s)\<rparr>), x', w'))"

lemma sphdr_same: "sphdr m = h \<Longrightarrow> m\<lparr>sphdr := h\<rparr> = m"
  by (cases m) simp

lemma survey_recv_stale:
  assumes "nn_xsurveyor_recv vf w (sv_x s) = Some (Inr m, x, w1)" "sphdr m \<noteq> be32 (surveyid s)"
  shows "survey_recv_loop vf w s = survey_recv_loop vf w1 (s\<lparr>sv_x := x\<rparr>)"
proof (cases "length (sphdr m) = 4")
  case False
  then show ?thesis using assms(1) by (subst survey_recv_loop.simps) simp
next
  case True
  then obtain v where v: "nn_getl (sphdr m) = Some v" by (simp add: nn_getl_def)
  then have "v \<noteq> surveyid s" using assms(2) True getl_exact by auto
  then show ?thesis using assms(1) True v by (subst survey_recv_loop.simps) simp
qed

lemma surveyor_tick_event:
  assumes "timer_tick k (sv_timer s) = Some t" "tm_raised t = [e]"
    "nn_surveyor_feed vf w (s\<lparr>sv_timer := t\<lparr>tm_raised := []\<rparr>\<rparr>) (SV_DEADLINE_TIMER e) = Some (s2, w2)"
    "tm_raised (sv_timer s2) = []"
  shows "nn_surveyor_tick vf k w s = Some (s2, w2)"
proof -
  have "surveyor_pop (s\<lparr>sv_timer := t\<rparr>, w) = Some (e, s\<lparr>sv_timer := t\<lparr>tm_raised := []\<rparr>\<rparr>, w)"
    using assms(2) by (simp add: surveyor_pop_def timer_take_def)
  moreover have "surveyor_pop (s2, w2) = None" using assms(4) by (simp add: surveyor_pop_def timer_take_def)
  ultimately have "nn_ctx_leave surveyor_pop (\<lambda>e (s, w). nn_surveyor_feed vf w s (SV_DEADLINE_TIMER e)) (s\<lparr>sv_timer := t\<rparr>, w) = Some (s2, w2)"
    by (intro nn_ctx_leave_one) (auto simp: assms(3))
  then show ?thesis using assms(1) by (simp add: nn_surveyor_tick_def)
qed

context framing_transport begin

lemma surveyor_start_ok:
  assumes g: "sock_good winv xsurveyor_view (sv_x s) w" and t: "timer_inv (sv_timer s)" "tm_fsm (sv_timer s) = FSM_IDLE" "tm_raised (sv_timer s) = []"
    and c: "sv_fsm s = FSM_ACTIVE" "0 \<le> deadline s"
  shows "\<exists>s' w'. surveyor_start vf w s = Some (s', w') \<and> sock_good winv surveyor_view s' w' \<and> survey_sent vf s w s' w'"
proof -
  obtain d w' where d: "nn_xsurveyor_send vf w (sv_x s) (tosend s) = Some (Inr (), sv_x s\<lparr>svr_outpipes := d\<rparr>, w')"
    "nn_dist_send vf w (svr_outpipes (sv_x s)) (tosend s) None = Some (d, w')" "sock_good winv xsurveyor_view (sv_x s\<lparr>svr_outpipes := d\<rparr>) w'"
    using xsurveyor_send_ok [OF g, of "tosend s"] by blast
  obtain t' where t': "nn_timer_start (sv_timer s) (deadline s) = Some t'" "timer_inv t'" "tm_fsm t' = FSM_ACTIVE" "tm_raised t' = []"
    using timer_start_ok [OF t(1) _ c(2)] t(2,3) by (auto simp: nn_timer_isidle_def)
  let ?s = "s\<lparr>sv_x := sv_x s\<lparr>svr_outpipes := d\<rparr>, sv_timer := t', sv_state := SV_ACTIVE\<rparr>"
  have "surveyor_start vf w s = Some (?s, w')" using d(1) t'(1) by (simp add: surveyor_start_def nn_surveyor_resend_def)
  moreover have "sock_good winv surveyor_view ?s w'" using d(3) t' c by (simp add: surveyor_good sv_core_def sv_timer_state_def)
  ultimately show ?thesis using d(2) t'(3) by (intro exI [of _ ?s] exI [of _ w']) (simp add: survey_sent_def)
qed

lemma surveyor_tick_ok:
  assumes "sock_good winv surveyor_view s w"
  shows "\<exists>s' w'. nn_surveyor_tick vf k w s = Some (s', w') \<and> sock_good winv surveyor_view s' w'"
proof -
  have g: "sock_good winv xsurveyor_view (sv_x s) w" "sv_core s" using assms by (auto simp: surveyor_good)
  have c: "timer_inv (sv_timer s)" "tm_raised (sv_timer s) = []" "sv_fsm s = FSM_ACTIVE" "0 \<le> deadline s" using g(2) by (auto simp: sv_core_def)
  show ?thesis
  proof (rule timer_tick_ok [OF c(1,2), of k])
    fix t' assume t': "timer_tick k (sv_timer s) = Some t'" "timer_inv t'" "tm_fsm t' = tm_fsm (sv_timer s)" "tm_raised t' = []"
    have "nn_surveyor_tick vf k w s = Some (s\<lparr>sv_timer := t'\<rparr>, w)"
      using t'(1,4) by (simp add: nn_surveyor_tick_def surveyor_pop_def timer_take_def)
    then show ?thesis using g t' by (simp add: surveyor_good sv_core_def)
  next
    fix t' assume t': "timer_tick k (sv_timer s) = Some t'" "timer_inv t'" "tm_fsm (sv_timer s) = FSM_ACTIVE" "tm_fsm t' = FSM_ACTIVE" "tm_raised t' = [NN_TIMER_TIMEOUT]"
    have st: "sv_state s = SV_ACTIVE" using g(2) t'(3) by (cases "sv_state s") (auto simp: sv_core_def sv_timer_state_def)
    let ?s1 = "s\<lparr>sv_timer := t'\<lparr>tm_raised := []\<rparr>\<rparr>"
    have "timer_inv (t'\<lparr>tm_raised := []\<rparr>)" using timer_take_ok [OF t'(2), of NN_TIMER_TIMEOUT] t'(5) by (simp add: timer_take_def)
    then have "sv_core ?s1" using g(2) st t'(4) by (simp add: sv_core_def sv_timer_state_def)
    then obtain t where t: "surveyor_timer_stop ?s1 = Some (?s1\<lparr>sv_timer := t\<rparr>)" "timer_inv t" "tm_raised t = []" "tm_fsm t = FSM_STOPPING"
      using sv_stop_ok [of ?s1] st by auto
    let ?s2 = "?s1\<lparr>sv_timer := t, sv_state := SV_STOPPING_TIMER, timedout := True\<rparr>"
    have "nn_surveyor_feed vf w ?s1 (SV_DEADLINE_TIMER NN_TIMER_TIMEOUT) = Some (?s2, w)"
      using t(1) st c(3) by (simp add: nn_surveyor_feed_def nn_surveyor_handler_def)
    then have "nn_surveyor_tick vf k w s = Some (?s2, w)" by (rule surveyor_tick_event [OF t'(1,5)]) (simp add: t)
    then show ?thesis using g t by (auto simp: surveyor_good sv_core_def sv_timer_state_def)
  next
    fix t' assume t': "timer_tick k (sv_timer s) = Some t'" "timer_inv t'" "tm_fsm (sv_timer s) = FSM_STOPPING" "tm_fsm t' = FSM_IDLE" "tm_raised t' = [NN_TIMER_STOPPED]"
    let ?s1 = "s\<lparr>sv_timer := t'\<lparr>tm_raised := []\<rparr>\<rparr>"
    have ti: "timer_inv (t'\<lparr>tm_raised := []\<rparr>)" using timer_take_ok [OF t'(2), of NN_TIMER_STOPPED] t'(5) by (simp add: timer_take_def)
    have "\<exists>s2 w2. nn_surveyor_feed vf w ?s1 (SV_DEADLINE_TIMER NN_TIMER_STOPPED) = Some (s2, w2) \<and> sock_good winv surveyor_view s2 w2"
    proof (cases "sv_state s = SV_CANCELLING")
      case True
      then show ?thesis
        using surveyor_start_ok [of ?s1 w] g ti t'(4) c(3,4) by (auto simp: nn_surveyor_feed_def nn_surveyor_handler_def)
    next
      case False
      then have "sv_state s = SV_STOPPING_TIMER" using g(2) t'(3) by (cases "sv_state s") (auto simp: sv_core_def sv_timer_state_def)
      then show ?thesis using g ti t'(4) by (simp add: nn_surveyor_feed_def nn_surveyor_handler_def surveyor_good sv_core_def sv_timer_state_def)
    qed
    then obtain s2 w2 where s2: "nn_surveyor_feed vf w ?s1 (SV_DEADLINE_TIMER NN_TIMER_STOPPED) = Some (s2, w2)" "sock_good winv surveyor_view s2 w2" by blast
    then have "nn_surveyor_tick vf k w s = Some (s2, w2)"
      by (intro surveyor_tick_event [OF t'(1,5) s2(1)]) (simp add: surveyor_good sv_core_def)
    then show ?thesis using s2(2) by blast
  qed
qed

text \<open>A new survey, in any state.\<close>

lemma surveyor_send_ok:
  assumes "sock_good winv surveyor_view s w" "sphdr m = []"
  shows "\<exists>s' w'. nn_surveyor_send vf w s m = Some (Inr (), s', w') \<and> sock_good winv surveyor_view s' w' \<and>
    surveyid s' = (surveyid s + 1) OR 0x80000000 \<and> tosend s' = m\<lparr>sphdr := be32 (surveyid s')\<rparr> \<and>
    (sv_state s = SV_PASSIVE \<longrightarrow> sv_state s' = SV_ACTIVE \<and>
       nn_dist_send vf w (svr_outpipes (sv_x s)) (tosend s') None = Some (svr_outpipes (sv_x s'), w')) \<and>
    (sv_state s \<noteq> SV_PASSIVE \<longrightarrow> sv_state s' = SV_CANCELLING \<and> w' = w)"
proof -
  let ?i = "(surveyid s + 1) OR 0x80000000"
  let ?s = "s\<lparr>surveyid := ?i, tosend := m\<lparr>sphdr := be32 ?i\<rparr>\<rparr>"
  have g: "sock_good winv xsurveyor_view (sv_x s) w" "sv_core ?s" using assms(1) by (auto simp: surveyor_good sv_core_def)
  have put: "nn_putl (replicate 4 0) k = Some (be32 k)" for k by (rule nn_putl_be32) simp
  have ev: "nn_xsurveyor_events x AND NN_SOCKBASE_EVENT_OUT \<noteq> 0" for x
    by (simp add: nn_xsurveyor_events_def NN_SOCKBASE_EVENT_OUT_def NN_SOCKBASE_EVENT_IN_def Let_def)
  show ?thesis
  proof (cases "sv_state s = SV_PASSIVE")
    case True
    then have "\<exists>s' w'. surveyor_start vf w ?s = Some (s', w') \<and> sock_good winv surveyor_view s' w' \<and> survey_sent vf ?s w s' w'"
      using g by (intro surveyor_start_ok) (auto simp: sv_core_def sv_timer_state_def)
    then obtain s' w' where s': "surveyor_start vf w ?s = Some (s', w')" "sock_good winv surveyor_view s' w'" "survey_sent vf ?s w s' w'" by blast
    have "nn_surveyor_send vf w s m = Some (Inr (), s', w')"
      using True s'(1) assms(2) put g(2)
      by (simp add: nn_surveyor_send_def nn_surveyor_inprogress_def nn_surveyor_feed_def nn_surveyor_handler_def sv_core_def)
    then show ?thesis using s'(2,3) True by (auto simp: survey_sent_def)
  next
    case False
    have "\<exists>t. nn_surveyor_feed vf w ?s SV_ACTION_CANCEL = Some (?s\<lparr>sv_timer := t, sv_state := SV_CANCELLING\<rparr>, w) \<and>
        sv_core (?s\<lparr>sv_timer := t, sv_state := SV_CANCELLING\<rparr>)"
    proof (cases "sv_state s = SV_ACTIVE")
      case True
      then obtain t where "surveyor_timer_stop ?s = Some (?s\<lparr>sv_timer := t\<rparr>)" "timer_inv t" "tm_raised t = []" "tm_fsm t = FSM_STOPPING"
        using sv_stop_ok [OF g(2)] by auto
      then show ?thesis
        using True g(2) by (intro exI [of _ t]) (simp add: nn_surveyor_feed_def nn_surveyor_handler_def sv_core_def sv_timer_state_def)
    next
      case na: False
      then have "sv_state s = SV_CANCELLING \<or> sv_state s = SV_STOPPING_TIMER"
        using False g(2) by (cases "sv_state s") (auto simp: sv_core_def sv_timer_state_def)
      then show ?thesis
        using g(2) by (intro exI [of _ "sv_timer s"]) (auto simp: nn_surveyor_feed_def nn_surveyor_handler_def sv_core_def sv_timer_state_def)
    qed
    then obtain t where t: "nn_surveyor_feed vf w ?s SV_ACTION_CANCEL = Some (?s\<lparr>sv_timer := t, sv_state := SV_CANCELLING\<rparr>, w)"
      "sv_core (?s\<lparr>sv_timer := t, sv_state := SV_CANCELLING\<rparr>)" by blast
    have "sv_state s \<noteq> SV_IDLE" "sv_state s \<noteq> SV_STOPPING" using g(2) by (auto simp: sv_core_def sv_timer_state_def)
    then have "nn_surveyor_send vf w s m = Some (Inr (), ?s\<lparr>sv_timer := t, sv_state := SV_CANCELLING\<rparr>, w)"
      using False t(1) assms(2) put ev by (simp add: nn_surveyor_send_def nn_surveyor_inprogress_def)
    then show ?thesis using t(2) g(1) False by (simp add: surveyor_good)
  qed
qed

text \<open>The first response of the current survey is returned, and those of other surveys that come before
  it are dropped.\<close>

lemma survey_recv_loop_ok:
  assumes "sock_good winv surveyor_view s w"
  shows "\<exists>ms w1 x1 rc s' w'. xsurveyor_run vf w (sv_x s) ms w1 x1 \<and> (\<forall>m \<in> set ms. sphdr m \<noteq> be32 (surveyid s)) \<and>
    survey_recv_loop vf w s = Some (rc, s', w') \<and> sock_good winv surveyor_view s' w' \<and> s' = s\<lparr>sv_x := sv_x s'\<rparr> \<and>
    survey_recv_result vf s w1 x1 rc (sv_x s') w'"
  using assms
proof (induction "\<Sum>p \<in> pl_active (svr_inpipes (sv_x s)). backlog w p" arbitrary: s w rule: less_induct)
  case less
  have g: "sock_good winv xsurveyor_view (sv_x s) w" "sv_core s" using less(2) by (auto simp: surveyor_good)
  show ?case
  proof (rule xsurveyor_recv_ok [OF g(1)])
    fix fq w1 assume r: "nn_xsurveyor_recv vf w (sv_x s) = Some (Inl EAGAIN, sv_x s\<lparr>svr_inpipes := fq\<rparr>, w1)"
      "sock_good winv xsurveyor_view (sv_x s\<lparr>svr_inpipes := fq\<rparr>) w1"
    let ?s = "s\<lparr>sv_x := sv_x s\<lparr>svr_inpipes := fq\<rparr>\<rparr>"
    have "survey_recv_loop vf w s = Some (Inl EAGAIN, ?s, w1)" using r(1) by (subst survey_recv_loop.simps) simp
    moreover have "sock_good winv surveyor_view ?s w1" using r(2) g(2) by (simp add: surveyor_good)
    ultimately show ?thesis
      using svrun_nil [of vf w "sv_x s"] r(1) by (intro exI [of _ "[]"]) (auto simp: survey_recv_result_def)
  next
    fix m fq w1 assume r: "nn_xsurveyor_recv vf w (sv_x s) = Some (Inr m, sv_x s\<lparr>svr_inpipes := fq\<rparr>, w1)"
      "sock_good winv xsurveyor_view (sv_x s\<lparr>svr_inpipes := fq\<rparr>) w1"
      "(\<Sum>p \<in> pl_active fq. backlog w1 p) < (\<Sum>p \<in> pl_active (svr_inpipes (sv_x s)). backlog w p)"
    let ?s = "s\<lparr>sv_x := sv_x s\<lparr>svr_inpipes := fq\<rparr>\<rparr>"
    have gs: "sock_good winv surveyor_view ?s w1" using r(2) g(2) by (simp add: surveyor_good)
    show ?thesis
    proof (cases "sphdr m = be32 (surveyid s)")
      case True
      then have "survey_recv_loop vf w s = Some (Inr (m\<lparr>sphdr := []\<rparr>), ?s, w1)"
        using r(1) by (subst survey_recv_loop.simps) (simp add: nn_getl_be32')
      then show ?thesis
        using svrun_nil [of vf w "sv_x s"] r(1) gs sphdr_same [OF True]
        by (intro exI [of _ "[]"] exI [of _ w] exI [of _ "sv_x s"]) (simp add: survey_recv_result_def)
    next
      case False
      have l: "survey_recv_loop vf w s = survey_recv_loop vf w1 ?s" by (rule survey_recv_stale [OF r(1) False])
      obtain ms w2 x2 rc s' w' where ih: "xsurveyor_run vf w1 (sv_x ?s) ms w2 x2" "\<forall>m \<in> set ms. sphdr m \<noteq> be32 (surveyid ?s)"
        "survey_recv_loop vf w1 ?s = Some (rc, s', w')" "sock_good winv surveyor_view s' w'" "s' = ?s\<lparr>sv_x := sv_x s'\<rparr>"
        "survey_recv_result vf ?s w2 x2 rc (sv_x s') w'"
        using less(1) [OF _ gs] r(3) by auto
      have "xsurveyor_run vf w (sv_x s) (m # ms) w2 x2" using ih(1) by (intro svrun_cons [OF r(1)]) simp
      moreover have "\<forall>m \<in> set (m # ms). sphdr m \<noteq> be32 (surveyid s)" using ih(2) False by simp
      moreover have "s' = s\<lparr>sv_x := sv_x s'\<rparr>" using ih(5) by simp
      moreover have "survey_recv_result vf s w2 x2 rc (sv_x s') w'" using ih(6) by (auto simp: survey_recv_result_def split: sum.splits)
      ultimately show ?thesis using l ih(3,4) by metis
    qed
  qed
qed

end

definition sv_started :: "u32 \<Rightarrow> nn_surveyor" where
  "sv_started id0 = \<lparr>sv_x = nn_xsurveyor_init, sv_fsm = FSM_ACTIVE, sv_state = SV_PASSIVE, surveyid = id0, sv_timer = nn_timer_init,
     tosend = empty_msg, deadline = NN_SURVEYOR_DEFAULT_DEADLINE, timedout = False, sv_gone = False\<rparr>"

lemma nn_surveyor_init_started: "nn_surveyor_init vf w id0 = Some (sv_started id0)"
  by (simp add: nn_surveyor_init_def nn_surveyor_handler_def sv_started_def)

sublocale framing_transport \<subseteq> surveyor: timed_socket vf winv "nn_surveyor_sockbase_vfptr vf" surveyor_view "sv_started id0" "nn_surveyor_tick vf" for id0
proof (unfold_locales, goal_cases)
  case (5 s w p opt)
  then show ?case
    using xsurveyor.add_law [of "sv_x s" w p opt]
    by (auto simp: surveyor_good nn_surveyor_sockbase_vfptr_def nn_xsurveyor_sockbase_vfptr_def surveyor_view_sel)
next
  case (6 s w p)
  then show ?case
    using xsurveyor.rm_law [of "sv_x s" w p]
    by (auto simp: surveyor_good nn_surveyor_sockbase_vfptr_def nn_xsurveyor_sockbase_vfptr_def surveyor_view_sel on_sv_x_def)
next
  case (7 s w p)
  then show ?case
    using xsurveyor.in_law [of "sv_x s" w p]
    by (auto simp: surveyor_good nn_surveyor_sockbase_vfptr_def nn_xsurveyor_sockbase_vfptr_def surveyor_view_sel on_sv_x_def)
next
  case (8 s w p)
  then show ?case
    using xsurveyor.out_law [of "sv_x s" w p]
    by (auto simp: surveyor_good nn_surveyor_sockbase_vfptr_def nn_xsurveyor_sockbase_vfptr_def surveyor_view_sel on_sv_x_def)
next
  case (9 s w f m)
  then show ?case
    using surveyor_send_ok [OF 9(1), of m] by (auto simp: nn_surveyor_sockbase_vfptr_def surveyor_view_sel)
next
  case (10 s w h)
  have h: "h = nn_surveyor_recv vf" using 10(2) by (simp add: nn_surveyor_sockbase_vfptr_def)
  show ?case
  proof (cases "nn_surveyor_inprogress s")
    case True
    then show ?thesis using survey_recv_loop_ok [OF 10(1)] by (auto simp: h nn_surveyor_recv_def)
  next
    case False
    then show ?thesis using 10(1) by (auto simp: h nn_surveyor_recv_def surveyor_good sv_core_def)
  qed
next
  case (11 s w level nm val)
  then show ?case
    using int_option_some [of val] by (auto simp: nn_surveyor_sockbase_vfptr_def nn_surveyor_setopt_def sv_opts_def surveyor_view_sel surveyor_good sv_core_def)
next
  case (12 s w k)
  then show ?case by (rule surveyor_tick_ok)
next
  case 1
  then show ?case
    using xsurveyor.init_ok(1)
    by (simp add: surveyor_view_sel sv_started_def sv_core_def timer_init_inv sv_timer_state_def NN_SURVEYOR_DEFAULT_DEADLINE_def)
qed (simp_all add: surveyor_view_sel sv_started_def nn_xsurveyor_init_def nn_dist_init_def nn_fq_init_def pl_inv_init)

section \<open>Properties\<close>

text \<open>
  C22: Sending a survey, while none is going on, sends it to everyone: over inproc every ready
  pipe gets the message with the ID of the survey in front, which has its highest bit set, no
  other session is touched, and the deadline starts to run.
\<close>

theorem nn_surveyor_send_fanout:
  assumes "sock_good inproc_clean surveyor_view s w" "sv_state s = SV_PASSIVE" "sphdr m = []"
  shows "\<exists>s' w'. nn_surveyor_send nn_sinproc_pipebase_vfptr w s m = Some (Inr (), s', w') \<and> sock_good inproc_clean surveyor_view s' w' \<and>
    sv_state s' = SV_ACTIVE \<and> tm_fsm (sv_timer s') = FSM_ACTIVE \<and> surveyid s' = (surveyid s + 1) OR 0x80000000 \<and> bit (surveyid s') 31 \<and>
    (\<forall>p. session w' p = (if p \<in> set (dpipes (svr_outpipes (sv_x s)))
       then (session w p)\<lparr>smsg := merge_msg (m\<lparr>sphdr := be32 (surveyid s')\<rparr>), sending := True\<rparr> else session w p))"
proof -
  let ?vf = nn_sinproc_pipebase_vfptr
  obtain s' w' where s': "nn_surveyor_send ?vf w s m = Some (Inr (), s', w')" "sock_good inproc_clean surveyor_view s' w'"
    "surveyid s' = (surveyid s + 1) OR 0x80000000" "tosend s' = m\<lparr>sphdr := be32 (surveyid s')\<rparr>" "sv_state s' = SV_ACTIVE"
    "nn_dist_send ?vf w (svr_outpipes (sv_x s)) (tosend s') None = Some (svr_outpipes (sv_x s'), w')"
    using inprocf.surveyor_send_ok [OF assms(1,3)] assms(2) by blast
  have g: "sock_good inproc_clean xsurveyor_view (sv_x s) w" using assms(1) by (simp add: surveyor_good)
  have "inproc_inv w" "dist_inv w (svr_outpipes (sv_x s))"
    using sock_goodD(1,2,4) [OF g] by (auto simp: dist_inv_wf inproc_clean_def)
  then have "\<forall>p. session w' p = (if p \<in> set (dpipes (svr_outpipes (sv_x s)))
       then (session w p)\<lparr>smsg := merge_msg (tosend s'), sending := True\<rparr> else session w p)"
    using inproc_dist_fanout [of w "svr_outpipes (sv_x s)" "tosend s'" None] s'(6) by auto
  moreover have "tm_fsm (sv_timer s') = FSM_ACTIVE" using s'(2,5) by (simp add: surveyor_good sv_core_def sv_timer_state_def)
  moreover have "bit (surveyid s') 31" unfolding s'(3) by (simp add: bit_simps)
  ultimately show ?thesis using s' by auto
qed



section \<open>Examples\<close>

text \<open>A SURVEYOR socket on session 1 of the connected pair, before and after it has sent survey 5
  (with the highest bit set), to which a response is already waiting.\<close>

definition survey_response :: sp_msg where
  "survey_response = \<lparr>sphdr = [0x80, 0, 0, 5], hdrs = [], body = [7]\<rparr>"

definition survey_msg :: sp_msg where
  "survey_msg = \<lparr>sphdr = [], hdrs = [], body = [1]\<rparr>"

definition sv_idle :: "(nn_surveyor \<times> iworld) option" where
  "sv_idle = do {
     let ops = nn_surveyor_sockbase_vfptr nn_sinproc_pipebase_vfptr;
     (rc, s) \<leftarrow> sk_add ops (sv_started 4) 1 \<lparr>sndprio = 8, rcvprio = 8\<rparr>;
     sk_out ops (msg_world survey_response) s 1 }"

lemma sv_world: "can_send (msg_world survey_response) 1"
  by code_simp

lemma sv_example_steps:
  "case nn_xsurveyor_add nn_xsurveyor_init 1 \<lparr>sndprio = 8, rcvprio = 8\<rparr> of None \<Rightarrow> False
   | Some (rc, x) \<Rightarrow> svr_data x 1 \<noteq> None \<and> dpipes (svr_outpipes x) = []"
  "case sv_idle of None \<Rightarrow> False | Some (s, w) \<Rightarrow> sv_state s = SV_PASSIVE \<and> dpipes (svr_outpipes (sv_x s)) = [1]"
  "case sv_idle of None \<Rightarrow> False
   | Some (s, w) \<Rightarrow> (case nn_surveyor_send nn_sinproc_pipebase_vfptr w s survey_msg of None \<Rightarrow> False
     | Some (rc, s, w) \<Rightarrow> nn_surveyor_inprogress s \<and> (case nn_surveyor_tick nn_sinproc_pipebase_vfptr TaskTick w s of None \<Rightarrow> False
       | Some (s, w) \<Rightarrow> sv_state s = SV_ACTIVE \<and> tm_armed (sv_timer s)))"
  by code_simp+

lemma sv_idle_good:
  obtains s w where "sv_idle = Some (s, w)" "sock_good inproc_clean surveyor_view s w" "sv_state s = SV_PASSIVE" "dpipes (svr_outpipes (sv_x s)) = [1]"
proof -
  let ?ops = "nn_surveyor_sockbase_vfptr nn_sinproc_pipebase_vfptr" and ?w = "msg_world survey_response"
  have "sock_good inproc_clean surveyor_view (sv_started 4) ?w"
    by (rule inprocf.surveyor.timed_good, rule timed_start, rule msg_world_clean)
  then obtain rc s1 where s1: "sk_add ?ops (sv_started 4) 1 \<lparr>sndprio = 8, rcvprio = 8\<rparr> = Some (rc, s1)" "sock_good inproc_clean surveyor_view s1 ?w"
    using inprocf.surveyor.add_law [of "sv_started 4" ?w 1 "\<lparr>sndprio = 8, rcvprio = 8\<rparr>"]
    by (auto simp: sv_started_def nn_xsurveyor_init_def opts_ok_def surveyor_view_sel)
  have "1 \<in> dom (svr_data (sv_x s1))" "1 \<notin> set (dpipes (svr_outpipes (sv_x s1)))"
    using s1(1) sv_example_steps(1) by (auto simp: nn_surveyor_sockbase_vfptr_def sv_started_def)
  then obtain s2 w2 where s2: "sk_out ?ops ?w s1 1 = Some (s2, w2)" "sock_good inproc_clean surveyor_view s2 w2"
    using inprocf.surveyor.out_law [OF s1(2), of 1] sv_world by (auto simp: surveyor_view_sel)
  have ex: "sv_idle = Some (s2, w2)" using s1(1) s2(1) by (simp add: sv_idle_def)
  have "sv_state s2 = SV_PASSIVE \<and> dpipes (svr_outpipes (sv_x s2)) = [1]" using sv_example_steps(2) unfolding ex option.case prod.case .
  then show thesis using that ex s2(2) by blast
qed

lemma sv_sent_good:
  obtains s w rc s1 w1 where "sv_idle = Some (s, w)" "nn_surveyor_send nn_sinproc_pipebase_vfptr w s survey_msg = Some (rc, s1, w1)"
    "sock_good inproc_clean surveyor_view s1 w1" "nn_surveyor_inprogress s1"
proof (rule sv_idle_good)
  fix s w assume s: "sv_idle = Some (s, w)" "sock_good inproc_clean surveyor_view s w"
  obtain rc s1 w1 where s1: "nn_surveyor_send nn_sinproc_pipebase_vfptr w s survey_msg = Some (rc, s1, w1)" "sock_good inproc_clean surveyor_view s1 w1"
    using inprocf.surveyor_send_ok [OF s(2), of survey_msg] by (auto simp: survey_msg_def)
  have "nn_surveyor_inprogress s1" using sv_example_steps(3) unfolding s(1) s1(1) option.case prod.case by blast
  then show thesis using that s s1 by blast
qed

theorem nn_surveyor_send_fanout_witness:
  "\<exists>s w s' w'. sv_idle = Some (s, w) \<and> nn_surveyor_send nn_sinproc_pipebase_vfptr w s survey_msg = Some (Inr (), s', w') \<and>
     sending (session w' 1)"
proof (rule sv_idle_good)
  fix s w assume s: "sv_idle = Some (s, w)" "sock_good inproc_clean surveyor_view s w" "sv_state s = SV_PASSIVE" "dpipes (svr_outpipes (sv_x s)) = [1]"
  obtain s' w' where f: "nn_surveyor_send nn_sinproc_pipebase_vfptr w s survey_msg = Some (Inr (), s', w')"
    "\<forall>p. session w' p = (if p \<in> set (dpipes (svr_outpipes (sv_x s)))
       then (session w p)\<lparr>smsg := merge_msg (survey_msg\<lparr>sphdr := be32 (surveyid s')\<rparr>), sending := True\<rparr> else session w p)"
    using nn_surveyor_send_fanout [OF s(2,3), of survey_msg] by (auto simp: survey_msg_def)
  have "sending (session w' 1)" using f(2) s(4) by simp
  then show ?thesis using f(1) s(1) by blast
qed



end
