(* ===== verification/Nn_Protocols.thy ===== *)
theory Nn_Protocols
  imports Nn_Pair Nn_Pipeline Nn_Pubsub Nn_Bus Nn_Req Nn_Respondent Nn_Surveyor
begin

text \<open>
  All socket types over one transport.  What is proved here holds of every transport that is
  an instance of \<open>framing_transport\<close>; the theories of the transports provide the instances.
\<close>

text \<open>The calls of the core on a socket never abort and keep the invariant of its type, from the
  moment it is created, whatever the transport does in between.\<close>

definition socket_safe ::
  "('x world \<Rightarrow> bool) \<Rightarrow> ('s, 'x) sockbase_vfptr \<Rightarrow> 's sock_view \<Rightarrow> 's \<Rightarrow> bool" where
  "socket_safe winv ops v init \<longleftrightarrow> (\<forall>s w c. sock_reach winv ops v init s w \<longrightarrow> v_inv v s \<and> sock_ready v s w \<and>
     (sock_legal ops v c s w \<longrightarrow> (\<exists>s' w'. sock_exec ops c s w = Some (s', w') \<and> sock_reach winv ops v init s' w')))"

definition timed_socket_safe ::
  "('x world \<Rightarrow> bool) \<Rightarrow> ('s, 'x) sockbase_vfptr \<Rightarrow> 's sock_view \<Rightarrow> 's \<Rightarrow> (tick \<Rightarrow> 'x world \<Rightarrow> 's \<Rightarrow> ('s \<times> 'x world) option) \<Rightarrow> bool" where
  "timed_socket_safe winv ops v init tick \<longleftrightarrow> (\<forall>s w c k. timed_reach winv ops v tick init s w \<longrightarrow> v_inv v s \<and> sock_ready v s w \<and>
     tick k w s \<noteq> None \<and> (sock_legal ops v c s w \<longrightarrow> sock_exec ops c s w \<noteq> None))"

lemma socket_safe_call:
  "socket_safe winv ops v init \<Longrightarrow> sock_reach winv ops v init s w \<Longrightarrow> sock_legal ops v c s w \<Longrightarrow> \<exists>s' w'. sock_exec ops c s w = Some (s', w')"
  unfolding socket_safe_def by blast

lemma timed_socket_safe_tick:
  "timed_socket_safe winv ops v init tick \<Longrightarrow> timed_reach winv ops v tick init s w \<Longrightarrow> tick k w s \<noteq> None"
  unfolding timed_socket_safe_def by blast

context sp_socket begin

lemma safe: "socket_safe winv ops v init"
  unfolding socket_safe_def using reach_good never_aborts by (auto simp: sock_good_def)

end

context timed_socket begin

lemma timed_safe: "timed_socket_safe winv ops v init tick"
  unfolding timed_socket_safe_def using timed_good timed_never_aborts by (auto simp: sock_good_def)

end

definition sockets_safe :: "'x pipebase_vfptr \<Rightarrow> ('x world \<Rightarrow> bool) \<Rightarrow> bool" where
  "sockets_safe vf winv \<longleftrightarrow> (\<forall>after addr maxttl key0 lastid id0.
     socket_safe winv (nn_xpair_sockbase_vfptr vf) xpair_view nn_xpair_init \<and>
     socket_safe winv (nn_xpush_sockbase_vfptr vf) xpush_view nn_xpush_init \<and>
     socket_safe winv (nn_xpull_sockbase_vfptr vf) xpull_view nn_xpull_init \<and>
     socket_safe winv (nn_xpub_sockbase_vfptr vf) xpub_view nn_xpub_init \<and>
     socket_safe winv (nn_xsub_sockbase_vfptr after vf) (xsub_view after) nn_xsub_init \<and>
     socket_safe winv (nn_bus_sockbase_vfptr addr vf) xbus_view nn_xbus_init \<and>
     socket_safe winv (nn_rep_sockbase_vfptr maxttl vf) rep_view (nn_rep_init key0) \<and>
     socket_safe winv (nn_respondent_sockbase_vfptr maxttl vf) rep_view (nn_respondent_init key0) \<and>
     timed_socket_safe winv (nn_req_sockbase_vfptr vf) req_view (req_started lastid) (nn_req_tick vf) \<and>
     timed_socket_safe winv (nn_surveyor_sockbase_vfptr vf) surveyor_view (sv_started id0) (nn_surveyor_tick vf))"

context framing_transport begin

lemma sockets_safe: "sockets_safe vf winv"
  unfolding sockets_safe_def
  by (intro allI conjI xpair.safe xpush.safe xpull.safe xpub.safe xsub.safe bus.safe rep.safe respondent.safe
      req.timed_safe surveyor.timed_safe)

end

text \<open>The parts of \<open>sockets_safe\<close> that examples use.\<close>

lemma sockets_safeD:
  assumes "sockets_safe vf winv"
  shows "socket_safe winv (nn_xpair_sockbase_vfptr vf) xpair_view nn_xpair_init"
    "timed_socket_safe winv (nn_req_sockbase_vfptr vf) req_view (req_started lastid) (nn_req_tick vf)"
  using assms unfolding sockets_safe_def by blast+

end
