(* ===== verification/Nn_Streamhdr.thy ===== *)
theory Nn_Streamhdr
  imports Nn_Timed
begin

text \<open>
  The stream transports (TCP, IPC, WebSocket) work on an asynchronous socket of the operating
  system, \<^verbatim>\<open>aio/usock.c\<close>, of which this theory models what they rely on: one send and one
  receive may be under way, a receive delivers exactly the number of bytes it was asked for,
  and what is sent goes out in order.  On top of it \<^verbatim>\<open>transports/utils/streamhdr.c\<close>: the two
  peers exchange a header of eight bytes that names the protocol, within one second.
\<close>

section \<open>Asynchronous sockets\<close>

datatype usock_event = NN_USOCK_SENT | NN_USOCK_RECEIVED bytes | NN_USOCK_SHUTDOWN | NN_USOCK_ERROR

text \<open>\<open>us_in\<close>: the bytes asked for, \<open>us_out\<close>: a send is under way, \<open>us_wire\<close>: all bytes sent.\<close>

record usock =
  us_in :: "nat option"
  us_out :: bool
  us_wire :: bytes

definition nn_usock_send :: "usock \<Rightarrow> bytes list \<Rightarrow> usock option" where
  "nn_usock_send self iov = do {
     nn_assert (length iov \<le> 3);
     nn_assert (\<not> us_out self);
     Some (self\<lparr>us_out := True, us_wire := us_wire self @ concat iov\<rparr>) }"

definition nn_usock_recv :: "usock \<Rightarrow> nat \<Rightarrow> usock option" where
  "nn_usock_recv self len = do {
     nn_assert (us_in self = None);
     Some (self\<lparr>us_in := Some len\<rparr>) }"

text \<open>The events a socket may report, and what they complete.\<close>

definition usock_may :: "usock \<Rightarrow> usock_event \<Rightarrow> bool" where
  "usock_may self e \<longleftrightarrow> (case e of NN_USOCK_SENT \<Rightarrow> us_out self | NN_USOCK_RECEIVED bs \<Rightarrow> us_in self = Some (length bs) | _ \<Rightarrow> True)"

definition usock_done :: "usock \<Rightarrow> usock_event \<Rightarrow> usock" where
  "usock_done self e = (case e of NN_USOCK_SENT \<Rightarrow> self\<lparr>us_out := False\<rparr> | NN_USOCK_RECEIVED bs \<Rightarrow> self\<lparr>us_in := None\<rparr> | _ \<Rightarrow> self)"

text \<open>What a connection asks of its surroundings: the options \<^verbatim>\<open>NN_RCVMAXSIZE\<close> and \<^verbatim>\<open>NN_PROTOCOL\<close>,
  which protocols are peers, and whether memory for a message can be allocated.\<close>

record stream_env =
  rcvmaxsize :: int
  own_protocol :: u16
  is_peer :: "u16 \<Rightarrow> bool"
  can_alloc :: "u64 \<Rightarrow> bool"

section \<open>Header exchange\<close>

datatype streamhdr_state = SH_IDLE | SH_SENDING | SH_RECEIVING | SH_STOPPING_TIMER_ERROR | SH_STOPPING_TIMER_DONE | SH_DONE | SH_STOPPING

datatype streamhdr_event = NN_STREAMHDR_OK | NN_STREAMHDR_ERROR | NN_STREAMHDR_STOPPED

datatype streamhdr_input = SH_FSM_START | SH_FSM_STOP | SH_SRC_USOCK usock_event | SH_SRC_TIMER timer_event

text \<open>\<open>sh_usock\<close>: the header exchange owns the socket; \<open>sh_raised\<close>: its events that wait in the context.\<close>

record nn_streamhdr =
  sh_fsm :: fsm_state
  sh_state :: streamhdr_state
  sh_timer :: nn_timer
  sh_usock :: bool
  sh_protohdr :: bytes
  sh_raised :: "streamhdr_event list"

definition nn_streamhdr_init :: nn_streamhdr where
  "nn_streamhdr_init = \<lparr>sh_fsm = FSM_IDLE, sh_state = SH_IDLE, sh_timer = nn_timer_init, sh_usock = False,
     sh_protohdr = replicate 8 0, sh_raised = []\<rparr>"

definition nn_streamhdr_isidle :: "nn_streamhdr \<Rightarrow> bool" where
  "nn_streamhdr_isidle self \<longleftrightarrow> sh_fsm self = FSM_IDLE \<and> NN_STREAMHDR_STOPPED \<notin> set (sh_raised self)"

definition nn_streamhdr_term :: "nn_streamhdr \<Rightarrow> unit option" where
  "nn_streamhdr_term self = do {
     nn_assert (sh_state self = SH_IDLE);
     nn_assert (NN_STREAMHDR_OK \<notin> set (sh_raised self) \<and> NN_STREAMHDR_ERROR \<notin> set (sh_raised self));
     nn_timer_term (sh_timer self);
     nn_assert (nn_streamhdr_isidle self) }"

definition streamhdr_raise :: "nn_streamhdr \<Rightarrow> streamhdr_event \<Rightarrow> nn_streamhdr option" where
  "streamhdr_raise self e = do {
     nn_assert (if e = NN_STREAMHDR_STOPPED then e \<notin> set (sh_raised self)
       else NN_STREAMHDR_OK \<notin> set (sh_raised self) \<and> NN_STREAMHDR_ERROR \<notin> set (sh_raised self));
     Some (self\<lparr>sh_raised := sh_raised self @ [e]\<rparr>) }"

definition streamhdr_stop_timer :: "nn_streamhdr \<Rightarrow> streamhdr_state \<Rightarrow> nn_streamhdr option" where
  "streamhdr_stop_timer self st = do {
     t \<leftarrow> nn_timer_stop (sh_timer self);
     Some (self\<lparr>sh_timer := t, sh_state := st\<rparr>) }"

definition nn_streamhdr_shutdown :: "nn_streamhdr \<Rightarrow> streamhdr_input \<Rightarrow> nn_streamhdr option" where
  "nn_streamhdr_shutdown self input = do {
     self \<leftarrow> (if input = SH_FSM_STOP then streamhdr_stop_timer self SH_STOPPING else Some self);
     if sh_state self = SH_STOPPING then
       (if \<not> nn_timer_isidle (sh_timer self) then Some self
        else do {
          let self = self\<lparr>sh_state := SH_IDLE\<rparr>;
          nn_assert (sh_fsm self = FSM_STOPPING);
          self \<leftarrow> streamhdr_raise self NN_STREAMHDR_STOPPED;
          Some (self\<lparr>sh_fsm := FSM_IDLE\<rparr>) })
     else None }"

text \<open>The exchange is over: the socket goes back to its owner and the result is reported.\<close>

definition streamhdr_finish :: "nn_streamhdr \<Rightarrow> streamhdr_event \<Rightarrow> nn_streamhdr option" where
  "streamhdr_finish self e = streamhdr_raise (self\<lparr>sh_usock := False, sh_state := SH_DONE\<rparr>) e"

text \<open>The header received is one of a peer: it begins with the bytes 0, S, P, 0 and names a protocol this
  socket talks to.\<close>

definition streamhdr_valid :: "(u16 \<Rightarrow> bool) \<Rightarrow> bytes \<Rightarrow> bool option" where
  "streamhdr_valid ispeer h =
     (if take 4 h \<noteq> [0, 0x53, 0x50, 0] then Some False
      else do { protocol \<leftarrow> nn_gets (drop 4 h); Some (ispeer protocol) })"

definition nn_streamhdr_handler ::
  "(u16 \<Rightarrow> bool) \<Rightarrow> nn_streamhdr \<Rightarrow> usock \<Rightarrow> streamhdr_input \<Rightarrow> (nn_streamhdr \<times> usock) option" where
  "nn_streamhdr_handler ispeer self us input = (case (sh_state self, input) of
     (SH_IDLE, SH_FSM_START) \<Rightarrow> do {
       t \<leftarrow> nn_timer_start (sh_timer self) 1000;
       us \<leftarrow> nn_usock_send us [sh_protohdr self];
       Some (self\<lparr>sh_timer := t, sh_state := SH_SENDING\<rparr>, us) }
   | (SH_SENDING, SH_SRC_USOCK NN_USOCK_SENT) \<Rightarrow> do {
       us \<leftarrow> nn_usock_recv us 8;
       Some (self\<lparr>sh_state := SH_RECEIVING\<rparr>, us) }
   | (SH_SENDING, SH_SRC_USOCK NN_USOCK_SHUTDOWN) \<Rightarrow> Some (self, us)
   | (SH_SENDING, SH_SRC_USOCK NN_USOCK_ERROR) \<Rightarrow> map_option (\<lambda>s. (s, us)) (streamhdr_stop_timer self SH_STOPPING_TIMER_ERROR)
   | (SH_SENDING, SH_SRC_TIMER NN_TIMER_TIMEOUT) \<Rightarrow> map_option (\<lambda>s. (s, us)) (streamhdr_stop_timer self SH_STOPPING_TIMER_ERROR)
   | (SH_RECEIVING, SH_SRC_USOCK (NN_USOCK_RECEIVED bs)) \<Rightarrow> do {
       let self = self\<lparr>sh_protohdr := bs\<rparr>;
       ok \<leftarrow> streamhdr_valid ispeer bs;
       map_option (\<lambda>s. (s, us)) (streamhdr_stop_timer self (if ok then SH_STOPPING_TIMER_DONE else SH_STOPPING_TIMER_ERROR)) }
   | (SH_RECEIVING, SH_SRC_USOCK NN_USOCK_SHUTDOWN) \<Rightarrow> Some (self, us)
   | (SH_RECEIVING, SH_SRC_USOCK NN_USOCK_ERROR) \<Rightarrow> map_option (\<lambda>s. (s, us)) (streamhdr_stop_timer self SH_STOPPING_TIMER_ERROR)
   | (SH_RECEIVING, SH_SRC_TIMER NN_TIMER_TIMEOUT) \<Rightarrow> map_option (\<lambda>s. (s, us)) (streamhdr_stop_timer self SH_STOPPING_TIMER_ERROR)
   | (SH_STOPPING_TIMER_ERROR, SH_SRC_USOCK NN_USOCK_ERROR) \<Rightarrow> Some (self, us)
   | (SH_STOPPING_TIMER_ERROR, SH_SRC_TIMER NN_TIMER_STOPPED) \<Rightarrow> map_option (\<lambda>s. (s, us)) (streamhdr_finish self NN_STREAMHDR_ERROR)
   | (SH_STOPPING_TIMER_DONE, SH_SRC_USOCK NN_USOCK_ERROR) \<Rightarrow> Some (self, us)
   | (SH_STOPPING_TIMER_DONE, SH_SRC_TIMER NN_TIMER_STOPPED) \<Rightarrow> map_option (\<lambda>s. (s, us)) (streamhdr_finish self NN_STREAMHDR_OK)
   | _ \<Rightarrow> None)"

text \<open>\<^verbatim>\<open>nn_fsm_feed\<close>.\<close>

definition nn_streamhdr_feed ::
  "(u16 \<Rightarrow> bool) \<Rightarrow> nn_streamhdr \<Rightarrow> usock \<Rightarrow> streamhdr_input \<Rightarrow> (nn_streamhdr \<times> usock) option" where
  "nn_streamhdr_feed ispeer self us input =
     (if sh_fsm self \<noteq> FSM_STOPPING then nn_streamhdr_handler ispeer self us input
      else map_option (\<lambda>s. (s, us)) (nn_streamhdr_shutdown self input))"

text \<open>\<open>protocol\<close> is the option \<^verbatim>\<open>NN_PROTOCOL\<close> of the socket.\<close>

definition nn_streamhdr_start ::
  "(u16 \<Rightarrow> bool) \<Rightarrow> u16 \<Rightarrow> nn_streamhdr \<Rightarrow> usock \<Rightarrow> (nn_streamhdr \<times> usock) option" where
  "nn_streamhdr_start ispeer protocol self us = do {
     nn_assert (\<not> sh_usock self);
     hdr \<leftarrow> nn_puts (replicate 4 0) protocol;
     let self = self\<lparr>sh_usock := True, sh_protohdr := [0, 0x53, 0x50, 0] @ hdr\<rparr>;
     nn_assert (nn_streamhdr_isidle self);
     (self, us) \<leftarrow> nn_streamhdr_handler ispeer self us SH_FSM_START;
     Some (self\<lparr>sh_fsm := FSM_ACTIVE\<rparr>, us) }"

definition nn_streamhdr_stop :: "nn_streamhdr \<Rightarrow> nn_streamhdr option" where
  "nn_streamhdr_stop self =
     (if sh_fsm self \<noteq> FSM_ACTIVE then Some self
      else nn_streamhdr_shutdown (self\<lparr>sh_fsm := FSM_STOPPING\<rparr>) SH_FSM_STOP)"

text \<open>The worker thread works on the timer, then its events are processed.\<close>

definition streamhdr_pop :: "nn_streamhdr \<times> usock \<Rightarrow> (timer_event \<times> nn_streamhdr \<times> usock) option" where
  "streamhdr_pop su = map_option (\<lambda>(e, t). (e, (fst su)\<lparr>sh_timer := t\<rparr>, snd su)) (timer_take (sh_timer (fst su)))"

definition nn_streamhdr_tick :: "(u16 \<Rightarrow> bool) \<Rightarrow> tick \<Rightarrow> nn_streamhdr \<Rightarrow> usock \<Rightarrow> (nn_streamhdr \<times> usock) option" where
  "nn_streamhdr_tick ispeer k self us = do {
     t \<leftarrow> timer_tick k (sh_timer self);
     nn_ctx_leave streamhdr_pop (\<lambda>e (s, us). nn_streamhdr_feed ispeer s us (SH_SRC_TIMER e)) (self\<lparr>sh_timer := t\<rparr>, us) }"

section \<open>Properties\<close>

definition sh_inv :: "nn_streamhdr \<Rightarrow> bool" where
  "sh_inv s \<longleftrightarrow> sh_fsm s = FSM_ACTIVE \<and> timer_inv (sh_timer s) \<and> tm_raised (sh_timer s) = [] \<and> sh_raised s = [] \<and> sh_usock s \<and>
     (case sh_state s of SH_SENDING \<Rightarrow> tm_fsm (sh_timer s) = FSM_ACTIVE | SH_RECEIVING \<Rightarrow> tm_fsm (sh_timer s) = FSM_ACTIVE
      | SH_STOPPING_TIMER_ERROR \<Rightarrow> tm_fsm (sh_timer s) = FSM_STOPPING | SH_STOPPING_TIMER_DONE \<Rightarrow> tm_fsm (sh_timer s) = FSM_STOPPING
      | _ \<Rightarrow> False)"

text \<open>The tasks of the worker, one after the other.\<close>

fun streamhdr_ticks :: "(u16 \<Rightarrow> bool) \<Rightarrow> nat \<Rightarrow> nn_streamhdr \<times> usock \<Rightarrow> (nn_streamhdr \<times> usock) option" where
  "streamhdr_ticks ispeer 0 su = Some su"
| "streamhdr_ticks ispeer (Suc n) su = do { su \<leftarrow> nn_streamhdr_tick ispeer TaskTick (fst su) (snd su); streamhdr_ticks ispeer n su }"

lemma streamhdr_tick_event:
  assumes "timer_tick k (sh_timer s) = Some t" "tm_raised t = [e]"
    "nn_streamhdr_feed ispeer (s\<lparr>sh_timer := t\<lparr>tm_raised := []\<rparr>\<rparr>) us (SH_SRC_TIMER e) = Some (s2, us2)" "tm_raised (sh_timer s2) = []"
  shows "nn_streamhdr_tick ispeer k s us = Some (s2, us2)"
proof -
  have "streamhdr_pop (s\<lparr>sh_timer := t\<rparr>, us) = Some (e, s\<lparr>sh_timer := t\<lparr>tm_raised := []\<rparr>\<rparr>, us)"
    using assms(2) by (simp add: streamhdr_pop_def timer_take_def)
  moreover have "streamhdr_pop (s2, us2) = None" using assms(4) by (simp add: streamhdr_pop_def timer_take_def)
  ultimately show ?thesis
    using assms(1) nn_ctx_leave_one [of streamhdr_pop "(s\<lparr>sh_timer := t\<rparr>, us)" e _ "\<lambda>e (s, us). nn_streamhdr_feed ispeer s us (SH_SRC_TIMER e)" "(s2, us2)"]
    by (auto simp: nn_streamhdr_tick_def assms(3))
qed

definition sh_verdict :: "nn_streamhdr \<Rightarrow> streamhdr_event \<Rightarrow> bool" where
  "sh_verdict s e \<longleftrightarrow> sh_state s = SH_DONE \<and> sh_raised s = [e] \<and> \<not> sh_usock s"

lemma streamhdr_last_tick:
  assumes "timer_tick TaskTick (sh_timer s) = Some t" "tm_raised t = [NN_TIMER_STOPPED]" "sh_fsm s = FSM_ACTIVE" "sh_raised s = []"
    "(sh_state s, e) \<in> {(SH_STOPPING_TIMER_ERROR, NN_STREAMHDR_ERROR), (SH_STOPPING_TIMER_DONE, NN_STREAMHDR_OK)}"
  shows "\<exists>s'. nn_streamhdr_tick ispeer TaskTick s us = Some (s', us) \<and> sh_verdict s' e"
proof -
  let ?s' = "s\<lparr>sh_timer := t\<lparr>tm_raised := []\<rparr>, sh_usock := False, sh_state := SH_DONE, sh_raised := [e]\<rparr>"
  have "nn_streamhdr_feed ispeer (s\<lparr>sh_timer := t\<lparr>tm_raised := []\<rparr>\<rparr>) us (SH_SRC_TIMER NN_TIMER_STOPPED) = Some (?s', us)"
    using assms(3-5) by (auto simp: nn_streamhdr_feed_def nn_streamhdr_handler_def streamhdr_finish_def streamhdr_raise_def)
  then have "nn_streamhdr_tick ispeer TaskTick s us = Some (?s', us)" by (rule streamhdr_tick_event [OF assms(1,2)]) simp
  then show ?thesis by (simp add: sh_verdict_def)
qed

lemma streamhdr_verdict:
  assumes "sh_inv s" "(sh_state s, e) \<in> {(SH_STOPPING_TIMER_ERROR, NN_STREAMHDR_ERROR), (SH_STOPPING_TIMER_DONE, NN_STREAMHDR_OK)}"
  shows "\<exists>n s'. n \<le> 2 \<and> streamhdr_ticks ispeer n (s, us) = Some (s', us) \<and> sh_verdict s' e"
proof -
  have i: "timer_inv (sh_timer s)" "tm_fsm (sh_timer s) = FSM_STOPPING" "tm_raised (sh_timer s) = []" "sh_fsm s = FSM_ACTIVE" "sh_raised s = []"
    using assms by (auto simp: sh_inv_def)
  show ?thesis
  proof (rule timer_stopping_ticks [OF i(1-3)], goal_cases)
    case (1 t')
    then obtain s' where "nn_streamhdr_tick ispeer TaskTick s us = Some (s', us)" "sh_verdict s' e"
      using streamhdr_last_tick [OF 1(1,2) i(4,5) assms(2)] by blast
    then show ?case by (intro exI [of _ 1] exI [of _ s']) simp
  next
    case (2 t1 t')
    let ?s1 = "s\<lparr>sh_timer := t1\<rparr>"
    have "nn_streamhdr_tick ispeer TaskTick s us = Some (?s1, us)"
      using 2(1,2) by (simp add: nn_streamhdr_tick_def streamhdr_pop_def timer_take_def)
    moreover obtain s' where "nn_streamhdr_tick ispeer TaskTick ?s1 us = Some (s', us)" "sh_verdict s' e"
      using streamhdr_last_tick [of ?s1 t' e] 2(3,4) i(4,5) assms(2) by auto
    ultimately show ?case by (intro exI [of _ 2] exI [of _ s']) (simp add: numeral_2_eq_2)
  qed
qed

lemma streamhdr_valid_8:
  assumes "length bs = 8"
  shows "streamhdr_valid ispeer bs = Some (take 4 bs = [0, 0x53, 0x50, 0] \<and> ispeer (push_bit 8 (ucast (bs ! 4)) OR ucast (bs ! 5)))"
proof -
  have "nn_gets (drop 4 bs) = Some (push_bit 8 (ucast (bs ! 4)) OR ucast (bs ! 5))"
    using assms by (auto simp: nn_gets_def numeral_eq_Suc length_Suc_conv)
  then show ?thesis by (simp add: streamhdr_valid_def)
qed

lemma streamhdr_own_header:
  assumes "nn_streamhdr_start ispeer' protocol nn_streamhdr_init us0 = Some (s, us1)"
  obtains h where "us_wire us1 = us_wire us0 @ h" "length h = 8" "streamhdr_valid ispeer h = Some (ispeer protocol)"
proof -
  have r: "replicate 4 (0 :: u8) = [0, 0, 0, 0]" by (simp add: numeral_eq_Suc)
  obtain p where p: "nn_puts (replicate 4 0) protocol = Some p" "length p = 4" "nn_gets p = Some protocol"
    unfolding r by (simp add: nn_puts_def nn_gets_def join16)
  show thesis
  proof (rule that)
    show "us_wire us1 = us_wire us0 @ [0, 0x53, 0x50, 0] @ p"
      using assms p(1) by (auto simp: nn_streamhdr_start_def nn_streamhdr_handler_def nn_streamhdr_init_def nn_usock_send_def split: bind_splits)
  qed (use p in \<open>simp_all add: streamhdr_valid_def\<close>)
qed


text \<open>The two ends of a connection: the first has sent its header and waits for the other's.\<close>

definition sh_example :: "(nn_streamhdr \<times> usock) option" where
  "sh_example = do {
     (s, us) \<leftarrow> nn_streamhdr_start (\<lambda>p. p = 16) 16 nn_streamhdr_init \<lparr>us_in = None, us_out = False, us_wire = []\<rparr>;
     nn_streamhdr_feed (\<lambda>p. p = 16) s (usock_done us NN_USOCK_SENT) (SH_SRC_USOCK NN_USOCK_SENT) }"

lemma sh_example_ok: "case sh_example of None \<Rightarrow> False | Some (s, us) \<Rightarrow> sh_inv s \<and> sh_state s = SH_RECEIVING \<and> us_wire us = [0, 0x53, 0x50, 0, 0, 16, 0, 0]"
  by code_simp


text \<open>A run of the exchange in which the timer expires while the header is being sent: whether the
  socket may report then that it is sent, and whether the handler aborts when it does.\<close>

definition late_sent_run :: "(bool \<times> bool) option" where
  "late_sent_run = do {
     (s, us) \<leftarrow> nn_streamhdr_start (\<lambda>p. True) 16 nn_streamhdr_init \<lparr>us_in = None, us_out = False, us_wire = []\<rparr>;
     (s, us) \<leftarrow> nn_streamhdr_tick (\<lambda>p. True) TaskTick s us;
     (s, us) \<leftarrow> nn_streamhdr_tick (\<lambda>p. True) ExpireTick s us;
     Some (usock_may us NN_USOCK_SENT,
       Option.is_none (nn_streamhdr_feed (\<lambda>p. True) s (usock_done us NN_USOCK_SENT) (SH_SRC_USOCK NN_USOCK_SENT))) }"

text \<open>
  An event that comes at the wrong time aborts the process.  The exchange is started, the
  timer expires while the header is still being sent, and then the socket reports that the
  header has been sent: the handler asserts that only an error can be reported now.
\<close>

lemma nn_streamhdr_late_sent_aborts: "late_sent_run = Some (True, True)"
  by code_simp

end
