(* ===== verification/Nn_Stcp.thy ===== *)
theory Nn_Stcp
  imports Nn_Streamhdr Nn_Protocols
begin

text \<open>
  \<^verbatim>\<open>transports/tcp/stcp.c\<close>: one TCP connection, from the moment it is established.  First the
  protocol headers are exchanged, then the pipe is started; every message travels as its
  length in eight bytes followed by its protocol header and body.  The connections of a
  program are numbered like their pipes.
\<close>

section \<open>Model\<close>

datatype stcp_state = STCP_IDLE | STCP_PROTOHDR | STCP_STOPPING_STREAMHDR | STCP_ACTIVE | STCP_SHUTTING_DOWN | STCP_DONE | STCP_STOPPING

text \<open>The value -1 before the connection is active is \<open>STCP_IN_NONE\<close> and \<open>STCP_OUT_NONE\<close>.\<close>

datatype stcp_instate = STCP_IN_NONE | STCP_HDR | STCP_BODY | STCP_HASMSG

datatype stcp_outstate = STCP_OUT_NONE | STCP_OUT_IDLE | STCP_OUT_SENDING

datatype stcp_event = NN_STCP_ERROR | NN_STCP_STOPPED

datatype stcp_input = STCP_FSM_START | STCP_FSM_STOP | STCP_SRC_USOCK usock_event | STCP_SRC_STREAMHDR streamhdr_event

record nn_stcp =
  tc_fsm :: fsm_state
  tc_state :: stcp_state
  tc_usock :: "usock option"
  tc_streamhdr :: nn_streamhdr
  tc_instate :: stcp_instate
  tc_inhdr :: bytes
  tc_inmsg :: sp_msg
  tc_outstate :: stcp_outstate
  tc_outhdr :: bytes
  tc_outmsg :: sp_msg

text \<open>\<open>tcp_owner\<close>: the events raised to the owners of the connections, oldest first.\<close>

record tcp_net =
  conns :: "pid \<Rightarrow> nn_stcp"
  tcp_owner :: "(pid \<times> stcp_event) list"

type_synonym tworld = "tcp_net world"

definition conn :: "tworld \<Rightarrow> pid \<Rightarrow> nn_stcp" where
  "conn w p = conns (tstate w) p"

definition set_conn :: "pid \<Rightarrow> nn_stcp \<Rightarrow> tworld \<Rightarrow> tworld" where
  "set_conn p c w = w\<lparr>tstate := (tstate w)\<lparr>conns := (conns (tstate w))(p := c)\<rparr>\<rparr>"

definition stcp_raise :: "pid \<Rightarrow> stcp_event \<Rightarrow> tworld \<Rightarrow> tworld option" where
  "stcp_raise p e w = do {
     nn_assert ((p, e) \<notin> set (tcp_owner (tstate w)));
     Some (w\<lparr>tstate := (tstate w)\<lparr>tcp_owner := tcp_owner (tstate w) @ [(p, e)]\<rparr>\<rparr>) }"

definition nn_stcp_init :: nn_stcp where
  "nn_stcp_init = \<lparr>tc_fsm = FSM_IDLE, tc_state = STCP_IDLE, tc_usock = None, tc_streamhdr = nn_streamhdr_init,
     tc_instate = STCP_IN_NONE, tc_inhdr = replicate 8 0, tc_inmsg = empty_msg, tc_outstate = STCP_OUT_NONE,
     tc_outhdr = replicate 8 0, tc_outmsg = empty_msg\<rparr>"

definition nn_stcp_isidle :: "pid \<Rightarrow> tworld \<Rightarrow> bool" where
  "nn_stcp_isidle p w \<longleftrightarrow> tc_fsm (conn w p) = FSM_IDLE \<and> (p, NN_STCP_STOPPED) \<notin> set (tcp_owner (tstate w))"

definition nn_stcp_term :: "pid \<Rightarrow> tworld \<Rightarrow> unit option" where
  "nn_stcp_term p w = do {
     nn_assert (tc_state (conn w p) = STCP_IDLE);
     nn_assert ((p, NN_STCP_ERROR) \<notin> set (tcp_owner (tstate w)));
     nn_pipebase_term p w;
     nn_streamhdr_term (tc_streamhdr (conn w p));
     nn_assert (nn_stcp_isidle p w) }"

definition nn_stcp_send :: "tworld \<Rightarrow> pid \<Rightarrow> sp_msg \<Rightarrow> (u32 rc \<times> tworld) option" where
  "nn_stcp_send w p msg = do {
     let self = conn w p;
     nn_assert (tc_state self = STCP_ACTIVE);
     nn_assert (tc_outstate self = STCP_OUT_IDLE);
     outhdr \<leftarrow> nn_putll (tc_outhdr self) (of_nat (length (sphdr msg)) + of_nat (length (body msg)));
     us \<leftarrow> tc_usock self;
     us \<leftarrow> nn_usock_send us [outhdr, sphdr msg, body msg];
     Some (Inr 0, set_conn p (self\<lparr>tc_outmsg := msg, tc_outhdr := outhdr, tc_usock := Some us, tc_outstate := STCP_OUT_SENDING\<rparr>) w) }"

definition nn_stcp_recv :: "tworld \<Rightarrow> pid \<Rightarrow> ((u32 \<times> sp_msg) rc \<times> tworld) option" where
  "nn_stcp_recv w p = do {
     let self = conn w p;
     nn_assert (tc_state self = STCP_ACTIVE);
     nn_assert (tc_instate self = STCP_HASMSG);
     us \<leftarrow> tc_usock self;
     us \<leftarrow> nn_usock_recv us 8;
     Some (Inr (0, tc_inmsg self), set_conn p (self\<lparr>tc_inmsg := empty_msg, tc_instate := STCP_HDR, tc_usock := Some us\<rparr>) w) }"

definition nn_stcp_pipebase_vfptr :: "tcp_net pipebase_vfptr" where
  "nn_stcp_pipebase_vfptr = \<lparr>vsend = nn_stcp_send, vrecv = nn_stcp_recv\<rparr>"

definition nn_stcp_shutdown ::
  "('s \<Rightarrow> pid \<Rightarrow> 's option) \<Rightarrow> pid \<Rightarrow> stcp_input \<Rightarrow> 's \<times> tworld \<Rightarrow> ('s \<times> tworld) option" where
  "nn_stcp_shutdown rm p input sw = do {
     (s, w) \<leftarrow> (if input = STCP_FSM_STOP then do {
         (s, w) \<leftarrow> nn_pipebase_stop rm p (fst sw) (snd sw);
         sh \<leftarrow> nn_streamhdr_stop (tc_streamhdr (conn w p));
         Some (s, set_conn p ((conn w p)\<lparr>tc_streamhdr := sh, tc_state := STCP_STOPPING\<rparr>) w) } else Some sw);
     if tc_state (conn w p) = STCP_STOPPING then
       (if nn_streamhdr_isidle (tc_streamhdr (conn w p)) then do {
          let w = set_conn p ((conn w p)\<lparr>tc_usock := None, tc_state := STCP_IDLE\<rparr>) w;
          nn_assert (tc_fsm (conn w p) = FSM_STOPPING);
          w \<leftarrow> stcp_raise p NN_STCP_STOPPED w;
          Some (s, set_conn p ((conn w p)\<lparr>tc_fsm := FSM_IDLE\<rparr>) w) }
        else Some (s, w))
     else None }"

text \<open>The inbound part of the active state: a header, or a body, has arrived.\<close>

definition stcp_received :: "stream_env \<Rightarrow> pid \<Rightarrow> bytes \<Rightarrow> tworld \<Rightarrow> tworld option" where
  "stcp_received env p bs w = (let self = conn w p in case tc_instate self of
     STCP_HDR \<Rightarrow> do {
       let self = self\<lparr>tc_inhdr := bs\<rparr>;
       sz \<leftarrow> nn_getll (tc_inhdr self);
       if rcvmaxsize env \<ge> 0 \<and> uint sz > rcvmaxsize env
       then stcp_raise p NN_STCP_ERROR (set_conn p (self\<lparr>tc_state := STCP_DONE\<rparr>) w)
       else do {
         nn_assert (can_alloc env sz);
         let self = self\<lparr>tc_inmsg := \<lparr>sphdr = [], hdrs = [], body = replicate (unat sz) 0\<rparr>\<rparr>;
         if sz = 0 then nn_pipebase_received p (set_conn p (self\<lparr>tc_instate := STCP_HASMSG\<rparr>) w)
         else do {
           us \<leftarrow> tc_usock self;
           us \<leftarrow> nn_usock_recv us (unat sz);
           Some (set_conn p (self\<lparr>tc_instate := STCP_BODY, tc_usock := Some us\<rparr>) w) } } }
   | STCP_BODY \<Rightarrow> nn_pipebase_received p (set_conn p (self\<lparr>tc_inmsg := (tc_inmsg self)\<lparr>body := bs\<rparr>, tc_instate := STCP_HASMSG\<rparr>) w)
   | _ \<Rightarrow> None)"

definition nn_stcp_handler ::
  "stream_env \<Rightarrow> ('s \<Rightarrow> pid \<Rightarrow> (unit rc \<times> 's) option) \<Rightarrow> ('s \<Rightarrow> pid \<Rightarrow> 's option) \<Rightarrow> pid \<Rightarrow> stcp_input \<Rightarrow>
   's \<times> tworld \<Rightarrow> ('s \<times> tworld) option" where
  "nn_stcp_handler env add rm p input sw = (case sw of (s, w) \<Rightarrow> (let self = conn w p in
     (case (tc_state self, input) of
       (STCP_IDLE, STCP_FSM_START) \<Rightarrow> do {
         us \<leftarrow> tc_usock self;
         (sh, us) \<leftarrow> nn_streamhdr_start (is_peer env) (own_protocol env) (tc_streamhdr self) us;
         Some (s, set_conn p (self\<lparr>tc_streamhdr := sh, tc_usock := Some us, tc_state := STCP_PROTOHDR\<rparr>) w) }
     | (STCP_PROTOHDR, STCP_SRC_STREAMHDR NN_STREAMHDR_OK) \<Rightarrow> do {
         sh \<leftarrow> nn_streamhdr_stop (tc_streamhdr self);
         Some (s, set_conn p (self\<lparr>tc_streamhdr := sh, tc_state := STCP_STOPPING_STREAMHDR\<rparr>) w) }
     | (STCP_PROTOHDR, STCP_SRC_STREAMHDR NN_STREAMHDR_ERROR) \<Rightarrow> do {
         w \<leftarrow> stcp_raise p NN_STCP_ERROR (set_conn p (self\<lparr>tc_state := STCP_DONE\<rparr>) w);
         Some (s, w) }
     | (STCP_STOPPING_STREAMHDR, STCP_SRC_STREAMHDR NN_STREAMHDR_STOPPED) \<Rightarrow> do {
         (rc, s, w) \<leftarrow> nn_pipebase_start add p s w;
         case rc of
           Inl e \<Rightarrow> do {
             w \<leftarrow> stcp_raise p NN_STCP_ERROR (set_conn p ((conn w p)\<lparr>tc_state := STCP_DONE\<rparr>) w);
             Some (s, w) }
         | Inr _ \<Rightarrow> do {
             us \<leftarrow> tc_usock (conn w p);
             us \<leftarrow> nn_usock_recv us 8;
             Some (s, set_conn p ((conn w p)\<lparr>tc_instate := STCP_HDR, tc_usock := Some us, tc_outstate := STCP_OUT_IDLE,
               tc_state := STCP_ACTIVE\<rparr>) w) } }
     | (STCP_ACTIVE, STCP_SRC_USOCK NN_USOCK_SENT) \<Rightarrow> do {
         nn_assert (tc_outstate self = STCP_OUT_SENDING);
         w \<leftarrow> nn_pipebase_sent p (set_conn p (self\<lparr>tc_outstate := STCP_OUT_IDLE, tc_outmsg := empty_msg\<rparr>) w);
         Some (s, w) }
     | (STCP_ACTIVE, STCP_SRC_USOCK (NN_USOCK_RECEIVED bs)) \<Rightarrow> map_option (Pair s) (stcp_received env p bs w)
     | (STCP_ACTIVE, STCP_SRC_USOCK NN_USOCK_SHUTDOWN) \<Rightarrow> do {
         (s, w) \<leftarrow> nn_pipebase_stop rm p s w;
         Some (s, set_conn p ((conn w p)\<lparr>tc_state := STCP_SHUTTING_DOWN\<rparr>) w) }
     | (STCP_ACTIVE, STCP_SRC_USOCK NN_USOCK_ERROR) \<Rightarrow> do {
         (s, w) \<leftarrow> nn_pipebase_stop rm p s w;
         w \<leftarrow> stcp_raise p NN_STCP_ERROR (set_conn p ((conn w p)\<lparr>tc_state := STCP_DONE\<rparr>) w);
         Some (s, w) }
     | (STCP_SHUTTING_DOWN, STCP_SRC_USOCK NN_USOCK_ERROR) \<Rightarrow> do {
         w \<leftarrow> stcp_raise p NN_STCP_ERROR (set_conn p (self\<lparr>tc_state := STCP_DONE\<rparr>) w);
         Some (s, w) }
     | _ \<Rightarrow> None)))"

text \<open>\<^verbatim>\<open>nn_fsm_feed\<close>.\<close>

definition nn_stcp_feed ::
  "stream_env \<Rightarrow> ('s \<Rightarrow> pid \<Rightarrow> (unit rc \<times> 's) option) \<Rightarrow> ('s \<Rightarrow> pid \<Rightarrow> 's option) \<Rightarrow> pid \<Rightarrow> stcp_input \<Rightarrow>
   's \<times> tworld \<Rightarrow> ('s \<times> tworld) option" where
  "nn_stcp_feed env add rm p input sw =
     (if tc_fsm (conn (snd sw) p) \<noteq> FSM_STOPPING then nn_stcp_handler env add rm p input sw
      else nn_stcp_shutdown rm p input sw)"

definition nn_stcp_start ::
  "stream_env \<Rightarrow> ('s \<Rightarrow> pid \<Rightarrow> (unit rc \<times> 's) option) \<Rightarrow> ('s \<Rightarrow> pid \<Rightarrow> 's option) \<Rightarrow> pid \<Rightarrow> usock \<Rightarrow>
   's \<times> tworld \<Rightarrow> ('s \<times> tworld) option" where
  "nn_stcp_start env add rm p us sw = (case sw of (s, w) \<Rightarrow> do {
     nn_assert (tc_usock (conn w p) = None);
     let w = set_conn p ((conn w p)\<lparr>tc_usock := Some us\<rparr>) w;
     nn_assert (nn_stcp_isidle p w);
     (s, w) \<leftarrow> nn_stcp_handler env add rm p STCP_FSM_START (s, w);
     Some (s, set_conn p ((conn w p)\<lparr>tc_fsm := FSM_ACTIVE\<rparr>) w) })"

definition nn_stcp_stop ::
  "('s \<Rightarrow> pid \<Rightarrow> 's option) \<Rightarrow> pid \<Rightarrow> 's \<times> tworld \<Rightarrow> ('s \<times> tworld) option" where
  "nn_stcp_stop rm p sw = (case sw of (s, w) \<Rightarrow>
     if tc_fsm (conn w p) \<noteq> FSM_ACTIVE then Some (s, w)
     else nn_stcp_shutdown rm p STCP_FSM_STOP (s, set_conn p ((conn w p)\<lparr>tc_fsm := FSM_STOPPING\<rparr>) w))"

text \<open>The socket completes an operation and reports it to the connection.\<close>

definition stcp_usock_event ::
  "stream_env \<Rightarrow> ('s \<Rightarrow> pid \<Rightarrow> (unit rc \<times> 's) option) \<Rightarrow> ('s \<Rightarrow> pid \<Rightarrow> 's option) \<Rightarrow> pid \<Rightarrow> usock_event \<Rightarrow>
   's \<times> tworld \<Rightarrow> ('s \<times> tworld) option" where
  "stcp_usock_event env add rm p e sw = (case sw of (s, w) \<Rightarrow> do {
     us \<leftarrow> tc_usock (conn w p);
     nn_stcp_feed env add rm p (STCP_SRC_USOCK e) (s, set_conn p ((conn w p)\<lparr>tc_usock := Some (usock_done us e)\<rparr>) w) })"

text \<open>The header exchange gets an event of the socket, or the worker works on its timer; its own
  events are handed to the connection.\<close>

definition stcp_child ::
  "stream_env \<Rightarrow> pid \<Rightarrow> (nn_streamhdr \<Rightarrow> usock \<Rightarrow> (nn_streamhdr \<times> usock) option) \<Rightarrow> tworld \<Rightarrow> tworld option" where
  "stcp_child env p f w = do {
     us \<leftarrow> tc_usock (conn w p);
     (sh, us) \<leftarrow> f (tc_streamhdr (conn w p)) us;
     Some (set_conn p ((conn w p)\<lparr>tc_streamhdr := sh, tc_usock := Some us\<rparr>) w) }"

definition stcp_child_event ::
  "stream_env \<Rightarrow> ('s \<Rightarrow> pid \<Rightarrow> (unit rc \<times> 's) option) \<Rightarrow> ('s \<Rightarrow> pid \<Rightarrow> 's option) \<Rightarrow> pid \<Rightarrow> 's \<times> tworld \<Rightarrow> ('s \<times> tworld) option" where
  "stcp_child_event env add rm p sw = (case sw of (s, w) \<Rightarrow>
     (case sh_raised (tc_streamhdr (conn w p)) of [] \<Rightarrow> Some (s, w)
      | e # es \<Rightarrow> nn_stcp_feed env add rm p (STCP_SRC_STREAMHDR e)
          (s, set_conn p ((conn w p)\<lparr>tc_streamhdr := (tc_streamhdr (conn w p))\<lparr>sh_raised := es\<rparr>\<rparr>) w)))"

section \<open>Frame facts\<close>

lemma conn_simps [simp]:
  "conn (set_conn p c w) q = (if q = p then c else conn w q)"
  "conn (set_instate p i w) q = conn w q" "conn (set_outstate p u w) q = conn w q" "conn (set_pipe p b w) q = conn w q"
  "conn (nn_fsm_raise_pipe p ev w) q = conn w q"
  by (simp_all add: conn_def set_conn_def set_instate_def set_outstate_def set_pipe_def nn_fsm_raise_pipe_def)

lemma set_conn_pipes [simp]: "pipes (set_conn p c w) = pipes w" "tcp_owner (tstate (set_conn p c w)) = tcp_owner (tstate w)"
  by (simp_all add: set_conn_def)

lemma set_conn_twice [simp]: "set_conn p c (set_conn p d w) = set_conn p c w"
  by (simp add: set_conn_def)

lemma stcp_raise_ok:
  assumes "(p, e) \<notin> set (tcp_owner (tstate w))"
  shows "\<exists>w'. stcp_raise p e w = Some w' \<and> pipes w' = pipes w \<and> (\<forall>q. conn w' q = conn w q) \<and>
    tcp_owner (tstate w') = tcp_owner (tstate w) @ [(p, e)]"
  using assms by (simp add: stcp_raise_def conn_def)

section \<open>The contract of transports\<close>

text \<open>A connection whose pipe is in use.\<close>

definition conn_ok :: "tworld \<Rightarrow> pid \<Rightarrow> bool" where
  "conn_ok w p \<longleftrightarrow> tc_fsm (conn w p) = FSM_ACTIVE \<and> tc_state (conn w p) = STCP_ACTIVE \<and> length (tc_outhdr (conn w p)) = 8 \<and>
     sphdr (tc_inmsg (conn w p)) = [] \<and>
     (\<exists>us. tc_usock (conn w p) = Some us \<and>
       (tc_outstate (conn w p) = STCP_OUT_IDLE \<and> outstate (pipes w p) = OUT_IDLE \<and> \<not> us_out us \<or>
        tc_outstate (conn w p) = STCP_OUT_SENDING \<and> outstate (pipes w p) = OUT_ASYNC \<and> us_out us) \<and>
       (tc_instate (conn w p) = STCP_HASMSG \<and> instate (pipes w p) = IN_IDLE \<and> us_in us = None \<or>
        tc_instate (conn w p) = STCP_HDR \<and> instate (pipes w p) = IN_ASYNC \<and> us_in us = Some 8 \<or>
        tc_instate (conn w p) = STCP_BODY \<and> instate (pipes w p) = IN_ASYNC \<and> us_in us = Some (length (body (tc_inmsg (conn w p))))))"

definition tcp_inv :: "tworld \<Rightarrow> bool" where
  "tcp_inv w \<longleftrightarrow> (\<forall>p. active_pipe w p \<longrightarrow> conn_ok w p)"

definition tcp_backlog :: "tworld \<Rightarrow> pid \<Rightarrow> nat" where
  "tcp_backlog w p = (if tc_instate (conn w p) = STCP_HASMSG then 1 else 0)"

text \<open>The frame of a message.\<close>

definition tcp_frame :: "sp_msg \<Rightarrow> bytes" where
  "tcp_frame m = be64 (of_nat (length (sphdr m) + length (body m))) @ sphdr m @ body m"

lemma stcp_send_ok:
  assumes "tcp_inv w" "can_send w p"
  shows "\<exists>us w'. tc_usock (conn w p) = Some us \<and> nn_stcp_send (set_outstate p OUT_SENDING w) p m = Some (Inr 0, w') \<and>
    pipes w' = pipes (set_outstate p OUT_SENDING w) \<and> tcp_inv (set_outstate p OUT_ASYNC w') \<and>
    (\<forall>q. conn w' q = (if q = p then (conn w p)\<lparr>tc_outmsg := m, tc_outhdr := be64 (of_nat (length (sphdr m) + length (body m))),
       tc_usock := Some (us\<lparr>us_out := True, us_wire := us_wire us @ tcp_frame m\<rparr>), tc_outstate := STCP_OUT_SENDING\<rparr> else conn w q))"
proof -
  have ok: "conn_ok w p" using assms by (simp add: tcp_inv_def)
  then obtain us where us: "tc_usock (conn w p) = Some us" "\<not> us_out us" "tc_outstate (conn w p) = STCP_OUT_IDLE" "tc_state (conn w p) = STCP_ACTIVE"
    "length (tc_outhdr (conn w p)) = 8"
    using assms(2) by (auto simp: conn_ok_def)
  let ?c = "(conn w p)\<lparr>tc_outmsg := m, tc_outhdr := be64 (of_nat (length (sphdr m) + length (body m))),
       tc_usock := Some (us\<lparr>us_out := True, us_wire := us_wire us @ tcp_frame m\<rparr>), tc_outstate := STCP_OUT_SENDING\<rparr>"
  have "nn_stcp_send (set_outstate p OUT_SENDING w) p m = Some (Inr 0, set_conn p ?c (set_outstate p OUT_SENDING w))"
    using us by (simp add: nn_stcp_send_def nn_usock_send_def nn_putll_be64 tcp_frame_def)
  moreover have "tcp_inv (set_outstate p OUT_ASYNC (set_conn p ?c (set_outstate p OUT_SENDING w)))"
    unfolding tcp_inv_def
  proof (intro allI impI)
    fix q assume "active_pipe (set_outstate p OUT_ASYNC (set_conn p ?c (set_outstate p OUT_SENDING w))) q"
    then have "conn_ok w q" using assms(1) by (simp add: tcp_inv_def)
    then show "conn_ok (set_outstate p OUT_ASYNC (set_conn p ?c (set_outstate p OUT_SENDING w))) q"
      using us by (cases "q = p") (auto simp: conn_ok_def be64_facts)
  qed
  ultimately show ?thesis using us(1) by auto
qed

lemma stcp_recv_ok:
  assumes "tcp_inv w" "can_recv w p"
  shows "\<exists>us w'. tc_usock (conn w p) = Some us \<and> tc_instate (conn w p) = STCP_HASMSG \<and>
    nn_stcp_recv (set_instate p IN_RECEIVING w) p = Some (Inr (0, tc_inmsg (conn w p)), w') \<and>
    pipes w' = pipes (set_instate p IN_RECEIVING w) \<and> tcp_inv (set_instate p IN_ASYNC w') \<and> sphdr (tc_inmsg (conn w p)) = [] \<and>
    (\<forall>q. conn w' q = (if q = p then (conn w p)\<lparr>tc_inmsg := empty_msg, tc_instate := STCP_HDR, tc_usock := Some (us\<lparr>us_in := Some 8\<rparr>)\<rparr> else conn w q))"
proof -
  have ok: "conn_ok w p" using assms by (simp add: tcp_inv_def)
  then obtain us where us: "tc_usock (conn w p) = Some us" "us_in us = None" "tc_instate (conn w p) = STCP_HASMSG" "tc_state (conn w p) = STCP_ACTIVE"
    "sphdr (tc_inmsg (conn w p)) = []"
    using assms(2) by (auto simp: conn_ok_def)
  let ?c = "(conn w p)\<lparr>tc_inmsg := empty_msg, tc_instate := STCP_HDR, tc_usock := Some (us\<lparr>us_in := Some 8\<rparr>)\<rparr>"
  have "nn_stcp_recv (set_instate p IN_RECEIVING w) p = Some (Inr (0, tc_inmsg (conn w p)), set_conn p ?c (set_instate p IN_RECEIVING w))"
    using us by (simp add: nn_stcp_recv_def nn_usock_recv_def Let_def)
  moreover have "tcp_inv (set_instate p IN_ASYNC (set_conn p ?c (set_instate p IN_RECEIVING w)))"
    unfolding tcp_inv_def
  proof (intro allI impI)
    fix q assume "active_pipe (set_instate p IN_ASYNC (set_conn p ?c (set_instate p IN_RECEIVING w))) q"
    then have "conn_ok w q" using assms(1) by (simp add: tcp_inv_def)
    then show "conn_ok (set_instate p IN_ASYNC (set_conn p ?c (set_instate p IN_RECEIVING w))) q"
      using us by (cases "q = p") (auto simp: conn_ok_def empty_msg_def)
  qed
  ultimately show ?thesis using us by auto
qed

lemma stcp_pipe_recv:
  assumes "tcp_inv w" "can_recv w p"
  shows "\<exists>us w'. tc_usock (conn w p) = Some us \<and> tc_instate (conn w p) = STCP_HASMSG \<and>
    nn_pipe_recv nn_stcp_pipebase_vfptr w p = Some (NN_PIPE_RELEASE, tc_inmsg (conn w p), w') \<and> tcp_inv w' \<and> sphdr (tc_inmsg (conn w p)) = [] \<and>
    (\<forall>q. conn w' q = (if q = p then (conn w p)\<lparr>tc_inmsg := empty_msg, tc_instate := STCP_HDR, tc_usock := Some (us\<lparr>us_in := Some 8\<rparr>)\<rparr> else conn w q)) \<and>
    (\<forall>q. pstate (pipes w' q) = pstate (pipes w q))"
proof -
  obtain us w' where w': "tc_usock (conn w p) = Some us" "tc_instate (conn w p) = STCP_HASMSG"
    "nn_stcp_recv (set_instate p IN_RECEIVING w) p = Some (Inr (0, tc_inmsg (conn w p)), w')"
    "pipes w' = pipes (set_instate p IN_RECEIVING w)" "tcp_inv (set_instate p IN_ASYNC w')" "sphdr (tc_inmsg (conn w p)) = []"
    "\<forall>q. conn w' q = (if q = p then (conn w p)\<lparr>tc_inmsg := empty_msg, tc_instate := STCP_HDR, tc_usock := Some (us\<lparr>us_in := Some 8\<rparr>)\<rparr> else conn w q)"
    using stcp_recv_ok [OF assms] by (elim exE conjE) (rule that; assumption)
  have "nn_pipe_recv nn_stcp_pipebase_vfptr w p = Some (NN_PIPE_RELEASE, tc_inmsg (conn w p), set_instate p IN_ASYNC w')"
    using w'(3,4) assms(2) by (simp add: nn_pipe_recv_def nn_stcp_pipebase_vfptr_def)
  then show ?thesis using w' by (intro exI [of _ us] exI [of _ "set_instate p IN_ASYNC w'"]) simp
qed

interpretation tcp: framing_transport nn_stcp_pipebase_vfptr tcp_inv tcp_backlog
proof (unfold_locales, goal_cases)
  case (1 w p m)
  then obtain w' where "nn_stcp_send (set_outstate p OUT_SENDING w) p m = Some (Inr 0, w')"
    "pipes w' = pipes (set_outstate p OUT_SENDING w)" "tcp_inv (set_outstate p OUT_ASYNC w')"
    using stcp_send_ok [of w p m] by blast
  then show ?case by (simp add: nn_stcp_pipebase_vfptr_def released_iff)
next
  case (2 w p)
  then obtain m w' where "nn_stcp_recv (set_instate p IN_RECEIVING w) p = Some (Inr (0, m), w')"
    "pipes w' = pipes (set_instate p IN_RECEIVING w)" "tcp_inv (set_instate p IN_ASYNC w')"
    using stcp_recv_ok [of w p] by blast
  then show ?case
    by (intro exI [of _ 0] exI [of _ m] exI [of _ w']) (simp add: nn_stcp_pipebase_vfptr_def released_iff)
next
  case (3 w p rc m w')
  then show ?case using stcp_pipe_recv [OF 3(1,2)] by (auto simp: tcp_backlog_def split: if_splits)
next
  case (4 w p rc m w')
  then show ?case using stcp_pipe_recv [OF 4(1,2)] by auto
qed

section \<open>Events of the socket\<close>

text \<open>An event that may come is handled without an abort.  It keeps the invariant, unless it ends
  the connection: a message that is too long, a shutdown or an error.\<close>

lemma tcp_inv_update:
  assumes "tcp_inv w" "\<And>q. q \<noteq> p \<Longrightarrow> conn w' q = conn w q \<and> pipes w' q = pipes w q" "active_pipe w' p \<Longrightarrow> conn_ok w' p"
  shows "tcp_inv w'"
  unfolding tcp_inv_def
proof (intro allI impI)
  fix q assume a: "active_pipe w' q"
  show "conn_ok w' q"
    by (cases "q = p") (use a assms in \<open>auto simp: tcp_inv_def conn_ok_def\<close>)
qed

lemma stcp_hdr_ok:
  assumes inv: "tcp_inv w" and p: "active_pipe w p" "tc_instate (conn w p) = STCP_HDR" and bs: "nn_getll bs = Some sz"
    and sz: "rcvmaxsize env < 0 \<or> uint sz \<le> rcvmaxsize env" "can_alloc env sz" "tc_usock (conn w p) = Some us"
  shows "\<exists>w'. stcp_usock_event env add rm p (NN_USOCK_RECEIVED bs) (s, w) = Some (s, w') \<and> tcp_inv w' \<and>
    (\<forall>q. q \<noteq> p \<longrightarrow> conn w' q = conn w q) \<and> (\<forall>q. pstate (pipes w' q) = pstate (pipes w q)) \<and>
    conn w' p = (conn w p)\<lparr>tc_inhdr := bs, tc_inmsg := \<lparr>sphdr = [], hdrs = [], body = replicate (unat sz) 0\<rparr>,
      tc_instate := (if sz = 0 then STCP_HASMSG else STCP_BODY),
      tc_usock := Some (us\<lparr>us_in := (if sz = 0 then None else Some (unat sz))\<rparr>)\<rparr>"
proof -
  have ok: "conn_ok w p" using inv p(1) by (simp add: tcp_inv_def)
  have us: "us_in us = Some 8" "instate (pipes w p) = IN_ASYNC" "tc_fsm (conn w p) = FSM_ACTIVE" "tc_state (conn w p) = STCP_ACTIVE"
    using ok p(2) sz(3) by (auto simp: conn_ok_def)
  let ?c = "(conn w p)\<lparr>tc_inhdr := bs, tc_inmsg := \<lparr>sphdr = [], hdrs = [], body = replicate (unat sz) 0\<rparr>,
      tc_instate := (if sz = 0 then STCP_HASMSG else STCP_BODY), tc_usock := Some (us\<lparr>us_in := (if sz = 0 then None else Some (unat sz))\<rparr>)\<rparr>"
  let ?w = "if sz = 0 then nn_fsm_raise_pipe p NN_PIPE_IN (set_instate p IN_IDLE (set_conn p ?c w)) else set_conn p ?c w"
  have e: "stcp_usock_event env add rm p (NN_USOCK_RECEIVED bs) (s, w) = Some (s, ?w)"
    using us p(2) bs sz
    by (cases "sz = 0"; cases "conn w p") (auto simp: stcp_usock_event_def nn_stcp_feed_def nn_stcp_handler_def stcp_received_def usock_done_def nn_usock_recv_def
        nn_pipebase_received_def Let_def cong: if_cong)
  have "tcp_inv ?w"
    by (rule tcp_inv_update [OF inv, of p]) (use ok p us sz(3) in \<open>auto simp: conn_ok_def unat_eq_0\<close>)
  then show ?thesis using e by (intro exI [of _ ?w]) auto
qed

lemma stcp_body_ok:
  assumes inv: "tcp_inv w" and p: "active_pipe w p" "tc_instate (conn w p) = STCP_BODY" and us: "tc_usock (conn w p) = Some us" "us_in us = Some (length bs)"
  shows "\<exists>w'. stcp_usock_event env add rm p (NN_USOCK_RECEIVED bs) (s, w) = Some (s, w') \<and> tcp_inv w' \<and>
    (\<forall>q. q \<noteq> p \<longrightarrow> conn w' q = conn w q) \<and> (\<forall>q. pstate (pipes w' q) = pstate (pipes w q)) \<and>
    conn w' p = (conn w p)\<lparr>tc_usock := Some (us\<lparr>us_in := None\<rparr>), tc_inmsg := (tc_inmsg (conn w p))\<lparr>body := bs\<rparr>, tc_instate := STCP_HASMSG\<rparr>"
proof -
  have ok: "conn_ok w p" using inv p(1) by (simp add: tcp_inv_def)
  have st: "instate (pipes w p) = IN_ASYNC" "tc_fsm (conn w p) = FSM_ACTIVE" "tc_state (conn w p) = STCP_ACTIVE"
    using ok p(2) by (auto simp: conn_ok_def)
  let ?c = "(conn w p)\<lparr>tc_usock := Some (us\<lparr>us_in := None\<rparr>), tc_inmsg := (tc_inmsg (conn w p))\<lparr>body := bs\<rparr>, tc_instate := STCP_HASMSG\<rparr>"
  let ?w = "nn_fsm_raise_pipe p NN_PIPE_IN (set_instate p IN_IDLE (set_conn p ?c w))"
  have e: "stcp_usock_event env add rm p (NN_USOCK_RECEIVED bs) (s, w) = Some (s, ?w)"
    using us st p(2) by (simp add: stcp_usock_event_def nn_stcp_feed_def nn_stcp_handler_def stcp_received_def usock_done_def nn_pipebase_received_def Let_def)
  have "tcp_inv ?w"
    by (rule tcp_inv_update [OF inv, of p]) (use ok p us in \<open>auto simp: conn_ok_def\<close>)
  then show ?thesis using e by (intro exI [of _ ?w]) auto
qed

lemma stcp_sent_ok:
  assumes inv: "tcp_inv w" and p: "active_pipe w p" and us: "tc_usock (conn w p) = Some us" "us_out us"
  shows "\<exists>w'. stcp_usock_event env add rm p NN_USOCK_SENT (s, w) = Some (s, w') \<and> tcp_inv w' \<and>
    (\<forall>q. q \<noteq> p \<longrightarrow> conn w' q = conn w q) \<and> can_send w' p \<and> tc_usock (conn w' p) = Some (us\<lparr>us_out := False\<rparr>)"
proof -
  have ok: "conn_ok w p" using inv p by (simp add: tcp_inv_def)
  have st: "outstate (pipes w p) = OUT_ASYNC" "tc_fsm (conn w p) = FSM_ACTIVE" "tc_state (conn w p) = STCP_ACTIVE" "tc_outstate (conn w p) = STCP_OUT_SENDING"
    using ok us by (auto simp: conn_ok_def)
  let ?c = "(conn w p)\<lparr>tc_usock := Some (us\<lparr>us_out := False\<rparr>), tc_outstate := STCP_OUT_IDLE, tc_outmsg := empty_msg\<rparr>"
  let ?w = "nn_fsm_raise_pipe p NN_PIPE_OUT (set_outstate p OUT_IDLE (set_conn p ?c w))"
  have e: "stcp_usock_event env add rm p NN_USOCK_SENT (s, w) = Some (s, ?w)"
    using us st by (simp add: stcp_usock_event_def nn_stcp_feed_def nn_stcp_handler_def usock_done_def nn_pipebase_sent_def Let_def)
  have "tcp_inv ?w"
    by (rule tcp_inv_update [OF inv, of p]) (use ok us in \<open>auto simp: conn_ok_def\<close>)
  then show ?thesis using e p by (intro exI [of _ ?w]) auto
qed

section \<open>Properties\<close>

text \<open>A program that sends messages one after the other, each when the one before is on its way.\<close>

fun tcp_send_all :: "stream_env \<Rightarrow> pid \<Rightarrow> tworld \<Rightarrow> sp_msg list \<Rightarrow> tworld option" where
  "tcp_send_all env p w [] = Some w"
| "tcp_send_all env p w (m # ms) = do {
     (rc, w) \<leftarrow> nn_pipe_send nn_stcp_pipebase_vfptr w p m;
     (u, w) \<leftarrow> stcp_usock_event env (\<lambda>s p. None) (\<lambda>s p. None) p NN_USOCK_SENT ((), w);
     tcp_send_all env p w ms }"

text \<open>A connection on which bytes arrive: the socket hands over as many as it is asked for, and the
  messages are received as they become complete.\<close>

partial_function (option) tcp_pump :: "stream_env \<Rightarrow> pid \<Rightarrow> tworld \<Rightarrow> bytes \<Rightarrow> sp_msg list \<Rightarrow> (sp_msg list \<times> bytes \<times> tworld) option" where
  "tcp_pump env p w bs acc = do {
     us \<leftarrow> tc_usock (conn w p);
     case us_in us of
       None \<Rightarrow> do { (rc, m, w) \<leftarrow> nn_pipe_recv nn_stcp_pipebase_vfptr w p; tcp_pump env p w bs (acc @ [m]) }
     | Some n \<Rightarrow> if length bs < n then Some (acc, bs, w) else do {
         (u, w) \<leftarrow> stcp_usock_event env (\<lambda>s p. None) (\<lambda>s p. None) p (NN_USOCK_RECEIVED (take n bs)) ((), w);
         tcp_pump env p w (drop n bs) acc } }"

declare tcp_pump.simps [code]

definition tcp_wire :: "tworld \<Rightarrow> pid \<Rightarrow> bytes" where
  "tcp_wire w p = (case tc_usock (conn w p) of None \<Rightarrow> [] | Some us \<Rightarrow> us_wire us)"

lemma tcp_send_all_ok:
  assumes "tcp_inv w" "can_send w p"
  shows "\<exists>w'. tcp_send_all env p w ms = Some w' \<and> tcp_inv w' \<and> can_send w' p \<and> tcp_wire w' p = tcp_wire w p @ concat (map tcp_frame ms)"
  using assms
proof (induction ms arbitrary: w)
  case (Cons m ms)
  obtain us w1 where w1: "tc_usock (conn w p) = Some us" "nn_stcp_send (set_outstate p OUT_SENDING w) p m = Some (Inr 0, w1)"
    "pipes w1 = pipes (set_outstate p OUT_SENDING w)" "tcp_inv (set_outstate p OUT_ASYNC w1)"
    "tc_usock (conn w1 p) = Some (us\<lparr>us_out := True, us_wire := us_wire us @ tcp_frame m\<rparr>)"
    using stcp_send_ok [OF Cons.prems, of m] by auto
  let ?w1 = "set_outstate p OUT_ASYNC w1"
  have s: "nn_pipe_send nn_stcp_pipebase_vfptr w p m = Some (NN_PIPE_RELEASE, ?w1)"
    using w1(2,3) Cons.prems(2) by (simp add: nn_pipe_send_def nn_stcp_pipebase_vfptr_def)
  have a: "active_pipe ?w1 p" using w1(3) Cons.prems(2) by simp
  obtain w2 where w2: "stcp_usock_event env (\<lambda>s p. None) (\<lambda>s p. None) p NN_USOCK_SENT ((), ?w1) = Some ((), w2)" "tcp_inv w2" "can_send w2 p"
    "tc_usock (conn w2 p) = Some (us\<lparr>us_out := False, us_wire := us_wire us @ tcp_frame m\<rparr>)"
    using stcp_sent_ok [OF w1(4) a, of "us\<lparr>us_out := True, us_wire := us_wire us @ tcp_frame m\<rparr>" env "\<lambda>s p. None" "\<lambda>s p. None" "()"] w1(5) by auto
  show ?case using Cons.IH [OF w2(2,3)] s w2(1,4) w1(1) by (auto simp: tcp_wire_def)
qed (simp add: tcp_wire_def)

text \<open>A message the receiver takes: within the limit of the option, and there is memory for it.\<close>

definition tcp_fits :: "stream_env \<Rightarrow> sp_msg \<Rightarrow> bool" where
  "tcp_fits env m \<longleftrightarrow> (let n = length (sphdr m) + length (body m) in n < 2 ^ 64 \<and> (rcvmaxsize env < 0 \<or> int n \<le> rcvmaxsize env) \<and> can_alloc env (of_nat n))"

lemma tcp_pump_frame:
  assumes inv: "tcp_inv w" and p: "active_pipe w p" "tc_instate (conn w p) = STCP_HDR" and fits: "tcp_fits env m"
  shows "\<exists>w'. tcp_pump env p w (tcp_frame m @ bs) acc = tcp_pump env p w' bs (acc @ [merge_msg m]) \<and> tcp_inv w' \<and> active_pipe w' p \<and>
    tc_instate (conn w' p) = STCP_HDR"
proof -
  let ?n = "length (sphdr m) + length (body m)" and ?none = "\<lambda>s p. None"
  define sz where "sz = (of_nat ?n :: u64)"
  have sz: "unat sz = ?n" using fits unfolding sz_def tcp_fits_def Let_def by (simp only: unat_of_nat take_bit_nat_def) simp
  have fr: "tcp_frame m @ bs = be64 sz @ (sphdr m @ body m) @ bs" by (simp add: tcp_frame_def sz_def)
  have ok: "conn_ok w p" using inv p(1) by (simp add: tcp_inv_def)
  then obtain us where us: "tc_usock (conn w p) = Some us" "us_in us = Some 8" using p(2) by (auto simp: conn_ok_def)
  have lim: "rcvmaxsize env < 0 \<or> uint sz \<le> rcvmaxsize env" "can_alloc env sz"
    using fits sz by (auto simp: tcp_fits_def Let_def uint_nat sz_def)
  obtain w1 where w1: "stcp_usock_event env ?none ?none p (NN_USOCK_RECEIVED (be64 sz)) ((), w) = Some ((), w1)" "tcp_inv w1" "active_pipe w1 p"
    "conn w1 p = (conn w p)\<lparr>tc_inhdr := be64 sz, tc_inmsg := \<lparr>sphdr = [], hdrs = [], body = replicate (unat sz) 0\<rparr>,
      tc_instate := (if sz = 0 then STCP_HASMSG else STCP_BODY), tc_usock := Some (us\<lparr>us_in := (if sz = 0 then None else Some (unat sz))\<rparr>)\<rparr>"
    using stcp_hdr_ok [OF inv p be64_facts(2) lim us(1), of ?none ?none "()"] p(1) by auto
  have s1: "tcp_pump env p w (tcp_frame m @ bs) acc = tcp_pump env p w1 ((sphdr m @ body m) @ bs) acc"
    unfolding fr using us w1(1) by (subst tcp_pump.simps) (simp add: be64_facts)
  have "\<exists>w2. tcp_pump env p w1 ((sphdr m @ body m) @ bs) acc = tcp_pump env p w2 bs acc \<and> tcp_inv w2 \<and> active_pipe w2 p \<and>
    tc_instate (conn w2 p) = STCP_HASMSG \<and> tc_inmsg (conn w2 p) = merge_msg m"
  proof (cases "sz = 0")
    case True
    then have "sphdr m = []" "body m = []" using sz by auto
    then show ?thesis using w1 True by (intro exI [of _ w1]) (simp add: merge_msg_def)
  next
    case False
    have b: "tc_usock (conn w1 p) = Some (us\<lparr>us_in := Some ?n\<rparr>)" "tc_instate (conn w1 p) = STCP_BODY" using w1(4) False sz by simp_all
    obtain w2 where w2: "stcp_usock_event env ?none ?none p (NN_USOCK_RECEIVED (sphdr m @ body m)) ((), w1) = Some ((), w2)" "tcp_inv w2" "active_pipe w2 p"
      "conn w2 p = (conn w1 p)\<lparr>tc_usock := Some (us\<lparr>us_in := None\<rparr>), tc_inmsg := (tc_inmsg (conn w1 p))\<lparr>body := sphdr m @ body m\<rparr>, tc_instate := STCP_HASMSG\<rparr>"
      using stcp_body_ok [OF w1(2,3) b(2,1), of "sphdr m @ body m" env ?none ?none "()"] w1(3) by auto
    have "tcp_pump env p w1 ((sphdr m @ body m) @ bs) acc = tcp_pump env p w2 bs acc"
      using b w2(1) by (subst tcp_pump.simps) simp
    then show ?thesis using w2 w1(4) by (intro exI [of _ w2]) (simp add: merge_msg_def)
  qed
  then obtain w2 where w2: "tcp_pump env p w1 ((sphdr m @ body m) @ bs) acc = tcp_pump env p w2 bs acc" "tcp_inv w2" "active_pipe w2 p"
    "tc_instate (conn w2 p) = STCP_HASMSG" "tc_inmsg (conn w2 p) = merge_msg m" by blast
  have "conn_ok w2 p" using w2(2,3) by (simp add: tcp_inv_def)
  then have c: "can_recv w2 p" "\<exists>us. tc_usock (conn w2 p) = Some us \<and> us_in us = None" using w2(3,4) by (auto simp: conn_ok_def)
  obtain w3 where w3: "nn_pipe_recv nn_stcp_pipebase_vfptr w2 p = Some (NN_PIPE_RELEASE, merge_msg m, w3)" "tcp_inv w3" "active_pipe w3 p"
    "tc_instate (conn w3 p) = STCP_HDR"
    using stcp_pipe_recv [OF w2(2) c(1)] w2(3,5) by auto
  have "tcp_pump env p w2 bs acc = tcp_pump env p w3 bs (acc @ [merge_msg m])"
    using c(2) w3(1) by (subst tcp_pump.simps) auto
  then show ?thesis using s1 w2(1) w3 by metis
qed

lemma tcp_pump_frames:
  assumes "tcp_inv w" "active_pipe w p" "tc_instate (conn w p) = STCP_HDR" "\<forall>m \<in> set ms. tcp_fits env m" "length rest < 8"
  shows "\<exists>w'. tcp_pump env p w (concat (map tcp_frame ms) @ rest) acc = Some (acc @ map merge_msg ms, rest, w') \<and> tcp_inv w'"
  using assms(1-4)
proof (induction ms arbitrary: w acc)
  case Nil
  then have "conn_ok w p" by (simp add: tcp_inv_def)
  then obtain us where "tc_usock (conn w p) = Some us" "us_in us = Some 8" using Nil(3) by (auto simp: conn_ok_def)
  then show ?case using assms(5) Nil(1) by (subst tcp_pump.simps) simp
next
  case (Cons m ms)
  obtain w1 where w1: "tcp_pump env p w (tcp_frame m @ concat (map tcp_frame ms) @ rest) acc = tcp_pump env p w1 (concat (map tcp_frame ms) @ rest) (acc @ [merge_msg m])"
    "tcp_inv w1" "active_pipe w1 p" "tc_instate (conn w1 p) = STCP_HDR"
    using tcp_pump_frame [OF Cons(2-4), of env m "concat (map tcp_frame ms) @ rest" acc] Cons(5) by auto
  then show ?case using Cons.IH [OF w1(2-4), of "acc @ [merge_msg m]"] Cons(5) by auto
qed

text \<open>A connection from its start until its pipe is in use: the header goes out, the peer's header
  comes in, the worker starts and stops the timer, and the two events of the header exchange are
  processed.\<close>

definition stcp_handshake ::
  "stream_env \<Rightarrow> ('s \<Rightarrow> pid \<Rightarrow> (unit rc \<times> 's) option) \<Rightarrow> ('s \<Rightarrow> pid \<Rightarrow> 's option) \<Rightarrow> pid \<Rightarrow> bytes \<Rightarrow> 's \<times> tworld \<Rightarrow> ('s \<times> tworld) option" where
  "stcp_handshake env add rm p h sw = do {
     (s, w) \<leftarrow> nn_stcp_start env add rm p \<lparr>us_in = None, us_out = False, us_wire = []\<rparr> sw;
     w \<leftarrow> stcp_child env p (\<lambda>sh us. nn_streamhdr_feed (is_peer env) sh (usock_done us NN_USOCK_SENT) (SH_SRC_USOCK NN_USOCK_SENT)) w;
     w \<leftarrow> stcp_child env p (nn_streamhdr_tick (is_peer env) TaskTick) w;
     w \<leftarrow> stcp_child env p (\<lambda>sh us. nn_streamhdr_feed (is_peer env) sh (usock_done us (NN_USOCK_RECEIVED h)) (SH_SRC_USOCK (NN_USOCK_RECEIVED h))) w;
     w \<leftarrow> stcp_child env p (nn_streamhdr_tick (is_peer env) TaskTick) w;
     (s, w) \<leftarrow> stcp_child_event env add rm p (s, w);
     stcp_child_event env add rm p (s, w) }"

lemmas streamhdr_defs = nn_streamhdr_start_def nn_streamhdr_init_def nn_streamhdr_isidle_def nn_streamhdr_feed_def nn_streamhdr_handler_def
  nn_streamhdr_tick_def nn_streamhdr_stop_def nn_streamhdr_shutdown_def streamhdr_stop_timer_def streamhdr_finish_def streamhdr_raise_def

lemmas timer_defs = nn_timer_start_def nn_timer_stop_def nn_timer_init_def nn_timer_isidle_def nn_timer_handler_def nn_timer_shutdown_def
  nn_worker_execute_def nn_worker_add_timer_def nn_worker_rm_timer_def timer_raise_def timer_tick_def worker_task_def timer_feed_def

lemma streamhdr_run:
  assumes "nn_puts (replicate 4 0) protocol = Some h4" "streamhdr_valid ispeer h = Some True" "own = [0, 0x53, 0x50, 0] @ h4"
  obtains s1 s2 s3 s4 s5 s6 where
    "nn_streamhdr_start ispeer protocol nn_streamhdr_init \<lparr>us_in = None, us_out = False, us_wire = []\<rparr> = Some (s1, \<lparr>us_in = None, us_out = True, us_wire = own\<rparr>)"
    "nn_streamhdr_feed ispeer s1 \<lparr>us_in = None, us_out = False, us_wire = own\<rparr> (SH_SRC_USOCK NN_USOCK_SENT) = Some (s2, \<lparr>us_in = Some 8, us_out = False, us_wire = own\<rparr>)"
    "\<forall>us. nn_streamhdr_tick ispeer TaskTick s2 us = Some (s3, us)"
    "\<forall>us. nn_streamhdr_feed ispeer s3 us (SH_SRC_USOCK (NN_USOCK_RECEIVED h)) = Some (s4, us)"
    "\<forall>us. nn_streamhdr_tick ispeer TaskTick s4 us = Some (s5, us)" "sh_raised s5 = [NN_STREAMHDR_OK]"
    "nn_streamhdr_stop (s5\<lparr>sh_raised := []\<rparr>) = Some s6" "sh_raised s6 = [NN_STREAMHDR_STOPPED]"
proof -
  let ?t1 = "nn_timer_init\<lparr>tm_fsm := FSM_ACTIVE, tm_state := TIMER_ACTIVE, tm_timeout := 1000, tm_tasks := [NN_TIMER_SRC_START_TASK]\<rparr>"
  let ?t2 = "nn_timer_init\<lparr>tm_fsm := FSM_ACTIVE, tm_state := TIMER_ACTIVE, tm_armed := True\<rparr>"
  let ?t3 = "nn_timer_init\<lparr>tm_fsm := FSM_STOPPING, tm_state := TIMER_STOPPING, tm_armed := True, tm_tasks := [NN_TIMER_SRC_STOP_TASK]\<rparr>"
  let ?s1 = "nn_streamhdr_init\<lparr>sh_fsm := FSM_ACTIVE, sh_state := SH_SENDING, sh_timer := ?t1, sh_usock := True, sh_protohdr := own\<rparr>"
  let ?s4 = "?s1\<lparr>sh_state := SH_STOPPING_TIMER_DONE, sh_timer := ?t3, sh_protohdr := h\<rparr>"
  let ?s5 = "?s1\<lparr>sh_state := SH_DONE, sh_timer := nn_timer_init, sh_protohdr := h, sh_usock := False, sh_raised := [NN_STREAMHDR_OK]\<rparr>"
  let ?s6 = "?s5\<lparr>sh_fsm := FSM_IDLE, sh_state := SH_IDLE, sh_raised := [NN_STREAMHDR_STOPPED]\<rparr>"
  note defs = streamhdr_defs timer_defs nn_usock_send_def nn_usock_recv_def nn_ctx_leave.simps streamhdr_pop_def timer_take_def assms
  show thesis
    by (rule that [of ?s1 "?s1\<lparr>sh_state := SH_RECEIVING\<rparr>" "?s1\<lparr>sh_state := SH_RECEIVING, sh_timer := ?t2\<rparr>" ?s4 ?s5 ?s6]) (simp_all add: defs)
qed

lemma owner_simps [simp]:
  "tcp_owner (tstate (set_instate p i w)) = tcp_owner (tstate w)" "tcp_owner (tstate (set_outstate p u w)) = tcp_owner (tstate w)"
  "tcp_owner (tstate (set_pipe p b w)) = tcp_owner (tstate w)" "tcp_owner (tstate (nn_fsm_raise_pipe p ev w)) = tcp_owner (tstate w)"
  by (simp_all add: nn_fsm_raise_pipe_def)

lemma stcp_handshake_ok:
  assumes "tcp_inv w" "conn w p = nn_stcp_init" "pstate (pipes w p) = PIPE_IDLE" "p \<notin> fst ` set (tcp_owner (tstate w))"
    and "streamhdr_valid (is_peer env) h = Some True" "add s p = Some (Inr (), s')"
  shows "\<exists>w' h4. stcp_handshake env add rm p h (s, w) = Some (s', w') \<and> tcp_inv w' \<and> can_send w' p \<and> tc_instate (conn w' p) = STCP_HDR \<and>
    nn_puts (replicate 4 0) (own_protocol env) = Some h4 \<and> tcp_wire w' p = [0, 0x53, 0x50, 0] @ h4 \<and> (\<forall>q. q \<noteq> p \<longrightarrow> conn w' q = conn w q)"
proof -
  obtain h4 where h4: "nn_puts (replicate 4 0) (own_protocol env) = Some h4" by (simp add: nn_puts_def)
  define own :: bytes where "own = [0, 0x53, 0x50, 0] @ h4"
  obtain s1 s2 s3 s4 s5 s6 where r:
    "nn_streamhdr_start (is_peer env) (own_protocol env) nn_streamhdr_init \<lparr>us_in = None, us_out = False, us_wire = []\<rparr> =
      Some (s1, \<lparr>us_in = None, us_out = True, us_wire = own\<rparr>)"
    "nn_streamhdr_feed (is_peer env) s1 \<lparr>us_in = None, us_out = False, us_wire = own\<rparr> (SH_SRC_USOCK NN_USOCK_SENT) =
      Some (s2, \<lparr>us_in = Some 8, us_out = False, us_wire = own\<rparr>)"
    "\<forall>us. nn_streamhdr_tick (is_peer env) TaskTick s2 us = Some (s3, us)"
    "\<forall>us. nn_streamhdr_feed (is_peer env) s3 us (SH_SRC_USOCK (NN_USOCK_RECEIVED h)) = Some (s4, us)"
    "\<forall>us. nn_streamhdr_tick (is_peer env) TaskTick s4 us = Some (s5, us)" "sh_raised s5 = [NN_STREAMHDR_OK]"
    "nn_streamhdr_stop (s5\<lparr>sh_raised := []\<rparr>) = Some s6" "sh_raised s6 = [NN_STREAMHDR_STOPPED]"
    by (rule streamhdr_run [OF h4 assms(5) own_def])
  let ?c = "\<lparr>tc_fsm = FSM_ACTIVE, tc_state = STCP_ACTIVE, tc_usock = Some \<lparr>us_in = Some 8, us_out = False, us_wire = own\<rparr>,
    tc_streamhdr = s6\<lparr>sh_raised := []\<rparr>, tc_instate = STCP_HDR, tc_inhdr = replicate 8 0, tc_inmsg = empty_msg,
    tc_outstate = STCP_OUT_IDLE, tc_outhdr = replicate 8 0, tc_outmsg = empty_msg\<rparr>"
  let ?w = "set_conn p ?c (nn_fsm_raise_pipe p NN_PIPE_OUT (set_pipe p \<lparr>pstate = PIPE_ACTIVE, instate = IN_ASYNC, outstate = OUT_IDLE\<rparr> w))"
  have no: "(p, e) \<notin> set (tcp_owner (tstate w))" for e using assms(4) by force
  have comm: "set_conn p c (nn_fsm_raise_pipe p NN_PIPE_OUT (set_pipe p b (set_conn p d w))) = set_conn p c (nn_fsm_raise_pipe p NN_PIPE_OUT (set_pipe p b w))" for b c d
    by (simp add: set_conn_def nn_fsm_raise_pipe_def set_pipe_def)
  have "stcp_handshake env add rm p h (s, w) = Some (s', ?w)"
    using no assms(2,3,6)
    by (simp add: stcp_handshake_def nn_stcp_start_def nn_stcp_isidle_def nn_stcp_handler_def nn_stcp_init_def stcp_child_def
        stcp_child_event_def nn_stcp_feed_def usock_done_def nn_usock_recv_def nn_pipebase_start_def r comm Let_def)
  moreover have "tcp_inv ?w"
    by (rule tcp_inv_update [OF assms(1), of p]) (auto simp: conn_ok_def empty_msg_def)
  ultimately show ?thesis using h4 by (intro exI [of _ ?w] exI [of _ h4]) (simp add: tcp_wire_def own_def)
qed

text \<open>
  C12: A connection to a proper peer becomes active.  A connection that is started sends its own
  header; when the header of a peer arrives and the worker has executed the tasks of the
  timer, the pipe is handed to the socket and may be sent on, the connection waits for the
  length of the first message, and the bytes sent are the eight bytes of the header.
\<close>

theorem stcp_connects:
  assumes "tcp_inv w" "conn w p = nn_stcp_init" "pstate (pipes w p) = PIPE_IDLE" "p \<notin> fst ` set (tcp_owner (tstate w))"
    and "streamhdr_valid (is_peer env) h = Some True" "add s p = Some (Inr (), s')"
  shows "\<exists>w' h4. stcp_handshake env add rm p h (s, w) = Some (s', w') \<and> tcp_inv w' \<and> can_send w' p \<and> tc_instate (conn w' p) = STCP_HDR \<and>
    nn_puts (replicate 4 0) (own_protocol env) = Some h4 \<and> tcp_wire w' p = [0, 0x53, 0x50, 0] @ h4 \<and> (\<forall>q. q \<noteq> p \<longrightarrow> conn w' q = conn w q)"
  using assms by (rule stcp_handshake_ok)

text \<open>
  C10: A TCP connection delivers every message, in order and unchanged.  Whatever messages one end
  sends, the bytes it puts on the wire make the other end hand exactly these messages to its
  user, header and body joined, if each is within the receiver's size limit; nothing is left
  over, and neither end aborts.
\<close>

theorem tcp_delivers:
  assumes "tcp_inv w" "can_send w p"
    and "tcp_inv v" "active_pipe v q" "tc_instate (conn v q) = STCP_HDR" "\<forall>m \<in> set ms. tcp_fits env m"
  shows "\<exists>w' v'. tcp_send_all env' p w ms = Some w' \<and> tcp_inv w' \<and>
    tcp_pump env q v (drop (length (tcp_wire w p)) (tcp_wire w' p)) [] = Some (map merge_msg ms, [], v') \<and> tcp_inv v'"
proof -
  obtain w' where w': "tcp_send_all env' p w ms = Some w'" "tcp_inv w'" "tcp_wire w' p = tcp_wire w p @ concat (map tcp_frame ms)"
    using tcp_send_all_ok [OF assms(1,2), of env' ms] by auto
  then show ?thesis using tcp_pump_frames [OF assms(3-6), of "[]" "[]"] by auto
qed

text \<open>
  A message that is too long ends the connection: when the length that arrives is above the
  option \<open>NN_RCVMAXSIZE\<close>, no memory is allocated, the connection is done and its owner is told.
\<close>

lemma stcp_too_long:
  assumes "tcp_inv w" "active_pipe w p" "tc_instate (conn w p) = STCP_HDR" "nn_getll bs = Some sz" "0 \<le> rcvmaxsize env" "rcvmaxsize env < uint sz"
    and "(p, NN_STCP_ERROR) \<notin> set (tcp_owner (tstate w))"
  shows "\<exists>w'. stcp_usock_event env add rm p (NN_USOCK_RECEIVED bs) (s, w) = Some (s, w') \<and> tc_state (conn w' p) = STCP_DONE \<and>
    tc_inmsg (conn w' p) = tc_inmsg (conn w p) \<and> tcp_owner (tstate w') = tcp_owner (tstate w) @ [(p, NN_STCP_ERROR)] \<and> pipes w' = pipes w"
proof -
  have ok: "conn_ok w p" using assms(1,2) by (simp add: tcp_inv_def)
  then obtain us where us: "tc_usock (conn w p) = Some us" "tc_fsm (conn w p) = FSM_ACTIVE" "tc_state (conn w p) = STCP_ACTIVE" by (auto simp: conn_ok_def)
  let ?w = "set_conn p ((conn w p)\<lparr>tc_usock := Some (usock_done us (NN_USOCK_RECEIVED bs)), tc_inhdr := bs, tc_state := STCP_DONE\<rparr>) w"
  obtain w' where "stcp_raise p NN_STCP_ERROR ?w = Some w'" "pipes w' = pipes ?w" "\<forall>q. conn w' q = conn ?w q"
    "tcp_owner (tstate w') = tcp_owner (tstate ?w) @ [(p, NN_STCP_ERROR)]"
    using stcp_raise_ok [of p NN_STCP_ERROR ?w] assms(7) by auto
  then show ?thesis
    using us assms(3-6) by (simp add: stcp_usock_event_def nn_stcp_feed_def nn_stcp_handler_def stcp_received_def Let_def)
qed

section \<open>Examples\<close>

definition tcp_env0 :: stream_env where
  "tcp_env0 = \<lparr>rcvmaxsize = 1048576, own_protocol = 16, is_peer = (\<lambda>p. p = 16), can_alloc = (\<lambda>n. True)\<rparr>"

definition tcp_world0 :: tworld where
  "tcp_world0 = \<lparr>pipes = (\<lambda>p. fresh_pipe), raised = [], tstate = \<lparr>conns = (\<lambda>p. nn_stcp_init), tcp_owner = []\<rparr>\<rparr>"

definition peer_header :: bytes where
  "peer_header = [0, 0x53, 0x50, 0, 0, 16, 0, 0]"

lemma tcp_world0_ok:
  "tcp_inv tcp_world0" "conn tcp_world0 p = nn_stcp_init" "pstate (pipes tcp_world0 p) = PIPE_IDLE" "tcp_owner (tstate tcp_world0) = []"
  "streamhdr_valid (is_peer tcp_env0) peer_header = Some True"
  by (simp_all add: tcp_inv_def tcp_world0_def fresh_pipe_def conn_def tcp_env0_def peer_header_def streamhdr_valid_def nn_gets_def)

lemma tcp_connected:
  obtains w where "stcp_handshake tcp_env0 no_add no_rm 0 peer_header ((), tcp_world0) = Some ((), w)" "tcp_inv w" "can_send w 0"
    "tc_instate (conn w 0) = STCP_HDR" "tcp_owner (tstate w) = []"
proof -
  obtain w where w: "stcp_handshake tcp_env0 no_add no_rm 0 peer_header ((), tcp_world0) = Some ((), w)" "tcp_inv w" "can_send w 0" "tc_instate (conn w 0) = STCP_HDR"
    using stcp_handshake_ok [of tcp_world0 0 tcp_env0 peer_header no_add "()" "()" no_rm] tcp_world0_ok by (auto simp: no_add_def)
  have "map_option (\<lambda>(s, w). tcp_owner (tstate w)) (stcp_handshake tcp_env0 no_add no_rm 0 peer_header ((), tcp_world0)) = Some []"
    by code_simp
  then show thesis using that [OF w] w(1) by simp
qed

theorem stcp_connects_witness:
  "\<exists>w. stcp_handshake tcp_env0 no_add no_rm 0 peer_header ((), tcp_world0) = Some ((), w) \<and> can_send w 0"
  using stcp_connects [of tcp_world0 0 tcp_env0 peer_header no_add "()" "()" no_rm] tcp_world0_ok by (auto simp: no_add_def)

theorem tcp_delivers_witness:
  "\<exists>w w' v'. stcp_handshake tcp_env0 no_add no_rm 0 peer_header ((), tcp_world0) = Some ((), w) \<and>
     tcp_send_all tcp_env0 0 w [\<lparr>sphdr = [1], hdrs = [], body = [2, 3]\<rparr>, empty_msg] = Some w' \<and>
     tcp_pump tcp_env0 0 w (drop (length (tcp_wire w 0)) (tcp_wire w' 0)) [] = Some ([\<lparr>sphdr = [], hdrs = [], body = [1, 2, 3]\<rparr>, empty_msg], [], v')"
proof (rule tcp_connected)
  fix w assume w: "stcp_handshake tcp_env0 no_add no_rm 0 peer_header ((), tcp_world0) = Some ((), w)" "tcp_inv w" "can_send w 0" "tc_instate (conn w 0) = STCP_HDR"
  let ?ms = "[\<lparr>sphdr = [1], hdrs = [], body = [2, 3]\<rparr>, empty_msg]"
  have "\<forall>m \<in> set ?ms. tcp_fits tcp_env0 m" by (simp add: tcp_fits_def tcp_env0_def empty_msg_def Let_def)
  from tcp_delivers [OF w(2,3) w(2) _ w(4) this, of tcp_env0] w(1,3) show ?thesis by (auto simp: merge_msg_def empty_msg_def)
qed

end
