(* ===== verification/Nn_Utf8.thy ===== *)
theory Nn_Utf8
  imports Nn_Prelude "HOL-Library.Sublist"
begin

text \<open>
  The check of UTF-8 in \<^verbatim>\<open>transports/ws/sws.c\<close>, which text messages of WebSocket connections
  have to pass, against the encoding of Unicode that RFC 3629 defines.
\<close>

section \<open>Model\<close>

definition NN_SWS_UTF8_INVALID :: int where
  "NN_SWS_UTF8_INVALID = -2"

definition NN_SWS_UTF8_FRAGMENT :: int where
  "NN_SWS_UTF8_FRAGMENT = -1"

text \<open>The buffer is the list of the \<open>len\<close> bytes it holds.\<close>

definition nn_utf8_code_point :: "bytes \<Rightarrow> int option" where
  "nn_utf8_code_point buffer =
     (if buffer = [] then Some NN_SWS_UTF8_FRAGMENT
      else if buffer ! 0 \<le> 0x7F then Some 1
      else if buffer ! 0 < 0xC2 then Some NN_SWS_UTF8_INVALID
      else if buffer ! 0 \<le> 0xDF then
        (if length buffer < 2 then Some NN_SWS_UTF8_FRAGMENT
         else if buffer ! 1 AND 0xC0 \<noteq> 0x80 then Some NN_SWS_UTF8_INVALID
         else Some 2)
      else if buffer ! 0 \<le> 0xEF then
        (if length buffer < 2 then Some NN_SWS_UTF8_FRAGMENT
         else if buffer ! 0 = 0xE0 \<and> (buffer ! 1 < 0xA0 \<or> buffer ! 1 = 0x80) then Some NN_SWS_UTF8_INVALID
         else if buffer ! 0 = 0xED \<and> buffer ! 1 \<ge> 0xA0 then Some NN_SWS_UTF8_INVALID
         else if length buffer < 3 then Some NN_SWS_UTF8_FRAGMENT
         else if buffer ! 1 AND 0xC0 \<noteq> 0x80 \<or> buffer ! 2 AND 0xC0 \<noteq> 0x80 then Some NN_SWS_UTF8_INVALID
         else Some 3)
      else if buffer ! 0 \<le> 0xF4 then
        (if length buffer < 2 then Some NN_SWS_UTF8_FRAGMENT
         else if buffer ! 0 = 0xF0 \<and> buffer ! 1 < 0x90 then Some NN_SWS_UTF8_INVALID
         else if buffer ! 0 = 0xF4 \<and> buffer ! 1 \<ge> 0x90 then Some NN_SWS_UTF8_INVALID
         else if length buffer < 4 then Some NN_SWS_UTF8_FRAGMENT
         else if buffer ! 1 AND 0xC0 \<noteq> 0x80 \<or> buffer ! 2 AND 0xC0 \<noteq> 0x80 \<or> buffer ! 3 AND 0xC0 \<noteq> 0x80 then Some NN_SWS_UTF8_INVALID
         else Some 4)
      else if buffer ! 0 \<ge> 0xF5 then Some NN_SWS_UTF8_INVALID
      else None)"

text \<open>The loop that checks a text: it ends with the bytes from the first place that is not a code
  point on, and the verdict about them.\<close>

function utf8_scan :: "bytes \<Rightarrow> (bytes \<times> int) option" where
  "utf8_scan bs =
     (if bs = [] then Some ([], 0)
      else do {
        code_point_len \<leftarrow> nn_utf8_code_point bs;
        if code_point_len > 0 then do {
          nn_assert (nat code_point_len \<le> length bs);
          utf8_scan (drop (nat code_point_len) bs) }
        else Some (bs, code_point_len) })"
  by pat_completeness auto
termination by (relation "measure length") auto

declare utf8_scan.simps [simp del]

section \<open>RFC 3629\<close>

text \<open>The code points are those up to U+10FFFF without the surrogates.\<close>

definition unicode_scalar :: "nat \<Rightarrow> bool" where
  "unicode_scalar cp \<longleftrightarrow> cp < 0x110000 \<and> \<not> (0xD800 \<le> cp \<and> cp \<le> 0xDFFF)"

definition utf8_encode :: "nat \<Rightarrow> bytes" where
  "utf8_encode cp =
     (if cp < 0x80 then [of_nat cp]
      else if cp < 0x800 then [of_nat (0xC0 + cp div 64), of_nat (0x80 + cp mod 64)]
      else if cp < 0x10000 then [of_nat (0xE0 + cp div 4096), of_nat (0x80 + cp div 64 mod 64), of_nat (0x80 + cp mod 64)]
      else [of_nat (0xF0 + cp div 262144), of_nat (0x80 + cp div 4096 mod 64), of_nat (0x80 + cp div 64 mod 64), of_nat (0x80 + cp mod 64)])"

definition utf8_text :: "bytes \<Rightarrow> bool" where
  "utf8_text bs \<longleftrightarrow> (\<exists>cps. list_all unicode_scalar cps \<and> bs = concat (map utf8_encode cps))"

section \<open>Bytes as numbers\<close>

lemma and_C0_all: "list_all (\<lambda>n. ((of_nat n :: u8) AND 0xC0 = 0x80) = (128 \<le> n \<and> n < 192)) [0..<256]"
  by code_simp

lemma and_C0 [simp]: "b AND 0xC0 = 0x80 \<longleftrightarrow> 128 \<le> unat b \<and> unat b < 192" for b :: u8
proof -
  have "unat b \<in> set [0..<256]" using unsigned_less [of b, where 'a = nat] by simp
  then have "((of_nat (unat b) :: u8) AND 0xC0 = 0x80) = (128 \<le> unat b \<and> unat b < 192)"
    using and_C0_all unfolding list_all_iff by blast
  then show ?thesis by simp
qed

lemma unat_byte: "n < 256 \<Longrightarrow> unat (of_nat n :: u8) = n"
  by (simp add: unsigned_of_nat take_bit_nat_eq_self)

lemma byte_eq: "n < 256 \<Longrightarrow> (of_nat n :: u8) = b \<longleftrightarrow> n = unat b"
  using unat_byte by auto

lemmas byte_cmp = word_le_nat_alt word_less_nat_alt

section \<open>Code points and encodings\<close>

text \<open>The bits of a code point in groups of six.\<close>

lemma cp_split2: "cp < 0x800 \<Longrightarrow> \<exists>a c. cp = a * 64 + c \<and> a < 32 \<and> c < (64::nat)"
  by (intro exI [of _ "cp div 64"] exI [of _ "cp mod 64"]) simp

lemma cp_split3: "cp < 0x10000 \<Longrightarrow> \<exists>a b c. cp = a * 4096 + b * 64 + c \<and> a < 16 \<and> b < 64 \<and> c < (64::nat)"
  using div_mult_mod_eq [of cp 64] div_mult_mod_eq [of "cp div 64" 64]
  by (intro exI [of _ "cp div 64 div 64"] exI [of _ "cp div 64 mod 64"] exI [of _ "cp mod 64"] conjI) linarith+

lemma cp_split4: "cp < 0x110000 \<Longrightarrow> \<exists>a b c d. cp = a * 262144 + b * 4096 + c * 64 + d \<and> a < 5 \<and> b < 64 \<and> c < 64 \<and> d < (64::nat)"
  using div_mult_mod_eq [of cp 64] div_mult_mod_eq [of "cp div 64" 64] div_mult_mod_eq [of "cp div 64 div 64" 64]
  by (intro exI [of _ "cp div 64 div 64 div 64"] exI [of _ "cp div 64 div 64 mod 64"] exI [of _ "cp div 64 mod 64"] exI [of _ "cp mod 64"] conjI) linarith+

lemma div4096: "n div 4096 = n div 64 div (64::nat)" "n div 262144 = n div 64 div 64 div (64::nat)"
  by (simp_all add: div_mult2_eq [symmetric])

lemma join64_nat: "r < 64 \<Longrightarrow> (q * 64 + r) div 64 = q \<and> (q * 64 + r) mod 64 = (r::nat)"
  by simp

lemma cp_join3: "b < 64 \<Longrightarrow> c < (64::nat) \<Longrightarrow> (a * 4096 + b * 64 + c) div 4096 = a \<and> (a * 4096 + b * 64 + c) div 64 mod 64 = b \<and> (a * 4096 + b * 64 + c) mod 64 = c"
  using join64_nat [of c "a * 64 + b"] join64_nat [of b a] by (simp add: div4096 algebra_simps)

lemma cp_join4: "b < 64 \<Longrightarrow> c < 64 \<Longrightarrow> d < (64::nat) \<Longrightarrow> (a * 262144 + b * 4096 + c * 64 + d) div 262144 = a \<and>
    (a * 262144 + b * 4096 + c * 64 + d) div 4096 mod 64 = b \<and> (a * 262144 + b * 4096 + c * 64 + d) div 64 mod 64 = c \<and> (a * 262144 + b * 4096 + c * 64 + d) mod 64 = d"
  using join64_nat [of d "a * 4096 + b * 64 + c"] cp_join3 [of b c a] join64_nat [of b a] by (simp add: div4096 algebra_simps)

lemma utf8_encode_length: "0 < length (utf8_encode cp)" "length (utf8_encode cp) \<le> 4"
  by (simp_all add: utf8_encode_def)

text \<open>Bytes given by their values.\<close>

lemma bytes_of_nat:
  "n < 256 \<Longrightarrow> \<exists>x :: u8. of_nat n = x \<and> unat x = n"
  by (simp add: unat_byte)

lemma encode2:
  assumes "2 \<le> a" "a < 32" "c < 64"
  obtains x y where "utf8_encode (a * 64 + c) = [x, y]" "unat x = 0xC0 + a" "unat y = 0x80 + c"
  using assms that [of "of_nat (0xC0 + a)" "of_nat (0x80 + c)"] by (simp add: utf8_encode_def unat_byte del: of_nat_add)

lemma encode3:
  assumes "0x800 \<le> a * 4096 + b * 64 + c" "a < 16" "b < 64" "c < 64"
  obtains x y z where "utf8_encode (a * 4096 + b * 64 + c) = [x, y, z]" "unat x = 0xE0 + a" "unat y = 0x80 + b" "unat z = 0x80 + c"
  using assms cp_join3 [of b c a] that [of "of_nat (0xE0 + a)" "of_nat (0x80 + b)" "of_nat (0x80 + c)"]
  by (simp add: utf8_encode_def unat_byte del: of_nat_add)

lemma encode4:
  assumes "0x10000 \<le> a * 262144 + b * 4096 + c * 64 + d" "a < 5" "b < 64" "c < 64" "d < 64"
  obtains x y z u where "utf8_encode (a * 262144 + b * 4096 + c * 64 + d) = [x, y, z, u]" "unat x = 0xF0 + a" "unat y = 0x80 + b" "unat z = 0x80 + c" "unat u = 0x80 + d"
  using assms cp_join4 [of b c d a] that [of "of_nat (0xF0 + a)" "of_nat (0x80 + b)" "of_nat (0x80 + c)" "of_nat (0x80 + d)"]
  by (simp add: utf8_encode_def unat_byte del: of_nat_add)

text \<open>The verdict on a buffer of one to four bytes and more, by the values of the bytes.\<close>

lemma lead_byte:
  fixes x :: u8
  shows "x = 0xE0 \<longleftrightarrow> unat x = 0xE0" "x = 0xED \<longleftrightarrow> unat x = 0xED" "x = 0xF0 \<longleftrightarrow> unat x = 0xF0" "x = 0xF4 \<longleftrightarrow> unat x = 0xF4"
  by (simp_all add: word_unat_eq_iff)

lemma byte_80: "x = 0x80 \<longleftrightarrow> unat x = 0x80" for x :: u8
  by (simp add: word_unat_eq_iff)

lemma code_point_encode:
  assumes "unicode_scalar cp"
  shows "nn_utf8_code_point (utf8_encode cp @ r) = Some (int (length (utf8_encode cp)))"
proof -
  consider "cp < 0x80" | "0x80 \<le> cp" "cp < 0x800" | "0x800 \<le> cp" "cp < 0x10000" | "0x10000 \<le> cp" "cp < 0x110000"
    using assms unfolding unicode_scalar_def by linarith
  then show ?thesis
  proof cases
    case 1
    then show ?thesis by (simp add: utf8_encode_def nn_utf8_code_point_def byte_cmp unat_byte)
  next
    case 2
    then obtain a c where *: "cp = a * 64 + c" "2 \<le> a" "a < 32" "c < 64" using cp_split2 [of cp] by auto
    obtain x y where "utf8_encode cp = [x, y]" "unat x = 0xC0 + a" "unat y = 0x80 + c" using encode2 [OF *(2-4)] *(1) by metis
    then show ?thesis using * by (simp add: nn_utf8_code_point_def byte_cmp)
  next
    case 3
    then obtain a b c where *: "cp = a * 4096 + b * 64 + c" "a < 16" "b < 64" "c < 64" using cp_split3 [of cp] by auto
    obtain x y z where e: "utf8_encode cp = [x, y, z]" "unat x = 0xE0 + a" "unat y = 0x80 + b" "unat z = 0x80 + c"
      using encode3 [OF _ *(2-4)] *(1) 3(1) by metis
    have "a = 0 \<longrightarrow> 32 \<le> b" "a = 13 \<longrightarrow> b < 32" using * 3 assms unfolding unicode_scalar_def by linarith+
    then show ?thesis using e * byte_80 [of y] by (auto simp: nn_utf8_code_point_def byte_cmp lead_byte)
  next
    case 4
    then obtain a b c d where *: "cp = a * 262144 + b * 4096 + c * 64 + d" "a < 5" "b < 64" "c < 64" "d < 64" using cp_split4 [of cp] by auto
    obtain x y z u where e: "utf8_encode cp = [x, y, z, u]" "unat x = 0xF0 + a" "unat y = 0x80 + b" "unat z = 0x80 + c" "unat u = 0x80 + d"
      using encode4 [OF _ *(2-5)] *(1) 4(1) by metis
    have "a = 0 \<longrightarrow> 16 \<le> b" "a = 4 \<longrightarrow> b < 16" using * 4 by linarith+
    then show ?thesis using e * by (auto simp: nn_utf8_code_point_def byte_cmp lead_byte)
  qed
qed

lemma code_point_decode:
  assumes "nn_utf8_code_point bs = Some n" "0 < n"
  shows "\<exists>cp. unicode_scalar cp \<and> utf8_encode cp = take (nat n) bs \<and> nat n \<le> length bs"
proof -
  consider x r where "bs = x # r" "unat x < 0x80" "n = 1"
    | x y r where "bs = x # y # r" "0xC2 \<le> unat x" "unat x < 0xE0" "0x80 \<le> unat y" "unat y < 0xC0" "n = 2"
    | x y z r where "bs = x # y # z # r" "0xE0 \<le> unat x" "unat x < 0xF0" "0x80 \<le> unat y" "unat y < 0xC0" "0x80 \<le> unat z" "unat z < 0xC0"
        "unat x = 0xE0 \<longrightarrow> 0xA0 \<le> unat y" "unat x = 0xED \<longrightarrow> unat y < 0xA0" "n = 3"
    | x y z u r where "bs = x # y # z # u # r" "0xF0 \<le> unat x" "unat x < 0xF5" "0x80 \<le> unat y" "unat y < 0xC0" "0x80 \<le> unat z" "unat z < 0xC0"
        "0x80 \<le> unat u" "unat u < 0xC0" "unat x = 0xF0 \<longrightarrow> 0x90 \<le> unat y" "unat x = 0xF4 \<longrightarrow> unat y < 0x90" "n = 4"
    using assms by (cases bs; cases "tl bs"; cases "tl (tl bs)"; cases "tl (tl (tl bs))")
      (auto simp: nn_utf8_code_point_def byte_cmp lead_byte NN_SWS_UTF8_INVALID_def NN_SWS_UTF8_FRAGMENT_def split: if_splits)
  then show ?thesis
  proof cases
    case 1
    then show ?thesis by (intro exI [of _ "unat x"]) (simp add: unicode_scalar_def utf8_encode_def)
  next
    case 2
    let ?cp = "(unat x - 0xC0) * 64 + (unat y - 0x80)"
    have "utf8_encode ?cp = [x, y]"
      by (rule encode2 [of "unat x - 0xC0" "unat y - 0x80"]) (use 2 in \<open>auto simp: word_unat_eq_iff\<close>)
    moreover have "unicode_scalar ?cp" unfolding unicode_scalar_def using 2 by linarith
    ultimately show ?thesis using 2 by (intro exI [of _ ?cp]) simp
  next
    case 3
    let ?cp = "(unat x - 0xE0) * 4096 + (unat y - 0x80) * 64 + (unat z - 0x80)"
    have "utf8_encode ?cp = [x, y, z]"
      by (rule encode3 [of "unat x - 0xE0" "unat y - 0x80" "unat z - 0x80"]) (use 3 in \<open>auto simp: word_unat_eq_iff\<close>)
    moreover have "unicode_scalar ?cp" 
      unfolding unicode_scalar_def using 3 by (cases "unat x" "0xED :: nat" rule: linorder_cases) (simp, linarith)+
    ultimately show ?thesis using 3 by (intro exI [of _ ?cp]) simp
  next
    case 4
    let ?cp = "(unat x - 0xF0) * 262144 + (unat y - 0x80) * 4096 + (unat z - 0x80) * 64 + (unat u - 0x80)"
    have "utf8_encode ?cp = [x, y, z, u]"
      by (rule encode4 [of "unat x - 0xF0" "unat y - 0x80" "unat z - 0x80" "unat u - 0x80"]) (use 4 in \<open>auto simp: word_unat_eq_iff\<close>)
    moreover have "unicode_scalar ?cp" unfolding unicode_scalar_def using 4 by linarith
    ultimately show ?thesis using 4 by (intro exI [of _ ?cp]) simp
  qed
qed

section \<open>Verdicts\<close>

lemma code_point_range: "\<exists>n. nn_utf8_code_point bs = Some n \<and> (n = NN_SWS_UTF8_INVALID \<or> n = NN_SWS_UTF8_FRAGMENT \<and> length bs < 4 \<or> 0 < n \<and> n \<le> 4)"
  by (cases bs) (auto simp: nn_utf8_code_point_def not_le byte_cmp)

lemma bytes4_cases:
  obtains "bs = []" | x where "bs = [x]" | x y where "bs = [x, y]" | x y z where "bs = [x, y, z]" | x y z u t where "bs = x # y # z # u # t"
  by (metis neq_Nil_conv)

text \<open>Bytes that follow do not change a verdict that is not open.\<close>

lemma code_point_stable:
  assumes "nn_utf8_code_point bs \<noteq> Some NN_SWS_UTF8_FRAGMENT"
  shows "nn_utf8_code_point (bs @ r) = nn_utf8_code_point bs"
proof (cases bs rule: bytes4_cases)
  case (5 x y z u t)
  then show ?thesis by (simp add: nn_utf8_code_point_def cong: if_cong conj_cong)
qed (use assms in \<open>simp_all add: nn_utf8_code_point_def cong: if_cong split del: if_split split: if_split_asm\<close>)

lemma code_point_prefix:
  assumes "unicode_scalar cp" "strict_prefix bs (utf8_encode cp)"
  shows "nn_utf8_code_point bs = Some NN_SWS_UTF8_FRAGMENT"
proof (rule ccontr)
  assume *: "nn_utf8_code_point bs \<noteq> Some NN_SWS_UTF8_FRAGMENT"
  obtain r where r: "utf8_encode cp = bs @ r" "r \<noteq> []" using assms(2) by (auto simp: strict_prefix_def prefix_def)
  have n: "nn_utf8_code_point bs = Some (int (length (bs @ r)))"
    using code_point_stable [OF *, of r] code_point_encode [OF assms(1), of "[]"] r by simp
  have "0 < int (length (bs @ r))" using r(2) by (simp only: length_append length_0_conv [symmetric])
  then have "length (bs @ r) \<le> length bs" using code_point_decode [OF n] by (simp only: nat_int) blast
  then show False using r(2) by simp
qed

lemma code_point_invalid:
  assumes "nn_utf8_code_point bs = Some NN_SWS_UTF8_INVALID" "unicode_scalar cp"
  shows "\<not> prefix (utf8_encode cp) (bs @ r)"
proof
  assume "prefix (utf8_encode cp) (bs @ r)"
  then obtain t where "bs @ r = utf8_encode cp @ t" by (auto simp: prefix_def)
  moreover have "nn_utf8_code_point (bs @ r) = Some NN_SWS_UTF8_INVALID"
    using code_point_stable [of bs r] assms(1) by (simp add: NN_SWS_UTF8_INVALID_def NN_SWS_UTF8_FRAGMENT_def)
  ultimately show False using code_point_encode [OF assms(2), of t] by (simp add: NN_SWS_UTF8_INVALID_def)
qed

section \<open>Texts\<close>

lemma utf8_text_Nil [simp]: "utf8_text []"
  unfolding utf8_text_def by (intro exI [of _ "[]"]) simp

lemma utf8_text_append: "utf8_text a \<Longrightarrow> utf8_text b \<Longrightarrow> utf8_text (a @ b)"
  unfolding utf8_text_def by (metis concat_append list_all_append map_append)

lemma utf8_text_encode: "unicode_scalar cp \<Longrightarrow> utf8_text (utf8_encode cp)"
  unfolding utf8_text_def by (intro exI [of _ "[cp]"]) simp

lemma utf8_scan_step:
  assumes "unicode_scalar cp"
  shows "utf8_scan (utf8_encode cp @ r) = utf8_scan r"
  using code_point_encode [OF assms, of r] utf8_encode_length(1) [of cp]
  by (subst utf8_scan.simps) (auto simp: append_eq_conv_conj)

lemma utf8_scan_text: "utf8_text t \<Longrightarrow> utf8_scan (t @ r) = utf8_scan r"
proof -
  assume "utf8_text t"
  then obtain cps where "list_all unicode_scalar cps" "t = concat (map utf8_encode cps)" by (auto simp: utf8_text_def)
  then show ?thesis by (induction cps arbitrary: t) (simp_all add: utf8_scan_step)
qed

text \<open>Every run of the check ends: the bytes before the place it stops at are text.\<close>

lemma utf8_scan_stops:
  "\<exists>t r n. utf8_scan bs = Some (r, n) \<and> bs = t @ r \<and> utf8_text t \<and>
    (r = [] \<and> n = 0 \<or> r \<noteq> [] \<and> nn_utf8_code_point r = Some n \<and> (n = NN_SWS_UTF8_INVALID \<or> n = NN_SWS_UTF8_FRAGMENT \<and> length r < 4))"
proof (induction "length bs" arbitrary: bs rule: less_induct)
  case less
  show ?case
  proof (cases "bs = []")
    case True
    then show ?thesis by (simp add: utf8_scan.simps)
  next
    case False
    obtain n where n: "nn_utf8_code_point bs = Some n"
      "n = NN_SWS_UTF8_INVALID \<or> n = NN_SWS_UTF8_FRAGMENT \<and> length bs < 4 \<or> 0 < n \<and> n \<le> 4"
      using code_point_range [of bs] by auto
    show ?thesis
    proof (cases "0 < n")
      case False
      then show ?thesis using n \<open>bs \<noteq> []\<close>
        by (intro exI [of _ "[]"] exI [of _ bs] exI [of _ n]) (auto simp: utf8_scan.simps [of bs])
    next
      case True
      then obtain cp where cp: "unicode_scalar cp" "utf8_encode cp = take (nat n) bs" "nat n \<le> length bs"
        using code_point_decode [OF n(1)] by auto
      have bs: "bs = utf8_encode cp @ drop (nat n) bs" using cp(2) by simp
      have "length (drop (nat n) bs) < length bs" using True False by simp
      from less [OF this] obtain t r m where *: "utf8_scan (drop (nat n) bs) = Some (r, m)" "drop (nat n) bs = t @ r" "utf8_text t"
        "r = [] \<and> m = 0 \<or> r \<noteq> [] \<and> nn_utf8_code_point r = Some m \<and> (m = NN_SWS_UTF8_INVALID \<or> m = NN_SWS_UTF8_FRAGMENT \<and> length r < 4)"
        by (elim exE conjE) (rule that; assumption)
      have "utf8_scan bs = Some (r, m)" using utf8_scan_step [OF cp(1), of "drop (nat n) bs"] bs *(1) by simp
      then show ?thesis using * bs utf8_text_append [OF utf8_text_encode [OF cp(1)] *(3)]
        by (intro exI [of _ "utf8_encode cp @ t"] exI [of _ r] exI [of _ m]) simp
    qed
  qed
qed

lemma utf8_scan_accepts: "utf8_scan bs = Some ([], n) \<longleftrightarrow> utf8_text bs \<and> n = 0"
proof
  assume "utf8_scan bs = Some ([], n)"
  then show "utf8_text bs \<and> n = 0" using utf8_scan_stops [of bs] by auto
next
  assume "utf8_text bs \<and> n = 0"
  then show "utf8_scan bs = Some ([], n)" using utf8_scan_text [of bs "[]"] by (simp add: utf8_scan.simps)
qed

text \<open>
  C6: The check of UTF-8 agrees with RFC 3629.  A buffer begins with a code point of \<open>n\<close> bytes
  exactly if these bytes are the encoding of a Unicode scalar value; what is called invalid
  cannot become valid by bytes that follow; the beginning of an encoding is recognised as a
  fragment; and the loop over a text accepts exactly the concatenations of encodings.
\<close>

theorem nn_utf8_rfc3629:
  "(0 < n \<and> nn_utf8_code_point bs = Some n \<longleftrightarrow>
     (\<exists>cp. unicode_scalar cp \<and> prefix (utf8_encode cp) bs \<and> n = int (length (utf8_encode cp)))) \<and>
   (nn_utf8_code_point bs = Some NN_SWS_UTF8_INVALID \<and> unicode_scalar cp \<longrightarrow> \<not> prefix (utf8_encode cp) (bs @ r)) \<and>
   (unicode_scalar cp \<and> strict_prefix bs (utf8_encode cp) \<longrightarrow> nn_utf8_code_point bs = Some NN_SWS_UTF8_FRAGMENT) \<and>
   (utf8_scan bs = Some ([], 0) \<longleftrightarrow> utf8_text bs)"
proof (intro conjI impI)
  show "0 < n \<and> nn_utf8_code_point bs = Some n \<longleftrightarrow>
     (\<exists>cp. unicode_scalar cp \<and> prefix (utf8_encode cp) bs \<and> n = int (length (utf8_encode cp)))"
  proof
    assume "0 < n \<and> nn_utf8_code_point bs = Some n"
    then show "\<exists>cp. unicode_scalar cp \<and> prefix (utf8_encode cp) bs \<and> n = int (length (utf8_encode cp))"
      using code_point_decode [of bs n] by (metis int_nat_eq length_take min.absorb2 order_less_imp_le take_is_prefix)
  next
    assume "\<exists>cp. unicode_scalar cp \<and> prefix (utf8_encode cp) bs \<and> n = int (length (utf8_encode cp))"
    then show "0 < n \<and> nn_utf8_code_point bs = Some n"
      using code_point_encode utf8_encode_length(1) by (auto simp: prefix_def)
  qed
qed (use code_point_invalid code_point_prefix utf8_scan_accepts in auto)

theorem nn_utf8_rfc3629_witness:
  "nn_utf8_code_point [0xE2, 0x82] = Some NN_SWS_UTF8_FRAGMENT \<and> utf8_scan [0xE2, 0x82, 0xAC, 0x41] = Some ([], 0)"
proof
  have "unicode_scalar 0x20AC \<and> strict_prefix [0xE2, 0x82] (utf8_encode 0x20AC)"
    by (simp add: unicode_scalar_def utf8_encode_def)
  then show "nn_utf8_code_point [0xE2, 0x82] = Some NN_SWS_UTF8_FRAGMENT" using nn_utf8_rfc3629 [where bs = "[0xE2, 0x82]" and cp = "0x20AC"] by blast
  have "utf8_text [0xE2, 0x82, 0xAC, 0x41]"
    unfolding utf8_text_def by (intro exI [of _ "[0x20AC, 0x41]"]) (simp add: unicode_scalar_def utf8_encode_def)
  then show "utf8_scan [0xE2, 0x82, 0xAC, 0x41] = Some ([], 0)" using nn_utf8_rfc3629 [where bs = "[0xE2, 0x82, 0xAC, 0x41]"] by blast
qed

end
