(* ===== verification/Nn_Sws.thy ===== *)
theory Nn_Sws
  imports Nn_Streamhdr Nn_Protocols Nn_Utf8
begin

text \<open>
  \<^verbatim>\<open>transports/ws/sws.c\<close>: one WebSocket connection, from the moment it is established.  Every
  message travels in frames as RFC 6455 defines them, those of a client masked; messages in
  several frames are put together, with control frames allowed between them, and text is
  checked to be UTF-8.  Also the parts of the library it uses that nothing else does: the
  pseudo-random numbers of \<^verbatim>\<open>utils/random.c\<close> and the ancillary data of \<^verbatim>\<open>nn.h\<close>, laid out in
  memory as on a 64 bit machine with the low byte first.
\<close>

section \<open>Pseudo-random numbers\<close>

definition le_bytes :: "u64 \<Rightarrow> bytes" where
  "le_bytes v = map (\<lambda>k. ucast (drop_bit k v)) [0, 8, 16, 24, 32, 40, 48, 56]"

fun nn_random_generate :: "u64 \<Rightarrow> nat \<Rightarrow> bytes \<times> u64" where
  "nn_random_generate st len = (let st = st * 1103515245 + 12345 in
     if len \<le> 8 then (take len (le_bytes st), st)
     else (case nn_random_generate st (len - 8) of (bs, st') \<Rightarrow> (le_bytes st @ bs, st')))"

declare nn_random_generate.simps [simp del]

section \<open>Ancillary data\<close>

definition le_word :: "bytes \<Rightarrow> u64" where
  "le_word bs = foldr (\<lambda>b acc. push_bit 8 acc OR ucast b) bs 0"

definition NN_WS :: u32 where
  "NN_WS = - 4"

definition NN_WS_MSG_TYPE :: u32 where
  "NN_WS_MSG_TYPE = 1"

definition cmsg_align :: "u64 \<Rightarrow> u64" where
  "cmsg_align len = (len + 8 - 1) AND NOT 7"

definition NN_CMSG_SPACE :: "u64 \<Rightarrow> u64" where
  "NN_CMSG_SPACE len = cmsg_align len + cmsg_align 16"

text \<open>The fields of the \<^verbatim>\<open>nn_cmsghdr\<close> at an offset: eight bytes of length, four of level, four of type.  A read
  outside the data is an abort.\<close>

definition cmsg_field :: "bytes \<Rightarrow> u64 \<Rightarrow> nat \<Rightarrow> nat \<Rightarrow> u64 option" where
  "cmsg_field data off d n = do {
     nn_assert (unat off + d + n \<le> length data);
     Some (le_word (take n (drop (unat off + d) data))) }"

definition nn_cmsg_nxthdr :: "bytes \<Rightarrow> u64 option \<Rightarrow> u64 option option" where
  "nn_cmsg_nxthdr data cmsg = (let sz = of_nat (length data) in
     if sz < NN_CMSG_SPACE 0 then Some None
     else do {
       headsz \<leftarrow> (case cmsg of None \<Rightarrow> Some 0 | Some c \<Rightarrow> do { len \<leftarrow> cmsg_field data c 0 8; Some (c + cmsg_align len) });
       if headsz + NN_CMSG_SPACE 0 > sz then Some None
       else do {
         len \<leftarrow> cmsg_field data headsz 0 8;
         if headsz + cmsg_align len > sz then Some None else Some (Some headsz) } })"

text \<open>The search for the message type in the ancillary data of a message that is sent.\<close>

partial_function (option) cmsg_find :: "bytes \<Rightarrow> u64 option \<Rightarrow> u64 option option" where
  "cmsg_find data cmsg = do {
     nxt \<leftarrow> nn_cmsg_nxthdr data cmsg;
     case nxt of None \<Rightarrow> Some None
     | Some c \<Rightarrow> do {
         level \<leftarrow> cmsg_field data c 8 4;
         type \<leftarrow> cmsg_field data c 12 4;
         if level = ucast NN_WS \<and> type = ucast NN_WS_MSG_TYPE then Some (Some c) else cmsg_find data (Some c) } }"

declare cmsg_find.simps [code]

text \<open>The ancillary data of a message that is received; the padding is not written by the code.\<close>

definition ws_cmsg :: "u8 \<Rightarrow> bytes" where
  "ws_cmsg opcode_hdr = le_bytes (NN_CMSG_SPACE 1) @ take 4 (le_bytes (ucast NN_WS)) @ take 4 (le_bytes (ucast NN_WS_MSG_TYPE)) @
     opcode_hdr # replicate 7 0"

section \<open>Constants and state\<close>

datatype ws_mode = NN_WS_CLIENT | NN_WS_SERVER

datatype sws_state = SWS_IDLE | SWS_HANDSHAKE | SWS_STOPPING_HANDSHAKE | SWS_ACTIVE | SWS_CLOSING_CONNECTION
  | SWS_BROKEN_CONNECTION | SWS_DONE | SWS_STOPPING

text \<open>The value -1 before the connection is active is \<open>SWS_IN_NONE\<close> and \<open>SWS_OUT_NONE\<close>.\<close>

datatype sws_instate = SWS_IN_NONE | SWS_RECV_HDR | SWS_RECV_HDREXT | SWS_RECV_PAYLOAD | SWS_RECVD_CHUNKED | SWS_RECVD_CONTROL | SWS_CLOSED

datatype sws_outstate = SWS_OUT_NONE | SWS_OUT_IDLE | SWS_OUT_SENDING

datatype sws_event = NN_SWS_RETURN_ERROR | NN_SWS_RETURN_CLOSE_HANDSHAKE | NN_SWS_RETURN_STOPPED

datatype ws_handshake_event = NN_WS_HANDSHAKE_OK | NN_WS_HANDSHAKE_ERROR | NN_WS_HANDSHAKE_STOPPED

datatype sws_input = SWS_FSM_START | SWS_FSM_STOP | SWS_SRC_USOCK usock_event | SWS_SRC_HANDSHAKE ws_handshake_event

definition NN_WS_OPCODE_FRAGMENT :: u8 where
  "NN_WS_OPCODE_FRAGMENT = 0"

definition NN_WS_OPCODE_TEXT :: u8 where
  "NN_WS_OPCODE_TEXT = 1"

definition NN_WS_OPCODE_BINARY :: u8 where
  "NN_WS_OPCODE_BINARY = 2"

definition NN_WS_OPCODE_CLOSE :: u8 where
  "NN_WS_OPCODE_CLOSE = 8"

definition NN_WS_OPCODE_PING :: u8 where
  "NN_WS_OPCODE_PING = 9"

definition NN_WS_OPCODE_PONG :: u8 where
  "NN_WS_OPCODE_PONG = 10"

definition FRAME_BITMASK_FIN :: u8 where
  "FRAME_BITMASK_FIN = 0x80"

definition FRAME_BITMASK_MASKED :: u8 where
  "FRAME_BITMASK_MASKED = 0x80"

text \<open>Where the chunk that is being received goes: the pointer \<^verbatim>\<open>inmsg_current_chunk_buf\<close>.\<close>

datatype chunk_buf = BUF_NULL | BUF_CONTROL | BUF_CHUNK

text \<open>The child that does the opening handshake, with its events that wait in the context.\<close>

record nn_ws_handshake =
  hs_fsm :: fsm_state
  hs_raised :: "ws_handshake_event list"

record nn_sws =
  sw_fsm :: fsm_state
  sw_state :: sws_state
  msg_type :: u8
  mode :: ws_mode
  sw_usock :: "usock option"
  handshaker :: nn_ws_handshake
  sw_instate :: sws_instate
  inhdr :: bytes
  opcode :: u8
  payload_ctl :: u8
  masked :: u8
  mask_off :: "nat option"
  ext_hdr_len :: nat
  is_final_frame :: bool
  is_control_frame :: bool
  continuing :: bool
  utf8_code_pt_fragment :: bytes
  utf8_code_pt_fragment_len :: nat
  pings_received :: nat
  pongs_received :: nat
  inmsg_array :: "bytes list"
  inmsg_current_chunk_buf :: chunk_buf
  inmsg_current_chunk_len :: u64
  inmsg_total_size :: u64
  inmsg_chunks :: nat
  inmsg_hdr :: u8
  inmsg_control :: bytes
  fail_msg :: bytes
  fail_msg_len :: nat
  sw_outstate :: sws_outstate
  outhdr :: bytes
  outmsg :: sp_msg

text \<open>\<open>ws_owner\<close>: the events raised to the owners of the connections; \<open>ws_random\<close>: the state of
  the generator of random numbers.\<close>

record ws_net =
  wconns :: "pid \<Rightarrow> nn_sws"
  ws_owner :: "(pid \<times> sws_event) list"
  ws_random :: u64

type_synonym wworld = "ws_net world"

definition wconn :: "wworld \<Rightarrow> pid \<Rightarrow> nn_sws" where
  "wconn w p = wconns (tstate w) p"

definition set_wconn :: "pid \<Rightarrow> nn_sws \<Rightarrow> wworld \<Rightarrow> wworld" where
  "set_wconn p c w = w\<lparr>tstate := (tstate w)\<lparr>wconns := (wconns (tstate w))(p := c)\<rparr>\<rparr>"

definition set_random :: "u64 \<Rightarrow> wworld \<Rightarrow> wworld" where
  "set_random r w = w\<lparr>tstate := (tstate w)\<lparr>ws_random := r\<rparr>\<rparr>"

definition sws_raise :: "pid \<Rightarrow> sws_event \<Rightarrow> wworld \<Rightarrow> wworld option" where
  "sws_raise p e w = do {
     nn_assert (if e = NN_SWS_RETURN_STOPPED then (p, e) \<notin> set (ws_owner (tstate w))
       else (p, NN_SWS_RETURN_ERROR) \<notin> set (ws_owner (tstate w)) \<and> (p, NN_SWS_RETURN_CLOSE_HANDSHAKE) \<notin> set (ws_owner (tstate w)));
     Some (w\<lparr>tstate := (tstate w)\<lparr>ws_owner := ws_owner (tstate w) @ [(p, e)]\<rparr>\<rparr>) }"

section \<open>Opening handshake\<close>

text \<open>Of the child only what the connection sees: it runs, it may be asked to stop, and it reports.\<close>

definition nn_ws_handshake_init :: nn_ws_handshake where
  "nn_ws_handshake_init = \<lparr>hs_fsm = FSM_IDLE, hs_raised = []\<rparr>"

definition nn_ws_handshake_isidle :: "nn_ws_handshake \<Rightarrow> bool" where
  "nn_ws_handshake_isidle self \<longleftrightarrow> hs_fsm self = FSM_IDLE \<and> NN_WS_HANDSHAKE_STOPPED \<notin> set (hs_raised self)"

definition nn_ws_handshake_start :: "nn_ws_handshake \<Rightarrow> nn_ws_handshake option" where
  "nn_ws_handshake_start self = do {
     nn_assert (nn_ws_handshake_isidle self);
     Some (self\<lparr>hs_fsm := FSM_ACTIVE\<rparr>) }"

definition nn_ws_handshake_stop :: "nn_ws_handshake \<Rightarrow> nn_ws_handshake" where
  "nn_ws_handshake_stop self = (if hs_fsm self = FSM_ACTIVE then self\<lparr>hs_fsm := FSM_STOPPING\<rparr> else self)"

section \<open>Framing\<close>

text \<open>The index of the loop is an \<^verbatim>\<open>unsigned\<close>: it never gets to a length of 4 GiB or more.\<close>

definition mask_bytes :: "bytes \<Rightarrow> nat \<Rightarrow> bytes \<Rightarrow> bytes" where
  "mask_bytes mk start payload = map (\<lambda>(i, x). x XOR mk ! (unat (of_nat (i + start) :: u32) mod length mk)) (enumerate 0 payload)"

definition nn_sws_mask_payload :: "bytes \<Rightarrow> bytes \<Rightarrow> nat \<Rightarrow> (bytes \<times> nat) option" where
  "nn_sws_mask_payload payload mk mask_start_pos =
     (if int (length payload) \<ge> 4294967296 then None
      else Some (mask_bytes mk mask_start_pos payload, unat (of_nat (length payload + mask_start_pos) :: u32) mod length mk))"

definition nn_sws_recv_hdr :: "nn_sws \<Rightarrow> nn_sws option" where
  "nn_sws_recv_hdr self = do {
     self \<leftarrow> (if \<not> continuing self then do {
         nn_assert (inmsg_array self = []);
         Some (self\<lparr>inmsg_current_chunk_buf := BUF_NULL, inmsg_chunks := 0, inmsg_current_chunk_len := 0, inmsg_total_size := 0\<rparr>) }
       else Some self);
     let self = self\<lparr>inmsg_control := replicate 125 0, inhdr := replicate 14 0, sw_instate := SWS_RECV_HDR\<rparr>;
     us \<leftarrow> sw_usock self;
     us \<leftarrow> nn_usock_recv us 2;
     Some (self\<lparr>sw_usock := Some us\<rparr>) }"

text \<open>The opcode of an outgoing message: from its ancillary data, or the option \<^verbatim>\<open>NN_WS_MSG_TYPE\<close>.\<close>

definition sws_opcode_out :: "nn_sws \<Rightarrow> sp_msg \<Rightarrow> u8 option" where
  "sws_opcode_out self msg = do {
     cmsg \<leftarrow> (if length (hdrs msg) > 0 then cmsg_find (hdrs msg) None else Some None);
     case cmsg of None \<Rightarrow> Some (msg_type self)
     | Some c \<Rightarrow> do { v \<leftarrow> cmsg_field (hdrs msg) c 16 1; Some (ucast v) } }"

text \<open>The frame header without the mask, and its length.\<close>

definition sws_frame_hdr :: "u8 \<Rightarrow> u64 \<Rightarrow> (bytes \<times> nat) option" where
  "sws_frame_hdr op nn_msg_size = (let outhdr = (replicate 14 0)[0 := op OR FRAME_BITMASK_FIN] in
     if nn_msg_size \<le> 125 then Some (outhdr[1 := outhdr ! 1 OR ucast nn_msg_size], 2)
     else if nn_msg_size \<le> 65535 then do {
       t \<leftarrow> nn_puts (drop 2 outhdr) (ucast nn_msg_size);
       Some ((take 2 outhdr @ t)[1 := outhdr ! 1 OR 0x7E], 4) }
     else do {
       t \<leftarrow> nn_putll (drop 2 outhdr) nn_msg_size;
       Some ((take 2 outhdr @ t)[1 := outhdr ! 1 OR 0x7F], 10) })"

definition nn_sws_send :: "wworld \<Rightarrow> pid \<Rightarrow> sp_msg \<Rightarrow> (u32 rc \<times> wworld) option" where
  "nn_sws_send w p msg = do {
     let self = wconn w p;
     nn_assert (sw_state self = SWS_ACTIVE);
     nn_assert (sw_outstate self = SWS_OUT_IDLE);
     op \<leftarrow> sws_opcode_out self msg;
     (hdr, hdr_len) \<leftarrow> sws_frame_hdr op (of_nat (length (sphdr msg)) + of_nat (length (body msg)));
     (hdr, hdr_len, msg, w) \<leftarrow> (case mode self of
         NN_WS_CLIENT \<Rightarrow> (case nn_random_generate (ws_random (tstate w)) 4 of (rand_mask, r) \<Rightarrow> do {
           (h, pos) \<leftarrow> nn_sws_mask_payload (sphdr msg) rand_mask 0;
           (b, pos) \<leftarrow> nn_sws_mask_payload (body msg) rand_mask pos;
           let hdr = hdr[1 := hdr ! 1 OR FRAME_BITMASK_MASKED];
           Some (take hdr_len hdr @ rand_mask @ drop (hdr_len + 4) hdr, hdr_len + 4, msg\<lparr>sphdr := h, body := b\<rparr>, set_random r w) })
       | NN_WS_SERVER \<Rightarrow> Some (hdr, hdr_len, msg, w));
     us \<leftarrow> sw_usock self;
     us \<leftarrow> nn_usock_send us [take hdr_len hdr, sphdr msg, body msg];
     Some (Inr 0, set_wconn p (self\<lparr>outmsg := msg, outhdr := hdr, sw_usock := Some us, sw_outstate := SWS_OUT_SENDING\<rparr>) w) }"

text \<open>The chunks of a message are copied to a buffer of the size that was added up.\<close>

definition nn_sws_recv :: "wworld \<Rightarrow> pid \<Rightarrow> ((u32 \<times> sp_msg) rc \<times> wworld) option" where
  "nn_sws_recv w p = do {
     let self = wconn w p;
     nn_assert (sw_state self = SWS_ACTIVE);
     case sw_instate self of
       SWS_RECVD_CHUNKED \<Rightarrow> do {
         let opcode_hdr = inmsg_hdr self;
         nn_assert (is_final_frame self);
         nn_assert (opcode_hdr AND FRAME_BITMASK_FIN \<noteq> 0);
         let opcode_hdr = opcode_hdr AND NOT FRAME_BITMASK_FIN;
         let op = opcode_hdr AND 0x0F;
         nn_assert (op = NN_WS_OPCODE_BINARY \<or> op = NN_WS_OPCODE_TEXT);
         let b = concat (inmsg_array self);
         nn_assert (length b = unat (inmsg_total_size self));
         self \<leftarrow> nn_sws_recv_hdr (self\<lparr>inmsg_array := [], continuing := False\<rparr>);
         Some (Inr (0, \<lparr>sphdr = [], hdrs = ws_cmsg opcode_hdr, body = b\<rparr>), set_wconn p self w) }
     | SWS_RECVD_CONTROL \<Rightarrow> do {
         let opcode_hdr = inhdr self ! 0;
         nn_assert (is_final_frame self);
         nn_assert (opcode_hdr AND FRAME_BITMASK_FIN \<noteq> 0);
         let opcode_hdr = opcode_hdr AND NOT FRAME_BITMASK_FIN;
         let op = opcode_hdr AND 0x0F;
         nn_assert (op = NN_WS_OPCODE_PING \<or> op = NN_WS_OPCODE_PONG);
         nn_assert (unat (inmsg_current_chunk_len self) \<le> length (inmsg_control self));
         let b = take (unat (inmsg_current_chunk_len self)) (inmsg_control self);
         self \<leftarrow> nn_sws_recv_hdr self;
         Some (Inr (0, \<lparr>sphdr = [], hdrs = ws_cmsg opcode_hdr, body = b\<rparr>), set_wconn p self w) }
     | _ \<Rightarrow> None }"

definition nn_sws_pipebase_vfptr :: "ws_net pipebase_vfptr" where
  "nn_sws_pipebase_vfptr = \<lparr>vsend = nn_sws_send, vrecv = nn_sws_recv\<rparr>"

section \<open>Failing and closing\<close>

definition ascii :: "string \<Rightarrow> bytes" where
  "ascii s = map of_char s"

definition NN_SWS_CLOSE_NORMAL :: u16 where
  "NN_SWS_CLOSE_NORMAL = 1000"

definition NN_SWS_CLOSE_ERR_PROTO :: u16 where
  "NN_SWS_CLOSE_ERR_PROTO = 1002"

definition NN_SWS_CLOSE_ERR_INVALID_FRAME :: u16 where
  "NN_SWS_CLOSE_ERR_INVALID_FRAME = 1007"

definition NN_SWS_CLOSE_ERR_TOOBIG :: u16 where
  "NN_SWS_CLOSE_ERR_TOOBIG = 1009"

text \<open>The bytes of the close frame in \<^verbatim>\<open>fail_msg\<close>, and \<^verbatim>\<open>fail_msg_len\<close> as the code computes it.\<close>

definition poke :: "bytes \<Rightarrow> nat \<Rightarrow> bytes \<Rightarrow> bytes" where
  "poke buf i xs = take i buf @ xs @ drop (i + length xs) buf"

definition sws_close_frame :: "nn_sws \<Rightarrow> bytes \<Rightarrow> u16 \<Rightarrow> bytes \<Rightarrow> nn_sws option" where
  "sws_close_frame self rand_mask code reason = do {
     let payload_len = length reason + 2;
     nn_assert (payload_len \<le> 125);
     let buf = (fail_msg self)[0 := FRAME_BITMASK_FIN OR NN_WS_OPCODE_CLOSE, 1 := of_nat payload_len];
     let (buf, len) = (case mode self of NN_WS_SERVER \<Rightarrow> (buf, 2)
       | NN_WS_CLIENT \<Rightarrow> (poke (buf[1 := buf ! 1 OR FRAME_BITMASK_MASKED]) 2 rand_mask, 2 + 4));
     t \<leftarrow> nn_puts (drop len buf) code;
     let buf = take len buf @ t;
     nn_assert (len + payload_len \<le> length buf);
     let buf = poke buf (len + 2) reason;
     buf \<leftarrow> (case mode self of NN_WS_SERVER \<Rightarrow> Some buf
       | NN_WS_CLIENT \<Rightarrow> do {
           (m, _) \<leftarrow> nn_sws_mask_payload (take payload_len (drop len buf)) rand_mask 0;
           Some (poke buf len m) });
     Some (self\<lparr>fail_msg := buf, fail_msg_len := len + 2 + payload_len\<rparr>) }"

definition nn_sws_fail_conn ::
  "('s \<Rightarrow> pid \<Rightarrow> 's option) \<Rightarrow> pid \<Rightarrow> u16 \<Rightarrow> string \<Rightarrow> 's \<times> wworld \<Rightarrow> ('s \<times> wworld) option" where
  "nn_sws_fail_conn rm p code reason sw = (case sw of (s, w) \<Rightarrow> do {
     nn_assert (sw_state (wconn w p) = SWS_ACTIVE);
     let w = set_wconn p ((wconn w p)\<lparr>sw_instate := SWS_CLOSED\<rparr>) w;
     (s, w) \<leftarrow> nn_pipebase_stop rm p s w;
     let self = (wconn w p)\<lparr>inmsg_array := []\<rparr>;
     let (rand_mask, w) = (case mode self of NN_WS_SERVER \<Rightarrow> ([], w)
       | NN_WS_CLIENT \<Rightarrow> (case nn_random_generate (ws_random (tstate w)) 4 of (mk, r) \<Rightarrow> (mk, set_random r w)));
     self \<leftarrow> sws_close_frame self rand_mask code (ascii reason);
     if sw_outstate self = SWS_OUT_IDLE then do {
       us \<leftarrow> sw_usock self;
       nn_assert (fail_msg_len self \<le> length (fail_msg self));
       us \<leftarrow> nn_usock_send us [take (fail_msg_len self) (fail_msg self)];
       Some (s, set_wconn p (self\<lparr>sw_usock := Some us, sw_outstate := SWS_OUT_SENDING, sw_state := SWS_CLOSING_CONNECTION\<rparr>) w) }
     else do {
       w \<leftarrow> sws_raise p NN_SWS_RETURN_CLOSE_HANDSHAKE (set_wconn p (self\<lparr>sw_state := SWS_DONE\<rparr>) w);
       Some (s, w) } })"

text \<open>The chunk that has been received: \<^verbatim>\<open>inmsg_current_chunk_len\<close> bytes at \<^verbatim>\<open>inmsg_current_chunk_buf\<close>.\<close>

definition sws_chunk :: "nn_sws \<Rightarrow> bytes" where
  "sws_chunk self = take (unat (inmsg_current_chunk_len self))
     (case inmsg_current_chunk_buf self of BUF_NULL \<Rightarrow> [] | BUF_CONTROL \<Rightarrow> inmsg_control self | BUF_CHUNK \<Rightarrow> last (inmsg_array self))"

definition sws_recv_next :: "pid \<Rightarrow> 's \<times> wworld \<Rightarrow> ('s \<times> wworld) option" where
  "sws_recv_next p sw = do {
     self \<leftarrow> nn_sws_recv_hdr (wconn (snd sw) p);
     Some (fst sw, set_wconn p self (snd sw)) }"

definition sws_deliver :: "sws_instate \<Rightarrow> pid \<Rightarrow> 's \<times> wworld \<Rightarrow> ('s \<times> wworld) option" where
  "sws_deliver st p sw = do {
     w \<leftarrow> nn_pipebase_received p (set_wconn p ((wconn (snd sw) p)\<lparr>sw_instate := st\<rparr>) (snd sw));
     Some (fst sw, w) }"

text \<open>The part of the check that starts at a code point.\<close>

definition sws_validate_rest ::
  "('s \<Rightarrow> pid \<Rightarrow> 's option) \<Rightarrow> pid \<Rightarrow> bytes \<Rightarrow> 's \<times> wworld \<Rightarrow> ('s \<times> wworld) option" where
  "sws_validate_rest rm p bs sw = (case sw of (s, w) \<Rightarrow> do {
     let self = wconn w p;
     nn_assert (utf8_code_pt_fragment_len self < 4);
     (r, code_point_len) \<leftarrow> utf8_scan bs;
     let clear = self\<lparr>utf8_code_pt_fragment_len := 0, utf8_code_pt_fragment := replicate 4 0\<rparr>;
     if r = [] then
       (if is_final_frame self then sws_deliver SWS_RECVD_CHUNKED p (s, set_wconn p clear w)
        else sws_recv_next p (s, set_wconn p clear w))
     else if code_point_len = NN_SWS_UTF8_INVALID then
       nn_sws_fail_conn rm p NN_SWS_CLOSE_ERR_INVALID_FRAME ''Invalid UTF-8 code point in payload.'' (s, set_wconn p clear w)
     else do {
       nn_assert (length r < 4);
       let w = set_wconn p (self\<lparr>utf8_code_pt_fragment_len := length r, utf8_code_pt_fragment := poke (utf8_code_pt_fragment self) 0 r\<rparr>) w;
       if is_final_frame self
       then nn_sws_fail_conn rm p NN_SWS_CLOSE_ERR_INVALID_FRAME ''Truncated UTF-8 payload with invalid code point.'' (s, w)
       else sws_recv_next p (s, w) } })"

text \<open>The loop over a code point that the previous frame has left incomplete goes round at most once:
  each verdict on the code point leaves it.\<close>

definition nn_sws_validate_utf8_chunk ::
  "('s \<Rightarrow> pid \<Rightarrow> 's option) \<Rightarrow> pid \<Rightarrow> 's \<times> wworld \<Rightarrow> ('s \<times> wworld) option" where
  "nn_sws_validate_utf8_chunk rm p sw = (case sw of (s, w) \<Rightarrow> (let self = wconn w p; bs = sws_chunk self in
     if utf8_code_pt_fragment_len self \<noteq> 0 \<and> bs \<noteq> [] then do {
       nn_assert (utf8_code_pt_fragment_len self < 4);
       let self = self\<lparr>utf8_code_pt_fragment := (utf8_code_pt_fragment self)[utf8_code_pt_fragment_len self := hd bs],
         utf8_code_pt_fragment_len := utf8_code_pt_fragment_len self + 1\<rparr>;
       code_point_len \<leftarrow> nn_utf8_code_point (take (utf8_code_pt_fragment_len self) (utf8_code_pt_fragment self));
       if code_point_len > 0 then sws_validate_rest rm p (tl bs) (s, set_wconn p self w)
       else if code_point_len = NN_SWS_UTF8_INVALID then
         nn_sws_fail_conn rm p NN_SWS_CLOSE_ERR_INVALID_FRAME ''Invalid UTF-8 code point split on previous frame.'' (s, set_wconn p self w)
       else if is_final_frame self then
         nn_sws_fail_conn rm p NN_SWS_CLOSE_ERR_INVALID_FRAME ''Truncated UTF-8 payload with invalid code point.'' (s, set_wconn p self w)
       else sws_recv_next p (s, set_wconn p self w) }
     else sws_validate_rest rm p bs (s, w)))"

definition close_code_known :: "u16 \<Rightarrow> bool" where
  "close_code_known code \<longleftrightarrow> code \<in> {1000, 1001, 1002, 1003, 1007, 1008, 1009, 1010, 1011} \<or>
     3000 \<le> code \<and> code \<le> 3999 \<or> 4000 \<le> code \<and> code \<le> 4999"

definition nn_sws_acknowledge_close_handshake ::
  "('s \<Rightarrow> pid \<Rightarrow> 's option) \<Rightarrow> pid \<Rightarrow> 's \<times> wworld \<Rightarrow> ('s \<times> wworld) option" where
  "nn_sws_acknowledge_close_handshake rm p sw = (let self = wconn (snd sw) p; bs = sws_chunk self in
     if inmsg_current_chunk_len self = 0 then nn_sws_fail_conn rm p NN_SWS_CLOSE_NORMAL [] sw
     else do {
       nn_assert (inmsg_current_chunk_len self \<ge> 2);
       (r, n) \<leftarrow> utf8_scan (drop 2 bs);
       if r \<noteq> [] then nn_sws_fail_conn rm p NN_SWS_CLOSE_ERR_PROTO ''Invalid UTF-8 sent as Close Reason.'' sw
       else do {
         close_code \<leftarrow> nn_gets bs;
         if close_code_known close_code then nn_sws_fail_conn rm p close_code [] sw
         else nn_sws_fail_conn rm p NN_SWS_CLOSE_ERR_PROTO ''Unrecognized close code.'' sw } })"

section \<open>Receiving frames\<close>

text \<open>What the first two bytes of a frame lead to: the connection fails, or the next frame is awaited, or a
  message or a control message is complete, or the closing handshake is answered, or more
  of the frame is to come.\<close>

datatype sws_verdict = SWS_FAIL u16 string | SWS_NEXT | SWS_MESSAGE | SWS_CONTROL | SWS_CLOSE | SWS_MORE

definition sws_bare :: "nn_sws \<Rightarrow> bool" where
  "sws_bare self \<longleftrightarrow> ext_hdr_len self = 0 \<and> payload_ctl self = 0"

text \<open>A frame of a message: \<open>TEXT\<close>, \<open>BINARY\<close> and \<open>FRAGMENT\<close>.\<close>

definition sws_data_frame :: "nn_sws \<Rightarrow> (nn_sws \<times> sws_verdict) option" where
  "sws_data_frame self =
     (if sws_bare self then do {
        nn_assert (mode self = NN_WS_CLIENT);
        Some (self\<lparr>inmsg_current_chunk_len := 0\<rparr>, if continuing self then SWS_NEXT else SWS_MESSAGE) }
      else Some (self, SWS_MORE))"

definition sws_control_frame :: "nn_sws \<Rightarrow> nn_sws \<times> sws_verdict" where
  "sws_control_frame self =
     (if payload_ctl self > 125 then (self, SWS_FAIL NN_SWS_CLOSE_ERR_PROTO ''Control frame payload exceeds allowable length.'')
      else if \<not> is_final_frame self then (self, SWS_FAIL NN_SWS_CLOSE_ERR_PROTO ''Cannot fragment control message (FIN=0).'')
      else if sws_bare self then (self\<lparr>inmsg_current_chunk_len := 0\<rparr>, SWS_CONTROL)
      else (self, SWS_MORE))"

definition sws_close_received :: "nn_sws \<Rightarrow> nn_sws \<times> sws_verdict" where
  "sws_close_received self =
     (if \<not> is_final_frame self then (self, SWS_FAIL NN_SWS_CLOSE_ERR_PROTO ''Cannot fragment control message (FIN=0).'')
      else if payload_ctl self > 125 then (self, SWS_FAIL NN_SWS_CLOSE_ERR_PROTO ''Control frame payload exceeds allowable length.'')
      else if payload_ctl self = 1 then (self, SWS_FAIL NN_SWS_CLOSE_ERR_PROTO ''Expected 2byte close code.'')
      else if sws_bare self then (self\<lparr>inmsg_current_chunk_len := 0\<rparr>, SWS_CLOSE)
      else (self, SWS_MORE))"

definition sws_opcode :: "nn_sws \<Rightarrow> (nn_sws \<times> sws_verdict) option" where
  "sws_opcode self =
     (if opcode self = NN_WS_OPCODE_TEXT \<or> opcode self = NN_WS_OPCODE_BINARY then
        (let self = self\<lparr>is_control_frame := False\<rparr> in
         if continuing self then Some (self, SWS_FAIL NN_SWS_CLOSE_ERR_PROTO ''Expected continuation frame opcode.'')
         else sws_data_frame (if is_final_frame self then self else self\<lparr>continuing := True\<rparr>))
      else if opcode self = NN_WS_OPCODE_FRAGMENT then
        sws_data_frame (self\<lparr>is_control_frame := False, continuing := \<not> is_final_frame self\<rparr>)
      else if opcode self = NN_WS_OPCODE_PING then
        Some (sws_control_frame (self\<lparr>is_control_frame := True, pings_received := pings_received self + 1\<rparr>))
      else if opcode self = NN_WS_OPCODE_PONG then
        Some (sws_control_frame (self\<lparr>is_control_frame := True, pongs_received := pongs_received self + 1\<rparr>))
      else if opcode self = NN_WS_OPCODE_CLOSE then
        Some (sws_close_received (self\<lparr>is_control_frame := True\<rparr>))
      else Some (self, SWS_FAIL NN_SWS_CLOSE_ERR_PROTO ''Invalid opcode.''))"

definition sws_parse_hdr :: "nn_sws \<Rightarrow> (nn_sws \<times> sws_verdict) option" where
  "sws_parse_hdr self =
     (if inhdr self ! 0 AND 0x40 \<noteq> 0 \<or> inhdr self ! 0 AND 0x20 \<noteq> 0 \<or> inhdr self ! 0 AND 0x10 \<noteq> 0
      then Some (self, SWS_FAIL NN_SWS_CLOSE_ERR_PROTO ''RSV1, RSV2, and RSV3 must be unset.'')
      else (let self = self\<lparr>is_final_frame := inhdr self ! 0 AND FRAME_BITMASK_FIN \<noteq> 0, masked := inhdr self ! 1 AND FRAME_BITMASK_MASKED\<rparr> in
        if mode self = NN_WS_SERVER \<and> masked self = 0 then Some (self, SWS_FAIL NN_SWS_CLOSE_ERR_PROTO ''Server expects MASK bit to be set.'')
        else if mode self = NN_WS_CLIENT \<and> masked self \<noteq> 0 then Some (self, SWS_FAIL NN_SWS_CLOSE_ERR_PROTO ''Client expects MASK bit to be unset.'')
        else (let self = self\<lparr>ext_hdr_len := (case mode self of NN_WS_SERVER \<Rightarrow> 4 | NN_WS_CLIENT \<Rightarrow> 0),
            opcode := inhdr self ! 0 AND 0x0F, payload_ctl := inhdr self ! 1 AND 0x7F\<rparr> in
          if \<not> continuing self \<and> opcode self = NN_WS_OPCODE_FRAGMENT
          then Some (self, SWS_FAIL NN_SWS_CLOSE_ERR_PROTO ''No message to continue.'')
          else do {
            let self = (if continuing self then self else self\<lparr>inmsg_hdr := inhdr self ! 0 OR FRAME_BITMASK_FIN\<rparr>);
            ext \<leftarrow> (if payload_ctl self \<le> 125 then Some 0 else if payload_ctl self = 0x7E then Some 2
              else if payload_ctl self = 0x7F then Some 8 else None);
            sws_opcode (self\<lparr>ext_hdr_len := ext_hdr_len self + ext\<rparr>) })))"

text \<open>A chunk is about to be received.\<close>

definition sws_start_payload ::
  "stream_env \<Rightarrow> ('s \<Rightarrow> pid \<Rightarrow> 's option) \<Rightarrow> pid \<Rightarrow> string \<Rightarrow> nn_sws \<Rightarrow> 's \<times> wworld \<Rightarrow> ('s \<times> wworld) option" where
  "sws_start_payload env rm p toobig self sw = (case sw of (s, w) \<Rightarrow>
     (let receive = (\<lambda>self. do {
        us \<leftarrow> sw_usock self;
        us \<leftarrow> nn_usock_recv us (unat (inmsg_current_chunk_len self));
        Some (s, set_wconn p (self\<lparr>sw_instate := SWS_RECV_PAYLOAD, sw_usock := Some us\<rparr>) w) }) in
      if is_control_frame self then receive (self\<lparr>inmsg_current_chunk_buf := BUF_CONTROL\<rparr>)
      else (let self = self\<lparr>inmsg_total_size := inmsg_total_size self + inmsg_current_chunk_len self\<rparr> in
        if rcvmaxsize env \<ge> 0 \<and> uint (inmsg_total_size self) > rcvmaxsize env
        then nn_sws_fail_conn rm p NN_SWS_CLOSE_ERR_TOOBIG toobig (s, set_wconn p self w)
        else do {
          nn_assert (can_alloc env (inmsg_current_chunk_len self));
          receive (self\<lparr>inmsg_chunks := inmsg_chunks self + 1, inmsg_current_chunk_buf := BUF_CHUNK,
            inmsg_array := inmsg_array self @ [replicate (unat (inmsg_current_chunk_len self)) 0]\<rparr>) })))"

definition sws_recvd_hdr ::
  "stream_env \<Rightarrow> ('s \<Rightarrow> pid \<Rightarrow> 's option) \<Rightarrow> pid \<Rightarrow> bytes \<Rightarrow> 's \<times> wworld \<Rightarrow> ('s \<times> wworld) option" where
  "sws_recvd_hdr env rm p bs sw = (case sw of (s, w) \<Rightarrow> do {
     (self, v) \<leftarrow> sws_parse_hdr ((wconn w p)\<lparr>inhdr := poke (inhdr (wconn w p)) 0 bs\<rparr>);
     let sw = (s, set_wconn p self w);
     case v of
       SWS_FAIL code reason \<Rightarrow> nn_sws_fail_conn rm p code reason sw
     | SWS_NEXT \<Rightarrow> sws_recv_next p sw
     | SWS_MESSAGE \<Rightarrow> sws_deliver SWS_RECVD_CHUNKED p sw
     | SWS_CONTROL \<Rightarrow> sws_deliver SWS_RECVD_CONTROL p sw
     | SWS_CLOSE \<Rightarrow> nn_sws_acknowledge_close_handshake rm p sw
     | SWS_MORE \<Rightarrow>
         (if ext_hdr_len self = 0 then do {
            nn_assert (mode self = NN_WS_CLIENT);
            nn_assert (0 < payload_ctl self \<and> payload_ctl self \<le> 125);
            sws_start_payload env rm p ''Message larger than application allows.'' (self\<lparr>inmsg_current_chunk_len := ucast (payload_ctl self)\<rparr>) sw }
          else do {
            us \<leftarrow> sw_usock self;
            us \<leftarrow> nn_usock_recv us (ext_hdr_len self);
            Some (s, set_wconn p (self\<lparr>sw_instate := SWS_RECV_HDREXT, sw_usock := Some us\<rparr>) w) }) })"

text \<open>The length in the rest of the header, and where the mask is.\<close>

definition sws_parse_ext :: "nn_sws \<Rightarrow> nn_sws option" where
  "sws_parse_ext self =
     (if payload_ctl self \<le> 125
      then Some (self\<lparr>inmsg_current_chunk_len := ucast (payload_ctl self), mask_off := (if masked self \<noteq> 0 then Some 2 else None)\<rparr>)
      else if payload_ctl self = 0x7E then do {
        len \<leftarrow> nn_gets (drop 2 (inhdr self));
        Some (self\<lparr>inmsg_current_chunk_len := ucast len, mask_off := (if masked self \<noteq> 0 then Some 4 else None)\<rparr>) }
      else do {
        len \<leftarrow> nn_getll (drop 2 (inhdr self));
        Some (self\<lparr>inmsg_current_chunk_len := len, mask_off := (if masked self \<noteq> 0 then Some 10 else None)\<rparr>) })"

definition sws_recvd_hdrext ::
  "stream_env \<Rightarrow> ('s \<Rightarrow> pid \<Rightarrow> 's option) \<Rightarrow> pid \<Rightarrow> bytes \<Rightarrow> 's \<times> wworld \<Rightarrow> ('s \<times> wworld) option" where
  "sws_recvd_hdrext env rm p bs sw = (case sw of (s, w) \<Rightarrow> do {
     let self = (wconn w p)\<lparr>inhdr := poke (inhdr (wconn w p)) 2 bs\<rparr>;
     nn_assert (ext_hdr_len self > 0);
     if payload_ctl self \<le> 125 \<or> payload_ctl self = 0x7E \<or> payload_ctl self = 0x7F then do {
       self \<leftarrow> sws_parse_ext self;
       let sw = (s, set_wconn p self w);
       if inmsg_current_chunk_len self = 0 then
         (if is_final_frame self then
            (if opcode self = NN_WS_OPCODE_CLOSE then nn_sws_acknowledge_close_handshake rm p sw
             else sws_deliver (if is_control_frame self then SWS_RECVD_CONTROL else SWS_RECVD_CHUNKED) p sw)
          else sws_recv_next p sw)
       else sws_start_payload env rm p ''Message size exceeds limit.'' self sw }
     else nn_sws_fail_conn rm p NN_SWS_CLOSE_ERR_PROTO ''Invalid payload length.'' (s, set_wconn p self w) })"

text \<open>The bytes of a chunk are put where it belongs, without their mask.\<close>

definition sws_store :: "nn_sws \<Rightarrow> bytes \<Rightarrow> nn_sws" where
  "sws_store self bs = (case inmsg_current_chunk_buf self of
     BUF_NULL \<Rightarrow> self
   | BUF_CONTROL \<Rightarrow> self\<lparr>inmsg_control := poke (inmsg_control self) 0 bs\<rparr>
   | BUF_CHUNK \<Rightarrow> self\<lparr>inmsg_array := butlast (inmsg_array self) @ [bs]\<rparr>)"

definition sws_unmask :: "nn_sws \<Rightarrow> bytes \<Rightarrow> bytes option" where
  "sws_unmask self bs =
     (if masked self \<noteq> 0 then do {
        off \<leftarrow> mask_off self;
        (bs, _) \<leftarrow> nn_sws_mask_payload bs (take 4 (drop off (inhdr self))) 0;
        Some bs }
      else Some bs)"

definition sws_recvd_payload ::
  "('s \<Rightarrow> pid \<Rightarrow> 's option) \<Rightarrow> pid \<Rightarrow> bytes \<Rightarrow> 's \<times> wworld \<Rightarrow> ('s \<times> wworld) option" where
  "sws_recvd_payload rm p bs sw = (case sw of (s, w) \<Rightarrow> do {
     let self = wconn w p;
     bs \<leftarrow> sws_unmask self bs;
     let self = sws_store self bs;
     let sw = (s, set_wconn p self w);
     if opcode self = NN_WS_OPCODE_TEXT \<or> opcode self = NN_WS_OPCODE_FRAGMENT \<and> inmsg_hdr self AND 0x0F = NN_WS_OPCODE_TEXT
     then nn_sws_validate_utf8_chunk rm p sw
     else if opcode self = NN_WS_OPCODE_BINARY \<or> opcode self = NN_WS_OPCODE_FRAGMENT then
       (if is_final_frame self then sws_deliver SWS_RECVD_CHUNKED p sw else sws_recv_next p sw)
     else if opcode self = NN_WS_OPCODE_PING \<or> opcode self = NN_WS_OPCODE_PONG then sws_deliver SWS_RECVD_CONTROL p sw
     else if opcode self = NN_WS_OPCODE_CLOSE then nn_sws_acknowledge_close_handshake rm p sw
     else None })"

definition sws_received ::
  "stream_env \<Rightarrow> ('s \<Rightarrow> pid \<Rightarrow> 's option) \<Rightarrow> pid \<Rightarrow> bytes \<Rightarrow> 's \<times> wworld \<Rightarrow> ('s \<times> wworld) option" where
  "sws_received env rm p bs sw = (case sw_instate (wconn (snd sw) p) of
     SWS_RECV_HDR \<Rightarrow> sws_recvd_hdr env rm p bs sw
   | SWS_RECV_HDREXT \<Rightarrow> sws_recvd_hdrext env rm p bs sw
   | SWS_RECV_PAYLOAD \<Rightarrow> sws_recvd_payload rm p bs sw
   | _ \<Rightarrow> None)"

section \<open>The state machine\<close>

definition nn_sws_init :: nn_sws where
  "nn_sws_init = \<lparr>sw_fsm = FSM_IDLE, sw_state = SWS_IDLE, msg_type = NN_WS_OPCODE_BINARY, mode = NN_WS_CLIENT, sw_usock = None,
     handshaker = nn_ws_handshake_init, sw_instate = SWS_IN_NONE, inhdr = replicate 14 0, opcode = 0, payload_ctl = 0, masked = 0,
     mask_off = None, ext_hdr_len = 0, is_final_frame = False, is_control_frame = False, continuing = False,
     utf8_code_pt_fragment = replicate 4 0, utf8_code_pt_fragment_len = 0, pings_received = 0, pongs_received = 0,
     inmsg_array = [], inmsg_current_chunk_buf = BUF_NULL, inmsg_current_chunk_len = 0, inmsg_total_size = 0, inmsg_chunks = 0,
     inmsg_hdr = 0, inmsg_control = replicate 125 0, fail_msg = replicate 125 0, fail_msg_len = 0,
     sw_outstate = SWS_OUT_NONE, outhdr = replicate 14 0, outmsg = empty_msg\<rparr>"

definition nn_sws_isidle :: "pid \<Rightarrow> wworld \<Rightarrow> bool" where
  "nn_sws_isidle p w \<longleftrightarrow> sw_fsm (wconn w p) = FSM_IDLE \<and> (p, NN_SWS_RETURN_STOPPED) \<notin> set (ws_owner (tstate w))"

definition nn_sws_term :: "pid \<Rightarrow> wworld \<Rightarrow> unit option" where
  "nn_sws_term p w = do {
     nn_assert (sw_state (wconn w p) = SWS_IDLE);
     nn_assert ((p, NN_SWS_RETURN_ERROR) \<notin> set (ws_owner (tstate w)) \<and> (p, NN_SWS_RETURN_CLOSE_HANDSHAKE) \<notin> set (ws_owner (tstate w)));
     nn_pipebase_term p w;
     nn_assert (nn_ws_handshake_isidle (handshaker (wconn w p)));
     nn_assert (nn_sws_isidle p w) }"

definition nn_sws_shutdown ::
  "('s \<Rightarrow> pid \<Rightarrow> 's option) \<Rightarrow> pid \<Rightarrow> sws_input \<Rightarrow> 's \<times> wworld \<Rightarrow> ('s \<times> wworld) option" where
  "nn_sws_shutdown rm p input sw = do {
     (s, w) \<leftarrow> (if input = SWS_FSM_STOP then do {
         (s, w) \<leftarrow> nn_pipebase_stop rm p (fst sw) (snd sw);
         let self = wconn w p;
         Some (s, set_wconn p (self\<lparr>handshaker := nn_ws_handshake_stop (handshaker self), sw_state := SWS_STOPPING\<rparr>) w) } else Some sw);
     if sw_state (wconn w p) = SWS_STOPPING then
       (if nn_ws_handshake_isidle (handshaker (wconn w p)) then do {
          let w = set_wconn p ((wconn w p)\<lparr>sw_usock := None, sw_state := SWS_IDLE\<rparr>) w;
          nn_assert (sw_fsm (wconn w p) = FSM_STOPPING);
          w \<leftarrow> sws_raise p NN_SWS_RETURN_STOPPED w;
          Some (s, set_wconn p ((wconn w p)\<lparr>sw_fsm := FSM_IDLE\<rparr>) w) }
        else Some (s, w))
     else None }"

definition nn_sws_handler ::
  "stream_env \<Rightarrow> ('s \<Rightarrow> pid \<Rightarrow> (unit rc \<times> 's) option) \<Rightarrow> ('s \<Rightarrow> pid \<Rightarrow> 's option) \<Rightarrow> pid \<Rightarrow> sws_input \<Rightarrow>
   's \<times> wworld \<Rightarrow> ('s \<times> wworld) option" where
  "nn_sws_handler env add rm p input sw = (case sw of (s, w) \<Rightarrow> (let self = wconn w p in
     (case (sw_state self, input) of
       (SWS_IDLE, SWS_FSM_START) \<Rightarrow> do {
         hs \<leftarrow> nn_ws_handshake_start (handshaker self);
         Some (s, set_wconn p (self\<lparr>handshaker := hs, sw_state := SWS_HANDSHAKE\<rparr>) w) }
     | (SWS_HANDSHAKE, SWS_SRC_HANDSHAKE NN_WS_HANDSHAKE_OK) \<Rightarrow>
         Some (s, set_wconn p (self\<lparr>handshaker := nn_ws_handshake_stop (handshaker self), sw_state := SWS_STOPPING_HANDSHAKE\<rparr>) w)
     | (SWS_HANDSHAKE, SWS_SRC_HANDSHAKE NN_WS_HANDSHAKE_ERROR) \<Rightarrow> do {
         w \<leftarrow> sws_raise p NN_SWS_RETURN_CLOSE_HANDSHAKE (set_wconn p (self\<lparr>sw_state := SWS_DONE\<rparr>) w);
         Some (s, w) }
     | (SWS_STOPPING_HANDSHAKE, SWS_SRC_HANDSHAKE NN_WS_HANDSHAKE_STOPPED) \<Rightarrow> do {
         (rc, s, w) \<leftarrow> nn_pipebase_start add p s w;
         case rc of
           Inl e \<Rightarrow> do {
             w \<leftarrow> sws_raise p NN_SWS_RETURN_ERROR (set_wconn p ((wconn w p)\<lparr>sw_state := SWS_DONE\<rparr>) w);
             Some (s, w) }
         | Inr _ \<Rightarrow> do {
             self \<leftarrow> nn_sws_recv_hdr (wconn w p);
             Some (s, set_wconn p (self\<lparr>sw_outstate := SWS_OUT_IDLE, sw_state := SWS_ACTIVE\<rparr>) w) } }
     | (SWS_ACTIVE, SWS_SRC_USOCK NN_USOCK_SENT) \<Rightarrow> do {
         nn_assert (sw_outstate self = SWS_OUT_SENDING);
         w \<leftarrow> nn_pipebase_sent p (set_wconn p (self\<lparr>sw_outstate := SWS_OUT_IDLE, outmsg := empty_msg\<rparr>) w);
         Some (s, w) }
     | (SWS_ACTIVE, SWS_SRC_USOCK (NN_USOCK_RECEIVED bs)) \<Rightarrow> sws_received env rm p bs (s, w)
     | (SWS_ACTIVE, SWS_SRC_USOCK NN_USOCK_SHUTDOWN) \<Rightarrow> do {
         (s, w) \<leftarrow> nn_pipebase_stop rm p s w;
         Some (s, set_wconn p ((wconn w p)\<lparr>sw_state := SWS_BROKEN_CONNECTION\<rparr>) w) }
     | (SWS_ACTIVE, SWS_SRC_USOCK NN_USOCK_ERROR) \<Rightarrow> do {
         (s, w) \<leftarrow> nn_pipebase_stop rm p s w;
         w \<leftarrow> sws_raise p NN_SWS_RETURN_ERROR (set_wconn p ((wconn w p)\<lparr>sw_state := SWS_DONE\<rparr>) w);
         Some (s, w) }
     | (SWS_CLOSING_CONNECTION, SWS_SRC_USOCK NN_USOCK_SENT) \<Rightarrow> do {
         nn_assert (sw_outstate self = SWS_OUT_SENDING);
         w \<leftarrow> sws_raise p NN_SWS_RETURN_CLOSE_HANDSHAKE (set_wconn p (self\<lparr>sw_outstate := SWS_OUT_IDLE, sw_state := SWS_DONE\<rparr>) w);
         Some (s, w) }
     | (SWS_CLOSING_CONNECTION, SWS_SRC_USOCK NN_USOCK_SHUTDOWN) \<Rightarrow> Some (s, w)
     | (SWS_CLOSING_CONNECTION, SWS_SRC_USOCK NN_USOCK_ERROR) \<Rightarrow> do {
         w \<leftarrow> sws_raise p NN_SWS_RETURN_ERROR (set_wconn p (self\<lparr>sw_state := SWS_DONE\<rparr>) w);
         Some (s, w) }
     | (SWS_BROKEN_CONNECTION, SWS_SRC_USOCK NN_USOCK_ERROR) \<Rightarrow> do {
         w \<leftarrow> sws_raise p NN_SWS_RETURN_ERROR (set_wconn p (self\<lparr>sw_state := SWS_DONE\<rparr>) w);
         Some (s, w) }
     | _ \<Rightarrow> None)))"

text \<open>\<^verbatim>\<open>nn_fsm_feed\<close>.\<close>

definition nn_sws_feed ::
  "stream_env \<Rightarrow> ('s \<Rightarrow> pid \<Rightarrow> (unit rc \<times> 's) option) \<Rightarrow> ('s \<Rightarrow> pid \<Rightarrow> 's option) \<Rightarrow> pid \<Rightarrow> sws_input \<Rightarrow>
   's \<times> wworld \<Rightarrow> ('s \<times> wworld) option" where
  "nn_sws_feed env add rm p input sw =
     (if sw_fsm (wconn (snd sw) p) \<noteq> FSM_STOPPING then nn_sws_handler env add rm p input sw
      else nn_sws_shutdown rm p input sw)"

definition nn_sws_start ::
  "stream_env \<Rightarrow> ('s \<Rightarrow> pid \<Rightarrow> (unit rc \<times> 's) option) \<Rightarrow> ('s \<Rightarrow> pid \<Rightarrow> 's option) \<Rightarrow> pid \<Rightarrow> usock \<Rightarrow> ws_mode \<Rightarrow> u8 \<Rightarrow>
   's \<times> wworld \<Rightarrow> ('s \<times> wworld) option" where
  "nn_sws_start env add rm p us md ty sw = (case sw of (s, w) \<Rightarrow> do {
     nn_assert (sw_usock (wconn w p) = None);
     let w = set_wconn p ((wconn w p)\<lparr>sw_usock := Some us, mode := md, msg_type := ty\<rparr>) w;
     nn_assert (nn_sws_isidle p w);
     (s, w) \<leftarrow> nn_sws_handler env add rm p SWS_FSM_START (s, w);
     Some (s, set_wconn p ((wconn w p)\<lparr>sw_fsm := FSM_ACTIVE\<rparr>) w) })"

definition nn_sws_stop ::
  "('s \<Rightarrow> pid \<Rightarrow> 's option) \<Rightarrow> pid \<Rightarrow> 's \<times> wworld \<Rightarrow> ('s \<times> wworld) option" where
  "nn_sws_stop rm p sw = (case sw of (s, w) \<Rightarrow>
     if sw_fsm (wconn w p) \<noteq> FSM_ACTIVE then Some (s, w)
     else nn_sws_shutdown rm p SWS_FSM_STOP (s, set_wconn p ((wconn w p)\<lparr>sw_fsm := FSM_STOPPING\<rparr>) w))"

text \<open>The socket completes an operation and reports it to the connection.\<close>

definition sws_usock_event ::
  "stream_env \<Rightarrow> ('s \<Rightarrow> pid \<Rightarrow> (unit rc \<times> 's) option) \<Rightarrow> ('s \<Rightarrow> pid \<Rightarrow> 's option) \<Rightarrow> pid \<Rightarrow> usock_event \<Rightarrow>
   's \<times> wworld \<Rightarrow> ('s \<times> wworld) option" where
  "sws_usock_event env add rm p e sw = (case sw of (s, w) \<Rightarrow> do {
     us \<leftarrow> sw_usock (wconn w p);
     nn_sws_feed env add rm p (SWS_SRC_USOCK e) (s, set_wconn p ((wconn w p)\<lparr>sw_usock := Some (usock_done us e)\<rparr>) w) })"

text \<open>The handshake reports that it is over, or that it has stopped.\<close>

definition sws_handshake_event ::
  "stream_env \<Rightarrow> ('s \<Rightarrow> pid \<Rightarrow> (unit rc \<times> 's) option) \<Rightarrow> ('s \<Rightarrow> pid \<Rightarrow> 's option) \<Rightarrow> pid \<Rightarrow> ws_handshake_event \<Rightarrow>
   's \<times> wworld \<Rightarrow> ('s \<times> wworld) option" where
  "sws_handshake_event env add rm p e sw = (case sw of (s, w) \<Rightarrow> (let self = wconn w p; hs = handshaker self in
     nn_sws_feed env add rm p (SWS_SRC_HANDSHAKE e)
       (s, set_wconn p (self\<lparr>handshaker := (if e = NN_WS_HANDSHAKE_STOPPED then hs\<lparr>hs_fsm := FSM_IDLE\<rparr> else hs)\<rparr>) w)))"

section \<open>Frame facts\<close>

lemma wconn_simps [simp]:
  "wconn (set_wconn p c w) q = (if q = p then c else wconn w q)" "wconn (set_random r w) q = wconn w q"
  "wconn (set_instate p i w) q = wconn w q" "wconn (set_outstate p u w) q = wconn w q" "wconn (set_pipe p b w) q = wconn w q"
  "wconn (nn_fsm_raise_pipe p ev w) q = wconn w q"
  by (simp_all add: wconn_def set_wconn_def set_random_def set_instate_def set_outstate_def set_pipe_def nn_fsm_raise_pipe_def)

lemma set_wconn_pipes [simp]:
  "pipes (set_wconn p c w) = pipes w" "pipes (set_random r w) = pipes w" "ws_owner (tstate (set_wconn p c w)) = ws_owner (tstate w)"
  "ws_owner (tstate (set_random r w)) = ws_owner (tstate w)" "ws_random (tstate (set_wconn p c w)) = ws_random (tstate w)"
  "ws_random (tstate (set_random r w)) = r"
  by (simp_all add: set_wconn_def set_random_def)

lemma set_wconn_twice [simp]: "set_wconn p c (set_wconn p d w) = set_wconn p c w"
  by (simp add: set_wconn_def)

end
