(* ===== verification/Nn_Sws_Frames.thy ===== *)
theory Nn_Sws_Frames
  imports Nn_Sws
begin

text \<open>
  What WebSocket connections do: their invariant, the contract of transports, the round trip
  from one end to the other, and what the bytes of a peer can do to a connection.
\<close>

section \<open>Runs\<close>

text \<open>A new connection whose handshake succeeds.\<close>

definition ws_open ::
  "stream_env \<Rightarrow> ('s \<Rightarrow> pid \<Rightarrow> (unit rc \<times> 's) option) \<Rightarrow> ('s \<Rightarrow> pid \<Rightarrow> 's option) \<Rightarrow> pid \<Rightarrow> ws_mode \<Rightarrow> u8 \<Rightarrow> 's \<times> wworld \<Rightarrow> ('s \<times> wworld) option" where
  "ws_open env add rm p md ty sw = do {
     sw \<leftarrow> nn_sws_start env add rm p \<lparr>us_in = None, us_out = False, us_wire = []\<rparr> md ty sw;
     sw \<leftarrow> sws_handshake_event env add rm p NN_WS_HANDSHAKE_OK sw;
     sws_handshake_event env add rm p NN_WS_HANDSHAKE_STOPPED sw }"

text \<open>Bytes arrive on a connection: the socket hands over as many as it is asked for, and the
  messages are received as they become complete.\<close>

partial_function (option) ws_pump :: "stream_env \<Rightarrow> pid \<Rightarrow> wworld \<Rightarrow> bytes \<Rightarrow> sp_msg list \<Rightarrow> (sp_msg list \<times> bytes \<times> wworld) option" where
  "ws_pump env p w bs acc =
     (if sw_state (wconn w p) \<noteq> SWS_ACTIVE then Some (acc, bs, w)
      else do {
        us \<leftarrow> sw_usock (wconn w p);
        case us_in us of
          None \<Rightarrow> do { (rc, m, w) \<leftarrow> nn_pipe_recv nn_sws_pipebase_vfptr w p; ws_pump env p w bs (acc @ [m]) }
        | Some n \<Rightarrow> if length bs < n then Some (acc, bs, w) else do {
            (u, w) \<leftarrow> sws_usock_event env no_add no_rm p (NN_USOCK_RECEIVED (take n bs)) ((), w);
            ws_pump env p w (drop n bs) acc } })"

declare ws_pump.simps [code]

definition ws_world0 :: wworld where
  "ws_world0 = \<lparr>pipes = (\<lambda>p. fresh_pipe), raised = [], tstate = \<lparr>wconns = (\<lambda>p. nn_sws_init), ws_owner = [], ws_random = 0\<rparr>\<rparr>"

definition ws_env0 :: stream_env where
  "ws_env0 = \<lparr>rcvmaxsize = 1048576, own_protocol = 16, is_peer = (\<lambda>p. p = 16), can_alloc = (\<lambda>n. n < 2 ^ 63)\<rparr>"

text \<open>A client that gets the given bytes from its server: the bodies it delivers, its state, and what it sends back.\<close>

definition ws_client_gets :: "bytes \<Rightarrow> (bytes list \<times> sws_state \<times> bytes) option" where
  "ws_client_gets bs = do {
     (u, w) \<leftarrow> ws_open ws_env0 no_add no_rm 0 NN_WS_CLIENT NN_WS_OPCODE_TEXT ((), ws_world0);
     (ms, r, w) \<leftarrow> ws_pump ws_env0 0 w bs [];
     Some (map body ms, sw_state (wconn w 0), case sw_usock (wconn w 0) of None \<Rightarrow> [] | Some us \<Rightarrow> us_wire us) }"

section \<open>Bits\<close>

lemma byte_cases_all:
  "list_all (\<lambda>n. P (of_nat n)) [0..<256] \<Longrightarrow> P b" for b :: u8
proof -
  assume "list_all (\<lambda>n. P (of_nat n)) [0..<256]"
  moreover have "unat b \<in> set [0..<256]" using unsigned_less [of b, where 'a = nat] by simp
  ultimately have "P (of_nat (unat b))" unfolding list_all_iff by blast
  then show "P b" by simp
qed

lemma ctl_bits: "ctl \<le> 0x7F \<longrightarrow> (ctl OR 0x80) AND 0x7F = ctl \<and> (ctl OR 0x80) AND 0x80 = 0x80 \<and> ctl AND 0x7F = ctl \<and> ctl AND 0x80 = 0" for ctl :: u8
  by (rule byte_cases_all [of _ ctl]) code_simp

lemma ctl_cases: "ctl \<le> 0x7F \<longrightarrow> \<not> ctl \<le> 125 \<longrightarrow> ctl = 0x7E \<or> ctl = 0x7F" for ctl :: u8
  by (rule byte_cases_all [of _ ctl]) code_simp

lemma low_bits: "x AND NOT 0x80 AND 0x0F = x AND 0x0F" for x :: u8
  by (rule byte_cases_all [of _ x]) code_simp

text \<open>The header of a message: final, and text or binary.\<close>

definition hdr_data :: "u8 \<Rightarrow> bool" where
  "hdr_data x \<longleftrightarrow> x AND FRAME_BITMASK_FIN \<noteq> 0 \<and> (x AND 0x0F = NN_WS_OPCODE_BINARY \<or> x AND 0x0F = NN_WS_OPCODE_TEXT)"

lemmas opcode_defs = NN_WS_OPCODE_FRAGMENT_def NN_WS_OPCODE_TEXT_def NN_WS_OPCODE_BINARY_def NN_WS_OPCODE_CLOSE_def NN_WS_OPCODE_PING_def
  NN_WS_OPCODE_PONG_def FRAME_BITMASK_FIN_def FRAME_BITMASK_MASKED_def

section \<open>Masks\<close>

lemma length_mask_bytes [simp]: "length (mask_bytes mk k bs) = length bs"
  by (simp add: mask_bytes_def)

lemma mask_bytes_nth: "i < length bs \<Longrightarrow> mask_bytes mk k bs ! i = bs ! i XOR mk ! (unat (of_nat (i + k) :: u32) mod length mk)"
  by (simp add: mask_bytes_def nth_enumerate_eq)

lemma mask_bytes_twice: "mask_bytes mk k (mask_bytes mk k bs) = bs"
  by (rule nth_equalityI) (simp_all add: mask_bytes_nth xor.assoc)

lemma mod4: "unat (of_nat n :: u32) mod 4 = n mod 4"
proof -
  have "(4::nat) dvd 2 ^ 32" by simp
  then show ?thesis by (simp add: unsigned_of_nat take_bit_eq_mod mod_mod_cancel del: power_numeral)
qed

lemma mask_bytes_append:
  "length mk = 4 \<Longrightarrow> mask_bytes mk k (a @ b) = mask_bytes mk k a @ mask_bytes mk (unat (of_nat (length a + k) :: u32) mod 4) b"
proof (rule nth_equalityI)
  fix i assume "length mk = 4" "i < length (mask_bytes mk k (a @ b))"
  moreover have "(i - length a + (length a + k) mod 4) mod 4 = (i + k) mod 4" if "length a \<le> i"
    by (subst mod_add_right_eq) (use that in \<open>simp add: algebra_simps\<close>)
  ultimately show "mask_bytes mk k (a @ b) ! i = (mask_bytes mk k a @ mask_bytes mk (unat (of_nat (length a + k) :: u32) mod 4) b) ! i"
    by (simp add: mask_bytes_nth nth_append mod4 del: of_nat_add of_nat_diff)
qed simp

section \<open>The frame of a message\<close>

definition ws_ctl :: "u64 \<Rightarrow> u8" where
  "ws_ctl n = (if n \<le> 125 then ucast n else if n \<le> 65535 then 0x7E else 0x7F)"

definition ws_ext :: "u64 \<Rightarrow> bytes" where
  "ws_ext n = (if n \<le> 125 then [] else if n \<le> 65535 then the (nn_puts [0, 0] (ucast n)) else be64 n)"

definition ws_payload :: "sp_msg \<Rightarrow> bytes" where
  "ws_payload m = sphdr m @ body m"

text \<open>\<open>mk\<close> is the mask of a client.\<close>

definition ws_frame :: "ws_mode \<Rightarrow> bytes \<Rightarrow> u8 \<Rightarrow> bytes \<Rightarrow> bytes" where
  "ws_frame md mk op bs = (let n = of_nat (length bs) in
     (op OR 0x80) # (case md of
         NN_WS_SERVER \<Rightarrow> ws_ctl n # ws_ext n @ bs
       | NN_WS_CLIENT \<Rightarrow> (ws_ctl n OR 0x80) # ws_ext n @ mk @ mask_bytes mk 0 bs))"

lemma ws_ctl_le: "ws_ctl n \<le> 0x7F"
  by (auto simp: ws_ctl_def word_le_nat_alt unsigned_ucast_eq intro: order_trans [OF take_bit_nat_less_eq_self])

lemma frame_hdr_bytes:
  "\<exists>hdr hl. sws_frame_hdr op n = Some (hdr, hl) \<and> length hdr = 14 \<and> hl = 2 + length (ws_ext n) \<and> hl \<le> 10 \<and> take hl hdr = [op OR 0x80, ws_ctl n] @ ws_ext n"
  by (simp add: sws_frame_hdr_def ws_ctl_def ws_ext_def nn_puts_def nn_putll_def be64_def numeral_eq_Suc opcode_defs Let_def)

lemma length_random: "length (fst (nn_random_generate st 4)) = 4"
  by (simp add: nn_random_generate.simps le_bytes_def Let_def)

section \<open>Invariant\<close>

text \<open>The frame whose header has been read.\<close>

definition sws_frame_ok :: "nn_sws \<Rightarrow> bool" where
  "sws_frame_ok c \<longleftrightarrow>
     (if is_control_frame c then is_final_frame c \<and> payload_ctl c \<le> 125 \<and> opcode c \<in> {NN_WS_OPCODE_PING, NN_WS_OPCODE_PONG, NN_WS_OPCODE_CLOSE} \<and>
        (opcode c = NN_WS_OPCODE_CLOSE \<longrightarrow> payload_ctl c \<noteq> 1) \<and> inhdr c ! 0 AND FRAME_BITMASK_FIN \<noteq> 0 \<and> inhdr c ! 0 AND 0x0F = opcode c \<and>
        (\<not> continuing c \<longrightarrow> inmsg_array c = [])
      else opcode c \<in> {NN_WS_OPCODE_TEXT, NN_WS_OPCODE_BINARY, NN_WS_OPCODE_FRAGMENT} \<and> is_final_frame c = (\<not> continuing c) \<and> hdr_data (inmsg_hdr c))"

text \<open>The inbound side, with the state \<open>i\<close> of the pipe and the number \<open>n\<close> of bytes the socket is asked for.\<close>

definition sws_in_ok :: "nn_sws \<Rightarrow> pipe_instate \<Rightarrow> nat option \<Rightarrow> bool" where
  "sws_in_ok c i n \<longleftrightarrow> (continuing c \<longrightarrow> hdr_data (inmsg_hdr c)) \<and> unat (inmsg_total_size c) = length (concat (inmsg_array c)) \<and>
     (case sw_instate c of
       SWS_RECV_HDR \<Rightarrow> i = IN_ASYNC \<and> n = Some 2 \<and> (\<not> continuing c \<longrightarrow> inmsg_array c = [])
     | SWS_RECV_HDREXT \<Rightarrow> i = IN_ASYNC \<and> n = Some (ext_hdr_len c) \<and> 0 < ext_hdr_len c \<and> sws_frame_ok c \<and> payload_ctl c \<le> 0x7F \<and>
         ext_hdr_len c = (if masked c \<noteq> 0 then 4 else 0) + (if payload_ctl c \<le> 125 then 0 else if payload_ctl c = 0x7E then 2 else 8)
     | SWS_RECV_PAYLOAD \<Rightarrow> i = IN_ASYNC \<and> n = Some (unat (inmsg_current_chunk_len c)) \<and> 0 < inmsg_current_chunk_len c \<and> sws_frame_ok c \<and>
         (masked c \<noteq> 0 \<longrightarrow> (\<exists>k \<le> 10. mask_off c = Some k)) \<and>
         (if is_control_frame c then inmsg_current_chunk_buf c = BUF_CONTROL \<and> inmsg_current_chunk_len c \<le> 125 \<and>
            (opcode c = NN_WS_OPCODE_CLOSE \<longrightarrow> 2 \<le> inmsg_current_chunk_len c)
          else inmsg_current_chunk_buf c = BUF_CHUNK \<and> inmsg_array c \<noteq> [] \<and> length (last (inmsg_array c)) = unat (inmsg_current_chunk_len c))
     | SWS_RECVD_CHUNKED \<Rightarrow> i = IN_IDLE \<and> n = None \<and> is_final_frame c \<and> hdr_data (inmsg_hdr c)
     | SWS_RECVD_CONTROL \<Rightarrow> i = IN_IDLE \<and> n = None \<and> is_final_frame c \<and> inhdr c ! 0 AND FRAME_BITMASK_FIN \<noteq> 0 \<and>
         inhdr c ! 0 AND 0x0F \<in> {NN_WS_OPCODE_PING, NN_WS_OPCODE_PONG} \<and> inmsg_current_chunk_len c \<le> 125 \<and> (\<not> continuing c \<longrightarrow> inmsg_array c = [])
     | _ \<Rightarrow> False)"

definition sws_ok :: "nn_sws \<Rightarrow> nn_pipebase \<Rightarrow> bool" where
  "sws_ok c b \<longleftrightarrow> sw_fsm c = FSM_ACTIVE \<and> sw_state c = SWS_ACTIVE \<and> length (inhdr c) = 14 \<and> length (inmsg_control c) = 125 \<and> length (fail_msg c) = 125 \<and>
     length (utf8_code_pt_fragment c) = 4 \<and> utf8_code_pt_fragment_len c < 4 \<and>
     (\<exists>us. sw_usock c = Some us \<and>
       (sw_outstate c = SWS_OUT_IDLE \<and> outstate b = OUT_IDLE \<and> \<not> us_out us \<or> sw_outstate c = SWS_OUT_SENDING \<and> outstate b = OUT_ASYNC \<and> us_out us) \<and>
       sws_in_ok c (instate b) (us_in us))"

abbreviation wconn_ok :: "wworld \<Rightarrow> pid \<Rightarrow> bool" where
  "wconn_ok w p \<equiv> sws_ok (wconn w p) (pipes w p)"

definition ws_inv :: "wworld \<Rightarrow> bool" where
  "ws_inv w \<longleftrightarrow> (\<forall>p. active_pipe w p \<longrightarrow> wconn_ok w p)"

lemma sws_okD:
  assumes "sws_ok c b"
  shows "sw_fsm c = FSM_ACTIVE" "sw_state c = SWS_ACTIVE" "length (inhdr c) = 14" "length (inmsg_control c) = 125" "length (fail_msg c) = 125"
    "length (utf8_code_pt_fragment c) = 4" "utf8_code_pt_fragment_len c < 4" "sw_usock c \<noteq> None"
    "sw_usock c = Some us \<Longrightarrow> sws_in_ok c (instate b) (us_in us)"
    "sw_usock c = Some us \<Longrightarrow> sw_outstate c = SWS_OUT_IDLE \<and> outstate b = OUT_IDLE \<and> \<not> us_out us \<or> sw_outstate c = SWS_OUT_SENDING \<and> outstate b = OUT_ASYNC \<and> us_out us"
  using assms unfolding sws_ok_def by (elim conjE exE; simp)+

section \<open>Sending\<close>

lemma mask_payload_ok:
  "int (length bs) < 4294967296 \<Longrightarrow> nn_sws_mask_payload bs mk k = Some (mask_bytes mk k bs, unat (of_nat (length bs + k) :: u32) mod length mk)"
  by (simp add: nn_sws_mask_payload_def)

lemma opcode_out_plain: "hdrs m = [] \<Longrightarrow> sws_opcode_out c m = Some (msg_type c)"
  by (simp add: sws_opcode_out_def)

lemma take_hdr_mask:
  assumes "length hdr = 14" "hl \<le> 10" "2 \<le> hl" "take hl hdr = a # b # ext" "length mk = 4"
  shows "take (hl + 4) (take hl (hdr[1 := b']) @ mk @ r) = a # b' # ext @ mk"
proof -
  have "take hl (hdr[1 := b']) = (a # b # ext)[1 := b']" using assms(3,4) by (simp add: take_update_swap)
  moreover have "length (take hl (hdr[1 := b'])) = hl" using assms(1,2) by simp
  ultimately show ?thesis using assms(5) take_append [of "hl + 4" "take hl (hdr[1 := b'])" "mk @ r"] by simp
qed

definition ws_mask :: "wworld \<Rightarrow> bytes" where
  "ws_mask w = fst (nn_random_generate (ws_random (tstate w)) 4)"

lemma sws_send_ok:
  assumes ok: "wconn_ok w p" and s: "can_send w p" and m: "hdrs m = []" "int (length (ws_payload m)) < 4294967296" and us: "sw_usock (wconn w p) = Some us"
  shows "\<exists>w' om oh. nn_sws_send (set_outstate p OUT_SENDING w) p m = Some (Inr 0, w') \<and> pipes w' = pipes (set_outstate p OUT_SENDING w) \<and>
    (\<forall>q. wconn w' q = (if q = p then (wconn w p)\<lparr>outmsg := om, outhdr := oh,
       sw_usock := Some (us\<lparr>us_out := True, us_wire := us_wire us @ ws_frame (mode (wconn w p)) (ws_mask w) (msg_type (wconn w p)) (ws_payload m)\<rparr>),
       sw_outstate := SWS_OUT_SENDING\<rparr> else wconn w q))"
proof -
  have c: "sw_state (wconn w p) = SWS_ACTIVE" "sw_outstate (wconn w p) = SWS_OUT_IDLE" "\<not> us_out us"
    using sws_okD(2) [OF ok] sws_okD(10) [OF ok us] s by simp_all
  let ?n = "of_nat (length (sphdr m)) + of_nat (length (body m)) :: u64" and ?W = "set_outstate p OUT_SENDING w"
  obtain hdr hl where h: "sws_frame_hdr (msg_type (wconn w p)) ?n = Some (hdr, hl)" "length hdr = 14" "hl = 2 + length (ws_ext ?n)" "hl \<le> 10"
    "take hl hdr = [msg_type (wconn w p) OR 0x80, ws_ctl ?n] @ ws_ext ?n"
    using frame_hdr_bytes [of "msg_type (wconn w p)" ?n] by auto
  have b: "int (length (sphdr m)) < 4294967296" "int (length (body m)) < 4294967296" using m(2) by (simp_all add: ws_payload_def)
  show ?thesis
  proof (cases "mode (wconn w p)")
    case NN_WS_SERVER
    have "nn_sws_send ?W p m = Some (Inr 0, set_wconn p ((wconn w p)\<lparr>outmsg := m, outhdr := hdr,
        sw_usock := Some (us\<lparr>us_out := True, us_wire := us_wire us @ take hl hdr @ sphdr m @ body m\<rparr>), sw_outstate := SWS_OUT_SENDING\<rparr>) ?W)"
      using c h(1) us m(1) NN_WS_SERVER by (simp add: nn_sws_send_def opcode_out_plain nn_usock_send_def)
    moreover have "take hl hdr @ sphdr m @ body m = ws_frame NN_WS_SERVER (ws_mask w) (msg_type (wconn w p)) (ws_payload m)"
      using h(5) by (simp add: ws_frame_def ws_payload_def Let_def)
    ultimately show ?thesis unfolding NN_WS_SERVER by (intro exI conjI) (simp only:, simp_all)
  next
    case NN_WS_CLIENT
    obtain mk r where mk: "nn_random_generate (ws_random (tstate w)) 4 = (mk, r)" by (cases "nn_random_generate (ws_random (tstate w)) 4")
    have l: "length mk = 4" "ws_mask w = mk" using length_random [of "ws_random (tstate w)"] mk by (auto simp: ws_mask_def)
    have "hdr ! 1 = take hl hdr ! 1" using h(3) by simp
    then have h1: "hdr ! 1 = ws_ctl ?n" using h(5) by simp
    have t: "take (hl + 4) (take hl (hdr[1 := b']) @ mk @ drop (hl + 4) (hdr[1 := b'])) = (msg_type (wconn w p) OR 0x80) # b' # ws_ext ?n @ mk" for b'
      by (rule take_hdr_mask [OF h(2,4)]) (use h(3,5) l in auto)
    let ?h = "mask_bytes mk 0 (sphdr m)" and ?b = "mask_bytes mk (unat (of_nat (length (sphdr m)) :: u32) mod 4) (body m)"
    let ?hdr = "take hl (hdr[1 := ws_ctl ?n OR 0x80]) @ mk @ drop (hl + 4) (hdr[1 := ws_ctl ?n OR 0x80])"
    have "nn_sws_send ?W p m = Some (Inr 0, set_wconn p ((wconn w p)\<lparr>outmsg := m\<lparr>sphdr := ?h, body := ?b\<rparr>, outhdr := ?hdr,
        sw_usock := Some (us\<lparr>us_out := True, us_wire := us_wire us @ take (hl + 4) ?hdr @ ?h @ ?b\<rparr>), sw_outstate := SWS_OUT_SENDING\<rparr>) (set_random r ?W))"
      using c h(1) us m(1) NN_WS_CLIENT mk l h1
      by (simp add: nn_sws_send_def opcode_out_plain nn_usock_send_def mask_payload_ok [OF b(1)] mask_payload_ok [OF b(2)] FRAME_BITMASK_MASKED_def Let_def del: take_append drop_append)
    moreover have "take (hl + 4) ?hdr @ ?h @ ?b = ws_frame NN_WS_CLIENT (ws_mask w) (msg_type (wconn w p)) (ws_payload m)"
      unfolding t using l mask_bytes_append [of mk 0 "sphdr m" "body m"] by (simp add: ws_frame_def ws_payload_def Let_def)
    ultimately show ?thesis unfolding NN_WS_CLIENT by (intro exI conjI) (simp only:, simp_all)
  qed
qed

section \<open>Receiving one frame\<close>

text \<open>The stages of a connection that receives a message in one frame: between messages, after the
  first bytes of the header, after the header, and with the message complete.\<close>

definition rx_base :: "ws_mode \<Rightarrow> nat option \<Rightarrow> nn_sws \<Rightarrow> nn_pipebase \<Rightarrow> bool" where
  "rx_base md n c b \<longleftrightarrow> sw_fsm c = FSM_ACTIVE \<and> sw_state c = SWS_ACTIVE \<and> length (inhdr c) = 14 \<and> length (inmsg_control c) = 125 \<and> length (fail_msg c) = 125 \<and>
     length (utf8_code_pt_fragment c) = 4 \<and> utf8_code_pt_fragment_len c = 0 \<and> mode c = md \<and> \<not> continuing c \<and> pstate b = PIPE_ACTIVE \<and>
     (\<exists>us. sw_usock c = Some us \<and> us_in us = n \<and>
       (sw_outstate c = SWS_OUT_IDLE \<and> outstate b = OUT_IDLE \<and> \<not> us_out us \<or> sw_outstate c = SWS_OUT_SENDING \<and> outstate b = OUT_ASYNC \<and> us_out us))"

definition rx_idle :: "ws_mode \<Rightarrow> nn_sws \<Rightarrow> nn_pipebase \<Rightarrow> bool" where
  "rx_idle md c b \<longleftrightarrow> rx_base md (Some 2) c b \<and> sw_instate c = SWS_RECV_HDR \<and> instate b = IN_ASYNC \<and> inmsg_array c = [] \<and> inmsg_total_size c = 0"

text \<open>The mask bit, and the length of the rest of a header.\<close>

definition rx_bit :: "ws_mode \<Rightarrow> u8" where
  "rx_bit md = (case md of NN_WS_SERVER \<Rightarrow> 0x80 | NN_WS_CLIENT \<Rightarrow> 0)"

definition rx_rest :: "ws_mode \<Rightarrow> u8 \<Rightarrow> nat" where
  "rx_rest md ctl = (case md of NN_WS_SERVER \<Rightarrow> 4 | NN_WS_CLIENT \<Rightarrow> 0) + (if ctl \<le> 125 then 0 else if ctl = 0x7E then 2 else 8)"

definition rx_frame :: "ws_mode \<Rightarrow> u8 \<Rightarrow> u8 \<Rightarrow> nn_sws \<Rightarrow> bool" where
  "rx_frame md op ctl c \<longleftrightarrow> is_final_frame c \<and> \<not> is_control_frame c \<and> opcode c = op \<and> payload_ctl c = ctl \<and> masked c = rx_bit md \<and>
     ext_hdr_len c = rx_rest md ctl \<and> inmsg_hdr c = op OR 0x80"

definition rx_hdrext :: "ws_mode \<Rightarrow> u8 \<Rightarrow> u8 \<Rightarrow> nn_sws \<Rightarrow> nn_pipebase \<Rightarrow> bool" where
  "rx_hdrext md op ctl c b \<longleftrightarrow> rx_base md (Some (rx_rest md ctl)) c b \<and> sw_instate c = SWS_RECV_HDREXT \<and> instate b = IN_ASYNC \<and>
     inmsg_array c = [] \<and> inmsg_total_size c = 0 \<and> rx_frame md op ctl c"

definition rx_payload :: "ws_mode \<Rightarrow> u8 \<Rightarrow> u8 \<Rightarrow> u64 \<Rightarrow> bytes \<Rightarrow> nn_sws \<Rightarrow> nn_pipebase \<Rightarrow> bool" where
  "rx_payload md op ctl n mk c b \<longleftrightarrow> rx_base md (Some (unat n)) c b \<and> sw_instate c = SWS_RECV_PAYLOAD \<and> instate b = IN_ASYNC \<and>
     inmsg_array c = [replicate (unat n) 0] \<and> inmsg_total_size c = n \<and> inmsg_current_chunk_len c = n \<and> inmsg_current_chunk_buf c = BUF_CHUNK \<and>
     rx_frame md op ctl c \<and> (md = NN_WS_SERVER \<longrightarrow> (\<exists>k. mask_off c = Some k \<and> take 4 (drop k (inhdr c)) = mk))"

definition rx_message :: "ws_mode \<Rightarrow> u8 \<Rightarrow> bytes \<Rightarrow> nn_sws \<Rightarrow> nn_pipebase \<Rightarrow> bool" where
  "rx_message md op bs c b \<longleftrightarrow> rx_base md None c b \<and> sw_instate c = SWS_RECVD_CHUNKED \<and> instate b = IN_IDLE \<and>
     concat (inmsg_array c) = bs \<and> unat (inmsg_total_size c) = length bs \<and> is_final_frame c \<and> inmsg_hdr c = op OR 0x80"

abbreviation "data_opcode op \<equiv> op = NN_WS_OPCODE_TEXT \<or> op = NN_WS_OPCODE_BINARY"

lemma sws_event_received:
  assumes "sw_fsm (wconn w p) = FSM_ACTIVE" "sw_state (wconn w p) = SWS_ACTIVE" "sw_usock (wconn w p) = Some us"
  shows "sws_usock_event env add rm p (NN_USOCK_RECEIVED bs) (s, w) =
    sws_received env rm p bs (s, set_wconn p ((wconn w p)\<lparr>sw_usock := Some (us\<lparr>us_in := None\<rparr>)\<rparr>) w)"
  using assms by (simp add: sws_usock_event_def nn_sws_feed_def nn_sws_handler_def usock_done_def Let_def)

lemma poke_hdr2: "length h = 14 \<Longrightarrow> poke h 0 [x, y] ! 0 = x \<and> poke h 0 [x, y] ! Suc 0 = y \<and> length (poke h 0 [x, y]) = 14"
  by (simp add: poke_def)

lemma op_bits:
  assumes "data_opcode op"
  shows "(op OR 0x80) AND 0x40 = 0" "(op OR 0x80) AND 0x20 = 0" "(op OR 0x80) AND 0x10 = 0" "(op OR 0x80) AND 0x80 \<noteq> 0" "(op OR 0x80) AND 0x0F = op" "op OR 0x80 OR 0x80 = op OR 0x80"
  using assms by (auto simp: opcode_defs)

lemma parse_data:
  assumes c: "length (inhdr c) = 14" "\<not> continuing c" and op: "data_opcode op" and ctl: "ctl \<le> 0x7F"
  shows "sws_parse_hdr (c\<lparr>inhdr := poke (inhdr c) 0 [op OR 0x80, ctl OR rx_bit (mode c)]\<rparr>) =
    (let c' = c\<lparr>inhdr := poke (inhdr c) 0 [op OR 0x80, ctl OR rx_bit (mode c)], is_final_frame := True, masked := rx_bit (mode c), ext_hdr_len := rx_rest (mode c) ctl,
       opcode := op, payload_ctl := ctl, inmsg_hdr := op OR 0x80, is_control_frame := False\<rparr> in
     if rx_rest (mode c) ctl = 0 \<and> ctl = 0 then Some (c'\<lparr>inmsg_current_chunk_len := 0\<rparr>, SWS_MESSAGE) else Some (c', SWS_MORE))"
proof -
  have b: "(ctl OR rx_bit (mode c)) AND 0x7F = ctl" "(ctl OR rx_bit (mode c)) AND 0x80 = rx_bit (mode c)"
    using ctl_bits [of ctl] ctl by (auto simp: rx_bit_def split: ws_mode.split)
  have op0: "op \<noteq> NN_WS_OPCODE_FRAGMENT" using op by (auto simp: opcode_defs)
  have d: "ctl \<le> 125 \<or> ctl = 0x7E \<or> ctl = 0x7F" using ctl ctl_cases [of ctl] by auto
  show ?thesis
    using c b op op_bits [OF op] poke_hdr2 [OF c(1)] op0 d
    by (cases "mode c") (auto simp: sws_parse_hdr_def rx_bit_def rx_rest_def sws_opcode_def sws_data_frame_def sws_bare_def FRAME_BITMASK_FIN_def
        FRAME_BITMASK_MASKED_def Let_def)
qed

definition ws_room :: "stream_env \<Rightarrow> u64 \<Rightarrow> bool" where
  "ws_room env n \<longleftrightarrow> (rcvmaxsize env < 0 \<or> uint n \<le> rcvmaxsize env) \<and> can_alloc env n"

lemma rx_first_bytes:
  fixes env add rm s
  assumes rx: "rx_idle md (wconn v q) (pipes v q)" and op: "data_opcode op" and ctl: "ctl \<le> 0x7F"
  defines "ev \<equiv> sws_usock_event env add rm q (NN_USOCK_RECEIVED [op OR 0x80, ctl OR rx_bit md]) (s, v)"
  shows "rx_rest md ctl = 0 \<Longrightarrow> ctl = 0 \<Longrightarrow> \<exists>v'. ev = Some (s, v') \<and> rx_message md op [] (wconn v' q) (pipes v' q)"
    "rx_rest md ctl \<noteq> 0 \<Longrightarrow> \<exists>v'. ev = Some (s, v') \<and> rx_hdrext md op ctl (wconn v' q) (pipes v' q)"
    "rx_rest md ctl = 0 \<Longrightarrow> ctl \<noteq> 0 \<Longrightarrow> ws_room env (ucast ctl) \<Longrightarrow> \<exists>v'. ev = Some (s, v') \<and> rx_payload md op ctl (ucast ctl) [] (wconn v' q) (pipes v' q)"
proof -
  obtain us where us: "sw_usock (wconn v q) = Some us" "us_in us = Some 2" using rx by (auto simp: rx_idle_def rx_base_def)
  let ?c = "(wconn v q)\<lparr>sw_usock := Some (us\<lparr>us_in := None\<rparr>)\<rparr>"
  have c: "sw_fsm (wconn v q) = FSM_ACTIVE" "sw_state (wconn v q) = SWS_ACTIVE" "length (inhdr ?c) = 14" "\<not> continuing ?c" "mode ?c = md"
    "sw_instate (wconn v q) = SWS_RECV_HDR" "instate (pipes v q) = IN_ASYNC" "inmsg_array (wconn v q) = []" "inmsg_total_size (wconn v q) = 0"
    using rx by (auto simp: rx_idle_def rx_base_def)
  note p = parse_data [OF c(3,4) op ctl, unfolded c(5)]
  have ev: "ev = sws_recvd_hdr env rm q [op OR 0x80, ctl OR rx_bit md] (s, set_wconn q ?c v)"
    unfolding ev_def using us c by (simp add: sws_event_received sws_received_def)
  show "\<exists>v'. ev = Some (s, v') \<and> rx_message md op [] (wconn v' q) (pipes v' q)" if "rx_rest md ctl = 0" "ctl = 0"
    unfolding ev using p that c rx us
    by (simp add: sws_recvd_hdr_def sws_deliver_def nn_pipebase_received_def rx_message_def rx_idle_def rx_base_def poke_hdr2 Let_def)
  show "\<exists>v'. ev = Some (s, v') \<and> rx_hdrext md op ctl (wconn v' q) (pipes v' q)" if "rx_rest md ctl \<noteq> 0"
    unfolding ev using p that c rx us
    by (simp add: sws_recvd_hdr_def nn_usock_recv_def rx_hdrext_def rx_idle_def rx_base_def rx_frame_def poke_hdr2 Let_def)
  show "\<exists>v'. ev = Some (s, v') \<and> rx_payload md op ctl (ucast ctl) [] (wconn v' q) (pipes v' q)"
    if "rx_rest md ctl = 0" "ctl \<noteq> 0" "ws_room env (ucast ctl)"
  proof -
    have m: "md = NN_WS_CLIENT" "ctl \<le> 125" using that(1) by (auto simp: rx_rest_def split: ws_mode.splits if_splits)
    have "0 < ctl" using that(2) by (simp add: word_neq_0_conv)
    then show ?thesis
      unfolding ev using p that c rx us m
      by (auto simp: sws_recvd_hdr_def sws_start_payload_def nn_usock_recv_def rx_payload_def rx_idle_def rx_base_def rx_frame_def poke_hdr2 ws_room_def Let_def)
  qed
qed

lemma ucast_back: "n \<le> 125 \<Longrightarrow> ucast (ucast n :: u8) = n" "n \<le> 65535 \<Longrightarrow> ucast (ucast n :: u16) = n" for n :: u64
  by (auto simp: word_le_nat_alt word_unat_eq_iff unsigned_ucast_eq unsigned_take_bit_eq take_bit_nat_eq_self)

lemma ws_len_cases:
  obtains "n \<le> 125" "ws_ctl n = ucast n" "ws_ctl n \<le> 125" "ws_ext n = []"
  | "125 < n" "n \<le> 65535" "ws_ctl n = 0x7E" "length (ws_ext n) = 2" "\<forall>t. nn_gets (ws_ext n @ t) = Some (ucast n)"
  | "65535 < n" "ws_ctl n = 0x7F" "length (ws_ext n) = 8" "\<forall>t. nn_getll (ws_ext n @ t) = Some n"
proof -
  consider "n \<le> 125" | "125 < n" "n \<le> 65535" | "65535 < n" by (meson not_le)
  then show thesis
  proof cases
    case 1
    then have "(ucast n :: u8) \<le> 125" by (simp add: word_le_nat_alt unsigned_ucast_eq take_bit_nat_eq_self)
    then show thesis using 1 that(1) by (simp add: ws_ctl_def ws_ext_def)
  next
    case 2
    then show thesis using that(2) by (simp add: ws_ctl_def ws_ext_def nn_puts_def nn_gets_def join16 flip: not_le)
  next
    case 3
    moreover have "\<not> n \<le> 125" using 3 by (simp add: word_less_nat_alt word_le_nat_alt)
    ultimately show thesis using that(3) by (simp add: ws_ctl_def ws_ext_def be64_facts nn_getll_append flip: not_le)
  qed
qed

lemma drop_poke2: "length h = 14 \<Longrightarrow> length bs \<le> 12 \<Longrightarrow> drop 2 (poke h 2 bs) = bs @ drop (2 + length bs) h \<and> length (poke h 2 bs) = 14"
  by (simp add: poke_def)

definition rx_mask_len :: "ws_mode \<Rightarrow> nat" where
  "rx_mask_len md = (case md of NN_WS_SERVER \<Rightarrow> 4 | NN_WS_CLIENT \<Rightarrow> 0)"

lemma rx_rest_length: "rx_rest md (ws_ctl n) = length (ws_ext n) + rx_mask_len md"
  by (rule ws_len_cases [of n]) (auto simp: rx_rest_def rx_mask_len_def split: ws_mode.split)

lemma parse_ext:
  assumes c: "length (inhdr c) = 14" "payload_ctl c = ws_ctl n" "masked c = rx_bit md" and mk: "length mk = rx_mask_len md"
  shows "sws_parse_ext (c\<lparr>inhdr := poke (inhdr c) 2 (ws_ext n @ mk)\<rparr>) =
    Some (c\<lparr>inhdr := poke (inhdr c) 2 (ws_ext n @ mk), inmsg_current_chunk_len := n, mask_off := (case md of NN_WS_SERVER \<Rightarrow> Some (2 + length (ws_ext n)) | NN_WS_CLIENT \<Rightarrow> None)\<rparr>)"
proof -
  have l: "length (ws_ext n) \<le> 8" by (rule ws_len_cases [of n]) simp_all
  have d: "drop 2 (poke (inhdr c) 2 (ws_ext n @ mk)) = ws_ext n @ mk @ drop (2 + length (ws_ext n @ mk)) (inhdr c)"
    using drop_poke2 [OF c(1), of "ws_ext n @ mk"] l mk by (auto simp: rx_mask_len_def split: ws_mode.splits)
  show ?thesis
    by (rule ws_len_cases [of n]) (use c d in \<open>auto simp: sws_parse_ext_def rx_bit_def ucast_back split: ws_mode.split\<close>)
qed

lemma rx_hdr_rest:
  fixes env add rm s
  assumes rx: "rx_hdrext md op (ws_ctl n) (wconn v q) (pipes v q)" and op: "data_opcode op" and mk: "length mk = rx_mask_len md"
    and rest: "rx_rest md (ws_ctl n) \<noteq> 0"
  defines "ev \<equiv> sws_usock_event env add rm q (NN_USOCK_RECEIVED (ws_ext n @ mk)) (s, v)"
  shows "n = 0 \<Longrightarrow> \<exists>v'. ev = Some (s, v') \<and> rx_message md op [] (wconn v' q) (pipes v' q)"
    "n \<noteq> 0 \<Longrightarrow> ws_room env n \<Longrightarrow> \<exists>v'. ev = Some (s, v') \<and> rx_payload md op (ws_ctl n) n mk (wconn v' q) (pipes v' q)"
proof -
  obtain us where us: "sw_usock (wconn v q) = Some us" "us_in us = Some (rx_rest md (ws_ctl n))" using rx by (auto simp: rx_hdrext_def rx_base_def)
  let ?c = "(wconn v q)\<lparr>sw_usock := Some (us\<lparr>us_in := None\<rparr>)\<rparr>"
  have c: "sw_fsm (wconn v q) = FSM_ACTIVE" "sw_state (wconn v q) = SWS_ACTIVE" "length (inhdr ?c) = 14" "payload_ctl ?c = ws_ctl n" "masked ?c = rx_bit md"
    "sw_instate (wconn v q) = SWS_RECV_HDREXT" "instate (pipes v q) = IN_ASYNC" "inmsg_array (wconn v q) = []" "inmsg_total_size (wconn v q) = 0"
    "ext_hdr_len (wconn v q) \<noteq> 0" "is_final_frame (wconn v q)" "\<not> is_control_frame (wconn v q)" "opcode (wconn v q) = op" "inmsg_hdr (wconn v q) = op OR 0x80"
    using rx rest by (auto simp: rx_hdrext_def rx_base_def rx_frame_def)
  have l: "length (ws_ext n @ mk) \<le> 12" by (rule ws_len_cases [of n]) (use mk in \<open>auto simp: rx_mask_len_def split: ws_mode.split\<close>)
  have ctl: "ws_ctl n \<le> 125 \<or> ws_ctl n = 0x7E \<or> ws_ctl n = 0x7F" by (rule ws_len_cases [of n]) simp_all
  note p = parse_ext [OF c(3,4,5) mk] and dp = drop_poke2 [OF c(3) l]
  have "drop (2 + length (ws_ext n)) (poke (inhdr (wconn v q)) 2 (ws_ext n @ mk)) = drop (length (ws_ext n)) (drop 2 (poke (inhdr (wconn v q)) 2 (ws_ext n @ mk)))"
    by (simp add: add.commute)
  also have "\<dots> = mk @ drop (2 + length (ws_ext n @ mk)) (inhdr (wconn v q))" using dp by simp
  finally have m: "md = NN_WS_SERVER \<Longrightarrow> take 4 (drop (2 + length (ws_ext n)) (poke (inhdr (wconn v q)) 2 (ws_ext n @ mk))) = mk"
    using mk by (simp add: rx_mask_len_def)
  have ev: "ev = sws_recvd_hdrext env rm q (ws_ext n @ mk) (s, set_wconn q ?c v)"
    unfolding ev_def using us c by (simp add: sws_event_received sws_received_def)
  have cl: "op \<noteq> NN_WS_OPCODE_CLOSE" using op by (auto simp: opcode_defs)
  show "\<exists>v'. ev = Some (s, v') \<and> rx_message md op [] (wconn v' q) (pipes v' q)" if "n = 0"
    unfolding ev using p that c rx us ctl cl dp
    by (auto simp: sws_recvd_hdrext_def sws_deliver_def nn_pipebase_received_def rx_message_def rx_hdrext_def rx_base_def Let_def)
  show "\<exists>v'. ev = Some (s, v') \<and> rx_payload md op (ws_ctl n) n mk (wconn v' q) (pipes v' q)" if "n \<noteq> 0" "ws_room env n"
    unfolding ev using p that c rx us ctl cl dp m
    by (auto simp: sws_recvd_hdrext_def sws_start_payload_def nn_usock_recv_def rx_payload_def rx_hdrext_def rx_base_def rx_frame_def ws_room_def Let_def)
qed

definition rx_wire :: "ws_mode \<Rightarrow> bytes \<Rightarrow> bytes \<Rightarrow> bytes" where
  "rx_wire md mk bs = (case md of NN_WS_SERVER \<Rightarrow> mask_bytes mk 0 bs | NN_WS_CLIENT \<Rightarrow> bs)"

lemma length_rx_wire [simp]: "length (rx_wire md mk bs) = length bs"
  by (simp add: rx_wire_def split: ws_mode.split)

lemma rx_chunk:
  fixes env add rm s
  assumes rx: "rx_payload md op ctl n mk (wconn v q) (pipes v q)" and op: "data_opcode op" and bs: "length bs = unat n" "int (length bs) < 4294967296"
    and text_ok: "op = NN_WS_OPCODE_TEXT \<Longrightarrow> utf8_text bs"
  shows "\<exists>v'. sws_usock_event env add rm q (NN_USOCK_RECEIVED (rx_wire md mk bs)) (s, v) = Some (s, v') \<and> rx_message md op bs (wconn v' q) (pipes v' q)"
proof -
  obtain us where us: "sw_usock (wconn v q) = Some us" using rx by (auto simp: rx_payload_def rx_base_def)
  let ?c = "(wconn v q)\<lparr>sw_usock := Some (us\<lparr>us_in := None\<rparr>)\<rparr>"
  have c: "sw_fsm (wconn v q) = FSM_ACTIVE" "sw_state (wconn v q) = SWS_ACTIVE" "sw_instate (wconn v q) = SWS_RECV_PAYLOAD" "instate (pipes v q) = IN_ASYNC"
    "inmsg_array (wconn v q) = [replicate (unat n) 0]" "inmsg_total_size (wconn v q) = n" "inmsg_current_chunk_len (wconn v q) = n"
    "inmsg_current_chunk_buf (wconn v q) = BUF_CHUNK" "is_final_frame (wconn v q)" "opcode (wconn v q) = op" "masked (wconn v q) = rx_bit md"
    "utf8_code_pt_fragment_len (wconn v q) = 0"
    using rx by (auto simp: rx_payload_def rx_base_def rx_frame_def)
  have un: "sws_unmask ?c (rx_wire md mk bs) = Some bs"
  proof (cases md)
    case NN_WS_SERVER
    then obtain k where "mask_off (wconn v q) = Some k" "take 4 (drop k (inhdr (wconn v q))) = mk" using rx by (auto simp: rx_payload_def)
    then show ?thesis using c(11) NN_WS_SERVER mask_payload_ok [of "rx_wire md mk bs" mk 0] bs(2)
      by (simp add: sws_unmask_def rx_bit_def rx_wire_def mask_bytes_twice)
  qed (use c(11) in \<open>simp add: sws_unmask_def rx_bit_def rx_wire_def\<close>)
  let ?c' = "?c\<lparr>inmsg_array := [bs]\<rparr>"
  have st: "sws_store ?c bs = ?c'" using c(5,8) by (simp add: sws_store_def)
  have ch: "sws_chunk ?c' = bs" using c bs(1) by (simp add: sws_chunk_def)
  have ev: "sws_usock_event env add rm q (NN_USOCK_RECEIVED (rx_wire md mk bs)) (s, v) = sws_recvd_payload rm q (rx_wire md mk bs) (s, set_wconn q ?c v)"
    using us c by (simp add: sws_event_received sws_received_def)
  show ?thesis
  proof (cases "op = NN_WS_OPCODE_TEXT")
    case True
    let ?d = "?c'\<lparr>utf8_code_pt_fragment_len := 0, utf8_code_pt_fragment := replicate 4 0, sw_instate := SWS_RECVD_CHUNKED\<rparr>"
    have "sws_recvd_payload rm q (rx_wire md mk bs) (s, set_wconn q ?c v) = Some (s, nn_fsm_raise_pipe q NN_PIPE_IN (set_instate q IN_IDLE (set_wconn q ?d v)))"
      using c un st ch True utf8_scan_accepts [of bs 0] text_ok
      by (simp add: sws_recvd_payload_def nn_sws_validate_utf8_chunk_def sws_validate_rest_def sws_deliver_def nn_pipebase_received_def Let_def)
    then show ?thesis using ev rx us bs(1) by (simp add: rx_message_def rx_payload_def rx_base_def rx_frame_def)
  next
    case False
    then have "op = NN_WS_OPCODE_BINARY" "op \<noteq> NN_WS_OPCODE_FRAGMENT" using op by (auto simp: opcode_defs)
    then have "sws_recvd_payload rm q (rx_wire md mk bs) (s, set_wconn q ?c v) =
        Some (s, nn_fsm_raise_pipe q NN_PIPE_IN (set_instate q IN_IDLE (set_wconn q (?c'\<lparr>sw_instate := SWS_RECVD_CHUNKED\<rparr>) v)))"
      using c un st False by (simp add: sws_recvd_payload_def sws_deliver_def nn_pipebase_received_def Let_def)
    then show ?thesis using ev rx us bs(1) by (simp add: rx_message_def rx_payload_def rx_base_def rx_frame_def)
  qed
qed

lemma rx_recv:
  assumes rx: "rx_message md op bs (wconn v q) (pipes v q)" and op: "data_opcode op"
  shows "\<exists>v'. nn_pipe_recv nn_sws_pipebase_vfptr v q = Some (NN_PIPE_RELEASE, \<lparr>sphdr = [], hdrs = ws_cmsg op, body = bs\<rparr>, v') \<and> rx_idle md (wconn v' q) (pipes v' q)"
proof -
  obtain us where us: "sw_usock (wconn v q) = Some us" "us_in us = None" using rx by (auto simp: rx_message_def rx_base_def)
  have o: "(op OR 0x80) AND 0x80 \<noteq> 0" "(op OR 0x80) AND NOT 0x80 = op" "op AND 0x0F = op" "op AND 0x7F = op" using op by (auto simp: opcode_defs)
  show ?thesis
    using rx us op o
    by (auto simp: nn_pipe_recv_def nn_sws_pipebase_vfptr_def nn_sws_recv_def nn_sws_recv_hdr_def nn_usock_recv_def rx_message_def rx_base_def rx_idle_def
        FRAME_BITMASK_FIN_def Let_def)
qed

section \<open>From one end to the other\<close>

lemma pump_step:
  assumes "rx_base md (Some (length a)) (wconn v q) (pipes v q)" "sws_usock_event env no_add no_rm q (NN_USOCK_RECEIVED a) ((), v) = Some ((), v')"
  shows "ws_pump env q v (a @ r) acc = ws_pump env q v' r acc"
  using assms by (subst ws_pump.simps) (auto simp: rx_base_def)

lemma pump_recv:
  assumes "rx_message md op bs (wconn v q) (pipes v q)" "data_opcode op"
  shows "\<exists>v'. ws_pump env q v r acc = ws_pump env q v' r (acc @ [\<lparr>sphdr = [], hdrs = ws_cmsg op, body = bs\<rparr>]) \<and> rx_idle md (wconn v' q) (pipes v' q)"
proof -
  obtain v' where "nn_pipe_recv nn_sws_pipebase_vfptr v q = Some (NN_PIPE_RELEASE, \<lparr>sphdr = [], hdrs = ws_cmsg op, body = bs\<rparr>, v')" "rx_idle md (wconn v' q) (pipes v' q)"
    using rx_recv [OF assms] by auto
  then show ?thesis using assms(1) by (subst ws_pump.simps) (auto simp: rx_message_def rx_base_def)
qed

definition ws_peer :: "ws_mode \<Rightarrow> ws_mode" where
  "ws_peer md = (case md of NN_WS_SERVER \<Rightarrow> NN_WS_CLIENT | NN_WS_CLIENT \<Rightarrow> NN_WS_SERVER)"

lemma ws_frame_split:
  assumes "length mk = 4"
  shows "\<exists>mk'. length mk' = rx_mask_len md \<and> ws_frame (ws_peer md) mk op bs =
    [op OR 0x80, ws_ctl (of_nat (length bs)) OR rx_bit md] @ (ws_ext (of_nat (length bs)) @ mk') @ rx_wire md mk' bs"
proof (cases md)
  case NN_WS_SERVER
  then show ?thesis using assms
    by (intro exI [of _ mk]) (simp add: ws_frame_def ws_peer_def rx_mask_len_def rx_bit_def rx_wire_def Let_def)
qed (simp add: ws_frame_def ws_peer_def rx_mask_len_def rx_bit_def rx_wire_def Let_def)

definition ws_fits :: "stream_env \<Rightarrow> u8 \<Rightarrow> bytes \<Rightarrow> bool" where
  "ws_fits env op bs \<longleftrightarrow> int (length bs) < 4294967296 \<and> (op = NN_WS_OPCODE_TEXT \<longrightarrow> utf8_text bs) \<and> (bs \<noteq> [] \<longrightarrow> ws_room env (of_nat (length bs)))"

lemma ws_len: "int (length bs) < 4294967296 \<Longrightarrow> unat (of_nat (length bs) :: u64) = length bs"
  by (simp add: unsigned_of_nat take_bit_nat_eq_self)

lemma ws_pump_chunk:
  assumes pl: "rx_payload md op ctl n mk (wconn v q) (pipes v q)" and op: "data_opcode op" and bs: "ws_fits env op bs" "length bs = unat n"
  shows "\<exists>v'. ws_pump env q v (rx_wire md mk bs @ r) acc = ws_pump env q v' r acc \<and> rx_message md op bs (wconn v' q) (pipes v' q)"
proof -
  obtain v' where v': "sws_usock_event env no_add no_rm q (NN_USOCK_RECEIVED (rx_wire md mk bs)) ((), v) = Some ((), v')" "rx_message md op bs (wconn v' q) (pipes v' q)"
    using rx_chunk [OF pl op bs(2), where env = env and add = no_add and rm = no_rm and s = "()"] bs(1) by (auto simp: ws_fits_def)
  have "rx_base md (Some (length (rx_wire md mk bs))) (wconn v q) (pipes v q)" using pl bs(2) by (simp add: rx_payload_def)
  from pump_step [OF this v'(1)] v'(2) show ?thesis by auto
qed

text \<open>After the header of a frame the connection has the message if it is empty, and waits for its bytes otherwise.\<close>

lemma ws_pump_header:
  assumes rx: "rx_idle md (wconn v q) (pipes v q)" and op: "data_opcode op" and mk: "length mk = rx_mask_len md" and room: "n \<noteq> 0 \<Longrightarrow> ws_room env n"
  shows "\<exists>v'. ws_pump env q v ([op OR 0x80, ws_ctl n OR rx_bit md] @ (ws_ext n @ mk) @ r) acc = ws_pump env q v' r acc \<and>
    (if n = 0 then rx_message md op [] (wconn v' q) (pipes v' q) else rx_payload md op (ws_ctl n) n mk (wconn v' q) (pipes v' q))"
proof -
  let ?first = "[op OR 0x80, ws_ctl n OR rx_bit md]"
  note first = rx_first_bytes [OF rx op ws_ctl_le [of n], where env = env and add = no_add and rm = no_rm and s = "()"]
  have b0: "rx_base md (Some (length ?first)) (wconn v q) (pipes v q)" using rx by (simp add: rx_idle_def numeral_2_eq_2)
  show ?thesis
  proof (cases "rx_rest md (ws_ctl n) = 0")
    case True
    then have e: "ws_ext n = []" "mk = []" using mk by (auto simp: rx_rest_length)
    have ctl: "ucast (ws_ctl n) = n" by (rule ws_len_cases [of n]) (use e(1) in \<open>auto simp: ucast_back\<close>)
    have "n = 0 \<longleftrightarrow> ws_ctl n = 0" using ctl by (auto simp: ws_ctl_def)
    then obtain v' where "sws_usock_event env no_add no_rm q (NN_USOCK_RECEIVED ?first) ((), v) = Some ((), v')"
      "if n = 0 then rx_message md op [] (wconn v' q) (pipes v' q) else rx_payload md op (ws_ctl n) n mk (wconn v' q) (pipes v' q)"
      using first(1) [OF True] first(3) [OF True] room ctl e(2) by (cases "n = 0") auto
    then show ?thesis using pump_step [OF b0, of env v' r acc] e by auto
  next
    case False
    from first(2) [OF False] obtain v1 where v1: "sws_usock_event env no_add no_rm q (NN_USOCK_RECEIVED ?first) ((), v) = Some ((), v1)"
      "rx_hdrext md op (ws_ctl n) (wconn v1 q) (pipes v1 q)" by auto
    have b1: "rx_base md (Some (length (ws_ext n @ mk))) (wconn v1 q) (pipes v1 q)"
      using v1(2) mk by (simp add: rx_hdrext_def rx_rest_length)
    note rest = rx_hdr_rest [OF v1(2) op mk False, where env = env and add = no_add and rm = no_rm and s = "()"]
    obtain v' where "sws_usock_event env no_add no_rm q (NN_USOCK_RECEIVED (ws_ext n @ mk)) ((), v1) = Some ((), v')"
      "if n = 0 then rx_message md op [] (wconn v' q) (pipes v' q) else rx_payload md op (ws_ctl n) n mk (wconn v' q) (pipes v' q)"
      using rest room by (cases "n = 0") auto
    then show ?thesis using pump_step [OF b0 v1(1), of "(ws_ext n @ mk) @ r" acc] pump_step [OF b1, of env v' r acc] by auto
  qed
qed

lemma ws_pump_frame:
  assumes rx: "rx_idle md (wconn v q) (pipes v q)" and op: "data_opcode op" and bs: "ws_fits env op bs" and mk: "length mk = 4"
  shows "\<exists>v'. ws_pump env q v (ws_frame (ws_peer md) mk op bs @ r) acc = ws_pump env q v' r (acc @ [\<lparr>sphdr = [], hdrs = ws_cmsg op, body = bs\<rparr>]) \<and>
    rx_idle md (wconn v' q) (pipes v' q)"
proof -
  define n :: u64 where "n = of_nat (length bs)"
  have n: "length bs = unat n" using bs ws_len [of bs] by (simp add: n_def ws_fits_def)
  then have n0: "n = 0 \<longleftrightarrow> bs = []" by (metis length_0_conv unat_eq_zero)
  obtain mk' where f: "length mk' = rx_mask_len md" "ws_frame (ws_peer md) mk op bs = [op OR 0x80, ws_ctl n OR rx_bit md] @ (ws_ext n @ mk') @ rx_wire md mk' bs"
    using ws_frame_split [OF mk, of md op bs] by (auto simp: n_def)
  have room: "ws_room env n" if "n \<noteq> 0" using bs that n0 by (simp add: ws_fits_def n_def)
  obtain v1 where v1: "ws_pump env q v (ws_frame (ws_peer md) mk op bs @ r) acc = ws_pump env q v1 (rx_wire md mk' bs @ r) acc"
    "if n = 0 then rx_message md op [] (wconn v1 q) (pipes v1 q) else rx_payload md op (ws_ctl n) n mk' (wconn v1 q) (pipes v1 q)"
    using ws_pump_header [OF rx op f(1) room, of "rx_wire md mk' bs @ r" acc] f(2) by auto
  obtain v2 where "ws_pump env q v1 (rx_wire md mk' bs @ r) acc = ws_pump env q v2 r acc" "rx_message md op bs (wconn v2 q) (pipes v2 q)"
  proof (cases "n = 0")
    case True
    then have "bs = []" "rx_wire md mk' bs = []" using n0 by (simp_all add: rx_wire_def mask_bytes_def split: ws_mode.split)
    then show thesis using that [of v1] v1(2) True by simp
  next
    case False
    then show thesis using ws_pump_chunk [OF _ op bs n] v1(2) that by metis
  qed
  then show ?thesis using pump_recv [OF _ op, where env = env and r = r and acc = acc] v1(1) by metis
qed
text \<open>A program that sends messages one after the other, each when the one before is on its way.\<close>

fun ws_send_all :: "stream_env \<Rightarrow> pid \<Rightarrow> wworld \<Rightarrow> sp_msg list \<Rightarrow> wworld option" where
  "ws_send_all env p w [] = Some w"
| "ws_send_all env p w (m # ms) = do {
     (rc, w) \<leftarrow> nn_pipe_send nn_sws_pipebase_vfptr w p m;
     (u, w) \<leftarrow> sws_usock_event env no_add no_rm p NN_USOCK_SENT ((), w);
     ws_send_all env p w ms }"

definition ws_wire :: "wworld \<Rightarrow> pid \<Rightarrow> bytes" where
  "ws_wire w p = (case sw_usock (wconn w p) of None \<Rightarrow> [] | Some us \<Rightarrow> us_wire us)"

lemma sws_in_ok_out: "sws_in_ok (c\<lparr>outmsg := om, outhdr := oh, sw_usock := u, sw_outstate := o'\<rparr>) = sws_in_ok c"
  by (intro ext, cases "sw_instate c") (simp_all add: sws_in_ok_def sws_frame_ok_def)

lemma sws_ok_out:
  assumes "sws_ok c b" "sw_usock c = Some us"
  shows "sws_ok (c\<lparr>outmsg := om, outhdr := oh, sw_usock := Some (us\<lparr>us_out := False, us_wire := x\<rparr>), sw_outstate := SWS_OUT_IDLE\<rparr>) (b\<lparr>outstate := OUT_IDLE\<rparr>)"
  using sws_okD(1-8) [OF assms(1)] sws_okD(9) [OF assms] by (simp add: sws_ok_def sws_in_ok_out)

lemma ws_send_step:
  assumes ok: "wconn_ok w p" and s: "can_send w p" and m: "hdrs m = []" "int (length (ws_payload m)) < 4294967296"
  shows "\<exists>w'. ws_send_all env p w [m] = Some w' \<and> wconn_ok w' p \<and> can_send w' p \<and> mode (wconn w' p) = mode (wconn w p) \<and> msg_type (wconn w' p) = msg_type (wconn w p) \<and>
    ws_wire w' p = ws_wire w p @ ws_frame (mode (wconn w p)) (ws_mask w) (msg_type (wconn w p)) (ws_payload m)"
proof -
  obtain us where us: "sw_usock (wconn w p) = Some us" using sws_okD(8) [OF ok] by auto
  obtain w1 om oh where w1: "nn_sws_send (set_outstate p OUT_SENDING w) p m = Some (Inr 0, w1)" "pipes w1 = pipes (set_outstate p OUT_SENDING w)"
    "\<forall>q. wconn w1 q = (if q = p then (wconn w p)\<lparr>outmsg := om, outhdr := oh,
       sw_usock := Some (us\<lparr>us_out := True, us_wire := us_wire us @ ws_frame (mode (wconn w p)) (ws_mask w) (msg_type (wconn w p)) (ws_payload m)\<rparr>),
       sw_outstate := SWS_OUT_SENDING\<rparr> else wconn w q)"
    using sws_send_ok [OF ok s m us] by (elim exE conjE) (rule that; assumption)
  let ?x = "us_wire us @ ws_frame (mode (wconn w p)) (ws_mask w) (msg_type (wconn w p)) (ws_payload m)"
  let ?c = "(wconn w p)\<lparr>outmsg := empty_msg, outhdr := oh, sw_usock := Some (us\<lparr>us_out := False, us_wire := ?x\<rparr>), sw_outstate := SWS_OUT_IDLE\<rparr>"
  let ?w = "nn_fsm_raise_pipe p NN_PIPE_OUT (set_outstate p OUT_IDLE (set_wconn p ?c (set_outstate p OUT_ASYNC w1)))"
  have "nn_pipe_send nn_sws_pipebase_vfptr w p m = Some (NN_PIPE_RELEASE, set_outstate p OUT_ASYNC w1)"
    using w1 s by (simp add: nn_pipe_send_def nn_sws_pipebase_vfptr_def)
  moreover have "sws_usock_event env no_add no_rm p NN_USOCK_SENT ((), set_outstate p OUT_ASYNC w1) = Some ((), ?w)"
    using w1(3) sws_okD(1,2) [OF ok]
    by (cases "wconn w p"; cases us) (simp add: sws_usock_event_def nn_sws_feed_def nn_sws_handler_def usock_done_def nn_pipebase_sent_def Let_def)
  moreover have "pipes ?w p = (pipes w p)\<lparr>outstate := OUT_IDLE\<rparr>" using w1(2) by (simp add: set_outstate_def)
  ultimately show ?thesis
    using sws_ok_out [OF ok us, where om = empty_msg and oh = oh and x = ?x] us s by (intro exI [of _ ?w]) (simp add: ws_wire_def)
qed

lemma ws_send_all_Cons: "ws_send_all env p w (m # ms) = do { w \<leftarrow> ws_send_all env p w [m]; ws_send_all env p w ms }"
  by (cases "nn_pipe_send nn_sws_pipebase_vfptr w p m") (auto split: bind_splits)

lemma ws_send_all_ok:
  assumes "wconn_ok w p" "can_send w p" "\<forall>m \<in> set ms. hdrs m = [] \<and> int (length (ws_payload m)) < 4294967296"
  shows "\<exists>w' mks. ws_send_all env p w ms = Some w' \<and> length mks = length ms \<and> (\<forall>mk \<in> set mks. length mk = 4) \<and>
    ws_wire w' p = ws_wire w p @ concat (map2 (\<lambda>mk m. ws_frame (mode (wconn w p)) mk (msg_type (wconn w p)) (ws_payload m)) mks ms)"
  using assms
proof (induction ms arbitrary: w)
  case (Cons m ms)
  obtain w1 where w1: "ws_send_all env p w [m] = Some w1" "wconn_ok w1 p" "can_send w1 p" "mode (wconn w1 p) = mode (wconn w p)" "msg_type (wconn w1 p) = msg_type (wconn w p)"
    "ws_wire w1 p = ws_wire w p @ ws_frame (mode (wconn w p)) (ws_mask w) (msg_type (wconn w p)) (ws_payload m)"
    using ws_send_step [OF Cons.prems(1,2), of m env] Cons.prems(3) by auto
  obtain w' mks where "ws_send_all env p w1 ms = Some w'" "length mks = length ms" "\<forall>mk \<in> set mks. length mk = 4"
    "ws_wire w' p = ws_wire w1 p @ concat (map2 (\<lambda>mk m. ws_frame (mode (wconn w1 p)) mk (msg_type (wconn w1 p)) (ws_payload m)) mks ms)"
    using Cons.IH [OF w1(2,3)] Cons.prems(3) by auto
  then show ?case using w1 length_random by (intro exI [of _ w'] exI [of _ "ws_mask w # mks"]) (simp add: ws_send_all_Cons [of env p w m ms] ws_mask_def del: ws_send_all.simps)
qed simp

definition ws_received_as :: "u8 \<Rightarrow> sp_msg \<Rightarrow> sp_msg" where
  "ws_received_as ty m = \<lparr>sphdr = [], hdrs = ws_cmsg ty, body = ws_payload m\<rparr>"

lemma ws_pump_frames:
  assumes "rx_idle md (wconn v q) (pipes v q)" "data_opcode ty" "\<forall>m \<in> set ms. ws_fits env ty (ws_payload m)" "length mks = length ms" "\<forall>mk \<in> set mks. length mk = 4"
  shows "\<exists>v'. ws_pump env q v (concat (map2 (\<lambda>mk m. ws_frame (ws_peer md) mk ty (ws_payload m)) mks ms)) acc = Some (acc @ map (ws_received_as ty) ms, [], v') \<and>
    rx_idle md (wconn v' q) (pipes v' q)"
  using assms
proof (induction ms arbitrary: v acc mks)
  case Nil
  then show ?case by (subst ws_pump.simps) (auto simp: rx_idle_def rx_base_def)
next
  case (Cons m ms)
  then obtain mk mks' where mks: "mks = mk # mks'" "length mk = 4" by (cases mks) auto
  obtain v1 where v1: "ws_pump env q v (ws_frame (ws_peer md) mk ty (ws_payload m) @ concat (map2 (\<lambda>mk m. ws_frame (ws_peer md) mk ty (ws_payload m)) mks' ms)) acc =
      ws_pump env q v1 (concat (map2 (\<lambda>mk m. ws_frame (ws_peer md) mk ty (ws_payload m)) mks' ms)) (acc @ [ws_received_as ty m])" "rx_idle md (wconn v1 q) (pipes v1 q)"
    using ws_pump_frame [OF Cons.prems(1,2) _ mks(2)] Cons.prems(3) by (fastforce simp: ws_received_as_def)
  show ?case using Cons.IH [OF v1(2) Cons.prems(2), of mks' "acc @ [ws_received_as ty m]"] Cons.prems(3-5) mks(1) v1(1) by auto
qed

lemma tstate_raise [simp]: "tstate (nn_fsm_raise_pipe p e w) = tstate w"
  by (simp add: nn_fsm_raise_pipe_def)

lemma ws_open_ok:
  assumes "wconn w p = nn_sws_init" "pstate (pipes w p) = PIPE_IDLE" "p \<notin> fst ` set (ws_owner (tstate w))" "add s p = Some (Inr (), s')"
  shows "\<exists>w'. ws_open env add rm p md ty (s, w) = Some (s', w') \<and> rx_idle md (wconn w' p) (pipes w' p) \<and> wconn_ok w' p \<and> can_send w' p \<and>
    mode (wconn w' p) = md \<and> msg_type (wconn w' p) = ty \<and> ws_owner (tstate w') = ws_owner (tstate w) \<and>
    (\<forall>q. q \<noteq> p \<longrightarrow> pipes w' q = pipes w q)"
proof -
  have no: "(p, e) \<notin> set (ws_owner (tstate w))" for e using assms(3) by force
  show ?thesis
    using assms no
    by (simp add: ws_open_def nn_sws_start_def nn_sws_isidle_def nn_sws_handler_def nn_sws_init_def nn_ws_handshake_init_def nn_ws_handshake_start_def
        nn_ws_handshake_isidle_def nn_ws_handshake_stop_def sws_handshake_event_def nn_sws_feed_def nn_pipebase_start_def nn_sws_recv_hdr_def nn_usock_recv_def
        rx_idle_def rx_base_def sws_ok_def sws_in_ok_def Let_def)
qed


lemma ws_world0_ok:
  "wconn ws_world0 p = nn_sws_init" "pstate (pipes ws_world0 p) = PIPE_IDLE" "ws_owner (tstate ws_world0) = []"
  by (simp_all add: ws_world0_def fresh_pipe_def wconn_def)


end
