(* ===== verification/Nn_Sws_Peer.thy ===== *)
theory Nn_Sws_Peer
  imports Nn_Sws_Frames
begin

text \<open>
  What the bytes of a peer can do to a WebSocket connection.  Whatever arrives, the connection
  goes on with its invariant or is closed in an orderly way, with the exceptions at the end of
  this theory.
\<close>

section \<open>Between two reads\<close>

text \<open>An active connection that has just read something.\<close>

definition sws_mid :: "nn_sws \<Rightarrow> nn_pipebase \<Rightarrow> bool" where
  "sws_mid c b \<longleftrightarrow> sw_fsm c = FSM_ACTIVE \<and> sw_state c = SWS_ACTIVE \<and> length (inhdr c) = 14 \<and> length (inmsg_control c) = 125 \<and> length (fail_msg c) = 125 \<and>
     length (utf8_code_pt_fragment c) = 4 \<and> utf8_code_pt_fragment_len c < 4 \<and> pstate b = PIPE_ACTIVE \<and> instate b = IN_ASYNC \<and>
     (\<exists>us. sw_usock c = Some us \<and> us_in us = None \<and>
       (sw_outstate c = SWS_OUT_IDLE \<and> outstate b = OUT_IDLE \<and> \<not> us_out us \<or> sw_outstate c = SWS_OUT_SENDING \<and> outstate b = OUT_ASYNC \<and> us_out us))"

text \<open>The frames of a message so far; between messages there are none.\<close>

definition sws_parts :: "nn_sws \<Rightarrow> bool" where
  "sws_parts c \<longleftrightarrow> (continuing c \<longrightarrow> hdr_data (inmsg_hdr c)) \<and> unat (inmsg_total_size c) = length (concat (inmsg_array c))"

definition sws_between :: "nn_sws \<Rightarrow> bool" where
  "sws_between c \<longleftrightarrow> (\<not> continuing c \<longrightarrow> inmsg_array c = [])"

text \<open>The limit on messages: the default of \<^verbatim>\<open>NN_RCVMAXSIZE\<close> is one megabyte.\<close>

definition ws_within :: "stream_env \<Rightarrow> nn_sws \<Rightarrow> bool" where
  "ws_within env c \<longleftrightarrow> 0 \<le> rcvmaxsize env \<and> rcvmaxsize env < 2147483648 \<and> uint (inmsg_total_size c) \<le> rcvmaxsize env \<and>
     (\<forall>n. uint n \<le> rcvmaxsize env \<longrightarrow> can_alloc env n)"

definition ws_quiet :: "pid \<Rightarrow> wworld \<Rightarrow> bool" where
  "ws_quiet p w \<longleftrightarrow> (p, NN_SWS_RETURN_ERROR) \<notin> set (ws_owner (tstate w)) \<and> (p, NN_SWS_RETURN_CLOSE_HANDSHAKE) \<notin> set (ws_owner (tstate w))"

text \<open>The connection is being closed: the pipe is taken from the socket, and the close frame is on its way or the owner is told.\<close>

definition ws_closed :: "wworld \<Rightarrow> pid \<Rightarrow> bool" where
  "ws_closed w p \<longleftrightarrow> pstate (pipes w p) = PIPE_IDLE \<and>
     (sw_state (wconn w p) = SWS_CLOSING_CONNECTION \<and> sw_outstate (wconn w p) = SWS_OUT_SENDING \<or>
      sw_state (wconn w p) = SWS_DONE \<and> (p, NN_SWS_RETURN_CLOSE_HANDSHAKE) \<in> set (ws_owner (tstate w)))"

definition ws_outcome :: "stream_env \<Rightarrow> pid \<Rightarrow> 's \<Rightarrow> 's \<Rightarrow> ('s \<times> wworld) option \<Rightarrow> bool" where
  "ws_outcome env p s s' r \<longleftrightarrow> (\<exists>s2 w2. r = Some (s2, w2) \<and>
     (s2 = s \<and> pstate (pipes w2 p) = PIPE_ACTIVE \<and> wconn_ok w2 p \<and> ws_within env (wconn w2 p) \<or> s2 = s' \<and> ws_closed w2 p))"

lemma ws_outcome_on: "r = Some (s, w) \<Longrightarrow> pstate (pipes w p) = PIPE_ACTIVE \<Longrightarrow> wconn_ok w p \<Longrightarrow> ws_within env (wconn w p) \<Longrightarrow> ws_outcome env p s s' r"
  by (auto simp: ws_outcome_def)

lemma ws_outcome_upd:
  "r = Some (s, set_wconn p c w) \<Longrightarrow> sws_ok c (pipes w p) \<Longrightarrow> pstate (pipes w p) = PIPE_ACTIVE \<Longrightarrow> ws_within env c \<Longrightarrow> ws_outcome env p s s' r"
  by (auto simp: ws_outcome_def)

section \<open>Closing\<close>

lemma length_poke: "i + length xs \<le> length buf \<Longrightarrow> length (poke buf i xs) = length buf"
  by (simp add: poke_def)

lemma mask_payload_short: "length bs \<le> 125 \<Longrightarrow> nn_sws_mask_payload bs mk k = Some (mask_bytes mk k bs, unat (of_nat (length bs + k) :: u32) mod length mk)"
  by (rule mask_payload_ok) simp

lemma close_frame_ok:
  assumes "length (fail_msg c) = 125" "length reason \<le> 100" "mode c = NN_WS_CLIENT \<Longrightarrow> length mk = 4"
  shows "\<exists>buf n. sws_close_frame c mk code reason = Some (c\<lparr>fail_msg := buf, fail_msg_len := n\<rparr>) \<and> length buf = 125 \<and> n \<le> 125"
proof (cases "mode c")
  case NN_WS_SERVER
  then show ?thesis using assms(1,2)
    by (simp add: sws_close_frame_def nn_puts_def Let_def) (intro exI conjI, rule refl, simp_all add: length_poke)
next
  case NN_WS_CLIENT
  let ?b = "(fail_msg c)[0 := FRAME_BITMASK_FIN OR NN_WS_OPCODE_CLOSE, 1 := of_nat (length reason + 2)]"
  define b1 where "b1 = poke (?b[1 := ?b ! 1 OR FRAME_BITMASK_MASKED]) 2 mk"
  have l1: "length b1 = 125" using assms(1) assms(3) [OF NN_WS_CLIENT] by (simp add: b1_def length_poke)
  then obtain t where t: "nn_puts (drop 6 b1) code = Some t" "length t = 119" by (simp add: nn_puts_def)
  define b2 where "b2 = poke (take 6 b1 @ t) 8 reason"
  have l2: "length b2 = 125" using l1 t(2) assms(2) by (simp add: b2_def length_poke)
  define m where "m = mask_bytes mk 0 (take (length reason + 2) (drop 6 b2))"
  have m: "nn_sws_mask_payload (take (length reason + 2) (drop 6 b2)) mk 0 = Some (m, unat (of_nat (length (take (length reason + 2) (drop 6 b2)) + 0) :: u32) mod length mk)"
    unfolding m_def using l2 by (intro mask_payload_short) simp
  have "sws_close_frame c mk code reason = Some (c\<lparr>fail_msg := poke b2 6 m, fail_msg_len := 6 + 2 + (length reason + 2)\<rparr>)"
    unfolding sws_close_frame_def Let_def NN_WS_CLIENT ws_mode.case prod.case b1_def [symmetric]
    using assms(2) l1 l2 t by (simp add: m [simplified] b2_def [symmetric] del: length_greater_0_conv)
  moreover have "length (poke b2 6 m) = 125" using l2 assms(2) by (simp add: length_poke m_def)
  ultimately show ?thesis using assms(2) by (intro exI [of _ "poke b2 6 m"] exI [of _ "6 + 2 + (length reason + 2)"]) simp
qed

lemma sws_raise_ok:
  assumes "ws_quiet p w"
  shows "\<exists>w'. sws_raise p NN_SWS_RETURN_CLOSE_HANDSHAKE w = Some w' \<and> pipes w' = pipes w \<and> (\<forall>q. wconn w' q = wconn w q) \<and>
    ws_owner (tstate w') = ws_owner (tstate w) @ [(p, NN_SWS_RETURN_CLOSE_HANDSHAKE)]"
  using assms by (simp add: sws_raise_def ws_quiet_def wconn_def)

lemma fail_conn_ok:
  assumes mid: "sws_mid (wconn w p) (pipes w p)" and rm: "rm s p = Some s'" and q: "ws_quiet p w" and r: "length reason \<le> 100"
  shows "ws_outcome env p s0 s' (nn_sws_fail_conn rm p code reason (s, w))"
proof -
  let ?c = "(wconn w p)\<lparr>sw_instate := SWS_CLOSED, inmsg_array := []\<rparr>"
  let ?w = "set_pipe p ((pipes w p)\<lparr>pstate := PIPE_IDLE\<rparr>) (set_wconn p ((wconn w p)\<lparr>sw_instate := SWS_CLOSED\<rparr>) w)"
  obtain mk w1 where mk: "(case mode ?c of NN_WS_SERVER \<Rightarrow> ([], ?w) | NN_WS_CLIENT \<Rightarrow> (case nn_random_generate (ws_random (tstate ?w)) 4 of (mk, r) \<Rightarrow> (mk, set_random r ?w))) = (mk, w1)"
    "mode ?c = NN_WS_CLIENT \<longrightarrow> length mk = 4" "pipes w1 = pipes ?w" "ws_owner (tstate w1) = ws_owner (tstate w)"
    using length_random [of "ws_random (tstate ?w)"] by (cases "mode ?c"; cases "nn_random_generate (ws_random (tstate ?w)) 4") auto
  have f: "length (fail_msg ?c) = 125" "length (ascii reason) \<le> 100" using mid r by (auto simp: sws_mid_def ascii_def)
  obtain buf n where cf: "sws_close_frame ?c mk code (ascii reason) = Some (?c\<lparr>fail_msg := buf, fail_msg_len := n\<rparr>)" "length buf = 125" "n \<le> 125"
    using close_frame_ok [OF f] mk(2) by blast
  obtain us where us: "sw_usock (wconn w p) = Some us" "sw_outstate (wconn w p) = SWS_OUT_IDLE \<longrightarrow> \<not> us_out us" "sw_state (wconn w p) = SWS_ACTIVE" "pstate (pipes w p) = PIPE_ACTIVE"
    using mid by (auto simp: sws_mid_def)
  let ?d = "?c\<lparr>fail_msg := buf, fail_msg_len := n\<rparr>"
  have eq: "nn_sws_fail_conn rm p code reason (s, w) = (if sw_outstate (wconn w p) = SWS_OUT_IDLE
     then Some (s', set_wconn p (?d\<lparr>sw_usock := Some (us\<lparr>us_out := True, us_wire := us_wire us @ take n buf\<rparr>), sw_outstate := SWS_OUT_SENDING, sw_state := SWS_CLOSING_CONNECTION\<rparr>) w1)
     else map_option (Pair s') (sws_raise p NN_SWS_RETURN_CLOSE_HANDSHAKE (set_wconn p (?d\<lparr>sw_state := SWS_DONE\<rparr>) w1)))"
    using mk(1) cf us rm by (cases "mode (wconn w p)"; cases "nn_random_generate (ws_random (tstate w)) 4")
      (auto simp: nn_sws_fail_conn_def nn_pipebase_stop_def nn_usock_send_def map_option_case Let_def split: option.split)
  show ?thesis
  proof (cases "sw_outstate (wconn w p) = SWS_OUT_IDLE")
    case True
    then show ?thesis unfolding eq using mk(3) by (simp add: ws_outcome_def ws_closed_def)
  next
    case False
    let ?w2 = "set_wconn p (?d\<lparr>sw_state := SWS_DONE\<rparr>) w1"
    obtain w3 where "sws_raise p NN_SWS_RETURN_CLOSE_HANDSHAKE ?w2 = Some w3" "pipes w3 = pipes ?w2" "wconn w3 p = wconn ?w2 p"
      "(p, NN_SWS_RETURN_CLOSE_HANDSHAKE) \<in> set (ws_owner (tstate w3))"
      using sws_raise_ok [of p ?w2] q mk(4) by (auto simp: ws_quiet_def)
    then show ?thesis unfolding eq using False mk(3) by (simp add: ws_outcome_def ws_closed_def)
  qed
qed

section \<open>The next frame, and complete messages\<close>

lemma recv_next_ok:
  assumes "sws_mid (wconn w p) (pipes w p)" "sws_parts (wconn w p)" "sws_between (wconn w p)" "ws_within env (wconn w p)"
  shows "ws_outcome env p s s' (sws_recv_next p (s, w))"
  using assms
  by (cases "continuing (wconn w p)")
    (auto simp: sws_mid_def sws_parts_def sws_between_def ws_within_def sws_recv_next_def nn_sws_recv_hdr_def nn_usock_recv_def Let_def sws_ok_def sws_in_ok_def
      intro!: ws_outcome_on)

lemma deliver_chunked_ok:
  assumes "sws_mid (wconn w p) (pipes w p)" "sws_parts (wconn w p)" "is_final_frame (wconn w p)" "hdr_data (inmsg_hdr (wconn w p))" "ws_within env (wconn w p)"
  shows "ws_outcome env p s s' (sws_deliver SWS_RECVD_CHUNKED p (s, w))"
  using assms
  by (auto simp: sws_mid_def sws_parts_def ws_within_def sws_deliver_def nn_pipebase_received_def sws_ok_def sws_in_ok_def intro!: ws_outcome_on)

lemma deliver_control_ok:
  assumes "sws_mid (wconn w p) (pipes w p)" "sws_parts (wconn w p)" "sws_frame_ok (wconn w p)" "is_control_frame (wconn w p)" "opcode (wconn w p) \<noteq> NN_WS_OPCODE_CLOSE"
    "inmsg_current_chunk_len (wconn w p) \<le> 125" "ws_within env (wconn w p)"
  shows "ws_outcome env p s s' (sws_deliver SWS_RECVD_CONTROL p (s, w))"
  using assms
  by (auto simp: sws_mid_def sws_parts_def ws_within_def sws_frame_ok_def sws_deliver_def nn_pipebase_received_def sws_ok_def sws_in_ok_def intro!: ws_outcome_on)

section \<open>The first two bytes of a frame\<close>

definition sws_ext_len :: "nn_sws \<Rightarrow> nat" where
  "sws_ext_len c = (if masked c \<noteq> 0 then 4 else 0) + (if payload_ctl c \<le> 125 then 0 else if payload_ctl c = 0x7E then 2 else 8)"

definition sws_parsed :: "nn_sws \<Rightarrow> sws_verdict \<Rightarrow> bool" where
  "sws_parsed c v \<longleftrightarrow> (case v of
     SWS_FAIL code reason \<Rightarrow> length reason \<le> 100
   | SWS_NEXT \<Rightarrow> continuing c
   | SWS_MESSAGE \<Rightarrow> is_final_frame c \<and> hdr_data (inmsg_hdr c)
   | SWS_CONTROL \<Rightarrow> sws_frame_ok c \<and> is_control_frame c \<and> opcode c \<noteq> NN_WS_OPCODE_CLOSE \<and> inmsg_current_chunk_len c = 0
   | SWS_CLOSE \<Rightarrow> inmsg_current_chunk_len c = 0
   | SWS_MORE \<Rightarrow> sws_frame_ok c \<and> payload_ctl c \<le> 0x7F \<and> ext_hdr_len c = sws_ext_len c \<and> (ext_hdr_len c = 0 \<longrightarrow> 0 < payload_ctl c \<and> mode c = NN_WS_CLIENT))"

text \<open>The header fields of a frame are read; the message it belongs to has a header of its own.\<close>

definition sws_hdr_read :: "nn_sws \<Rightarrow> bool" where
  "sws_hdr_read c \<longleftrightarrow> is_final_frame c = (inhdr c ! 0 AND FRAME_BITMASK_FIN \<noteq> 0) \<and> opcode c = inhdr c ! 0 AND 0x0F \<and> payload_ctl c \<le> 0x7F \<and> ext_hdr_len c = sws_ext_len c \<and>
     (mode c = NN_WS_SERVER \<longrightarrow> masked c \<noteq> 0) \<and> (opcode c = NN_WS_OPCODE_FRAGMENT \<longrightarrow> continuing c) \<and>
     (data_opcode (opcode c) \<and> \<not> continuing c \<longrightarrow> hdr_data (inmsg_hdr c))"

lemma bare_mode: "sws_hdr_read c \<Longrightarrow> ext_hdr_len c = 0 \<Longrightarrow> mode c = NN_WS_CLIENT"
  by (cases "mode c") (auto simp: sws_hdr_read_def sws_ext_len_def)

text \<open>What stays of a connection while the header of a frame is read.\<close>

definition sws_kept :: "nn_pipebase \<Rightarrow> nn_sws \<Rightarrow> nn_sws \<Rightarrow> bool" where
  "sws_kept b c c' \<longleftrightarrow> sws_mid c' b \<and> sws_parts c' \<and> inmsg_total_size c' = inmsg_total_size c"

lemmas parsed_defs = sws_parsed_def sws_hdr_read_def sws_frame_ok_def sws_ext_len_def sws_bare_def word_neq_0_conv

lemma data_frame_ok:
  assumes hr: "payload_ctl c \<le> 0x7F" "ext_hdr_len c = sws_ext_len c" "mode c = NN_WS_SERVER \<longrightarrow> masked c \<noteq> 0" and k: "sws_mid c b" "sws_parts c"
    and f: "\<not> is_control_frame c" "opcode c \<in> {NN_WS_OPCODE_TEXT, NN_WS_OPCODE_BINARY, NN_WS_OPCODE_FRAGMENT}" "is_final_frame c = (\<not> continuing c)" "hdr_data (inmsg_hdr c)"
  shows "\<exists>c' v. sws_data_frame c = Some (c', v) \<and> sws_parsed c' v \<and> sws_kept b c c'"
proof -
  have m: "mode c = NN_WS_CLIENT" if "ext_hdr_len c = 0" using that hr(2,3) by (cases "mode c") (auto simp: sws_ext_len_def)
  show ?thesis
  proof (cases "sws_bare c")
    case True
    then show ?thesis using m f k
      by (auto simp: sws_data_frame_def sws_bare_def sws_parsed_def sws_kept_def sws_mid_def sws_parts_def)
  next
    case False
    then show ?thesis using m f k hr
      by (auto simp: sws_data_frame_def sws_bare_def sws_parsed_def sws_kept_def sws_frame_ok_def word_neq_0_conv)
  qed
qed

lemma control_frame_ok:
  assumes hr: "payload_ctl c \<le> 0x7F" "ext_hdr_len c = sws_ext_len c" "mode c = NN_WS_SERVER \<longrightarrow> masked c \<noteq> 0" and k: "sws_mid c b" "sws_parts c" "sws_between c"
    and f: "is_control_frame c" "is_final_frame c = (inhdr c ! 0 AND FRAME_BITMASK_FIN \<noteq> 0)" "inhdr c ! 0 AND 0x0F = opcode c"
  shows "opcode c = NN_WS_OPCODE_PING \<or> opcode c = NN_WS_OPCODE_PONG \<Longrightarrow> (case sws_control_frame c of (c', v) \<Rightarrow> sws_parsed c' v \<and> sws_kept b c c')"
    "opcode c = NN_WS_OPCODE_CLOSE \<Longrightarrow> (case sws_close_received c of (c', v) \<Rightarrow> sws_parsed c' v \<and> sws_kept b c c')"
proof -
  have m: "mode c = NN_WS_CLIENT" if "ext_hdr_len c = 0" using that hr(2,3) by (cases "mode c") (auto simp: sws_ext_len_def)
  have kept: "sws_kept b c c" "sws_kept b c (c\<lparr>inmsg_current_chunk_len := 0\<rparr>)" using k by (simp_all add: sws_kept_def sws_mid_def sws_parts_def)
  show "case sws_control_frame c of (c', v) \<Rightarrow> sws_parsed c' v \<and> sws_kept b c c'" if "opcode c = NN_WS_OPCODE_PING \<or> opcode c = NN_WS_OPCODE_PONG"
  proof -
    have "opcode c \<noteq> NN_WS_OPCODE_CLOSE" using that by (auto simp: opcode_defs)
    then show ?thesis using that kept k(3) f hr m
      by (auto simp: sws_control_frame_def sws_parsed_def sws_bare_def sws_frame_ok_def sws_between_def word_neq_0_conv)
  qed
  show "case sws_close_received c of (c', v) \<Rightarrow> sws_parsed c' v \<and> sws_kept b c c'" if "opcode c = NN_WS_OPCODE_CLOSE"
    using that kept k(3) f hr m
    by (auto simp: sws_close_received_def sws_parsed_def sws_bare_def sws_frame_ok_def sws_between_def word_neq_0_conv)
qed

lemma kept_fields:
  "sws_kept b (c\<lparr>is_control_frame := x\<rparr>) c' = sws_kept b c c'" "sws_kept b (c\<lparr>continuing := x\<rparr>) c' = sws_kept b c c'"
  "sws_kept b (c\<lparr>pings_received := n\<rparr>) c' = sws_kept b c c'" "sws_kept b (c\<lparr>pongs_received := n\<rparr>) c' = sws_kept b c c'"
  by (simp_all add: sws_kept_def)

lemma opcode_ok:
  assumes hr: "sws_hdr_read c" and k: "sws_mid c b" "sws_parts c" "sws_between c"
  shows "\<exists>c' v. sws_opcode c = Some (c', v) \<and> sws_parsed c' v \<and> sws_kept b c c'"
proof -
  let ?d = "c\<lparr>is_control_frame := False\<rparr>" and ?k = "c\<lparr>is_control_frame := True\<rparr>"
  note data = data_frame_ok [where b = b] and ctl = control_frame_ok [where b = b]
  note defs = sws_hdr_read_def sws_mid_def sws_parts_def sws_between_def sws_ext_len_def
  consider "data_opcode (opcode c)" | "opcode c = NN_WS_OPCODE_FRAGMENT" | "opcode c = NN_WS_OPCODE_PING" | "opcode c = NN_WS_OPCODE_PONG" | "opcode c = NN_WS_OPCODE_CLOSE"
    | "opcode c \<notin> {NN_WS_OPCODE_TEXT, NN_WS_OPCODE_BINARY, NN_WS_OPCODE_FRAGMENT, NN_WS_OPCODE_PING, NN_WS_OPCODE_PONG, NN_WS_OPCODE_CLOSE}" by auto
  then show ?thesis
  proof cases
    case 1
    let ?e = "if is_final_frame c then ?d else ?d\<lparr>continuing := True\<rparr>"
    show ?thesis
    proof (cases "continuing c")
      case True
      then show ?thesis using 1 k by (auto simp: sws_opcode_def sws_parsed_def sws_kept_def sws_mid_def sws_parts_def Let_def)
    next
      case False
      have "\<exists>c' v. sws_data_frame ?e = Some (c', v) \<and> sws_parsed c' v \<and> sws_kept b ?e c'"
        by (rule data) (use 1 False hr k in \<open>auto simp: defs\<close>)
      then show ?thesis using 1 False by (auto simp: sws_opcode_def kept_fields Let_def)
    qed
  next
    case 2
    let ?e = "c\<lparr>is_control_frame := False, continuing := \<not> is_final_frame c\<rparr>"
    have "\<exists>c' v. sws_data_frame ?e = Some (c', v) \<and> sws_parsed c' v \<and> sws_kept b ?e c'"
      by (rule data) (use 2 hr k in \<open>auto simp: defs\<close>)
    then show ?thesis using 2 by (auto simp: sws_opcode_def kept_fields opcode_defs)
  next
    case 3
    let ?e = "?k\<lparr>pings_received := pings_received c + 1\<rparr>"
    have "case sws_control_frame ?e of (c', v) \<Rightarrow> sws_parsed c' v \<and> sws_kept b ?e c'"
      by (rule ctl(1)) (use 3 hr k in \<open>auto simp: defs\<close>)
    then show ?thesis using 3 by (auto simp: sws_opcode_def kept_fields opcode_defs)
  next
    case 4
    let ?e = "?k\<lparr>pongs_received := pongs_received c + 1\<rparr>"
    have "case sws_control_frame ?e of (c', v) \<Rightarrow> sws_parsed c' v \<and> sws_kept b ?e c'"
      by (rule ctl(1)) (use 4 hr k in \<open>auto simp: defs\<close>)
    then show ?thesis using 4 by (auto simp: sws_opcode_def kept_fields opcode_defs)
  next
    case 5
    have "case sws_close_received ?k of (c', v) \<Rightarrow> sws_parsed c' v \<and> sws_kept b ?k c'"
      by (rule ctl(2)) (use 5 hr k in \<open>auto simp: defs\<close>)
    then show ?thesis using 5 by (auto simp: sws_opcode_def kept_fields opcode_defs)
  next
    case 6
    then show ?thesis using k by (auto simp: sws_opcode_def sws_parsed_def sws_kept_def)
  qed
qed

lemma hdr_bits:
  "x AND 0x7F \<le> 0x7F \<and> (x OR 0x80) AND 0x80 \<noteq> 0 \<and> (x OR 0x80) AND 0x0F = x AND 0x0F" for x :: u8
  by (rule byte_cases_all [of _ x]) code_simp

lemma parse_hdr_ok:
  assumes k: "sws_mid c b" "sws_parts c" "sws_between c"
  shows "\<exists>c' v. sws_parse_hdr c = Some (c', v) \<and> sws_parsed c' v \<and> sws_kept b c c'"
proof (cases "inhdr c ! 0 AND 0x40 \<noteq> 0 \<or> inhdr c ! 0 AND 0x20 \<noteq> 0 \<or> inhdr c ! 0 AND 0x10 \<noteq> 0")
  case True
  then show ?thesis using k by (auto simp: sws_parse_hdr_def sws_parsed_def sws_kept_def)
next
  case False
  let ?m = "inhdr c ! 1 AND FRAME_BITMASK_MASKED" and ?op = "inhdr c ! 0 AND 0x0F" and ?ctl = "inhdr c ! 1 AND 0x7F"
  let ?c1 = "c\<lparr>is_final_frame := inhdr c ! 0 AND FRAME_BITMASK_FIN \<noteq> 0, masked := ?m\<rparr>"
  let ?c2 = "?c1\<lparr>ext_hdr_len := (case mode c of NN_WS_SERVER \<Rightarrow> 4 | NN_WS_CLIENT \<Rightarrow> 0), opcode := ?op, payload_ctl := ?ctl\<rparr>"
  have mid: "sws_kept b c ?c1" "sws_kept b c ?c2" using k by (simp_all add: sws_kept_def sws_mid_def sws_parts_def)
  show ?thesis
  proof (cases "mode c = NN_WS_SERVER \<and> ?m = 0 \<or> mode c = NN_WS_CLIENT \<and> ?m \<noteq> 0 \<or> \<not> continuing c \<and> ?op = NN_WS_OPCODE_FRAGMENT")
    case True
    then show ?thesis using False mid by (cases "mode c") (auto simp: sws_parse_hdr_def sws_parsed_def Let_def)
  next
    case nofail: False
    have ctl: "?ctl \<le> 125 \<or> ?ctl = 0x7E \<or> ?ctl = 0x7F" "?ctl \<le> 0x7F" using ctl_cases [of ?ctl] hdr_bits [of "inhdr c ! 1"] by auto
    let ?c3 = "if continuing c then ?c2 else ?c2\<lparr>inmsg_hdr := inhdr c ! 0 OR FRAME_BITMASK_FIN\<rparr>"
    let ?ext = "if ?ctl \<le> 125 then 0 else if ?ctl = 0x7E then 2 else 8"
    let ?c4 = "?c3\<lparr>ext_hdr_len := ext_hdr_len ?c3 + ?ext\<rparr>"
    have "sws_parse_hdr c = sws_opcode ?c4"
      using False nofail ctl by (cases c; cases "mode c") (auto simp: sws_parse_hdr_def Let_def)
    moreover have "\<exists>c' v. sws_opcode ?c4 = Some (c', v) \<and> sws_parsed c' v \<and> sws_kept b ?c4 c'"
    proof (rule opcode_ok)
      have "hdr_data (inhdr c ! 0 OR FRAME_BITMASK_FIN)" if "data_opcode ?op"
        using that hdr_bits [of "inhdr c ! 0"] by (auto simp: hdr_data_def opcode_defs)
      then show "sws_hdr_read ?c4" using nofail ctl
        by (cases "mode c") (auto simp: sws_hdr_read_def sws_ext_len_def)
    qed (use k in \<open>auto simp: sws_mid_def sws_parts_def sws_between_def\<close>)
    moreover have "sws_kept b ?c4 c' = sws_kept b c c'" for c' by (simp add: sws_kept_def)
    ultimately show ?thesis by simp
  qed
qed

lemma ws_quiet_wconn [simp]: "ws_quiet p (set_wconn p c w) = ws_quiet p w"
  by (simp add: ws_quiet_def)

section \<open>The closing handshake\<close>

lemma close_ok:
  assumes mid: "sws_mid (wconn w p) (pipes w p)" and rm: "rm s p = Some s'" and q: "ws_quiet p w"
    and l: "inmsg_current_chunk_len (wconn w p) \<noteq> 0 \<Longrightarrow> 2 \<le> inmsg_current_chunk_len (wconn w p) \<and> 2 \<le> length (sws_chunk (wconn w p))"
  shows "ws_outcome env p s0 s' (nn_sws_acknowledge_close_handshake rm p (s, w))"
proof -
  note fails = fail_conn_ok [where rm = rm and s = s and s' = s' and env = env and ?s0.0 = s0, OF mid rm q]
  obtain r n where r: "utf8_scan (drop 2 (sws_chunk (wconn w p))) = Some (r, n)" using utf8_scan_stops by metis
  obtain cc where cc: "nn_gets (sws_chunk (wconn w p)) = Some cc" if "inmsg_current_chunk_len (wconn w p) \<noteq> 0"
    using l by (cases "sws_chunk (wconn w p)"; cases "tl (sws_chunk (wconn w p))") (fastforce simp: nn_gets_def)+
  show ?thesis
    using r cc l fails by (auto simp: nn_sws_acknowledge_close_handshake_def Let_def)
qed

section \<open>The payload of a frame\<close>

lemma mid_receives:
  assumes mid: "sws_mid c b" and us: "sw_usock c = Some us" and i: "sws_in_ok c' IN_ASYNC (Some n)"
    and c': "c' = c\<lparr>inmsg_total_size := t, inmsg_chunks := ch, inmsg_current_chunk_buf := bf, inmsg_array := a, sw_instate := i, sw_usock := Some (us\<lparr>us_in := Some n\<rparr>)\<rparr>"
  shows "sws_ok c' b"
  using mid us i unfolding sws_ok_def sws_mid_def c' by simp

lemma start_payload_ok:
  assumes mid: "sws_mid c (pipes w p)" and pt: "sws_parts c" and w: "ws_within env c" and rm: "rm s p = Some s'" and q: "ws_quiet p w" and tb: "length toobig \<le> 100"
    and f: "sws_frame_ok c" "masked c \<noteq> 0 \<longrightarrow> (\<exists>k \<le> 10. mask_off c = Some k)" "0 < inmsg_current_chunk_len c"
    and ctl: "is_control_frame c \<Longrightarrow> inmsg_current_chunk_len c \<le> 125 \<and> (opcode c = NN_WS_OPCODE_CLOSE \<longrightarrow> 2 \<le> inmsg_current_chunk_len c)"
    and len: "inmsg_current_chunk_len c < 2 ^ 63"
  shows "ws_outcome env p s s' (sws_start_payload env rm p toobig c (s, set_wconn p d w))"
proof -
  obtain us where us: "sw_usock c = Some us" "us_in us = None" "pstate (pipes w p) = PIPE_ACTIVE" using mid by (auto simp: sws_mid_def)
  let ?us = "us\<lparr>us_in := Some (unat (inmsg_current_chunk_len c))\<rparr>"
  show ?thesis
  proof (cases "is_control_frame c")
    case True
    let ?c = "c\<lparr>inmsg_total_size := inmsg_total_size c, inmsg_chunks := inmsg_chunks c, inmsg_current_chunk_buf := BUF_CONTROL, inmsg_array := inmsg_array c, sw_instate := SWS_RECV_PAYLOAD, sw_usock := Some ?us\<rparr>"
    have "sws_start_payload env rm p toobig c (s, set_wconn p d w) = Some (s, set_wconn p ?c w)"
      using True us by (cases c) (simp add: sws_start_payload_def nn_usock_recv_def Let_def)
    moreover have "sws_ok ?c (pipes w p)"
      by (rule mid_receives [OF mid us(1) _ refl]) (use pt f ctl [OF True] True in \<open>simp add: sws_in_ok_def sws_parts_def sws_frame_ok_def\<close>)
    ultimately show ?thesis using us(3) by (rule ws_outcome_upd) (use w in \<open>simp add: ws_within_def\<close>)
  next
    case False
    let ?t = "inmsg_total_size c + inmsg_current_chunk_len c"
    have "uint (inmsg_total_size c) < 2147483648" using w by (simp add: ws_within_def)
    moreover have "uint (inmsg_current_chunk_len c) < 2 ^ 63" using len by (simp add: word_less_def)
    ultimately have t: "uint ?t = uint (inmsg_total_size c) + uint (inmsg_current_chunk_len c)" by (simp add: uint_word_ariths)
    then have ut: "unat ?t = unat (inmsg_total_size c) + unat (inmsg_current_chunk_len c)" unfolding unat_eq_nat_uint by (metis nat_add_distrib uint_ge_0)
    let ?c = "c\<lparr>inmsg_total_size := ?t\<rparr>"
    show ?thesis
    proof (cases "uint ?t > rcvmaxsize env")
      case True
      have "ws_outcome env p s s' (nn_sws_fail_conn rm p NN_SWS_CLOSE_ERR_TOOBIG toobig (s, set_wconn p ?c w))"
        by (rule fail_conn_ok) (use mid rm q tb in \<open>auto simp: sws_mid_def\<close>)
      then show ?thesis using True False w by (simp add: sws_start_payload_def ws_within_def Let_def)
    next
      case fits: False
      let ?e = "?c\<lparr>inmsg_chunks := inmsg_chunks c + 1, inmsg_current_chunk_buf := BUF_CHUNK,
        inmsg_array := inmsg_array c @ [replicate (unat (inmsg_current_chunk_len c)) 0], sw_instate := SWS_RECV_PAYLOAD, sw_usock := Some ?us\<rparr>"
      have "can_alloc env (inmsg_current_chunk_len c)" using fits t w uint_ge_0 [of "inmsg_total_size c"] unfolding ws_within_def by (metis add_increasing dual_order.trans le_add_same_cancel2 linorder_not_less)
      then have "sws_start_payload env rm p toobig c (s, set_wconn p d w) = Some (s, set_wconn p ?e w)"
        using fits False us by (simp add: sws_start_payload_def nn_usock_recv_def Let_def)
      moreover have "sws_ok ?e (pipes w p)"
        by (rule mid_receives [OF mid us(1) _ refl]) (use pt f False ut in \<open>simp add: sws_in_ok_def sws_parts_def sws_frame_ok_def\<close>)
      ultimately show ?thesis using us(3) by (rule ws_outcome_upd) (use w fits in \<open>simp add: ws_within_def\<close>)
    qed
  qed
qed

section \<open>Text\<close>

text \<open>A frame of a message whose payload has been read: the message is complete, or more frames follow.\<close>

definition sws_data_read :: "stream_env \<Rightarrow> nn_sws \<Rightarrow> nn_pipebase \<Rightarrow> bool" where
  "sws_data_read env c b \<longleftrightarrow> sws_mid c b \<and> sws_parts c \<and> ws_within env c \<and> hdr_data (inmsg_hdr c) \<and> (\<not> is_final_frame c \<longrightarrow> continuing c)"

lemma data_read_utf8:
  "sws_data_read env c b \<Longrightarrow> length f = 4 \<Longrightarrow> n < 4 \<Longrightarrow> sws_data_read env (c\<lparr>utf8_code_pt_fragment_len := n, utf8_code_pt_fragment := f\<rparr>) b"
  "sws_data_read env c b \<Longrightarrow> length f = 4 \<Longrightarrow> n < 4 \<Longrightarrow> sws_data_read env (c\<lparr>utf8_code_pt_fragment := f, utf8_code_pt_fragment_len := n\<rparr>) b"
  by (simp_all add: sws_data_read_def sws_mid_def sws_parts_def ws_within_def)

lemma data_read_done:
  assumes "sws_data_read env (wconn w p) (pipes w p)"
  shows "is_final_frame (wconn w p) \<Longrightarrow> ws_outcome env p s s' (sws_deliver SWS_RECVD_CHUNKED p (s, w))"
    "\<not> is_final_frame (wconn w p) \<Longrightarrow> ws_outcome env p s s' (sws_recv_next p (s, w))"
  using assms deliver_chunked_ok [of w p env s s'] recv_next_ok [of w p env s s'] by (auto simp: sws_data_read_def sws_between_def)

lemma validate_rest_ok:
  assumes d: "sws_data_read env (wconn w p) (pipes w p)" and rm: "rm s p = Some s'" and q: "ws_quiet p w"
  shows "ws_outcome env p s s' (sws_validate_rest rm p bs (s, w))"
proof -
  let ?c = "wconn w p"
  let ?clear = "?c\<lparr>utf8_code_pt_fragment_len := 0, utf8_code_pt_fragment := replicate 4 0\<rparr>"
  have fl: "utf8_code_pt_fragment_len ?c < 4" "length (utf8_code_pt_fragment ?c) = 4" using d by (simp_all add: sws_data_read_def sws_mid_def)
  have cl: "sws_data_read env ?clear (pipes w p)" by (rule data_read_utf8) (use d in simp_all)
  have fails: "ws_outcome env p s s' (nn_sws_fail_conn rm p code reason (s, set_wconn p c w))" if "sws_data_read env c (pipes w p)" "length reason \<le> 100" for c code reason
    by (rule fail_conn_ok) (use that rm q in \<open>simp_all add: sws_data_read_def\<close>)
  have next_frame: "ws_outcome env p s s' (sws_recv_next p (s, set_wconn p c w))" if "sws_data_read env c (pipes w p)" "\<not> is_final_frame c" for c
    using data_read_done(2) [of env "set_wconn p c w" p] that by simp
  have complete: "ws_outcome env p s s' (sws_deliver SWS_RECVD_CHUNKED p (s, set_wconn p c w))" if "sws_data_read env c (pipes w p)" "is_final_frame c" for c
    using data_read_done(1) [of env "set_wconn p c w" p] that by simp
  obtain r n where r: "utf8_scan bs = Some (r, n)" "r = [] \<or> n = NN_SWS_UTF8_INVALID \<or> n = NN_SWS_UTF8_FRAGMENT \<and> length r < 4"
    using utf8_scan_stops [of bs] by auto
  show ?thesis
  proof (cases "r = [] \<or> n = NN_SWS_UTF8_INVALID")
    case True
    then show ?thesis using r fl(1) fails [OF cl] next_frame [OF cl] complete [OF cl] by (auto simp: sws_validate_rest_def Let_def)
  next
    case False
    let ?keep = "?c\<lparr>utf8_code_pt_fragment_len := length r, utf8_code_pt_fragment := poke (utf8_code_pt_fragment ?c) 0 r\<rparr>"
    have "length r < 4" using r(2) False by auto
    then have kp: "sws_data_read env ?keep (pipes w p)" by (intro data_read_utf8) (use d fl in \<open>simp_all add: length_poke\<close>)
    show ?thesis using r fl(1) False \<open>length r < 4\<close> fails [OF kp] next_frame [OF kp] by (auto simp: sws_validate_rest_def Let_def)
  qed
qed

lemma validate_ok:
  assumes d: "sws_data_read env (wconn w p) (pipes w p)" and rm: "rm s p = Some s'" and q: "ws_quiet p w" and f: "utf8_code_pt_fragment_len (wconn w p) \<noteq> 3"
  shows "ws_outcome env p s s' (nn_sws_validate_utf8_chunk rm p (s, w))"
proof (cases "utf8_code_pt_fragment_len (wconn w p) \<noteq> 0 \<and> sws_chunk (wconn w p) \<noteq> []")
  case False
  then show ?thesis using validate_rest_ok [where rm = rm and s = s and s' = s', OF d rm q] by (auto simp: nn_sws_validate_utf8_chunk_def Let_def)
next
  case True
  let ?n = "utf8_code_pt_fragment_len (wconn w p)" and ?f = "utf8_code_pt_fragment (wconn w p)"
  let ?c = "(wconn w p)\<lparr>utf8_code_pt_fragment := ?f[?n := hd (sws_chunk (wconn w p))], utf8_code_pt_fragment_len := ?n + 1\<rparr>"
  have n: "?n < 3" "length ?f = 4" using d f by (auto simp: sws_data_read_def sws_mid_def)
  have d': "sws_data_read env (wconn (set_wconn p ?c w) p) (pipes (set_wconn p ?c w) p)"
    using data_read_utf8(2) [OF d, of "?f[?n := hd (sws_chunk (wconn w p))]" "?n + 1"] n by simp
  have fails: "ws_outcome env p s s' (nn_sws_fail_conn rm p code reason (s, set_wconn p ?c w))" if "length reason \<le> 100" for code reason
    by (rule fail_conn_ok) (use that rm q d' in \<open>simp_all add: sws_data_read_def\<close>)
  note rest = validate_rest_ok [where rm = rm and s = s and s' = s', OF d' rm] and next_frame = data_read_done(2) [OF d']
  obtain m where "nn_utf8_code_point (take (?n + 1) (?f[?n := hd (sws_chunk (wconn w p))])) = Some m"
    using code_point_range by metis
  then show ?thesis
    using True n(1) fails rest q next_frame by (auto simp: nn_sws_validate_utf8_chunk_def Let_def simp del: take_update_cancel)
qed

section \<open>What was read\<close>

lemma ok_mid:
  assumes ok: "sws_ok c b" and a: "pstate b = PIPE_ACTIVE" "instate b = IN_ASYNC" and us: "sw_usock c = Some us"
  shows "sws_mid (c\<lparr>sw_usock := Some (us\<lparr>us_in := None\<rparr>)\<rparr>) b" "sws_parts (c\<lparr>sw_usock := Some (us\<lparr>us_in := None\<rparr>)\<rparr>)"
  using sws_okD(1-7) [OF ok] sws_okD(10) [OF ok us] a sws_okD(9) [OF ok us] by (simp_all add: sws_mid_def sws_parts_def sws_in_ok_def)

lemma mid_hdr: "sws_mid c b \<Longrightarrow> length h = 14 \<Longrightarrow> sws_mid (c\<lparr>inhdr := h\<rparr>) b" "sws_parts (c\<lparr>inhdr := h\<rparr>) = sws_parts c"
  by (simp_all add: sws_mid_def sws_parts_def)

lemma frame_ok_fields [simp]:
  "sws_frame_ok (c\<lparr>inmsg_current_chunk_len := n\<rparr>) = sws_frame_ok c" "sws_frame_ok (c\<lparr>mask_off := m\<rparr>) = sws_frame_ok c"
  "sws_frame_ok (c\<lparr>sw_instate := i\<rparr>) = sws_frame_ok c" "sws_frame_ok (c\<lparr>sw_usock := u\<rparr>) = sws_frame_ok c"
  "h ! 0 = inhdr c ! 0 \<Longrightarrow> sws_frame_ok (c\<lparr>inhdr := h\<rparr>) = sws_frame_ok c"
  by (simp_all add: sws_frame_ok_def)

lemma ctl_len:
  "0 < x \<and> x \<le> 125 \<longrightarrow> (0::u64) < ucast x \<and> (ucast x :: u64) \<le> 125 \<and> (ucast x :: u64) < 9223372036854775808 \<and> (x \<noteq> 1 \<longrightarrow> (2::u64) \<le> ucast x)" for x :: u8
  by (rule byte_cases_all [of _ x]) code_simp

lemma recvd_hdr_ok:
  assumes mid: "sws_mid (wconn w p) (pipes w p)" "sws_parts (wconn w p)" "sws_between (wconn w p)" and wi: "ws_within env (wconn w p)"
    and rm: "rm s p = Some s'" and q: "ws_quiet p w" and bs: "length bs = 2"
  shows "ws_outcome env p s s' (sws_recvd_hdr env rm p bs (s, w))"
proof -
  let ?c = "(wconn w p)\<lparr>inhdr := poke (inhdr (wconn w p)) 0 bs\<rparr>"
  have "length (inhdr (wconn w p)) = 14" using mid(1) by (simp add: sws_mid_def)
  then have "sws_mid ?c (pipes w p)" "sws_parts ?c" "sws_between ?c" using mid bs by (simp_all add: mid_hdr length_poke sws_between_def)
  then obtain c v where c: "sws_parse_hdr ?c = Some (c, v)" "sws_parsed c v" "sws_kept (pipes w p) ?c c" using parse_hdr_ok by blast
  let ?w = "set_wconn p c w"
  have k: "sws_mid (wconn ?w p) (pipes ?w p)" "sws_parts (wconn ?w p)" "ws_within env (wconn ?w p)" "ws_quiet p ?w"
    using c(3) wi q by (simp_all add: sws_kept_def ws_within_def)
  show ?thesis
  proof (cases v)
    case (SWS_FAIL code reason)
    then show ?thesis using c fail_conn_ok [where rm = rm and s = s and s' = s', OF k(1) rm k(4)] by (simp add: sws_recvd_hdr_def sws_parsed_def)
  next
    case SWS_NEXT
    then show ?thesis using c recv_next_ok [OF k(1,2) _ k(3)] by (simp add: sws_recvd_hdr_def sws_parsed_def sws_between_def)
  next
    case SWS_MESSAGE
    then show ?thesis using c deliver_chunked_ok [OF k(1,2) _ _ k(3)] by (simp add: sws_recvd_hdr_def sws_parsed_def)
  next
    case SWS_CONTROL
    then show ?thesis using c deliver_control_ok [OF k(1,2) _ _ _ _ k(3)] by (simp add: sws_recvd_hdr_def sws_parsed_def)
  next
    case SWS_CLOSE
    then show ?thesis using c close_ok [where rm = rm and s = s and s' = s', OF k(1) rm k(4)] by (simp add: sws_recvd_hdr_def sws_parsed_def)
  next
    case SWS_MORE
    then have m: "sws_frame_ok c" "payload_ctl c \<le> 0x7F" "ext_hdr_len c = sws_ext_len c" "ext_hdr_len c = 0 \<longrightarrow> 0 < payload_ctl c \<and> mode c = NN_WS_CLIENT"
      using c(2) by (simp_all add: sws_parsed_def)
    obtain us where us: "sw_usock c = Some us" "us_in us = None" "pstate (pipes w p) = PIPE_ACTIVE" using k(1) by (auto simp: sws_mid_def)
    show ?thesis
    proof (cases "ext_hdr_len c = 0")
      case True
      let ?d = "c\<lparr>inmsg_current_chunk_len := ucast (payload_ctl c)\<rparr>"
      have e: "masked c = 0" "payload_ctl c \<le> 125" using True m(3) by (auto simp: sws_ext_len_def split: if_splits)
      have "sws_recvd_hdr env rm p bs (s, w) = sws_start_payload env rm p ''Message larger than application allows.'' ?d (s, set_wconn p c w)"
        using SWS_MORE c(1) True m(4) e(2) by (simp add: sws_recvd_hdr_def)
      moreover have "ws_outcome env p s s' (sws_start_payload env rm p ''Message larger than application allows.'' ?d (s, set_wconn p c w))"
      proof (rule start_payload_ok)
        show "sws_mid ?d (pipes w p)" "sws_parts ?d" "ws_within env ?d" using k by (simp_all add: sws_mid_def sws_parts_def ws_within_def)
        show "sws_frame_ok ?d" "masked ?d \<noteq> 0 \<longrightarrow> (\<exists>k \<le> 10. mask_off ?d = Some k)" using m(1) e(1) by simp_all
        show "0 < inmsg_current_chunk_len ?d" "inmsg_current_chunk_len ?d < 2 ^ 63" using ctl_len [of "payload_ctl c"] m(4) True e(2) by simp_all
        show "inmsg_current_chunk_len ?d \<le> 125 \<and> (opcode ?d = NN_WS_OPCODE_CLOSE \<longrightarrow> 2 \<le> inmsg_current_chunk_len ?d)" if "is_control_frame ?d"
          using that ctl_len [of "payload_ctl c"] m(1,4) True e(2) by (auto simp: sws_frame_ok_def)
      qed (use rm q in simp_all)
      ultimately show ?thesis by simp
    next
      case False
      let ?d = "c\<lparr>sw_instate := SWS_RECV_HDREXT, sw_usock := Some (us\<lparr>us_in := Some (ext_hdr_len c)\<rparr>)\<rparr>"
      have "sws_recvd_hdr env rm p bs (s, w) = Some (s, set_wconn p ?d w)"
        using SWS_MORE c(1) False us by (simp add: sws_recvd_hdr_def nn_usock_recv_def)
      moreover have "sws_in_ok ?d IN_ASYNC (Some (ext_hdr_len c))" using k False m(1,2) m(3) [unfolded sws_ext_len_def] by (simp add: sws_in_ok_def sws_parts_def)
      then have "sws_ok ?d (pipes w p)" using k(1) us(1) unfolding sws_ok_def sws_mid_def by simp
      ultimately show ?thesis using us(3) by (rule ws_outcome_upd) (use k(3) in \<open>simp add: ws_within_def\<close>)
    qed
  qed
qed

lemma parse_ext_ok:
  assumes h: "length (inhdr c) = 14" and ctl: "payload_ctl c \<le> 0x7F" and bs: "length bs = sws_ext_len c"
    and msb: "\<And>len. payload_ctl c = 0x7F \<Longrightarrow> nn_getll bs = Some len \<Longrightarrow> len < 2 ^ 63"
  shows "\<exists>n m. sws_parse_ext (c\<lparr>inhdr := poke (inhdr c) 2 bs\<rparr>) = Some (c\<lparr>inhdr := poke (inhdr c) 2 bs, inmsg_current_chunk_len := n, mask_off := m\<rparr>) \<and>
    (masked c \<noteq> 0 \<longrightarrow> (\<exists>k \<le> 10. m = Some k)) \<and> n < 2 ^ 63 \<and> (payload_ctl c \<le> 125 \<longrightarrow> n = ucast (payload_ctl c))"
proof -
  have d: "drop 2 (poke (inhdr c) 2 bs) = bs @ drop (2 + length bs) (inhdr c)" using drop_poke2 [OF h, of bs] bs by (simp add: sws_ext_len_def split: if_splits)
  consider "payload_ctl c \<le> 125" | "payload_ctl c = 0x7E" | "payload_ctl c = 0x7F" using ctl_cases ctl by blast
  then show ?thesis
  proof cases
    case 1
    have "payload_ctl c \<le> 125 \<longrightarrow> (ucast (payload_ctl c) :: u64) < 9223372036854775808" by (rule byte_cases_all [of _ "payload_ctl c"]) code_simp
    then show ?thesis using 1 by (intro exI [of _ "ucast (payload_ctl c)"] exI [of _ "if masked c \<noteq> 0 then Some 2 else None"]) (simp add: sws_parse_ext_def)
  next
    case 2
    then have "2 \<le> length bs" using bs by (simp add: sws_ext_len_def)
    then obtain v where "nn_gets (bs @ drop (2 + length bs) (inhdr c)) = Some v" by (simp add: nn_gets_def)
    moreover have "(ucast v :: u64) < 9223372036854775808" using unsigned_less [of v, where 'a = nat] by (simp add: word_less_nat_alt unsigned_ucast_eq take_bit_nat_eq_self)
    ultimately show ?thesis using 2 d by (intro exI [of _ "ucast v"] exI [of _ "if masked c \<noteq> 0 then Some 4 else None"]) (simp add: sws_parse_ext_def)
  next
    case 3
    then have l: "8 \<le> length bs" using bs by (simp add: sws_ext_len_def)
    then obtain v where v: "nn_getll bs = Some v" by (simp add: nn_getll_def)
    then have "nn_getll (bs @ drop (2 + length bs) (inhdr c)) = Some v" using l by (auto simp: nn_getll_def nth_append)
    then show ?thesis using 3 d msb [OF 3 v] by (intro exI [of _ v] exI [of _ "if masked c \<noteq> 0 then Some 10 else None"]) (simp add: sws_parse_ext_def)
  qed
qed

lemma recvd_hdrext_ok:
  assumes mid: "sws_mid (wconn w p) (pipes w p)" "sws_parts (wconn w p)" and wi: "ws_within env (wconn w p)" and rm: "rm s p = Some s'" and q: "ws_quiet p w"
    and f: "sws_frame_ok (wconn w p)" "payload_ctl (wconn w p) \<le> 0x7F" "ext_hdr_len (wconn w p) = sws_ext_len (wconn w p)" "0 < ext_hdr_len (wconn w p)"
    and bs: "length bs = sws_ext_len (wconn w p)" and msb: "\<And>len. payload_ctl (wconn w p) = 0x7F \<Longrightarrow> nn_getll bs = Some len \<Longrightarrow> len < 2 ^ 63"
  shows "ws_outcome env p s s' (sws_recvd_hdrext env rm p bs (s, w))"
proof -
  let ?h = "poke (inhdr (wconn w p)) 2 bs"
  have h: "length (inhdr (wconn w p)) = 14" using mid(1) by (simp add: sws_mid_def)
  then have h': "length ?h = 14" "?h ! 0 = inhdr (wconn w p) ! 0" using bs by (auto simp: sws_ext_len_def poke_def nth_append split: if_splits)
  obtain n m where nm: "sws_parse_ext ((wconn w p)\<lparr>inhdr := ?h\<rparr>) = Some ((wconn w p)\<lparr>inhdr := ?h, inmsg_current_chunk_len := n, mask_off := m\<rparr>)"
    "masked (wconn w p) \<noteq> 0 \<longrightarrow> (\<exists>k \<le> 10. m = Some k)" "n < 2 ^ 63" "payload_ctl (wconn w p) \<le> 125 \<longrightarrow> n = ucast (payload_ctl (wconn w p))"
    using parse_ext_ok [OF h f(2) bs msb] by blast
  let ?c = "(wconn w p)\<lparr>inhdr := ?h, inmsg_current_chunk_len := n, mask_off := m\<rparr>"
  let ?w = "set_wconn p ?c w"
  have k: "sws_mid (wconn ?w p) (pipes ?w p)" "sws_parts (wconn ?w p)" "ws_within env (wconn ?w p)" "ws_quiet p ?w" "sws_frame_ok (wconn ?w p)"
    using mid wi q f(1) h' by (simp_all add: sws_mid_def sws_parts_def ws_within_def)
  have ctl: "payload_ctl (wconn w p) \<le> 125 \<or> payload_ctl (wconn w p) = 0x7E \<or> payload_ctl (wconn w p) = 0x7F" using f(2) ctl_cases by blast
  show ?thesis
  proof (cases "n = 0")
    case True
    have eq: "sws_recvd_hdrext env rm p bs (s, w) = (if is_final_frame (wconn w p) then
        (if opcode (wconn w p) = NN_WS_OPCODE_CLOSE then nn_sws_acknowledge_close_handshake rm p (s, ?w)
         else sws_deliver (if is_control_frame (wconn w p) then SWS_RECVD_CONTROL else SWS_RECVD_CHUNKED) p (s, ?w)) else sws_recv_next p (s, ?w))"
      using True nm(1) f(4) ctl by (auto simp: sws_recvd_hdrext_def Let_def)
    have cl: "ws_outcome env p s s' (nn_sws_acknowledge_close_handshake rm p (s, ?w))" using close_ok [where rm = rm and s = s and s' = s', OF k(1) rm k(4)] True by simp
    have fo: "sws_frame_ok (wconn w p)" by (rule f(1))
    show ?thesis unfolding eq
      using cl fo deliver_control_ok [where s = s and s' = s', OF k(1,2,5) _ _ _ k(3)] deliver_chunked_ok [where s = s and s' = s', OF k(1,2) _ _ k(3)]
        recv_next_ok [where s = s and s' = s', OF k(1,2) _ k(3)] True
      by (auto simp: sws_frame_ok_def sws_between_def)
  next
    case False
    have "ws_outcome env p s s' (sws_start_payload env rm p ''Message size exceeds limit.'' ?c (s, set_wconn p ?c w))"
    proof (rule start_payload_ok)
      show "0 < inmsg_current_chunk_len ?c" using False by (simp add: word_neq_0_conv)
      show "inmsg_current_chunk_len ?c \<le> 125 \<and> (opcode ?c = NN_WS_OPCODE_CLOSE \<longrightarrow> 2 \<le> inmsg_current_chunk_len ?c)" if "is_control_frame ?c"
      proof -
        have "payload_ctl (wconn w p) \<le> 125" "opcode (wconn w p) = NN_WS_OPCODE_CLOSE \<longrightarrow> payload_ctl (wconn w p) \<noteq> 1" using that f(1) by (simp_all add: sws_frame_ok_def)
        moreover from this have "0 < payload_ctl (wconn w p)" using nm(4) False by (auto simp: word_gt_0)
        ultimately show ?thesis using nm(4) ctl_len [of "payload_ctl (wconn w p)"] by simp
      qed
    qed (use k rm q nm in simp_all)
    then show ?thesis using False nm(1) f(4) ctl by (auto simp: sws_recvd_hdrext_def Let_def)
  qed
qed

lemma unmask_ok:
  assumes "masked c \<noteq> 0 \<longrightarrow> (\<exists>k \<le> 10. mask_off c = Some k)" "int (length bs) < 4294967296"
  shows "\<exists>bs'. sws_unmask c bs = Some bs' \<and> length bs' = length bs"
  using assms(1) by (auto simp: sws_unmask_def mask_payload_ok [OF assms(2)])

text \<open>The state after a chunk has been stored.\<close>

lemma store_ok:
  assumes mid: "sws_mid c b" "sws_parts c" and len: "length bs = unat (inmsg_current_chunk_len c)"
    and f: "if is_control_frame c then inmsg_current_chunk_buf c = BUF_CONTROL \<and> inmsg_current_chunk_len c \<le> 125
      else inmsg_current_chunk_buf c = BUF_CHUNK \<and> inmsg_array c \<noteq> [] \<and> length (last (inmsg_array c)) = unat (inmsg_current_chunk_len c)"
  obtains ic a where "sws_store c bs = c\<lparr>inmsg_control := ic, inmsg_array := a\<rparr>" "sws_mid (sws_store c bs) b" "sws_parts (sws_store c bs)" "length (sws_chunk (sws_store c bs)) = length bs"
    "is_control_frame c \<Longrightarrow> a = inmsg_array c"
proof (cases "is_control_frame c")
  case True
  then have l: "length bs \<le> 125" "inmsg_current_chunk_buf c = BUF_CONTROL" using f len by (simp_all add: word_le_nat_alt)
  have "length (inmsg_control c) = 125" using mid by (simp add: sws_mid_def)
  then show thesis using l True mid len that [of "inmsg_array c" "poke (inmsg_control c) 0 bs"]
    by (simp add: sws_store_def sws_mid_def sws_parts_def sws_chunk_def length_poke)
next
  case False
  let ?a = "butlast (inmsg_array c) @ [bs]"
  have "inmsg_array c = butlast (inmsg_array c) @ [last (inmsg_array c)]" "length (last (inmsg_array c)) = length bs" using f False len by simp_all
  then have "length (concat ?a) = length (concat (inmsg_array c))" by (metis concat_append concat.simps length_append append_Nil2)
  then show thesis using False f mid len that [of ?a "inmsg_control c"]
    by (simp add: sws_store_def sws_mid_def sws_parts_def sws_chunk_def)
qed

lemma recvd_payload_ok:
  assumes mid: "sws_mid (wconn w p) (pipes w p)" "sws_parts (wconn w p)" and wi: "ws_within env (wconn w p)" and rm: "rm s p = Some s'" and q: "ws_quiet p w"
    and fr: "sws_frame_ok (wconn w p)" "masked (wconn w p) \<noteq> 0 \<longrightarrow> (\<exists>k \<le> 10. mask_off (wconn w p) = Some k)" "0 < inmsg_current_chunk_len (wconn w p)"
    and f: "if is_control_frame (wconn w p) then inmsg_current_chunk_buf (wconn w p) = BUF_CONTROL \<and> inmsg_current_chunk_len (wconn w p) \<le> 125 
      else inmsg_current_chunk_buf (wconn w p) = BUF_CHUNK \<and> inmsg_array (wconn w p) \<noteq> [] \<and> length (last (inmsg_array (wconn w p))) = unat (inmsg_current_chunk_len (wconn w p))"
    and cl: "is_control_frame (wconn w p) \<and> opcode (wconn w p) = NN_WS_OPCODE_CLOSE \<longrightarrow> 2 \<le> inmsg_current_chunk_len (wconn w p)"
    and bs: "length bs = unat (inmsg_current_chunk_len (wconn w p))" and u: "utf8_code_pt_fragment_len (wconn w p) \<noteq> 3"
  shows "ws_outcome env p s s' (sws_recvd_payload rm p bs (s, w))"
proof -
  let ?c = "wconn w p"
  have "length bs \<le> 125 \<or> length bs \<le> unat (inmsg_total_size ?c)"
  proof (cases "is_control_frame ?c")
    case True
    then show ?thesis using f bs by (simp add: word_le_nat_alt)
  next
    case False
    then have "inmsg_array ?c = butlast (inmsg_array ?c) @ [last (inmsg_array ?c)]" "length (last (inmsg_array ?c)) = length bs" using f bs by simp_all
    then show ?thesis using mid(2) unfolding sws_parts_def by (metis concat_append concat.simps(1,2) length_append append_Nil2 le_add2)
  qed
  moreover have "int (unat (inmsg_total_size ?c)) < 2147483648" using wi by (simp add: ws_within_def)
  ultimately have short: "int (length bs) < 4294967296" by linarith
  obtain bs' where bs': "sws_unmask ?c bs = Some bs'" "length bs' = unat (inmsg_current_chunk_len ?c)" using unmask_ok [OF fr(2) short] bs by auto
  from store_ok [OF mid bs'(2) f] obtain ic a where st: "sws_store ?c bs' = ?c\<lparr>inmsg_control := ic, inmsg_array := a\<rparr>" "sws_mid (sws_store ?c bs') (pipes w p)"
    "sws_parts (sws_store ?c bs')" "length (sws_chunk (sws_store ?c bs')) = length bs'" "is_control_frame ?c \<Longrightarrow> a = inmsg_array ?c" by blast
  let ?d = "?c\<lparr>inmsg_control := ic, inmsg_array := a\<rparr>"
  let ?w = "set_wconn p ?d w"
  have k: "sws_mid (wconn ?w p) (pipes ?w p)" "sws_parts (wconn ?w p)" "ws_within env (wconn ?w p)" "ws_quiet p ?w"
    using st(2,3) wi q unfolding st(1) by (simp_all add: ws_within_def)
  let ?text = "opcode ?c = NN_WS_OPCODE_TEXT \<or> opcode ?c = NN_WS_OPCODE_FRAGMENT \<and> inmsg_hdr ?c AND 0x0F = NN_WS_OPCODE_TEXT"
  show ?thesis
  proof (cases "is_control_frame ?c")
    case False
    then have op: "opcode ?c \<in> {NN_WS_OPCODE_TEXT, NN_WS_OPCODE_BINARY, NN_WS_OPCODE_FRAGMENT}" and dr: "sws_data_read env (wconn ?w p) (pipes ?w p)"
      using fr(1) k by (auto simp: sws_frame_ok_def sws_data_read_def)
    have eq: "sws_recvd_payload rm p bs (s, w) = (if ?text then nn_sws_validate_utf8_chunk rm p (s, ?w)
        else if is_final_frame ?c then sws_deliver SWS_RECVD_CHUNKED p (s, ?w) else sws_recv_next p (s, ?w))"
      using bs'(1) st(1) op by (auto simp: sws_recvd_payload_def Let_def)
    show ?thesis unfolding eq using validate_ok [where rm = rm and s = s and s' = s', OF dr rm k(4)] data_read_done [OF dr, where s = s and s' = s'] u by simp
  next
    case True
    then have op: "opcode ?c \<in> {NN_WS_OPCODE_PING, NN_WS_OPCODE_PONG, NN_WS_OPCODE_CLOSE}" using fr(1) by (simp add: sws_frame_ok_def)
    have eq: "sws_recvd_payload rm p bs (s, w) = (if opcode ?c = NN_WS_OPCODE_CLOSE then nn_sws_acknowledge_close_handshake rm p (s, ?w) else sws_deliver SWS_RECVD_CONTROL p (s, ?w))"
      using bs'(1) st(1) op by (auto simp: sws_recvd_payload_def opcode_defs Let_def)
    have "sws_frame_ok ?d" "inmsg_current_chunk_len ?c \<le> 125" using fr(1) f True st(5) by (simp_all add: sws_frame_ok_def)
    then have ctl: "ws_outcome env p s s' (sws_deliver SWS_RECVD_CONTROL p (s, ?w))" if "opcode ?c \<noteq> NN_WS_OPCODE_CLOSE"
      using that deliver_control_ok [where s = s and s' = s', OF k(1,2) _ _ _ _ k(3)] True by simp
    have "2 \<le> length (sws_chunk ?d)" if "2 \<le> inmsg_current_chunk_len ?c" using that st(1,4) bs'(2) by (simp add: word_le_nat_alt)
    then have cls: "ws_outcome env p s s' (nn_sws_acknowledge_close_handshake rm p (s, ?w))" if "opcode ?c = NN_WS_OPCODE_CLOSE"
      using that cl True close_ok [where rm = rm and s = s and s' = s', OF k(1) rm k(4)] by simp
    show ?thesis unfolding eq using ctl cls by simp
  qed
qed

section \<open>Any bytes of a peer\<close>

lemma in_ok_recv:
  assumes "sws_in_ok c i (Some n)"
  shows "i = IN_ASYNC" "sw_instate c = SWS_RECV_HDR \<or> sw_instate c = SWS_RECV_HDREXT \<or> sw_instate c = SWS_RECV_PAYLOAD"
  using assms by (cases "sw_instate c"; simp add: sws_in_ok_def)+

text \<open>
  C5: Whatever bytes a peer sends, a WebSocket connection that satisfies its invariant takes the
  next step without an abort: it satisfies its invariant again, with its pipe in use and its message
  within the limit, or it is closed in an orderly way, that is, its pipe is taken from the socket
  and either a close frame is on its way or the owner is told.  The
  limit on messages has to be in force, a length of eight bytes has to have its top bit clear as RFC
  6455 demands, and of a code point of a text in several frames not exactly three bytes may be in
  the frames before.
\<close>

theorem sws_peer_safe:
  assumes ok: "wconn_ok w p" and a: "pstate (pipes w p) = PIPE_ACTIVE" and us: "sw_usock (wconn w p) = Some us" "us_in us = Some (length bs)"
    and wi: "ws_within env (wconn w p)" and rm: "rm s p = Some s'" and q: "ws_quiet p w" and u: "utf8_code_pt_fragment_len (wconn w p) \<noteq> 3"
    and msb: "\<And>len. payload_ctl (wconn w p) = 0x7F \<Longrightarrow> nn_getll bs = Some len \<Longrightarrow> len < 2 ^ 63"
  shows "ws_outcome env p s s' (sws_usock_event env add rm p (NN_USOCK_RECEIVED bs) (s, w))"
proof -
  let ?c = "(wconn w p)\<lparr>sw_usock := Some (us\<lparr>us_in := None\<rparr>)\<rparr>"
  let ?w = "set_wconn p ?c w"
  have i: "sws_in_ok (wconn w p) (instate (pipes w p)) (Some (length bs))" using sws_okD(9) [OF ok us(1)] us(2) by simp
  note as = in_ok_recv [OF i]
  have k: "sws_mid (wconn ?w p) (pipes ?w p)" "sws_parts (wconn ?w p)" "ws_within env (wconn ?w p)" "ws_quiet p ?w"
    using ok_mid [OF ok a as(1) us(1)] wi q by (simp_all add: ws_within_def)
  have ev: "sws_usock_event env add rm p (NN_USOCK_RECEIVED bs) (s, w) = sws_received env rm p bs (s, ?w)"
    by (rule sws_event_received [OF sws_okD(1,2) [OF ok] us(1)])
  show ?thesis
  proof (cases "sw_instate (wconn w p)")
    case SWS_RECV_HDR
    then have "sws_between (wconn ?w p)" "length bs = 2" using i by (simp_all add: sws_in_ok_def sws_between_def)
    then show ?thesis using recvd_hdr_ok [where rm = rm and s = s and s' = s', OF k(1,2) _ k(3) rm k(4)] SWS_RECV_HDR by (simp add: ev sws_received_def)
  next
    case SWS_RECV_HDREXT
    have e: "ext_hdr_len (wconn w p) = sws_ext_len (wconn w p)" "0 < ext_hdr_len (wconn w p)" "length bs = ext_hdr_len (wconn w p)"
      "sws_frame_ok (wconn w p)" "payload_ctl (wconn w p) \<le> 0x7F"
      using i [unfolded sws_in_ok_def SWS_RECV_HDREXT sws_instate.case] unfolding sws_ext_len_def by blast+
    have "sws_ext_len (wconn ?w p) = sws_ext_len (wconn w p)" by (simp add: sws_ext_len_def)
    then have f: "sws_frame_ok (wconn ?w p)" "payload_ctl (wconn ?w p) \<le> 0x7F" "ext_hdr_len (wconn ?w p) = sws_ext_len (wconn ?w p)" "0 < ext_hdr_len (wconn ?w p)"
      "length bs = sws_ext_len (wconn ?w p)" using e by simp_all
    show ?thesis
      using recvd_hdrext_ok [where rm = rm and s = s and s' = s', OF k(1-3) rm k(4) f] msb SWS_RECV_HDREXT by (simp add: ev sws_received_def)
  next
    case SWS_RECV_PAYLOAD
    then show ?thesis
      using recvd_payload_ok [where rm = rm and s = s and s' = s' and bs = bs, OF k(1-3) rm k(4)] i u by (simp add: ev sws_received_def sws_in_ok_def)
  qed (use as(2) in simp_all)
qed

section \<open>The operations of the socket\<close>

lemma in_ok_idle:
  assumes "sws_in_ok c IN_IDLE n"
  obtains "sw_instate c = SWS_RECVD_CHUNKED" "n = None" "is_final_frame c" "hdr_data (inmsg_hdr c)" "unat (inmsg_total_size c) = length (concat (inmsg_array c))"
  | "sw_instate c = SWS_RECVD_CONTROL" "n = None" "is_final_frame c" "inhdr c ! 0 AND FRAME_BITMASK_FIN \<noteq> 0"
    "inhdr c ! 0 AND 0x0F = NN_WS_OPCODE_PING \<or> inhdr c ! 0 AND 0x0F = NN_WS_OPCODE_PONG" "inmsg_current_chunk_len c \<le> 125" "\<not> continuing c \<Longrightarrow> inmsg_array c = []"
    "continuing c \<Longrightarrow> hdr_data (inmsg_hdr c)" "unat (inmsg_total_size c) = length (concat (inmsg_array c))"
  using assms by (cases "sw_instate c") (auto simp: sws_in_ok_def)

definition ws_others :: "pid \<Rightarrow> wworld \<Rightarrow> wworld \<Rightarrow> bool" where
  "ws_others p w w' \<longleftrightarrow> (\<forall>q. pstate (pipes w' q) = pstate (pipes w q)) \<and>
     (\<forall>q. q \<noteq> p \<longrightarrow> wconn w' q = wconn w q \<and> instate (pipes w' q) = instate (pipes w q) \<and> outstate (pipes w' q) = outstate (pipes w q))"

lemma ws_inv_others: "ws_inv w \<Longrightarrow> ws_others p w w' \<Longrightarrow> wconn_ok w' p \<Longrightarrow> ws_inv w'"
  unfolding ws_inv_def
proof (intro allI impI)
  fix q assume a: "\<forall>q. active_pipe w q \<longrightarrow> wconn_ok w q" "ws_others p w w'" "wconn_ok w' p" "active_pipe w' q"
  then show "wconn_ok w' q" by (cases "q = p") (simp_all add: ws_others_def sws_ok_def)
qed

lemma low_bits_fin: "(x AND NOT FRAME_BITMASK_FIN) AND 0x0F = x AND 0x0F" for x :: u8
  using low_bits [of x] by (simp only: and.assoc FRAME_BITMASK_FIN_def)

lemma sws_recv_ok:
  assumes ok: "wconn_ok w p" and r: "can_recv w p"
  shows "\<exists>m w'. nn_pipe_recv nn_sws_pipebase_vfptr w p = Some (NN_PIPE_RELEASE, m, w') \<and> sphdr m = [] \<and> length (hdrs m) = 24 \<and> wconn_ok w' p \<and>
    ws_others p w w'"
proof -
  obtain us where us: "sw_usock (wconn w p) = Some us" using sws_okD(8) [OF ok] by auto
  note o = sws_okD(1-7) [OF ok] sws_okD(10) [OF ok us]
  have "sws_in_ok (wconn w p) IN_IDLE (us_in us)" using sws_okD(9) [OF ok us] r by simp
  then show ?thesis
  proof (cases rule: in_ok_idle)
    case 1
    then have "inmsg_hdr (wconn w p) AND FRAME_BITMASK_FIN \<noteq> 0"
      "(inmsg_hdr (wconn w p) AND NOT FRAME_BITMASK_FIN) AND 0x0F = NN_WS_OPCODE_BINARY \<or> (inmsg_hdr (wconn w p) AND NOT FRAME_BITMASK_FIN) AND 0x0F = NN_WS_OPCODE_TEXT"
      using low_bits_fin [of "inmsg_hdr (wconn w p)"] by (simp_all add: hdr_data_def)
    then show ?thesis using o us r 1(1-3,5)
      by (auto simp: nn_pipe_recv_def nn_sws_pipebase_vfptr_def nn_sws_recv_def nn_sws_recv_hdr_def nn_usock_recv_def ws_cmsg_def le_bytes_def ws_others_def Let_def sws_ok_def sws_in_ok_def)
  next
    case 2
    then have "(inhdr (wconn w p) ! 0 AND NOT FRAME_BITMASK_FIN) AND 0x0F = NN_WS_OPCODE_PING \<or> (inhdr (wconn w p) ! 0 AND NOT FRAME_BITMASK_FIN) AND 0x0F = NN_WS_OPCODE_PONG"
      "unat (inmsg_current_chunk_len (wconn w p)) \<le> 125"
      using low_bits_fin [of "inhdr (wconn w p) ! 0"] by (simp_all add: word_le_nat_alt)
    then show ?thesis using o us r 2(1-4,7-9)
      by (cases "continuing (wconn w p)") (auto simp: nn_pipe_recv_def nn_sws_pipebase_vfptr_def nn_sws_recv_def nn_sws_recv_hdr_def nn_usock_recv_def ws_cmsg_def le_bytes_def
          ws_others_def Let_def sws_ok_def sws_in_ok_def)
  qed
qed

lemma sws_ok_sending:
  assumes "sws_ok c b" "sw_usock c = Some us" "instate b' = instate b" "outstate b' = OUT_ASYNC"
  shows "sws_ok (c\<lparr>outmsg := om, outhdr := oh, sw_usock := Some (us\<lparr>us_out := True, us_wire := x\<rparr>), sw_outstate := SWS_OUT_SENDING\<rparr>) b'"
  using sws_okD(1-8) [OF assms(1)] sws_okD(9) [OF assms(1,2)] assms(3,4) by (simp add: sws_ok_def sws_in_ok_out)

lemma sws_pipe_send_ok:
  assumes ok: "wconn_ok w p" and s: "can_send w p" and m: "hdrs m = []" "int (length (ws_payload m)) < 4294967296"
  shows "\<exists>w'. nn_pipe_send nn_sws_pipebase_vfptr w p m = Some (NN_PIPE_RELEASE, w') \<and> wconn_ok w' p \<and> ws_others p w w' \<and> outstate (pipes w' p) = OUT_ASYNC"
proof -
  obtain us where us: "sw_usock (wconn w p) = Some us" using sws_okD(8) [OF ok] by auto
  obtain w1 om oh x where w1: "nn_sws_send (set_outstate p OUT_SENDING w) p m = Some (Inr 0, w1)" "pipes w1 = pipes (set_outstate p OUT_SENDING w)"
    "\<forall>q. wconn w1 q = (if q = p then (wconn w p)\<lparr>outmsg := om, outhdr := oh, sw_usock := Some (us\<lparr>us_out := True, us_wire := x\<rparr>), sw_outstate := SWS_OUT_SENDING\<rparr> else wconn w q)"
    using sws_send_ok [OF ok s m us] by (elim exE conjE) (rule that; assumption)
  have "nn_pipe_send nn_sws_pipebase_vfptr w p m = Some (NN_PIPE_RELEASE, set_outstate p OUT_ASYNC w1)"
    using w1 s by (simp add: nn_pipe_send_def nn_sws_pipebase_vfptr_def)
  moreover have "wconn_ok (set_outstate p OUT_ASYNC w1) p"
    using w1(3) sws_ok_sending [OF ok us, of "pipes (set_outstate p OUT_ASYNC w1) p"] w1(2) by simp
  ultimately show ?thesis using w1(2,3) by (intro exI [of _ "set_outstate p OUT_ASYNC w1"]) (simp add: ws_others_def)
qed

lemma sws_sent_ok:
  assumes ok: "wconn_ok w p" and s: "outstate (pipes w p) = OUT_ASYNC"
  shows "\<exists>w'. sws_usock_event env add rm p NN_USOCK_SENT (s0, w) = Some (s0, w') \<and> wconn_ok w' p \<and> ws_others p w w' \<and> outstate (pipes w' p) = OUT_IDLE"
proof -
  obtain us where us: "sw_usock (wconn w p) = Some us" using sws_okD(8) [OF ok] by auto
  let ?c = "(wconn w p)\<lparr>outmsg := empty_msg, outhdr := outhdr (wconn w p), sw_usock := Some (us\<lparr>us_out := False, us_wire := us_wire us\<rparr>), sw_outstate := SWS_OUT_IDLE\<rparr>"
  let ?w = "nn_fsm_raise_pipe p NN_PIPE_OUT (set_outstate p OUT_IDLE (set_wconn p ?c w))"
  have "sws_usock_event env add rm p NN_USOCK_SENT (s0, w) = Some (s0, ?w)"
    using sws_okD(1,2) [OF ok] sws_okD(10) [OF ok us] us s
    by (cases "wconn w p"; cases us) (simp add: sws_usock_event_def nn_sws_feed_def nn_sws_handler_def usock_done_def nn_pipebase_sent_def Let_def)
  moreover have "pipes ?w p = (pipes w p)\<lparr>outstate := OUT_IDLE\<rparr>" by (simp add: set_outstate_def)
  then have "wconn_ok ?w p" using sws_ok_out [OF ok us, where om = empty_msg and oh = "outhdr (wconn w p)" and x = "us_wire us"] by (simp add: set_outstate_def)
  ultimately show ?thesis by (intro exI [of _ ?w]) (simp add: ws_others_def)
qed



theorem sws_peer_safe_witness:
  "\<exists>w. ws_open ws_env0 no_add no_rm 0 NN_WS_SERVER NN_WS_OPCODE_TEXT ((), ws_world0) = Some ((), w) \<and>
     ws_outcome ws_env0 0 () () (sws_usock_event ws_env0 no_add no_rm 0 (NN_USOCK_RECEIVED [0xFF, 0xFF]) ((), w))"
proof -
  obtain w where w: "ws_open ws_env0 no_add no_rm 0 NN_WS_SERVER NN_WS_OPCODE_TEXT ((), ws_world0) = Some ((), w)" "wconn_ok w 0" "can_send w 0"
    "rx_idle NN_WS_SERVER (wconn w 0) (pipes w 0)" "ws_owner (tstate w) = []"
    using ws_open_ok [of ws_world0 0 no_add "()" "()" ws_env0 no_rm NN_WS_SERVER NN_WS_OPCODE_TEXT] ws_world0_ok by (auto simp: no_add_def)
  obtain us where us: "sw_usock (wconn w 0) = Some us" "us_in us = Some 2" "utf8_code_pt_fragment_len (wconn w 0) = 0" "inmsg_total_size (wconn w 0) = 0"
    using w(4) by (auto simp: rx_idle_def rx_base_def)
  have "ws_within ws_env0 (wconn w 0)" using us(4) by (simp add: ws_within_def ws_env0_def word_less_def)
  then have "ws_outcome ws_env0 0 () () (sws_usock_event ws_env0 no_add no_rm 0 (NN_USOCK_RECEIVED [0xFF, 0xFF]) ((), w))"
    using w us by (intro sws_peer_safe) (simp_all add: no_rm_def ws_quiet_def nn_getll_def numeral_2_eq_2)
  then show ?thesis using w(1) by blast
qed

section \<open>Where the connection departs from RFC 6455\<close>


text \<open>
  The limit on the size of messages can be passed with a length that wraps around: after a
  first frame of two bytes, a frame that announces 2^64 - 2 bytes makes the total zero, so it is
  within \<^verbatim>\<open>NN_RCVMAXSIZE\<close>, and the allocation of the chunk aborts the program; a length that
  is over the limit by one byte closes the connection with code 1009.
\<close>

lemma ws_length_wraps:
  "ws_client_gets [0x02, 2, 0x41, 0x42, 0x80, 0x7F, 255, 255, 255, 255, 255, 255, 255, 254] = None \<and>
   (\<exists>bs. ws_client_gets [0x02, 2, 0x41, 0x42, 0x80, 0x7F, 0, 0, 0, 0, 0, 0x0F, 0xFF, 0xFF] = Some ([], SWS_CLOSING_CONNECTION, bs))"
proof -
  have 1: "ws_client_gets [0x02, 2, 0x41, 0x42, 0x80, 0x7F, 255, 255, 255, 255, 255, 255, 255, 254] = None" by code_simp
  have "map_option (\<lambda>(m, s, b). (m, s)) (ws_client_gets [0x02, 2, 0x41, 0x42, 0x80, 0x7F, 0, 0, 0, 0, 0, 0x0F, 0xFF, 0xFF]) = Some ([], SWS_CLOSING_CONNECTION)"
    by code_simp
  then show ?thesis using 1 by auto
qed

text \<open>
  A close frame is two bytes longer than it says.  Asked to close, a client answers with a
  frame whose header announces a payload of two bytes, the masked code, and
  sends four; on the other hand a control frame between the frames of a message is delivered first, and
  the message is put together from its frames.
\<close>

lemma ws_close_frame_too_long:
  "ws_client_gets [0x88, 0] = Some ([], SWS_CLOSING_CONNECTION, [0x88, 0x80 OR 2, 0x39, 0x30, 0, 0, 0x39 XOR 0x03, 0x30 XOR 0xE8, 0, 0]) \<and>
   ws_client_gets [0x01, 2, 0x41, 0x42, 0x89, 1, 7, 0x80, 1, 0x43] = Some ([[7], [0x41, 0x42, 0x43]], SWS_ACTIVE, [])"
proof
  show "ws_client_gets [0x88, 0] = Some ([], SWS_CLOSING_CONNECTION, [0x88, 0x80 OR 2, 0x39, 0x30, 0, 0, 0x39 XOR 0x03, 0x30 XOR 0xE8, 0, 0])" by code_simp
  show "ws_client_gets [0x01, 2, 0x41, 0x42, 0x89, 1, 7, 0x80, 1, 0x43] = Some ([[7], [0x41, 0x42, 0x43]], SWS_ACTIVE, [])" by code_simp
qed

end
