(* ===== verification/Nn_Timerset.thy ===== *)
theory Nn_Timerset
  imports Nn_List "HOL-Library.Word"
begin

text \<open>
  \<^verbatim>\<open>aio/timerset.c\<close>: the timers of a worker thread, in a linked list ordered by the time they are
  due.  The locale \<open>deadlines\<close> is what the worker relies on; with it, its loop over the expired
  timers (\<^verbatim>\<open>aio/worker_posix.inc\<close>) ends and takes exactly the timers that are due, the earliest
  first.  The time \<open>now\<close> that \<^verbatim>\<open>nn_clock_ms\<close> returns is an argument.
\<close>

section \<open>Model\<close>

record 'a nn_timerset =
  ts_items :: "'a items"
  ts_due :: "'a \<Rightarrow> u64"
  ts_timeouts :: "'a nn_list"

definition ts_set_items :: "'a items \<Rightarrow> 'a nn_list \<Rightarrow> 'a nn_timerset \<Rightarrow> 'a nn_timerset" where
  "ts_set_items h l self = \<lparr>ts_items = h, ts_due = ts_due self, ts_timeouts = l\<rparr>"

definition nn_timerset_init :: "'a items \<Rightarrow> ('a \<Rightarrow> u64) \<Rightarrow> 'a nn_timerset" where
  "nn_timerset_init h due = \<lparr>ts_items = h, ts_due = due, ts_timeouts = nn_list_init\<rparr>"

definition nn_timerset_term :: "'a nn_timerset \<Rightarrow> unit option" where
  "nn_timerset_term self = nn_list_term (ts_timeouts self)"

text \<open>The loop that looks for the place of a new timer: before the first one that is due later.\<close>

partial_function (option) timerset_place :: "'a nn_timerset \<Rightarrow> u64 \<Rightarrow> 'a ptr \<Rightarrow> 'a ptr option" where
  "timerset_place self t it =
     (case it of
       Null \<Rightarrow> Some Null
     | NotInList \<Rightarrow> None
     | Ptr ith \<Rightarrow> if t < ts_due self ith then Some it
         else do { it \<leftarrow> nn_list_next (ts_items self) (ts_timeouts self) it; timerset_place self t it })"

declare timerset_place.simps [code]

definition nn_timerset_add :: "u64 \<Rightarrow> 'a nn_timerset \<Rightarrow> u32 \<Rightarrow> 'a \<Rightarrow> (bool \<times> 'a nn_timerset) option" where
  "nn_timerset_add now self timeout hndl = do {
     let due = now + scast timeout;
     let self = self\<lparr>ts_due := (ts_due self)(hndl := due)\<rparr>;
     it \<leftarrow> timerset_place self due (nn_list_begin (ts_timeouts self));
     let first = (nn_list_begin (ts_timeouts self) = it);
     (h, l) \<leftarrow> nn_list_insert (ts_items self) (ts_timeouts self) hndl it;
     Some (first, ts_set_items h l self) }"

definition nn_timerset_rm :: "'a nn_timerset \<Rightarrow> 'a \<Rightarrow> (bool \<times> 'a nn_timerset) option" where
  "nn_timerset_rm self hndl =
     (if \<not> nn_list_item_isinlist (ts_items self) hndl then Some (False, self)
      else do {
        let first = (nn_list_begin (ts_timeouts self) = Ptr hndl);
        (_, h, l) \<leftarrow> nn_list_erase (ts_items self) (ts_timeouts self) hndl;
        Some (first, ts_set_items h l self) })"

text \<open>The difference of two 64 bit numbers is cut to an \<^verbatim>\<open>int\<close>.\<close>

definition nn_timerset_timeout :: "u64 \<Rightarrow> 'a nn_timerset \<Rightarrow> u32 option" where
  "nn_timerset_timeout now self =
     (if nn_list_empty (ts_timeouts self) then Some (- 1)
      else (case nn_list_begin (ts_timeouts self) of
        Ptr first \<Rightarrow> (let timeout = ucast (ts_due self first - now) :: u32 in Some (if sint timeout < 0 then 0 else timeout))
      | _ \<Rightarrow> None))"

definition nn_timerset_event :: "u64 \<Rightarrow> 'a nn_timerset \<Rightarrow> ('a rc \<times> 'a nn_timerset) option" where
  "nn_timerset_event now self =
     (if nn_list_empty (ts_timeouts self) then Some (Inl EAGAIN, self)
      else (case nn_list_begin (ts_timeouts self) of
        Ptr first \<Rightarrow>
          if ts_due self first > now then Some (Inl EAGAIN, self)
          else do {
            (_, h, l) \<leftarrow> nn_list_erase (ts_items self) (ts_timeouts self) first;
            Some (Inr first, ts_set_items h l self) }
      | _ \<Rightarrow> None))"

definition nn_timerset_hndl_init :: "'a nn_timerset \<Rightarrow> 'a \<Rightarrow> 'a nn_timerset" where
  "nn_timerset_hndl_init self hndl = self\<lparr>ts_items := nn_list_item_init (ts_items self) hndl\<rparr>"

definition nn_timerset_hndl_term :: "'a nn_timerset \<Rightarrow> 'a \<Rightarrow> unit option" where
  "nn_timerset_hndl_term self hndl = nn_list_item_term (ts_items self) hndl"

definition nn_timerset_hndl_isactive :: "'a nn_timerset \<Rightarrow> 'a \<Rightarrow> bool" where
  "nn_timerset_hndl_isactive self hndl = nn_list_item_isinlist (ts_items self) hndl"

text \<open>The loop of the worker over the expired timers, with the timers it hands to their owners.
  The owners do not change the timer set: what they ask for is done by tasks of the worker, later.
  The clock is read in each turn; \<open>now\<close> gives its values.  The operation \<open>event\<close> is \<^verbatim>\<open>nn_timerset_event\<close>.\<close>

partial_function (option) worker_expired ::
  "(u64 \<Rightarrow> 's \<Rightarrow> ('a rc \<times> 's) option) \<Rightarrow> (nat \<Rightarrow> u64) \<Rightarrow> nat \<Rightarrow> 's \<Rightarrow> 'a list \<Rightarrow> ('a list \<times> 's) option" where
  "worker_expired event now n self fired = do {
     (rc, self) \<leftarrow> event (now n) self;
     case rc of
       Inl e \<Rightarrow> do { nn_assert (e = EAGAIN); Some (fired, self) }
     | Inr hndl \<Rightarrow> worker_expired event now (Suc n) self (fired @ [hndl]) }"

declare worker_expired.simps [code]

section \<open>What the worker relies on\<close>

text \<open>\<open>rep s xs\<close>: the timers that run, in the order in which they are due.\<close>

locale deadlines =
  fixes rep :: "'s \<Rightarrow> 'a list \<Rightarrow> bool" and due :: "'s \<Rightarrow> 'a \<Rightarrow> u64" and event :: "u64 \<Rightarrow> 's \<Rightarrow> ('a rc \<times> 's) option"
  assumes ordered: "rep s xs \<Longrightarrow> sorted (map (due s) xs)"
    and event_none: "rep s xs \<Longrightarrow> xs = [] \<or> t < due s (hd xs) \<Longrightarrow> event t s = Some (Inl EAGAIN, s)"
    and event_some: "rep s (x # xs) \<Longrightarrow> due s x \<le> t \<Longrightarrow> \<exists>s'. event t s = Some (Inr x, s') \<and> rep s' xs \<and> due s' = due s"
begin

lemma expired:
  assumes "rep s xs"
  shows "\<exists>k s'. worker_expired event now n s fired = Some (fired @ take k xs, s') \<and> rep s' (drop k xs) \<and> due s' = due s \<and> k \<le> length xs \<and>
    (\<forall>i < k. due s (xs ! i) \<le> now (n + i)) \<and> (k < length xs \<longrightarrow> now (n + k) < due s (xs ! k))"
  using assms
proof (induction xs arbitrary: s n fired)
  case Nil
  then show ?case using event_none [OF Nil, of "now n"] by (subst worker_expired.simps) auto
next
  case (Cons x xs)
  show ?case
  proof (cases "due s x \<le> now n")
    case False
    then show ?thesis using event_none [OF Cons.prems, of "now n"] Cons.prems by (subst worker_expired.simps) (auto intro!: exI [of _ 0])
  next
    case True
    obtain s1 where s1: "event (now n) s = Some (Inr x, s1)" "rep s1 xs" "due s1 = due s" using event_some [OF Cons.prems True] by auto
    obtain k s' where k: "worker_expired event now (Suc n) s1 (fired @ [x]) = Some ((fired @ [x]) @ take k xs, s')" "rep s' (drop k xs)" "due s' = due s1" "k \<le> length xs"
      "\<forall>i < k. due s1 (xs ! i) \<le> now (Suc n + i)" "k < length xs \<longrightarrow> now (Suc n + k) < due s1 (xs ! k)"
      using Cons.IH [OF s1(2), of "Suc n" "fired @ [x]"] by blast
    have "worker_expired event now n s fired = Some (fired @ take (Suc k) (x # xs), s')"
      using s1(1) k(1) by (subst worker_expired.simps) simp
    then show ?thesis using k(2-6) s1(3) True
      by (intro exI [of _ "Suc k"] exI [of _ s']) (auto simp: less_Suc_eq_0_disj)
  qed
qed

text \<open>If the clock does not run backwards, every timer that is due when the loop starts is taken.\<close>

lemma expired_all:
  assumes rep: "rep s xs" and clock: "\<forall>i. now n \<le> now (n + i)"
  shows "\<exists>s'. \<exists>ys zs. xs = ys @ zs \<and> worker_expired event now n s [] = Some (ys, s') \<and> rep s' zs \<and> (\<forall>x \<in> set zs. now n < due s x)"
proof -
  obtain k s' where k: "worker_expired event now n s [] = Some (take k xs, s')" "rep s' (drop k xs)" "k \<le> length xs" "k < length xs \<longrightarrow> now (n + k) < due s (xs ! k)"
    using expired [OF rep, of now n "[]"] by auto
  have "now n < due s x" if x: "x \<in> set (drop k xs)" for x
  proof -
    obtain i where i: "i < length (drop k xs)" "x = drop k xs ! i" using x by (metis in_set_conv_nth)
    define j where "j = k + i"
    have j: "k \<le> j" "j < length xs" "x = xs ! j" using i by (simp_all add: j_def)
    have "now n \<le> now (n + k)" using clock by simp
    also have "now (n + k) < due s (xs ! k)" using k(4) j by simp
    also have "due s (xs ! k) \<le> due s x" using sorted_nth_mono [OF ordered [OF rep], of k j] j by simp
    finally show ?thesis .
  qed
  then show ?thesis using k(1,2) by (intro exI [of _ s'] exI [of _ "take k xs"] exI [of _ "drop k xs"]) simp
qed

end

section \<open>The list of timers\<close>

definition ts_rep :: "'a nn_timerset \<Rightarrow> 'a list \<Rightarrow> bool" where
  "ts_rep s xs \<longleftrightarrow> dll (ts_items s) (ts_timeouts s) xs \<and> sorted (map (ts_due s) xs)"

lemma event_none: "ts_rep s xs \<Longrightarrow> xs = [] \<or> t < ts_due s (hd xs) \<Longrightarrow> nn_timerset_event t s = Some (Inl EAGAIN, s)"
  by (cases xs) (auto simp: ts_rep_def nn_timerset_event_def dll_empty dll_begin)

lemma event_some:
  assumes "ts_rep s (x # xs)" "ts_due s x \<le> t"
  shows "\<exists>s'. nn_timerset_event t s = Some (Inr x, s') \<and> ts_rep s' xs \<and> ts_due s' = ts_due s"
proof -
  have d: "dll (ts_items s) (ts_timeouts s) ([] @ x # xs)" using assms(1) by (simp add: ts_rep_def)
  obtain h l where "nn_list_erase (ts_items s) (ts_timeouts s) x = Some (head_ptr xs Null, h, l)" "dll h l xs"
    using nn_list_erase_refines [OF d] by auto
  then show ?thesis using assms d
    by (auto simp: nn_timerset_event_def dll_empty [OF d] dll_begin [OF d] ts_set_items_def ts_rep_def)
qed

interpretation timerset: deadlines ts_rep ts_due nn_timerset_event
  by unfold_locales (simp add: ts_rep_def, erule (1) event_none, erule (1) event_some)

lemma place_ok:
  assumes "dll (ts_items s) (ts_timeouts s) (as @ bs)"
  shows "timerset_place s t (head_ptr bs Null) = Some (head_ptr (dropWhile (\<lambda>x. ts_due s x \<le> t) bs) Null)"
  using assms
proof (induction bs arbitrary: as)
  case (Cons x bs)
  have "timerset_place s t (head_ptr bs Null) = Some (head_ptr (dropWhile (\<lambda>x. ts_due s x \<le> t) bs) Null)"
    using Cons.IH [of "as @ [x]"] Cons.prems by simp
  then show ?case using dll_next [OF Cons.prems] by (subst timerset_place.simps) (auto simp: not_less)
qed (simp add: timerset_place.simps)

text \<open>The place of a new timer: after those that are due no later.\<close>

definition ts_insert :: "('a \<Rightarrow> u64) \<Rightarrow> 'a \<Rightarrow> 'a list \<Rightarrow> 'a list" where
  "ts_insert due x xs = takeWhile (\<lambda>y. due y \<le> due x) xs @ x # dropWhile (\<lambda>y. due y \<le> due x) xs"

lemma ts_insert_Nil: "ts_insert due x [] = [x]"
  by (simp add: ts_insert_def)

lemma ts_insert_Cons: "ts_insert due x (y # ys) = (if due y \<le> due x then y # ts_insert due x ys else x # y # ys)"
  by (simp add: ts_insert_def)

lemma set_ts_insert: "set (ts_insert due x xs) = insert x (set xs)"
  by (induction xs) (auto simp: ts_insert_Nil ts_insert_Cons)

lemma sorted_ts_insert: "sorted (map due xs) \<Longrightarrow> sorted (map due (ts_insert due x xs))"
proof (induction xs)
  case (Cons y ys)
  then show ?case by (cases "due y \<le> due x") (auto simp: ts_insert_Cons set_ts_insert not_le intro: order_trans less_imp_le)
qed (simp add: ts_insert_def)

lemma add_ok:
  fixes now timeout s x
  assumes rep: "ts_rep s xs" and new: "\<not> nn_timerset_hndl_isactive s x"
  defines "due \<equiv> (ts_due s)(x := now + scast timeout)"
  shows "\<exists>s'. nn_timerset_add now s timeout x = Some (hd (ts_insert due x xs) = x, s') \<and> ts_rep s' (ts_insert due x xs) \<and> ts_due s' = due"
proof -
  let ?s = "s\<lparr>ts_due := due\<rparr>" and ?p = "\<lambda>y. due y \<le> due x"
  have d: "dll (ts_items s) (ts_timeouts s) xs" using rep by (simp add: ts_rep_def)
  have f: "\<not> nn_list_item_isinlist (ts_items s) x" using new by (simp add: nn_timerset_hndl_isactive_def)
  then have x: "x \<notin> set xs" using dll_inlist [OF d] by blast
  have d': "dll (ts_items ?s) (ts_timeouts ?s) ([] @ xs)" using d by simp
  have pl: "timerset_place ?s (due x) (nn_list_begin (ts_timeouts s)) = Some (head_ptr (dropWhile ?p xs) Null)"
    using place_ok [OF d', of "due x"] by (simp add: dll_begin [OF d])
  have d2: "dll (ts_items s) (ts_timeouts s) (takeWhile ?p xs @ dropWhile ?p xs)" using d by simp
  obtain h l where hl: "nn_list_insert (ts_items s) (ts_timeouts s) x (head_ptr (dropWhile ?p xs) Null) = Some (h, l)" "dll h l (ts_insert due x xs)"
    using nn_list_insert_refines [OF d2 f] by (auto simp: ts_insert_def)
  have e: "ts_due s y = due y" if "y \<in> set xs" for y using x that by (auto simp: due_def)
  have "sorted (map due xs)" using rep e by (simp add: ts_rep_def cong: map_cong)
  then have so: "sorted (map due (ts_insert due x xs))" by (rule sorted_ts_insert)
  have first: "nn_list_begin (ts_timeouts s) = head_ptr (dropWhile ?p xs) Null \<longleftrightarrow> hd (ts_insert due x xs) = x"
  proof (cases xs)
    case (Cons y ys)
    then have "y \<notin> set (dropWhile ?p ys)" using d by (auto simp: dll_def dest: set_dropWhileD)
    then show ?thesis using x Cons by (auto simp: dll_begin [OF d] ts_insert_def eq_commute [of "Ptr y"])
  qed (simp add: dll_begin [OF d] ts_insert_def)
  show ?thesis using pl hl so first
    by (simp add: nn_timerset_add_def due_def [symmetric] ts_set_items_def ts_rep_def Let_def) (simp add: due_def)
qed

lemma rm_ok:
  assumes rep: "ts_rep s xs"
  shows "x \<in> set xs \<Longrightarrow> \<exists>s'. nn_timerset_rm s x = Some (hd xs = x, s') \<and> ts_rep s' (remove1 x xs) \<and> ts_due s' = ts_due s \<and> \<not> nn_timerset_hndl_isactive s' x"
    "\<not> nn_timerset_hndl_isactive s x \<Longrightarrow> nn_timerset_rm s x = Some (False, s)"
proof -
  have d: "dll (ts_items s) (ts_timeouts s) xs" using rep by (simp add: ts_rep_def)
  show "\<exists>s'. nn_timerset_rm s x = Some (hd xs = x, s') \<and> ts_rep s' (remove1 x xs) \<and> ts_due s' = ts_due s \<and> \<not> nn_timerset_hndl_isactive s' x" if m: "x \<in> set xs"
  proof -
    obtain as bs where xs: "xs = as @ x # bs" using m by (auto dest: split_list)
    moreover have "x \<notin> set as" using d xs by (simp add: dll_def)
    ultimately have r: "remove1 x xs = as @ bs" by (simp add: remove1_append)
    obtain h l where hl: "nn_list_erase (ts_items s) (ts_timeouts s) x = Some (head_ptr bs Null, h, l)" "dll h l (as @ bs)" "\<not> nn_list_item_isinlist h x"
      using nn_list_erase_refines [of "ts_items s" "ts_timeouts s" as x bs] d xs by auto
    have f: "nn_list_begin (ts_timeouts s) = Ptr x \<longleftrightarrow> hd xs = x" using m by (cases xs) (simp_all add: dll_begin [OF d])
    have "sorted (map (ts_due s) (as @ bs))" using rep by (auto simp: ts_rep_def xs sorted_append)
    then show ?thesis using hl r dll_inlist [OF d m] f
      by (auto simp: nn_timerset_rm_def ts_set_items_def ts_rep_def nn_timerset_hndl_isactive_def Let_def)
  qed
  show "nn_timerset_rm s x = Some (False, s)" if "\<not> nn_timerset_hndl_isactive s x"
    using that by (simp add: nn_timerset_rm_def nn_timerset_hndl_isactive_def)
qed

text \<open>The time to wait, when it fits an \<^verbatim>\<open>int\<close>.\<close>

lemma diff_int:
  fixes a b :: u64
  assumes "- (2 ^ 31) \<le> uint a - uint b" "uint a - uint b < 2 ^ 31"
  shows "sint (ucast (a - b) :: u32) = uint a - uint b"
proof -
  have "sint (ucast (a - b) :: u32) = signed_take_bit 31 (uint (a - b))" by (simp add: signed_ucast_eq)
  also have "\<dots> = signed_take_bit 31 (take_bit 64 (uint a - uint b))" by (simp add: uint_word_ariths take_bit_eq_mod)
  also have "\<dots> = signed_take_bit 31 (uint a - uint b)" by (simp add: signed_take_bit_take_bit)
  also have "\<dots> = uint a - uint b" using assms by (intro signed_take_bit_int_eq_self) simp_all
  finally show ?thesis .
qed

lemma timeout_ok:
  assumes "ts_rep s (x # xs)" "- (2 ^ 31) \<le> uint (ts_due s x) - uint now" "uint (ts_due s x) - uint now < 2 ^ 31"
  shows "\<exists>t. nn_timerset_timeout now s = Some t \<and> sint t = max 0 (uint (ts_due s x) - uint now)"
  using assms(1) diff_int [OF assms(2,3)]
  by (auto simp: nn_timerset_timeout_def ts_rep_def dll_empty dll_begin Let_def)

lemma timeout_none: "ts_rep s [] \<Longrightarrow> nn_timerset_timeout now s = Some (- 1)"
  by (simp add: nn_timerset_timeout_def ts_rep_def dll_empty)

section \<open>Properties\<close>

text \<open>
  C28: The timer set refines a sequence of timers ordered by the time they are due.  Adding a timer
  that does not run puts it after those that are due no later and says whether it is now the first;
  removing one takes it out, or does nothing if it does not run; the
  time to wait is that of the first timer, not below zero, as long as it fits a 32 bit integer, and
  -1 without timers.
\<close>

theorem nn_timerset_refines:
  assumes "ts_rep s xs"
  shows "(\<not> nn_timerset_hndl_isactive s x \<longrightarrow> (\<exists>s'. nn_timerset_add now s timeout x =
        Some (hd (ts_insert ((ts_due s)(x := now + scast timeout)) x xs) = x, s') \<and>
      ts_rep s' (ts_insert ((ts_due s)(x := now + scast timeout)) x xs) \<and> ts_due s' = (ts_due s)(x := now + scast timeout))) \<and>
    (x \<in> set xs \<longrightarrow> (\<exists>s'. nn_timerset_rm s x = Some (hd xs = x, s') \<and> ts_rep s' (remove1 x xs) \<and> ts_due s' = ts_due s)) \<and>
    (\<not> nn_timerset_hndl_isactive s x \<longrightarrow> nn_timerset_rm s x = Some (False, s)) \<and>
    (case xs of [] \<Rightarrow> nn_timerset_timeout now s = Some (- 1)
     | y # ys \<Rightarrow> - (2 ^ 31) \<le> uint (ts_due s y) - uint now \<and> uint (ts_due s y) - uint now < 2 ^ 31 \<longrightarrow>
         (\<exists>t. nn_timerset_timeout now s = Some t \<and> sint t = max 0 (uint (ts_due s y) - uint now)))"
proof (intro conjI impI)
  show "case xs of [] \<Rightarrow> nn_timerset_timeout now s = Some (- 1)
     | y # ys \<Rightarrow> - (2 ^ 31) \<le> uint (ts_due s y) - uint now \<and> uint (ts_due s y) - uint now < 2 ^ 31 \<longrightarrow>
         (\<exists>t. nn_timerset_timeout now s = Some t \<and> sint t = max 0 (uint (ts_due s y) - uint now))"
    using assms timeout_none [of s now] timeout_ok [of s _ _ now] by (cases xs) simp_all
qed (use add_ok [OF assms] rm_ok [OF assms] in blast)+

text \<open>The example: two timers, the second due first.\<close>

definition ts_two :: "nat nn_timerset option" where
  "ts_two = do {
     (f, s) \<leftarrow> nn_timerset_add 100 (nn_timerset_init (\<lambda>x. \<lparr>li_next = NotInList, li_prev = NotInList\<rparr>) (\<lambda>x. 0)) 50 (1::nat);
     (f, s) \<leftarrow> nn_timerset_add 110 s 20 2;
     Some s }"

lemma init_ok: "ts_rep (nn_timerset_init h due) []"
  by (simp add: ts_rep_def nn_timerset_init_def dll_init)

lemma ts_two_ok: "\<exists>s. ts_two = Some s \<and> ts_rep s [2, 1] \<and> ts_due s 1 = 150 \<and> ts_due s 2 = 130 \<and> \<not> nn_timerset_hndl_isactive s 3"
proof -
  let ?s0 = "nn_timerset_init (\<lambda>x. \<lparr>li_next = NotInList, li_prev = NotInList\<rparr>) (\<lambda>x. 0) :: nat nn_timerset"
  have na: "\<not> nn_timerset_hndl_isactive ?s0 1" by (simp add: nn_timerset_hndl_isactive_def nn_timerset_init_def nn_list_item_isinlist_def)
  obtain s1 where s1: "nn_timerset_add 100 ?s0 50 1 = Some (True, s1)" "ts_rep s1 [1]" "ts_due s1 = (\<lambda>x. 0)(1 := 150)"
    using add_ok [OF init_ok na, of 100 50] by (auto simp: ts_insert_Nil nn_timerset_init_def)
  have e: "s1 = snd (the (nn_timerset_add 100 ?s0 50 1))" using s1(1) by simp
  have nb: "\<not> nn_timerset_hndl_isactive s1 2 \<and> \<not> nn_timerset_hndl_isactive s1 3" unfolding e by code_simp
  then obtain s2 where s2: "nn_timerset_add 110 s1 20 2 = Some (True, s2)" "ts_rep s2 [2, 1]" "ts_due s2 = (\<lambda>x. 0)(1 := 150, 2 := 130)"
    using add_ok [OF s1(2), of 2 110 20] s1(3) by (auto simp: ts_insert_Nil ts_insert_Cons)
  have e2: "s2 = snd (the (nn_timerset_add 110 s1 20 2))" using s2(1) by simp
  have "\<not> nn_timerset_hndl_isactive s2 3" unfolding e2 e by code_simp
  then show ?thesis using s1(1) s2 by (auto simp: ts_two_def)
qed

theorem nn_timerset_refines_witness:
  "\<exists>s s'. ts_two = Some s \<and> nn_timerset_rm s 2 = Some (True, s') \<and> ts_rep s' [1]"
proof -
  obtain s where s: "ts_two = Some s" "ts_rep s [2, 1]" using ts_two_ok by auto
  show ?thesis using nn_timerset_refines [OF s(2), where x = 2 and now = 0 and timeout = 0] s(1) by auto
qed

text \<open>
  C29: The loop of the worker over the expired timers ends, and it hands over exactly a first part
  of the timers, in the order in which they are due; no timer that was due when the loop began
  is left, if the clock does not run backwards.
\<close>

theorem worker_expires_all:
  assumes "ts_rep s xs" "\<forall>i. now n \<le> now (n + i)"
  shows "\<exists>s' ys zs. xs = ys @ zs \<and> worker_expired nn_timerset_event now n s [] = Some (ys, s') \<and> ts_rep s' zs \<and> (\<forall>x \<in> set zs. now n < ts_due s x)"
  by (rule timerset.expired_all [OF assms])

theorem worker_expires_all_witness:
  "\<exists>s s'. ts_two = Some s \<and> worker_expired nn_timerset_event (\<lambda>n. 140) 0 s [] = Some ([2], s') \<and> ts_rep s' [1]"
proof -
  obtain s where s: "ts_two = Some s" "ts_rep s [2, 1]" "ts_due s 1 = 150" "ts_due s 2 = 130" using ts_two_ok by auto
  obtain s' ys zs where r: "[2, 1] = ys @ zs" "worker_expired nn_timerset_event (\<lambda>n. 140) 0 s [] = Some (ys, s')" "ts_rep s' zs" "\<forall>x \<in> set zs. 140 < ts_due s x"
    using worker_expires_all [OF s(2), of "\<lambda>n. 140" 0] by auto
  have "fst (the (worker_expired nn_timerset_event (\<lambda>n. 140) 0 (the ts_two) [])) = [2]" by code_simp
  then have "ys = [2]" unfolding s(1) option.sel r(2) by simp
  then show ?thesis using r s(1) by auto
qed

end
