(* ===== verification/Nn_Base64.thy ===== *)
theory Nn_Base64
  imports Nn_Prelude
begin

text \<open>
  \<^verbatim>\<open>transports/utils/base64.c\<close>: base64 for the keys of the WebSocket handshake.  The encoder agrees
  with RFC 4648, the decoder is its inverse, and both respect the size of the output buffer.
\<close>

section \<open>Model\<close>

text \<open>The loop of both functions counts with an \<^verbatim>\<open>unsigned\<close> and does not end for 4 GiB or more.\<close>

definition ENCODEMAP :: bytes where
  "ENCODEMAP = map of_char (''ABCDEFGHIJKLMNOPQRSTUVWXYZ'' @ ''abcdefghijklmnopqrstuvwxyz'' @ ''0123456789+/'')"

definition DECODEMAP :: bytes where
  "DECODEMAP = replicate 43 0xFF @ [0x3E, 0xFF, 0xFF, 0xFF, 0x3F,
     0x34, 0x35, 0x36, 0x37, 0x38, 0x39, 0x3A, 0x3B, 0x3C, 0x3D, 0xFF, 0xFF, 0xFF, 0x3E, 0xFF, 0xFF,
     0xFF, 0x00, 0x01, 0x02, 0x03, 0x04, 0x05, 0x06, 0x07, 0x08, 0x09, 0x0A, 0x0B, 0x0C, 0x0D, 0x0E,
     0x0F, 0x10, 0x11, 0x12, 0x13, 0x14, 0x15, 0x16, 0x17, 0x18, 0x19, 0xFF, 0xFF, 0xFF, 0xFF, 0xFF,
     0xFF, 0x1A, 0x1B, 0x1C, 0x1D, 0x1E, 0x1F, 0x20, 0x21, 0x22, 0x23, 0x24, 0x25, 0x26, 0x27, 0x28,
     0x29, 0x2A, 0x2B, 0x2C, 0x2D, 0x2E, 0x2F, 0x30, 0x31, 0x32, 0x33] @ replicate 133 0xFF"

text \<open>\<^verbatim>\<open>isspace\<close>: space, and the characters from \<^verbatim>\<open>\t\<close> to \<^verbatim>\<open>\r\<close>.\<close>

definition b64_space :: "u8 \<Rightarrow> bool" where
  "b64_space c \<longleftrightarrow> c = 0x20 \<or> 9 \<le> c \<and> c \<le> 13"

text \<open>The bits that wait in \<^verbatim>\<open>v\<close>: how more are added, and what is taken out.\<close>

definition b64_push :: "nat \<Rightarrow> u32 \<Rightarrow> u8 \<Rightarrow> u32" where
  "b64_push n v ch = push_bit n v OR ucast ch"

definition b64_byte :: "u32 \<Rightarrow> nat \<Rightarrow> u8" where
  "b64_byte v rem = ucast (drop_bit rem v AND 255)"

definition b64_six :: "u32 \<Rightarrow> nat \<Rightarrow> u8" where
  "b64_six v rem = ENCODEMAP ! unat (drop_bit rem v AND 63)"

definition b64_last :: "u32 \<Rightarrow> nat \<Rightarrow> u8" where
  "b64_last v rem = ENCODEMAP ! unat (push_bit (6 - rem) v AND 63)"

text \<open>A byte goes to the output buffer, if there is room.\<close>

definition b64_out :: "nat \<Rightarrow> bytes \<Rightarrow> u8 \<Rightarrow> (bytes \<Rightarrow> 'a rc) \<Rightarrow> 'a rc" where
  "b64_out out_len out c k = (if length out \<ge> out_len then Inl ENOBUFS else k (out @ [c]))"

definition b64_rest :: "nat \<Rightarrow> u32 \<Rightarrow> nat \<Rightarrow> bytes \<Rightarrow> bytes rc" where
  "b64_rest out_len v rem out =
     (if rem \<ge> 8 then b64_out out_len out (b64_byte v (rem - 8)) Inr else Inr out)"

text \<open>\<^verbatim>\<open>char\<close> is signed: a byte from 0x80 on is a negative index into the table.\<close>

fun b64_decode_loop :: "nat \<Rightarrow> bytes \<Rightarrow> u32 \<Rightarrow> nat \<Rightarrow> bytes \<Rightarrow> bytes rc option" where
  "b64_decode_loop out_len [] v rem out = Some (b64_rest out_len v rem out)"
| "b64_decode_loop out_len (c # cs) v rem out =
     (if b64_space c then b64_decode_loop out_len cs v rem out
      else if c = 0x3D then Some (b64_rest out_len v rem out)
      else if c \<ge> 0x80 then None
      else (let ch = DECODEMAP ! unat c in
        if ch = 0xFF then Some (b64_rest out_len v rem out)
        else (let v = b64_push 6 v ch; rem = rem + 6 in
          if rem \<ge> 8 then
            (if length out \<ge> out_len then Some (Inl ENOBUFS)
             else b64_decode_loop out_len cs v (rem - 8) (out @ [b64_byte v (rem - 8)]))
          else b64_decode_loop out_len cs v rem out)))"

definition nn_base64_decode :: "bytes \<Rightarrow> nat \<Rightarrow> bytes rc option" where
  "nn_base64_decode inp out_len = do {
     nn_assert (int (length inp) < 4294967296);
     b64_decode_loop out_len inp 0 0 [] }"

fun b64_flush :: "nat \<Rightarrow> u32 \<Rightarrow> nat \<Rightarrow> bytes \<Rightarrow> (nat \<Rightarrow> bytes \<Rightarrow> 'a rc) \<Rightarrow> 'a rc" where
  "b64_flush out_len v rem out k =
     (if rem \<ge> 6 then b64_out out_len out (b64_six v (rem - 6)) (\<lambda>out. b64_flush out_len v (rem - 6) out k)
      else k rem out)"

declare b64_flush.simps [simp del]

text \<open>\<^verbatim>\<open>io & 3\<close>: up to a multiple of four characters.\<close>

function b64_pad :: "nat \<Rightarrow> bytes \<Rightarrow> bytes rc" where
  "b64_pad out_len out =
     (if length out mod 4 \<noteq> 0 then
        (if length out \<ge> out_len then Inl ENOBUFS else b64_pad out_len (out @ [0x3D]))
      else Inr out)"
  by pat_completeness auto
termination by (relation "measure (\<lambda>(out_len, out). (4 - length out mod 4) mod 4)") (auto simp: mod_Suc)

declare b64_pad.simps [simp del]

fun b64_encode_loop :: "nat \<Rightarrow> bytes \<Rightarrow> u32 \<Rightarrow> nat \<Rightarrow> bytes \<Rightarrow> (u32 \<Rightarrow> nat \<Rightarrow> bytes \<Rightarrow> bytes rc) \<Rightarrow> bytes rc" where
  "b64_encode_loop out_len [] v rem out k = k v rem out"
| "b64_encode_loop out_len (c # cs) v rem out k =
     (let v = b64_push 8 v c in
      b64_flush out_len v (rem + 8) out (\<lambda>rem out. b64_encode_loop out_len cs v rem out k))"

text \<open>After the loop: the bits that are left, the padding, and the terminating zero, which is not part of the result.\<close>

definition b64_finish :: "nat \<Rightarrow> u32 \<Rightarrow> nat \<Rightarrow> bytes \<Rightarrow> bytes rc" where
  "b64_finish out_len v rem out =
     (let pad = (\<lambda>out. case b64_pad out_len out of Inl e \<Rightarrow> Inl e | Inr out \<Rightarrow> if length out \<ge> out_len then Inl ENOBUFS else Inr out) in
      if rem \<noteq> 0 then b64_out out_len out (b64_last v rem) pad else pad out)"

definition nn_base64_encode :: "bytes \<Rightarrow> nat \<Rightarrow> bytes rc option" where
  "nn_base64_encode inp out_len = do {
     nn_assert (int (length inp) < 4294967296);
     Some (b64_encode_loop out_len inp 0 0 [] (b64_finish out_len)) }"

section \<open>RFC 4648\<close>

definition b64_char :: "u8 \<Rightarrow> u8" where
  "b64_char i = ENCODEMAP ! unat i"

text \<open>Three bytes are four groups of six bits.\<close>

definition six0 :: "u8 \<Rightarrow> u8" where
  "six0 a = drop_bit 2 a"

definition six1 :: "u8 \<Rightarrow> u8 \<Rightarrow> u8" where
  "six1 a b = push_bit 4 (a AND 3) OR drop_bit 4 b"

definition six2 :: "u8 \<Rightarrow> u8 \<Rightarrow> u8" where
  "six2 b c = push_bit 2 (b AND 15) OR drop_bit 6 c"

definition six3 :: "u8 \<Rightarrow> u8" where
  "six3 c = c AND 63"

fun rfc4648 :: "bytes \<Rightarrow> bytes" where
  "rfc4648 [] = []"
| "rfc4648 [a] = [b64_char (six0 a), b64_char (six1 a 0), 0x3D, 0x3D]"
| "rfc4648 [a, b] = [b64_char (six0 a), b64_char (six1 a b), b64_char (six2 b 0), 0x3D]"
| "rfc4648 (a # b # c # r) = [b64_char (six0 a), b64_char (six1 a b), b64_char (six2 b c), b64_char (six3 c)] @ rfc4648 r"

section \<open>Bits\<close>

lemma low_bits_take:
  fixes x :: "'a::len word"
  shows "x AND 63 = take_bit 6 x" "x AND 255 = take_bit 8 x" "x AND 3 = take_bit 2 x" "x AND 15 = take_bit 4 x"
  using take_bit_eq_mask [of 6 x] take_bit_eq_mask [of 8 x] take_bit_eq_mask [of 2 x] take_bit_eq_mask [of 4 x] by (simp_all add: mask_eq_exp_minus_1)

lemmas b64_bits = low_bits_take bit_simps six0_def six1_def six2_def six3_def b64_push_def

lemma six_out_bits:
  fixes a b c :: u8 and v :: u32
  shows "drop_bit 2 (b64_push 8 v a) AND 63 = ucast (six0 a)" "drop_bit 4 (b64_push 8 (b64_push 8 v a) b) AND 63 = ucast (six1 a b)"
    "drop_bit 6 (b64_push 8 (b64_push 8 v b) c) AND 63 = ucast (six2 b c)" "b64_push 8 v c AND 63 = ucast (six3 c)"
    "push_bit 4 (b64_push 8 v a) AND 63 = ucast (six1 a 0)" "push_bit 2 (b64_push 8 v b) AND 63 = ucast (six2 b 0)"
  by (rule bit_word_eqI; auto simp: b64_bits dest: bit_imp_le_length)+

lemma unat_index: "unat (ucast i :: u32) = unat i" for i :: u8
  by (simp add: unsigned_ucast_eq take_bit_nat_eq_self unsigned_less [where 'a = nat, THEN less_le_trans])

lemma six_out:
  "b64_six (b64_push 8 v a) 2 = b64_char (six0 a)" "b64_six (b64_push 8 (b64_push 8 v a) b) 4 = b64_char (six1 a b)"
  "b64_six (b64_push 8 (b64_push 8 v b) c) 6 = b64_char (six2 b c)" "b64_six (b64_push 8 v c) 0 = b64_char (six3 c)"
  "b64_last (b64_push 8 v a) 2 = b64_char (six1 a 0)" "b64_last (b64_push 8 v b) 4 = b64_char (six2 b 0)"
  unfolding b64_six_def b64_last_def
  using six_out_bits [of v a] six_out_bits [of v b] six_out_bits [of v c] by (simp_all add: six_out_bits b64_char_def unat_index)

lemma byte_eqI:
  fixes x y :: u8
  assumes "bit x 0 = bit y 0" "bit x 1 = bit y 1" "bit x 2 = bit y 2" "bit x 3 = bit y 3" "bit x 4 = bit y 4" "bit x 5 = bit y 5" "bit x 6 = bit y 6" "bit x 7 = bit y 7"
  shows "x = y"
proof (rule bit_word_eqI)
  fix n assume "n < LENGTH(8)"
  then have "n \<in> {0, 1, 2, 3, 4, 5, 6, 7}" by auto
  then show "bit x n = bit y n" using assms by auto
qed

lemma eight_out:
  fixes a b c :: u8 and v :: u32
  shows "b64_byte (b64_push 6 (b64_push 6 v (six0 a)) (six1 a b)) 4 = a" "b64_byte (b64_push 6 (b64_push 6 v (six1 a b)) (six2 b c)) 2 = b"
    "b64_byte (b64_push 6 (b64_push 6 v (six2 b c)) (six3 c)) 0 = c"
  unfolding b64_byte_def by (rule byte_eqI; auto simp: b64_bits dest: bit_imp_le_length)+

lemma six_small: "six0 a < 64" "six1 a b < 64" "six2 b c < 64" "six3 c < 64"
proof -
  have small: "x < 64" if "take_bit 6 x = x" for x :: u8
  proof -
    have "unat (take_bit 6 x) < 64" unfolding unsigned_take_bit_eq using take_bit_nat_less_exp [of 6 "unat x"] by simp
    then show ?thesis using that by (simp add: word_less_nat_alt)
  qed
  show "six0 a < 64" "six1 a b < 64" "six2 b c < 64" "six3 c < 64"
    by (rule small, rule bit_word_eqI, auto simp: b64_bits dest: bit_imp_le_length)+
qed

section \<open>Tables\<close>

lemma table_check: "let d = DECODEMAP in list_all (\<lambda>(n, c). d ! unat c = of_nat n \<and> \<not> b64_space c \<and> c \<noteq> 0x3D \<and> c < 0x80 \<and> (of_nat n :: u8) \<noteq> 0xFF) (zip [0..<64] ENCODEMAP)"
  by code_simp

lemma length_ENCODEMAP: "length ENCODEMAP = 64"
  by (simp add: ENCODEMAP_def)

lemma decode_map:
  assumes "i < 64"
  shows "DECODEMAP ! unat (b64_char i) = i \<and> \<not> b64_space (b64_char i) \<and> b64_char i \<noteq> 0x3D \<and> b64_char i < 0x80 \<and> i \<noteq> 0xFF"
proof -
  have i: "unat i < 64" using assms by (simp add: word_less_nat_alt)
  then have "(unat i, b64_char i) \<in> set (zip [0..<64] ENCODEMAP)" unfolding b64_char_def in_set_zip by (intro exI [of _ "unat i"]) (simp add: length_ENCODEMAP)
  then show ?thesis using table_check unfolding Let_def list_all_iff by fastforce
qed

section \<open>Encoding\<close>

lemma flush_steps:
  "b64_flush L v 8 out k = b64_out L out (b64_six v 2) (k 2)"
  "b64_flush L v 10 out k = b64_out L out (b64_six v 4) (k 4)"
  "b64_flush L v 12 out k = b64_out L out (b64_six v 6) (\<lambda>out. b64_out L out (b64_six v 0) (k 0))"
  by (simp_all add: b64_flush.simps)

lemma pad_steps:
  assumes "length out mod 4 = 0"
  shows "b64_pad L out = Inr out"
    "b64_pad L (out @ [x, y]) = b64_out L (out @ [x, y]) 0x3D (\<lambda>out. b64_out L out 0x3D Inr)"
    "b64_pad L (out @ [x, y, z]) = b64_out L (out @ [x, y, z]) 0x3D Inr"
  using assms by (simp_all add: b64_pad.simps mod_Suc b64_out_def)

lemma encode_loop:
  assumes "length out mod 4 = 0"
  shows "b64_encode_loop L bs v 0 out (b64_finish L) = (if length (out @ rfc4648 bs) < L then Inr (out @ rfc4648 bs) else Inl ENOBUFS)"
  using assms
proof (induction bs arbitrary: v out rule: rfc4648.induct)
  case 1
  then show ?case by (simp add: b64_finish_def pad_steps)
next
  case (2 a)
  then show ?case by (simp add: flush_steps six_out b64_finish_def b64_out_def pad_steps Let_def)
next
  case (3 a b)
  then show ?case by (simp add: flush_steps six_out b64_finish_def b64_out_def pad_steps Let_def)
next
  case (4 a b c r)
  let ?q = "[b64_char (six0 a), b64_char (six1 a b), b64_char (six2 b c), b64_char (six3 c)]"
  have "length (out @ ?q) mod 4 = 0" using 4(2) by simp
  from 4(1) [OF this] show ?case by (simp add: flush_steps six_out b64_out_def Let_def)
qed

section \<open>Decoding\<close>

lemma decode_char:
  assumes "i < 64"
  shows "b64_decode_loop L (b64_char i # cs) v rem out = (let v = b64_push 6 v i; rem = rem + 6 in
    if rem \<ge> 8 then (if length out \<ge> L then Some (Inl ENOBUFS) else b64_decode_loop L cs v (rem - 8) (out @ [b64_byte v (rem - 8)]))
    else b64_decode_loop L cs v rem out)"
proof -
  have "\<not> 0x80 \<le> b64_char i" using decode_map [OF assms] by (simp add: not_le)
  then show ?thesis using decode_map [OF assms] by (simp add: Let_def)
qed

lemma decode_pad: "b64_decode_loop L (0x3D # cs) v rem out = Some (b64_rest L v rem out)"
  by (simp add: b64_space_def)

lemma decode_loop:
  assumes "length out \<le> L"
  shows "b64_decode_loop L (rfc4648 bs) v 0 out = Some (if length (out @ bs) \<le> L then Inr (out @ bs) else Inl ENOBUFS)"
  using assms
proof (induction bs arbitrary: v out rule: rfc4648.induct)
  case 1
  then show ?case by (simp add: b64_rest_def)
next
  case (2 a)
  then show ?case by (auto simp: decode_char six_small decode_pad eight_out b64_rest_def Let_def simp del: b64_decode_loop.simps)
next
  case (3 a b)
  then show ?case by (auto simp: decode_char six_small decode_pad eight_out b64_rest_def Let_def simp del: b64_decode_loop.simps)
next
  case (4 a b c r)
  have step: "b64_decode_loop L (rfc4648 (a # b # c # r)) v 0 out = (if length out + 3 \<le> L
      then b64_decode_loop L (rfc4648 r) (b64_push 6 (b64_push 6 (b64_push 6 (b64_push 6 v (six0 a)) (six1 a b)) (six2 b c)) (six3 c)) 0 (out @ [a, b, c]) else Some (Inl ENOBUFS))"
    by (auto simp: decode_char six_small eight_out Let_def simp del: b64_decode_loop.simps)
  show ?case using 4(1) [of "out @ [a, b, c]"] unfolding step by auto
qed

lemma base64_length_small:
  assumes "int (length bs) < 3221225469"
  shows "int (length (rfc4648 bs)) < 4294967296"
proof -
  have "length (rfc4648 bs) \<le> 4 * ((length bs + 2) div 3)"
  proof (induction bs rule: rfc4648.induct)
    case (4 a b c r)
    have "(length (a # b # c # r) + 2) div 3 = (length r + 2 + 1 * 3) div 3" by simp
    also have "\<dots> = 1 + (length r + 2) div 3" by (subst div_mult_self1) simp_all
    finally show ?case using 4 by simp
  qed simp_all
  moreover have "(length bs + 2) div 3 * 3 \<le> length bs + 2" by (rule div_times_less_eq_dividend)
  ultimately show ?thesis using assms by linarith
qed

lemma base64_encode_ok:
  "int (length bs) < 4294967296 \<Longrightarrow> nn_base64_encode bs L = Some (if length (rfc4648 bs) < L then Inr (rfc4648 bs) else Inl ENOBUFS)"
  by (simp add: nn_base64_encode_def encode_loop del: rfc4648.simps)

section \<open>Properties\<close>

text \<open>
  C30: The encoder computes the base64 of RFC 4648, for every input, or says that the buffer is too
  small, exactly if there is no room for the text with its terminating zero; and the decoder
  gives back the bytes, or says that the buffer is too small, exactly if there is no room for them.
\<close>

theorem nn_base64_roundtrip:
  assumes "int (length bs) < 3221225469"
  shows "nn_base64_encode bs L = Some (if length (rfc4648 bs) < L then Inr (rfc4648 bs) else Inl ENOBUFS) \<and>
    nn_base64_decode (rfc4648 bs) M = Some (if length bs \<le> M then Inr bs else Inl ENOBUFS)"
  using assms base64_length_small [OF assms]
  by (simp add: nn_base64_encode_def nn_base64_decode_def encode_loop decode_loop del: rfc4648.simps)

theorem nn_base64_roundtrip_witness:
  "nn_base64_encode [0x66, 0x6F, 0x6F, 0x62] 9 = Some (Inr [0x5A, 0x6D, 0x39, 0x76, 0x59, 0x67, 0x3D, 0x3D]) \<and>
   nn_base64_decode [0x5A, 0x6D, 0x39, 0x76, 0x59, 0x67, 0x3D, 0x3D] 4 = Some (Inr [0x66, 0x6F, 0x6F, 0x62])"
proof -
  have r: "rfc4648 [0x66, 0x6F, 0x6F, 0x62] = [0x5A, 0x6D, 0x39, 0x76, 0x59, 0x67, 0x3D, 0x3D]" by code_simp
  show ?thesis using nn_base64_roundtrip [of "[0x66, 0x6F, 0x6F, 0x62]" 9 4] unfolding r by simp
qed

end
