(* ===== verification/Nn_Backoff.thy ===== *)
theory Nn_Backoff
  imports Nn_Timer
begin

text \<open>
  \<^verbatim>\<open>transports/utils/backoff.c\<close>: the timer for reconnecting, whose interval doubles up to a maximum.
  Numbers are signed 32 bit integers that wrap around.
\<close>

section \<open>Model\<close>

record nn_backoff =
  bo_timer :: nn_timer
  minivl :: u32
  maxivl :: u32
  bo_n :: u32

definition nn_backoff_init :: "u32 \<Rightarrow> u32 \<Rightarrow> nn_backoff" where
  "nn_backoff_init mn mx = \<lparr>bo_timer = nn_timer_init, minivl = mn, maxivl = mx, bo_n = 1\<rparr>"

definition nn_backoff_term :: "nn_backoff \<Rightarrow> unit option" where
  "nn_backoff_term self = nn_timer_term (bo_timer self)"

definition nn_backoff_isidle :: "nn_backoff \<Rightarrow> bool" where
  "nn_backoff_isidle self = nn_timer_isidle (bo_timer self)"

text \<open>The interval, and the state for the next one.\<close>

definition backoff_ivl :: "nn_backoff \<Rightarrow> u32 \<times> nn_backoff" where
  "backoff_ivl self = (let timeout = (bo_n self - 1) * minivl self in
     if sint timeout > sint (maxivl self) then (maxivl self, self) else (timeout, self\<lparr>bo_n := bo_n self * 2\<rparr>))"

definition nn_backoff_start :: "nn_backoff \<Rightarrow> nn_backoff option" where
  "nn_backoff_start self = (case backoff_ivl self of (timeout, self) \<Rightarrow> do {
     t \<leftarrow> nn_timer_start (bo_timer self) (sint timeout);
     Some (self\<lparr>bo_timer := t\<rparr>) })"

definition nn_backoff_stop :: "nn_backoff \<Rightarrow> nn_backoff option" where
  "nn_backoff_stop self = do { t \<leftarrow> nn_timer_stop (bo_timer self); Some (self\<lparr>bo_timer := t\<rparr>) }"

definition nn_backoff_reset :: "nn_backoff \<Rightarrow> nn_backoff" where
  "nn_backoff_reset self = self\<lparr>bo_n := 1\<rparr>"

section \<open>Intervals\<close>

text \<open>The timer is started, expires and stops, a number of times.\<close>

fun backoff_waits :: "nat \<Rightarrow> nn_backoff \<Rightarrow> nn_backoff option" where
  "backoff_waits 0 self = Some self"
| "backoff_waits (Suc k) self = do {
     self \<leftarrow> backoff_waits k self;
     self \<leftarrow> nn_backoff_start self;
     Some (self\<lparr>bo_timer := nn_timer_init\<rparr>) }"

text \<open>The limits have room for one doubling.\<close>

definition backoff_sane :: "u32 \<Rightarrow> u32 \<Rightarrow> bool" where
  "backoff_sane mn mx \<longleftrightarrow> 0 < sint mn \<and> 0 \<le> sint mx \<and> 2 * sint mx + sint mn < 2147483647"

definition backoff_at :: "nat \<Rightarrow> u32 \<Rightarrow> u32 \<Rightarrow> nn_backoff \<Rightarrow> bool" where
  "backoff_at k mn mx b \<longleftrightarrow> bo_timer b = nn_timer_init \<and> minivl b = mn \<and> maxivl b = mx \<and>
     (\<exists>j \<le> k. sint (bo_n b) = 2 ^ j \<and> (2 ^ j - 1) * sint mn < 2147483648 \<and> (j < k \<longrightarrow> sint mx < (2 ^ j - 1) * sint mn))"

lemma sint_small: "- (2 ^ 31) \<le> i \<Longrightarrow> i < 2 ^ 31 \<Longrightarrow> sint (word_of_int i :: u32) = i"
  by (simp add: signed_of_int signed_take_bit_int_eq_self)

lemma sint_arith:
  fixes a b :: u32
  shows "- (2 ^ 31) \<le> sint a * sint b \<Longrightarrow> sint a * sint b < 2 ^ 31 \<Longrightarrow> sint (a * b) = sint a * sint b"
    "- (2 ^ 31) \<le> sint a - 1 \<Longrightarrow> sint a - 1 < 2 ^ 31 \<Longrightarrow> sint (a - 1) = sint a - 1"
proof -
  have m: "word_of_int (sint a * sint b) = a * b" and d: "word_of_int (sint a - 1) = a - 1" by simp_all
  show "sint (a * b) = sint a * sint b" if "- (2 ^ 31) \<le> sint a * sint b" "sint a * sint b < 2 ^ 31" using sint_small [OF that] unfolding m .
  show "sint (a - 1) = sint a - 1" if "- (2 ^ 31) \<le> sint a - 1" "sint a - 1 < 2 ^ 31" using sint_small [OF that] unfolding d .
qed

lemma start_idle: "0 \<le> t \<Longrightarrow> \<exists>tm. nn_timer_start nn_timer_init t = Some tm \<and> tm_timeout tm = t"
  by (simp add: nn_timer_start_def nn_timer_init_def nn_timer_isidle_def nn_timer_handler_def nn_worker_execute_def Let_def)

lemma backoff_ivl_at:
  assumes sane: "backoff_sane mn mx" and b: "backoff_at k mn mx b"
  shows "\<exists>t b'. backoff_ivl b = (t, b') \<and> sint t = min (sint mx) ((2 ^ k - 1) * sint mn) \<and> bo_timer b' = nn_timer_init \<and> backoff_at (Suc k) mn mx b'"
proof -
  obtain j where j: "j \<le> k" "sint (bo_n b) = 2 ^ j" "(2 ^ j - 1) * sint mn < 2147483648" "j < k \<longrightarrow> sint mx < (2 ^ j - 1) * sint mn"
    using b by (auto simp: backoff_at_def)
  have f: "minivl b = mn" "maxivl b = mx" "bo_timer b = nn_timer_init" using b by (simp_all add: backoff_at_def)
  have mn: "0 < sint mn" "0 \<le> sint mx" "2 * sint mx + sint mn < 2147483647" using sane by (simp_all add: backoff_sane_def)
  have p: "(1::int) \<le> 2 ^ j" by simp
  let ?t = "(bo_n b - 1) * mn"
  have s1: "sint (bo_n b - 1) = 2 ^ j - 1" using sint_arith(2) [of "bo_n b"] j(2) p sint_lt [of "bo_n b"] by simp
  have "0 \<le> (2 ^ j - 1) * sint mn" using p mn(1) by simp
  then have t: "sint ?t = (2 ^ j - 1) * sint mn" using sint_arith(1) [of "bo_n b - 1" mn] j(3) unfolding s1 by simp
  show ?thesis
  proof (cases "sint mx < (2 ^ j - 1) * sint mn")
    case True
    have "(2::int) ^ j \<le> 2 ^ k" using j(1) by simp
    then have "(2 ^ j - 1) * sint mn \<le> (2 ^ k - 1) * sint mn" using mn(1) by (intro mult_right_mono diff_right_mono) simp_all
    then have "min (sint mx) ((2 ^ k - 1) * sint mn) = sint mx" using True by simp
    then show ?thesis using True t f b j by (auto simp: backoff_ivl_def backoff_at_def Let_def intro!: exI [of _ j])
  next
    case False
    then have e: "j = k" using j(1,4) by auto
    have "(2 ^ j - 1) * 1 \<le> (2 ^ j - 1) * sint mn" using mn(1) p by (intro mult_left_mono) simp_all
    then have n: "2 ^ j - 1 \<le> sint mx" using False by simp
    have two: "sint (2::u32) = 2" by simp
    have "2 ^ j * 2 < (2147483648::int)" using n mn by linarith
    then have n2: "sint (bo_n b * 2) = 2 ^ Suc j" using sint_arith(1) [of "bo_n b" 2] p unfolding j(2) two by simp
    have "(2 ^ Suc j - 1) * sint mn = 2 * ((2 ^ j - 1) * sint mn) + sint mn" by (simp add: algebra_simps)
    then have n3: "(2 ^ Suc j - 1) * sint mn < 2147483648" using False mn(3) by simp
    have "backoff_at (Suc k) mn mx (b\<lparr>bo_n := bo_n b * 2\<rparr>)" using f n2 n3 e unfolding backoff_at_def by (intro conjI exI [of _ "Suc j"]) simp_all
    then show ?thesis using False t f e by (simp add: backoff_ivl_def Let_def)
  qed
qed

lemma backoff_start_at:
  assumes sane: "backoff_sane mn mx" and b: "backoff_at k mn mx b"
  shows "\<exists>b'. nn_backoff_start b = Some b' \<and> tm_timeout (bo_timer b') = min (sint mx) ((2 ^ k - 1) * sint mn) \<and> backoff_at (Suc k) mn mx (b'\<lparr>bo_timer := nn_timer_init\<rparr>)"
proof -
  obtain t b' where t: "backoff_ivl b = (t, b')" "sint t = min (sint mx) ((2 ^ k - 1) * sint mn)" "bo_timer b' = nn_timer_init" "backoff_at (Suc k) mn mx b'"
    using backoff_ivl_at [OF assms] by blast
  have "0 \<le> sint t" using t(2) sane by (simp add: backoff_sane_def)
  then obtain tm where "nn_timer_start nn_timer_init (sint t) = Some tm" "tm_timeout tm = sint t" using start_idle by blast
  then show ?thesis using t by (auto simp: nn_backoff_start_def backoff_at_def)
qed

text \<open>
  C32: The interval before the attempt number \<open>k\<close> to reconnect is \<open>(2\<^sup>k - 1)\<close> times the minimum, or the
  maximum if that is less; the timer starts each time, and no number overflows, if the limits leave
  room for one doubling.
\<close>

theorem nn_backoff_intervals:
  assumes "backoff_sane mn mx"
  shows "\<exists>b b'. backoff_waits k (nn_backoff_init mn mx) = Some b \<and> nn_backoff_start b = Some b' \<and>
    tm_timeout (bo_timer b') = min (sint mx) ((2 ^ k - 1) * sint mn)"
proof -
  have "\<exists>b. backoff_waits k (nn_backoff_init mn mx) = Some b \<and> backoff_at k mn mx b"
  proof (induction k)
    case 0
    then show ?case by (auto simp: nn_backoff_init_def backoff_at_def)
  next
    case (Suc k)
    then show ?case using backoff_start_at [OF assms] by fastforce
  qed
  then show ?thesis using backoff_start_at [OF assms] by blast
qed

theorem nn_backoff_intervals_witness:
  "\<exists>b b'. backoff_waits 3 (nn_backoff_init 100 1000) = Some b \<and> nn_backoff_start b = Some b' \<and> tm_timeout (bo_timer b') = 700"
  using nn_backoff_intervals [of 100 1000 3] by (simp add: backoff_sane_def)

text \<open>
  With a maximum near the largest integer the interval overflows: with the default minimum of 100
  milliseconds and a maximum of 2147483647, which both are accepted, the timer is started with a
  negative interval at attempt 25, and that aborts the process.
\<close>

lemma nn_backoff_overflows:
  "backoff_waits 25 (nn_backoff_init 100 2147483647) \<noteq> None \<and> backoff_waits 26 (nn_backoff_init 100 2147483647) = None"
  by code_simp

end
