(* ===== verification/Nn_Http.thy ===== *)
theory Nn_Http
  imports Nn_Prelude
begin

text \<open>
  The functions of \<^verbatim>\<open>transports/ws/ws_handshake.c\<close> that take the headers of the opening handshake
  apart: matching of tokens, values up to a separator with the spaces around them dropped, and
  the loop over header fields.  A string is the list of its bytes without the terminating
  zero; a pointer into a string is the rest of the string from there.
\<close>

section \<open>Strings\<close>

definition str :: "string \<Rightarrow> bytes" where
  "str s = map of_char s"

text \<open>The string in a buffer.\<close>

definition cstr :: "bytes \<Rightarrow> bytes" where
  "cstr buf = takeWhile (\<lambda>b. b \<noteq> 0) buf"

definition tolower :: "u8 \<Rightarrow> u8" where
  "tolower c = (if 0x41 \<le> c \<and> c \<le> 0x5A then c + 0x20 else c)"

definition starts :: "bytes \<Rightarrow> bytes \<Rightarrow> bool" where
  "starts n s \<longleftrightarrow> take (length n) s = n"

fun strstr :: "bytes \<Rightarrow> bytes \<Rightarrow> bytes option" where
  "strstr s n = (if starts n s then Some s else case s of [] \<Rightarrow> None | c # s \<Rightarrow> strstr s n)"

declare strstr.simps [simp del]

definition NN_WS_HANDSHAKE_CRLF :: bytes where
  "NN_WS_HANDSHAKE_CRLF = [0x0D, 0x0A]"

definition NN_WS_HANDSHAKE_TERMSEQ :: bytes where
  "NN_WS_HANDSHAKE_TERMSEQ = [0x0D, 0x0A, 0x0D, 0x0A]"

section \<open>Tokens and values\<close>

text \<open>The two strings are compared until one of them ends: what is left of both, or nothing if they differ.\<close>

fun match_loop :: "bool \<Rightarrow> bytes \<Rightarrow> bytes \<Rightarrow> (bytes \<times> bytes) option" where
  "match_loop case_insensitive (t # ts) (p # ps) =
     (if (if case_insensitive then tolower t \<noteq> tolower p else t \<noteq> p) then None else match_loop case_insensitive ts ps)"
| "match_loop case_insensitive ts ps = Some (ts, ps)"

definition nn_ws_match_token :: "bytes \<Rightarrow> bytes \<Rightarrow> bool \<Rightarrow> bool \<Rightarrow> bytes option option" where
  "nn_ws_match_token token subj case_insensitive ignore_leading_sp =
     (let pos = (if ignore_leading_sp then dropWhile (\<lambda>c. c = 0x20) subj else subj) in
      case match_loop case_insensitive token pos of None \<Rightarrow> Some None
      | Some (token, pos) \<Rightarrow>
          if pos = [] \<and> token \<noteq> [] then Some None
          else do { nn_assert (token = []); Some (Some pos) })"

text \<open>The value: where it begins, how long it is; and where the subject goes on.\<close>

definition nn_ws_match_value :: "bytes \<Rightarrow> bytes \<Rightarrow> bool \<Rightarrow> bool \<Rightarrow> (bytes \<times> nat \<times> bytes) option" where
  "nn_ws_match_value termseq subj ignore_leading_sp ignore_trailing_sp = (case strstr subj termseq of
     None \<Rightarrow> None
   | Some end \<Rightarrow>
       (let v = take (length subj - length end) subj;
            v = (if ignore_leading_sp then dropWhile (\<lambda>c. c = 0x20) v else v);
            start = v @ end;
            subj = drop (length termseq) end in
        if v = [] then Some (start, 0, subj)
        else (let v = (if ignore_trailing_sp then rev (dropWhile (\<lambda>c. c = 0x20) (rev v)) else v) in Some (start, length v, subj))))"

definition nn_ws_validate_value :: "bytes \<Rightarrow> bytes \<Rightarrow> nat \<Rightarrow> bool \<Rightarrow> bool" where
  "nn_ws_validate_value expected subj subj_len case_insensitive \<longleftrightarrow>
     length expected = subj_len \<and> match_loop case_insensitive expected subj \<noteq> None"

section \<open>Header fields\<close>

text \<open>A pointer and a length: not yet written, null, or a place in the buffer.\<close>

datatype hs_field = HS_JUNK | HS_NULL | HS_AT bytes nat

record ws_headers =
  h_host :: hs_field
  h_origin :: hs_field
  h_key :: hs_field
  h_upgrade :: hs_field
  h_conn :: hs_field
  h_version :: hs_field
  h_protocol :: hs_field
  h_server :: hs_field
  h_accept_key :: hs_field
  h_status_code :: hs_field
  h_reason_phrase :: hs_field
  h_uri :: hs_field
  h_extensions :: hs_field

text \<open>One turn of the loops over the header fields: there is another field, it was the empty line, or the line does not end.\<close>

datatype hs_line = HS_NEXT bytes | HS_LAST bytes | HS_BAD

definition hs_value :: "((hs_field \<Rightarrow> hs_field) \<Rightarrow> ws_headers \<Rightarrow> ws_headers) \<Rightarrow> bytes \<Rightarrow> ws_headers \<Rightarrow> hs_line \<times> ws_headers" where
  "hs_value upd pos h = (case nn_ws_match_value NN_WS_HANDSHAKE_CRLF pos True True of
     None \<Rightarrow> (HS_BAD, upd (\<lambda>_. HS_NULL) h)
   | Some (addr, len, pos) \<Rightarrow> (HS_NEXT pos, upd (\<lambda>_. HS_AT addr len) h))"

definition hs_try ::
  "string \<Rightarrow> ((hs_field \<Rightarrow> hs_field) \<Rightarrow> ws_headers \<Rightarrow> ws_headers) \<Rightarrow> bytes \<Rightarrow> ws_headers \<Rightarrow> (hs_line \<times> ws_headers) option \<Rightarrow> (hs_line \<times> ws_headers) option" where
  "hs_try token upd pos h otherwise = do {
     r \<leftarrow> nn_ws_match_token (str token) pos True False;
     case r of Some pos \<Rightarrow> Some (hs_value upd pos h) | None \<Rightarrow> otherwise }"

text \<open>The empty line ends the headers; unknown fields are skipped.\<close>

definition hs_other :: "bytes \<Rightarrow> ws_headers \<Rightarrow> (hs_line \<times> ws_headers) option" where
  "hs_other pos h = do {
     r \<leftarrow> nn_ws_match_token NN_WS_HANDSHAKE_CRLF pos True False;
     case r of Some pos \<Rightarrow> Some (HS_LAST pos, h) | None \<Rightarrow> Some (hs_value (\<lambda>f h. h) pos h) }"

definition client_header :: "bytes \<Rightarrow> ws_headers \<Rightarrow> (hs_line \<times> ws_headers) option" where
  "client_header pos h =
     hs_try ''Host:'' h_host_update pos h (
     hs_try ''Origin:'' h_origin_update pos h (
     hs_try ''Sec-WebSocket-Key:'' h_key_update pos h (
     hs_try ''Upgrade:'' h_upgrade_update pos h (
     hs_try ''Connection:'' h_conn_update pos h (
     hs_try ''Sec-WebSocket-Version:'' h_version_update pos h (
     hs_try ''Sec-WebSocket-Protocol:'' h_protocol_update pos h (
     hs_try ''Sec-WebSocket-Extensions:'' h_extensions_update pos h (
     hs_other pos h))))))))"

definition server_header :: "bytes \<Rightarrow> ws_headers \<Rightarrow> (hs_line \<times> ws_headers) option" where
  "server_header pos h =
     hs_try ''Server:'' h_server_update pos h (
     hs_try ''Sec-WebSocket-Accept:'' h_accept_key_update pos h (
     hs_try ''Upgrade:'' h_upgrade_update pos h (
     hs_try ''Connection:'' h_conn_update pos h (
     hs_try ''Sec-WebSocket-Version-Server:'' h_version_update pos h (
     hs_try ''Sec-WebSocket-Protocol-Server:'' h_protocol_update pos h (
     hs_try ''Sec-WebSocket-Extensions:'' h_extensions_update pos h (
     hs_other pos h)))))))"

partial_function (option) header_loop ::
  "(bytes \<Rightarrow> ws_headers \<Rightarrow> (hs_line \<times> ws_headers) option) \<Rightarrow> bytes \<Rightarrow> ws_headers \<Rightarrow> (bytes option \<times> ws_headers) option" where
  "header_loop header pos h =
     (if pos = [] then Some (Some pos, h)
      else do {
        (l, h) \<leftarrow> header pos h;
        case l of HS_LAST pos \<Rightarrow> Some (Some pos, h) | HS_BAD \<Rightarrow> Some (None, h) | HS_NEXT pos \<Rightarrow> header_loop header pos h })"

declare header_loop.simps [code]

section \<open>Tokens and values, characterised\<close>

abbreviation CRLF :: bytes where
  "CRLF \<equiv> NN_WS_HANDSHAKE_CRLF"

abbreviation TERMSEQ :: bytes where
  "TERMSEQ \<equiv> NN_WS_HANDSHAKE_TERMSEQ"

lemma match_loop_Some: "match_loop ci ts ps = Some (ts', ps') \<Longrightarrow> ts' = [] \<or> ps' = []"
  by (induction ci ts ps rule: match_loop.induct) (auto split: if_splits)

lemma match_loop_same [simp]: "match_loop ci ts (ts @ ps) = Some ([], ps)"
  by (induction ts) (cases ps; auto)+

lemma match_loop_miss: "match_loop ci ts ps = None \<Longrightarrow> match_loop ci ts (ps @ qs) = None"
  by (induction ci ts ps rule: match_loop.induct) auto

lemma match_loop_suffix: "match_loop ci ts ps = Some ([], ps') \<Longrightarrow> length ps = length ts + length ps'"
  by (induction ci ts ps rule: match_loop.induct) (auto split: if_splits)

text \<open>The assertion at the end of \<^verbatim>\<open>nn_ws_match_token\<close> holds.\<close>

lemma match_token_eq:
  "nn_ws_match_token tok s ci False = Some (case match_loop ci tok s of Some ([], p) \<Rightarrow> Some p | _ \<Rightarrow> None)"
  using match_loop_Some [of ci tok s] by (auto simp: nn_ws_match_token_def split: option.splits list.splits)

lemma token_hit [simp]: "nn_ws_match_token tok (tok @ s) ci False = Some (Some s)"
  by (simp add: match_token_eq)

lemma token_miss: "match_loop ci tok p = None \<Longrightarrow> nn_ws_match_token tok (p @ s) ci False = Some None"
  by (simp add: match_token_eq match_loop_miss)

lemma token_shorter: "nn_ws_match_token tok s ci False = Some (Some p) \<Longrightarrow> length s = length tok + length p"
  by (auto simp: match_token_eq match_loop_suffix split: option.splits list.splits)

lemma starts_length: "starts n s \<Longrightarrow> length n \<le> length s"
  unfolding starts_def by (metis length_take min.cobounded1)

lemma strstr_Some: "strstr s n = Some e \<Longrightarrow> (\<exists>p. s = p @ e) \<and> starts n e"
proof (induction s)
  case Nil
  then show ?case by (auto simp: strstr.simps [of "[]"] split: if_splits)
next
  case (Cons c s)
  then show ?case by (auto simp: strstr.simps [of "c # s"] split: if_splits)
qed

lemma strstr_skip: "c \<noteq> d \<Longrightarrow> strstr (c # s) (d # n) = strstr s (d # n)"
  by (subst strstr.simps) (auto simp: starts_def)

lemma strstr_skips: "d \<notin> set v \<Longrightarrow> strstr (v @ s) (d # n) = strstr s (d # n)"
  by (induction v) (auto simp: strstr_skip)

lemma strstr_here [simp]: "strstr (n @ s) n = Some (n @ s)"
  by (subst strstr.simps) (simp add: starts_def)

lemma value_shorter:
  assumes "nn_ws_match_value n s lead trail = Some (a, len, s')"
  shows "length s' + length n \<le> length s"
proof -
  obtain e where e: "strstr s n = Some e" "s' = drop (length n) e"
    using assms by (auto simp: nn_ws_match_value_def Let_def split: option.splits if_splits)
  have "length n \<le> length e" using strstr_Some [OF e(1)] starts_length by blast
  moreover have "length e \<le> length s" using strstr_Some [OF e(1)] by auto
  ultimately show ?thesis using e(2) by simp
qed

text \<open>A text with no space at its ends.\<close>

definition trimmed :: "bytes \<Rightarrow> bool" where
  "trimmed v \<longleftrightarrow> (v = [] \<or> hd v \<noteq> 0x20 \<and> last v \<noteq> 0x20)"

lemma value_hit:
  assumes "d \<notin> set v" "trimmed v" "d \<noteq> 0x20"
  shows "nn_ws_match_value (d # n) (0x20 # v @ (d # n) @ s) True True = Some (v @ (d # n) @ s, length v, s)"
proof -
  have "strstr ((0x20 # v) @ (d # n) @ s) (d # n) = Some ((d # n) @ s)"
    using assms strstr_skips [of d "0x20 # v" "(d # n) @ s"] strstr_here [of "d # n" s] by auto
  then have f: "strstr (0x20 # v @ (d # n) @ s) (d # n) = Some ((d # n) @ s)" by simp
  have t: "dropWhile (\<lambda>c. c = 0x20) v = v" using assms(2) by (cases v) (simp_all add: trimmed_def)
  have u: "dropWhile (\<lambda>c. c = 0x20) (rev v) = rev v" using assms(2) by (cases v rule: rev_cases) (simp_all add: trimmed_def)
  have "(\<forall>x \<in> set v. x = 0x20) \<longrightarrow> v = []" using assms(2) by (cases v) (auto simp: trimmed_def)
  then show ?thesis unfolding nn_ws_match_value_def f using t u by (simp add: Let_def)
qed

lemma value_plain:
  assumes "d \<notin> set v"
  shows "nn_ws_match_value (d # n) (v @ (d # n) @ s) False False = Some (v @ (d # n) @ s, length v, s)"
proof -
  have f: "strstr (v @ (d # n) @ s) (d # n) = Some ((d # n) @ s)" using strstr_skips [OF assms] strstr_here [of "d # n" s] by simp
  show ?thesis unfolding nn_ws_match_value_def f by (simp add: Let_def)
qed

section \<open>The loop ends\<close>

text \<open>Whatever the text, a turn of the loop either ends it or leaves less of the text.\<close>

definition shortens :: "bytes \<Rightarrow> (hs_line \<times> ws_headers) option \<Rightarrow> bool" where
  "shortens pos r \<longleftrightarrow> (\<exists>l h. r = Some (l, h) \<and> (\<forall>pos'. l = HS_NEXT pos' \<longrightarrow> length pos' < length pos))"

lemma value_shortens: "length pos \<le> length p \<Longrightarrow> shortens p (Some (hs_value upd pos h))"
  by (auto simp: shortens_def hs_value_def NN_WS_HANDSHAKE_CRLF_def dest!: value_shorter split: option.splits)

lemma try_shortens [intro]: "shortens pos other \<Longrightarrow> shortens pos (hs_try tok upd pos h other)"
proof -
  assume o: "shortens pos other"
  obtain r where r: "nn_ws_match_token (str tok) pos True False = Some r" by (simp add: match_token_eq)
  show ?thesis
  proof (cases r)
    case (Some p)
    then have "length p \<le> length pos" using token_shorter [of "str tok" pos True p] r by simp
    then show ?thesis using r Some value_shortens [of p pos upd h] by (simp add: hs_try_def)
  qed (use r o in \<open>simp add: hs_try_def\<close>)
qed

lemma other_shortens [intro]: "shortens pos (hs_other pos h)"
proof -
  obtain r where r: "nn_ws_match_token CRLF pos True False = Some r" by (simp add: match_token_eq)
  then show ?thesis using value_shortens [of pos pos "\<lambda>f h. h" h] by (cases r) (auto simp: hs_other_def shortens_def)
qed

lemma client_header_shortens: "shortens pos (client_header pos h)"
  unfolding client_header_def by (intro try_shortens other_shortens)

lemma server_header_shortens: "shortens pos (server_header pos h)"
  unfolding server_header_def by (intro try_shortens other_shortens)

lemma header_loop_ends:
  assumes "\<And>pos h. shortens pos (header pos h)"
  shows "\<exists>r. header_loop header pos h = Some r"
proof (induction "length pos" arbitrary: pos h rule: less_induct)
  case less
  obtain l h' where l: "header pos h = Some (l, h')" "\<And>pos'. l = HS_NEXT pos' \<Longrightarrow> length pos' < length pos"
    using assms [of pos h] by (auto simp: shortens_def)
  show ?case
  proof (cases l)
    case (HS_NEXT pos')
    then show ?thesis using less [OF l(2) [OF HS_NEXT], of h'] l(1) by (subst header_loop.simps) auto
  qed (use l(1) in \<open>subst header_loop.simps; auto\<close>)+
qed

section \<open>Lines\<close>

lemma hs_try_hit:
  assumes "0x0D \<notin> set v" "trimmed v"
  shows "hs_try tok upd (str tok @ 0x20 # v @ CRLF @ s) h other = Some (HS_NEXT s, upd (\<lambda>_. HS_AT (v @ CRLF @ s) (length v)) h)"
  using value_hit [of "0x0D" v "[0x0A]" s] assms by (simp add: hs_try_def hs_value_def NN_WS_HANDSHAKE_CRLF_def)

lemma hs_try_miss: "match_loop True (str tok) (str l) = None \<Longrightarrow> hs_try tok upd (str l @ s) h other = other"
  by (simp add: hs_try_def token_miss)

lemma hs_other_skip:
  assumes "match_loop True CRLF (str l) = None" "0x0D \<notin> set (str l @ 0x20 # v)"
  shows "hs_other (str l @ 0x20 # v @ CRLF @ s) h = Some (HS_NEXT s, h)"
proof -
  have "\<exists>a n. nn_ws_match_value CRLF (str l @ 0x20 # v @ CRLF @ s) True True = Some (a, n, s)"
  proof -
    have "strstr ((str l @ 0x20 # v) @ CRLF @ s) CRLF = Some (CRLF @ s)"
      using strstr_skips [OF assms(2), of "CRLF @ s" "[0x0A]"] strstr_here [of CRLF s] by (simp add: NN_WS_HANDSHAKE_CRLF_def)
    then have "strstr (str l @ 0x20 # v @ CRLF @ s) CRLF = Some (CRLF @ s)" by simp
    then show ?thesis unfolding nn_ws_match_value_def by (simp add: Let_def)
  qed
  then show ?thesis using token_miss [OF assms(1), of "0x20 # v @ CRLF @ s"] by (auto simp: hs_other_def hs_value_def)
qed

lemmas hs_eval = str_def tolower_def NN_WS_HANDSHAKE_CRLF_def

lemma token_misses:
  "match_loop True (str ''Host:'') (str ''Upgrade:'') = None"
  "match_loop True (str ''Origin:'') (str ''Upgrade:'') = None"
  "match_loop True (str ''Sec-WebSocket-Key:'') (str ''Upgrade:'') = None"
  "match_loop True (str ''Host:'') (str ''Connection:'') = None"
  "match_loop True (str ''Origin:'') (str ''Connection:'') = None"
  "match_loop True (str ''Sec-WebSocket-Key:'') (str ''Connection:'') = None"
  "match_loop True (str ''Upgrade:'') (str ''Connection:'') = None"
  "match_loop True (str ''Host:'') (str ''Sec-WebSocket-Key:'') = None"
  "match_loop True (str ''Origin:'') (str ''Sec-WebSocket-Key:'') = None"
  "match_loop True (str ''Host:'') (str ''Sec-WebSocket-Version:'') = None"
  "match_loop True (str ''Origin:'') (str ''Sec-WebSocket-Version:'') = None"
  "match_loop True (str ''Sec-WebSocket-Key:'') (str ''Sec-WebSocket-Version:'') = None"
  "match_loop True (str ''Upgrade:'') (str ''Sec-WebSocket-Version:'') = None"
  "match_loop True (str ''Connection:'') (str ''Sec-WebSocket-Version:'') = None"
  "match_loop True (str ''Host:'') (str ''Sec-WebSocket-Protocol:'') = None"
  "match_loop True (str ''Origin:'') (str ''Sec-WebSocket-Protocol:'') = None"
  "match_loop True (str ''Sec-WebSocket-Key:'') (str ''Sec-WebSocket-Protocol:'') = None"
  "match_loop True (str ''Upgrade:'') (str ''Sec-WebSocket-Protocol:'') = None"
  "match_loop True (str ''Connection:'') (str ''Sec-WebSocket-Protocol:'') = None"
  "match_loop True (str ''Sec-WebSocket-Version:'') (str ''Sec-WebSocket-Protocol:'') = None"
  "match_loop True (str ''Server:'') (str ''Upgrade:'') = None"
  "match_loop True (str ''Sec-WebSocket-Accept:'') (str ''Upgrade:'') = None"
  "match_loop True (str ''Server:'') (str ''Connection:'') = None"
  "match_loop True (str ''Sec-WebSocket-Accept:'') (str ''Connection:'') = None"
  "match_loop True (str ''Server:'') (str ''Sec-WebSocket-Accept:'') = None"
  "match_loop True (str ''Server:'') (str ''Sec-WebSocket-Protocol:'') = None"
  "match_loop True (str ''Sec-WebSocket-Accept:'') (str ''Sec-WebSocket-Protocol:'') = None"
  "match_loop True (str ''Sec-WebSocket-Version-Server:'') (str ''Sec-WebSocket-Protocol:'') = None"
  "match_loop True (str ''Sec-WebSocket-Protocol-Server:'') (str ''Sec-WebSocket-Protocol:'') = None"
  "match_loop True (str ''Sec-WebSocket-Extensions:'') (str ''Sec-WebSocket-Protocol:'') = None"
  by (simp_all add: str_def tolower_def)

lemma token_misses_end:
  "nn_ws_match_token (str ''Host:'') CRLF True False = Some None"
  "nn_ws_match_token (str ''Origin:'') CRLF True False = Some None"
  "nn_ws_match_token (str ''Sec-WebSocket-Key:'') CRLF True False = Some None"
  "nn_ws_match_token (str ''Upgrade:'') CRLF True False = Some None"
  "nn_ws_match_token (str ''Connection:'') CRLF True False = Some None"
  "nn_ws_match_token (str ''Sec-WebSocket-Version:'') CRLF True False = Some None"
  "nn_ws_match_token (str ''Sec-WebSocket-Protocol:'') CRLF True False = Some None"
  "nn_ws_match_token (str ''Sec-WebSocket-Extensions:'') CRLF True False = Some None"
  "nn_ws_match_token (str ''Server:'') CRLF True False = Some None"
  "nn_ws_match_token (str ''Sec-WebSocket-Accept:'') CRLF True False = Some None"
  "nn_ws_match_token (str ''Sec-WebSocket-Version-Server:'') CRLF True False = Some None"
  "nn_ws_match_token (str ''Sec-WebSocket-Protocol-Server:'') CRLF True False = Some None"
  by (simp_all add: match_token_eq hs_eval)

lemma client_header_lines:
  assumes "0x0D \<notin> set v" "trimmed v"
  shows "client_header (str ''Host:'' @ 0x20 # v @ CRLF @ s) h = Some (HS_NEXT s, h\<lparr>h_host := HS_AT (v @ CRLF @ s) (length v)\<rparr>)"
    "client_header (str ''Upgrade:'' @ 0x20 # v @ CRLF @ s) h = Some (HS_NEXT s, h\<lparr>h_upgrade := HS_AT (v @ CRLF @ s) (length v)\<rparr>)"
    "client_header (str ''Connection:'' @ 0x20 # v @ CRLF @ s) h = Some (HS_NEXT s, h\<lparr>h_conn := HS_AT (v @ CRLF @ s) (length v)\<rparr>)"
    "client_header (str ''Sec-WebSocket-Key:'' @ 0x20 # v @ CRLF @ s) h = Some (HS_NEXT s, h\<lparr>h_key := HS_AT (v @ CRLF @ s) (length v)\<rparr>)"
    "client_header (str ''Sec-WebSocket-Version:'' @ 0x20 # v @ CRLF @ s) h = Some (HS_NEXT s, h\<lparr>h_version := HS_AT (v @ CRLF @ s) (length v)\<rparr>)"
    "client_header (str ''Sec-WebSocket-Protocol:'' @ 0x20 # v @ CRLF @ s) h = Some (HS_NEXT s, h\<lparr>h_protocol := HS_AT (v @ CRLF @ s) (length v)\<rparr>)"
  by (simp_all add: client_header_def hs_try_miss token_misses hs_try_hit assms)

lemma server_header_lines:
  assumes "0x0D \<notin> set v" "trimmed v"
  shows "server_header (str ''Upgrade:'' @ 0x20 # v @ CRLF @ s) h = Some (HS_NEXT s, h\<lparr>h_upgrade := HS_AT (v @ CRLF @ s) (length v)\<rparr>)"
    "server_header (str ''Connection:'' @ 0x20 # v @ CRLF @ s) h = Some (HS_NEXT s, h\<lparr>h_conn := HS_AT (v @ CRLF @ s) (length v)\<rparr>)"
    "server_header (str ''Sec-WebSocket-Accept:'' @ 0x20 # v @ CRLF @ s) h = Some (HS_NEXT s, h\<lparr>h_accept_key := HS_AT (v @ CRLF @ s) (length v)\<rparr>)"
    "server_header (str ''Sec-WebSocket-Protocol:'' @ 0x20 # v @ CRLF @ s) h = Some (HS_NEXT s, h)"
proof -
  have c: "match_loop True CRLF (str ''Sec-WebSocket-Protocol:'') = None" "0x0D \<notin> set (str ''Sec-WebSocket-Protocol:'')" by (simp_all add: hs_eval)
  show "server_header (str ''Sec-WebSocket-Protocol:'' @ 0x20 # v @ CRLF @ s) h = Some (HS_NEXT s, h)"
    unfolding server_header_def using c assms by (simp add: hs_try_miss token_misses hs_other_skip)
qed (simp_all add: server_header_def hs_try_miss token_misses hs_try_hit assms)

lemma header_last: "client_header CRLF h = Some (HS_LAST [], h)" "server_header CRLF h = Some (HS_LAST [], h)"
  using token_hit [of CRLF "[]" True]
  by (simp_all add: client_header_def server_header_def hs_try_def hs_other_def token_misses_end)

section \<open>Where the headers end\<close>

text \<open>
  How much of the end of the text received so far may be the beginning of the sequence that ends the
  headers.  So many bytes are missing at least, and so many are asked for next.
\<close>

fun termseq_tail :: "bytes \<Rightarrow> nat \<Rightarrow> nat \<Rightarrow> nat" where
  "termseq_tail buf pos 0 = 0"
| "termseq_tail buf pos (Suc i) =
     (if take (Suc i) (drop (pos - Suc i) buf) = take (Suc i) NN_WS_HANDSHAKE_TERMSEQ then Suc i else termseq_tail buf pos i)"

lemma tail_le: "termseq_tail buf pos i \<le> i"
  by (induction i) auto

lemma tail_ge: "0 < j \<Longrightarrow> j \<le> i \<Longrightarrow> take j (drop (pos - j) buf) = take j TERMSEQ \<Longrightarrow> j \<le> termseq_tail buf pos i"
  by (induction i) (auto simp: le_Suc_eq)

lemma tail_matches: "termseq_tail buf pos i = j \<Longrightarrow> 0 < j \<Longrightarrow> take j (drop (pos - j) buf) = take j TERMSEQ"
  by (induction i) (auto split: if_splits)

lemma strstr_first: "strstr s n = Some e \<Longrightarrow> i < length s - length e \<Longrightarrow> \<not> starts n (drop i s)"
proof (induction s arbitrary: i)
  case (Cons c s)
  then show ?case using strstr_Some [of s n e] by (cases i) (auto simp: strstr.simps [of "c # s"] Suc_diff_le split: if_splits)
qed simp

lemma strstr_take:
  assumes "strstr s n = Some n" "k < length s"
  shows "strstr (take k s) n = None"
proof (rule ccontr)
  assume "strstr (take k s) n \<noteq> None"
  then obtain e p where e: "take k s = p @ e" "starts n e" using strstr_Some by blast
  have "length p + length e = k" using arg_cong [OF e(1), of length] assms(2) by simp
  then have l: "length p + length n \<le> k" using starts_length [OF e(2)] by linarith
  have "starts n (drop (length p) s)"
  proof -
    have "drop (length p) (take k s) = e" using e(1) by simp
    then have "take (length n) (take (k - length p) (drop (length p) s)) = n" using e(2) by (simp add: starts_def drop_take)
    then show ?thesis using l by (simp add: starts_def min_def split: if_splits)
  qed
  moreover have "length p < length s - length n" using l assms(2) by simp
  ultimately show False using strstr_first [OF assms(1)] by blast
qed

lemma tail_read:
  assumes "strstr s TERMSEQ = Some TERMSEQ" "4 \<le> k" "k < length s"
  shows "termseq_tail (take k s @ z) k 4 < 4" "k + (4 - termseq_tail (take k s @ z) k 4) \<le> length s"
proof -
  let ?i = "termseq_tail (take k s @ z) k 4"
  have "?i \<noteq> 4"
  proof
    assume "?i = 4"
    from tail_matches [OF this] have "take 4 (drop (k - 4) (take k s @ z)) = TERMSEQ" by (simp add: NN_WS_HANDSHAKE_TERMSEQ_def)
    then have "starts TERMSEQ (drop (k - 4) s)" using assms(2,3) by (simp add: starts_def drop_take NN_WS_HANDSHAKE_TERMSEQ_def numeral_eq_Suc)
    moreover have "k - 4 < length s - length TERMSEQ" using assms(2,3) by (simp add: NN_WS_HANDSHAKE_TERMSEQ_def)
    ultimately show False using strstr_first [OF assms(1)] by blast
  qed
  then show "?i < 4" using tail_le [of "take k s @ z" k 4] by simp
  show "k + (4 - ?i) \<le> length s"
  proof (cases "k + 4 \<le> length s")
    case False
    define j where "j = k + 4 - length s"
    obtain q where q: "s = q @ TERMSEQ" using strstr_Some [OF assms(1)] by auto
    have k: "k = length q + j" "0 < j" "j \<le> 4" using False assms(3) q by (simp_all add: j_def NN_WS_HANDSHAKE_TERMSEQ_def)
    have "take k s = q @ take j TERMSEQ" by (simp add: q k(1))
    then have "take j (drop (k - j) (take k s @ z)) = take j TERMSEQ" using k by (simp add: NN_WS_HANDSHAKE_TERMSEQ_def)
    then have "j \<le> ?i" by (rule tail_ge [OF k(2,3)])
    moreover have "length s = length q + 4" using q by (simp add: NN_WS_HANDSHAKE_TERMSEQ_def)
    ultimately show ?thesis using k(1) tail_le [of "take k s @ z" k 4] by linarith
  qed simp
qed

text \<open>Lines that are not empty, followed by an empty one.\<close>

definition http_text :: "bytes list \<Rightarrow> bytes" where
  "http_text ls = concat (map (\<lambda>l. l @ CRLF) ls) @ CRLF"

lemma http_text_simps [simp]: "http_text [] = CRLF" "http_text (l # ls) = l @ CRLF @ http_text ls"
  by (simp_all add: http_text_def)

lemma http_text_end:
  assumes "ls \<noteq> []" "\<forall>l \<in> set ls. l \<noteq> [] \<and> 0x0D \<notin> set l"
  shows "strstr (http_text ls) TERMSEQ = Some TERMSEQ"
  using assms
proof (induction ls)
  case (Cons l ls)
  have s: "strstr (http_text (l # ls)) TERMSEQ = strstr (CRLF @ http_text ls) TERMSEQ"
    using strstr_skips [of "0x0D" l _ "[0x0A, 0x0D, 0x0A]"] Cons.prems(2) by (simp add: NN_WS_HANDSHAKE_TERMSEQ_def)
  show ?case
  proof (cases ls)
    case Nil
    then show ?thesis unfolding s using strstr_here [of TERMSEQ "[]"] by (simp add: NN_WS_HANDSHAKE_TERMSEQ_def NN_WS_HANDSHAKE_CRLF_def)
  next
    case (Cons l' ls')
    then obtain c t where c: "l' = c # t" "c \<noteq> 0x0D" using Cons.prems(2) by (cases l') auto
    obtain r where r: "http_text ls = c # r" using Cons c by simp
    have "strstr (CRLF @ http_text ls) TERMSEQ = strstr (http_text ls) TERMSEQ"
      using c(2) unfolding r NN_WS_HANDSHAKE_CRLF_def NN_WS_HANDSHAKE_TERMSEQ_def
      by (subst strstr.simps) (simp add: starts_def strstr_skip)
    then show ?thesis unfolding s using Cons.IH Cons.prems(2) Cons by simp
  qed
qed simp

section \<open>Reading up to the end of the headers\<close>

text \<open>A stream of bytes arrives: the socket delivers as many as it is asked for, as long as there are enough.\<close>

partial_function (option) stream_pump :: "('s \<Rightarrow> bytes \<Rightarrow> 's option) \<Rightarrow> ('s \<Rightarrow> nat option) \<Rightarrow> 's \<Rightarrow> bytes \<Rightarrow> ('s \<times> bytes) option" where
  "stream_pump arrive asks s bs = (case asks s of
     None \<Rightarrow> Some (s, bs)
   | Some n \<Rightarrow> if length bs < n then Some (s, bs)
       else do { s \<leftarrow> arrive s (take n bs); stream_pump arrive asks s (drop n bs) })"

declare stream_pump.simps [code]

text \<open>
  A reader of headers: \<open>reading t s\<close> means that it has received \<open>t\<close> so far and waits for more.  While the
  text with what arrives is not complete, it asks for what may be missing.
\<close>

locale header_reader =
  fixes arrive :: "'s \<Rightarrow> bytes \<Rightarrow> 's option"
    and asks :: "'s \<Rightarrow> nat option"
    and reading :: "bytes \<Rightarrow> 's \<Rightarrow> bool"
    and size :: nat
  assumes reads_on: "reading t s \<Longrightarrow> asks s = Some (length bs) \<Longrightarrow> 4 \<le> length (t @ bs) \<Longrightarrow> 0 \<notin> set (t @ bs) \<Longrightarrow>
    strstr (t @ bs) TERMSEQ = None \<Longrightarrow> termseq_tail (t @ bs) (length (t @ bs)) 4 < 4 \<Longrightarrow> length (t @ bs) + 4 \<le> size + termseq_tail (t @ bs) (length (t @ bs)) 4 \<Longrightarrow>
    \<exists>s'. arrive s bs = Some s' \<and> reading (t @ bs) s' \<and> asks s' = Some (4 - termseq_tail (t @ bs) (length (t @ bs)) 4)"
begin

text \<open>It reads exactly up to the end of the headers: the last bytes it asks for are the last of them.\<close>

lemma reads_headers:
  assumes "strstr S TERMSEQ = Some TERMSEQ" "0 \<notin> set S" "length S \<le> size"
    and "reading t s" "asks s = Some n" "0 < n" "4 \<le> length t + n" "length t + n \<le> length S" "S = t @ u"
  shows "\<exists>t' u' s' v. S = t' @ u' \<and> reading t' s' \<and> asks s' = Some (length u') \<and> u = v @ u' \<and>
    stream_pump arrive asks s v = Some (s', []) \<and> stream_pump arrive asks s (u @ rest) = stream_pump arrive asks s' (u' @ rest)"
  using assms(4-)
proof (induction "length u" arbitrary: t s n u rule: less_induct)
  case less
  note r = less.prems
  show ?case
  proof (cases "length u = n")
    case True
    have "stream_pump arrive asks s [] = Some (s, [])" using r(2,3) by (subst stream_pump.simps) simp
    then show ?thesis using r True by (intro exI [of _ t] exI [of _ u] exI [of _ s] exI [of _ "[]"]) simp
  next
    case False
    then have n: "n < length u" using r(5,6) by simp
    let ?bs = "take n u" and ?u = "drop n u"
    let ?t = "t @ ?bs"
    have k: "?t = take (length ?t) S" "length ?t < length S" "length ?t = length t + n" using n r(6) by simp_all
    have tail: "termseq_tail ?t (length ?t) 4 < 4" "length ?t + (4 - termseq_tail ?t (length ?t) 4) \<le> length S"
      using tail_read [OF assms(1), of "length ?t" "[]"] k r(4) by auto
    have none: "strstr ?t TERMSEQ = None" using strstr_take [OF assms(1) k(2)] k(1) by simp
    have z: "0 \<notin> set ?t" using assms(2) k(1) by (metis in_set_takeD)
    have room: "length ?t + 4 \<le> size + termseq_tail ?t (length ?t) 4" using tail assms(3) by linarith
    obtain s' where s': "arrive s ?bs = Some s'" "reading ?t s'" "asks s' = Some (4 - termseq_tail ?t (length ?t) 4)"
      using reads_on [OF r(1), of ?bs] r(2,4) n k(3) z none tail(1) room by auto
    have p: "stream_pump arrive asks s (?bs @ z) = stream_pump arrive asks s' z" for z
      using r(2) n s'(1) by (subst stream_pump.simps) simp
    have q: "length ?u < length u" "0 < 4 - termseq_tail ?t (length ?t) 4" "4 \<le> length ?t + (4 - termseq_tail ?t (length ?t) 4)" "S = ?t @ ?u"
      using n r(3,4,6) tail(1) k(3) by simp_all
    from less.hyps [OF q(1) s'(2,3) q(2,3) tail(2) q(4)] obtain t' u' s'' v where v: "S = t' @ u'" "reading t' s''" "asks s'' = Some (length u')" "?u = v @ u'"
        "stream_pump arrive asks s' v = Some (s'', [])" "stream_pump arrive asks s' (?u @ rest) = stream_pump arrive asks s'' (u' @ rest)"
      by blast
    have a: "?bs @ ?u @ rest = u @ rest" by (simp flip: append_assoc)
    have "u = (?bs @ v) @ u'" using v(4) append_take_drop_id [of n u] by simp
    moreover have "stream_pump arrive asks s (u @ rest) = stream_pump arrive asks s'' (u' @ rest)" using p [of "?u @ rest"] v(6) unfolding a by simp
    moreover have "stream_pump arrive asks s (?bs @ v) = Some (s'', [])" using p [of v] v(5) by simp
    ultimately show ?thesis using v(1-3) by (intro exI [of _ t'] exI [of _ u'] exI [of _ s''] exI [of _ "?bs @ v"] conjI)
  qed
qed

end

end
