(* ===== verification/Nn_Sha1.thy ===== *)
theory Nn_Sha1
  imports Nn_Wire
begin

text \<open>
  \<^verbatim>\<open>transports/ws/sha1.c\<close>: SHA-1, byte by byte, with the message schedule kept in the 16 words of the
  buffer.  It computes the hash function of FIPS 180-4, on machines of either byte order.
\<close>

section \<open>Model\<close>

record nn_sha1 =
  sha_buffer :: "u32 list"
  sha_state :: "u32 list"
  bytes_hashed :: u32
  buffer_offset :: nat
  is_little_endian :: bool

definition sha1_rol32 :: "u32 \<Rightarrow> nat \<Rightarrow> u32" where
  "sha1_rol32 num bits = push_bit bits num OR drop_bit (32 - bits) num"

text \<open>The buffer before the first byte is not initialised; \<open>junk\<close> is what it holds.\<close>

definition nn_sha1_init :: "bool \<Rightarrow> u32 list \<Rightarrow> nn_sha1" where
  "nn_sha1_init le junk = \<lparr>sha_buffer = junk, sha_state = [0x67452301, 0xefcdab89, 0x98badcfe, 0x10325476, 0xc3d2e1f0],
     bytes_hashed = 0, buffer_offset = 0, is_little_endian = le\<rparr>"

text \<open>A byte of an array of words in memory: on a machine with the low byte first, byte \<open>k\<close> is found at bit \<open>8 * (k mod 4)\<close> of its word.\<close>

definition mem_shift :: "bool \<Rightarrow> nat \<Rightarrow> nat" where
  "mem_shift le k = (if le then 8 * (k mod 4) else 8 * (3 - k mod 4))"

definition mem_write :: "bool \<Rightarrow> u32 list \<Rightarrow> nat \<Rightarrow> u8 \<Rightarrow> u32 list" where
  "mem_write le ws k b = ws[k div 4 := (ws ! (k div 4) AND NOT (push_bit (mem_shift le k) 0xFF)) OR push_bit (mem_shift le k) (ucast b)]"

definition mem_read :: "bool \<Rightarrow> u32 list \<Rightarrow> nat \<Rightarrow> u8" where
  "mem_read le ws k = ucast (drop_bit (mem_shift le k) (ws ! (k div 4)))"

type_synonym sha1_vars = "u32 \<times> u32 \<times> u32 \<times> u32 \<times> u32"

definition sha1_mix :: "nat \<Rightarrow> u32 \<Rightarrow> u32 \<Rightarrow> u32 \<Rightarrow> u32" where
  "sha1_mix i b c d =
     (if i < 20 then (d XOR (b AND (c XOR d))) + 0x5A827999
      else if i < 40 then (b XOR c XOR d) + 0x6ED9EBA1
      else if i < 60 then ((b AND c) OR (d AND (b OR c))) + 0x8F1BBCDC
      else (b XOR c XOR d) + 0xCA62C1D6)"

definition sha1_schedule :: "nat \<Rightarrow> u32 list \<Rightarrow> u32 list" where
  "sha1_schedule i buf =
     (if i \<ge> 16 then
        (let t = buf ! ((i + 13) mod 16) XOR buf ! ((i + 8) mod 16) XOR buf ! ((i + 2) mod 16) XOR buf ! (i mod 16) in
         buf[i mod 16 := sha1_rol32 t 1])
      else buf)"

definition sha1_round :: "nat \<Rightarrow> u32 list \<times> sha1_vars \<Rightarrow> u32 list \<times> sha1_vars" where
  "sha1_round i s = (case s of (buf, a, b, c, d, e) \<Rightarrow>
     (let buf = sha1_schedule i buf; t = sha1_mix i b c d + (sha1_rol32 a 5 + e + buf ! (i mod 16)) in
      (buf, t, a, sha1_rol32 b 30, c, d)))"

definition nn_sha1_add :: "nn_sha1 \<Rightarrow> u8 \<Rightarrow> nn_sha1" where
  "nn_sha1_add self data =
     (let buf = mem_write (is_little_endian self) (sha_buffer self) (if is_little_endian self then buffer_offset self XOR 3 else buffer_offset self) data;
          self = self\<lparr>sha_buffer := buf, buffer_offset := buffer_offset self + 1\<rparr> in
      if buffer_offset self = 64 then
        (let st = sha_state self in
         case fold sha1_round [0..<80] (buf, st ! 0, st ! 1, st ! 2, st ! 3, st ! 4) of
           (buf, a, b, c, d, e) \<Rightarrow>
             self\<lparr>sha_buffer := buf, sha_state := [st ! 0 + a, st ! 1 + b, st ! 2 + c, st ! 3 + d, st ! 4 + e], buffer_offset := 0\<rparr>)
      else self)"

definition nn_sha1_hashbyte :: "nn_sha1 \<Rightarrow> u8 \<Rightarrow> nn_sha1" where
  "nn_sha1_hashbyte self data = nn_sha1_add (self\<lparr>bytes_hashed := bytes_hashed self + 1\<rparr>) data"

partial_function (option) sha1_zeros :: "nn_sha1 \<Rightarrow> nn_sha1 option" where
  "sha1_zeros self = (if buffer_offset self \<noteq> 56 then sha1_zeros (nn_sha1_add self 0) else Some self)"

declare sha1_zeros.simps [code]

definition sha1_swap :: "u32 \<Rightarrow> u32" where
  "sha1_swap w = (push_bit 24 w AND 0xFF000000) OR (push_bit 8 w AND 0x00FF0000) OR (drop_bit 8 w AND 0x0000FF00) OR (drop_bit 24 w AND 0x000000FF)"

text \<open>The result is the memory of the five words.\<close>

definition nn_sha1_result :: "nn_sha1 \<Rightarrow> bytes option" where
  "nn_sha1_result self = do {
     self \<leftarrow> sha1_zeros (nn_sha1_add self 0x80);
     let n = bytes_hashed self;
     let self = fold (\<lambda>b self. nn_sha1_add self b) [0, 0, 0, ucast (drop_bit 29 n), ucast (drop_bit 21 n), ucast (drop_bit 13 n), ucast (drop_bit 5 n), ucast (push_bit 3 n)] self;
     let st = (if is_little_endian self then map sha1_swap (sha_state self) else sha_state self);
     Some (map (mem_read (is_little_endian self) st) [0..<20]) }"

section \<open>FIPS 180-4\<close>

definition fips_rotl :: "nat \<Rightarrow> u32 \<Rightarrow> u32" where
  "fips_rotl n x = push_bit n x OR drop_bit (32 - n) x"

definition fips_f :: "nat \<Rightarrow> u32 \<Rightarrow> u32 \<Rightarrow> u32 \<Rightarrow> u32" where
  "fips_f t x y z =
     (if t \<le> 19 then (x AND y) XOR (NOT x AND z)
      else if t \<le> 39 then x XOR y XOR z
      else if t \<le> 59 then (x AND y) XOR (x AND z) XOR (y AND z)
      else x XOR y XOR z)"

definition fips_K :: "nat \<Rightarrow> u32" where
  "fips_K t = (if t \<le> 19 then 0x5a827999 else if t \<le> 39 then 0x6ed9eba1 else if t \<le> 59 then 0x8f1bbcdc else 0xca62c1d6)"

text \<open>The schedule of a block of 16 words.\<close>

fun fips_W :: "u32 list \<Rightarrow> nat \<Rightarrow> u32" where
  "fips_W M t = (if t < 16 then M ! t else fips_rotl 1 (fips_W M (t - 3) XOR fips_W M (t - 8) XOR fips_W M (t - 14) XOR fips_W M (t - 16)))"

declare fips_W.simps [simp del]

definition fips_step :: "u32 list \<Rightarrow> nat \<Rightarrow> sha1_vars \<Rightarrow> sha1_vars" where
  "fips_step M t s = (case s of (a, b, c, d, e) \<Rightarrow> (fips_rotl 5 a + fips_f t b c d + e + fips_K t + fips_W M t, a, fips_rotl 30 b, c, d))"

definition fips_block :: "u32 list \<Rightarrow> u32 list \<Rightarrow> u32 list" where
  "fips_block H M = (case fold (fips_step M) [0..<80] (H ! 0, H ! 1, H ! 2, H ! 3, H ! 4) of
     (a, b, c, d, e) \<Rightarrow> [a + H ! 0, b + H ! 1, c + H ! 2, d + H ! 3, e + H ! 4])"

text \<open>Bytes and words, the high byte first.\<close>

definition fips_be32 :: "u8 \<Rightarrow> u8 \<Rightarrow> u8 \<Rightarrow> u8 \<Rightarrow> u32" where
  "fips_be32 a b c d = push_bit 24 (ucast a) OR push_bit 16 (ucast b) OR push_bit 8 (ucast c) OR ucast d"

definition fips_words :: "bytes \<Rightarrow> u32 list" where
  "fips_words bs = map (\<lambda>i. fips_be32 (bs ! (4 * i)) (bs ! (4 * i + 1)) (bs ! (4 * i + 2)) (bs ! (4 * i + 3))) [0..<16]"

definition fips_be64 :: "u64 \<Rightarrow> bytes" where
  "fips_be64 v = [ucast (drop_bit 56 v), ucast (drop_bit 48 v), ucast (drop_bit 40 v), ucast (drop_bit 32 v),
     ucast (drop_bit 24 v), ucast (drop_bit 16 v), ucast (drop_bit 8 v), ucast v]"

definition fips_pad :: "bytes \<Rightarrow> bytes" where
  "fips_pad bs = bs @ [0x80] @ replicate ((119 - length bs mod 64) mod 64) 0 @ fips_be64 (8 * of_nat (length bs))"

fun fips_blocks :: "u32 list \<Rightarrow> bytes \<Rightarrow> u32 list" where
  "fips_blocks H bs = (if length bs < 64 then H else fips_blocks (fips_block H (fips_words (take 64 bs))) (drop 64 bs))"

declare fips_blocks.simps [simp del]

definition fips_out :: "u32 list \<Rightarrow> bytes" where
  "fips_out H = concat (map (\<lambda>w. [ucast (drop_bit 24 w), ucast (drop_bit 16 w), ucast (drop_bit 8 w), ucast w]) H)"

definition fips_sha1 :: "bytes \<Rightarrow> bytes" where
  "fips_sha1 bs = fips_out (fips_blocks [0x67452301, 0xefcdab89, 0x98badcfe, 0x10325476, 0xc3d2e1f0] (fips_pad bs))"

section \<open>Rounds\<close>

lemma rol_rotl: "sha1_rol32 x n = fips_rotl n x"
  by (simp add: sha1_rol32_def fips_rotl_def)

lemma mix_f: "sha1_mix i b c d = fips_f i b c d + fips_K i"
proof -
  have "d XOR (b AND (c XOR d)) = (b AND c) XOR (NOT b AND d)" "(b AND c) OR (d AND (b OR c)) = (b AND c) XOR (b AND d) XOR (c AND d)"
    by (rule bit_word_eqI; auto simp: bit_simps)+
  then show ?thesis by (auto simp: sha1_mix_def fips_f_def fips_K_def)
qed

definition window :: "u32 list \<Rightarrow> nat \<Rightarrow> u32 list \<Rightarrow> bool" where
  "window M i buf \<longleftrightarrow> length buf = 16 \<and> (\<forall>j. max i 16 - 16 \<le> j \<and> j < max i 16 \<longrightarrow> buf ! (j mod 16) = fips_W M j)"

lemma window_schedule:
  assumes w: "window M i buf"
  shows "window M (Suc i) (sha1_schedule i buf)" "sha1_schedule i buf ! (i mod 16) = fips_W M i"
proof -
  have l: "length buf = 16" using w by (simp add: window_def)
  have "window M (Suc i) (sha1_schedule i buf) \<and> sha1_schedule i buf ! (i mod 16) = fips_W M i"
  proof (cases "i < 16")
    case True
    then have "buf ! (i mod 16) = fips_W M i" using w by (simp add: window_def)
    then show ?thesis using True w by (auto simp: sha1_schedule_def window_def max_def split: if_splits)
  next
    case False
    have m: "buf ! (j mod 16) = fips_W M j" if "i - 16 \<le> j" "j < i" for j using w that False by (simp add: window_def max_def)
    obtain k where k: "i = k + 16" using False by (metis add.commute le_Suc_ex linorder_not_less)
    have "i + 13 = (i - 3) + 16" "i + 8 = (i - 8) + 16" "i + 2 = (i - 14) + 16" using False by linarith+
    then have e: "(i + 13) mod 16 = (i - 3) mod 16" "(i + 8) mod 16 = (i - 8) mod 16" "(i + 2) mod 16 = (i - 14) mod 16" by (simp_all only: mod_add_self2)
    have t: "buf ! ((i + 13) mod 16) = fips_W M (i - 3)" "buf ! ((i + 8) mod 16) = fips_W M (i - 8)" "buf ! ((i + 2) mod 16) = fips_W M (i - 14)"
      unfolding e by (rule m; use False in linarith)+
    have t0: "buf ! (i mod 16) = fips_W M (i - 16)" using m [of "i - 16"] by (simp add: k)
    have s: "sha1_schedule i buf = buf[i mod 16 := fips_W M i]" unfolding sha1_schedule_def t t0 rol_rotl Let_def using False by (subst fips_W.simps) simp
    have "buf[i mod 16 := fips_W M i] ! (j mod 16) = fips_W M j" if "Suc i - 16 \<le> j" "j < Suc i" for j
    proof (cases "j = i")
      case True
      then show ?thesis using l by simp
    next
      case other: False
      define d where "d = i - j"
      have d: "i = j + d" "0 < d" "d < 16" unfolding d_def using that other False by linarith+
      have "j mod 16 \<noteq> (j + d) mod 16"
      proof
        assume "j mod 16 = (j + d) mod 16"
        then have "16 dvd (j + d) - j" by (metis le_add1 mod_eq_dvd_iff_nat)
        then show False using d(2,3) by (auto dest: dvd_imp_le)
      qed
      then have "j mod 16 \<noteq> i mod 16" using d(1) by simp
      then show ?thesis using m [of j] that other by simp
    qed
    then show ?thesis unfolding s using l False by (simp add: window_def max_def)
  qed
  then show "window M (Suc i) (sha1_schedule i buf)" "sha1_schedule i buf ! (i mod 16) = fips_W M i" by simp_all
qed

lemma window_start: "length M = 16 \<Longrightarrow> window M 0 M"
  by (auto simp: window_def fips_W.simps)

lemma rounds:
  assumes "length M = 16"
  shows "\<exists>buf. fold sha1_round [0..<n] (M, s) = (buf, fold (fips_step M) [0..<n] s) \<and> window M n buf"
proof (induction n)
  case (Suc n)
  then obtain buf where b: "fold sha1_round [0..<n] (M, s) = (buf, fold (fips_step M) [0..<n] s)" "window M n buf" by auto
  obtain a b c d e where v: "fold (fips_step M) [0..<n] s = (a, b, c, d, e)" by (cases "fold (fips_step M) [0..<n] s")
  have "sha1_round n (buf, a, b, c, d, e) = (sha1_schedule n buf, fips_step M n (a, b, c, d, e))"
    using window_schedule(2) [OF b(2)] by (simp add: sha1_round_def fips_step_def mix_f rol_rotl Let_def algebra_simps)
  then show ?case using b(1) window_schedule(1) [OF b(2)] v by simp
qed (use window_start [OF assms] in simp)

section \<open>Bytes in the buffer\<close>

text \<open>The bytes of the buffer in the order in which they are hashed, the same on all machines.\<close>

definition buf_byte :: "u32 list \<Rightarrow> nat \<Rightarrow> u8" where
  "buf_byte ws j = ucast (drop_bit (8 * (3 - j mod 4)) (ws ! (j div 4)))"

definition buf_put :: "u32 list \<Rightarrow> nat \<Rightarrow> u8 \<Rightarrow> u32 list" where
  "buf_put ws j b = ws[j div 4 := (ws ! (j div 4) AND NOT (push_bit (8 * (3 - j mod 4)) 0xFF)) OR push_bit (8 * (3 - j mod 4)) (ucast b)]"

lemma xor3: "j < 64 \<longrightarrow> (j XOR 3) div 4 = j div 4 \<and> (j XOR 3) mod 4 = 3 - j mod 4" for j :: nat
proof -
  have "list_all (\<lambda>j. (j XOR 3) div 4 = j div 4 \<and> (j XOR 3) mod 4 = 3 - j mod 4) [0..<64::nat]" by code_simp
  then show ?thesis unfolding list_all_iff by auto
qed

lemma write_put: "j < 64 \<Longrightarrow> mem_write le ws (if le then j XOR 3 else j) b = buf_put ws j b"
  using xor3 [of j] by (simp add: mem_write_def mem_shift_def buf_put_def)

lemma byte_mask: "(0xFF :: u32) = mask 8"
  by (simp add: mask_eq_exp_minus_1)

lemma put_byte:
  assumes "length ws = 16" "j < 64" "k < 64"
  shows "buf_byte (buf_put ws j b) k = (if k = j then b else buf_byte ws k)"
proof (cases "k div 4 = j div 4")
  case False
  then show ?thesis by (auto simp: buf_byte_def buf_put_def)
next
  case True
  have same: "k = j \<longleftrightarrow> k mod 4 = j mod 4" using True by (metis div_mult_mod_eq)
  let ?s = "8 * (3 - j mod 4)" and ?t = "8 * (3 - k mod 4)" and ?w = "ws ! (j div 4)"
  have "ucast (drop_bit ?t ((?w AND NOT (push_bit ?s 0xFF)) OR push_bit ?s (ucast b))) = (if k = j then b else ucast (drop_bit ?t ?w))"
  proof (rule bit_word_eqI)
    fix n assume n: "n < LENGTH(8)"
    have r: "j mod 4 = 0 \<or> j mod 4 = 1 \<or> j mod 4 = 2 \<or> j mod 4 = 3" "k mod 4 = 0 \<or> k mod 4 = 1 \<or> k mod 4 = 2 \<or> k mod 4 = 3" by presburger+
    show "bit (ucast (drop_bit ?t ((?w AND NOT (push_bit ?s 0xFF)) OR push_bit ?s (ucast b))) :: u8) n = bit (if k = j then b else ucast (drop_bit ?t ?w)) n"
      using r n unfolding same byte_mask by (elim disjE) (auto simp: bit_simps dest: bit_imp_le_length)
  qed
  then show ?thesis using assms True by (simp add: buf_byte_def buf_put_def)
qed

lemma words_bytes:
  assumes "length ws = 16" "\<forall>j < 64. buf_byte ws j = bs ! j"
  shows "ws = fips_words bs"
proof (rule nth_equalityI)
  fix i assume "i < length ws"
  then have i: "i < 16" using assms(1) by simp
  have q: "ucast (drop_bit (8 * (3 - r)) (ws ! i)) = bs ! (4 * i + r)" if "r < 4" for r
    using assms(2) [rule_format, of "4 * i + r"] i that by (simp add: buf_byte_def)
  have b: "ucast (drop_bit 24 (ws ! i)) = bs ! (4 * i)" "ucast (drop_bit 16 (ws ! i)) = bs ! (4 * i + 1)" "ucast (drop_bit 8 (ws ! i)) = bs ! (4 * i + 2)" "ucast (ws ! i) = bs ! (4 * i + 3)"
    using q [of 0] q [of 1] q [of 2] q [of 3] by simp_all
  have "ws ! i = fips_be32 (ucast (drop_bit 24 (ws ! i))) (ucast (drop_bit 16 (ws ! i))) (ucast (drop_bit 8 (ws ! i))) (ucast (ws ! i))"
  proof (rule bit_word_eqI)
    fix n assume n: "n < LENGTH(32)"
    consider "n < 8" | "8 \<le> n" "n < 16" | "16 \<le> n" "n < 24" | "24 \<le> n" by linarith
    then show "bit (ws ! i) n = bit (fips_be32 (ucast (drop_bit 24 (ws ! i))) (ucast (drop_bit 16 (ws ! i))) (ucast (drop_bit 8 (ws ! i))) (ucast (ws ! i))) n"
      using n by cases (auto simp: fips_be32_def bit_simps)
  qed
  also have "\<dots> = fips_words bs ! i" unfolding b using i by (simp add: fips_words_def)
  finally show "ws ! i = fips_words bs ! i" .
qed (use assms(1) in \<open>simp add: fips_words_def\<close>)

section \<open>Blocks\<close>

abbreviation sha1_adds :: "nn_sha1 \<Rightarrow> bytes \<Rightarrow> nn_sha1" where
  "sha1_adds s bs \<equiv> fold (\<lambda>b s. nn_sha1_add s b) bs s"

text \<open>In the middle of a block, after the bytes \<open>zs\<close> of it.\<close>

definition sha1_mid :: "bool \<Rightarrow> u32 \<Rightarrow> u32 list \<Rightarrow> bytes \<Rightarrow> nn_sha1 \<Rightarrow> bool" where
  "sha1_mid le n H zs s \<longleftrightarrow> is_little_endian s = le \<and> bytes_hashed s = n \<and> sha_state s = H \<and> length H = 5 \<and> length (sha_buffer s) = 16 \<and>
     buffer_offset s = length zs \<and> length zs < 64 \<and> (\<forall>j < length zs. buf_byte (sha_buffer s) j = zs ! j)"

lemma length_put [simp]: "length (buf_put ws j b) = length ws"
  by (simp add: buf_put_def)

lemma add_mid:
  assumes m: "sha1_mid le n H zs s"
  shows "Suc (length zs) < 64 \<Longrightarrow> sha1_mid le n H (zs @ [b]) (nn_sha1_add s b)"
    "Suc (length zs) = 64 \<Longrightarrow> sha1_mid le n (fips_block H (fips_words (zs @ [b]))) [] (nn_sha1_add s b)"
proof -
  let ?buf = "buf_put (sha_buffer s) (length zs) b"
  have buf: "mem_write (is_little_endian s) (sha_buffer s) (if is_little_endian s then buffer_offset s XOR 3 else buffer_offset s) b = ?buf"
    using write_put m by (simp add: sha1_mid_def)
  have got: "buf_byte ?buf j = (zs @ [b]) ! j" if "j < Suc (length zs)" for j
    using that m put_byte [of "sha_buffer s" "length zs" j b] by (auto simp: sha1_mid_def nth_append less_Suc_eq)
  show "sha1_mid le n H (zs @ [b]) (nn_sha1_add s b)" if "Suc (length zs) < 64"
    unfolding nn_sha1_add_def buf Let_def using that m got by (auto simp: sha1_mid_def)
  show "sha1_mid le n (fips_block H (fips_words (zs @ [b]))) [] (nn_sha1_add s b)" if "Suc (length zs) = 64"
  proof -
    have w: "?buf = fips_words (zs @ [b])" using that m got by (intro words_bytes) (auto simp: sha1_mid_def)
    have l: "length (fips_words (zs @ [b])) = 16" by (simp add: fips_words_def)
    obtain buf' where r: "fold sha1_round [0..<80] (fips_words (zs @ [b]), H ! 0, H ! 1, H ! 2, H ! 3, H ! 4) =
        (buf', fold (fips_step (fips_words (zs @ [b]))) [0..<80] (H ! 0, H ! 1, H ! 2, H ! 3, H ! 4))" "length buf' = 16"
      using rounds [OF l, of 80 "(H ! 0, H ! 1, H ! 2, H ! 3, H ! 4)"] by (auto simp: window_def simp del: upt_rec_numeral)
    obtain x y z u v where v: "fold (fips_step (fips_words (zs @ [b]))) [0..<80] (H ! 0, H ! 1, H ! 2, H ! 3, H ! 4) = (x, y, z, u, v)"
      by (cases "fold (fips_step (fips_words (zs @ [b]))) [0..<80] (H ! 0, H ! 1, H ! 2, H ! 3, H ! 4)")
    show ?thesis
      unfolding nn_sha1_add_def buf w Let_def using that m r v by (simp add: sha1_mid_def fips_block_def add.commute del: upt_rec_numeral)
  qed
qed

lemma adds_mid:
  assumes "sha1_mid le n H zs s" "length zs + length bs < 64"
  shows "sha1_mid le n H (zs @ bs) (sha1_adds s bs)"
  using assms
proof (induction bs arbitrary: zs s)
  case (Cons b bs)
  then show ?case using Cons.IH [OF add_mid(1) [OF Cons.prems(1), of b]] by simp
qed simp

lemma adds_block:
  assumes "sha1_mid le n H [] s" "length bs = 64"
  shows "sha1_mid le n (fips_block H (fips_words bs)) [] (sha1_adds s bs)"
proof -
  obtain as b where bs: "bs = as @ [b]" using assms(2) by (cases bs rule: rev_cases) auto
  then have "sha1_mid le n H as (sha1_adds s as)" using adds_mid [OF assms(1), of as] assms(2) by simp
  from add_mid(2) [OF this, of b] show ?thesis using assms(2) bs by simp
qed

lemma adds_blocks:
  assumes "sha1_mid le n H [] s"
  shows "sha1_mid le n (fips_blocks H bs) (drop (64 * (length bs div 64)) bs) (sha1_adds s bs)"
  using assms
proof (induction "length bs" arbitrary: bs H s rule: less_induct)
  case less
  show ?case
  proof (cases "length bs < 64")
    case True
    then show ?thesis using adds_mid [OF less.prems, of bs] by (simp add: fips_blocks.simps)
  next
    case False
    let ?s = "sha1_adds s (take 64 bs)"
    have "sha1_mid le n (fips_block H (fips_words (take 64 bs))) [] ?s" using adds_block [OF less.prems, of "take 64 bs"] False by simp
    from less.hyps [OF _ this, of "drop 64 bs"] False
    have "sha1_mid le n (fips_blocks (fips_block H (fips_words (take 64 bs))) (drop 64 bs)) (drop (64 * ((length bs - 64) div 64)) (drop 64 bs)) (sha1_adds ?s (drop 64 bs))" by simp
    moreover have "sha1_adds ?s (drop 64 bs) = sha1_adds s bs" by (simp flip: fold_append [THEN fun_cong, unfolded o_def])
    moreover have "64 * ((length bs - 64) div 64) + 64 = 64 * (length bs div 64)" using False by (simp add: le_div_geq)
    ultimately show ?thesis using False by (simp add: fips_blocks.simps [of H bs] add.commute)
  qed
qed

section \<open>The result\<close>

lemma zeros_ok:
  assumes "sha1_mid le n H zs s" "(length zs + c) mod 64 = 56" "c < 64"
  shows "sha1_zeros s = Some (sha1_adds s (replicate c 0))"
  using assms
proof (induction c arbitrary: H zs s)
  case 0
  then show ?case by (subst sha1_zeros.simps) (simp add: sha1_mid_def)
next
  case (Suc c)
  have l: "length zs < 64" "buffer_offset s = length zs" using Suc.prems(1) by (simp_all add: sha1_mid_def)
  have o: "buffer_offset s \<noteq> 56" unfolding l(2) using Suc.prems(2,3) l(1) by (auto simp: mod_if split: if_splits)
  have "sha1_zeros (nn_sha1_add s 0) = Some (sha1_adds (nn_sha1_add s 0) (replicate c 0))"
  proof (cases "Suc (length zs) < 64")
    case True
    then show ?thesis using Suc.IH [OF add_mid(1) [OF Suc.prems(1) True, of 0]] Suc.prems(2,3) by simp
  next
    case False
    then have e: "Suc (length zs) = 64" using l(1) by simp
    have "length zs + Suc c = c + 64" using e by simp
    then have "c mod 64 = 56" using Suc.prems(2) by simp
    then show ?thesis using Suc.IH [OF add_mid(2) [OF Suc.prems(1) e, of 0]] Suc.prems(3) by simp
  qed
  then show ?case using o by (subst sha1_zeros.simps) simp
qed

lemma add_hashed: "nn_sha1_add (s\<lparr>bytes_hashed := n\<rparr>) b = (nn_sha1_add s b)\<lparr>bytes_hashed := n\<rparr>"
  by (cases s) (simp add: nn_sha1_add_def Let_def split: prod.split)

lemma adds_hashed: "sha1_adds (s\<lparr>bytes_hashed := n\<rparr>) bs = (sha1_adds s bs)\<lparr>bytes_hashed := n\<rparr>"
  by (induction bs arbitrary: s) (simp_all add: add_hashed)

lemma hashbytes: "fold (\<lambda>b s. nn_sha1_hashbyte s b) bs s = sha1_adds (s\<lparr>bytes_hashed := bytes_hashed s + of_nat (length bs)\<rparr>) bs"
proof (induction bs arbitrary: s)
  case (Cons b bs)
  have "bytes_hashed (nn_sha1_add s b) = bytes_hashed s" by (cases s) (simp add: nn_sha1_add_def Let_def split: prod.split)
  then show ?case using Cons by (simp add: nn_sha1_hashbyte_def add_hashed adds_hashed algebra_simps)
qed simp

lemma length_bytes:
  fixes n :: u32
  shows "[0, 0, 0, ucast (drop_bit 29 n), ucast (drop_bit 21 n), ucast (drop_bit 13 n), ucast (drop_bit 5 n), ucast (push_bit 3 n)] = fips_be64 (push_bit 3 (ucast n))"
  unfolding fips_be64_def
  by (intro arg_cong2 [of _ _ _ _ Cons] refl; rule bit_word_eqI; auto simp: bit_simps dest: bit_imp_le_length)

lemma swap_bytes:
  fixes w :: u32
  shows "ucast (sha1_swap w) = (ucast (drop_bit 24 w) :: u8)" "ucast (drop_bit 8 (sha1_swap w)) = (ucast (drop_bit 16 w) :: u8)"
    "ucast (drop_bit 16 (sha1_swap w)) = (ucast (drop_bit 8 w) :: u8)" "ucast (drop_bit 24 (sha1_swap w)) = (ucast w :: u8)"
proof -
  have m: "0xFF000000 = push_bit 24 (mask 8 :: u32)" "0x00FF0000 = push_bit 16 (mask 8 :: u32)" "0x0000FF00 = push_bit 8 (mask 8 :: u32)" "0x000000FF = (mask 8 :: u32)"
    by (simp_all add: mask_eq_exp_minus_1)
  show "ucast (sha1_swap w) = (ucast (drop_bit 24 w) :: u8)" "ucast (drop_bit 8 (sha1_swap w)) = (ucast (drop_bit 16 w) :: u8)"
    "ucast (drop_bit 16 (sha1_swap w)) = (ucast (drop_bit 8 w) :: u8)" "ucast (drop_bit 24 (sha1_swap w)) = (ucast w :: u8)"
    unfolding sha1_swap_def m by (rule bit_word_eqI; auto simp: bit_simps dest: bit_imp_le_length)+
qed

lemma result_bytes:
  assumes "length H = 5"
  shows "map (mem_read le (if le then map sha1_swap H else H)) [0..<20] = fips_out H"
proof -
  obtain a b c d e where "H = [a, b, c, d, e]" using assms by (auto simp: length_Suc_conv numeral_eq_Suc)
  moreover have "[0..<20] = [0, 1, 2, 3, 4, 5, 6, 7, 8, 9, 10, 11, 12, 13, 14, 15, 16, 17, 18, 19 :: nat]" by code_simp
  ultimately show ?thesis by (simp add: mem_read_def mem_shift_def fips_out_def swap_bytes)
qed

lemma sha1_correct:
  assumes "length junk = 16" "int (length bs) < 4294967296"
  shows "nn_sha1_result (fold (\<lambda>b s. nn_sha1_hashbyte s b) bs (nn_sha1_init le junk)) = Some (fips_sha1 bs)"
proof -
  let ?n = "of_nat (length bs) :: u32" and ?H = "[0x67452301, 0xefcdab89, 0x98badcfe, 0x10325476, 0xc3d2e1f0] :: u32 list"
  let ?i = "(nn_sha1_init le junk)\<lparr>bytes_hashed := ?n\<rparr>" and ?c = "(119 - length bs mod 64) mod 64"
  let ?len = "fips_be64 (push_bit 3 (ucast ?n))"
  have m0: "sha1_mid le ?n ?H [] ?i" using assms(1) by (simp add: sha1_mid_def nn_sha1_init_def)
  have s1: "fold (\<lambda>b s. nn_sha1_hashbyte s b) bs (nn_sha1_init le junk) = sha1_adds ?i bs" by (simp add: hashbytes nn_sha1_init_def)
  note m1 = adds_blocks [OF m0, of "bs @ [0x80]"]
  have c: "(length bs + 1 + ?c) mod 64 = 56"
  proof -
    have e: "l + 1 + (119 - r) = 56 + 64 * (1 + q)" if "l = 64 * q + r" "r < 64" for l q r :: nat using that by presburger
    have "length bs + 1 + (119 - length bs mod 64) = 56 + 64 * (1 + length bs div 64)"
      by (rule e [OF mult_div_mod_eq [symmetric]]) simp
    then have "(length bs + 1 + (119 - length bs mod 64)) mod 64 = 56" by (simp only: mod_mult_self2) simp
    then show ?thesis by (simp only: mod_add_right_eq)
  qed
  have z: "sha1_zeros (sha1_adds ?i (bs @ [0x80])) = Some (sha1_adds (sha1_adds ?i (bs @ [0x80])) (replicate ?c 0))"
  proof (rule zeros_ok [OF m1])
    have "length (drop (64 * (length (bs @ [0x80 :: u8]) div 64)) (bs @ [0x80])) = (length bs + 1) mod 64"
      unfolding length_drop length_append list.size by (simp only: minus_mult_div_eq_mod add_0 One_nat_def)
    then show "(length (drop (64 * (length (bs @ [0x80 :: u8]) div 64)) (bs @ [0x80])) + ?c) mod 64 = 56" using c by (simp only: mod_add_left_eq)
  qed simp
  let ?pad = "bs @ [0x80] @ replicate ?c 0 @ ?len"
  have "length ?pad = length bs + 1 + ?c + 8" by (simp add: fips_be64_def)
  then have l: "length ?pad mod 64 = 0" using c by (metis mod_add_left_eq mod_self numeral_plus_numeral semiring_norm(2,3,6,8))
  have "drop (64 * (length ?pad div 64)) ?pad = []" by (rule drop_all) (use l mult_div_mod_eq [of 64 "length ?pad"] in linarith)
  then have m2: "sha1_mid le ?n (fips_blocks ?H ?pad) [] (sha1_adds ?i ?pad)" using adds_blocks [OF m0, of ?pad] by simp
  let ?z = "sha1_adds (sha1_adds ?i (bs @ [0x80])) (replicate ?c 0)"
  have n: "bytes_hashed ?z = ?n" using adds_blocks [OF m0, of "bs @ [0x80] @ replicate ?c 0"] by (simp add: sha1_mid_def)
  have "unat ?n = length bs" using assms(2) by (simp add: unat_of_nat)
  then have "(of_nat (length bs) :: u64) = ucast ?n" by (metis of_nat_unat)
  then have "(8 :: u64) * of_nat (length bs) = push_bit 3 (ucast ?n)" by (simp only: push_bit_eq_mult) simp
  then have p: "fips_pad bs = ?pad" by (simp add: fips_pad_def)
  have f: "sha1_adds ?z ?len = sha1_adds ?i ?pad" by simp
  have st: "is_little_endian (sha1_adds ?i ?pad) = le" "sha_state (sha1_adds ?i ?pad) = fips_blocks ?H ?pad" "length (fips_blocks ?H ?pad) = 5"
    using m2 by (simp_all only: sha1_mid_def)
  have a: "nn_sha1_add (sha1_adds ?i bs) 0x80 = sha1_adds ?i (bs @ [0x80])" by simp
  show ?thesis
    unfolding nn_sha1_result_def s1 a z Option.bind.bind_lunit Let_def n length_bytes f st(1,2) result_bytes [OF st(3)] fips_sha1_def p
    by (rule refl)
qed

text \<open>The first test vector of FIPS 180: the message \<open>abc\<close>.\<close>

lemma block_rounds:
  assumes "length M = 16"
  shows "fips_block H M = (case snd (fold sha1_round [0..<80] (M, H ! 0, H ! 1, H ! 2, H ! 3, H ! 4)) of
     (a, b, c, d, e) \<Rightarrow> [a + H ! 0, b + H ! 1, c + H ! 2, d + H ! 3, e + H ! 4])"
  using rounds [OF assms, of 80 "(H ! 0, H ! 1, H ! 2, H ! 3, H ! 4)"] by (auto simp: fips_block_def simp del: upt_rec_numeral)

lemma abc_rounds_0: "fold sha1_round [0..<20]
    ([0x61626380, 0x0, 0x0, 0x0, 0x0, 0x0, 0x0, 0x0, 0x0, 0x0, 0x0, 0x0, 0x0, 0x0, 0x0, 0x18], 0x67452301, 0xefcdab89, 0x98badcfe, 0x10325476, 0xc3d2e1f0) =
    ([0xc2c4c700, 0x0, 0x30, 0x85898e01, 0x0, 0x0, 0x0, 0x0, 0x0, 0x0, 0x0, 0x0, 0x0, 0x0, 0x0, 0x18], 0xfd9e1d7d, 0xdc64901d, 0x20aa99ca, 0xd3a49608, 0xc82f758b)"
  by code_simp

lemma abc_rounds_20: "fold sha1_round [20..<40]
    ([0xc2c4c700, 0x0, 0x30, 0x85898e01, 0x0, 0x0, 0x0, 0x0, 0x0, 0x0, 0x0, 0x0, 0x0, 0x0, 0x0, 0x18], 0xfd9e1d7d, 0xdc64901d, 0x20aa99ca, 0xd3a49608, 0xc82f758b) =
    ([0x8e9a9202, 0x600, 0xb131c0f0, 0x16263bc6, 0x4ebed41e, 0x626380a1, 0x16263806, 0x18c0, 0x85898ec1, 0x16263806, 0x0, 0x180, 0x2c4c700c, 0xf0, 0x93afb507, 0x5898e048], 0x32de1cba, 0x4c986405, 0xf718e5cf, 0x3d447f6, 0xf72eec32)"
  by code_simp

lemma abc_rounds_40: "fold sha1_round [40..<60]
    ([0x8e9a9202, 0x600, 0xb131c0f0, 0x16263bc6, 0x4ebed41e, 0x626380a1, 0x16263806, 0x18c0, 0x85898ec1, 0x16263806, 0x0, 0x180, 0x2c4c700c, 0xf0, 0x93afb507, 0x5898e048], 0x32de1cba, 0x4c986405, 0xf718e5cf, 0x3d447f6, 0xf72eec32) =
    ([0xda9415ed, 0x26380a16, 0x626383a1, 0x4ebf54de, 0x3835b44b, 0xf600, 0x1e84c7a3, 0x98e04d98, 0x651d16a0, 0x62658ca1, 0x458544d6, 0x44584cb7, 0xe2ba3c2b, 0x60c0, 0x53a37cd, 0x74458547], 0x3f52de5a, 0x9d785fd, 0x3498bfd4, 0xf211824f, 0xd79915ab)"
  by code_simp

lemma abc_rounds_60: "fold sha1_round [60..<80]
    ([0xda9415ed, 0x26380a16, 0x626383a1, 0x4ebf54de, 0x3835b44b, 0xf600, 0x1e84c7a3, 0x98e04d98, 0x651d16a0, 0x62658ca1, 0x458544d6, 0x44584cb7, 0xe2ba3c2b, 0x60c0, 0x53a37cd, 0x74458547], 0x3f52de5a, 0x9d785fd, 0x3498bfd4, 0xf211824f, 0xd79915ab) =
    ([0x7cd45c9d, 0xf0000, 0xfb50753a, 0xec6765e8, 0xba3c2be2, 0x60c000, 0x3a37cd05, 0x458546f4, 0xb8599dd6, 0x380a1a26, 0x1e02203, 0xe7cc3456, 0xe6e60b69, 0xf60a00, 0x5795ef4f, 0x822e0879], 0x42541b35, 0x5738d5e1, 0x21834873, 0x681e6df6, 0xd8fdf6ad)"
  by code_simp

lemma fips_abc: "fips_sha1 [0x61, 0x62, 0x63] = [0xa9, 0x99, 0x3e, 0x36, 0x47, 0x06, 0x81, 0x6a, 0xba, 0x3e, 0x25, 0x71, 0x78, 0x50, 0xc2, 0x6c, 0x9c, 0xd0, 0xd8, 0x9d]"
proof -
  let ?pad = "fips_pad [0x61, 0x62, 0x63]" and ?H = "[0x67452301, 0xefcdab89, 0x98badcfe, 0x10325476, 0xc3d2e1f0] :: u32 list"
  let ?M = "[0x61626380, 0, 0, 0, 0, 0, 0, 0, 0, 0, 0, 0, 0, 0, 0, 24] :: u32 list"
  have l: "length ?pad = 64" by code_simp
  have M: "fips_words ?pad = ?M" by code_simp
  have b: "fips_blocks ?H ?pad = fips_block ?H ?M" using l M by (simp add: fips_blocks.simps)
  have "[0..<80] = [0..<20] @ [20..<40] @ [40..<60] @ [60..<80 :: nat]" by code_simp
  then have "fold sha1_round [0..<80] (?M, ?H ! 0, ?H ! 1, ?H ! 2, ?H ! 3, ?H ! 4) = ([0x7cd45c9d, 0xf0000, 0xfb50753a, 0xec6765e8, 0xba3c2be2, 0x60c000, 0x3a37cd05, 0x458546f4, 0xb8599dd6, 0x380a1a26, 0x1e02203, 0xe7cc3456, 0xe6e60b69, 0xf60a00, 0x5795ef4f, 0x822e0879], 0x42541b35, 0x5738d5e1, 0x21834873, 0x681e6df6, 0xd8fdf6ad)"
    using abc_rounds_0 abc_rounds_20 abc_rounds_40 abc_rounds_60 by (simp del: upt_rec_numeral)
  then show ?thesis unfolding fips_sha1_def b by (simp add: block_rounds fips_out_def del: upt_rec_numeral)
qed

text \<open>
  C14: The hash is SHA-1 as FIPS 180-4 defines it, for every message of less than 2^32 bytes, on
  machines of either byte order, whatever the buffer holds at first; the padding loop ends.
\<close>

theorem nn_sha1_is_sha1:
  assumes "length junk = 16" "int (length bs) < 4294967296"
  shows "nn_sha1_result (fold (\<lambda>b s. nn_sha1_hashbyte s b) bs (nn_sha1_init le junk)) = Some (fips_sha1 bs)"
  by (rule sha1_correct [OF assms])

theorem nn_sha1_is_sha1_witness:
  "nn_sha1_result (fold (\<lambda>b s. nn_sha1_hashbyte s b) [0x61, 0x62, 0x63] (nn_sha1_init True (replicate 16 0))) =
     Some [0xa9, 0x99, 0x3e, 0x36, 0x47, 0x06, 0x81, 0x6a, 0xba, 0x3e, 0x25, 0x71, 0x78, 0x50, 0xc2, 0x6c, 0x9c, 0xd0, 0xd8, 0x9d]"
  unfolding fips_abc [symmetric] by (rule nn_sha1_is_sha1) simp_all

end
