(* ===== verification/Nn_Ws_Handshake.thy ===== *)
theory Nn_Ws_Handshake
  imports Nn_Sws Nn_Http Nn_Base64 Nn_Sha1
begin

text \<open>
  The rest of \<^verbatim>\<open>transports/ws/ws_handshake.c\<close>: the state machine that exchanges the HTTP headers a
  WebSocket connection begins with, as client and as server.  The server reads the minimal
  length of a request, then a few bytes at a time until the empty line; it checks the request and
  answers it; the client checks the answer.
\<close>

section \<open>Model\<close>

definition NN_PAIR :: int where
  "NN_PAIR = 16"

definition NN_PUB :: int where
  "NN_PUB = 32"

definition NN_SUB :: int where
  "NN_SUB = 33"

definition NN_REP :: int where
  "NN_REP = 49"

definition NN_PUSH :: int where
  "NN_PUSH = 80"

definition NN_PULL :: int where
  "NN_PULL = 81"

definition NN_SURVEYOR :: int where
  "NN_SURVEYOR = 98"

definition NN_RESPONDENT :: int where
  "NN_RESPONDENT = 99"

definition NN_BUS :: int where
  "NN_BUS = 112"

text \<open>The protocol of the server, the one of the client, and the name the client sends.\<close>

definition NN_WS_HANDSHAKE_SP_MAP :: "(int \<times> int \<times> bytes) list" where
  "NN_WS_HANDSHAKE_SP_MAP = [
     (NN_PAIR, NN_PAIR, str ''pair.sp.nanomsg.org''),
     (NN_REQ, NN_REP, str ''req.sp.nanomsg.org''),
     (NN_REP, NN_REQ, str ''rep.sp.nanomsg.org''),
     (NN_PUB, NN_SUB, str ''pub.sp.nanomsg.org''),
     (NN_SUB, NN_PUB, str ''sub.sp.nanomsg.org''),
     (NN_SURVEYOR, NN_RESPONDENT, str ''surveyor.sp.nanomsg.org''),
     (NN_RESPONDENT, NN_SURVEYOR, str ''respondent.sp.nanomsg.org''),
     (NN_PUSH, NN_PULL, str ''push.sp.nanomsg.org''),
     (NN_PULL, NN_PUSH, str ''pull.sp.nanomsg.org''),
     (NN_BUS, NN_BUS, str ''bus.sp.nanomsg.org'')]"

definition NN_WS_HANDSHAKE_MAX_SIZE :: nat where
  "NN_WS_HANDSHAKE_MAX_SIZE = 4096"

definition NN_WS_HANDSHAKE_MAGIC_GUID :: bytes where
  "NN_WS_HANDSHAKE_MAGIC_GUID = str ''258EAFA5-E914-47DA-95CA-C5AB0DC85B11''"

definition NN_WS_HANDSHAKE_TIMEOUT :: int where
  "NN_WS_HANDSHAKE_TIMEOUT = 5000"

datatype handshake_state = WH_IDLE | WH_SERVER_RECV | WH_SERVER_REPLY | WH_CLIENT_SEND | WH_CLIENT_RECV | WH_HANDSHAKE_SENT
  | WH_STOPPING_TIMER_ERROR | WH_STOPPING_TIMER_DONE | WH_DONE | WH_STOPPING

datatype handshake_input = WH_FSM_START | WH_FSM_STOP | WH_SRC_USOCK usock_event | WH_SRC_TIMER timer_event

datatype hs_verdict = HS_VALID | HS_RECV_MORE | HS_INVALID

datatype hs_response = RESPONSE_NULL | RESPONSE_OK | RESPONSE_TOO_BIG | RESPONSE_WSPROTO | RESPONSE_WSVERSION | RESPONSE_NNPROTO
  | RESPONSE_NOTPEER | RESPONSE_UNKNOWNTYPE

text \<open>What the handshake asks of its surroundings: the protocol of the socket, which protocols are its peers,
  the byte order of the machine and what the stack holds where the state of the hash is put.\<close>

record hs_env =
  he_protocol :: int
  he_ispeer :: "int \<Rightarrow> bool"
  he_le :: bool
  he_junk :: "u32 list"

text \<open>The socket and the state of the generator of random numbers.\<close>

record hs_world =
  hw_usock :: usock
  hw_random :: u64

text \<open>\<open>wh_usock\<close>: the handshake owns the socket; \<open>wh_expected\<close> and the fields of \<open>wh_headers\<close> are as the code leaves them, the latter unwritten
  at first; \<open>wh_raised\<close>: events that wait in the context.\<close>

record ws_handshaker =
  wh_fsm :: fsm_state
  wh_state :: handshake_state
  wh_mode :: ws_mode
  wh_timer :: nn_timer
  wh_usock :: bool
  wh_resource :: bytes
  wh_host :: bytes
  wh_opening_hs :: bytes
  wh_retries :: nat
  wh_recv_pos :: nat
  wh_recv_len :: nat
  wh_headers :: ws_headers
  wh_expected :: bytes
  wh_response_code :: hs_response
  wh_response :: bytes
  wh_raised :: "ws_handshake_event list"

definition hw_send :: "hs_world \<Rightarrow> bytes list \<Rightarrow> hs_world option" where
  "hw_send w iov = do { us \<leftarrow> nn_usock_send (hw_usock w) iov; Some (w\<lparr>hw_usock := us\<rparr>) }"

definition hw_recv :: "hs_world \<Rightarrow> nat \<Rightarrow> hs_world option" where
  "hw_recv w len = do { us \<leftarrow> nn_usock_recv (hw_usock w) len; Some (w\<lparr>hw_usock := us\<rparr>) }"

text \<open>Bytes written into a buffer; \<^verbatim>\<open>sprintf\<close> writes past its end if the text with the terminating zero does not fit.\<close>

definition buf_store :: "bytes \<Rightarrow> nat \<Rightarrow> bytes \<Rightarrow> bytes option" where
  "buf_store buf pos bs = do { nn_assert (pos + length bs \<le> length buf); Some (take pos buf @ bs @ drop (pos + length bs) buf) }"

definition sprintf :: "bytes \<Rightarrow> bytes \<Rightarrow> bytes option" where
  "sprintf buf text = buf_store buf 0 (text @ [0])"

definition junk_headers :: ws_headers where
  "junk_headers = \<lparr>h_host = HS_JUNK, h_origin = HS_JUNK, h_key = HS_JUNK, h_upgrade = HS_JUNK, h_conn = HS_JUNK, h_version = HS_JUNK,
     h_protocol = HS_JUNK, h_server = HS_JUNK, h_accept_key = HS_JUNK, h_status_code = HS_JUNK, h_reason_phrase = HS_JUNK,
     h_uri = HS_JUNK, h_extensions = HS_JUNK\<rparr>"

definition handshake_init :: ws_handshaker where
  "handshake_init = \<lparr>wh_fsm = FSM_IDLE, wh_state = WH_IDLE, wh_mode = NN_WS_CLIENT, wh_timer = nn_timer_init, wh_usock = False, wh_resource = [],
     wh_host = [], wh_opening_hs = [], wh_retries = 0, wh_recv_pos = 0, wh_recv_len = 0, wh_headers = junk_headers, wh_expected = [],
     wh_response_code = RESPONSE_NULL, wh_response = [], wh_raised = []\<rparr>"

definition handshake_isidle :: "ws_handshaker \<Rightarrow> bool" where
  "handshake_isidle self \<longleftrightarrow> wh_fsm self = FSM_IDLE \<and> NN_WS_HANDSHAKE_STOPPED \<notin> set (wh_raised self)"

definition handshake_term :: "ws_handshaker \<Rightarrow> unit option" where
  "handshake_term self = do {
     nn_assert (wh_state self = WH_IDLE);
     nn_assert (NN_WS_HANDSHAKE_OK \<notin> set (wh_raised self) \<and> NN_WS_HANDSHAKE_ERROR \<notin> set (wh_raised self));
     nn_timer_term (wh_timer self);
     nn_assert (handshake_isidle self) }"

definition handshake_raise :: "ws_handshaker \<Rightarrow> ws_handshake_event \<Rightarrow> ws_handshaker option" where
  "handshake_raise self e = do {
     nn_assert (if e = NN_WS_HANDSHAKE_STOPPED then e \<notin> set (wh_raised self)
       else NN_WS_HANDSHAKE_OK \<notin> set (wh_raised self) \<and> NN_WS_HANDSHAKE_ERROR \<notin> set (wh_raised self));
     Some (self\<lparr>wh_raised := wh_raised self @ [e]\<rparr>) }"

definition handshake_stop_timer :: "ws_handshaker \<Rightarrow> handshake_state \<Rightarrow> ws_handshaker option" where
  "handshake_stop_timer self st = do {
     t \<leftarrow> nn_timer_stop (wh_timer self);
     Some (self\<lparr>wh_timer := t, wh_state := st\<rparr>) }"

definition nn_ws_handshake_shutdown :: "ws_handshaker \<Rightarrow> handshake_input \<Rightarrow> ws_handshaker option" where
  "nn_ws_handshake_shutdown self input = do {
     self \<leftarrow> (if input = WH_FSM_STOP then handshake_stop_timer self WH_STOPPING else Some self);
     if wh_state self = WH_STOPPING then
       (if \<not> nn_timer_isidle (wh_timer self) then Some self
        else do {
          let self = self\<lparr>wh_state := WH_IDLE\<rparr>;
          nn_assert (wh_fsm self = FSM_STOPPING);
          self \<leftarrow> handshake_raise self NN_WS_HANDSHAKE_STOPPED;
          Some (self\<lparr>wh_fsm := FSM_IDLE\<rparr>) })
     else None }"

definition nn_ws_handshake_leave :: "ws_handshaker \<Rightarrow> ws_handshake_event \<Rightarrow> ws_handshaker option" where
  "nn_ws_handshake_leave self e = handshake_raise (self\<lparr>wh_usock := False, wh_state := WH_DONE\<rparr>) e"

subsection \<open>Request and answer\<close>

definition nn_ws_handshake_hash_key :: "hs_env \<Rightarrow> bytes \<Rightarrow> nat \<Rightarrow> bytes rc option" where
  "nn_ws_handshake_hash_key env key hashed_len = do {
     let hash = nn_sha1_init (he_le env) (he_junk env);
     let hash = fold (\<lambda>b h. nn_sha1_hashbyte h b) key hash;
     let hash = fold (\<lambda>b h. nn_sha1_hashbyte h b) NN_WS_HANDSHAKE_MAGIC_GUID hash;
     digest \<leftarrow> nn_sha1_result hash;
     nn_base64_encode digest hashed_len }"

text \<open>The return code of the last function is asserted not to be an error.\<close>

definition rc_ok :: "bytes rc option \<Rightarrow> bytes option" where
  "rc_ok r = do { r \<leftarrow> r; case r of Inl e \<Rightarrow> None | Inr s \<Rightarrow> Some s }"

definition nn_ws_handshake_client_request :: "hs_env \<Rightarrow> ws_handshaker \<Rightarrow> hs_world \<Rightarrow> (ws_handshaker \<times> hs_world) option" where
  "nn_ws_handshake_client_request env self w = (case nn_random_generate (hw_random w) 16 of (rand_key, rnd) \<Rightarrow> do {
     let w = w\<lparr>hw_random := rnd\<rparr>;
     encoded_key \<leftarrow> rc_ok (nn_base64_encode rand_key 25);
     nn_assert (length encoded_key = 24);
     expected \<leftarrow> rc_ok (nn_ws_handshake_hash_key env encoded_key 29);
     nn_assert (length expected = 28);
     (server, client, ws_sp) \<leftarrow> find (\<lambda>(server, client, ws_sp). client = he_protocol env) NN_WS_HANDSHAKE_SP_MAP;
     buf \<leftarrow> sprintf (wh_opening_hs self)
       (str ''GET '' @ wh_resource self @ str '' HTTP/1.1'' @ NN_WS_HANDSHAKE_CRLF @
        str ''Host: '' @ wh_host self @ NN_WS_HANDSHAKE_CRLF @
        str ''Upgrade: websocket'' @ NN_WS_HANDSHAKE_CRLF @
        str ''Connection: Upgrade'' @ NN_WS_HANDSHAKE_CRLF @
        str ''Sec-WebSocket-Key: '' @ encoded_key @ NN_WS_HANDSHAKE_CRLF @
        str ''Sec-WebSocket-Version: 13'' @ NN_WS_HANDSHAKE_CRLF @
        str ''Sec-WebSocket-Protocol: '' @ ws_sp @ NN_WS_HANDSHAKE_CRLF @ NN_WS_HANDSHAKE_CRLF);
     w \<leftarrow> hw_send w [cstr buf];
     Some (self\<lparr>wh_expected := expected, wh_opening_hs := buf\<rparr>, w) })"

text \<open>\<^verbatim>\<open>strncpy\<close> of a field; a null pointer comes with length zero, and nothing is copied.\<close>

definition field_copy :: "hs_field \<Rightarrow> bytes option" where
  "field_copy f = (case f of HS_JUNK \<Rightarrow> None | HS_NULL \<Rightarrow> Some [] | HS_AT addr len \<Rightarrow> Some (take len addr))"

definition hs_code :: "hs_response \<Rightarrow> string option" where
  "hs_code r = (case r of
     RESPONSE_TOO_BIG \<Rightarrow> Some ''400 Opening Handshake Too Long''
   | RESPONSE_WSPROTO \<Rightarrow> Some ''400 Cannot Have Body''
   | RESPONSE_WSVERSION \<Rightarrow> Some ''400 Unsupported WebSocket Version''
   | RESPONSE_NNPROTO \<Rightarrow> Some ''400 Missing nanomsg Required Headers''
   | RESPONSE_NOTPEER \<Rightarrow> Some ''400 Incompatible Socket Type''
   | RESPONSE_UNKNOWNTYPE \<Rightarrow> Some ''400 Unrecognized Socket Type''
   | _ \<Rightarrow> None)"

definition nn_ws_handshake_server_reply :: "hs_env \<Rightarrow> ws_handshaker \<Rightarrow> hs_world \<Rightarrow> (ws_handshaker \<times> hs_world) option" where
  "nn_ws_handshake_server_reply env self w = do {
     let self = self\<lparr>wh_response := replicate 512 0\<rparr>;
     text \<leftarrow> (if wh_response_code self = RESPONSE_OK then do {
         key \<leftarrow> field_copy (h_key (wh_headers self));
         accept_key \<leftarrow> rc_ok (nn_ws_handshake_hash_key env key 29);
         nn_assert (length accept_key = 28);
         protocol \<leftarrow> field_copy (h_protocol (wh_headers self));
         Some (str ''HTTP/1.1 101 Switching Protocols'' @ NN_WS_HANDSHAKE_CRLF @
           str ''Upgrade: websocket'' @ NN_WS_HANDSHAKE_CRLF @
           str ''Connection: Upgrade'' @ NN_WS_HANDSHAKE_CRLF @
           str ''Sec-WebSocket-Accept: '' @ accept_key @ NN_WS_HANDSHAKE_CRLF @
           str ''Sec-WebSocket-Protocol: '' @ protocol @ NN_WS_HANDSHAKE_CRLF @ NN_WS_HANDSHAKE_CRLF) }
       else do {
         code \<leftarrow> hs_code (wh_response_code self);
         version \<leftarrow> field_copy (h_version (wh_headers self));
         Some (str ''HTTP/1.1 '' @ str code @ NN_WS_HANDSHAKE_CRLF @
           str ''Sec-WebSocket-Version: '' @ version @ NN_WS_HANDSHAKE_CRLF) });
     buf \<leftarrow> sprintf (wh_response self) text;
     w \<leftarrow> hw_send w [cstr buf];
     Some (self\<lparr>wh_response := buf\<rparr>, w) }"

subsection \<open>Parsing\<close>

text \<open>Fields that are required, and comparison of a field that is there.\<close>

definition field_given :: "hs_field \<Rightarrow> bool option" where
  "field_given f = (case f of HS_JUNK \<Rightarrow> None | HS_NULL \<Rightarrow> Some False | HS_AT addr len \<Rightarrow> Some True)"

definition field_is :: "bytes \<Rightarrow> hs_field \<Rightarrow> bool option" where
  "field_is expected f = (case f of HS_AT addr len \<Rightarrow> Some (nn_ws_validate_value expected addr len True) | _ \<Rightarrow> None)"

fun all_given :: "hs_field list \<Rightarrow> bool option" where
  "all_given [] = Some True"
| "all_given (f # fs) = do { b \<leftarrow> field_given f; if b then all_given fs else Some False }"

text \<open>The local socket against the name of a protocol the client sends.\<close>

fun sp_lookup :: "int \<Rightarrow> hs_field \<Rightarrow> (int \<times> int \<times> bytes) list \<Rightarrow> hs_response option" where
  "sp_lookup own f [] = Some RESPONSE_UNKNOWNTYPE"
| "sp_lookup own f ((server, client, ws_sp) # ms) = do {
     b \<leftarrow> field_is ws_sp f;
     if b then Some (if own = server then RESPONSE_OK else RESPONSE_NOTPEER) else sp_lookup own f ms }"

definition client_verdict :: "hs_env \<Rightarrow> ws_headers \<Rightarrow> hs_response option" where
  "client_verdict env h = do {
     given \<leftarrow> all_given [h_host h, h_upgrade h, h_conn h, h_key h, h_version h];
     if \<not> given then Some RESPONSE_WSPROTO else do {
     version \<leftarrow> field_is (str ''13'') (h_version h);
     if \<not> version then Some RESPONSE_WSVERSION else do {
     upgrade \<leftarrow> field_is (str ''websocket'') (h_upgrade h);
     if \<not> upgrade then Some RESPONSE_WSPROTO else do {
     conn \<leftarrow> field_is (str ''Upgrade'') (h_conn h);
     if \<not> conn then Some RESPONSE_WSPROTO else do {
     protocol \<leftarrow> field_given (h_protocol h);
     if protocol then sp_lookup (he_protocol env) (h_protocol h) NN_WS_HANDSHAKE_SP_MAP
     else Some (if he_ispeer env NN_PAIR then RESPONSE_OK else RESPONSE_NOTPEER) }}}}}"

definition client_reset :: "ws_headers \<Rightarrow> ws_headers" where
  "client_reset h = h\<lparr>h_host := HS_NULL, h_origin := HS_NULL, h_key := HS_NULL, h_upgrade := HS_NULL, h_conn := HS_NULL,
     h_version := HS_NULL, h_protocol := HS_NULL, h_uri := HS_NULL\<rparr>"

text \<open>The request line and the headers: the rest of the text, or nothing where more is to be received.\<close>

definition client_lines :: "bytes \<Rightarrow> ws_headers \<Rightarrow> (bytes option \<times> ws_headers) option" where
  "client_lines pos h = do {
     r \<leftarrow> nn_ws_match_token (str ''GET '') pos False False;
     case r of None \<Rightarrow> Some (None, h) | Some pos \<Rightarrow>
     (case nn_ws_match_value (str '' '') pos False False of None \<Rightarrow> Some (None, h\<lparr>h_uri := HS_NULL\<rparr>) | Some (addr, len, pos) \<Rightarrow> do {
     let h = h\<lparr>h_uri := HS_AT addr len\<rparr>;
     r \<leftarrow> nn_ws_match_token (str ''HTTP/1.1'') pos False False;
     case r of None \<Rightarrow> Some (None, h) | Some pos \<Rightarrow> do {
     r \<leftarrow> nn_ws_match_token NN_WS_HANDSHAKE_CRLF pos False False;
     case r of None \<Rightarrow> Some (None, h) | Some pos \<Rightarrow> header_loop client_header pos h }})}"

definition nn_ws_handshake_parse_client_opening :: "hs_env \<Rightarrow> ws_handshaker \<Rightarrow> (hs_verdict \<times> ws_handshaker) option" where
  "nn_ws_handshake_parse_client_opening env self = do {
     nn_assert (0 \<in> set (wh_opening_hs self));
     nn_assert (length (cstr (wh_opening_hs self)) < length (wh_opening_hs self));
     let pos = cstr (wh_opening_hs self);
     if strstr pos NN_WS_HANDSHAKE_TERMSEQ = None then Some (HS_RECV_MORE, self)
     else do {
       let self = self\<lparr>wh_response_code := RESPONSE_NULL\<rparr>;
       (r, h) \<leftarrow> client_lines pos (client_reset (wh_headers self));
       let self = self\<lparr>wh_headers := h\<rparr>;
       case r of None \<Rightarrow> Some (HS_RECV_MORE, self) | Some pos \<Rightarrow> do {
         nn_assert (pos = []);
         code \<leftarrow> client_verdict env h;
         Some (if code = RESPONSE_OK then HS_VALID else HS_INVALID, self\<lparr>wh_response_code := code\<rparr>) } } }"

definition server_reset :: "ws_headers \<Rightarrow> ws_headers" where
  "server_reset h = h\<lparr>h_status_code := HS_NULL, h_reason_phrase := HS_NULL, h_server := HS_NULL, h_accept_key := HS_NULL,
     h_upgrade := HS_NULL, h_conn := HS_NULL, h_version := HS_NULL, h_protocol := HS_NULL\<rparr>"

definition server_lines :: "bytes \<Rightarrow> ws_headers \<Rightarrow> (bytes option \<times> ws_headers) option" where
  "server_lines pos h = do {
     r \<leftarrow> nn_ws_match_token (str ''HTTP/1.1 '') pos False False;
     case r of None \<Rightarrow> Some (None, h) | Some pos \<Rightarrow>
     (case nn_ws_match_value (str '' '') pos False False of None \<Rightarrow> Some (None, h\<lparr>h_status_code := HS_NULL\<rparr>) | Some (addr, len, pos) \<Rightarrow>
     let h = h\<lparr>h_status_code := HS_AT addr len\<rparr> in
     (case nn_ws_match_value NN_WS_HANDSHAKE_CRLF pos False False of None \<Rightarrow> Some (None, h\<lparr>h_reason_phrase := HS_NULL\<rparr>) | Some (addr, len, pos) \<Rightarrow>
     header_loop server_header pos (h\<lparr>h_reason_phrase := HS_AT addr len\<rparr>)))}"

definition server_verdict :: "bytes \<Rightarrow> ws_headers \<Rightarrow> bool option" where
  "server_verdict expected h = do {
     given \<leftarrow> all_given [h_status_code h, h_upgrade h, h_conn h, h_accept_key h];
     if \<not> given then Some False else do {
     status \<leftarrow> field_is (str ''101'') (h_status_code h);
     if \<not> status then Some False else do {
     upgrade \<leftarrow> field_is (str ''websocket'') (h_upgrade h);
     if \<not> upgrade then Some False else do {
     conn \<leftarrow> field_is (str ''Upgrade'') (h_conn h);
     if \<not> conn then Some False else field_is expected (h_accept_key h) }}}}"

definition nn_ws_handshake_parse_server_response :: "ws_handshaker \<Rightarrow> (hs_verdict \<times> ws_handshaker) option" where
  "nn_ws_handshake_parse_server_response self = do {
     nn_assert (0 \<in> set (wh_response self));
     nn_assert (length (cstr (wh_response self)) < length (wh_response self));
     let pos = cstr (wh_response self);
     if strstr pos NN_WS_HANDSHAKE_TERMSEQ = None then Some (HS_RECV_MORE, self)
     else do {
       (r, h) \<leftarrow> server_lines pos (server_reset (wh_headers self));
       let self = self\<lparr>wh_headers := h\<rparr>;
       case r of None \<Rightarrow> Some (HS_RECV_MORE, self) | Some pos \<Rightarrow> do {
         nn_assert (pos = []);
         ok \<leftarrow> server_verdict (wh_expected self) h;
         Some (if ok then HS_VALID else HS_INVALID, self) } } }"

subsection \<open>State machine\<close>

text \<open>Bytes have arrived.  While the headers are not complete, the next bytes are asked for.\<close>

definition server_parsed :: "hs_env \<Rightarrow> ws_handshaker \<Rightarrow> hs_world \<Rightarrow> (ws_handshaker \<times> hs_world) option" where
  "server_parsed env self w = do {
     (v, self) \<leftarrow> nn_ws_handshake_parse_client_opening env self;
     if v \<noteq> HS_RECV_MORE then nn_ws_handshake_server_reply env (self\<lparr>wh_state := WH_SERVER_REPLY\<rparr>) w
     else do {
       let self = self\<lparr>wh_recv_pos := wh_recv_pos self + wh_recv_len self\<rparr>;
       nn_assert (wh_recv_pos self < length (wh_opening_hs self));
       nn_assert (wh_recv_pos self \<ge> 4);
       let i = termseq_tail (wh_opening_hs self) (wh_recv_pos self) 4;
       nn_assert (i < 4);
       let self = self\<lparr>wh_recv_len := 4 - i\<rparr>;
       if wh_recv_len self + wh_recv_pos self > length (wh_opening_hs self) then
         nn_ws_handshake_server_reply env (self\<lparr>wh_response_code := RESPONSE_TOO_BIG, wh_state := WH_SERVER_REPLY\<rparr>) w
       else do {
         w \<leftarrow> hw_recv w (wh_recv_len self);
         Some (self\<lparr>wh_retries := wh_retries self + 1\<rparr>, w) } } }"

definition server_received :: "hs_env \<Rightarrow> ws_handshaker \<Rightarrow> hs_world \<Rightarrow> bytes \<Rightarrow> (ws_handshaker \<times> hs_world) option" where
  "server_received env self w bs = do {
     buf \<leftarrow> buf_store (wh_opening_hs self) (wh_recv_pos self) bs;
     server_parsed env (self\<lparr>wh_opening_hs := buf\<rparr>) w }"

definition client_parsed :: "hs_env \<Rightarrow> ws_handshaker \<Rightarrow> hs_world \<Rightarrow> (ws_handshaker \<times> hs_world) option" where
  "client_parsed env self w = do {
     (v, self) \<leftarrow> nn_ws_handshake_parse_server_response self;
     case v of
       HS_INVALID \<Rightarrow> map_option (\<lambda>s. (s, w)) (handshake_stop_timer self WH_STOPPING_TIMER_ERROR)
     | HS_VALID \<Rightarrow> map_option (\<lambda>s. (s, w)) (handshake_stop_timer self WH_STOPPING_TIMER_DONE)
     | HS_RECV_MORE \<Rightarrow> do {
         let self = self\<lparr>wh_recv_pos := wh_recv_pos self + wh_recv_len self\<rparr>;
         nn_assert (wh_recv_pos self < length (wh_response self));
         nn_assert (wh_recv_pos self \<ge> 4);
         let i = termseq_tail (wh_response self) (wh_recv_pos self) 4;
         nn_assert (i < 4);
         let self = self\<lparr>wh_recv_len := 4 - i\<rparr>;
         if wh_recv_len self + wh_recv_pos self > length (wh_response self) then
           map_option (\<lambda>s. (s, w)) (handshake_stop_timer self WH_STOPPING_TIMER_ERROR)
         else do {
           w \<leftarrow> hw_recv w (wh_recv_len self);
           Some (self\<lparr>wh_retries := wh_retries self + 1\<rparr>, w) } } }"

definition client_received :: "hs_env \<Rightarrow> ws_handshaker \<Rightarrow> hs_world \<Rightarrow> bytes \<Rightarrow> (ws_handshaker \<times> hs_world) option" where
  "client_received env self w bs = do {
     buf \<leftarrow> buf_store (wh_response self) (wh_recv_pos self) bs;
     client_parsed env (self\<lparr>wh_response := buf\<rparr>) w }"

definition handshake_failed :: "ws_handshaker \<Rightarrow> hs_world \<Rightarrow> (ws_handshaker \<times> hs_world) option" where
  "handshake_failed self w = map_option (\<lambda>s. (s, w)) (handshake_stop_timer self WH_STOPPING_TIMER_ERROR)"

definition nn_ws_handshake_handler :: "hs_env \<Rightarrow> ws_handshaker \<Rightarrow> hs_world \<Rightarrow> handshake_input \<Rightarrow> (ws_handshaker \<times> hs_world) option" where
  "nn_ws_handshake_handler env self w input = (case wh_state self of
     WH_IDLE \<Rightarrow> (case input of
       WH_FSM_START \<Rightarrow> do {
         nn_assert (wh_recv_pos self = 0);
         nn_assert (wh_recv_len self \<ge> 4);
         t \<leftarrow> nn_timer_start (wh_timer self) NN_WS_HANDSHAKE_TIMEOUT;
         let self = self\<lparr>wh_timer := t\<rparr>;
         case wh_mode self of
           NN_WS_CLIENT \<Rightarrow> do {
             nn_assert (wh_recv_len self \<le> length (wh_response self));
             nn_ws_handshake_client_request env (self\<lparr>wh_state := WH_CLIENT_SEND\<rparr>) w }
         | NN_WS_SERVER \<Rightarrow> do {
             nn_assert (wh_recv_len self \<le> length (wh_opening_hs self));
             w \<leftarrow> hw_recv w (wh_recv_len self);
             Some (self\<lparr>wh_state := WH_SERVER_RECV\<rparr>, w) } }
     | _ \<Rightarrow> None)
   | WH_SERVER_RECV \<Rightarrow> (case input of
       WH_SRC_USOCK (NN_USOCK_RECEIVED bs) \<Rightarrow> server_received env self w bs
     | WH_SRC_USOCK NN_USOCK_SHUTDOWN \<Rightarrow> Some (self, w)
     | WH_SRC_USOCK NN_USOCK_ERROR \<Rightarrow> handshake_failed self w
     | WH_SRC_TIMER NN_TIMER_TIMEOUT \<Rightarrow> handshake_failed self w
     | _ \<Rightarrow> None)
   | WH_SERVER_REPLY \<Rightarrow> (case input of
       WH_SRC_USOCK NN_USOCK_SENT \<Rightarrow> map_option (\<lambda>s. (s, w)) (handshake_stop_timer self WH_STOPPING_TIMER_DONE)
     | WH_SRC_USOCK NN_USOCK_SHUTDOWN \<Rightarrow> Some (self, w)
     | WH_SRC_USOCK NN_USOCK_ERROR \<Rightarrow> handshake_failed self w
     | WH_SRC_TIMER NN_TIMER_TIMEOUT \<Rightarrow> handshake_failed self w
     | _ \<Rightarrow> None)
   | WH_CLIENT_SEND \<Rightarrow> (case input of
       WH_SRC_USOCK NN_USOCK_SENT \<Rightarrow> do {
         w \<leftarrow> hw_recv w (wh_recv_len self);
         Some (self\<lparr>wh_state := WH_CLIENT_RECV\<rparr>, w) }
     | WH_SRC_USOCK NN_USOCK_SHUTDOWN \<Rightarrow> Some (self, w)
     | WH_SRC_USOCK NN_USOCK_ERROR \<Rightarrow> handshake_failed self w
     | WH_SRC_TIMER NN_TIMER_TIMEOUT \<Rightarrow> handshake_failed self w
     | _ \<Rightarrow> None)
   | WH_CLIENT_RECV \<Rightarrow> (case input of
       WH_SRC_USOCK (NN_USOCK_RECEIVED bs) \<Rightarrow> client_received env self w bs
     | WH_SRC_USOCK NN_USOCK_SHUTDOWN \<Rightarrow> Some (self, w)
     | WH_SRC_USOCK NN_USOCK_ERROR \<Rightarrow> handshake_failed self w
     | WH_SRC_TIMER NN_TIMER_TIMEOUT \<Rightarrow> handshake_failed self w
     | _ \<Rightarrow> None)
   | WH_HANDSHAKE_SENT \<Rightarrow> (case input of
       WH_SRC_USOCK NN_USOCK_SENT \<Rightarrow> map_option (\<lambda>s. (s, w)) (handshake_stop_timer self WH_STOPPING_TIMER_DONE)
     | WH_SRC_USOCK NN_USOCK_SHUTDOWN \<Rightarrow> Some (self, w)
     | WH_SRC_USOCK NN_USOCK_ERROR \<Rightarrow> handshake_failed self w
     | WH_SRC_TIMER NN_TIMER_TIMEOUT \<Rightarrow> handshake_failed self w
     | _ \<Rightarrow> None)
   | WH_STOPPING_TIMER_ERROR \<Rightarrow> (case input of
       WH_SRC_USOCK e \<Rightarrow> Some (self, w)
     | WH_SRC_TIMER NN_TIMER_STOPPED \<Rightarrow> map_option (\<lambda>s. (s, w)) (nn_ws_handshake_leave self NN_WS_HANDSHAKE_ERROR)
     | _ \<Rightarrow> None)
   | WH_STOPPING_TIMER_DONE \<Rightarrow> (case input of
       WH_SRC_USOCK e \<Rightarrow> Some (self, w)
     | WH_SRC_TIMER NN_TIMER_STOPPED \<Rightarrow> map_option (\<lambda>s. (s, w)) (nn_ws_handshake_leave self NN_WS_HANDSHAKE_OK)
     | _ \<Rightarrow> None)
   | _ \<Rightarrow> None)"

text \<open>\<^verbatim>\<open>nn_fsm_feed\<close>.\<close>

definition handshake_feed :: "hs_env \<Rightarrow> ws_handshaker \<Rightarrow> hs_world \<Rightarrow> handshake_input \<Rightarrow> (ws_handshaker \<times> hs_world) option" where
  "handshake_feed env self w input =
     (if wh_fsm self \<noteq> FSM_STOPPING then nn_ws_handshake_handler env self w input
      else map_option (\<lambda>s. (s, w)) (nn_ws_handshake_shutdown self input))"

definition server_min :: bytes where
  "server_min = str ''GET x HTTP/1.1'' @ NN_WS_HANDSHAKE_CRLF @ str ''Upgrade: websocket'' @ NN_WS_HANDSHAKE_CRLF @
     str ''Connection: Upgrade'' @ NN_WS_HANDSHAKE_CRLF @ str ''Host: x'' @ NN_WS_HANDSHAKE_CRLF @ str ''Origin: x'' @ NN_WS_HANDSHAKE_CRLF @
     str ''Sec-WebSocket-Key: xxxxxxxxxxxxxxxxxxxxxxxx'' @ NN_WS_HANDSHAKE_CRLF @
     str ''Sec-WebSocket-Version: xx'' @ NN_WS_HANDSHAKE_CRLF @ NN_WS_HANDSHAKE_CRLF"

definition client_min :: bytes where
  "client_min = str ''HTTP/1.1 xxx'' @ NN_WS_HANDSHAKE_CRLF @ NN_WS_HANDSHAKE_CRLF"

definition handshake_start ::
  "hs_env \<Rightarrow> ws_mode \<Rightarrow> bytes \<Rightarrow> bytes \<Rightarrow> ws_handshaker \<Rightarrow> hs_world \<Rightarrow> (ws_handshaker \<times> hs_world) option" where
  "handshake_start env md resource host self w = do {
     nn_assert (md = NN_WS_CLIENT \<longrightarrow> length resource \<ge> 1);
     nn_assert (\<not> wh_usock self);
     let self = self\<lparr>wh_usock := True, wh_mode := md, wh_resource := resource, wh_host := host,
       wh_opening_hs := replicate NN_WS_HANDSHAKE_MAX_SIZE 0, wh_response := replicate 512 0, wh_recv_pos := 0, wh_retries := 0,
       wh_recv_len := (case md of NN_WS_SERVER \<Rightarrow> length server_min | NN_WS_CLIENT \<Rightarrow> length client_min)\<rparr>;
     nn_assert (handshake_isidle self);
     (self, w) \<leftarrow> nn_ws_handshake_handler env self w WH_FSM_START;
     Some (self\<lparr>wh_fsm := FSM_ACTIVE\<rparr>, w) }"

definition handshake_stop :: "ws_handshaker \<Rightarrow> ws_handshaker option" where
  "handshake_stop self =
     (if wh_fsm self \<noteq> FSM_ACTIVE then Some self
      else nn_ws_handshake_shutdown (self\<lparr>wh_fsm := FSM_STOPPING\<rparr>) WH_FSM_STOP)"

text \<open>The worker thread works on the timer, then its events are processed.\<close>

definition handshake_pop :: "ws_handshaker \<times> hs_world \<Rightarrow> (timer_event \<times> ws_handshaker \<times> hs_world) option" where
  "handshake_pop sw = map_option (\<lambda>(e, t). (e, (fst sw)\<lparr>wh_timer := t\<rparr>, snd sw)) (timer_take (wh_timer (fst sw)))"

definition handshake_tick :: "hs_env \<Rightarrow> tick \<Rightarrow> ws_handshaker \<Rightarrow> hs_world \<Rightarrow> (ws_handshaker \<times> hs_world) option" where
  "handshake_tick env k self w = do {
     t \<leftarrow> timer_tick k (wh_timer self);
     nn_ctx_leave handshake_pop (\<lambda>e (s, w). handshake_feed env s w (WH_SRC_TIMER e)) (self\<lparr>wh_timer := t\<rparr>, w) }"

text \<open>The socket reports an event.\<close>

definition handshake_usock :: "hs_env \<Rightarrow> ws_handshaker \<Rightarrow> hs_world \<Rightarrow> usock_event \<Rightarrow> (ws_handshaker \<times> hs_world) option" where
  "handshake_usock env self w e = handshake_feed env self (w\<lparr>hw_usock := usock_done (hw_usock w) e\<rparr>) (WH_SRC_USOCK e)"

section \<open>Two ends\<close>

definition hs_arrive :: "hs_env \<Rightarrow> ws_handshaker \<times> hs_world \<Rightarrow> bytes \<Rightarrow> (ws_handshaker \<times> hs_world) option" where
  "hs_arrive env sw bs = handshake_usock env (fst sw) (snd sw) (NN_USOCK_RECEIVED bs)"

definition hs_asks :: "ws_handshaker \<times> hs_world \<Rightarrow> nat option" where
  "hs_asks sw = us_in (hw_usock (snd sw))"

definition hs_pump :: "hs_env \<Rightarrow> ws_handshaker \<times> hs_world \<Rightarrow> bytes \<Rightarrow> ((ws_handshaker \<times> hs_world) \<times> bytes) option" where
  "hs_pump env sw bs = stream_pump (hs_arrive env) hs_asks sw bs"

fun handshake_ticks :: "hs_env \<Rightarrow> nat \<Rightarrow> ws_handshaker \<times> hs_world \<Rightarrow> (ws_handshaker \<times> hs_world) option" where
  "handshake_ticks env 0 sw = Some sw"
| "handshake_ticks env (Suc n) sw = do { sw \<leftarrow> handshake_tick env TaskTick (fst sw) (snd sw); handshake_ticks env n sw }"

definition fresh_world :: "u64 \<Rightarrow> hs_world" where
  "fresh_world r = \<lparr>hw_usock = \<lparr>us_in = None, us_out = False, us_wire = []\<rparr>, hw_random = r\<rparr>"

end
