(* ===== verification/Nn_Ws_Opening.thy ===== *)
theory Nn_Ws_Opening
  imports Nn_Ws_Handshake
begin

text \<open>
  The opening handshake between a client and a server of this library: it completes at both ends, and neither end
  reads a byte of what follows.  And requests that stop the process.
\<close>

section \<open>Reading\<close>

lemma tail_append: "i \<le> length t \<Longrightarrow> termseq_tail (t @ z) (length t) i = termseq_tail t (length t) i"
  by (induction i) simp_all

lemma buf_store_next:
  assumes "length t + length bs \<le> N"
  shows "buf_store (t @ replicate (N - length t) 0) (length t) bs = Some ((t @ bs) @ replicate (N - length (t @ bs)) 0)"
  using assms by (simp add: buf_store_def)

lemma cstr_text: "0 \<notin> set t \<Longrightarrow> cstr (t @ replicate n 0) = t"
  by (induction t) (auto simp: cstr_def takeWhile_eq_Nil_iff)

lemma cstr_text0: "0 \<notin> set t \<Longrightarrow> cstr (t @ 0 # z) = t"
  by (induction t) (auto simp: cstr_def)

text \<open>The states of an end that has received \<open>t\<close>: nothing else has changed since it began to read.\<close>

definition server_reads :: "ws_handshaker \<Rightarrow> hs_world \<Rightarrow> bytes \<Rightarrow> ws_handshaker \<times> hs_world \<Rightarrow> bool" where
  "server_reads s0 w0 t sw \<longleftrightarrow> wh_state s0 = WH_SERVER_RECV \<and> wh_fsm s0 = FSM_ACTIVE \<and> length t \<le> 4096 \<and>
     (\<exists>k n. sw = (s0\<lparr>wh_opening_hs := t @ replicate (4096 - length t) 0, wh_retries := k, wh_recv_pos := length t, wh_recv_len := n\<rparr>,
       w0\<lparr>hw_usock := (hw_usock w0)\<lparr>us_in := Some n\<rparr>\<rparr>))"

definition client_reads :: "ws_handshaker \<Rightarrow> hs_world \<Rightarrow> bytes \<Rightarrow> ws_handshaker \<times> hs_world \<Rightarrow> bool" where
  "client_reads s0 w0 t sw \<longleftrightarrow> wh_state s0 = WH_CLIENT_RECV \<and> wh_fsm s0 = FSM_ACTIVE \<and> length t \<le> 512 \<and>
     (\<exists>k n. sw = (s0\<lparr>wh_retries := k, wh_recv_pos := length t, wh_recv_len := n, wh_response := t @ replicate (512 - length t) 0\<rparr>,
       w0\<lparr>hw_usock := (hw_usock w0)\<lparr>us_in := Some n\<rparr>\<rparr>))"

text \<open>The bytes it asked for arrive.\<close>

definition server_full :: "ws_handshaker \<Rightarrow> bytes \<Rightarrow> nat \<Rightarrow> nat \<Rightarrow> ws_handshaker" where
  "server_full s0 t k n = s0\<lparr>wh_opening_hs := t @ replicate (4096 - length t) 0, wh_retries := k, wh_recv_pos := length t - n, wh_recv_len := n\<rparr>"

definition client_full :: "ws_handshaker \<Rightarrow> bytes \<Rightarrow> nat \<Rightarrow> nat \<Rightarrow> ws_handshaker" where
  "client_full s0 t k n = s0\<lparr>wh_retries := k, wh_recv_pos := length t - n, wh_recv_len := n, wh_response := t @ replicate (512 - length t) 0\<rparr>"

lemma server_arrive:
  assumes "server_reads s0 w0 t sw" "hs_asks sw = Some (length bs)" "length (t @ bs) \<le> 4096"
  shows "\<exists>k. hs_arrive env sw bs = server_parsed env (server_full s0 (t @ bs) k (length bs)) (w0\<lparr>hw_usock := (hw_usock w0)\<lparr>us_in := None\<rparr>\<rparr>)"
proof -
  obtain k where sw: "sw = (s0\<lparr>wh_opening_hs := t @ replicate (4096 - length t) 0, wh_retries := k, wh_recv_pos := length t, wh_recv_len := length bs\<rparr>,
       w0\<lparr>hw_usock := (hw_usock w0)\<lparr>us_in := Some (length bs)\<rparr>\<rparr>)"
    using assms(1,2) by (auto simp: server_reads_def hs_asks_def)
  then show ?thesis using assms(1,3) buf_store_next [of t bs 4096]
    by (intro exI [of _ k], cases s0) (auto simp: server_reads_def hs_arrive_def handshake_usock_def handshake_feed_def nn_ws_handshake_handler_def server_received_def server_full_def usock_done_def)
qed

lemma client_arrive:
  assumes "client_reads s0 w0 t sw" "hs_asks sw = Some (length bs)" "length (t @ bs) \<le> 512"
  shows "\<exists>k. hs_arrive env sw bs = client_parsed env (client_full s0 (t @ bs) k (length bs)) (w0\<lparr>hw_usock := (hw_usock w0)\<lparr>us_in := None\<rparr>\<rparr>)"
proof -
  obtain k where sw: "sw = (s0\<lparr>wh_retries := k, wh_recv_pos := length t, wh_recv_len := length bs, wh_response := t @ replicate (512 - length t) 0\<rparr>,
       w0\<lparr>hw_usock := (hw_usock w0)\<lparr>us_in := Some (length bs)\<rparr>\<rparr>)"
    using assms(1,2) by (auto simp: client_reads_def hs_asks_def)
  then show ?thesis using assms(1,3) buf_store_next [of t bs 512]
    by (intro exI [of _ k], cases s0) (auto simp: client_reads_def hs_arrive_def handshake_usock_def handshake_feed_def nn_ws_handshake_handler_def client_received_def client_full_def usock_done_def)
qed

lemma server_parse_more:
  assumes "0 \<notin> set t" "length t < 4096" "strstr t TERMSEQ = None"
  shows "nn_ws_handshake_parse_client_opening env (server_full s0 t k n) = Some (HS_RECV_MORE, server_full s0 t k n)"
  using assms by (simp add: nn_ws_handshake_parse_client_opening_def server_full_def cstr_text)

lemma client_parse_more:
  assumes "0 \<notin> set t" "length t < 512" "strstr t TERMSEQ = None"
  shows "nn_ws_handshake_parse_server_response (client_full s0 t k n) = Some (HS_RECV_MORE, client_full s0 t k n)"
  using assms by (simp add: nn_ws_handshake_parse_server_response_def client_full_def cstr_text)

interpretation server: header_reader "hs_arrive env" hs_asks "server_reads s0 w0" 4095 for env s0 w0
proof
  fix t sw and bs :: bytes
  let ?t = "t @ bs"
  let ?i = "termseq_tail ?t (length ?t) 4"
  assume a: "server_reads s0 w0 t sw" "hs_asks sw = Some (length bs)" "4 \<le> length ?t" "0 \<notin> set ?t" "strstr ?t TERMSEQ = None" "?i < 4" "length ?t + 4 \<le> 4095 + ?i"
  let ?w = "w0\<lparr>hw_usock := (hw_usock w0)\<lparr>us_in := None\<rparr>\<rparr>"
  have l: "length ?t < 4096" using a(6,7) by linarith
  then obtain k where k: "hs_arrive env sw bs = server_parsed env (server_full s0 ?t k (length bs)) ?w" using server_arrive [OF a(1,2)] by fastforce
  have i: "termseq_tail (?t @ z) (length ?t) 4 = ?i" for z by (rule tail_append [OF a(3)])
  have room: "4 - ?i + length ?t \<le> 4096" using a(6,7) by linarith
  have p: "server_parsed env (server_full s0 ?t k (length bs)) ?w = Some
      (s0\<lparr>wh_opening_hs := ?t @ replicate (4096 - length ?t) 0, wh_retries := Suc k, wh_recv_pos := length ?t, wh_recv_len := 4 - ?i\<rparr>, w0\<lparr>hw_usock := (hw_usock w0)\<lparr>us_in := Some (4 - ?i)\<rparr>\<rparr>)"
    unfolding server_parsed_def server_parse_more [OF a(4) l a(5)] using a(3,6) l room i
    by (cases s0) (simp add: server_full_def hw_recv_def nn_usock_recv_def Let_def)
  show "\<exists>s'. hs_arrive env sw bs = Some s' \<and> server_reads s0 w0 ?t s' \<and> hs_asks s' = Some (4 - ?i)"
    unfolding k p using a(1) l by (auto simp: server_reads_def hs_asks_def)
qed

interpretation client: header_reader "hs_arrive env" hs_asks "client_reads s0 w0" 511 for env s0 w0
proof
  fix t sw and bs :: bytes
  let ?t = "t @ bs"
  let ?i = "termseq_tail ?t (length ?t) 4"
  assume a: "client_reads s0 w0 t sw" "hs_asks sw = Some (length bs)" "4 \<le> length ?t" "0 \<notin> set ?t" "strstr ?t TERMSEQ = None" "?i < 4" "length ?t + 4 \<le> 511 + ?i"
  let ?w = "w0\<lparr>hw_usock := (hw_usock w0)\<lparr>us_in := None\<rparr>\<rparr>"
  have l: "length ?t < 512" using a(6,7) by linarith
  then obtain k where k: "hs_arrive env sw bs = client_parsed env (client_full s0 ?t k (length bs)) ?w" using client_arrive [OF a(1,2)] by fastforce
  have i: "termseq_tail (?t @ z) (length ?t) 4 = ?i" for z by (rule tail_append [OF a(3)])
  have room: "4 - ?i + length ?t \<le> 512" using a(6,7) by linarith
  have p: "client_parsed env (client_full s0 ?t k (length bs)) ?w = Some
      (s0\<lparr>wh_retries := Suc k, wh_recv_pos := length ?t, wh_recv_len := 4 - ?i, wh_response := ?t @ replicate (512 - length ?t) 0\<rparr>, w0\<lparr>hw_usock := (hw_usock w0)\<lparr>us_in := Some (4 - ?i)\<rparr>\<rparr>)"
    unfolding client_parsed_def client_parse_more [OF a(4) l a(5)] using a(3,6) l room i
    by (cases s0) (simp add: client_full_def hw_recv_def nn_usock_recv_def Let_def)
  show "\<exists>s'. hs_arrive env sw bs = Some s' \<and> client_reads s0 w0 ?t s' \<and> hs_asks s' = Some (4 - ?i)"
    unfolding k p using a(1) l by (auto simp: client_reads_def hs_asks_def)
qed

text \<open>From the first byte: the end that reads gets to the point where its headers are complete.\<close>

lemma server_gets_headers:
  assumes "strstr S TERMSEQ = Some TERMSEQ" "0 \<notin> set S" "length S \<le> 4095" "server_reads s0 w0 [] sw" "hs_asks sw = Some n" "4 \<le> n" "n \<le> length S"
  shows "\<exists>t u sw' k. S = t @ u \<and> hs_pump env sw t = Some (sw', []) \<and> hs_asks sw' = Some (length u) \<and>
    hs_arrive env sw' u = server_parsed env (server_full s0 S k (length u)) (w0\<lparr>hw_usock := (hw_usock w0)\<lparr>us_in := None\<rparr>\<rparr>) \<and>
    hs_pump env sw (S @ rest) = (hs_arrive env sw' u \<bind> (\<lambda>sw. hs_pump env sw rest))"
proof -
  obtain t u sw' where u: "S = t @ u" "server_reads s0 w0 t sw'" "hs_asks sw' = Some (length u)" "hs_pump env sw (S @ rest) = hs_pump env sw' (u @ rest)"
    "hs_pump env sw t = Some (sw', [])"
    using server.reads_headers [OF assms(1-5), of S env rest] assms(6,7) by (auto simp: hs_pump_def)
  obtain k where k: "hs_arrive env sw' u = server_parsed env (server_full s0 S k (length u)) (w0\<lparr>hw_usock := (hw_usock w0)\<lparr>us_in := None\<rparr>\<rparr>)"
    using server_arrive [OF u(2,3), of env] u(1) assms(3) by auto
  have "hs_pump env sw' (u @ rest) = (hs_arrive env sw' u \<bind> (\<lambda>sw. hs_pump env sw rest))"
    unfolding hs_pump_def using u(3) by (subst stream_pump.simps) simp
  then show ?thesis using u(1,3,4,5) k by (intro exI [of _ t] exI [of _ u] exI [of _ sw'] exI [of _ k]) simp
qed

lemma client_gets_headers:
  assumes "strstr S TERMSEQ = Some TERMSEQ" "0 \<notin> set S" "length S \<le> 511" "client_reads s0 w0 [] sw" "hs_asks sw = Some n" "4 \<le> n" "n \<le> length S"
  shows "\<exists>t u sw' k. S = t @ u \<and> hs_pump env sw t = Some (sw', []) \<and> hs_asks sw' = Some (length u) \<and>
    hs_arrive env sw' u = client_parsed env (client_full s0 S k (length u)) (w0\<lparr>hw_usock := (hw_usock w0)\<lparr>us_in := None\<rparr>\<rparr>) \<and>
    hs_pump env sw (S @ rest) = (hs_arrive env sw' u \<bind> (\<lambda>sw. hs_pump env sw rest))"
proof -
  obtain t u sw' where u: "S = t @ u" "client_reads s0 w0 t sw'" "hs_asks sw' = Some (length u)" "hs_pump env sw (S @ rest) = hs_pump env sw' (u @ rest)"
    "hs_pump env sw t = Some (sw', [])"
    using client.reads_headers [OF assms(1-5), of S env rest] assms(6,7) by (auto simp: hs_pump_def)
  obtain k where k: "hs_arrive env sw' u = client_parsed env (client_full s0 S k (length u)) (w0\<lparr>hw_usock := (hw_usock w0)\<lparr>us_in := None\<rparr>\<rparr>)"
    using client_arrive [OF u(2,3), of env] u(1) assms(3) by auto
  have "hs_pump env sw' (u @ rest) = (hs_arrive env sw' u \<bind> (\<lambda>sw. hs_pump env sw rest))"
    unfolding hs_pump_def using u(3) by (subst stream_pump.simps) simp
  then show ?thesis using u(1,3,4,5) k by (intro exI [of _ t] exI [of _ u] exI [of _ sw'] exI [of _ k]) simp
qed

section \<open>Keys\<close>

lemma b64_chars: "set (rfc4648 bs) \<subseteq> set ENCODEMAP \<union> {0x3D}"
proof -
  have c: "b64_char x \<in> set ENCODEMAP" if "x < 64" for x
  proof -
    have "unat x < 64" using that by (simp add: word_less_nat_alt)
    moreover have "length ENCODEMAP = 64" by code_simp
    ultimately show ?thesis by (simp add: b64_char_def)
  qed
  show ?thesis by (induction bs rule: rfc4648.induct) (auto simp: c six_small)
qed

lemma b64_length: "length (rfc4648 bs) = 4 * ((length bs + 2) div 3)"
proof (induction bs rule: rfc4648.induct)
  case (4 a b c r)
  have "(length (a # b # c # r) + 2) div 3 = (length r + 2 + 1 * 3) div 3" by simp
  also have "\<dots> = 1 + (length r + 2) div 3" by (subst div_mult_self1) simp_all
  finally show ?case using 4 by simp
qed simp_all

text \<open>The text of a header field that stands for itself: no byte ends the string, the line or, at its ends, is dropped.\<close>

definition header_value :: "bytes \<Rightarrow> bool" where
  "header_value v \<longleftrightarrow> 0 \<notin> set v \<and> 0x0D \<notin> set v \<and> trimmed v"

lemma header_value_b64: "header_value (rfc4648 bs)"
proof -
  have e: "0 \<notin> set ENCODEMAP \<union> {0x3D}" "0x0D \<notin> set ENCODEMAP \<union> {0x3D}" "0x20 \<notin> set ENCODEMAP \<union> {0x3D}" by code_simp+
  then have n: "0 \<notin> set (rfc4648 bs)" "0x0D \<notin> set (rfc4648 bs)" "0x20 \<notin> set (rfc4648 bs)" using b64_chars [of bs] by blast+
  moreover have "trimmed (rfc4648 bs)" using n(3) by (metis hd_in_set last_in_set trimmed_def)
  ultimately show ?thesis by (simp add: header_value_def)
qed

lemma length_fips_blocks: "length H = 5 \<Longrightarrow> length (fips_blocks H bs) = 5"
proof (induction H bs rule: fips_blocks.induct)
  case (1 H bs)
  have "length (fips_block H M) = 5" for M by (simp add: fips_block_def split: prod.splits)
  then show ?case using 1 by (subst fips_blocks.simps) simp
qed

lemma length_fips_sha1: "length (fips_sha1 bs) = 20"
proof -
  have "length (fips_out H) = 4 * length H" for H by (induction H) (simp_all add: fips_out_def)
  then show ?thesis unfolding fips_sha1_def by (simp add: length_fips_blocks)
qed

definition accept_key :: "bytes \<Rightarrow> bytes" where
  "accept_key key = rfc4648 (fips_sha1 (key @ NN_WS_HANDSHAKE_MAGIC_GUID))"

lemma accept_key_facts: "length (accept_key key) = 28" "header_value (accept_key key)"
  by (simp_all add: accept_key_def b64_length length_fips_sha1 header_value_b64)

lemma hash_key_ok:
  assumes "length (he_junk env) = 16" "length key \<le> 4096"
  shows "nn_ws_handshake_hash_key env key 29 = Some (Inr (accept_key key))"
proof -
  have "int (length (key @ NN_WS_HANDSHAKE_MAGIC_GUID)) < 4294967296" using assms(2) by (simp add: NN_WS_HANDSHAKE_MAGIC_GUID_def str_def)
  from sha1_correct [OF assms(1) this, of "he_le env"] show ?thesis
    using base64_encode_ok [of "fips_sha1 (key @ NN_WS_HANDSHAKE_MAGIC_GUID)" 29] accept_key_facts(1) [of key]
    by (simp add: nn_ws_handshake_hash_key_def length_fips_sha1 accept_key_def)
qed

section \<open>The request\<close>

lemma header_loop_next: "header pos h = Some (HS_NEXT pos', h') \<Longrightarrow> pos \<noteq> [] \<Longrightarrow> header_loop header pos h = header_loop header pos' h'"
  by (subst header_loop.simps) simp

lemma header_loop_last: "header CRLF h = Some (HS_LAST [], h) \<Longrightarrow> header_loop header CRLF h = Some (Some [], h)"
  by (subst header_loop.simps) (simp add: NN_WS_HANDSHAKE_CRLF_def)

text \<open>A header line: the name with its colon, a space, and the value.\<close>

abbreviation header_line :: "string \<Rightarrow> bytes \<Rightarrow> bytes" where
  "header_line name v \<equiv> str name @ 0x20 # v"

lemma str_app: "str (a @ b) = str a @ str b"
  by (simp add: str_def)

definition request_lines :: "bytes \<Rightarrow> bytes \<Rightarrow> bytes \<Rightarrow> bytes \<Rightarrow> bytes \<Rightarrow> bytes list" where
  "request_lines resource host key version sp = [str ''GET '' @ resource @ 0x20 # str ''HTTP/1.1'', header_line ''Host:'' host,
     header_line ''Upgrade:'' (str ''websocket''), header_line ''Connection:'' (str ''Upgrade''),
     header_line ''Sec-WebSocket-Key:'' key, header_line ''Sec-WebSocket-Version:'' version, header_line ''Sec-WebSocket-Protocol:'' sp]"

lemma str_values:
  "header_value (str ''websocket'')" "header_value (str ''Upgrade'')" "header_value (str ''13'')"
  by (simp_all add: header_value_def trimmed_def str_def)

lemma client_loop:
  assumes "0x0D \<notin> set v" "trimmed v"
  shows "header_loop client_header (str ''Host:'' @ 0x20 # v @ CRLF @ s) h = header_loop client_header s (h\<lparr>h_host := HS_AT (v @ CRLF @ s) (length v)\<rparr>)"
    "header_loop client_header (str ''Upgrade:'' @ 0x20 # v @ CRLF @ s) h = header_loop client_header s (h\<lparr>h_upgrade := HS_AT (v @ CRLF @ s) (length v)\<rparr>)"
    "header_loop client_header (str ''Connection:'' @ 0x20 # v @ CRLF @ s) h = header_loop client_header s (h\<lparr>h_conn := HS_AT (v @ CRLF @ s) (length v)\<rparr>)"
    "header_loop client_header (str ''Sec-WebSocket-Key:'' @ 0x20 # v @ CRLF @ s) h = header_loop client_header s (h\<lparr>h_key := HS_AT (v @ CRLF @ s) (length v)\<rparr>)"
    "header_loop client_header (str ''Sec-WebSocket-Version:'' @ 0x20 # v @ CRLF @ s) h = header_loop client_header s (h\<lparr>h_version := HS_AT (v @ CRLF @ s) (length v)\<rparr>)"
    "header_loop client_header (str ''Sec-WebSocket-Protocol:'' @ 0x20 # v @ CRLF @ s) h = header_loop client_header s (h\<lparr>h_protocol := HS_AT (v @ CRLF @ s) (length v)\<rparr>)"
  by (rule header_loop_next; simp add: client_header_lines assms)+

lemma client_lines_request:
  assumes "0x20 \<notin> set resource" "header_value host" "header_value key" "header_value version" "header_value sp"
  shows "\<exists>b0 b1 b2 b3 b4 b5 b6. client_lines (http_text (request_lines resource host key version sp)) h = Some (Some [], h\<lparr>
     h_uri := HS_AT b0 (length resource), h_host := HS_AT (host @ b1) (length host), h_upgrade := HS_AT (str ''websocket'' @ b2) (length (str ''websocket'')),
     h_conn := HS_AT (str ''Upgrade'' @ b3) (length (str ''Upgrade'')), h_key := HS_AT (key @ b4) (length key),
     h_version := HS_AT (version @ b5) (length version), h_protocol := HS_AT (sp @ b6) (length sp)\<rparr>)"
proof -
  note v = assms(2-5) [unfolded header_value_def] str_values [unfolded header_value_def]
  have uri: "nn_ws_match_value (str '' '') (resource @ 0x20 # s) False False = Some (resource @ 0x20 # s, length resource, s)" for s
    using value_plain [OF assms(1), of "[]" s] by (simp add: str_def)
  show ?thesis
    using v by (simp add: request_lines_def client_lines_def uri client_loop header_loop_last header_last) ((rule exI)+, rule refl)
qed

lemma match_loop_same_length:
  "length e = length v \<Longrightarrow> match_loop ci e (v @ b) = None \<longleftrightarrow> match_loop ci e v = None"
  by (induction e v rule: list_induct2) auto

lemma validate_append: "nn_ws_validate_value e (v @ b) (length v) ci = nn_ws_validate_value e v (length v) ci"
  using match_loop_same_length [of e v ci b] by (auto simp: nn_ws_validate_value_def)

lemma field_is_append: "field_is e (HS_AT (v @ b) (length v)) = Some (nn_ws_validate_value e v (length v) True)"
  by (simp add: field_is_def validate_append)

lemma validate_same: "nn_ws_validate_value v v (length v) ci"
  using match_loop_same [of ci v "[]"] by (simp add: nn_ws_validate_value_def)

lemma sp_lookup_append: "sp_lookup own (HS_AT (v @ b) (length v)) ms = sp_lookup own (HS_AT v (length v)) ms"
proof (induction ms)
  case (Cons e ms)
  then show ?case by (cases e) (simp add: validate_append field_is_def)
qed simp

lemma sp_lookup_own:
  "sp_lookup server f ms = Some RESPONSE_OK \<Longrightarrow> sp_lookup own f ms = Some (if own = server then RESPONSE_OK else RESPONSE_NOTPEER)"
proof (induction ms)
  case (Cons e ms)
  obtain a b c where e: "e = (a, b, c)" by (cases e)
  show ?case
  proof (cases "field_is c f")
    case (Some t)
    then show ?thesis using Cons e by (cases t) (auto split: if_splits)
  qed (use Cons e in simp)
qed simp

text \<open>Every line of the table of protocols.\<close>

lemma sp_map_lines:
  assumes "(server, client, sp) \<in> set NN_WS_HANDSHAKE_SP_MAP"
  shows "sp_lookup server (HS_AT sp (length sp)) NN_WS_HANDSHAKE_SP_MAP = Some RESPONSE_OK"
    "find (\<lambda>(s, c, p). c = client) NN_WS_HANDSHAKE_SP_MAP = Some (server, client, sp)"
    "header_value sp" "length sp \<le> 25" "18 \<le> length sp"
proof -
  have "list_all (\<lambda>(server, client, sp). sp_lookup server (HS_AT sp (length sp)) NN_WS_HANDSHAKE_SP_MAP = Some RESPONSE_OK) NN_WS_HANDSHAKE_SP_MAP"
    by code_simp
  moreover have "list_all (\<lambda>(server, client, sp). find (\<lambda>(s, c, p). c = client) NN_WS_HANDSHAKE_SP_MAP = Some (server, client, sp)) NN_WS_HANDSHAKE_SP_MAP"
    by code_simp
  moreover have "list_all (\<lambda>(server, client, sp). header_value sp \<and> length sp \<le> 25 \<and> 18 \<le> length sp) NN_WS_HANDSHAKE_SP_MAP"
    by code_simp
  ultimately show "sp_lookup server (HS_AT sp (length sp)) NN_WS_HANDSHAKE_SP_MAP = Some RESPONSE_OK"
    "find (\<lambda>(s, c, p). c = client) NN_WS_HANDSHAKE_SP_MAP = Some (server, client, sp)" "header_value sp" "length sp \<le> 25" "18 \<le> length sp"
    using assms by (auto simp: list_all_iff)
qed

text \<open>What a client may ask for: the name of a resource without a space, and of a host.\<close>

definition request_ok :: "bytes \<Rightarrow> bytes \<Rightarrow> bool" where
  "request_ok resource host \<longleftrightarrow> resource \<noteq> [] \<and> 0 \<notin> set resource \<and> 0x0D \<notin> set resource \<and> 0x20 \<notin> set resource \<and> header_value host \<and>
     length resource + length host \<le> 3900"

lemma http_text_zero: "0 \<notin> set (http_text ls) \<longleftrightarrow> (\<forall>l \<in> set ls. 0 \<notin> set l)"
  by (induction ls) (auto simp: NN_WS_HANDSHAKE_CRLF_def)

lemma request_text:
  assumes "request_ok resource host" "header_value key" "length key = 24" "header_value version" "2 \<le> length version"
    and "length resource + length host + length version \<le> 3902" "(server, client, sp) \<in> set NN_WS_HANDSHAKE_SP_MAP"
  shows "strstr (http_text (request_lines resource host key version sp)) TERMSEQ = Some TERMSEQ" "0 \<notin> set (http_text (request_lines resource host key version sp))"
    "length (http_text (request_lines resource host key version sp)) \<le> 4095" "length server_min \<le> length (http_text (request_lines resource host key version sp))"
proof -
  note v = assms(1,2,4) sp_map_lines(3) [OF assms(7)]
  note d = request_ok_def header_value_def request_lines_def str_def
  show "strstr (http_text (request_lines resource host key version sp)) TERMSEQ = Some TERMSEQ"
    by (rule http_text_end) (use v in \<open>auto simp: d\<close>)
  show "0 \<notin> set (http_text (request_lines resource host key version sp))" unfolding http_text_zero using v by (auto simp: d)
  show "length (http_text (request_lines resource host key version sp)) \<le> 4095" "length server_min \<le> length (http_text (request_lines resource host key version sp))"
    using assms(1,3,5,6) sp_map_lines(4,5) [OF assms(7)] by (simp_all add: d server_min_def NN_WS_HANDSHAKE_CRLF_def)
qed

lemma request_text_13:
  assumes "request_ok resource host" "header_value key" "length key = 24" "(server, client, sp) \<in> set NN_WS_HANDSHAKE_SP_MAP"
  shows "strstr (http_text (request_lines resource host key (str ''13'') sp)) TERMSEQ = Some TERMSEQ" "0 \<notin> set (http_text (request_lines resource host key (str ''13'') sp))"
    "length (http_text (request_lines resource host key (str ''13'') sp)) \<le> 4095" "length server_min \<le> length (http_text (request_lines resource host key (str ''13'') sp))"
proof -
  have "2 \<le> length (str ''13'')" "length resource + length host + length (str ''13'') \<le> 3902" using assms(1) by (simp_all add: request_ok_def str_def)
  note t = request_text [OF assms(1-3) str_values(3) this assms(4)]
  show "strstr (http_text (request_lines resource host key (str ''13'') sp)) TERMSEQ = Some TERMSEQ" "0 \<notin> set (http_text (request_lines resource host key (str ''13'') sp))"
    "length (http_text (request_lines resource host key (str ''13'') sp)) \<le> 4095" "length server_min \<le> length (http_text (request_lines resource host key (str ''13'') sp))"
    by (rule t)+
qed

text \<open>The server takes the fields out of the request and judges them.\<close>

lemma server_parses:
  assumes "request_ok resource host" "header_value key" "length key = 24" "header_value version" "2 \<le> length version"
    and "length resource + length host + length version \<le> 3902" "(server, client, sp) \<in> set NN_WS_HANDSHAKE_SP_MAP"
  shows "\<exists>H b c d. h_key H = HS_AT (key @ b) (length key) \<and> h_protocol H = HS_AT (sp @ c) (length sp) \<and> h_version H = HS_AT (version @ d) (length version) \<and>
    client_verdict env H = Some (if \<not> nn_ws_validate_value (str ''13'') version (length version) True then RESPONSE_WSVERSION
      else if he_protocol env = server then RESPONSE_OK else RESPONSE_NOTPEER) \<and>
    (\<forall>code. client_verdict env H = Some code \<longrightarrow>
      nn_ws_handshake_parse_client_opening env (server_full s0 (http_text (request_lines resource host key version sp)) k m) =
        Some (if code = RESPONSE_OK then HS_VALID else HS_INVALID,
          (server_full s0 (http_text (request_lines resource host key version sp)) k m)\<lparr>wh_headers := H, wh_response_code := code\<rparr>))"
proof -
  let ?S = "http_text (request_lines resource host key version sp)"
  note t = request_text [OF assms]
  have v: "0x20 \<notin> set resource" "header_value host" using assms(1) by (simp_all add: request_ok_def)
  obtain b0 b1 b2 b3 b4 b5 b6 where l: "client_lines ?S (client_reset (wh_headers s0)) = Some (Some [], (client_reset (wh_headers s0))\<lparr>
     h_uri := HS_AT b0 (length resource), h_host := HS_AT (host @ b1) (length host), h_upgrade := HS_AT (str ''websocket'' @ b2) (length (str ''websocket'')),
     h_conn := HS_AT (str ''Upgrade'' @ b3) (length (str ''Upgrade'')), h_key := HS_AT (key @ b4) (length key),
     h_version := HS_AT (version @ b5) (length version), h_protocol := HS_AT (sp @ b6) (length sp)\<rparr>)" (is "_ = Some (_, ?H)")
    using client_lines_request [OF v assms(2,4) sp_map_lines(3) [OF assms(7)]] by blast
  have c: "client_verdict env ?H = Some (if \<not> nn_ws_validate_value (str ''13'') version (length version) True then RESPONSE_WSVERSION
      else if he_protocol env = server then RESPONSE_OK else RESPONSE_NOTPEER)"
    using sp_lookup_own [OF sp_map_lines(1) [OF assms(7)], of "he_protocol env"] by (simp add: client_verdict_def field_given_def field_is_append validate_same sp_lookup_append)
  have "nn_ws_handshake_parse_client_opening env (server_full s0 ?S k m) =
      Some (if code = RESPONSE_OK then HS_VALID else HS_INVALID, (server_full s0 ?S k m)\<lparr>wh_headers := ?H, wh_response_code := code\<rparr>)"
    if "client_verdict env ?H = Some code" for code
    using t(1,3) l that by (cases s0) (simp add: nn_ws_handshake_parse_client_opening_def server_full_def cstr_text [OF t(2)] Let_def)
  then show ?thesis using c by (intro exI [of _ ?H] exI [of _ b4] exI [of _ b6] exI [of _ b5]) simp
qed

lemma server_accepts:
  assumes "request_ok resource host" "header_value key" "length key = 24" "(server, client, sp) \<in> set NN_WS_HANDSHAKE_SP_MAP"
  shows "\<exists>H b c d. h_key H = HS_AT (key @ b) (length key) \<and> h_protocol H = HS_AT (sp @ c) (length sp) \<and> h_version H = HS_AT (str ''13'' @ d) (length (str ''13'')) \<and>
    nn_ws_handshake_parse_client_opening env (server_full s0 (http_text (request_lines resource host key (str ''13'') sp)) k m) =
      Some (if he_protocol env = server then HS_VALID else HS_INVALID, (server_full s0 (http_text (request_lines resource host key (str ''13'') sp)) k m)
        \<lparr>wh_headers := H, wh_response_code := if he_protocol env = server then RESPONSE_OK else RESPONSE_NOTPEER\<rparr>)"
proof -
  have l: "2 \<le> length (str ''13'')" "length resource + length host + length (str ''13'') \<le> 3902" using assms(1) by (simp_all add: request_ok_def str_def)
  obtain H b c d where H: "h_key H = HS_AT (key @ b) (length key)" "h_protocol H = HS_AT (sp @ c) (length sp)" "h_version H = HS_AT (str ''13'' @ d) (length (str ''13''))"
    "client_verdict env H = Some (if he_protocol env = server then RESPONSE_OK else RESPONSE_NOTPEER)"
    "\<And>code. client_verdict env H = Some code \<Longrightarrow> nn_ws_handshake_parse_client_opening env (server_full s0 (http_text (request_lines resource host key (str ''13'') sp)) k m) =
        Some (if code = RESPONSE_OK then HS_VALID else HS_INVALID,
          (server_full s0 (http_text (request_lines resource host key (str ''13'') sp)) k m)\<lparr>wh_headers := H, wh_response_code := code\<rparr>)"
    using server_parses [OF assms(1-3) str_values(3) l assms(4), of env s0 k m] by (auto simp: validate_same)
  show ?thesis using H(1-3) H(5) [OF H(4)] by (intro exI [of _ H] exI [of _ b] exI [of _ c] exI [of _ d]) simp
qed

section \<open>The answer\<close>

definition response_lines :: "bytes \<Rightarrow> bytes \<Rightarrow> bytes list" where
  "response_lines accept sp = [str ''HTTP/1.1 '' @ str ''101'' @ 0x20 # str ''Switching Protocols'', header_line ''Upgrade:'' (str ''websocket''),
     header_line ''Connection:'' (str ''Upgrade''), header_line ''Sec-WebSocket-Accept:'' accept, header_line ''Sec-WebSocket-Protocol:'' sp]"

lemma response_text:
  assumes "header_value accept" "length accept = 28" "header_value sp" "length sp \<le> 25"
  shows "strstr (http_text (response_lines accept sp)) TERMSEQ = Some TERMSEQ" "0 \<notin> set (http_text (response_lines accept sp))"
    "length (http_text (response_lines accept sp)) \<le> 511" "length client_min \<le> length (http_text (response_lines accept sp))"
proof -
  note d = header_value_def response_lines_def str_def
  show "strstr (http_text (response_lines accept sp)) TERMSEQ = Some TERMSEQ"
    by (rule http_text_end) (use assms in \<open>auto simp: d\<close>)
  show "0 \<notin> set (http_text (response_lines accept sp))" unfolding http_text_zero using assms by (auto simp: d)
  show "length (http_text (response_lines accept sp)) \<le> 511" "length client_min \<le> length (http_text (response_lines accept sp))"
    using assms(2,4) by (simp_all add: d client_min_def NN_WS_HANDSHAKE_CRLF_def)
qed

lemma sprintf_ok:
  assumes "0 \<notin> set text" "length text < length buf"
  shows "\<exists>buf'. sprintf buf text = Some buf' \<and> cstr buf' = text"
  using assms cstr_text0 [OF assms(1)] by (auto simp: sprintf_def buf_store_def)

lemma server_replies:
  assumes "wh_response_code s = RESPONSE_OK" "h_key (wh_headers s) = HS_AT (key @ b) (length key)" "h_protocol (wh_headers s) = HS_AT (sp @ c) (length sp)"
    and "length (he_junk env) = 16" "length key = 24" "header_value sp" "length sp \<le> 25" "\<not> us_out (hw_usock w)"
  shows "\<exists>buf. nn_ws_handshake_server_reply env s w =
    Some (s\<lparr>wh_response := buf\<rparr>, w\<lparr>hw_usock := (hw_usock w)\<lparr>us_out := True, us_wire := us_wire (hw_usock w) @ http_text (response_lines (accept_key key) sp)\<rparr>\<rparr>)"
proof -
  let ?text = "http_text (response_lines (accept_key key) sp)"
  note t = response_text [OF accept_key_facts(2,1) assms(6,7), of key]
  have h: "rc_ok (nn_ws_handshake_hash_key env key 29) = Some (accept_key key)"
    using hash_key_ok [OF assms(4), of key] assms(5) by (simp add: rc_ok_def)
  have e: "str ''HTTP/1.1 101 Switching Protocols'' @ CRLF @ str ''Upgrade: websocket'' @ CRLF @ str ''Connection: Upgrade'' @ CRLF @
      str ''Sec-WebSocket-Accept: '' @ accept_key key @ CRLF @ str ''Sec-WebSocket-Protocol: '' @ sp @ CRLF @ CRLF = ?text"
    by (simp add: response_lines_def str_def)
  have "length ?text < length (replicate 512 (0 :: u8))" using t(3) by simp
  from sprintf_ok [OF t(2) this] obtain buf where b: "sprintf (replicate 512 0) ?text = Some buf" "cstr buf = ?text" by blast
  show ?thesis using assms(1-3,8) h b
    by (intro exI [of _ buf]) (simp add: nn_ws_handshake_server_reply_def field_copy_def accept_key_facts(1) e hw_send_def nn_usock_send_def)
qed

lemma server_loop:
  assumes "0x0D \<notin> set v" "trimmed v"
  shows "header_loop server_header (str ''Upgrade:'' @ 0x20 # v @ CRLF @ s) h = header_loop server_header s (h\<lparr>h_upgrade := HS_AT (v @ CRLF @ s) (length v)\<rparr>)"
    "header_loop server_header (str ''Connection:'' @ 0x20 # v @ CRLF @ s) h = header_loop server_header s (h\<lparr>h_conn := HS_AT (v @ CRLF @ s) (length v)\<rparr>)"
    "header_loop server_header (str ''Sec-WebSocket-Accept:'' @ 0x20 # v @ CRLF @ s) h = header_loop server_header s (h\<lparr>h_accept_key := HS_AT (v @ CRLF @ s) (length v)\<rparr>)"
    "header_loop server_header (str ''Sec-WebSocket-Protocol:'' @ 0x20 # v @ CRLF @ s) h = header_loop server_header s h"
  by (rule header_loop_next; simp add: server_header_lines assms)+

lemma server_lines_response:
  assumes "header_value accept" "header_value sp"
  shows "\<exists>b0 b1 b2 b3 b4. server_lines (http_text (response_lines accept sp)) h = Some (Some [], h\<lparr>
     h_status_code := HS_AT (str ''101'' @ b0) (length (str ''101'')), h_reason_phrase := HS_AT b1 (length (str ''Switching Protocols'')),
     h_upgrade := HS_AT (str ''websocket'' @ b2) (length (str ''websocket'')), h_conn := HS_AT (str ''Upgrade'' @ b3) (length (str ''Upgrade'')),
     h_accept_key := HS_AT (accept @ b4) (length accept)\<rparr>)"
proof -
  note v = assms [unfolded header_value_def] str_values [unfolded header_value_def]
  have status: "nn_ws_match_value (str '' '') (str ''101'' @ 0x20 # s) False False = Some (str ''101'' @ 0x20 # s, length (str ''101''), s)" for s
    using value_plain [of "0x20" "str ''101''" "[]" s] by (simp add: str_def)
  have reason: "nn_ws_match_value CRLF (str ''Switching Protocols'' @ CRLF @ s) False False = Some (str ''Switching Protocols'' @ CRLF @ s, length (str ''Switching Protocols''), s)" for s
    using value_plain [of "0x0D" "str ''Switching Protocols''" "[0x0A]" s] by (simp add: hs_eval)
  show ?thesis
    using v by (simp add: response_lines_def server_lines_def status reason server_loop header_loop_last header_last Let_def) ((rule exI)+, rule refl)
qed

lemma client_accepts:
  assumes "header_value accept" "length accept = 28" "header_value sp" "length sp \<le> 25" "wh_expected s0 = accept"
  shows "\<exists>H. nn_ws_handshake_parse_server_response (client_full s0 (http_text (response_lines accept sp)) k m) =
      Some (HS_VALID, (client_full s0 (http_text (response_lines accept sp)) k m)\<lparr>wh_headers := H\<rparr>)"
proof -
  let ?S = "http_text (response_lines accept sp)"
  note t = response_text [OF assms(1-4)]
  obtain b0 b1 b2 b3 b4 where l: "server_lines ?S (server_reset (wh_headers s0)) = Some (Some [], (server_reset (wh_headers s0))\<lparr>
     h_status_code := HS_AT (str ''101'' @ b0) (length (str ''101'')), h_reason_phrase := HS_AT b1 (length (str ''Switching Protocols'')),
     h_upgrade := HS_AT (str ''websocket'' @ b2) (length (str ''websocket'')), h_conn := HS_AT (str ''Upgrade'' @ b3) (length (str ''Upgrade'')),
     h_accept_key := HS_AT (accept @ b4) (length accept)\<rparr>)" (is "_ = Some (_, ?H)")
    using server_lines_response [OF assms(1,3)] by blast
  have c: "server_verdict accept ?H = Some True" by (simp add: server_verdict_def field_given_def field_is_append validate_same)
  have "nn_ws_handshake_parse_server_response (client_full s0 ?S k m) = Some (HS_VALID, (client_full s0 ?S k m)\<lparr>wh_headers := ?H\<rparr>)"
    using t(1,3) l c assms(5) by (cases s0) (simp add: nn_ws_handshake_parse_server_response_def client_full_def cstr_text [OF t(2)] Let_def)
  then show ?thesis by blast
qed

section \<open>The timer\<close>

text \<open>An exchange under way, and one that is over and only waits for its timer to stop.\<close>

definition hs_running :: "ws_handshaker \<Rightarrow> bool" where
  "hs_running s \<longleftrightarrow> wh_fsm s = FSM_ACTIVE \<and> timer_inv (wh_timer s) \<and> tm_fsm (wh_timer s) = FSM_ACTIVE \<and> tm_raised (wh_timer s) = [] \<and>
     wh_raised s = [] \<and> wh_usock s"

definition hs_over :: "ws_handshake_event \<Rightarrow> ws_handshaker \<Rightarrow> bool" where
  "hs_over e s \<longleftrightarrow> wh_fsm s = FSM_ACTIVE \<and> timer_inv (wh_timer s) \<and> tm_fsm (wh_timer s) = FSM_STOPPING \<and> tm_raised (wh_timer s) = [] \<and>
     wh_raised s = [] \<and> (wh_state s, e) \<in> {(WH_STOPPING_TIMER_ERROR, NN_WS_HANDSHAKE_ERROR), (WH_STOPPING_TIMER_DONE, NN_WS_HANDSHAKE_OK)}"

text \<open>The outcome is reported and the socket given back.\<close>

definition hs_reports :: "hs_env \<Rightarrow> ws_handshake_event \<Rightarrow> ws_handshaker \<Rightarrow> hs_world \<Rightarrow> bool" where
  "hs_reports env e s w \<longleftrightarrow> (\<exists>n s'. n \<le> 2 \<and> handshake_ticks env n (s, w) = Some (s', w) \<and> wh_state s' = WH_DONE \<and> wh_raised s' = [e] \<and> \<not> wh_usock s')"

lemma hs_stop_timer:
  assumes "hs_running s" "(st, e) \<in> {(WH_STOPPING_TIMER_ERROR, NN_WS_HANDSHAKE_ERROR), (WH_STOPPING_TIMER_DONE, NN_WS_HANDSHAKE_OK)}"
  shows "\<exists>s'. handshake_stop_timer s st = Some s' \<and> hs_over e s'"
proof -
  obtain t where "nn_timer_stop (wh_timer s) = Some t" "timer_inv t" "tm_raised t = []" "tm_fsm t = FSM_STOPPING"
    using timer_stop_ok [of "wh_timer s"] assms(1) by (auto simp: hs_running_def)
  then show ?thesis using assms by (auto simp: handshake_stop_timer_def hs_running_def hs_over_def)
qed

lemma handshake_last_tick:
  assumes "timer_tick TaskTick (wh_timer s) = Some t" "tm_raised t = [NN_TIMER_STOPPED]" "wh_fsm s = FSM_ACTIVE" "wh_raised s = []"
    "(wh_state s, e) \<in> {(WH_STOPPING_TIMER_ERROR, NN_WS_HANDSHAKE_ERROR), (WH_STOPPING_TIMER_DONE, NN_WS_HANDSHAKE_OK)}"
  shows "\<exists>s'. handshake_tick env TaskTick s w = Some (s', w) \<and> wh_state s' = WH_DONE \<and> wh_raised s' = [e] \<and> \<not> wh_usock s'"
proof -
  let ?s = "s\<lparr>wh_timer := t\<lparr>tm_raised := []\<rparr>\<rparr>"
  let ?s' = "?s\<lparr>wh_usock := False, wh_state := WH_DONE, wh_raised := [e]\<rparr>"
  have f: "handshake_feed env ?s w (WH_SRC_TIMER NN_TIMER_STOPPED) = Some (?s', w)"
    using assms(3-5) by (cases s) (auto simp: handshake_feed_def nn_ws_handshake_handler_def nn_ws_handshake_leave_def handshake_raise_def)
  have "handshake_pop (s\<lparr>wh_timer := t\<rparr>, w) = Some (NN_TIMER_STOPPED, ?s, w)" "handshake_pop (?s', w) = None"
    using assms(2) by (simp_all add: handshake_pop_def timer_take_def)
  then have "handshake_tick env TaskTick s w = Some (?s', w)"
    using assms(1) nn_ctx_leave_one [of handshake_pop "(s\<lparr>wh_timer := t\<rparr>, w)" NN_TIMER_STOPPED _ "\<lambda>e (s, w). handshake_feed env s w (WH_SRC_TIMER e)" "(?s', w)"]
    by (auto simp: handshake_tick_def f)
  then show ?thesis by simp
qed

lemma hs_over_reports:
  assumes "hs_over e s"
  shows "hs_reports env e s w"
proof -
  have i: "timer_inv (wh_timer s)" "tm_fsm (wh_timer s) = FSM_STOPPING" "tm_raised (wh_timer s) = []" "wh_fsm s = FSM_ACTIVE" "wh_raised s = []"
    "(wh_state s, e) \<in> {(WH_STOPPING_TIMER_ERROR, NN_WS_HANDSHAKE_ERROR), (WH_STOPPING_TIMER_DONE, NN_WS_HANDSHAKE_OK)}"
    using assms by (auto simp: hs_over_def)
  show ?thesis unfolding hs_reports_def
  proof (rule timer_stopping_ticks [OF i(1-3)], goal_cases)
    case (1 t')
    then obtain s' where "handshake_tick env TaskTick s w = Some (s', w)" "wh_state s' = WH_DONE" "wh_raised s' = [e]" "\<not> wh_usock s'"
      using handshake_last_tick [OF 1(1,2) i(4-6)] by blast
    then show ?case by (intro exI [of _ 1] exI [of _ s']) simp
  next
    case (2 t1 t')
    let ?s1 = "s\<lparr>wh_timer := t1\<rparr>"
    have "handshake_tick env TaskTick s w = Some (?s1, w)" using 2(1,2) by (simp add: handshake_tick_def handshake_pop_def timer_take_def)
    moreover obtain s' where "handshake_tick env TaskTick ?s1 w = Some (s', w)" "wh_state s' = WH_DONE" "wh_raised s' = [e]" "\<not> wh_usock s'"
      using handshake_last_tick [of ?s1 t' e] 2(3,4) i(4-6) by auto
    ultimately show ?case by (intro exI [of _ 2] exI [of _ s']) (simp add: numeral_2_eq_2)
  qed
qed

section \<open>The handshake\<close>

lemma server_starts:
  "\<exists>s. handshake_start env NN_WS_SERVER r h handshake_init (fresh_world x) =
      Some (s, (fresh_world x)\<lparr>hw_usock := (hw_usock (fresh_world x))\<lparr>us_in := Some (length server_min)\<rparr>\<rparr>) \<and>
    hs_running s \<and> server_reads s (fresh_world x) [] (s, (fresh_world x)\<lparr>hw_usock := (hw_usock (fresh_world x))\<lparr>us_in := Some (length server_min)\<rparr>\<rparr>)"
proof -
  obtain t where t: "nn_timer_start nn_timer_init 5000 = Some t" "timer_inv t" "tm_fsm t = FSM_ACTIVE" "tm_raised t = []"
    using timer_start_ok [of nn_timer_init 5000] by (auto simp: timer_init_inv nn_timer_isidle_def)
  have l: "4 \<le> length server_min" "length server_min \<le> 4096" by (simp_all add: server_min_def str_def NN_WS_HANDSHAKE_CRLF_def)
  let ?s = "handshake_init\<lparr>wh_fsm := FSM_ACTIVE, wh_state := WH_SERVER_RECV, wh_mode := NN_WS_SERVER, wh_timer := t, wh_usock := True, wh_resource := r, wh_host := h,
     wh_opening_hs := replicate 4096 0, wh_retries := 0, wh_recv_pos := 0, wh_recv_len := length server_min, wh_response := replicate 512 0\<rparr>"
  have "handshake_start env NN_WS_SERVER r h handshake_init (fresh_world x) =
      Some (?s, (fresh_world x)\<lparr>hw_usock := (hw_usock (fresh_world x))\<lparr>us_in := Some (length server_min)\<rparr>\<rparr>)"
    using t(1) l by (simp add: handshake_start_def handshake_init_def handshake_isidle_def nn_ws_handshake_handler_def NN_WS_HANDSHAKE_TIMEOUT_def
        NN_WS_HANDSHAKE_MAX_SIZE_def hw_recv_def nn_usock_recv_def fresh_world_def Let_def)
  moreover have "hs_running ?s" using t by (simp add: hs_running_def handshake_init_def)
  moreover have "server_reads ?s (fresh_world x) [] (?s, (fresh_world x)\<lparr>hw_usock := (hw_usock (fresh_world x))\<lparr>us_in := Some (length server_min)\<rparr>\<rparr>)"
    by (simp add: server_reads_def handshake_init_def)
  ultimately show ?thesis by blast
qed

lemma random_length: "length (fst (nn_random_generate r 16)) = 16"
  by (simp add: nn_random_generate.simps [of _ 16] nn_random_generate.simps [of _ 8] le_bytes_def Let_def)

lemma client_starts:
  assumes "request_ok resource host" "(server, client, sp) \<in> set NN_WS_HANDSHAKE_SP_MAP" "he_protocol env = client" "length (he_junk env) = 16"
  shows "\<exists>s r key. handshake_start env NN_WS_CLIENT resource host handshake_init (fresh_world x) =
      Some (s, \<lparr>hw_usock = \<lparr>us_in = None, us_out = True, us_wire = http_text (request_lines resource host key (str ''13'') sp)\<rparr>, hw_random = r\<rparr>) \<and>
    hs_running s \<and> wh_state s = WH_CLIENT_SEND \<and> wh_expected s = accept_key key \<and> wh_recv_pos s = 0 \<and> wh_retries s = 0 \<and> wh_recv_len s = length client_min \<and>
    wh_response s = replicate 512 0 \<and> header_value key \<and> length key = 24"
proof -
  obtain t where t: "nn_timer_start nn_timer_init 5000 = Some t" "timer_inv t" "tm_fsm t = FSM_ACTIVE" "tm_raised t = []"
    using timer_start_ok [of nn_timer_init 5000] by (auto simp: timer_init_inv nn_timer_isidle_def)
  obtain rk r where rk: "nn_random_generate x 16 = (rk, r)" "length rk = 16" using random_length [of x] by (cases "nn_random_generate x 16") auto
  define key where "key = rfc4648 rk"
  have key: "header_value key" "length key = 24" by (simp_all add: key_def header_value_b64 b64_length rk(2))
  have enc: "rc_ok (nn_base64_encode rk 25) = Some key" using base64_encode_ok [of rk 25] rk(2) key(2) by (simp add: rc_ok_def key_def)
  have hash: "rc_ok (nn_ws_handshake_hash_key env key 29) = Some (accept_key key)" using hash_key_ok [OF assms(4), of key] key(2) by (simp add: rc_ok_def)
  note tx = request_text_13 [OF assms(1) key assms(2)]
  have "length (http_text (request_lines resource host key (str ''13'') sp)) < length (replicate 4096 (0 :: u8))" using tx(3) by simp
  from sprintf_ok [OF tx(2) this] obtain buf where buf: "sprintf (replicate 4096 0) (http_text (request_lines resource host key (str ''13'') sp)) = Some buf"
    "cstr buf = http_text (request_lines resource host key (str ''13'') sp)" by blast
  have e: "str ''GET '' @ resource @ str '' HTTP/1.1'' @ CRLF @ str ''Host: '' @ host @ CRLF @ str ''Upgrade: websocket'' @ CRLF @
      str ''Connection: Upgrade'' @ CRLF @ str ''Sec-WebSocket-Key: '' @ key @ CRLF @ str ''Sec-WebSocket-Version: 13'' @ CRLF @
      str ''Sec-WebSocket-Protocol: '' @ sp @ CRLF @ CRLF = http_text (request_lines resource host key (str ''13'') sp)"
    by (simp add: request_lines_def str_def)
  have l: "4 \<le> length client_min" "length client_min \<le> 512" by (simp_all add: client_min_def str_def NN_WS_HANDSHAKE_CRLF_def)
  have r1: "length resource \<ge> 1" using assms(1) by (cases resource) (simp_all add: request_ok_def)
  let ?s = "handshake_init\<lparr>wh_fsm := FSM_ACTIVE, wh_state := WH_CLIENT_SEND, wh_mode := NN_WS_CLIENT, wh_timer := t, wh_usock := True, wh_resource := resource, wh_host := host,
     wh_opening_hs := buf, wh_retries := 0, wh_recv_pos := 0, wh_recv_len := length client_min, wh_expected := accept_key key, wh_response := replicate 512 0\<rparr>"
  have "handshake_start env NN_WS_CLIENT resource host handshake_init (fresh_world x) =
      Some (?s, \<lparr>hw_usock = \<lparr>us_in = None, us_out = True, us_wire = http_text (request_lines resource host key (str ''13'') sp)\<rparr>, hw_random = r\<rparr>)"
    using t(1) l r1 rk(1) enc hash buf sp_map_lines(2) [OF assms(2)] key(2) assms(3)
    by (simp add: handshake_start_def handshake_init_def handshake_isidle_def nn_ws_handshake_handler_def NN_WS_HANDSHAKE_TIMEOUT_def
        NN_WS_HANDSHAKE_MAX_SIZE_def nn_ws_handshake_client_request_def accept_key_facts(1) e hw_send_def nn_usock_send_def fresh_world_def Let_def)
  moreover have "hs_running ?s" using t by (simp add: hs_running_def handshake_init_def)
  ultimately show ?thesis using key by (intro exI [of _ ?s] exI [of _ r] exI [of _ key]) (simp add: handshake_init_def)
qed

lemma pump_stops: "us_in (hw_usock w) = None \<Longrightarrow> hs_pump env (s, w) bs = Some ((s, w), bs)"
  unfolding hs_pump_def by (subst stream_pump.simps) (simp add: hs_asks_def)

lemma server_side:
  assumes "request_ok resource host" "header_value key" "length key = 24" "(server, client, sp) \<in> set NN_WS_HANDSHAKE_SP_MAP"
    and "he_protocol env = server" "length (he_junk env) = 16" "hs_running s0"
    and "server_reads s0 (fresh_world y) [] sw" "hs_asks sw = Some (length server_min)"
  shows "\<exists>s. hs_pump env sw (http_text (request_lines resource host key (str ''13'') sp) @ rest) =
      Some ((s, (fresh_world y)\<lparr>hw_usock := \<lparr>us_in = None, us_out = True, us_wire = http_text (response_lines (accept_key key) sp)\<rparr>\<rparr>), rest) \<and>
    hs_running s \<and> wh_state s = WH_SERVER_REPLY"
proof -
  let ?S = "http_text (request_lines resource host key (str ''13'') sp)"
  note t = request_text_13 [OF assms(1-4)]
  have n: "4 \<le> length server_min" by (simp add: server_min_def str_def NN_WS_HANDSHAKE_CRLF_def)
  let ?w = "(fresh_world y)\<lparr>hw_usock := (hw_usock (fresh_world y))\<lparr>us_in := None\<rparr>\<rparr>"
  obtain k m where p: "hs_pump env sw (?S @ rest) = (server_parsed env (server_full s0 ?S k m) ?w \<bind> (\<lambda>sw. hs_pump env sw rest))"
    using server_gets_headers [OF t(1-3) assms(8,9) n t(4), of env rest] by metis
  obtain H b c where H: "h_key H = HS_AT (key @ b) (length key)" "h_protocol H = HS_AT (sp @ c) (length sp)"
    "nn_ws_handshake_parse_client_opening env (server_full s0 ?S k m) = Some (HS_VALID, (server_full s0 ?S k m)\<lparr>wh_headers := H, wh_response_code := RESPONSE_OK\<rparr>)"
    using server_accepts [OF assms(1-4), of env s0 k m] assms(5) by auto
  let ?s = "(server_full s0 ?S k m)\<lparr>wh_headers := H, wh_response_code := RESPONSE_OK, wh_state := WH_SERVER_REPLY\<rparr>"
  obtain buf where r: "nn_ws_handshake_server_reply env ?s ?w =
      Some (?s\<lparr>wh_response := buf\<rparr>, ?w\<lparr>hw_usock := (hw_usock ?w)\<lparr>us_out := True, us_wire := us_wire (hw_usock ?w) @ http_text (response_lines (accept_key key) sp)\<rparr>\<rparr>)"
    using server_replies [of ?s key b sp c env ?w] H(1,2) assms(3,6) sp_map_lines(3,4) [OF assms(4)] by (auto simp: fresh_world_def)
  have "server_parsed env (server_full s0 ?S k m) ?w = Some (?s\<lparr>wh_response := buf\<rparr>,
      (fresh_world y)\<lparr>hw_usock := \<lparr>us_in = None, us_out = True, us_wire = http_text (response_lines (accept_key key) sp)\<rparr>\<rparr>)"
    using r unfolding server_parsed_def H(3) by (simp add: fresh_world_def)
  then have "hs_pump env sw (?S @ rest) = Some ((?s\<lparr>wh_response := buf\<rparr>,
      (fresh_world y)\<lparr>hw_usock := \<lparr>us_in = None, us_out = True, us_wire = http_text (response_lines (accept_key key) sp)\<rparr>\<rparr>), rest)"
    unfolding p by (simp add: pump_stops)
  moreover have "hs_running (?s\<lparr>wh_response := buf\<rparr>)" using assms(7) by (simp add: hs_running_def server_full_def)
  ultimately show ?thesis by (intro exI [of _ "?s\<lparr>wh_response := buf\<rparr>"]) simp
qed

lemma client_side:
  assumes "header_value accept" "length accept = 28" "header_value sp" "length sp \<le> 25" "wh_expected s0 = accept" "hs_running s0"
    and "client_reads s0 w0 [] sw" "hs_asks sw = Some (length client_min)"
  shows "\<exists>s. hs_pump env sw (http_text (response_lines accept sp) @ rest) = Some ((s, w0\<lparr>hw_usock := (hw_usock w0)\<lparr>us_in := None\<rparr>\<rparr>), rest) \<and> hs_over NN_WS_HANDSHAKE_OK s"
proof -
  let ?S = "http_text (response_lines accept sp)"
  note t = response_text [OF assms(1-4)]
  have n: "4 \<le> length client_min" by (simp add: client_min_def str_def NN_WS_HANDSHAKE_CRLF_def)
  let ?w = "w0\<lparr>hw_usock := (hw_usock w0)\<lparr>us_in := None\<rparr>\<rparr>"
  obtain k m where p: "hs_pump env sw (?S @ rest) = (client_parsed env (client_full s0 ?S k m) ?w \<bind> (\<lambda>sw. hs_pump env sw rest))"
    using client_gets_headers [OF t(1-3) assms(7,8) n t(4), of env rest] by metis
  obtain H where H: "nn_ws_handshake_parse_server_response (client_full s0 ?S k m) = Some (HS_VALID, (client_full s0 ?S k m)\<lparr>wh_headers := H\<rparr>)"
    using client_accepts [OF assms(1-5)] by blast
  have "hs_running ((client_full s0 ?S k m)\<lparr>wh_headers := H\<rparr>)" using assms(6) by (simp add: hs_running_def client_full_def)
  from hs_stop_timer [OF this, of WH_STOPPING_TIMER_DONE NN_WS_HANDSHAKE_OK] obtain s where
    s: "handshake_stop_timer ((client_full s0 ?S k m)\<lparr>wh_headers := H\<rparr>) WH_STOPPING_TIMER_DONE = Some s" "hs_over NN_WS_HANDSHAKE_OK s" by auto
  have "client_parsed env (client_full s0 ?S k m) ?w = Some (s, ?w)" unfolding client_parsed_def H using s(1) by simp
  then show ?thesis unfolding p using s(2) by (intro exI [of _ s]) (simp add: pump_stops)
qed

text \<open>
  C4: The opening handshake completes.  A client and a server whose protocols belong together, for any resource and host that can
  be named in a request: the request of the client, in whatever pieces the server asks for it, is
  accepted and answered; the answer is accepted by the client, with the key that RFC 6455
  requires; after at most two tasks of the worker both report success and give their sockets
  back; and neither has read a byte of what follows the headers.
\<close>

theorem ws_handshake_completes:
  assumes "request_ok resource host" "(server, client, sp) \<in> set NN_WS_HANDSHAKE_SP_MAP" "he_protocol ce = client" "he_protocol se = server"
    and "length (he_junk ce) = 16" "length (he_junk se) = 16"
  shows "\<exists>c cw s sw s1 sw1 s2 sw2 c1 cw1 c2 cw2.
    handshake_start ce NN_WS_CLIENT resource host handshake_init (fresh_world x) = Some (c, cw) \<and>
    handshake_start se NN_WS_SERVER r h handshake_init (fresh_world y) = Some (s, sw) \<and>
    hs_pump se (s, sw) (us_wire (hw_usock cw) @ rest) = Some ((s1, sw1), rest) \<and>
    handshake_usock se s1 sw1 NN_USOCK_SENT = Some (s2, sw2) \<and> hs_reports se NN_WS_HANDSHAKE_OK s2 sw2 \<and>
    handshake_usock ce c cw NN_USOCK_SENT = Some (c1, cw1) \<and>
    hs_pump ce (c1, cw1) (us_wire (hw_usock sw1) @ rest') = Some ((c2, cw2), rest') \<and> hs_reports ce NN_WS_HANDSHAKE_OK c2 cw2"
proof -
  obtain c rn key where c: "handshake_start ce NN_WS_CLIENT resource host handshake_init (fresh_world x) =
      Some (c, \<lparr>hw_usock = \<lparr>us_in = None, us_out = True, us_wire = http_text (request_lines resource host key (str ''13'') sp)\<rparr>, hw_random = rn\<rparr>)"
    "hs_running c" "wh_state c = WH_CLIENT_SEND" "wh_expected c = accept_key key" "wh_recv_pos c = 0" "wh_retries c = 0" "wh_recv_len c = length client_min"
    "wh_response c = replicate 512 0" "header_value key" "length key = 24"
    using client_starts [OF assms(1,2,3,5)] by metis
  let ?w0 = "\<lparr>hw_usock = \<lparr>us_in = None, us_out = False, us_wire = http_text (request_lines resource host key (str ''13'') sp)\<rparr>, hw_random = rn\<rparr>"
  let ?cw1 = "?w0\<lparr>hw_usock := (hw_usock ?w0)\<lparr>us_in := Some (length client_min)\<rparr>\<rparr>" and ?c1 = "c\<lparr>wh_state := WH_CLIENT_RECV\<rparr>"
  let ?sw = "(fresh_world y)\<lparr>hw_usock := (hw_usock (fresh_world y))\<lparr>us_in := Some (length server_min)\<rparr>\<rparr>"
  let ?sw1 = "(fresh_world y)\<lparr>hw_usock := \<lparr>us_in = None, us_out = True, us_wire = http_text (response_lines (accept_key key) sp)\<rparr>\<rparr>"
  obtain s where s: "handshake_start se NN_WS_SERVER r h handshake_init (fresh_world y) = Some (s, ?sw)"
    "hs_running s" "server_reads s (fresh_world y) [] (s, ?sw)" using server_starts [of se r h y] by blast
  have a: "hs_asks (s, ?sw) = Some (length server_min)" by (simp add: hs_asks_def)
  obtain s1 where s1: "hs_pump se (s, ?sw) (http_text (request_lines resource host key (str ''13'') sp) @ rest) = Some ((s1, ?sw1), rest)"
    "hs_running s1" "wh_state s1 = WH_SERVER_REPLY"
    using server_side [OF assms(1) c(9,10) assms(2,4,6) s(2,3) a, of rest] by blast
  obtain s2 where s2: "handshake_stop_timer s1 WH_STOPPING_TIMER_DONE = Some s2" "hs_over NN_WS_HANDSHAKE_OK s2"
    using hs_stop_timer [OF s1(2), of WH_STOPPING_TIMER_DONE NN_WS_HANDSHAKE_OK] by auto
  have u: "handshake_usock se s1 ?sw1 NN_USOCK_SENT = Some (s2, ?sw1\<lparr>hw_usock := usock_done (hw_usock ?sw1) NN_USOCK_SENT\<rparr>)"
    using s1(2,3) s2(1) by (simp add: handshake_usock_def handshake_feed_def nn_ws_handshake_handler_def hs_running_def)
  have cu: "handshake_usock ce c \<lparr>hw_usock = \<lparr>us_in = None, us_out = True, us_wire = http_text (request_lines resource host key (str ''13'') sp)\<rparr>, hw_random = rn\<rparr> NN_USOCK_SENT = Some (?c1, ?cw1)"
    using c(2,3,7) by (simp add: handshake_usock_def handshake_feed_def nn_ws_handshake_handler_def hs_running_def usock_done_def hw_recv_def nn_usock_recv_def)
  have cr: "hs_running ?c1" using c(2) by (simp add: hs_running_def)
  have "client_reads ?c1 ?w0 [] (?c1, ?cw1)"
    using c(2,5-8) by (cases c) (simp add: client_reads_def hs_running_def)
  moreover have "hs_asks (?c1, ?cw1) = Some (length client_min)" by (simp add: hs_asks_def)
  moreover have "wh_expected ?c1 = accept_key key" using c(4) by simp
  ultimately obtain c2 where c2: "hs_pump ce (?c1, ?cw1) (http_text (response_lines (accept_key key) sp) @ rest') = Some ((c2, ?w0\<lparr>hw_usock := (hw_usock ?w0)\<lparr>us_in := None\<rparr>\<rparr>), rest')"
    "hs_over NN_WS_HANDSHAKE_OK c2"
    using client_side [OF accept_key_facts(2,1) sp_map_lines(3,4) [OF assms(2)] _ cr, of key] by blast
  show ?thesis
    by (intro exI conjI) (rule c(1), rule s(1), use s1(1) in simp, rule u, rule hs_over_reports [OF s2(2)], rule cu, use c2(1) in simp, rule hs_over_reports [OF c2(2)])
qed

text \<open>A socket of some protocol, on a machine with the low byte first.\<close>

definition hs_socket :: "int \<Rightarrow> hs_env" where
  "hs_socket p = \<lparr>he_protocol = p, he_ispeer = (\<lambda>q. q = p), he_le = True, he_junk = replicate 16 0\<rparr>"

lemma request_ok_example: "request_ok (str ''/'') (str ''localhost'')"
  by (simp add: request_ok_def header_value_def trimmed_def str_def)

theorem ws_handshake_completes_witness:
  "\<exists>c cw s sw s1 sw1 s2 sw2 c1 cw1 c2 cw2.
    handshake_start (hs_socket NN_REQ) NN_WS_CLIENT (str ''/'') (str ''localhost'') handshake_init (fresh_world 7) = Some (c, cw) \<and>
    handshake_start (hs_socket NN_REP) NN_WS_SERVER [] [] handshake_init (fresh_world 8) = Some (s, sw) \<and>
    hs_pump (hs_socket NN_REP) (s, sw) (us_wire (hw_usock cw) @ [1, 2]) = Some ((s1, sw1), [1, 2]) \<and>
    handshake_usock (hs_socket NN_REP) s1 sw1 NN_USOCK_SENT = Some (s2, sw2) \<and> hs_reports (hs_socket NN_REP) NN_WS_HANDSHAKE_OK s2 sw2 \<and>
    handshake_usock (hs_socket NN_REQ) c cw NN_USOCK_SENT = Some (c1, cw1) \<and>
    hs_pump (hs_socket NN_REQ) (c1, cw1) (us_wire (hw_usock sw1) @ [3]) = Some ((c2, cw2), [3]) \<and> hs_reports (hs_socket NN_REQ) NN_WS_HANDSHAKE_OK c2 cw2"
proof (rule ws_handshake_completes [OF request_ok_example])
  show "(NN_REP, NN_REQ, str ''rep.sp.nanomsg.org'') \<in> set NN_WS_HANDSHAKE_SP_MAP" by (simp add: NN_WS_HANDSHAKE_SP_MAP_def)
qed (simp_all add: hs_socket_def)

section \<open>Requests that stop the server\<close>

text \<open>The server has received \<open>t\<close> and asks for exactly the bytes \<open>u\<close>; when they arrive the process is aborted.\<close>

definition server_aborts :: "hs_env \<Rightarrow> u64 \<Rightarrow> bytes \<Rightarrow> bool" where
  "server_aborts env x S \<longleftrightarrow> (\<exists>s sw t u s1 sw1. handshake_start env NN_WS_SERVER [] [] handshake_init (fresh_world x) = Some (s, sw) \<and> S = t @ u \<and>
     hs_pump env (s, sw) t = Some ((s1, sw1), []) \<and> us_in (hw_usock sw1) = Some (length u) \<and> handshake_usock env s1 sw1 (NN_USOCK_RECEIVED u) = None)"

lemma server_aborts_rule:
  assumes "strstr S TERMSEQ = Some TERMSEQ" "0 \<notin> set S" "length S \<le> 4095" "length server_min \<le> length S"
    and "\<And>s0 k m w. m \<le> length S \<Longrightarrow> server_parsed env (server_full s0 S k m) w = None"
  shows "server_aborts env x S"
proof -
  let ?sw = "(fresh_world x)\<lparr>hw_usock := (hw_usock (fresh_world x))\<lparr>us_in := Some (length server_min)\<rparr>\<rparr>"
  obtain s where s: "handshake_start env NN_WS_SERVER [] [] handshake_init (fresh_world x) = Some (s, ?sw)" "server_reads s (fresh_world x) [] (s, ?sw)"
    using server_starts [of env "[]" "[]" x] by blast
  have n: "4 \<le> length server_min" "hs_asks (s, ?sw) = Some (length server_min)" by (simp_all add: server_min_def str_def NN_WS_HANDSHAKE_CRLF_def hs_asks_def)
  obtain t u sw' k where t: "S = t @ u" "hs_pump env (s, ?sw) t = Some (sw', [])" "hs_asks sw' = Some (length u)"
    "hs_arrive env sw' u = server_parsed env (server_full s S k (length u)) ((fresh_world x)\<lparr>hw_usock := (hw_usock (fresh_world x))\<lparr>us_in := None\<rparr>\<rparr>)"
    using server_gets_headers [OF assms(1-3) s(2) n(2,1) assms(4), of env "[]"] by metis
  have "hs_arrive env sw' u = None" unfolding t(4) by (rule assms(5)) (simp add: t(1))
  then show ?thesis unfolding server_aborts_def using s(1) t(1-3) by (cases sw') (auto simp: hs_arrive_def hs_asks_def)
qed

lemma server_parsed_foreign:
  assumes "strstr S TERMSEQ = Some TERMSEQ" "0 \<notin> set S" "length S \<le> 4095" "nn_ws_match_token (str ''GET '') S False False = Some None" "m \<le> length S"
  shows "server_parsed env (server_full s0 S k m) w = None"
proof -
  have p: "nn_ws_handshake_parse_client_opening env (server_full s0 S k m) =
      Some (HS_RECV_MORE, (server_full s0 S k m)\<lparr>wh_response_code := RESPONSE_NULL, wh_headers := client_reset (wh_headers s0)\<rparr>)"
    using assms by (simp add: nn_ws_handshake_parse_client_opening_def server_full_def cstr_text client_lines_def Let_def)
  obtain q where q: "S = q @ TERMSEQ" using strstr_Some [OF assms(1)] by auto
  then have l: "4 \<le> length S" by (simp add: NN_WS_HANDSHAKE_TERMSEQ_def)
  have "4 \<le> termseq_tail S (length S) 4" by (rule tail_ge) (simp_all add: q NN_WS_HANDSHAKE_TERMSEQ_def)
  then have "termseq_tail (S @ replicate (4096 - length S) 0) (length S) 4 = 4" using tail_append [OF l] tail_le [of S "length S" 4] by simp
  then show ?thesis using assms(5) unfolding server_parsed_def p by (simp add: server_full_def Let_def)
qed

text \<open>
  C35: A request that is not of HTTP, or of a method other than \<open>GET\<close>, stops the server.  Whatever the text, if it is long enough
  and ends with the first empty line, the server takes it for incomplete, and when it
  computes how many bytes to ask for next an assertion fails.
\<close>

theorem ws_foreign_request_aborts:
  assumes "strstr S NN_WS_HANDSHAKE_TERMSEQ = Some NN_WS_HANDSHAKE_TERMSEQ" "0 \<notin> set S" "length S \<le> 4095" "length server_min \<le> length S"
    and "nn_ws_match_token (str ''GET '') S False False = Some None"
  shows "server_aborts env x S"
  by (rule server_aborts_rule [OF assms(1-4)]) (rule server_parsed_foreign [OF assms(1-3,5)])

theorem ws_foreign_request_aborts_witness:
  "server_aborts (hs_socket NN_PAIR) 5 (http_text [str ''POST / HTTP/1.1'', header_line ''Host:'' (replicate 150 0x78)])"
proof (rule ws_foreign_request_aborts)
  let ?ls = "[str ''POST / HTTP/1.1'', header_line ''Host:'' (replicate 150 0x78)]"
  show "strstr (http_text ?ls) TERMSEQ = Some TERMSEQ" by (rule http_text_end) (auto simp: str_def)
  show "0 \<notin> set (http_text ?ls)" unfolding http_text_zero by (auto simp: str_def)
  show "length (http_text ?ls) \<le> 4095" "length server_min \<le> length (http_text ?ls)" by (simp_all add: str_def server_min_def NN_WS_HANDSHAKE_CRLF_def)
  show "nn_ws_match_token (str ''GET '') (http_text ?ls) False False = Some None" by (simp add: match_token_eq str_def)
qed

text \<open>
  C36: A request with a long version overflows a buffer of the server.  A well-formed request whose field
  \<open>Sec-WebSocket-Version\<close> has 443 bytes or more is refused, and the refusal, which repeats the
  field, does not fit the 512 bytes it is printed into.
\<close>

theorem ws_long_version_overflows:
  assumes "request_ok resource host" "header_value key" "length key = 24" "header_value version" "443 \<le> length version"
    and "length resource + length host + length version \<le> 3902" "(server, client, sp) \<in> set NN_WS_HANDSHAKE_SP_MAP"
  shows "server_aborts env x (http_text (request_lines resource host key version sp))"
proof -
  let ?S = "http_text (request_lines resource host key version sp)"
  have l: "2 \<le> length version" using assms(5) by simp
  note t = request_text [OF assms(1-4) l assms(6,7)]
  have v: "\<not> nn_ws_validate_value (str ''13'') version (length version) True" using assms(5) by (simp add: nn_ws_validate_value_def str_def)
  have "server_parsed env (server_full s0 ?S k m) w = None" for s0 k m w
  proof -
    obtain H d where H: "h_version H = HS_AT (version @ d) (length version)"
      "nn_ws_handshake_parse_client_opening env (server_full s0 ?S k m) = Some (HS_INVALID, (server_full s0 ?S k m)\<lparr>wh_headers := H, wh_response_code := RESPONSE_WSVERSION\<rparr>)"
      using server_parses [OF assms(1-4) l assms(6,7), of env s0 k m] v by auto
    have "512 \<le> length (str ''HTTP/1.1 '' @ str ''400 Unsupported WebSocket Version'' @ CRLF @ str ''Sec-WebSocket-Version: '' @ version @ CRLF)"
      using assms(5) by (simp add: str_def NN_WS_HANDSHAKE_CRLF_def)
    then have "sprintf (replicate 512 0) (str ''HTTP/1.1 '' @ str ''400 Unsupported WebSocket Version'' @ CRLF @ str ''Sec-WebSocket-Version: '' @ version @ CRLF) = None"
      unfolding sprintf_def buf_store_def by (simp add: nn_assert_def)
    then show ?thesis unfolding server_parsed_def H(2) using H(1) by (simp add: nn_ws_handshake_server_reply_def field_copy_def hs_code_def)
  qed
  then show ?thesis by (intro server_aborts_rule [OF t])
qed

theorem ws_long_version_overflows_witness:
  "server_aborts (hs_socket NN_PAIR) 5 (http_text (request_lines (str ''/'') (str ''localhost'') (replicate 24 0x41) (replicate 443 0x31) (str ''pair.sp.nanomsg.org'')))"
proof (rule ws_long_version_overflows [OF request_ok_example])
  show "(NN_PAIR, NN_PAIR, str ''pair.sp.nanomsg.org'') \<in> set NN_WS_HANDSHAKE_SP_MAP" by (simp add: NN_WS_HANDSHAKE_SP_MAP_def)
qed (simp_all add: header_value_def trimmed_def str_def)

section \<open>Refusal\<close>

definition refusal :: bytes where
  "refusal = str ''HTTP/1.1 400 Incompatible Socket Type'' @ CRLF @ str ''Sec-WebSocket-Version: 13'' @ CRLF"

lemma server_refuses:
  assumes "wh_response_code s = RESPONSE_NOTPEER" "h_version (wh_headers s) = HS_AT (str ''13'' @ d) (length (str ''13''))" "\<not> us_out (hw_usock w)"
  shows "\<exists>buf. nn_ws_handshake_server_reply env s w =
    Some (s\<lparr>wh_response := buf\<rparr>, w\<lparr>hw_usock := (hw_usock w)\<lparr>us_out := True, us_wire := us_wire (hw_usock w) @ refusal\<rparr>\<rparr>)"
proof -
  have "0 \<notin> set refusal" "length refusal < length (replicate 512 (0 :: u8))" by (simp_all add: refusal_def str_def NN_WS_HANDSHAKE_CRLF_def)
  from sprintf_ok [OF this] obtain buf where b: "sprintf (replicate 512 0) refusal = Some buf" "cstr buf = refusal" by blast
  have e: "str ''HTTP/1.1 '' @ str ''400 Incompatible Socket Type'' @ CRLF @ str ''Sec-WebSocket-Version: '' @ str ''13'' @ CRLF = refusal"
    by (simp add: refusal_def str_def)
  show ?thesis using assms b
    by (intro exI [of _ buf]) (simp add: nn_ws_handshake_server_reply_def field_copy_def hs_code_def e hw_send_def nn_usock_send_def)
qed

text \<open>
  C37: A refused handshake is reported as a success.  When the protocol the client names is not one the socket of the server talks to, the server
  answers with an error, an answer without the empty line that would end it, and then
  reports \<open>NN_WS_HANDSHAKE_OK\<close> to the connection, which goes on as if it were established.
\<close>

theorem ws_refusal_reports_ok:
  assumes "request_ok resource host" "(server, client, sp) \<in> set NN_WS_HANDSHAKE_SP_MAP" "he_protocol ce = client" "length (he_junk ce) = 16" "he_protocol se \<noteq> server"
  shows "\<exists>c cw s sw s1 sw1 s2 sw2.
    handshake_start ce NN_WS_CLIENT resource host handshake_init (fresh_world x) = Some (c, cw) \<and>
    handshake_start se NN_WS_SERVER r h handshake_init (fresh_world y) = Some (s, sw) \<and>
    hs_pump se (s, sw) (us_wire (hw_usock cw)) = Some ((s1, sw1), []) \<and> us_wire (hw_usock sw1) = refusal \<and> strstr refusal NN_WS_HANDSHAKE_TERMSEQ = None \<and>
    handshake_usock se s1 sw1 NN_USOCK_SENT = Some (s2, sw2) \<and> hs_reports se NN_WS_HANDSHAKE_OK s2 sw2"
proof -
  obtain c rn key where c: "handshake_start ce NN_WS_CLIENT resource host handshake_init (fresh_world x) =
      Some (c, \<lparr>hw_usock = \<lparr>us_in = None, us_out = True, us_wire = http_text (request_lines resource host key (str ''13'') sp)\<rparr>, hw_random = rn\<rparr>)"
    "header_value key" "length key = 24" using client_starts [OF assms(1-4)] by metis
  let ?S = "http_text (request_lines resource host key (str ''13'') sp)"
  note t = request_text_13 [OF assms(1) c(2,3) assms(2)]
  let ?sw = "(fresh_world y)\<lparr>hw_usock := (hw_usock (fresh_world y))\<lparr>us_in := Some (length server_min)\<rparr>\<rparr>"
  obtain s where s: "handshake_start se NN_WS_SERVER r h handshake_init (fresh_world y) = Some (s, ?sw)" "hs_running s" "server_reads s (fresh_world y) [] (s, ?sw)"
    using server_starts [of se r h y] by blast
  have n: "4 \<le> length server_min" "hs_asks (s, ?sw) = Some (length server_min)" by (simp_all add: server_min_def str_def NN_WS_HANDSHAKE_CRLF_def hs_asks_def)
  let ?w = "(fresh_world y)\<lparr>hw_usock := (hw_usock (fresh_world y))\<lparr>us_in := None\<rparr>\<rparr>"
  obtain k m where p: "hs_pump se (s, ?sw) (?S @ []) = (server_parsed se (server_full s ?S k m) ?w \<bind> (\<lambda>sw. hs_pump se sw []))"
    using server_gets_headers [OF t(1-3) s(3) n(2,1) t(4), of se "[]"] by metis
  obtain H d where H: "h_version H = HS_AT (str ''13'' @ d) (length (str ''13''))"
    "nn_ws_handshake_parse_client_opening se (server_full s ?S k m) = Some (HS_INVALID, (server_full s ?S k m)\<lparr>wh_headers := H, wh_response_code := RESPONSE_NOTPEER\<rparr>)"
    using server_accepts [OF assms(1) c(2,3) assms(2), of se s k m] assms(5) by auto
  let ?s = "(server_full s ?S k m)\<lparr>wh_headers := H, wh_response_code := RESPONSE_NOTPEER, wh_state := WH_SERVER_REPLY\<rparr>"
  obtain buf where buf: "nn_ws_handshake_server_reply se ?s ?w =
      Some (?s\<lparr>wh_response := buf\<rparr>, ?w\<lparr>hw_usock := (hw_usock ?w)\<lparr>us_out := True, us_wire := us_wire (hw_usock ?w) @ refusal\<rparr>\<rparr>)"
    using server_refuses [of ?s d ?w se] H(1) by (auto simp: fresh_world_def)
  let ?s1 = "?s\<lparr>wh_response := buf\<rparr>" and ?sw1 = "(fresh_world y)\<lparr>hw_usock := \<lparr>us_in = None, us_out = True, us_wire = refusal\<rparr>\<rparr>"
  have "server_parsed se (server_full s ?S k m) ?w = Some (?s1, ?sw1)" using buf unfolding server_parsed_def H(2) by (simp add: fresh_world_def)
  then have pump: "hs_pump se (s, ?sw) ?S = Some ((?s1, ?sw1), [])" using p by (simp add: pump_stops)
  have run: "hs_running ?s1" using s(2) by (simp add: hs_running_def server_full_def)
  obtain s2 where s2: "handshake_stop_timer ?s1 WH_STOPPING_TIMER_DONE = Some s2" "hs_over NN_WS_HANDSHAKE_OK s2"
    using hs_stop_timer [OF run, of WH_STOPPING_TIMER_DONE NN_WS_HANDSHAKE_OK] by auto
  have u: "handshake_usock se ?s1 ?sw1 NN_USOCK_SENT = Some (s2, ?sw1\<lparr>hw_usock := usock_done (hw_usock ?sw1) NN_USOCK_SENT\<rparr>)"
    using run s2(1) by (simp add: handshake_usock_def handshake_feed_def nn_ws_handshake_handler_def hs_running_def)
  have no: "strstr refusal TERMSEQ = None" by code_simp
  show ?thesis
    by (intro exI conjI) (rule c(1), rule s(1), use pump in simp, simp, rule no, rule u, rule hs_over_reports [OF s2(2)])
qed

theorem ws_refusal_reports_ok_witness:
  "\<exists>c cw s sw s1 sw1 s2 sw2.
    handshake_start (hs_socket NN_REQ) NN_WS_CLIENT (str ''/'') (str ''localhost'') handshake_init (fresh_world 7) = Some (c, cw) \<and>
    handshake_start (hs_socket NN_SUB) NN_WS_SERVER [] [] handshake_init (fresh_world 8) = Some (s, sw) \<and>
    hs_pump (hs_socket NN_SUB) (s, sw) (us_wire (hw_usock cw)) = Some ((s1, sw1), []) \<and> us_wire (hw_usock sw1) = refusal \<and> strstr refusal NN_WS_HANDSHAKE_TERMSEQ = None \<and>
    handshake_usock (hs_socket NN_SUB) s1 sw1 NN_USOCK_SENT = Some (s2, sw2) \<and> hs_reports (hs_socket NN_SUB) NN_WS_HANDSHAKE_OK s2 sw2"
proof (rule ws_refusal_reports_ok [OF request_ok_example])
  show "(NN_REP, NN_REQ, str ''rep.sp.nanomsg.org'') \<in> set NN_WS_HANDSHAKE_SP_MAP" by (simp add: NN_WS_HANDSHAKE_SP_MAP_def)
qed (simp_all add: hs_socket_def NN_SUB_def NN_REP_def)

text \<open>Whatever the text, the parsers come to an end.\<close>

lemma headers_end: "\<exists>r. client_lines S h = Some r" "\<exists>r. server_lines S h = Some r"
proof -
  note e = header_loop_ends [of client_header, OF client_header_shortens] header_loop_ends [of server_header, OF server_header_shortens]
  show "\<exists>r. client_lines S h = Some r" using e(1)
    by (simp add: client_lines_def match_token_eq Let_def split: option.split list.split)
  show "\<exists>r. server_lines S h = Some r" using e(2)
    by (simp add: server_lines_def match_token_eq Let_def split: option.split list.split)
qed

end
